(* ===== verification/Prelude.thy ===== *)
theory Prelude
  imports Main "HOL-Library.Word" "HOL-Library.Code_Target_Nat"
begin

text \<open>
  Shared material of the development: the machine types, the pieces of the C standard library
  the sources use (\<open>tolower\<close>, \<open>isdigit\<close>, \<open>isspace\<close>, \<open>strtoull\<close>, \<open>strtoll\<close>,
  \<open>strstr\<close>, \<open>snprintf("%d")\<close>), the result type of fallible operations with its bind, and
  generic lemmas on lists and 64-bit words.

  Conventions. A \<open>uint64_t\<close> is a \<open>64 word\<close>, so that every sum and product wraps exactly where
  the compiled code does; a C \<open>int\<close> or \<open>int64_t\<close> is a HOL \<open>int\<close> whose range is established
  by the parser that produces it. A NUL-terminated string is the list of its bytes before the
  terminator: the terminator is the end of the list. A fallible operation returns \<open>Inl\<close> of an
  error or \<open>Inr\<close> of its result.
\<close>

unbundle bit_operations_syntax

section \<open>Machine types and theorem collections\<close>

type_synonym u8 = "8 word"
type_synonym u16 = "16 word"
type_synonym u32 = "32 word"
type_synonym u64 = "64 word"

abbreviation UINT64_MAX :: u64 where
  "UINT64_MAX \<equiv> 18446744073709551615"

named_theorems u64_arith \<open>translation of 64-bit comparisons and operations to natural numbers\<close>
named_theorems res_simps \<open>inversion of successful results\<close>

lemma unat_u64_bound: "unat (x :: u64) \<le> 18446744073709551615"
  using unsigned_less [of x, where 'a = nat] by simp

lemma unat_u64_less: "unat (x :: u64) < 18446744073709551616"
  using unsigned_less [of x, where 'a = nat] by simp

lemma unat_max_minus: "unat (UINT64_MAX - a) = 18446744073709551615 - unat a"
  by (subst unat_sub) (use unat_u64_bound [of a] in \<open>auto simp: word_le_nat_alt\<close>)

text \<open>The two overflow tests C code writes for unsigned sums and products.\<close>

lemma u64_add_overflow_iff [u64_arith]:
  "UINT64_MAX - a < b \<longleftrightarrow> 18446744073709551615 < unat a + unat b"
  using unat_u64_bound [of a] by (auto simp: word_less_nat_alt unat_max_minus)

lemma u64_mul_overflow_iff:
  "a \<noteq> 0 \<Longrightarrow> UINT64_MAX div a < b \<longleftrightarrow> 18446744073709551615 < unat a * unat b"
  by (simp add: word_less_nat_alt unat_div div_less_iff_less_mult unat_gt_0 mult.commute)

lemma unat_plus_no_overflow:
  "unat a + unat b \<le> 18446744073709551615 \<Longrightarrow> unat (a + b :: u64) = unat a + unat b"
  by (simp add: unat_word_ariths)

lemma unat_times_no_overflow:
  "unat a * unat b \<le> 18446744073709551615 \<Longrightarrow> unat (a * b :: u64) = unat a * unat b"
  by (simp add: unat_word_ariths)

lemma unat_of_nat_u64: "n < 18446744073709551616 \<Longrightarrow> unat (of_nat n :: u64) = n"
  by (simp add: unat_of_nat)

lemma of_nat_u64_eq_iff:
  "m < 18446744073709551616 \<Longrightarrow> n < 18446744073709551616 \<Longrightarrow>
     (of_nat m :: u64) = of_nat n \<longleftrightarrow> m = n"
  by (metis unat_of_nat_u64)

lemma of_nat_u64_eq_0_iff: "n < 18446744073709551616 \<Longrightarrow> (of_nat n :: u64) = 0 \<longleftrightarrow> n = 0"
  using of_nat_u64_eq_iff [of n 0] by simp

lemma u64_add_wraps_iff:
  "(a + b :: u64) < a \<longleftrightarrow> 18446744073709551615 < unat a + unat b"
proof -
  have "unat (a + b) = (unat a + unat b) mod 18446744073709551616"
    by (simp add: unat_word_ariths)
  then show ?thesis
    using unat_u64_bound [of a] unat_u64_bound [of b]
    by (auto simp: word_less_nat_alt mod_if)
qed

lemma unat_and_not_mask:
  "unat ((x :: u64) AND NOT (mask k)) = unat x div 2 ^ k * 2 ^ k"
proof -
  have "x AND NOT (mask k) = push_bit k (drop_bit k x)"
    by (rule bit_eqI) (auto simp: bit_simps)
  moreover have "unat x div 2 ^ k * 2 ^ k < 2 ^ 64"
    by (rule order_le_less_trans [OF div_times_less_eq_dividend])
      (use unat_u64_less [of x] in simp)
  moreover have "unat (push_bit k (drop_bit k x)) =
      take_bit 64 (push_bit k (drop_bit k (take_bit 64 (unat x))))"
    by (simp only: unsigned_push_bit_eq unsigned_drop_bit_eq) simp
  ultimately show ?thesis
    using unat_u64_less [of x]
    by (simp only: drop_bit_eq_div push_bit_eq_mult take_bit_eq_mod) simp
qed

section \<open>Results\<close>

definition res_bind :: "'e + 'a \<Rightarrow> ('a \<Rightarrow> 'e + 'b) \<Rightarrow> 'e + 'b" where
  "res_bind r k = (case r of Inl e \<Rightarrow> Inl e | Inr x \<Rightarrow> k x)"

lemma res_bind_simps [simp]:
  "res_bind (Inl e) k = Inl e"
  "res_bind (Inr x) k = k x"
  by (simp_all add: res_bind_def)

lemma res_bind_Inr_iff [res_simps]:
  "res_bind r k = Inr y \<longleftrightarrow> (\<exists>x. r = Inr x \<and> k x = Inr y)"
  by (cases r) auto

lemma res_bind_cong [fundef_cong]:
  "r = r' \<Longrightarrow> (\<And>x. r' = Inr x \<Longrightarrow> k x = k' x) \<Longrightarrow> res_bind r k = res_bind r' k'"
  by (cases r') auto

text \<open>\<open>check c e\<close> is the C idiom \<open>if (c) return error(e);\<close>.\<close>

definition check :: "bool \<Rightarrow> 'e \<Rightarrow> 'e + unit" where
  "check c e = (if c then Inl e else Inr ())"

lemma check_simps [simp]:
  "check True e = Inl e"
  "check False e = Inr ()"
  by (simp_all add: check_def)

lemma check_Inr_iff [res_simps]: "check c e = Inr u \<longleftrightarrow> \<not> c"
  by (simp add: check_def)

lemma if_Inl_Inr_iff [res_simps]:
  "(if c then Inl e else r) = Inr y \<longleftrightarrow> \<not> c \<and> r = Inr y"
  by simp

text \<open>\<open>ok_or e r\<close> turns an absent result into the error \<open>e\<close>.\<close>

definition ok_or :: "'e \<Rightarrow> 'a option \<Rightarrow> 'e + 'a" where
  "ok_or e r = (case r of None \<Rightarrow> Inl e | Some x \<Rightarrow> Inr x)"

lemma ok_or_simps [simp]:
  "ok_or e None = Inl e"
  "ok_or e (Some x) = Inr x"
  by (simp_all add: ok_or_def)

lemma ok_or_Inr_iff [res_simps]: "ok_or e r = Inr x \<longleftrightarrow> r = Some x"
  by (cases r) auto

text \<open>A loop over a list whose body threads a state and may fail.\<close>

fun fold_res :: "('a \<Rightarrow> 's \<Rightarrow> 'e + 's) \<Rightarrow> 'a list \<Rightarrow> 's \<Rightarrow> 'e + 's" where
  "fold_res f [] s = Inr s"
| "fold_res f (x # xs) s = res_bind (f x s) (fold_res f xs)"

lemma fold_res_invariant:
  assumes "fold_res f xs s = Inr t" and "P s"
    and "\<And>x s s'. x \<in> set xs \<Longrightarrow> P s \<Longrightarrow> f x s = Inr s' \<Longrightarrow> P s'"
  shows "P t"
  using assms
proof (induction xs arbitrary: s)
  case Nil
  then show ?case by simp
next
  case (Cons x xs)
  from Cons.prems(1) obtain s' where s': "f x s = Inr s'" "fold_res f xs s' = Inr t"
    by (auto simp: res_simps)
  have "P s'" using Cons.prems(2,3) s'(1) by (meson list.set_intros(1))
  with s'(2) show ?case
    using Cons.IH Cons.prems(3) by (meson list.set_intros(2))
qed

lemma fold_res_unit_iff:
  "fold_res f xs () = Inr () \<longleftrightarrow> (\<forall>x \<in> set xs. f x () = Inr ())"
  by (induction xs) (auto simp: res_simps)

lemma fold_res_append:
  "fold_res f (xs @ ys) s = res_bind (fold_res f xs s) (fold_res f ys)"
proof (induction xs arbitrary: s)
  case Nil
  then show ?case by simp
next
  case (Cons x xs)
  then show ?case by (cases "f x s") simp_all
qed

section \<open>Bytes and C strings\<close>

abbreviation NUL :: char where "NUL \<equiv> CHR 0x00"

definition byte :: "char \<Rightarrow> nat" where
  "byte c = of_char c"

text \<open>The C string stored at the start of a byte buffer.\<close>

definition c_str :: "string \<Rightarrow> string" where
  "c_str bs = takeWhile (\<lambda>c. c \<noteq> NUL) bs"

definition tolower :: "char \<Rightarrow> nat" where
  "tolower c = (let b = byte c in if 65 \<le> b \<and> b \<le> 90 then b + 32 else b)"

definition isdigit :: "char \<Rightarrow> bool" where
  "isdigit c \<longleftrightarrow> 48 \<le> byte c \<and> byte c \<le> 57"

definition isspace :: "char \<Rightarrow> bool" where
  "isspace c \<longleftrightarrow> (9 \<le> byte c \<and> byte c \<le> 13) \<or> byte c = 32"

definition digit_val :: "char \<Rightarrow> nat" where
  "digit_val c = byte c - 48"

definition digit_char :: "nat \<Rightarrow> char" where
  "digit_char d = ''0123456789'' ! d"

fun starts_with :: "string \<Rightarrow> string \<Rightarrow> bool" where
  "starts_with s [] = True"
| "starts_with [] (p # ps) = False"
| "starts_with (c # cs) (p # ps) = (c = p \<and> starts_with cs ps)"

text \<open>\<open>strstr(s, needle) != NULL\<close>.\<close>

fun strstr_found :: "string \<Rightarrow> string \<Rightarrow> bool" where
  "strstr_found [] needle = (needle = [])"
| "strstr_found (c # cs) needle = (starts_with (c # cs) needle \<or> strstr_found cs needle)"

lemma starts_with_iff: "starts_with s p \<longleftrightarrow> (\<exists>r. s = p @ r)"
  by (induction s p rule: starts_with.induct) auto

lemma strstr_found_iff: "strstr_found s p \<longleftrightarrow> (\<exists>u v. s = u @ p @ v)"
proof (induction s)
  case Nil
  then show ?case by auto
next
  case (Cons c cs)
  have "(\<exists>u v. c # cs = u @ p @ v) \<longleftrightarrow>
      (\<exists>v. c # cs = p @ v) \<or> (\<exists>u v. cs = u @ p @ v)" (is "?L \<longleftrightarrow> ?R")
  proof
    assume ?L
    then obtain u v where uv: "c # cs = u @ p @ v" by blast
    then show ?R by (cases u) auto
  next
    assume ?R
    then show ?L by (metis append_Cons append_Nil)
  qed
  then show ?case using Cons by (simp add: starts_with_iff del: starts_with.simps)
qed

text \<open>Cutting a buffer at every occurrence of a separator, and the inverse.\<close>

fun split_on :: "char \<Rightarrow> string \<Rightarrow> string list" where
  "split_on c [] = [[]]"
| "split_on c (x # xs) =
     (if x = c then [] # split_on c xs
      else (case split_on c xs of [] \<Rightarrow> [[x]] | y # ys \<Rightarrow> (x # y) # ys))"

fun join_with :: "char \<Rightarrow> string list \<Rightarrow> string" where
  "join_with c [] = []"
| "join_with c [x] = x"
| "join_with c (x # y # ys) = x @ c # join_with c (y # ys)"

lemma split_on_nonempty [simp]: "split_on c xs \<noteq> []"
  by (cases xs) (auto split: list.splits)

lemma split_on_append_sep:
  "c \<notin> set x \<Longrightarrow> split_on c (x @ c # r) = x # split_on c r"
  by (induction x) auto

lemma split_on_no_sep: "c \<notin> set x \<Longrightarrow> split_on c x = [x]"
  by (induction x) auto

lemma split_on_join:
  "fs \<noteq> [] \<Longrightarrow> \<forall>f \<in> set fs. c \<notin> set f \<Longrightarrow> split_on c (join_with c fs) = fs"
  by (induction c fs rule: join_with.induct) (auto simp: split_on_append_sep split_on_no_sep)

lemma c_str_no_nul: "NUL \<notin> set s \<Longrightarrow> c_str s = s"
  by (auto simp: c_str_def takeWhile_eq_all_conv)

section \<open>Decimal numbers\<close>

text \<open>\<open>digits_value acc ds\<close> continues the accumulation \<open>acc * 10 + d\<close> over a run of digits.\<close>

fun digits_value :: "nat \<Rightarrow> string \<Rightarrow> nat" where
  "digits_value acc [] = acc"
| "digits_value acc (c # cs) = digits_value (acc * 10 + digit_val c) cs"

text \<open>
  The shared part of \<open>strtoull\<close> and \<open>strtoll\<close> in base 10: leading white space, an optional
  sign, the longest run of digits. \<open>None\<close> when there is no digit (then \<open>end\<close> is the start of
  the string); otherwise the sign, the magnitude and the rest of the string at \<open>end\<close>.
\<close>

definition strto_scan :: "string \<Rightarrow> (bool \<times> nat \<times> string) option" where
  "strto_scan s =
     (let s1 = dropWhile isspace s;
          neg = (case s1 of c # _ \<Rightarrow> c = CHR ''-'' | [] \<Rightarrow> False);
          s2 = (case s1 of c # cs \<Rightarrow> if c = CHR ''-'' \<or> c = CHR ''+'' then cs else s1 | [] \<Rightarrow> s1);
          ds = takeWhile isdigit s2
      in if ds = [] then None else Some (neg, digits_value 0 ds, dropWhile isdigit s2))"

text \<open>
  \<open>strtoull(s, &end, 10)\<close> with its caller's test \<open>errno || *end != 0\<close>: a magnitude above
  \<open>ULLONG_MAX\<close> sets \<open>ERANGE\<close>; a minus sign negates the result modulo \<open>2 ^ 64\<close> without an
  error.
\<close>

definition strtoull_all :: "string \<Rightarrow> u64 option" where
  "strtoull_all s =
     (case strto_scan s of
        None \<Rightarrow> None
      | Some (neg, m, rest) \<Rightarrow>
          if m > 18446744073709551615 then None
          else if rest \<noteq> [] then None
          else Some (if neg then - of_nat m else of_nat m))"

definition strtoll_all :: "string \<Rightarrow> int option" where
  "strtoll_all s =
     (case strto_scan s of
        None \<Rightarrow> None
      | Some (neg, m, rest) \<Rightarrow>
          let v = (if neg then - int m else int m) in
          if v < - 9223372036854775808 \<or> v > 9223372036854775807 then None
          else if rest \<noteq> [] then None
          else Some v)"

text \<open>\<open>snprintf("%d")\<close> and \<open>"%llu"\<close>: decimal digits, most significant first.\<close>

fun show_nat :: "nat \<Rightarrow> string" where
  "show_nat n = (if n < 10 then [digit_char n] else show_nat (n div 10) @ [digit_char (n mod 10)])"

declare show_nat.simps [simp del]

definition show_int :: "int \<Rightarrow> string" where
  "show_int i = (if i < 0 then CHR ''-'' # show_nat (nat (- i)) else show_nat (nat i))"

lemma digit_char_props:
  assumes "d < 10"
  shows "byte (digit_char d) = 48 + d" "isdigit (digit_char d)" "digit_val (digit_char d) = d"
    "\<not> isspace (digit_char d)" "digit_char d \<noteq> CHR ''-''" "digit_char d \<noteq> CHR ''+''"
    "digit_char d \<noteq> NUL"
proof -
  have "d \<in> {0, 1, 2, 3, 4, 5, 6, 7, 8, 9}" using assms by auto
  then show "byte (digit_char d) = 48 + d" "digit_char d \<noteq> CHR ''-''"
    "digit_char d \<noteq> CHR ''+''" "digit_char d \<noteq> NUL"
    by (auto simp: digit_char_def byte_def numeral_nat)
  then show "isdigit (digit_char d)" "digit_val (digit_char d) = d" "\<not> isspace (digit_char d)"
    using assms by (auto simp: isdigit_def digit_val_def isspace_def)
qed

lemma digits_value_append:
  "digits_value acc (xs @ ys) = digits_value (digits_value acc xs) ys"
  by (induction xs arbitrary: acc) auto

lemma show_nat_nonempty [simp]: "show_nat n \<noteq> []"
  by (subst show_nat.simps) simp

lemma show_nat_digits: "c \<in> set (show_nat n) \<Longrightarrow> \<exists>d < 10. c = digit_char d"
proof (induction n rule: show_nat.induct)
  case (1 n)
  show ?case
  proof (cases "n < 10")
    case True
    then show ?thesis using 1 by (auto simp: show_nat.simps [of n])
  next
    case False
    then show ?thesis using 1 by (force simp: show_nat.simps [of n])
  qed
qed

lemma digits_value_show_nat [simp]: "digits_value 0 (show_nat n) = n"
proof (induction n rule: show_nat.induct)
  case (1 n)
  then show ?case
    by (cases "n < 10") (auto simp: show_nat.simps [of n] digits_value_append digit_char_props)
qed

lemma show_nat_isdigit: "list_all isdigit (show_nat n)"
  using show_nat_digits digit_char_props(2) by (auto simp: list_all_iff)

lemma strto_scan_show_nat:
  assumes "rest = [] \<or> \<not> isdigit (hd rest)"
  shows "strto_scan (show_nat n @ rest) = Some (False, n, rest)"
proof -
  obtain c cs where cs: "show_nat n = c # cs"
    using show_nat_nonempty [of n] by (cases "show_nat n") auto
  then obtain d where d: "d < 10" "c = digit_char d"
    using show_nat_digits [of c n] by auto
  have tw: "takeWhile isdigit (show_nat n @ rest) = show_nat n"
    using show_nat_isdigit [of n] assms
    by (cases rest) (auto simp: takeWhile_append2 list_all_iff)
  have dw: "dropWhile isdigit (show_nat n @ rest) = rest"
    using show_nat_isdigit [of n] assms
    by (cases rest) (auto simp: dropWhile_append2 list_all_iff)
  have sp: "dropWhile isspace (show_nat n @ rest) = show_nat n @ rest"
    using cs d digit_char_props(4) by simp
  have "digits_value (digit_val c) cs = n"
    using digits_value_show_nat [of n] by (simp add: cs)
  then show ?thesis
    unfolding strto_scan_def sp Let_def
    using cs d digit_char_props(5,6) [OF d(1)] tw dw by auto
qed

lemma strtoull_all_show_nat:
  "n \<le> 18446744073709551615 \<Longrightarrow> strtoull_all (show_nat n) = Some (of_nat n)"
  using strto_scan_show_nat [of "[]" n] by (simp add: strtoull_all_def)

lemma strtoll_all_show_int:
  assumes "- 9223372036854775808 \<le> i" "i \<le> 9223372036854775807"
  shows "strtoll_all (show_int i) = Some i"
proof (cases "i < 0")
  case True
  let ?n = "nat (- i)"
  have tw: "takeWhile isdigit (show_nat ?n) = show_nat ?n" "dropWhile isdigit (show_nat ?n) = []"
    using show_nat_isdigit [of ?n] by (auto simp: list_all_iff takeWhile_eq_all_conv)
  have "strto_scan (CHR ''-'' # show_nat ?n) = Some (True, ?n, [])"
    by (simp add: strto_scan_def isspace_def byte_def Let_def tw)
  with True assms show ?thesis by (simp add: strtoll_all_def show_int_def)
next
  case False
  with assms strto_scan_show_nat [of "[]" "nat i"] show ?thesis
    by (simp add: strtoll_all_def show_int_def)
qed

section \<open>Keyed tables\<close>

lemma Max_insert_max:
  "finite S \<Longrightarrow> Max (insert (max a b) S) = Max (insert a (insert (b :: nat) S))"
  by (cases "S = {}") (simp_all add: max.assoc)

text \<open>The linear search of the table code; \<open>None\<close> is the \<open>-1\<close> it returns.\<close>

fun find_index :: "('a \<Rightarrow> bool) \<Rightarrow> 'a list \<Rightarrow> nat option" where
  "find_index P [] = None"
| "find_index P (x # xs) = (if P x then Some 0 else map_option Suc (find_index P xs))"

lemma find_index_None_iff: "find_index P xs = None \<longleftrightarrow> (\<forall>x \<in> set xs. \<not> P x)"
  by (induction xs) auto

lemma find_index_SomeD:
  "find_index P xs = Some i \<Longrightarrow> i < length xs \<and> P (xs ! i) \<and> (\<forall>j < i. \<not> P (xs ! j))"
proof (induction xs arbitrary: i)
  case Nil
  then show ?case by simp
next
  case (Cons x xs)
  then show ?case by (auto simp: nth_Cons split: if_splits nat.splits)
qed

text \<open>
  The contract of a table of rows that is searched by key: what both pack indexes rely on when
  they reject duplicate rows, and what their lookups promise.
\<close>

locale keyed_table =
  fixes key :: "'e \<Rightarrow> 'k"
    and rows :: "'t \<Rightarrow> 'e list"
    and find :: "'t \<Rightarrow> 'k \<Rightarrow> nat option"
  assumes find_None: "find t k = None \<longleftrightarrow> (\<forall>e \<in> set (rows t). key e \<noteq> k)"
    and find_Some: "find t k = Some i \<Longrightarrow> i < length (rows t) \<and> key (rows t ! i) = k"
begin

lemma find_row:
  assumes "distinct (map key (rows t))" and "i < length (rows t)"
  shows "find t (key (rows t ! i)) = Some i"
proof (cases "find t (key (rows t ! i))")
  case None
  with assms(2) show ?thesis by (auto simp: find_None)
next
  case (Some j)
  then have "j < length (rows t)" "key (rows t ! j) = key (rows t ! i)"
    using find_Some by blast+
  then have "j = i"
    using assms by (metis distinct_conv_nth length_map nth_map)
  with Some show ?thesis by simp
qed

lemma lookup_iff:
  assumes "distinct (map key (rows t))"
  shows "map_option (\<lambda>i. rows t ! i) (find t k) = Some e \<longleftrightarrow> e \<in> set (rows t) \<and> key e = k"
proof
  assume "map_option (\<lambda>i. rows t ! i) (find t k) = Some e"
  then show "e \<in> set (rows t) \<and> key e = k" using find_Some by fastforce
next
  assume e: "e \<in> set (rows t) \<and> key e = k"
  then obtain i where "i < length (rows t)" "rows t ! i = e" by (auto simp: in_set_conv_nth)
  with e find_row [OF assms, of i] show "map_option (\<lambda>i. rows t ! i) (find t k) = Some e" by simp
qed

lemma append_fresh:
  assumes "distinct (map key (rows t))" and "find t (key e) = None" and "rows t' = rows t @ [e]"
  shows "distinct (map key (rows t'))"
  using assms by (auto simp: find_None)

end

end
