(* ===== verification/Pack.thy ===== *)
theory Pack
  imports Prelude
begin

text \<open>
  The pack index of the appliance (\<open>src/ds4_pack.c\<close>, \<open>src/ds4_pack.h\<close>): a tab-separated
  table with one row per tensor, which says in which GPU shard and at which offset the tensor
  lies. The theory holds the row parser, the reader \<open>ds4_pack_open\<close>, the queries on an open
  index, the reconciliation with the source model and the shard validation; then the
  well-formedness that opening establishes and what the queries promise under it.

  Files are a parameter: \<open>fs path\<close> is what the operating system returns for a path. Memory
  allocation is taken to succeed, so the out-of-memory returns have no counterpart.
\<close>

section \<open>Data\<close>

record ds4_pack_entry =
  pe_semantic_tensor_id :: string
  pe_source_name :: string
  pe_source_dtype :: string
  pe_source_shape :: string
  pe_runtime_layout :: string
  pe_kernel_family :: string
  pe_shard_file :: string
  pe_owning_gpu :: int
  pe_layer_id :: int
  pe_scale_offset :: int
  pe_source_offset :: u64
  pe_byte_length :: u64
  pe_shard_offset :: u64

record ds4_pack_source_tensor =
  st_name :: string
  st_source_dtype :: string
  st_source_shape :: string
  st_source_offset :: u64
  st_byte_length :: u64

record ds4_pack_reconcile_summary =
  rs_source_tensors :: u64
  rs_pack_rows :: u64
  rs_ok_rows :: u64
  rs_failed_rows :: u64
  rs_extra_pack_rows :: u64

record ds4_pack =
  pk_entries :: "ds4_pack_entry list"
  pk_cap_entries :: u64
  pk_path :: string

text \<open>One constructor per error message of this reader and of the TurboMind one.\<close>

datatype pack_error =
    Missing_index_path
  | Cannot_open string
  | Cannot_seek string
  | Cannot_tell string
  | Index_too_large string
  | Cannot_rewind string
  | Short_read string
  | Index_has_bom
  | Index_has_cr
  | Bad_header
  | Bad_columns nat nat
  | Bad_owning_gpu nat
  | Bad_layer_id nat
  | Bad_numeric_field nat
  | Zero_byte_length nat
  | Offset_overflow nat
  | Duplicate_semantic_id nat
  | Duplicate_source_name nat
  | Unexpected_shard_file string nat
  | Too_many_rows
  | No_tensor_rows
  | Reconcile_failed u64 u64 u64
  | Missing_shard_input
  | Shard_path_too_long string
  | Cannot_stat string
  | Negative_size string
  | Shard_short string u64 u64
  | Bad_shard_file string
  | Zero_size_field nat
  | Experts_exceed_total nat
  | Sidecar_offset_overflow nat
  | Unexpected_sidecar_file string nat

text \<open>What the operating system says about a file: the calls of \<open>read_small_file\<close> in order.\<close>

record file_view =
  fv_seek_end_ok :: bool
  fv_tell :: int
  fv_seek_set_ok :: bool
  fv_bytes :: string

type_synonym file_system = "string \<Rightarrow> file_view option"

section \<open>Reading the index\<close>

definition DS4_PACK_COLS :: nat where
  "DS4_PACK_COLS = 14"

abbreviation TAB :: char where "TAB \<equiv> CHR 0x09"
abbreviation LF :: char where "LF \<equiv> CHR 0x0A"
abbreviation CR :: char where "CR \<equiv> CHR 0x0D"

definition ds4_pack_header :: string where
  "ds4_pack_header = join_with TAB
     [''semantic_tensor_id'', ''source_name'', ''source_dtype'', ''source_shape'',
      ''runtime_layout'', ''owning_gpu'', ''layer_id'', ''kernel_family'', ''source_offset'',
      ''byte_length'', ''shard_file'', ''shard_offset'', ''scale_offset'', ''checksum'']"

definition read_small_file :: "file_system \<Rightarrow> string \<Rightarrow> pack_error + string" where
  "read_small_file fs path =
     (case fs path of
        None \<Rightarrow> Inl (Cannot_open path)
      | Some f \<Rightarrow>
          if \<not> fv_seek_end_ok f then Inl (Cannot_seek path)
          else if fv_tell f < 0 then Inl (Cannot_tell path)
          else if fv_tell f > 64 * 1024 * 1024 then Inl (Index_too_large path)
          else if \<not> fv_seek_set_ok f then Inl (Cannot_rewind path)
          else (let n = nat (fv_tell f); got = take n (fv_bytes f) in
                if length got \<noteq> n then Inl (Short_read path) else Inr got))"

definition parse_u64_field :: "string \<Rightarrow> u64 option" where
  "parse_u64_field s =
     (case s of [] \<Rightarrow> None
      | c # _ \<Rightarrow> if c = CHR ''-'' then None else strtoull_all s)"

definition parse_i64_field :: "string \<Rightarrow> int option" where
  "parse_i64_field s = (if s = [] then None else strtoll_all s)"

definition parse_i32_field :: "string \<Rightarrow> int option" where
  "parse_i32_field s =
     (case parse_i64_field s of
        None \<Rightarrow> None
      | Some v \<Rightarrow> if v < - 2147483648 \<or> v > 2147483647 then None else Some v)"

definition split_tabs :: "string \<Rightarrow> nat \<Rightarrow> string list option" where
  "split_tabs line n_fields =
     (let cols = split_on TAB line in
      if length cols > n_fields then None else Some cols)"

definition valid_shard_name :: "string \<Rightarrow> int \<Rightarrow> bool" where
  "valid_shard_name name gpu \<longleftrightarrow>
     name \<noteq> [] \<and> CHR ''/'' \<notin> set name \<and> CHR 0x5C \<notin> set name \<and>
     name = ''gpu'' @ show_int gpu @ ''.weights''"

text \<open>\<open>sizeof(ds4_pack_entry)\<close> is 96: seven pointers, two ints, four 64-bit numbers.\<close>

definition pack_append :: "ds4_pack \<Rightarrow> ds4_pack_entry \<Rightarrow> pack_error + ds4_pack" where
  "pack_append pack e =
     (let cap = pk_cap_entries pack;
          grow = (of_nat (length (pk_entries pack)) = cap);
          next = (if cap \<noteq> 0 then cap * 2 else 256)
      in if grow \<and> (next < cap \<or> next > UINT64_MAX div 96) then Inl Too_many_rows
         else Inr (pack\<lparr>pk_cap_entries := (if grow then next else cap),
                        pk_entries := pk_entries pack @ [e]\<rparr>))"

definition pack_find_semantic :: "ds4_pack \<Rightarrow> string \<Rightarrow> nat option" where
  "pack_find_semantic pack tid =
     find_index (\<lambda>e. pe_semantic_tensor_id e = tid) (pk_entries pack)"

definition pack_find_source_name :: "ds4_pack \<Rightarrow> string \<Rightarrow> nat option" where
  "pack_find_source_name pack name =
     find_index (\<lambda>e. pe_source_name e = name) (pk_entries pack)"

definition parse_pack_row :: "ds4_pack \<Rightarrow> string \<Rightarrow> nat \<Rightarrow> pack_error + ds4_pack" where
  "parse_pack_row pack line line_no =
     (case split_tabs line DS4_PACK_COLS of
        None \<Rightarrow> Inl (Bad_columns line_no (DS4_PACK_COLS + 1))
      | Some cols \<Rightarrow>
          if length cols \<noteq> DS4_PACK_COLS then Inl (Bad_columns line_no (length cols))
          else
            res_bind (ok_or (Bad_owning_gpu line_no) (parse_i32_field (cols ! 5))) (\<lambda>gpu.
            res_bind (check (gpu < 0) (Bad_owning_gpu line_no)) (\<lambda>_.
            res_bind (ok_or (Bad_layer_id line_no) (parse_i32_field (cols ! 6))) (\<lambda>layer.
            res_bind (ok_or (Bad_numeric_field line_no) (parse_u64_field (cols ! 8))) (\<lambda>src_off.
            res_bind (ok_or (Bad_numeric_field line_no) (parse_u64_field (cols ! 9))) (\<lambda>len.
            res_bind (ok_or (Bad_numeric_field line_no) (parse_u64_field (cols ! 11))) (\<lambda>shard_off.
            res_bind (ok_or (Bad_numeric_field line_no) (parse_i64_field (cols ! 12))) (\<lambda>scale_off.
            res_bind (check (len = 0) (Zero_byte_length line_no)) (\<lambda>_.
            res_bind (check (src_off > UINT64_MAX - len \<or> shard_off > UINT64_MAX - len)
                            (Offset_overflow line_no)) (\<lambda>_.
            res_bind (check (pack_find_semantic pack (cols ! 0) \<noteq> None)
                            (Duplicate_semantic_id line_no)) (\<lambda>_.
            res_bind (check (pack_find_source_name pack (cols ! 1) \<noteq> None)
                            (Duplicate_source_name line_no)) (\<lambda>_.
            res_bind (check (cols ! 10 \<noteq> [] \<and> \<not> valid_shard_name (cols ! 10) gpu)
                            (Unexpected_shard_file (cols ! 10) line_no)) (\<lambda>_.
            pack_append pack
              \<lparr>pe_semantic_tensor_id = cols ! 0,
               pe_source_name = cols ! 1,
               pe_source_dtype = cols ! 2,
               pe_source_shape = cols ! 3,
               pe_runtime_layout = cols ! 4,
               pe_kernel_family = cols ! 7,
               pe_shard_file = cols ! 10,
               pe_owning_gpu = gpu,
               pe_layer_id = layer,
               pe_scale_offset = scale_off,
               pe_source_offset = src_off,
               pe_byte_length = len,
               pe_shard_offset = shard_off\<rparr>)))))))))))))"

text \<open>
  The line loop of \<open>ds4_pack_open\<close>. Each segment between line feeds is read as a C string, so
  a NUL byte ends a line early; an empty line is skipped; the first line, when it is not empty,
  has to be the header.
\<close>

fun pack_read_lines :: "ds4_pack \<Rightarrow> nat \<Rightarrow> string list \<Rightarrow> pack_error + ds4_pack" where
  "pack_read_lines pack line_no [] = Inr pack"
| "pack_read_lines pack line_no (seg # segs) =
     (let line = c_str seg; no = Suc line_no in
      if line = [] then pack_read_lines pack no segs
      else if no = 1 then
        (if line \<noteq> ds4_pack_header then Inl Bad_header else pack_read_lines pack no segs)
      else res_bind (parse_pack_row pack line no) (\<lambda>p. pack_read_lines p no segs))"

definition ds4_pack_open :: "file_system \<Rightarrow> string option \<Rightarrow> pack_error + ds4_pack" where
  "ds4_pack_open fs path_opt =
     (case path_opt of
        None \<Rightarrow> Inl Missing_index_path
      | Some path \<Rightarrow>
          if path = [] then Inl Missing_index_path
          else
            res_bind (read_small_file fs path) (\<lambda>buf.
            res_bind (check (take 3 buf = [CHR 0xEF, CHR 0xBB, CHR 0xBF]) Index_has_bom) (\<lambda>_.
            res_bind (check (CR \<in> set buf) Index_has_cr) (\<lambda>_.
            res_bind (pack_read_lines \<lparr>pk_entries = [], pk_cap_entries = 0, pk_path = path\<rparr> 0
                        (split_on LF buf)) (\<lambda>pack.
            res_bind (check (pk_entries pack = []) No_tensor_rows) (\<lambda>_. Inr pack))))))"

section \<open>Queries on an open index\<close>

definition ds4_pack_count :: "ds4_pack \<Rightarrow> u64" where
  "ds4_pack_count pack = of_nat (length (pk_entries pack))"

definition ds4_pack_max_gpu :: "ds4_pack \<Rightarrow> int" where
  "ds4_pack_max_gpu pack =
     fold (\<lambda>e m. if pe_owning_gpu e > m then pe_owning_gpu e else m) (pk_entries pack) (- 1)"

definition ds4_pack_payload_bytes :: "ds4_pack \<Rightarrow> int \<Rightarrow> u64" where
  "ds4_pack_payload_bytes pack gpu =
     (if gpu < 0 then 0
      else fold (\<lambda>e total. if pe_owning_gpu e = gpu then total + pe_byte_length e else total)
             (pk_entries pack) 0)"

definition arena_end_step :: "int \<Rightarrow> ds4_pack_entry \<Rightarrow> u64 \<Rightarrow> u64" where
  "arena_end_step gpu e end =
     (if pe_owning_gpu e = gpu \<and> pe_shard_offset e + pe_byte_length e > end
      then pe_shard_offset e + pe_byte_length e else end)"

definition ds4_pack_arena_bytes :: "ds4_pack \<Rightarrow> int \<Rightarrow> u64" where
  "ds4_pack_arena_bytes pack gpu =
     (if gpu < 0 then 0 else fold (arena_end_step gpu) (pk_entries pack) 0)"

definition ds4_pack_tensor_count :: "ds4_pack \<Rightarrow> int \<Rightarrow> u64" where
  "ds4_pack_tensor_count pack gpu =
     (if gpu < 0 then 0
      else fold (\<lambda>e total. if pe_owning_gpu e = gpu then total + 1 else total)
             (pk_entries pack) 0)"

definition ds4_pack_lookup :: "ds4_pack \<Rightarrow> string \<Rightarrow> ds4_pack_entry option" where
  "ds4_pack_lookup pack tid =
     map_option (\<lambda>i. pk_entries pack ! i) (pack_find_semantic pack tid)"

text \<open>\<open>cb\<close> is the callback with its user data threaded as a state.\<close>

definition ds4_pack_for_each ::
  "ds4_pack \<Rightarrow> (ds4_pack_entry \<Rightarrow> 's \<Rightarrow> 'e + 's) \<Rightarrow> 's \<Rightarrow> 'e + 's" where
  "ds4_pack_for_each pack cb s = fold_res cb (pk_entries pack) s"

section \<open>Reconciliation and shard validation\<close>

datatype row_status_code =
    Row_ok | Missing_pack_row | Bad_owner | Offset_out_of_range
  | Dtype_mismatch | Shape_mismatch | Offset_mismatch | Byte_length_mismatch

definition row_status ::
  "ds4_pack_entry option \<Rightarrow> ds4_pack_source_tensor \<Rightarrow> u64 \<Rightarrow> int \<Rightarrow> row_status_code" where
  "row_status eo s source_file_size n_gpus =
     (case eo of
        None \<Rightarrow> Missing_pack_row
      | Some e \<Rightarrow>
          if n_gpus > 0 \<and> (pe_owning_gpu e < 0 \<or> pe_owning_gpu e \<ge> n_gpus) then Bad_owner
          else if pe_source_offset e > source_file_size \<or>
                  pe_byte_length e > source_file_size - pe_source_offset e then Offset_out_of_range
          else if pe_source_dtype e \<noteq> st_source_dtype s then Dtype_mismatch
          else if pe_source_shape e \<noteq> st_source_shape s then Shape_mismatch
          else if pe_source_offset e \<noteq> st_source_offset s then Offset_mismatch
          else if pe_byte_length e \<noteq> st_byte_length s then Byte_length_mismatch
          else Row_ok)"

text \<open>The state of the first reconcile loop: the matched flags and the two row counters.\<close>

definition reconcile_source_step ::
  "ds4_pack \<Rightarrow> u64 \<Rightarrow> int \<Rightarrow> ds4_pack_source_tensor \<Rightarrow> bool list \<times> u64 \<times> u64 \<Rightarrow>
   bool list \<times> u64 \<times> u64" where
  "reconcile_source_step pack fsize n_gpus s st =
     (case st of (matched, ok, failed) \<Rightarrow>
        (let idx = pack_find_source_name pack (st_name s);
             e = map_option (\<lambda>i. pk_entries pack ! i) idx;
             matched' = (case idx of None \<Rightarrow> matched | Some i \<Rightarrow> matched[i := True])
         in if row_status e s fsize n_gpus = Row_ok then (matched', ok + 1, failed)
            else (matched', ok, failed + 1)))"

definition ds4_pack_reconcile ::
  "ds4_pack \<Rightarrow> ds4_pack_source_tensor list \<Rightarrow> u64 \<Rightarrow> int \<Rightarrow>
   (pack_error + unit) \<times> ds4_pack_reconcile_summary" where
  "ds4_pack_reconcile pack source fsize n_gpus =
     (let (matched, ok, failed) =
            fold (reconcile_source_step pack fsize n_gpus) source
              (replicate (length (pk_entries pack)) False, 0, 0);
          (extra, failed') =
            fold (\<lambda>m (x, f). if m then (x, f) else (x + 1, f + 1)) matched (0, failed);
          summary = \<lparr>rs_source_tensors = of_nat (length source),
                     rs_pack_rows = of_nat (length (pk_entries pack)),
                     rs_ok_rows = ok, rs_failed_rows = failed', rs_extra_pack_rows = extra\<rparr>
      in (if failed' \<noteq> 0 \<or> extra \<noteq> 0 \<or> ok \<noteq> rs_pack_rows summary
          then Inl (Reconcile_failed ok failed' extra) else Inr (), summary))"

text \<open>\<open>snprintf\<close> into \<open>path[4096]\<close>: trailing slashes of the directory are dropped.\<close>

definition join_path :: "nat \<Rightarrow> string \<Rightarrow> string \<Rightarrow> string option" where
  "join_path outlen dir name =
     (let d = rev (dropWhile (\<lambda>c. c = CHR ''/'') (rev dir));
          r = d @ ''/'' @ name
      in if length r \<ge> outlen then None else Some r)"

text \<open>\<open>stat_size\<close> is the size \<open>stat\<close> reports, \<open>None\<close> when it fails.\<close>

definition file_size :: "(string \<Rightarrow> int option) \<Rightarrow> string \<Rightarrow> pack_error + u64" where
  "file_size stat_size path =
     (case stat_size path of
        None \<Rightarrow> Inl (Cannot_stat path)
      | Some n \<Rightarrow> if n < 0 then Inl (Negative_size path) else Inr (of_int n))"

definition validate_one_shard ::
  "(string \<Rightarrow> int option) \<Rightarrow> ds4_pack \<Rightarrow> string \<Rightarrow> int \<Rightarrow> unit \<Rightarrow> pack_error + unit" where
  "validate_one_shard stat_size pack dir gpu u =
     (let required = ds4_pack_arena_bytes pack gpu;
          name = ''gpu'' @ show_int gpu @ ''.weights''
      in if required = 0 then Inr ()
         else
           res_bind (ok_or (Shard_path_too_long name) (join_path 4096 dir name)) (\<lambda>path.
           res_bind (file_size stat_size path) (\<lambda>size.
           check (size < required) (Shard_short path size required))))"

definition ds4_pack_validate_shards ::
  "(string \<Rightarrow> int option) \<Rightarrow> ds4_pack \<Rightarrow> string \<Rightarrow> pack_error + unit" where
  "ds4_pack_validate_shards stat_size pack dir =
     (if dir = [] then Inl Missing_shard_input
      else
        res_bind (fold_res (validate_one_shard stat_size pack dir)
                    [0..ds4_pack_max_gpu pack] ()) (\<lambda>_.
        fold_res (\<lambda>e u. check (\<not> valid_shard_name (pe_shard_file e) (pe_owning_gpu e))
                          (Bad_shard_file (pe_semantic_tensor_id e)))
          (pk_entries pack) ()))"

section \<open>What opening an index establishes\<close>

definition entry_wf :: "ds4_pack_entry \<Rightarrow> bool" where
  "entry_wf e \<longleftrightarrow>
     0 \<le> pe_owning_gpu e \<and> pe_owning_gpu e \<le> 2147483647 \<and>
     - 2147483648 \<le> pe_layer_id e \<and> pe_layer_id e \<le> 2147483647 \<and>
     pe_byte_length e \<noteq> 0 \<and>
     unat (pe_source_offset e) + unat (pe_byte_length e) \<le> 18446744073709551615 \<and>
     unat (pe_shard_offset e) + unat (pe_byte_length e) \<le> 18446744073709551615 \<and>
     (pe_shard_file e = [] \<or> valid_shard_name (pe_shard_file e) (pe_owning_gpu e))"

definition pack_wf :: "ds4_pack \<Rightarrow> bool" where
  "pack_wf pack \<longleftrightarrow>
     list_all entry_wf (pk_entries pack) \<and>
     distinct (map pe_semantic_tensor_id (pk_entries pack)) \<and>
     distinct (map pe_source_name (pk_entries pack))"

interpretation by_id: keyed_table pe_semantic_tensor_id pk_entries pack_find_semantic
  by unfold_locales
    (auto simp: pack_find_semantic_def find_index_None_iff dest: find_index_SomeD)

interpretation by_source: keyed_table pe_source_name pk_entries pack_find_source_name
  by unfold_locales
    (auto simp: pack_find_source_name_def find_index_None_iff dest: find_index_SomeD)

lemma parse_i32_field_range:
  "parse_i32_field s = Some v \<Longrightarrow> - 2147483648 \<le> v \<and> v \<le> 2147483647"
  by (auto simp: parse_i32_field_def split: option.splits if_splits)

lemma pack_append_entries:
  "pack_append pack e = Inr p \<Longrightarrow> pk_entries p = pk_entries pack @ [e] \<and> pk_path p = pk_path pack"
  by (auto simp: pack_append_def Let_def split: if_splits)

lemma parse_pack_row_appends:
  assumes "parse_pack_row pack line no = Inr p"
  shows "\<exists>e. pk_entries p = pk_entries pack @ [e] \<and> entry_wf e \<and>
     pack_find_semantic pack (pe_semantic_tensor_id e) = None \<and>
     pack_find_source_name pack (pe_source_name e) = None"
  using assms unfolding parse_pack_row_def
  by (auto simp: res_simps entry_wf_def u64_arith add.commute not_less
      split: option.splits if_splits
      dest!: pack_append_entries parse_i32_field_range)

lemma parse_pack_row_wf:
  assumes "parse_pack_row pack line no = Inr p" and "pack_wf pack"
  shows "pack_wf p"
proof -
  obtain e where e: "pk_entries p = pk_entries pack @ [e]" "entry_wf e"
    "pack_find_semantic pack (pe_semantic_tensor_id e) = None"
    "pack_find_source_name pack (pe_source_name e) = None"
    using parse_pack_row_appends [OF assms(1)] by blast
  show ?thesis
    using assms(2) e by_id.append_fresh [of pack e p] by_source.append_fresh [of pack e p]
    by (auto simp: pack_wf_def)
qed

lemma pack_read_lines_wf:
  "pack_read_lines pack no segs = Inr p \<Longrightarrow> pack_wf pack \<Longrightarrow> pack_wf p"
proof (induction pack no segs rule: pack_read_lines.induct)
  case (1 pack no)
  then show ?case by simp
next
  case (2 pack no seg segs)
  then show ?case
    by (auto simp: Let_def res_simps dest: parse_pack_row_wf split: if_splits)
qed

lemma ds4_pack_open_wf:
  "ds4_pack_open fs path = Inr p \<Longrightarrow> pack_wf p \<and> pk_entries p \<noteq> []"
  unfolding ds4_pack_open_def
  by (auto simp: res_simps pack_wf_def [of "\<lparr>pk_entries = [], pk_cap_entries = _, pk_path = _\<rparr>"]
      split: option.splits if_splits dest!: pack_read_lines_wf)

lemma ds4_pack_lookup_iff:
  "pack_wf pack \<Longrightarrow> ds4_pack_lookup pack tid = Some e \<longleftrightarrow>
     e \<in> set (pk_entries pack) \<and> pe_semantic_tensor_id e = tid"
  unfolding ds4_pack_lookup_def by (rule by_id.lookup_iff) (simp add: pack_wf_def)

section \<open>The arena of a GPU covers its tensors\<close>

abbreviation entry_end :: "ds4_pack_entry \<Rightarrow> nat" where
  "entry_end e \<equiv> unat (pe_shard_offset e) + unat (pe_byte_length e)"

lemma unat_arena_end_step:
  "entry_wf e \<Longrightarrow> unat (arena_end_step gpu e a) =
     (if pe_owning_gpu e = gpu then max (unat a) (entry_end e) else unat a)"
  by (auto simp: arena_end_step_def entry_wf_def word_less_nat_alt unat_plus_no_overflow)

lemma unat_fold_arena_end:
  "list_all entry_wf es \<Longrightarrow> unat (fold (arena_end_step gpu) es a) =
     Max (insert (unat a) (entry_end ` {e \<in> set es. pe_owning_gpu e = gpu}))"
proof (induction es arbitrary: a)
  case Nil
  then show ?case by simp
next
  case (Cons e es)
  let ?S = "entry_end ` {e \<in> set es. pe_owning_gpu e = gpu}"
  have IH: "unat (fold (arena_end_step gpu) (e # es) a) =
      Max (insert (unat (arena_end_step gpu e a)) ?S)"
    using Cons by simp
  show ?case
  proof (cases "pe_owning_gpu e = gpu")
    case True
    then have set_eq: "entry_end ` {x \<in> set (e # es). pe_owning_gpu x = gpu} = insert (entry_end e) ?S"
      by auto
    have "Max (insert (max (unat a) (entry_end e)) ?S) = Max (insert (unat a) (insert (entry_end e) ?S))"
      by (rule Max_insert_max) simp
    with True IH Cons.prems set_eq show ?thesis by (simp add: unat_arena_end_step)
  next
    case False
    then have "{x \<in> set (e # es). pe_owning_gpu x = gpu} = {x \<in> set es. pe_owning_gpu x = gpu}"
      by auto
    with False IH Cons.prems show ?thesis by (simp add: unat_arena_end_step)
  qed
qed

lemma ds4_pack_arena_bytes_Max:
  assumes "pack_wf pack" and "0 \<le> gpu"
  shows "unat (ds4_pack_arena_bytes pack gpu) =
     Max (insert 0 (entry_end ` {e \<in> set (pk_entries pack). pe_owning_gpu e = gpu}))"
  using assms unat_fold_arena_end [of "pk_entries pack" gpu 0]
  by (simp add: ds4_pack_arena_bytes_def pack_wf_def)

lemma arena_covers_entry:
  assumes "pack_wf pack" and "e \<in> set (pk_entries pack)"
  shows "entry_end e \<le> unat (ds4_pack_arena_bytes pack (pe_owning_gpu e))"
proof -
  have "0 \<le> pe_owning_gpu e"
    using assms by (auto simp: pack_wf_def list_all_iff entry_wf_def)
  then show ?thesis
    using assms by (simp add: ds4_pack_arena_bytes_Max)
qed

lemma arena_check_passes:
  assumes "pack_wf pack" and "e \<in> set (pk_entries pack)"
    and "a = ds4_pack_arena_bytes pack (pe_owning_gpu e)"
  shows "\<not> (pe_shard_offset e > a \<or> pe_byte_length e > a - pe_shard_offset e)"
proof -
  have "unat (pe_shard_offset e) \<le> unat a" "entry_end e \<le> unat a"
    using arena_covers_entry [OF assms(1,2)] assms(3) by auto
  moreover from this have "unat (a - pe_shard_offset e) = unat a - unat (pe_shard_offset e)"
    by (intro unat_sub) (simp add: word_le_nat_alt)
  ultimately show ?thesis by (auto simp: word_less_nat_alt)
qed

section \<open>Reconciliation\<close>

definition source_entry :: "ds4_pack \<Rightarrow> ds4_pack_source_tensor \<Rightarrow> ds4_pack_entry option" where
  "source_entry pack s = map_option (\<lambda>i. pk_entries pack ! i) (pack_find_source_name pack (st_name s))"

abbreviation source_ok :: "ds4_pack \<Rightarrow> u64 \<Rightarrow> int \<Rightarrow> ds4_pack_source_tensor \<Rightarrow> bool" where
  "source_ok pack fsize n_gpus s \<equiv> row_status (source_entry pack s) s fsize n_gpus = Row_ok"

definition mark_source :: "ds4_pack \<Rightarrow> ds4_pack_source_tensor \<Rightarrow> bool list \<Rightarrow> bool list" where
  "mark_source pack s m =
     (case pack_find_source_name pack (st_name s) of None \<Rightarrow> m | Some i \<Rightarrow> m[i := True])"

lemma fold_reconcile_source:
  "fold (reconcile_source_step pack fsize n_gpus) source (m, a, b) =
     (fold (mark_source pack) source m,
      a + of_nat (length (filter (source_ok pack fsize n_gpus) source)),
      b + of_nat (length (filter (\<lambda>s. \<not> source_ok pack fsize n_gpus s) source)))"
proof (induction source arbitrary: m a b)
  case Nil
  then show ?case by simp
next
  case (Cons s source)
  have "reconcile_source_step pack fsize n_gpus s (m, a, b) =
      (mark_source pack s m, if source_ok pack fsize n_gpus s then a + 1 else a,
       if source_ok pack fsize n_gpus s then b else b + 1)"
    by (simp add: reconcile_source_step_def mark_source_def source_entry_def Let_def)
  then show ?case by (simp add: Cons)
qed

lemma fold_extra_rows:
  "fold (\<lambda>m (x, f). if m then (x, f) else (x + 1, f + 1)) ms (x, f) =
     (x + of_nat (length (filter Not ms)) :: u64, f + of_nat (length (filter Not ms)) :: u64)"
  by (induction ms arbitrary: x f) (auto simp: algebra_simps)

lemma length_mark_source [simp]: "length (mark_source pack s m) = length m"
  by (simp add: mark_source_def split: option.splits)

lemma length_fold_mark [simp]: "length (fold (mark_source pack) source m) = length m"
  by (induction source arbitrary: m) simp_all

lemma nth_fold_mark:
  "i < length m \<Longrightarrow> fold (mark_source pack) source m ! i \<longleftrightarrow>
     m ! i \<or> (\<exists>s \<in> set source. pack_find_source_name pack (st_name s) = Some i)"
proof (induction source arbitrary: m)
  case Nil
  then show ?case by simp
next
  case (Cons s source)
  have "mark_source pack s m ! i \<longleftrightarrow> m ! i \<or> pack_find_source_name pack (st_name s) = Some i"
    using Cons.prems
    by (auto simp: mark_source_def split: option.splits)
      (metis list_update_beyond not_le nth_list_update)+
  with Cons show ?case by auto
qed

lemma source_entry_iff:
  "pack_wf pack \<Longrightarrow> source_entry pack s = Some e \<longleftrightarrow>
     e \<in> set (pk_entries pack) \<and> pe_source_name e = st_name s"
  unfolding source_entry_def by (rule by_source.lookup_iff) (simp add: pack_wf_def)

lemma source_ok_iff:
  assumes "pack_wf pack"
  shows "source_ok pack fsize n_gpus s \<longleftrightarrow>
     (\<exists>e \<in> set (pk_entries pack). pe_source_name e = st_name s \<and>
        row_status (Some e) s fsize n_gpus = Row_ok)"
proof (cases "source_entry pack s")
  case None
  then have "\<forall>e \<in> set (pk_entries pack). pe_source_name e \<noteq> st_name s"
    using source_entry_iff [OF assms, of s] by auto
  with None show ?thesis by (auto simp: row_status_def)
next
  case (Some e)
  then have e: "e \<in> set (pk_entries pack)" "pe_source_name e = st_name s"
    using source_entry_iff [OF assms] by auto
  have uniq: "e' = e" if "e' \<in> set (pk_entries pack)" "pe_source_name e' = st_name s" for e'
    using that Some source_entry_iff [OF assms, of s e'] by simp
  show ?thesis unfolding Some using e uniq by blast
qed

lemma all_rows_matched_iff:
  assumes "pack_wf pack"
  shows "filter Not (fold (mark_source pack) source (replicate (length (pk_entries pack)) False)) = [] \<longleftrightarrow>
     (\<forall>e \<in> set (pk_entries pack). \<exists>s \<in> set source. st_name s = pe_source_name e)"
    (is "?L \<longleftrightarrow> ?R")
proof -
  let ?n = "length (pk_entries pack)"
  have d: "distinct (map pe_source_name (pk_entries pack))" using assms by (simp add: pack_wf_def)
  have "?L \<longleftrightarrow> (\<forall>i < ?n. \<exists>s \<in> set source. pack_find_source_name pack (st_name s) = Some i)"
    by (auto simp: filter_empty_conv all_set_conv_all_nth nth_fold_mark)
  also have "\<dots> \<longleftrightarrow> (\<forall>i < ?n. \<exists>s \<in> set source. st_name s = pe_source_name (pk_entries pack ! i))"
    using by_source.find_row [OF d] by_source.find_Some by metis
  also have "\<dots> \<longleftrightarrow> ?R" by (auto simp: all_set_conv_all_nth)
  finally show ?thesis .
qed

lemma ds4_pack_reconcile_ok_iff:
  assumes wf: "pack_wf pack"
    and small: "length source + length (pk_entries pack) < 18446744073709551616"
  shows "fst (ds4_pack_reconcile pack source fsize n_gpus) = Inr () \<longleftrightarrow>
     (\<forall>s \<in> set source. source_ok pack fsize n_gpus s) \<and>
     (\<forall>e \<in> set (pk_entries pack). \<exists>s \<in> set source. st_name s = pe_source_name e) \<and>
     length source = length (pk_entries pack)"
proof -
  let ?ok = "length (filter (source_ok pack fsize n_gpus) source)"
  let ?bad = "length (filter (\<lambda>s. \<not> source_ok pack fsize n_gpus s) source)"
  let ?ms = "fold (mark_source pack) source (replicate (length (pk_entries pack)) False)"
  let ?ex = "length (filter Not ?ms)"
  have sum: "?ok + ?bad = length source" by (simp add: sum_length_filter_compl)
  have ex: "?ex \<le> length (pk_entries pack)"
    using length_filter_le [of Not ?ms] by simp
  have fst_eq: "fst (ds4_pack_reconcile pack source fsize n_gpus) = Inr () \<longleftrightarrow>
      of_nat ?bad + of_nat ?ex = (0 :: u64) \<and> of_nat ?ex = (0 :: u64) \<and>
      of_nat ?ok = (of_nat (length (pk_entries pack)) :: u64)"
    by (simp add: ds4_pack_reconcile_def fold_reconcile_source fold_extra_rows Let_def)
  have "\<dots> \<longleftrightarrow> ?bad = 0 \<and> ?ex = 0 \<and> ?ok = length (pk_entries pack)"
  proof -
    have b: "?ex < 18446744073709551616" "?bad < 18446744073709551616"
      "?ok < 18446744073709551616" "length (pk_entries pack) < 18446744073709551616"
      using small sum ex by linarith+
    show ?thesis
      using of_nat_u64_eq_0_iff [OF b(1)] of_nat_u64_eq_0_iff [OF b(2)]
        of_nat_u64_eq_iff [OF b(3,4)] by auto
  qed
  also have "\<dots> \<longleftrightarrow> (\<forall>s \<in> set source. source_ok pack fsize n_gpus s) \<and> ?ex = 0 \<and>
      length source = length (pk_entries pack)"
    using sum by (auto simp: filter_empty_conv)
  also have "?ex = 0 \<longleftrightarrow> (\<forall>e \<in> set (pk_entries pack). \<exists>s \<in> set source. st_name s = pe_source_name e)"
    using all_rows_matched_iff [OF wf, of source] by simp
  finally show ?thesis using fst_eq by simp
qed

section \<open>Shard files\<close>

lemma ds4_pack_max_gpu_bound:
  assumes "e \<in> set (pk_entries pack)"
  shows "pe_owning_gpu e \<le> ds4_pack_max_gpu pack"
proof -
  let ?f = "\<lambda>e m. if pe_owning_gpu e > m then pe_owning_gpu e else m"
  have mono: "m \<le> fold ?f es m" for es m
  proof (induction es arbitrary: m)
    case Nil
    then show ?case by simp
  next
    case (Cons e es)
    show ?case using Cons [of "?f e m"] by (auto split: if_splits)
  qed
  have "e \<in> set es \<Longrightarrow> pe_owning_gpu e \<le> fold ?f es m" for es m
  proof (induction es arbitrary: m)
    case Nil
    then show ?case by simp
  next
    case (Cons x es)
    then show ?case using mono [of "?f e m" es] by (auto split: if_splits)
  qed
  with assms show ?thesis by (simp add: ds4_pack_max_gpu_def)
qed

lemma file_size_nonneg:
  "file_size stat_size path = Inr n \<Longrightarrow> \<exists>k \<ge> 0. stat_size path = Some k \<and> n = of_int k"
  by (auto simp: file_size_def not_less split: option.splits if_splits)

lemma unat_of_int_le: "0 \<le> k \<Longrightarrow> int (unat (of_int k :: u64)) \<le> k"
  by (simp add: unat_eq_nat_uint uint_word_of_int zmod_le_nonneg_dividend)

lemma ds4_pack_validate_shards_sound:
  assumes "pack_wf pack" and "ds4_pack_validate_shards stat_size pack dir = Inr ()"
    and "e \<in> set (pk_entries pack)"
  shows "valid_shard_name (pe_shard_file e) (pe_owning_gpu e) \<and>
     (\<exists>path size. join_path 4096 dir (pe_shard_file e) = Some path \<and>
        stat_size path = Some size \<and> int (entry_end e) \<le> size)"
proof -
  let ?g = "pe_owning_gpu e"
  have wf: "entry_wf e" using assms by (auto simp: pack_wf_def list_all_iff)
  have shards: "\<forall>g \<in> set [0..ds4_pack_max_gpu pack]. validate_one_shard stat_size pack dir g () = Inr ()"
    and name: "valid_shard_name (pe_shard_file e) ?g"
    using assms(2,3) by (auto simp: ds4_pack_validate_shards_def res_simps fold_res_unit_iff)
  have one: "validate_one_shard stat_size pack dir ?g () = Inr ()"
    using shards wf ds4_pack_max_gpu_bound [OF assms(3)] by (simp add: entry_wf_def)
  have cover: "entry_end e \<le> unat (ds4_pack_arena_bytes pack ?g)"
    by (rule arena_covers_entry [OF assms(1,3)])
  have "ds4_pack_arena_bytes pack ?g \<noteq> 0"
    using cover wf by (auto simp: entry_wf_def unsigned_eq_0_iff)
  with one name obtain path n where path: "join_path 4096 dir (pe_shard_file e) = Some path"
    and n: "file_size stat_size path = Inr n" "\<not> n < ds4_pack_arena_bytes pack ?g"
    by (auto simp: validate_one_shard_def Let_def res_simps valid_shard_name_def)
  obtain k where k: "k \<ge> 0" "stat_size path = Some k" "n = of_int k"
    using file_size_nonneg [OF n(1)] by blast
  have "entry_end e \<le> unat n" using cover n(2) by (simp add: word_less_nat_alt)
  then have "int (entry_end e) \<le> int (unat n)" by (simp only: of_nat_le_iff)
  also have "\<dots> \<le> k" using unat_of_int_le [OF k(1)] k(3) by simp
  finally have "int (entry_end e) \<le> k" .
  with name path k(2) show ?thesis by blast
qed

end
