(* ===== verification/Packer.thy ===== *)
theory Packer
  imports Pack
begin

text \<open>
  The manifest packer (\<open>src/tools/pack.c\<close>): it reads the tensor manifest, lays the tensors of
  every GPU out one after the other at aligned shard offsets, writes the pack index that
  \<open>ds4_pack_open\<close> reads back, and copies the tensor payloads into the shard files. The theory
  models each of these steps; \<open>die\<close> and \<open>exit\<close> are error results. Files are byte strings: the
  manifest and the source model are inputs, the index text and the shard files are outputs.
\<close>

section \<open>Data\<close>

definition DS4_PACK_MAX_GPUS :: nat where
  "DS4_PACK_MAX_GPUS = 8"

definition DS4_COPY_BUFFER :: nat where
  "DS4_COPY_BUFFER = 8 * 1024 * 1024"

record manifest_row =
  mr_semantic_tensor_id :: string
  mr_source_name :: string
  mr_source_dtype :: string
  mr_source_shape :: string
  mr_runtime_layout :: string
  mr_owning_gpu :: int
  mr_layer_id :: int
  mr_kernel_family :: string
  mr_source_offset :: u64
  mr_byte_length :: u64
  mr_scale_offset :: string
  mr_checksum :: string
  mr_byte_offset_basis :: string
  mr_shard_offset :: u64

record manifest_rows =
  ms_v :: "manifest_row list"
  ms_cap :: u64

record gpu_bucket =
  gb_tensors :: u64
  gb_payload_bytes :: u64
  gb_padded_bytes :: u64

record packer_options =
  po_manifest_path :: "string option"
  po_source_path :: "string option"
  po_out_dir :: "string option"
  po_gpus :: u32
  po_alignment :: u64
  po_write_index :: bool
  po_emit_shards :: bool

datatype packer_error =
    Usage_exit_0
  | Usage_exit_2
  | Invalid_number string string
  | Align_overflow
  | Manifest_too_large
  | Manifest_cannot_open
  | Manifest_empty
  | Manifest_bad_header
  | Manifest_bad_fields nat nat
  | Unsupported_offset_basis string string
  | Invalid_owning_gpu string int
  | Source_range_overflows string
  | Source_cannot_open
  | Range_exceeds_source string
  | Shard_offset_overflow
  | Manifest_required
  | Gpus_out_of_range
  | Align_not_positive
  | Index_requires_out_dir
  | Shards_require_source
  | Shards_require_out_dir
  | Output_path_too_long
  | Seek_failed
  | Short_copy string

section \<open>Numbers and lines\<close>

text \<open>
  \<open>strtoull\<close> without a guard of its own: an empty field has no digits, \<open>end\<close> stays at the
  terminator and the value 0 is accepted.
\<close>

definition parse_u64 :: "string \<Rightarrow> string \<Rightarrow> packer_error + u64" where
  "parse_u64 s field =
     (if s = [] then Inr 0 else ok_or (Invalid_number field s) (strtoull_all s))"

definition parse_i32 :: "string \<Rightarrow> string \<Rightarrow> packer_error + int" where
  "parse_i32 s field =
     (if s = [] then Inr 0
      else res_bind (ok_or (Invalid_number field s) (strtoll_all s)) (\<lambda>v.
           if v < - 2147483648 \<or> v > 2147483647 then Inl (Invalid_number field s) else Inr v))"

definition align_up :: "u64 \<Rightarrow> u64 \<Rightarrow> packer_error + u64" where
  "align_up value alignment =
     (if alignment = 0 then Inr value
      else (let rem = value mod alignment in
            if rem = 0 then Inr value
            else (let delta = alignment - rem in
                  if value > UINT64_MAX - delta then Inl Align_overflow
                  else Inr (value + delta))))"

text \<open>\<open>sizeof(manifest_row)\<close> is 104.\<close>

definition rows_push :: "manifest_rows \<Rightarrow> manifest_row \<Rightarrow> packer_error + manifest_rows" where
  "rows_push rows row =
     (let cap = ms_cap rows;
          grow = (of_nat (length (ms_v rows)) = cap);
          cap' = (if cap \<noteq> 0 then cap * 2 else 1024)
      in if grow \<and> cap' > UINT64_MAX div 104 then Inl Manifest_too_large
         else Inr (rows\<lparr>ms_v := ms_v rows @ [row], ms_cap := (if grow then cap' else cap)\<rparr>))"

definition rstrip_newline :: "string \<Rightarrow> string" where
  "rstrip_newline s = rev (dropWhile (\<lambda>c. c = LF \<or> c = CR) (rev (c_str s)))"

text \<open>The successive results of \<open>getline\<close>: each line with its line feed, the last one without.\<close>

fun getlines :: "string \<Rightarrow> string list" where
  "getlines [] = []"
| "getlines (c # cs) =
     (if c = LF then [LF] # getlines cs
      else (case getlines cs of
              [] \<Rightarrow> [[c]]
            | l # ls \<Rightarrow> (c # l) # ls))"

definition manifest_header :: string where
  "manifest_header = join_with TAB
     [''semantic_tensor_id'', ''source_name'', ''source_dtype'', ''source_shape'',
      ''runtime_layout'', ''owning_gpu'', ''layer_id'', ''kernel_family'', ''byte_offset'',
      ''byte_length'', ''scale_offset'', ''checksum'', ''byte_offset_basis'']"

definition require_manifest_header :: "string \<Rightarrow> packer_error + unit" where
  "require_manifest_header line = check (rstrip_newline line \<noteq> manifest_header) Manifest_bad_header"

section \<open>Reading the manifest\<close>

definition manifest_parse_row :: "string list \<Rightarrow> packer_error + manifest_row" where
  "manifest_parse_row cols =
     res_bind (parse_i32 (cols ! 5) ''owning_gpu'') (\<lambda>gpu.
     res_bind (parse_i32 (cols ! 6) ''layer_id'') (\<lambda>layer.
     res_bind (parse_u64 (cols ! 8) ''byte_offset'') (\<lambda>off.
     res_bind (parse_u64 (cols ! 9) ''byte_length'') (\<lambda>len.
     Inr \<lparr>mr_semantic_tensor_id = cols ! 0, mr_source_name = cols ! 1,
          mr_source_dtype = cols ! 2, mr_source_shape = cols ! 3,
          mr_runtime_layout = cols ! 4, mr_owning_gpu = gpu, mr_layer_id = layer,
          mr_kernel_family = cols ! 7, mr_source_offset = off, mr_byte_length = len,
          mr_scale_offset = cols ! 10, mr_checksum = cols ! 11,
          mr_byte_offset_basis = cols ! 12, mr_shard_offset = 0\<rparr>))))"

definition manifest_row_checks :: "u32 \<Rightarrow> manifest_row \<Rightarrow> packer_error + unit" where
  "manifest_row_checks gpus row =
     res_bind (check (mr_byte_offset_basis row \<noteq> ''absolute_gguf_file'')
                 (Unsupported_offset_basis (mr_source_name row) (mr_byte_offset_basis row))) (\<lambda>_.
     res_bind (check (mr_owning_gpu row < 0 \<or> mr_owning_gpu row \<ge> sint gpus)
                 (Invalid_owning_gpu (mr_source_name row) (mr_owning_gpu row))) (\<lambda>_.
     check (mr_source_offset row > UINT64_MAX - mr_byte_length row)
           (Source_range_overflows (mr_source_name row))))"

definition manifest_line ::
  "u32 \<Rightarrow> string \<Rightarrow> nat \<times> manifest_rows \<Rightarrow> packer_error + nat \<times> manifest_rows" where
  "manifest_line gpus raw st =
     (case st of (line_no, rows) \<Rightarrow>
        (let no = Suc line_no; line = rstrip_newline raw; cols = split_on TAB line in
         if line = [] then Inr (no, rows)
         else if length cols \<noteq> 13 then Inl (Manifest_bad_fields no (min 14 (length cols)))
         else
           res_bind (manifest_parse_row cols) (\<lambda>row.
           res_bind (manifest_row_checks gpus row) (\<lambda>_.
           res_bind (rows_push rows row) (\<lambda>rows'. Inr (no, rows'))))))"

definition read_manifest :: "string option \<Rightarrow> u32 \<Rightarrow> packer_error + manifest_rows" where
  "read_manifest file gpus =
     (case file of
        None \<Rightarrow> Inl Manifest_cannot_open
      | Some bytes \<Rightarrow>
          (case getlines bytes of
             [] \<Rightarrow> Inl Manifest_empty
           | h # ls \<Rightarrow>
               res_bind (require_manifest_header h) (\<lambda>_.
               res_bind (fold_res (manifest_line gpus) ls (1, \<lparr>ms_v = [], ms_cap = 0\<rparr>)) (\<lambda>(no, rows).
               Inr rows))))"

definition validate_source_ranges :: "manifest_row list \<Rightarrow> u64 \<Rightarrow> packer_error + unit" where
  "validate_source_ranges rows src_size =
     fold_res (\<lambda>r u. check (mr_source_offset r > src_size \<or>
                           mr_byte_length r > src_size - mr_source_offset r)
                          (Range_exceeds_source (mr_source_name r))) rows ()"

section \<open>Laying the shards out\<close>

definition bucket_add :: "manifest_row \<Rightarrow> gpu_bucket \<Rightarrow> gpu_bucket" where
  "bucket_add r b = b\<lparr>gb_tensors := gb_tensors b + 1,
                      gb_payload_bytes := gb_payload_bytes b + mr_byte_length r\<rparr>"

text \<open>The row loop: rows, cursors and buckets are the arrays it updates in place.\<close>

fun assign_rows ::
  "u64 \<Rightarrow> manifest_row list \<Rightarrow> u64 list \<Rightarrow> gpu_bucket list \<Rightarrow>
   packer_error + manifest_row list \<times> u64 list \<times> gpu_bucket list" where
  "assign_rows alignment [] cursor gpu = Inr ([], cursor, gpu)"
| "assign_rows alignment (r # rs) cursor gpu =
     (let g = nat (mr_owning_gpu r) in
      res_bind (align_up (cursor ! g) alignment) (\<lambda>c.
      res_bind (check (mr_byte_length r > UINT64_MAX - c) Shard_offset_overflow) (\<lambda>_.
      res_bind (assign_rows alignment rs (cursor[g := c + mr_byte_length r])
                  (gpu[g := bucket_add r (gpu ! g)])) (\<lambda>(rs', cursor', gpu').
      Inr (r\<lparr>mr_shard_offset := c\<rparr> # rs', cursor', gpu')))))"

definition assign_shard_offsets ::
  "manifest_row list \<Rightarrow> u32 \<Rightarrow> u64 \<Rightarrow> packer_error + manifest_row list \<times> gpu_bucket list" where
  "assign_shard_offsets rows gpus alignment =
     res_bind (assign_rows alignment rows (replicate DS4_PACK_MAX_GPUS 0)
        (replicate DS4_PACK_MAX_GPUS \<lparr>gb_tensors = 0, gb_payload_bytes = 0, gb_padded_bytes = 0\<rparr>))
       (\<lambda>(rows', cursor, gpu).
        Inr (rows', map (\<lambda>g. if g < unat gpus then (gpu ! g)\<lparr>gb_padded_bytes := cursor ! g\<rparr>
                             else gpu ! g) [0..<DS4_PACK_MAX_GPUS]))"

section \<open>Writing the index and the shards\<close>

definition index_row :: "manifest_row \<Rightarrow> string" where
  "index_row r = join_with TAB
     [mr_semantic_tensor_id r, mr_source_name r, mr_source_dtype r, mr_source_shape r,
      mr_runtime_layout r, show_int (mr_owning_gpu r), show_int (mr_layer_id r),
      mr_kernel_family r, show_nat (unat (mr_source_offset r)),
      show_nat (unat (mr_byte_length r)), ''gpu'' @ show_int (mr_owning_gpu r) @ ''.weights'',
      show_nat (unat (mr_shard_offset r)), mr_scale_offset r, mr_checksum r]"

definition write_index :: "manifest_row list \<Rightarrow> string" where
  "write_index rows = concat (map (\<lambda>l. l @ [LF]) (ds4_pack_header # map index_row rows))"

text \<open>Writing at a file position: a gap before it reads as zero bytes.\<close>

definition write_at :: "string \<Rightarrow> nat \<Rightarrow> string \<Rightarrow> string" where
  "write_at f pos bs =
     take pos (f @ replicate (pos - length f) NUL) @ bs @ drop (pos + length bs) f"

text \<open>
  The copy loop: \<open>src\<close> is the rest of the source from its file position, \<open>pos\<close> the position
  in the shard \<open>dst\<close>.
\<close>

function copy_exact :: "string \<Rightarrow> string \<Rightarrow> nat \<Rightarrow> nat \<Rightarrow> string \<Rightarrow> packer_error + string" where
  "copy_exact src dst pos left name =
     (if left = 0 then Inr dst
      else (let chunk = (if left > DS4_COPY_BUFFER then DS4_COPY_BUFFER else left) in
            if length src < chunk then Inl (Short_copy name)
            else copy_exact (drop chunk src) (write_at dst pos (take chunk src))
                   (pos + chunk) (left - chunk) name))"
  by pat_completeness auto
termination
  by (relation "measure (\<lambda>(src, dst, pos, left, name). left)") (auto simp: DS4_COPY_BUFFER_def)

declare copy_exact.simps [simp del]

text \<open>A file position is an \<open>off_t\<close>: \<open>fseeko\<close> refuses what does not fit 63 bits.\<close>

definition emit_row ::
  "string \<Rightarrow> manifest_row \<Rightarrow> string list \<Rightarrow> packer_error + string list" where
  "emit_row src r dst =
     (let g = nat (mr_owning_gpu r) in
      if sint (mr_source_offset r) < 0 then Inl Seek_failed
      else if sint (mr_shard_offset r) < 0 then Inl Seek_failed
      else res_bind (copy_exact (drop (unat (mr_source_offset r)) src) (dst ! g)
                       (unat (mr_shard_offset r)) (unat (mr_byte_length r)) (mr_source_name r))
             (\<lambda>f. Inr (dst[g := f])))"

definition ftruncate :: "string \<Rightarrow> nat \<Rightarrow> string" where
  "ftruncate f n = take n (f @ replicate (n - length f) NUL)"

definition emit_shards ::
  "manifest_row list \<Rightarrow> gpu_bucket list \<Rightarrow> u32 \<Rightarrow> string \<Rightarrow> packer_error + string list" where
  "emit_shards rows gpu gpus src =
     res_bind (fold_res (emit_row src) rows (replicate (unat gpus) [])) (\<lambda>dst.
     Inr (map (\<lambda>g. ftruncate (dst ! g) (unat (gb_padded_bytes (gpu ! g)))) [0..<unat gpus]))"

section \<open>The program\<close>

fun packer_args :: "packer_options \<Rightarrow> string list \<Rightarrow> packer_error + packer_options" where
  "packer_args opt [] = Inr opt"
| "packer_args opt (arg # rest) =
     (if arg = ''-h'' \<or> arg = ''--help'' then Inl Usage_exit_0
      else (case rest of
          v # rest' \<Rightarrow>
            if arg = ''--manifest'' then packer_args (opt\<lparr>po_manifest_path := Some v\<rparr>) rest'
            else if arg = ''--source'' then packer_args (opt\<lparr>po_source_path := Some v\<rparr>) rest'
            else if arg = ''--out-dir'' then packer_args (opt\<lparr>po_out_dir := Some v\<rparr>) rest'
            else if arg = ''--gpus'' then
              res_bind (parse_u64 v ''--gpus'') (\<lambda>n. packer_args (opt\<lparr>po_gpus := ucast n\<rparr>) rest')
            else if arg = ''--align'' then
              res_bind (parse_u64 v ''--align'') (\<lambda>n. packer_args (opt\<lparr>po_alignment := n\<rparr>) rest')
            else if arg = ''--write-index'' then packer_args (opt\<lparr>po_write_index := True\<rparr>) rest
            else if arg = ''--emit-shards'' then packer_args (opt\<lparr>po_emit_shards := True\<rparr>) rest
            else Inl Usage_exit_2
        | [] \<Rightarrow>
            if arg = ''--write-index'' then packer_args (opt\<lparr>po_write_index := True\<rparr>) rest
            else if arg = ''--emit-shards'' then packer_args (opt\<lparr>po_emit_shards := True\<rparr>) rest
            else Inl Usage_exit_2))"

definition packer_default_options :: packer_options where
  "packer_default_options =
     \<lparr>po_manifest_path = None, po_source_path = None, po_out_dir = None, po_gpus = 8,
      po_alignment = 256, po_write_index = False, po_emit_shards = False\<rparr>"

definition packer_check_options :: "packer_options \<Rightarrow> packer_error + packer_options" where
  "packer_check_options opt =
     (if po_manifest_path opt = None then Inl Manifest_required
      else if po_gpus opt = 0 \<or> po_gpus opt > of_nat DS4_PACK_MAX_GPUS then Inl Gpus_out_of_range
      else if po_alignment opt = 0 then Inl Align_not_positive
      else if po_write_index opt \<and> po_out_dir opt = None then Inl Index_requires_out_dir
      else if po_emit_shards opt then
        (if po_source_path opt = None then Inl Shards_require_source
         else if po_out_dir opt = None then Inl Shards_require_out_dir
         else Inr (opt\<lparr>po_write_index := True\<rparr>))
      else Inr opt)"

text \<open>What a run leaves behind: the assigned rows, the index text and the shard files.\<close>

record packer_output =
  out_rows :: "manifest_row list"
  out_index :: "string option"
  out_shards :: "string list option"

definition packer_main :: "(string \<Rightarrow> string option) \<Rightarrow> string list \<Rightarrow> packer_error + packer_output" where
  "packer_main files argv =
     res_bind (packer_args packer_default_options argv) (\<lambda>opt0.
     res_bind (packer_check_options opt0) (\<lambda>opt.
     res_bind (read_manifest (Option.bind (po_manifest_path opt) files) (po_gpus opt)) (\<lambda>rows.
     res_bind (case po_source_path opt of
                 None \<Rightarrow> Inr ()
               | Some path \<Rightarrow>
                   res_bind (ok_or Source_cannot_open (files path)) (\<lambda>src.
                   validate_source_ranges (ms_v rows) (of_nat (length src)))) (\<lambda>_.
     res_bind (assign_shard_offsets (ms_v rows) (po_gpus opt) (po_alignment opt)) (\<lambda>(rows', gpu).
     res_bind (case po_out_dir opt of
                 None \<Rightarrow> Inr ()
               | Some dir \<Rightarrow> check (po_write_index opt \<and> length (dir @ ''/pack-index.tsv'') \<ge> 4096)
                               Output_path_too_long) (\<lambda>_.
     res_bind (if po_emit_shards opt then
                 res_bind (ok_or Source_cannot_open (Option.bind (po_source_path opt) files)) (\<lambda>src.
                 res_bind (emit_shards rows' gpu (po_gpus opt) src) (\<lambda>sh. Inr (Some sh)))
               else Inr None) (\<lambda>shards.
     Inr \<lparr>out_rows = rows',
          out_index = (if po_write_index opt then Some (write_index rows') else None),
          out_shards = shards\<rparr>)))))))"

section \<open>The shard layout\<close>

lemma align_up_spec:
  assumes "align_up v a = Inr c" and "a \<noteq> 0"
  shows "unat v \<le> unat c \<and> unat a dvd unat c \<and> unat c < unat v + unat a"
proof (cases "v mod a = 0")
  case True
  then have "unat v mod unat a = 0" by (metis unat_0 unat_mod)
  moreover have "c = v" using True assms by (simp add: align_up_def)
  ultimately show ?thesis using assms(2) by (simp add: dvd_eq_mod_eq_0 unat_gt_0)
next
  case False
  let ?r = "unat v mod unat a"
  have a: "0 < unat a" using assms(2) by (simp add: unat_gt_0)
  have r: "unat (v mod a) = ?r" "0 < ?r" "?r < unat a"
    using False mod_less_divisor [OF a, of "unat v"] by (simp_all add: unat_gt_0 flip: unat_mod)
  have d: "unat (a - v mod a) = unat a - ?r"
    using r by (subst unat_sub) (simp_all add: word_le_nat_alt)
  have c: "c = v + (a - v mod a)" and "\<not> v > UINT64_MAX - (a - v mod a)"
    using False assms by (auto simp: align_up_def Let_def split: if_splits)
  then have "unat v + (unat a - ?r) \<le> 18446744073709551615"
    using d by (simp add: u64_add_overflow_iff add.commute)
  then have uc: "unat c = unat v + (unat a - ?r)"
    using c d by (simp add: unat_plus_no_overflow)
  have "unat c = (unat v div unat a + 1) * unat a"
    using uc r(3) minus_mod_eq_div_mult [of "unat v" "unat a", symmetric] by simp
  then show ?thesis using uc r by auto
qed

abbreviation shard_end :: "manifest_row \<Rightarrow> nat" where
  "shard_end r \<equiv> unat (mr_shard_offset r) + unat (mr_byte_length r)"

text \<open>Rows of one GPU lie in increasing order, each one after the end of the ones before it.\<close>

definition shards_ordered :: "manifest_row list \<Rightarrow> bool" where
  "shards_ordered rows \<longleftrightarrow>
     sorted_wrt (\<lambda>r r'. mr_owning_gpu r = mr_owning_gpu r' \<longrightarrow> shard_end r \<le> unat (mr_shard_offset r')) rows"

definition rows_in_range :: "nat \<Rightarrow> manifest_row list \<Rightarrow> bool" where
  "rows_in_range n rows \<longleftrightarrow> (\<forall>r \<in> set rows. 0 \<le> mr_owning_gpu r \<and> nat (mr_owning_gpu r) < n)"

lemma assign_rows_layout:
  assumes "assign_rows a rows cursor gpu = Inr (rows', cursor', gpu')"
    and "a \<noteq> 0" and "rows_in_range (length cursor) rows"
  shows "map (mr_shard_offset_update (\<lambda>_. 0)) rows' = map (mr_shard_offset_update (\<lambda>_. 0)) rows \<and>
     length cursor' = length cursor \<and>
     (\<forall>g < length cursor. unat (cursor ! g) \<le> unat (cursor' ! g)) \<and>
     (\<forall>r \<in> set rows'. unat a dvd unat (mr_shard_offset r) \<and>
        unat (cursor ! nat (mr_owning_gpu r)) \<le> unat (mr_shard_offset r) \<and>
        shard_end r \<le> unat (cursor' ! nat (mr_owning_gpu r))) \<and>
     shards_ordered rows'"
  using assms
proof (induction rows arbitrary: cursor gpu rows' cursor' gpu')
  case Nil
  then show ?case by (simp add: shards_ordered_def)
next
  case (Cons r rs)
  let ?g = "nat (mr_owning_gpu r)"
  have g: "0 \<le> mr_owning_gpu r" "?g < length cursor"
    using Cons.prems(3) by (auto simp: rows_in_range_def)
  obtain c rs' where c: "align_up (cursor ! ?g) a = Inr c" "\<not> mr_byte_length r > UINT64_MAX - c"
    and rec: "assign_rows a rs (cursor[?g := c + mr_byte_length r]) (gpu[?g := bucket_add r (gpu ! ?g)])
       = Inr (rs', cursor', gpu')"
    and rows': "rows' = r\<lparr>mr_shard_offset := c\<rparr> # rs'"
    using Cons.prems(1) by (auto simp: Let_def res_simps)
  have al: "unat (cursor ! ?g) \<le> unat c" "unat a dvd unat c"
    using align_up_spec [OF c(1) Cons.prems(2)] by auto
  have uc: "unat (c + mr_byte_length r) = unat c + unat (mr_byte_length r)"
    using c(2) by (simp add: u64_add_overflow_iff unat_plus_no_overflow)
  have range: "rows_in_range (length (cursor[?g := c + mr_byte_length r])) rs"
    using Cons.prems(3) by (simp add: rows_in_range_def)
  let ?cu = "cursor[?g := c + mr_byte_length r]"
  have IH: "map (mr_shard_offset_update (\<lambda>_. 0)) rs' = map (mr_shard_offset_update (\<lambda>_. 0)) rs"
    "length cursor' = length cursor" "shards_ordered rs'"
    "\<And>k. k < length cursor \<Longrightarrow> unat (?cu ! k) \<le> unat (cursor' ! k)"
    "\<And>r'. r' \<in> set rs' \<Longrightarrow> unat a dvd unat (mr_shard_offset r') \<and>
        unat (?cu ! nat (mr_owning_gpu r')) \<le> unat (mr_shard_offset r') \<and>
        shard_end r' \<le> unat (cursor' ! nat (mr_owning_gpu r'))"
    using Cons.IH [OF rec Cons.prems(2) range] by auto
  have cu: "unat (cursor ! k) \<le> unat (?cu ! k)" if "k < length cursor" for k
    using that g(2) al(1) uc by (cases "k = ?g") auto
  have cu_g: "unat (?cu ! ?g) = unat c + unat (mr_byte_length r)" using g(2) uc by simp
  have mono: "unat (cursor ! k) \<le> unat (cursor' ! k)" if k: "k < length cursor" for k
    using IH(4) [OF k] cu [OF k] by simp
  have in_rs: "nat (mr_owning_gpu r') < length cursor" if r': "r' \<in> set rs'" for r'
  proof -
    obtain i where i: "i < length rs'" "rs' ! i = r'" using r' by (auto simp: in_set_conv_nth)
    have "length rs' = length rs" using IH(1) by (metis length_map)
    moreover have "mr_owning_gpu (rs' ! i) = mr_owning_gpu (rs ! i)"
      using arg_cong [OF IH(1), of "\<lambda>xs. mr_owning_gpu (xs ! i)"] i(1) \<open>length rs' = length rs\<close> by simp
    ultimately show ?thesis
      using range i by (metis length_list_update nth_mem rows_in_range_def)
  qed
  have le_cursor: "unat (cursor ! nat (mr_owning_gpu r')) \<le> unat (mr_shard_offset r')"
    if r': "r' \<in> set rs'" for r'
    using IH(5) [OF r'] cu [OF in_rs [OF r']] by simp
  have after: "unat c + unat (mr_byte_length r) \<le> unat (mr_shard_offset r')"
    if r': "r' \<in> set rs'" and eq: "mr_owning_gpu r' = mr_owning_gpu r" for r'
    using IH(5) [OF r'] cu_g eq by simp
  have "unat c + unat (mr_byte_length r) \<le> unat (cursor' ! ?g)"
    using IH(4) [OF g(2)] cu_g by simp
  then show ?case
    using IH mono le_cursor after al by (simp add: rows' shards_ordered_def)
qed

section \<open>The shard files hold the source bytes\<close>

lemma length_write_at: "length (write_at f pos bs) = max (length f) (pos + length bs)"
  by (simp add: write_at_def)

lemma read_write_at: "take (length bs) (drop pos (write_at f pos bs)) = bs"
  by (simp add: write_at_def)

lemma read_before_write_at:
  assumes "p + n \<le> pos" and "p + n \<le> length f"
  shows "take n (drop p (write_at f pos bs)) = take n (drop p f)"
proof (rule nth_equalityI)
  show "length (take n (drop p (write_at f pos bs))) = length (take n (drop p f))"
    using assms by (simp add: length_write_at)
next
  fix i
  assume "i < length (take n (drop p (write_at f pos bs)))"
  then have "i < n" by simp
  then show "take n (drop p (write_at f pos bs)) ! i = take n (drop p f) ! i"
    using assms by (simp add: write_at_def nth_append)
qed

lemma write_at_write_at:
  "write_at (write_at f pos bs) (pos + length bs) cs = write_at f pos (bs @ cs)"
proof -
  have "min (length f) pos + (pos - length f) = pos" by simp
  then show ?thesis by (simp add: write_at_def ac_simps)
qed

lemma copy_exact_eq:
  "0 < n \<Longrightarrow> copy_exact src dst pos n name =
     (if length src < n then Inl (Short_copy name) else Inr (write_at dst pos (take n src)))"
proof (induction src dst pos n name rule: copy_exact.induct)
  case (1 src dst pos left name)
  define ch where "ch = (if left > DS4_COPY_BUFFER then DS4_COPY_BUFFER else left)"
  have ch: "0 < ch" "ch \<le> left"
    using "1.prems" by (auto simp: ch_def DS4_COPY_BUFFER_def)
  have unfold: "copy_exact src dst pos left name =
      (if length src < ch then Inl (Short_copy name)
       else copy_exact (drop ch src) (write_at dst pos (take ch src)) (pos + ch) (left - ch) name)"
    using "1.prems" by (subst copy_exact.simps) (simp add: Let_def ch_def)
  show ?case
  proof (cases "length src < ch \<or> left = ch")
    case True
    then show ?thesis using unfold ch by (auto simp: copy_exact.simps [of _ _ _ 0])
  next
    case False
    have split: "take left src = take ch src @ take (left - ch) (drop ch src)"
      using take_add [of ch "left - ch" src] ch by simp
    have "copy_exact (drop ch src) (write_at dst pos (take ch src)) (pos + ch) (left - ch) name =
        (if length (drop ch src) < left - ch then Inl (Short_copy name)
         else Inr (write_at (write_at dst pos (take ch src)) (pos + ch) (take (left - ch) (drop ch src))))"
      using False ch "1.prems" by (intro "1.IH" [OF _ ch_def]) simp_all
    moreover have "write_at (write_at dst pos (take ch src)) (pos + ch) (take (left - ch) (drop ch src))
        = write_at dst pos (take left src)"
    proof -
      have len: "length (take ch src) = ch" using False by simp
      show ?thesis using write_at_write_at [of dst pos "take ch src", unfolded len] by (simp add: split)
    qed
    ultimately show ?thesis using False unfold ch by auto
  qed
qed

definition row_bytes :: "string \<Rightarrow> manifest_row \<Rightarrow> string" where
  "row_bytes src r = take (unat (mr_byte_length r)) (drop (unat (mr_source_offset r)) src)"

definition row_stored :: "string \<Rightarrow> string \<Rightarrow> manifest_row \<Rightarrow> bool" where
  "row_stored src f r \<longleftrightarrow>
     unat (mr_source_offset r) + unat (mr_byte_length r) \<le> length src \<and>
     shard_end r \<le> length f \<and>
     take (unat (mr_byte_length r)) (drop (unat (mr_shard_offset r)) f) = row_bytes src r"

lemma emit_row_stored:
  assumes "emit_row src r dst = Inr dst'" and "nat (mr_owning_gpu r) < length dst"
    and "mr_byte_length r \<noteq> 0"
  shows "length dst' = length dst \<and>
     row_stored src (dst' ! nat (mr_owning_gpu r)) r \<and>
     (\<forall>q g. g < length dst \<and> row_stored src (dst ! g) q \<and>
        (g = nat (mr_owning_gpu r) \<longrightarrow> shard_end q \<le> unat (mr_shard_offset r)) \<longrightarrow>
        row_stored src (dst' ! g) q)"
proof -
  let ?g = "nat (mr_owning_gpu r)" and ?n = "unat (mr_byte_length r)"
  let ?s = "drop (unat (mr_source_offset r)) src"
  have n: "0 < ?n" using assms(3) by (simp add: unat_gt_0)
  from assms(1) obtain f where f: "copy_exact ?s (dst ! ?g) (unat (mr_shard_offset r)) ?n (mr_source_name r) = Inr f"
    and dst': "dst' = dst[?g := f]"
    by (auto simp: emit_row_def Let_def res_simps split: if_splits)
  from f have src: "?n \<le> length ?s" and f_eq: "f = write_at (dst ! ?g) (unat (mr_shard_offset r)) (take ?n ?s)"
    using copy_exact_eq [OF n] by (auto split: if_splits)
  have len: "length (take ?n ?s) = ?n" using src by simp
  have new: "row_stored src f r"
    unfolding row_stored_def row_bytes_def f_eq
    using src n read_write_at [of "take ?n ?s" "unat (mr_shard_offset r)" "dst ! ?g"]
    by (simp add: length_write_at len)
  have old: "row_stored src f q"
    if "row_stored src (dst ! ?g) q" "shard_end q \<le> unat (mr_shard_offset r)" for q
    using that read_before_write_at [of "unat (mr_shard_offset q)" "unat (mr_byte_length q)"
        "unat (mr_shard_offset r)" "dst ! ?g" "take ?n ?s"]
    by (auto simp: row_stored_def f_eq length_write_at)
  show ?thesis
    using new old assms(2) by (auto simp: dst' nth_list_update)
qed

lemma emit_rows_stored:
  assumes "fold_res (emit_row src) rows dst = Inr dst'" and "rows_in_range (length dst) rows"
    and "shards_ordered rows"
  shows "length dst' = length dst \<and>
     (\<forall>r \<in> set rows. mr_byte_length r \<noteq> 0 \<longrightarrow> row_stored src (dst' ! nat (mr_owning_gpu r)) r) \<and>
     (\<forall>q g. g < length dst \<and> row_stored src (dst ! g) q \<and>
        (\<forall>r \<in> set rows. nat (mr_owning_gpu r) = g \<longrightarrow> shard_end q \<le> unat (mr_shard_offset r)) \<longrightarrow>
        row_stored src (dst' ! g) q)"
  using assms
proof (induction rows arbitrary: dst)
  case Nil
  then show ?case by simp
next
  case (Cons r rs)
  let ?g = "nat (mr_owning_gpu r)"
  obtain d where d: "emit_row src r dst = Inr d" "fold_res (emit_row src) rs d = Inr dst'"
    using Cons.prems(1) by (auto simp: res_simps)
  have g: "?g < length dst" "0 \<le> mr_owning_gpu r"
    using Cons.prems(2) by (auto simp: rows_in_range_def)
  have empty: "d = dst" if "mr_byte_length r = 0"
    using d(1) that by (auto simp: emit_row_def Let_def res_simps copy_exact.simps [of _ _ _ 0] split: if_splits)
  have step: "length d = length dst" "mr_byte_length r \<noteq> 0 \<Longrightarrow> row_stored src (d ! ?g) r"
    "\<And>q g. g < length dst \<Longrightarrow> row_stored src (dst ! g) q \<Longrightarrow>
       (g = ?g \<longrightarrow> shard_end q \<le> unat (mr_shard_offset r)) \<Longrightarrow> row_stored src (d ! g) q"
    using emit_row_stored [OF d(1) g(1)] empty by blast+
  have IH: "length dst' = length d"
    "\<And>r. r \<in> set rs \<Longrightarrow> mr_byte_length r \<noteq> 0 \<Longrightarrow> row_stored src (dst' ! nat (mr_owning_gpu r)) r"
    "\<And>q g. g < length d \<Longrightarrow> row_stored src (d ! g) q \<Longrightarrow>
       (\<forall>r \<in> set rs. nat (mr_owning_gpu r) = g \<longrightarrow> shard_end q \<le> unat (mr_shard_offset r)) \<Longrightarrow>
       row_stored src (dst' ! g) q"
    using Cons.IH [OF d(2)] Cons.prems(2,3) step(1) by (auto simp: rows_in_range_def shards_ordered_def)
  have "\<forall>r' \<in> set rs. nat (mr_owning_gpu r') = ?g \<longrightarrow> shard_end r \<le> unat (mr_shard_offset r')"
    using Cons.prems(2,3) g(2) by (auto simp: rows_in_range_def shards_ordered_def)
  then have "mr_byte_length r \<noteq> 0 \<Longrightarrow> row_stored src (dst' ! ?g) r"
    using IH(3) [of ?g r] g(1) step(1,2) by simp
  then show ?case using IH step by auto
qed

lemma read_ftruncate:
  assumes "p + n \<le> m" and "p + n \<le> length f"
  shows "take n (drop p (ftruncate f m)) = take n (drop p f)"
proof -
  have "take n (drop p (take m xs)) = take n (drop p xs)" for xs :: string
    using assms(1) by (simp add: drop_take min_def)
  then show ?thesis using assms(2) by (simp add: ftruncate_def)
qed

lemma assign_shard_offsets_layout:
  assumes "assign_shard_offsets rows gpus a = Inr (rows', gpu)" and "a \<noteq> 0"
    and "rows_in_range (unat gpus) rows" and "unat gpus \<le> 8"
  shows "map (mr_shard_offset_update (\<lambda>_. 0)) rows' = map (mr_shard_offset_update (\<lambda>_. 0)) rows \<and>
     rows_in_range (unat gpus) rows' \<and> shards_ordered rows' \<and>
     (\<forall>r \<in> set rows'. unat a dvd unat (mr_shard_offset r) \<and>
        shard_end r \<le> unat (gb_padded_bytes (gpu ! nat (mr_owning_gpu r))))"
proof -
  obtain cursor g0 where ar: "assign_rows a rows (replicate 8 0)
      (replicate 8 \<lparr>gb_tensors = 0, gb_payload_bytes = 0, gb_padded_bytes = 0\<rparr>) = Inr (rows', cursor, g0)"
    and gpu: "gpu = map (\<lambda>g. if g < unat gpus then (g0 ! g)\<lparr>gb_padded_bytes := cursor ! g\<rparr>
        else g0 ! g) [0..<8]"
    using assms(1) by (auto simp: assign_shard_offsets_def res_simps DS4_PACK_MAX_GPUS_def)
  have "rows_in_range (length (replicate 8 (0 :: u64))) rows"
    using assms(3,4) by (auto simp: rows_in_range_def)
  note lay = assign_rows_layout [OF ar assms(2) this]
  have map_eq: "map mr_owning_gpu rows' = map mr_owning_gpu rows"
    using arg_cong [OF conjunct1 [OF lay], of "map mr_owning_gpu"] by (simp add: comp_def)
  have range': "rows_in_range (unat gpus) rows'"
    using assms(3) arg_cong [OF map_eq, of set] by (auto simp: rows_in_range_def) (metis image_iff)+
  have "shard_end r \<le> unat (gb_padded_bytes (gpu ! nat (mr_owning_gpu r)))" if "r \<in> set rows'" for r
    using that lay range' assms(4) by (auto simp: gpu rows_in_range_def)
  with lay range' show ?thesis by auto
qed

lemma emit_shards_stored:
  assumes "assign_shard_offsets rows gpus a = Inr (rows', gpu)" and "a \<noteq> 0"
    and "rows_in_range (unat gpus) rows" and "unat gpus \<le> 8"
    and "emit_shards rows' gpu gpus src = Inr shards"
    and r: "r \<in> set rows'"
  shows "take (unat (mr_byte_length r)) (drop (unat (mr_shard_offset r)) (shards ! nat (mr_owning_gpu r)))
     = row_bytes src r \<and> length (row_bytes src r) = unat (mr_byte_length r)"
proof (cases "mr_byte_length r = 0")
  case True
  then show ?thesis by (simp add: row_bytes_def)
next
  case False
  note lay = assign_shard_offsets_layout [OF assms(1-4)]
  obtain dst where dst: "fold_res (emit_row src) rows' (replicate (unat gpus) []) = Inr dst"
    and sh: "shards = map (\<lambda>g. ftruncate (dst ! g) (unat (gb_padded_bytes (gpu ! g)))) [0..<unat gpus]"
    using assms(5) by (auto simp: emit_shards_def res_simps)
  have "row_stored src (dst ! nat (mr_owning_gpu r)) r"
    using emit_rows_stored [OF dst] lay r False by auto
  moreover have "shards ! nat (mr_owning_gpu r) =
      ftruncate (dst ! nat (mr_owning_gpu r)) (unat (gb_padded_bytes (gpu ! nat (mr_owning_gpu r))))"
    using lay r by (auto simp: sh rows_in_range_def)
  ultimately show ?thesis
    using lay r read_ftruncate by (auto simp: row_stored_def row_bytes_def)
qed

section \<open>A run of the packer\<close>

lemma sint_small_u32:
  assumes "unat (x :: u32) \<le> 8"
  shows "sint x = int (unat x)"
proof -
  have "uint x \<le> 8" using assms by (simp only: unat_eq_nat_uint)
  then have "signed_take_bit 31 (uint x) = uint x"
    using unsigned_greater_eq [of x, where 'a = int]
    by (intro signed_take_bit_int_eq_self) (simp_all add: order_trans [of _ 0])
  then show ?thesis by (simp add: sint_uint)
qed

lemma manifest_row_checks_range:
  assumes "manifest_row_checks gpus row = Inr ()" and "unat gpus \<le> 8"
  shows "0 \<le> mr_owning_gpu row \<and> nat (mr_owning_gpu row) < unat gpus"
proof -
  have "0 \<le> mr_owning_gpu row" "mr_owning_gpu row < int (unat gpus)"
    using assms(1) sint_small_u32 [OF assms(2)] by (auto simp: manifest_row_checks_def res_simps)
  then show ?thesis by linarith
qed

lemma manifest_line_range:
  assumes "manifest_line gpus raw (no, rows) = Inr (no', rows')" and "unat gpus \<le> 8"
    and "rows_in_range (unat gpus) (ms_v rows)"
  shows "rows_in_range (unat gpus) (ms_v rows')"
proof (cases "rstrip_newline raw = []")
  case True
  with assms show ?thesis by (simp add: manifest_line_def)
next
  case False
  with assms(1) obtain row where row: "manifest_row_checks gpus row = Inr ()"
    and push: "rows_push rows row = Inr rows'"
    by (auto simp: manifest_line_def Let_def res_simps split: if_splits)
  from push have "ms_v rows' = ms_v rows @ [row]"
    by (auto simp: rows_push_def Let_def split: if_splits)
  then show ?thesis
    using manifest_row_checks_range [OF row assms(2)] assms(3) by (simp add: rows_in_range_def)
qed

lemma read_manifest_range:
  assumes "read_manifest f gpus = Inr rows" and "unat gpus \<le> 8"
  shows "rows_in_range (unat gpus) (ms_v rows)"
proof -
  obtain ls no where fold: "fold_res (manifest_line gpus) ls (1, \<lparr>ms_v = [], ms_cap = 0\<rparr>) = Inr (no, rows)"
    using assms(1) by (auto simp: read_manifest_def res_simps split: option.splits list.splits prod.splits)
  have "rows_in_range (unat gpus) (ms_v (snd (no, rows)))"
  proof (rule fold_res_invariant [OF fold, where P = "\<lambda>s. rows_in_range (unat gpus) (ms_v (snd s))"])
    show "rows_in_range (unat gpus) (ms_v (snd (1 :: nat, \<lparr>ms_v = [], ms_cap = 0\<rparr>)))"
      by (simp add: rows_in_range_def)
  next
    fix x and s s' :: "nat \<times> manifest_rows"
    assume "rows_in_range (unat gpus) (ms_v (snd s))" "manifest_line gpus x s = Inr s'"
    then show "rows_in_range (unat gpus) (ms_v (snd s'))"
      using manifest_line_range [OF _ assms(2)] by (metis prod.collapse)
  qed
  then show ?thesis by simp
qed

lemma packer_main_steps:
  assumes "packer_main files argv = Inr out"
  obtains opt0 opt rows gpu where "packer_args packer_default_options argv = Inr opt0"
    and "packer_check_options opt0 = Inr opt" and "po_source_path opt = po_source_path opt0"
    and "po_alignment opt \<noteq> 0" and "unat (po_gpus opt) \<le> 8"
    and "rows_in_range (unat (po_gpus opt)) rows"
    and "assign_shard_offsets rows (po_gpus opt) (po_alignment opt) = Inr (out_rows out, gpu)"
    and "out_index out = (if po_write_index opt then Some (write_index (out_rows out)) else None)"
    and "\<And>shards. out_shards out = Some shards \<Longrightarrow>
        \<exists>path src. po_source_path opt = Some path \<and> files path = Some src \<and>
           emit_shards (out_rows out) gpu (po_gpus opt) src = Inr shards"
proof -
  obtain opt0 opt rows gpu where steps: "packer_args packer_default_options argv = Inr opt0"
    "packer_check_options opt0 = Inr opt"
    "read_manifest (Option.bind (po_manifest_path opt) files) (po_gpus opt) = Inr rows"
    "assign_shard_offsets (ms_v rows) (po_gpus opt) (po_alignment opt) = Inr (out_rows out, gpu)"
    and out: "out_index out = (if po_write_index opt then Some (write_index (out_rows out)) else None)"
      "\<And>shards. out_shards out = Some shards \<Longrightarrow>
        \<exists>path src. po_source_path opt = Some path \<and> files path = Some src \<and>
           emit_shards (out_rows out) gpu (po_gpus opt) src = Inr shards"
    using assms unfolding packer_main_def
    by (auto simp: res_simps split: if_splits option.splits bind_splits)
  have opt: "po_alignment opt \<noteq> 0" "unat (po_gpus opt) \<le> 8" "po_source_path opt = po_source_path opt0"
    using steps(2) by (auto simp: packer_check_options_def DS4_PACK_MAX_GPUS_def not_less word_le_nat_alt split: if_splits)
  show thesis
    by (rule that [OF steps(1,2) opt(3,1,2) read_manifest_range [OF steps(3) opt(2)] steps(4) out(1)])
      (rule out(2))
qed

section \<open>The index reads back\<close>

definition entry_of_row :: "manifest_row \<Rightarrow> int \<Rightarrow> ds4_pack_entry" where
  "entry_of_row r scale =
     \<lparr>pe_semantic_tensor_id = mr_semantic_tensor_id r, pe_source_name = mr_source_name r,
      pe_source_dtype = mr_source_dtype r, pe_source_shape = mr_source_shape r,
      pe_runtime_layout = mr_runtime_layout r, pe_kernel_family = mr_kernel_family r,
      pe_shard_file = ''gpu'' @ show_int (mr_owning_gpu r) @ ''.weights'',
      pe_owning_gpu = mr_owning_gpu r, pe_layer_id = mr_layer_id r, pe_scale_offset = scale,
      pe_source_offset = mr_source_offset r, pe_byte_length = mr_byte_length r,
      pe_shard_offset = mr_shard_offset r\<rparr>"

text \<open>The rows whose index line the reader accepts: clean text fields and numbers in range.\<close>

definition text_fields :: "manifest_row \<Rightarrow> string list" where
  "text_fields r = [mr_semantic_tensor_id r, mr_source_name r, mr_source_dtype r, mr_source_shape r,
     mr_runtime_layout r, mr_kernel_family r, mr_scale_offset r, mr_checksum r]"

definition row_indexable :: "manifest_row \<Rightarrow> bool" where
  "row_indexable r \<longleftrightarrow>
     (\<forall>f \<in> set (text_fields r). TAB \<notin> set f \<and> LF \<notin> set f \<and> CR \<notin> set f \<and> NUL \<notin> set f) \<and>
     0 \<le> mr_owning_gpu r \<and> mr_owning_gpu r \<le> 2147483647 \<and>
     - 2147483648 \<le> mr_layer_id r \<and> mr_layer_id r \<le> 2147483647 \<and>
     mr_byte_length r \<noteq> 0 \<and>
     unat (mr_source_offset r) + unat (mr_byte_length r) \<le> 18446744073709551615 \<and>
     shard_end r \<le> 18446744073709551615 \<and>
     parse_i64_field (mr_scale_offset r) \<noteq> None"

definition row_entry :: "manifest_row \<Rightarrow> ds4_pack_entry" where
  "row_entry r = entry_of_row r (the (parse_i64_field (mr_scale_offset r)))"

lemma show_nat_chars:
  assumes "c \<in> set (show_nat n)"
  shows "c \<noteq> TAB \<and> c \<noteq> LF \<and> c \<noteq> CR \<and> c \<noteq> NUL \<and> c \<noteq> CHR ''-'' \<and> c \<noteq> CHR ''/'' \<and> c \<noteq> CHR 0x5C"
proof -
  obtain d where "d < 10" "c = digit_char d" using show_nat_digits [OF assms] by blast
  then have "48 \<le> byte c" "byte c \<le> 57" using digit_char_props(1) [of d] by auto
  then show ?thesis by (auto simp: byte_def)
qed

lemma show_int_chars:
  "c \<in> set (show_int i) \<Longrightarrow>
     c \<noteq> TAB \<and> c \<noteq> LF \<and> c \<noteq> CR \<and> c \<noteq> NUL \<and> c \<noteq> CHR ''/'' \<and> c \<noteq> CHR 0x5C"
  by (auto simp: show_int_def dest: show_nat_chars split: if_splits)

lemma parse_u64_field_show: "parse_u64_field (show_nat (unat x)) = Some x"
proof -
  obtain c cs where c: "show_nat (unat x) = c # cs" by (cases "show_nat (unat x)") auto
  then have "c \<noteq> CHR ''-''" using show_nat_chars [of c "unat x"] by simp
  then show ?thesis
    using strtoull_all_show_nat [OF unat_u64_bound, of x] c by (simp add: parse_u64_field_def)
qed

lemma show_int_nonempty: "show_int i \<noteq> []"
  by (simp add: show_int_def)

lemma parse_i32_field_show:
  "- 2147483648 \<le> i \<Longrightarrow> i \<le> 2147483647 \<Longrightarrow> parse_i32_field (show_int i) = Some i"
  using strtoll_all_show_int [of i]
  by (simp add: parse_i32_field_def parse_i64_field_def show_int_nonempty)

lemma valid_shard_name_show: "valid_shard_name (''gpu'' @ show_int g @ ''.weights'') g"
  using show_int_chars [of _ g] by (auto simp: valid_shard_name_def)

definition index_cols :: "manifest_row \<Rightarrow> string list" where
  "index_cols r =
     [mr_semantic_tensor_id r, mr_source_name r, mr_source_dtype r, mr_source_shape r,
      mr_runtime_layout r, show_int (mr_owning_gpu r), show_int (mr_layer_id r),
      mr_kernel_family r, show_nat (unat (mr_source_offset r)),
      show_nat (unat (mr_byte_length r)), ''gpu'' @ show_int (mr_owning_gpu r) @ ''.weights'',
      show_nat (unat (mr_shard_offset r)), mr_scale_offset r, mr_checksum r]"

lemma index_cols_clean:
  assumes "row_indexable r" and "f \<in> set (index_cols r)"
  shows "TAB \<notin> set f \<and> LF \<notin> set f \<and> CR \<notin> set f \<and> NUL \<notin> set f"
proof (cases "f \<in> set (text_fields r)")
  case True
  with assms(1) show ?thesis by (auto simp: row_indexable_def)
next
  case False
  with assms(2) consider i where "f = show_int i" | n where "f = show_nat n"
    | i where "f = ''gpu'' @ show_int i @ ''.weights''"
    by (auto simp: index_cols_def text_fields_def)
  then show ?thesis by cases (auto dest: show_int_chars show_nat_chars)
qed

lemma set_join_with: "set (join_with c fs) \<subseteq> insert c (\<Union> (set ` set fs))"
  by (induction c fs rule: join_with.induct) auto

lemma index_row_join: "index_row r = join_with TAB (index_cols r)"
  by (simp add: index_row_def index_cols_def)

lemma index_row_split: "row_indexable r \<Longrightarrow> split_on TAB (index_row r) = index_cols r"
  unfolding index_row_join
  by (rule split_on_join) (use index_cols_clean in \<open>auto simp: index_cols_def\<close>)

lemma index_row_clean:
  "row_indexable r \<Longrightarrow> LF \<notin> set (index_row r) \<and> CR \<notin> set (index_row r) \<and> NUL \<notin> set (index_row r)"
  using set_join_with [of TAB "index_cols r"] index_cols_clean [of r]
  by (auto simp: index_row_join)

lemma index_row_nonempty: "index_row r \<noteq> []"
  by (simp add: index_row_def)

lemma parse_pack_row_index_row:
  assumes "row_indexable r"
    and "pack_find_semantic pack (mr_semantic_tensor_id r) = None"
    and "pack_find_source_name pack (mr_source_name r) = None"
  shows "parse_pack_row pack (index_row r) no = pack_append pack (row_entry r)"
proof -
  have cols: "split_tabs (index_row r) DS4_PACK_COLS = Some (index_cols r)" "length (index_cols r) = DS4_PACK_COLS"
    using index_row_split [OF assms(1)] by (simp_all add: split_tabs_def DS4_PACK_COLS_def index_cols_def)
  obtain sc where sc: "parse_i64_field (mr_scale_offset r) = Some sc"
    using assms(1) by (auto simp: row_indexable_def)
  have nth: "index_cols r ! 0 = mr_semantic_tensor_id r" "index_cols r ! 1 = mr_source_name r"
    "index_cols r ! 2 = mr_source_dtype r" "index_cols r ! 3 = mr_source_shape r"
    "index_cols r ! 4 = mr_runtime_layout r" "index_cols r ! 5 = show_int (mr_owning_gpu r)"
    "index_cols r ! 6 = show_int (mr_layer_id r)" "index_cols r ! 7 = mr_kernel_family r"
    "index_cols r ! 8 = show_nat (unat (mr_source_offset r))"
    "index_cols r ! 9 = show_nat (unat (mr_byte_length r))"
    "index_cols r ! 10 = ''gpu'' @ show_int (mr_owning_gpu r) @ ''.weights''"
    "index_cols r ! 11 = show_nat (unat (mr_shard_offset r))" "index_cols r ! 12 = mr_scale_offset r"
    by (simp_all add: index_cols_def)
  have r: "0 \<le> mr_owning_gpu r" "mr_owning_gpu r \<le> 2147483647" "- 2147483648 \<le> mr_layer_id r"
    "mr_layer_id r \<le> 2147483647" "mr_byte_length r \<noteq> 0"
    "\<not> mr_source_offset r > UINT64_MAX - mr_byte_length r"
    "\<not> mr_shard_offset r > UINT64_MAX - mr_byte_length r"
    using assms(1) by (auto simp: row_indexable_def u64_add_overflow_iff add.commute)
  have gpu: "parse_i32_field (show_int (mr_owning_gpu r)) = Some (mr_owning_gpu r)"
    "parse_i32_field (show_int (mr_layer_id r)) = Some (mr_layer_id r)"
    using r by (simp_all add: parse_i32_field_show)
  show ?thesis
    unfolding parse_pack_row_def cols(1) option.case nth gpu parse_u64_field_show sc
      ok_or_simps res_bind_simps
    using cols(2) r assms(2,3) valid_shard_name_show [of "mr_owning_gpu r"]
    by (simp add: row_entry_def entry_of_row_def sc)
qed

text \<open>The row array doubles its capacity, so it never refuses a row of a bounded file.\<close>

definition cap_ok :: "ds4_pack \<Rightarrow> bool" where
  "cap_ok pack \<longleftrightarrow> length (pk_entries pack) \<le> unat (pk_cap_entries pack) \<and>
     unat (pk_cap_entries pack) \<le> 2 * length (pk_entries pack) + 256"

lemma pack_append_cap_ok:
  assumes "cap_ok pack" and "length (pk_entries pack) \<le> 67108864"
  shows "\<exists>p. pack_append pack e = Inr p \<and> pk_entries p = pk_entries pack @ [e] \<and>
     cap_ok p \<and> pk_path p = pk_path pack"
proof (cases "of_nat (length (pk_entries pack)) = pk_cap_entries pack")
  case True
  let ?n = "length (pk_entries pack)"
  have cap: "unat (pk_cap_entries pack) = ?n"
    using True assms(2) unat_of_nat_u64 [of ?n] by simp
  let ?next = "if pk_cap_entries pack \<noteq> 0 then pk_cap_entries pack * 2 else 256 :: u64"
  have nx: "unat ?next = (if ?n = 0 then 256 else ?n * 2)"
    using cap assms(2) unat_times_no_overflow [of "pk_cap_entries pack" 2]
    by (auto simp: unsigned_eq_0_iff)
  have "\<not> ?next < pk_cap_entries pack" "\<not> ?next > UINT64_MAX div 96"
    using nx cap assms(2) by (auto simp: word_less_nat_alt unat_div)
  with True nx show ?thesis
    by (auto simp: pack_append_def Let_def cap_ok_def Suc_le_eq split: if_splits)
next
  case False
  have "length (pk_entries pack) \<noteq> unat (pk_cap_entries pack)"
    using False by auto
  with False assms show ?thesis by (auto simp: pack_append_def Let_def cap_ok_def)
qed

lemma pack_read_index_rows:
  assumes "list_all row_indexable rows"
    and "distinct (map pe_semantic_tensor_id (pk_entries pack) @ map mr_semantic_tensor_id rows)"
    and "distinct (map pe_source_name (pk_entries pack) @ map mr_source_name rows)"
    and "cap_ok pack" and "length (pk_entries pack) + length rows \<le> 67108864" and "0 < no"
  shows "\<exists>p. pack_read_lines pack no (map index_row rows @ [[]]) = Inr p \<and>
     pk_entries p = pk_entries pack @ map row_entry rows \<and> pk_path p = pk_path pack"
  using assms
proof (induction rows arbitrary: pack no)
  case Nil
  then show ?case by (simp add: c_str_def)
next
  case (Cons r rs)
  have ok: "row_indexable r" using Cons.prems(1) by simp
  have line: "c_str (index_row r) = index_row r" "index_row r \<noteq> []"
    using index_row_clean [OF ok] index_row_nonempty by (auto simp: c_str_no_nul)
  have fresh: "pack_find_semantic pack (mr_semantic_tensor_id r) = None"
    "pack_find_source_name pack (mr_source_name r) = None"
    using Cons.prems(2,3) by (auto simp: by_id.find_None by_source.find_None image_iff)
  obtain p where p: "pack_append pack (row_entry r) = Inr p" "pk_entries p = pk_entries pack @ [row_entry r]"
    "cap_ok p" "pk_path p = pk_path pack"
    using pack_append_cap_ok [OF Cons.prems(4)] Cons.prems(5) by auto
  have row: "parse_pack_row pack (index_row r) (Suc no) = Inr p"
    using parse_pack_row_index_row [OF ok fresh] p(1) by simp
  have "\<exists>q. pack_read_lines p (Suc no) (map index_row rs @ [[]]) = Inr q \<and>
      pk_entries q = pk_entries p @ map row_entry rs \<and> pk_path q = pk_path p"
    using Cons.prems p by (intro Cons.IH) (auto simp: row_entry_def entry_of_row_def)
  with row line Cons.prems(6) p show ?case by (auto simp: Let_def)
qed

lemma split_on_lines:
  "\<forall>l \<in> set ls. LF \<notin> set l \<Longrightarrow> split_on LF (concat (map (\<lambda>l. l @ [LF]) ls)) = ls @ [[]]"
  by (induction ls) (auto simp: split_on_append_sep)

lemma ds4_pack_header_clean:
  "LF \<notin> set ds4_pack_header" "CR \<notin> set ds4_pack_header" "NUL \<notin> set ds4_pack_header"
  "take 3 ds4_pack_header = ''sem''" "ds4_pack_header \<noteq> []"
  by (simp_all add: ds4_pack_header_def)

lemma length_write_index: "length rows \<le> length (write_index rows)"
  by (induction rows) (simp_all add: write_index_def)

lemma write_index_opens:
  assumes rows: "list_all row_indexable rows" "rows \<noteq> []"
    and ids: "distinct (map mr_semantic_tensor_id rows)" "distinct (map mr_source_name rows)"
    and size: "length (write_index rows) \<le> 67108864"
    and idx: "fs path = Some \<lparr>fv_seek_end_ok = True, fv_tell = int (length (write_index rows)),
        fv_seek_set_ok = True, fv_bytes = write_index rows\<rparr>" "path \<noteq> []"
  shows "\<exists>p. ds4_pack_open fs (Some path) = Inr p \<and> pk_entries p = map row_entry rows \<and> pk_path p = path"
proof -
  let ?buf = "write_index rows"
  have lines: "split_on LF ?buf = ds4_pack_header # map index_row rows @ [[]]"
    unfolding write_index_def using rows(1) index_row_clean ds4_pack_header_clean(1)
    by (subst split_on_lines) (auto simp: list_all_iff)
  have cr: "CR \<notin> set ?buf"
    using rows(1) index_row_clean ds4_pack_header_clean(2) by (auto simp: write_index_def list_all_iff)
  have bom: "take 3 ?buf = ''sem''"
    using ds4_pack_header_clean(4) by (simp add: write_index_def ds4_pack_header_def)
  let ?p0 = "\<lparr>pk_entries = [], pk_cap_entries = 0, pk_path = path\<rparr>"
  have "\<exists>p. pack_read_lines ?p0 1 (map index_row rows @ [[]]) = Inr p \<and>
      pk_entries p = pk_entries ?p0 @ map row_entry rows \<and> pk_path p = pk_path ?p0"
    using rows ids size length_write_index [of rows]
    by (intro pack_read_index_rows) (auto simp: cap_ok_def)
  then obtain p where p: "pack_read_lines ?p0 0 (split_on LF ?buf) = Inr p"
    "pk_entries p = map row_entry rows" "pk_path p = path"
    using ds4_pack_header_clean(3,5) by (auto simp: lines c_str_no_nul Let_def)
  have rd: "read_small_file fs path = Inr ?buf"
    using idx size by (simp add: read_small_file_def)
  show ?thesis
    using p rows(2) idx(2) rd cr bom by (simp add: ds4_pack_open_def)
qed

end
