(* ===== verification/Tm_Pack.thy ===== *)
theory Tm_Pack
  imports Pack
begin

text \<open>
  The TurboMind pack index (\<open>src/ds4_turbomind_pack.c\<close>): the second table of the appliance,
  with one row per routed-expert tensor that was repacked for the TurboMind kernels. The file
  repeats the field parsers and the file reader of \<open>src/ds4_pack.c\<close> word for word, so the
  definitions of \<open>Pack\<close> serve both; the row layout, the checks and the queries are its own.
\<close>

section \<open>Data\<close>

record ds4_tm_pack_entry =
  te_semantic_tensor_id :: string
  te_source_name :: string
  te_source_dtype :: string
  te_source_shape :: string
  te_runtime_layout :: string
  te_kernel_family :: string
  te_sidecar_file :: string
  te_source_shard_file :: string
  te_source_checksum :: string
  te_owning_gpu :: int
  te_layer_id :: int
  te_n :: u32
  te_k :: u32
  te_experts_packed :: u32
  te_experts_total :: u32
  te_weight_bytes_per_expert :: u64
  te_scale_bytes_per_expert :: u64
  te_k_pack :: int
  te_weight_stride :: int
  te_scale_stride :: int
  te_weight_offset :: u64
  te_scale_offset :: u64
  te_source_shard_offset :: u64
  te_source_byte_length :: u64
  te_tm_abi_version :: int

record ds4_tm_pack =
  tp_entries :: "ds4_tm_pack_entry list"
  tp_cap_entries :: u64
  tp_path :: string

section \<open>Reading the index\<close>

definition DS4_TM_PACK_COLS :: nat where
  "DS4_TM_PACK_COLS = 25"

definition ds4_tm_pack_header :: string where
  "ds4_tm_pack_header = join_with TAB
     [''semantic_tensor_id'', ''source_name'', ''source_dtype'', ''source_shape'',
      ''runtime_layout'', ''owning_gpu'', ''layer_id'', ''kernel_family'',
      ''n'', ''k'', ''experts_packed'', ''experts_total'', ''weight_bytes_per_expert'',
      ''scale_bytes_per_expert'', ''k_pack'', ''weight_stride'', ''scale_stride'',
      ''sidecar_file'', ''weight_offset'', ''scale_offset'', ''source_shard_file'',
      ''source_shard_offset'', ''source_byte_length'', ''source_checksum'',
      ''tm_abi_version'']"

definition parse_u32_field :: "string \<Rightarrow> u32 option" where
  "parse_u32_field s =
     (case parse_u64_field s of
        None \<Rightarrow> None
      | Some v \<Rightarrow> if v > 4294967295 then None else Some (ucast v))"

definition valid_sidecar_name :: "string \<Rightarrow> int \<Rightarrow> bool" where
  "valid_sidecar_name name gpu \<longleftrightarrow>
     name \<noteq> [] \<and> CHR ''/'' \<notin> set name \<and> CHR 0x5C \<notin> set name \<and>
     (name = ''gpu'' @ show_int gpu @ ''.turbomind'' \<or> name = ''gpu'' @ show_int gpu @ ''.weights'')"

text \<open>\<open>sizeof(ds4_tm_pack_entry)\<close> is 168.\<close>

definition tm_append :: "ds4_tm_pack \<Rightarrow> ds4_tm_pack_entry \<Rightarrow> pack_error + ds4_tm_pack" where
  "tm_append pack e =
     (let cap = tp_cap_entries pack;
          grow = (of_nat (length (tp_entries pack)) = cap);
          next = (if cap \<noteq> 0 then cap * 2 else 256)
      in if grow \<and> (next < cap \<or> next > UINT64_MAX div 168) then Inl Too_many_rows
         else Inr (pack\<lparr>tp_cap_entries := (if grow then next else cap),
                        tp_entries := tp_entries pack @ [e]\<rparr>))"

definition tm_find_semantic :: "ds4_tm_pack \<Rightarrow> string \<Rightarrow> nat option" where
  "tm_find_semantic pack tid = find_index (\<lambda>e. te_semantic_tensor_id e = tid) (tp_entries pack)"

text \<open>The byte span of the packed experts, as the code computes it: a wrapping product.\<close>

definition tm_weight_span :: "ds4_tm_pack_entry \<Rightarrow> u64" where
  "tm_weight_span e = ucast (te_experts_packed e) * te_weight_bytes_per_expert e"

definition tm_scale_span :: "ds4_tm_pack_entry \<Rightarrow> u64" where
  "tm_scale_span e = ucast (te_experts_packed e) * te_scale_bytes_per_expert e"

text \<open>The numeric columns of a row; \<open>None\<close> when one of them does not parse.\<close>

definition tm_row_numbers :: "string list \<Rightarrow> ds4_tm_pack_entry option" where
  "tm_row_numbers cols =
     Option.bind (parse_i32_field (cols ! 5)) (\<lambda>gpu.
     if gpu < 0 then None else
     Option.bind (parse_i32_field (cols ! 6)) (\<lambda>layer.
     Option.bind (parse_u32_field (cols ! 8)) (\<lambda>n.
     Option.bind (parse_u32_field (cols ! 9)) (\<lambda>k.
     Option.bind (parse_u32_field (cols ! 10)) (\<lambda>packed.
     Option.bind (parse_u32_field (cols ! 11)) (\<lambda>total.
     Option.bind (parse_u64_field (cols ! 12)) (\<lambda>wbytes.
     Option.bind (parse_u64_field (cols ! 13)) (\<lambda>sbytes.
     Option.bind (parse_i32_field (cols ! 14)) (\<lambda>k_pack.
     Option.bind (parse_i32_field (cols ! 15)) (\<lambda>wstride.
     Option.bind (parse_i32_field (cols ! 16)) (\<lambda>sstride.
     Option.bind (parse_u64_field (cols ! 18)) (\<lambda>woff.
     Option.bind (parse_u64_field (cols ! 19)) (\<lambda>soff.
     Option.bind (parse_u64_field (cols ! 21)) (\<lambda>srcoff.
     Option.bind (parse_u64_field (cols ! 22)) (\<lambda>srclen.
     Option.bind (parse_i32_field (cols ! 24)) (\<lambda>abi.
     Some \<lparr>te_semantic_tensor_id = cols ! 0, te_source_name = cols ! 1,
           te_source_dtype = cols ! 2, te_source_shape = cols ! 3,
           te_runtime_layout = cols ! 4, te_kernel_family = cols ! 7,
           te_sidecar_file = cols ! 17, te_source_shard_file = cols ! 20,
           te_source_checksum = cols ! 23, te_owning_gpu = gpu, te_layer_id = layer,
           te_n = n, te_k = k, te_experts_packed = packed, te_experts_total = total,
           te_weight_bytes_per_expert = wbytes, te_scale_bytes_per_expert = sbytes,
           te_k_pack = k_pack, te_weight_stride = wstride, te_scale_stride = sstride,
           te_weight_offset = woff, te_scale_offset = soff,
           te_source_shard_offset = srcoff, te_source_byte_length = srclen,
           te_tm_abi_version = abi\<rparr>))))))))))))))))"

definition parse_tm_row :: "ds4_tm_pack \<Rightarrow> string \<Rightarrow> nat \<Rightarrow> pack_error + ds4_tm_pack" where
  "parse_tm_row pack line line_no =
     (case split_tabs line DS4_TM_PACK_COLS of
        None \<Rightarrow> Inl (Bad_columns line_no (DS4_TM_PACK_COLS + 1))
      | Some cols \<Rightarrow>
          if length cols \<noteq> DS4_TM_PACK_COLS then Inl (Bad_columns line_no (length cols))
          else
            res_bind (ok_or (Bad_numeric_field line_no) (tm_row_numbers cols)) (\<lambda>e.
            res_bind (check (te_n e = 0 \<or> te_k e = 0 \<or> te_experts_packed e = 0 \<or>
                             te_experts_total e = 0 \<or> te_weight_bytes_per_expert e = 0 \<or>
                             te_scale_bytes_per_expert e = 0) (Zero_size_field line_no)) (\<lambda>_.
            res_bind (check (te_experts_packed e > te_experts_total e)
                            (Experts_exceed_total line_no)) (\<lambda>_.
            res_bind (check (te_weight_offset e > UINT64_MAX - tm_weight_span e \<or>
                             te_scale_offset e > UINT64_MAX - tm_scale_span e)
                            (Sidecar_offset_overflow line_no)) (\<lambda>_.
            res_bind (check (tm_find_semantic pack (te_semantic_tensor_id e) \<noteq> None)
                            (Duplicate_semantic_id line_no)) (\<lambda>_.
            res_bind (check (\<not> valid_sidecar_name (te_sidecar_file e) (te_owning_gpu e))
                            (Unexpected_sidecar_file (cols ! 17) line_no)) (\<lambda>_.
            tm_append pack e)))))))"

fun tm_pack_read_lines :: "ds4_tm_pack \<Rightarrow> nat \<Rightarrow> string list \<Rightarrow> pack_error + ds4_tm_pack" where
  "tm_pack_read_lines pack line_no [] = Inr pack"
| "tm_pack_read_lines pack line_no (seg # segs) =
     (let line = c_str seg; no = Suc line_no in
      if line = [] then tm_pack_read_lines pack no segs
      else if no = 1 then
        (if line \<noteq> ds4_tm_pack_header then Inl Bad_header else tm_pack_read_lines pack no segs)
      else res_bind (parse_tm_row pack line no) (\<lambda>p. tm_pack_read_lines p no segs))"

definition ds4_tm_pack_open :: "file_system \<Rightarrow> string option \<Rightarrow> pack_error + ds4_tm_pack" where
  "ds4_tm_pack_open fs path_opt =
     (case path_opt of
        None \<Rightarrow> Inl Missing_index_path
      | Some path \<Rightarrow>
          if path = [] then Inl Missing_index_path
          else
            res_bind (read_small_file fs path) (\<lambda>buf.
            res_bind (check (take 3 buf = [CHR 0xEF, CHR 0xBB, CHR 0xBF]) Index_has_bom) (\<lambda>_.
            res_bind (check (CR \<in> set buf) Index_has_cr) (\<lambda>_.
            res_bind (tm_pack_read_lines \<lparr>tp_entries = [], tp_cap_entries = 0, tp_path = path\<rparr> 0
                        (split_on LF buf)) (\<lambda>pack.
            res_bind (check (tp_entries pack = []) No_tensor_rows) (\<lambda>_. Inr pack))))))"

section \<open>Queries\<close>

definition ds4_tm_pack_count :: "ds4_tm_pack \<Rightarrow> u64" where
  "ds4_tm_pack_count pack = of_nat (length (tp_entries pack))"

definition ds4_tm_pack_max_gpu :: "ds4_tm_pack \<Rightarrow> int" where
  "ds4_tm_pack_max_gpu pack =
     fold (\<lambda>e m. if te_owning_gpu e > m then te_owning_gpu e else m) (tp_entries pack) (- 1)"

definition ds4_tm_pack_lookup :: "ds4_tm_pack \<Rightarrow> string \<Rightarrow> ds4_tm_pack_entry option" where
  "ds4_tm_pack_lookup pack tid =
     map_option (\<lambda>i. tp_entries pack ! i) (tm_find_semantic pack tid)"

definition ds4_tm_pack_for_each ::
  "ds4_tm_pack \<Rightarrow> (ds4_tm_pack_entry \<Rightarrow> 's \<Rightarrow> 'e + 's) \<Rightarrow> 's \<Rightarrow> 'e + 's" where
  "ds4_tm_pack_for_each pack cb s = fold_res cb (tp_entries pack) s"

definition tm_weight_end :: "ds4_tm_pack_entry \<Rightarrow> u64" where
  "tm_weight_end e = te_weight_offset e + tm_weight_span e"

definition tm_scale_end :: "ds4_tm_pack_entry \<Rightarrow> u64" where
  "tm_scale_end e = te_scale_offset e + tm_scale_span e"

definition ds4_tm_pack_sidecar_bytes :: "ds4_tm_pack \<Rightarrow> string \<Rightarrow> u64 option" where
  "ds4_tm_pack_sidecar_bytes pack sidecar =
     (let es = filter (\<lambda>e. te_sidecar_file e = sidecar) (tp_entries pack) in
      if es = [] then None
      else Some (fold (\<lambda>e end0.
                   let end1 = (if tm_weight_end e > end0 then tm_weight_end e else end0)
                   in if tm_scale_end e > end1 then tm_scale_end e else end1) es 0))"

section \<open>What opening establishes\<close>

definition tm_entry_wf :: "ds4_tm_pack_entry \<Rightarrow> bool" where
  "tm_entry_wf e \<longleftrightarrow>
     0 \<le> te_owning_gpu e \<and> te_n e \<noteq> 0 \<and> te_k e \<noteq> 0 \<and> te_experts_packed e \<noteq> 0 \<and>
     te_experts_packed e \<le> te_experts_total e \<and>
     te_weight_bytes_per_expert e \<noteq> 0 \<and> te_scale_bytes_per_expert e \<noteq> 0 \<and>
     unat (te_weight_offset e) + unat (tm_weight_span e) \<le> 18446744073709551615 \<and>
     unat (te_scale_offset e) + unat (tm_scale_span e) \<le> 18446744073709551615 \<and>
     valid_sidecar_name (te_sidecar_file e) (te_owning_gpu e)"

definition tm_pack_wf :: "ds4_tm_pack \<Rightarrow> bool" where
  "tm_pack_wf pack \<longleftrightarrow>
     list_all tm_entry_wf (tp_entries pack) \<and>
     distinct (map te_semantic_tensor_id (tp_entries pack))"

interpretation tm_by_id: keyed_table te_semantic_tensor_id tp_entries tm_find_semantic
  by unfold_locales
    (auto simp: tm_find_semantic_def find_index_None_iff dest: find_index_SomeD)

lemma tm_append_entries:
  "tm_append pack e = Inr p \<Longrightarrow> tp_entries p = tp_entries pack @ [e]"
  by (auto simp: tm_append_def Let_def split: if_splits)

lemma tm_row_numbers_gpu: "tm_row_numbers cols = Some e \<Longrightarrow> 0 \<le> te_owning_gpu e"
  by (auto simp: tm_row_numbers_def split: bind_splits if_splits)

lemma parse_tm_row_appends:
  assumes "parse_tm_row pack line no = Inr p"
  shows "\<exists>e. tp_entries p = tp_entries pack @ [e] \<and> tm_entry_wf e \<and>
     tm_find_semantic pack (te_semantic_tensor_id e) = None"
  using assms unfolding parse_tm_row_def
  by (auto simp: res_simps tm_entry_wf_def u64_arith add.commute not_less
      split: option.splits if_splits
      dest!: tm_append_entries tm_row_numbers_gpu)

lemma tm_pack_read_lines_wf:
  "tm_pack_read_lines pack no segs = Inr p \<Longrightarrow> tm_pack_wf pack \<Longrightarrow> tm_pack_wf p"
proof (induction pack no segs rule: tm_pack_read_lines.induct)
  case (1 pack no)
  then show ?case by simp
next
  case (2 pack no seg segs)
  have "tm_pack_wf q" if row: "parse_tm_row pack (c_str seg) (Suc no) = Inr q" for q
  proof -
    obtain e where e: "tp_entries q = tp_entries pack @ [e]" "tm_entry_wf e"
      "tm_find_semantic pack (te_semantic_tensor_id e) = None"
      using parse_tm_row_appends [OF row] by blast
    with "2.prems"(2) show ?thesis
      using tm_by_id.append_fresh [of pack e q] by (auto simp: tm_pack_wf_def)
  qed
  with "2" show ?case by (auto simp: Let_def res_simps split: if_splits)
qed

lemma ds4_tm_pack_open_wf:
  "ds4_tm_pack_open fs path = Inr p \<Longrightarrow> tm_pack_wf p \<and> tp_entries p \<noteq> []"
  unfolding ds4_tm_pack_open_def
  by (auto simp: res_simps tm_pack_wf_def [of "\<lparr>tp_entries = [], tp_cap_entries = _, tp_path = _\<rparr>"]
      split: option.splits if_splits dest!: tm_pack_read_lines_wf)

lemma ds4_tm_pack_lookup_iff:
  "tm_pack_wf pack \<Longrightarrow> ds4_tm_pack_lookup pack tid = Some e \<longleftrightarrow>
     e \<in> set (tp_entries pack) \<and> te_semantic_tensor_id e = tid"
  unfolding ds4_tm_pack_lookup_def by (rule tm_by_id.lookup_iff) (simp add: tm_pack_wf_def)

lemma tm_entry_wf_ends:
  assumes "tm_entry_wf e"
  shows "unat (tm_weight_end e) = unat (te_weight_offset e) + unat (tm_weight_span e)"
    "unat (tm_scale_end e) = unat (te_scale_offset e) + unat (tm_scale_span e)"
  using assms by (simp_all add: tm_entry_wf_def tm_weight_end_def tm_scale_end_def unat_plus_no_overflow)

text \<open>The byte ranges of a row: the product of its two factors is the one of 64 bits.\<close>

lemma unat_u32_bound: "unat (x :: u32) \<le> 4294967295"
  using unsigned_less [of x, where 'a = nat] by simp

lemma unat_ucast_u64: "unat (ucast (x :: u32) :: u64) = unat x"
  using unat_u32_bound [of x] by (simp add: unsigned_ucast_eq take_bit_nat_eq_self)

lemma tm_ends_exact:
  assumes "tm_entry_wf e"
  shows "unat (tm_weight_end e) =
       unat (te_weight_offset e) + unat (te_experts_packed e) * unat (te_weight_bytes_per_expert e) mod 2 ^ 64"
    "unat (tm_scale_end e) =
       unat (te_scale_offset e) + unat (te_experts_packed e) * unat (te_scale_bytes_per_expert e) mod 2 ^ 64"
  unfolding tm_entry_wf_ends [OF assms] tm_weight_span_def tm_scale_span_def
  by (simp_all add: unat_word_ariths unat_ucast_u64)

end
