(* ===== verification/Pack_Properties.thy ===== *)
theory Pack_Properties
  imports Packer Tm_Pack
begin

text \<open>
  What the pack pipeline promises as a whole: the packer (\<open>src/tools/pack.c\<close>) lays a model out
  and writes index and shards, the appliance opens the index (\<open>src/ds4_pack.c\<close>,
  \<open>src/ds4_turbomind_pack.c\<close>), reconciles it with the source and reads tensors from the shards.
  The example model below is the input on which the hypotheses are shown to hold.
\<close>

section \<open>An example model\<close>

definition example_manifest :: string where
  "example_manifest = concat (map (\<lambda>l. l @ [LF])
     [manifest_header,
      join_with TAB [''a'', ''A'', ''f32'', ''1'', ''row'', ''0'', ''3'', ''f32_raw'', ''2'', ''4'', ''-1'', ''x'', ''absolute_gguf_file''],
      join_with TAB [''b'', ''B'', ''f32'', ''1'', ''row'', ''0'', ''4'', ''f32_raw'', ''8'', ''3'', ''-1'', ''y'', ''absolute_gguf_file'']])"

definition example_source :: string where
  "example_source = ''0123456789abcdef''"

definition example_files :: "string \<Rightarrow> string option" where
  "example_files path =
     (if path = ''m'' then Some example_manifest
      else if path = ''s'' then Some example_source else None)"

definition example_argv :: "string list" where
  "example_argv = [''--manifest'', ''m'', ''--source'', ''s'', ''--out-dir'', ''o'', ''--align'', ''8'', ''--emit-shards'']"

definition example_row :: "string \<Rightarrow> string \<Rightarrow> int \<Rightarrow> u64 \<Rightarrow> u64 \<Rightarrow> u64 \<Rightarrow> string \<Rightarrow> manifest_row" where
  "example_row i n layer off len shard csum =
     \<lparr>mr_semantic_tensor_id = i, mr_source_name = n, mr_source_dtype = ''f32'', mr_source_shape = ''1'',
      mr_runtime_layout = ''row'', mr_owning_gpu = 0, mr_layer_id = layer, mr_kernel_family = ''f32_raw'',
      mr_source_offset = off, mr_byte_length = len, mr_scale_offset = ''-1'', mr_checksum = csum,
      mr_byte_offset_basis = ''absolute_gguf_file'', mr_shard_offset = shard\<rparr>"

definition example_rows :: "manifest_row list" where
  "example_rows = [example_row ''a'' ''A'' 3 2 4 0 ''x'', example_row ''b'' ''B'' 4 8 3 8 ''y'']"

definition example_shards :: "string list" where
  "example_shards = (''2345'' @ replicate 4 NUL @ ''89a'') # replicate 7 []"

definition file_of :: "string \<Rightarrow> file_view" where
  "file_of b = \<lparr>fv_seek_end_ok = True, fv_tell = int (length b), fv_seek_set_ok = True, fv_bytes = b\<rparr>"

definition example_fs :: file_system where
  "example_fs path = Some (file_of (write_index example_rows))"

definition example_pack :: ds4_pack where
  "example_pack = \<lparr>pk_entries = map row_entry example_rows, pk_cap_entries = 256, pk_path = ''i''\<rparr>"

text \<open>A TurboMind index of one row with the given expert counts and sizes.\<close>

definition example_tm_index :: "string \<Rightarrow> string \<Rightarrow> string" where
  "example_tm_index wbytes scale_off = concat (map (\<lambda>l. l @ [LF])
     [ds4_tm_pack_header,
      join_with TAB
       [''e'', ''E'', ''mxfp4'', ''2x2'', ''tm'', ''0'', ''0'', ''k'', ''2'', ''2'', ''2'', ''4'', wbytes, ''4'', ''1'',
        ''2'', ''2'', ''gpu0.turbomind'', ''0'', scale_off, ''gpu0.weights'', ''0'', ''32'', ''c'', ''1'']])"

definition example_tm_entry :: "u64 \<Rightarrow> u64 \<Rightarrow> ds4_tm_pack_entry" where
  "example_tm_entry wbytes scale_off =
     \<lparr>te_semantic_tensor_id = ''e'', te_source_name = ''E'', te_source_dtype = ''mxfp4'', te_source_shape = ''2x2'',
      te_runtime_layout = ''tm'', te_kernel_family = ''k'', te_sidecar_file = ''gpu0.turbomind'',
      te_source_shard_file = ''gpu0.weights'', te_source_checksum = ''c'', te_owning_gpu = 0, te_layer_id = 0,
      te_n = 2, te_k = 2, te_experts_packed = 2, te_experts_total = 4, te_weight_bytes_per_expert = wbytes,
      te_scale_bytes_per_expert = 4, te_k_pack = 1, te_weight_stride = 2, te_scale_stride = 2,
      te_weight_offset = 0, te_scale_offset = scale_off, te_source_shard_offset = 0, te_source_byte_length = 32,
      te_tm_abi_version = 1\<rparr>"

definition example_tm_pack :: "u64 \<Rightarrow> u64 \<Rightarrow> ds4_tm_pack" where
  "example_tm_pack wbytes scale_off =
     \<lparr>tp_entries = [example_tm_entry wbytes scale_off], tp_cap_entries = 256, tp_path = ''i''\<rparr>"

lemma example_run:
  "packer_main example_files example_argv =
     Inr \<lparr>out_rows = example_rows, out_index = Some (write_index example_rows), out_shards = Some example_shards\<rparr>"
  by code_simp

lemma example_opens: "ds4_pack_open example_fs (Some ''i'') = Inr example_pack"
  by code_simp


lemma example_tm_opens:
  "ds4_tm_pack_open (\<lambda>_. Some (file_of (example_tm_index ''8'' ''16''))) (Some ''i'') = Inr (example_tm_pack 8 16)"
  by code_simp

section \<open>From the packer to the appliance\<close>

lemma packed_bytes:
  assumes run: "packer_main files argv = Inr out" and sh: "out_shards out = Some shards"
  shows "\<exists>opt path src. packer_args packer_default_options argv = Inr opt \<and>
     po_source_path opt = Some path \<and> files path = Some src \<and>
     (\<forall>r \<in> set (out_rows out).
        take (unat (mr_byte_length r)) (drop (unat (mr_shard_offset r)) (shards ! nat (mr_owning_gpu r)))
          = row_bytes src r \<and> length (row_bytes src r) = unat (mr_byte_length r))"
proof (rule packer_main_steps [OF run])
  fix opt0 opt rows gpu
  assume a: "packer_args packer_default_options argv = Inr opt0" "packer_check_options opt0 = Inr opt"
    "po_source_path opt = po_source_path opt0" "po_alignment opt \<noteq> 0" "unat (po_gpus opt) \<le> 8"
    "rows_in_range (unat (po_gpus opt)) rows"
    "assign_shard_offsets rows (po_gpus opt) (po_alignment opt) = Inr (out_rows out, gpu)"
    and em: "\<And>shards. out_shards out = Some shards \<Longrightarrow> \<exists>path src. po_source_path opt = Some path \<and>
        files path = Some src \<and> emit_shards (out_rows out) gpu (po_gpus opt) src = Inr shards"
  obtain path src where ps: "po_source_path opt = Some path" "files path = Some src"
    "emit_shards (out_rows out) gpu (po_gpus opt) src = Inr shards"
    using em [OF sh] by blast
  show ?thesis
    using a(1,3) ps(1,2) emit_shards_stored [OF a(7,4,6,5) ps(3)] by metis
qed

text \<open>
  C1: A packed model loads. When a run of the packer wrote an index and shards whose rows are
  indexable and have distinct names, the appliance opens that index, and every entry it holds
  names the shard bytes that are the tensor's bytes in the source model.
\<close>

theorem packed_model_loads:
  assumes run: "packer_main files argv = Inr out"
    and idx: "out_index out = Some idx" and sh: "out_shards out = Some shards"
    and rows: "list_all row_indexable (out_rows out)" "out_rows out \<noteq> []"
    and ids: "distinct (map mr_semantic_tensor_id (out_rows out))" "distinct (map mr_source_name (out_rows out))"
    and loc: "length idx \<le> 67108864" "fs path = Some (file_of idx)" "path \<noteq> []"
  shows "\<exists>p opt spath src. ds4_pack_open fs (Some path) = Inr p \<and>
     packer_args packer_default_options argv = Inr opt \<and> po_source_path opt = Some spath \<and>
     files spath = Some src \<and> map pe_source_name (pk_entries p) = map mr_source_name (out_rows out) \<and>
     (\<forall>e \<in> set (pk_entries p).
        pe_shard_file e = ''gpu'' @ show_int (pe_owning_gpu e) @ ''.weights'' \<and>
        take (unat (pe_byte_length e)) (drop (unat (pe_shard_offset e)) (shards ! nat (pe_owning_gpu e)))
          = take (unat (pe_byte_length e)) (drop (unat (pe_source_offset e)) src))"
proof -
  have idx_eq: "idx = write_index (out_rows out)"
    by (rule packer_main_steps [OF run]) (use idx in \<open>auto split: if_splits\<close>)
  obtain p where p: "ds4_pack_open fs (Some path) = Inr p" "pk_entries p = map row_entry (out_rows out)"
    using write_index_opens [OF rows ids, of fs path] loc by (auto simp: idx_eq file_of_def)
  obtain opt spath src where o: "packer_args packer_default_options argv = Inr opt"
    "po_source_path opt = Some spath" "files spath = Some src"
    and b: "\<forall>r \<in> set (out_rows out). take (unat (mr_byte_length r))
       (drop (unat (mr_shard_offset r)) (shards ! nat (mr_owning_gpu r))) = row_bytes src r"
    using packed_bytes [OF run sh] by blast
  show ?thesis
    using p o b by (intro exI [of _ p] exI [of _ opt] exI [of _ spath] exI [of _ src])
      (auto simp: row_entry_def entry_of_row_def row_bytes_def comp_def)
qed

theorem packed_model_loads_witness:
  "\<exists>p opt spath src. ds4_pack_open example_fs (Some ''i'') = Inr p \<and>
     packer_args packer_default_options example_argv = Inr opt \<and> po_source_path opt = Some spath \<and>
     example_files spath = Some src \<and> map pe_source_name (pk_entries p) = map mr_source_name example_rows \<and>
     (\<forall>e \<in> set (pk_entries p).
        pe_shard_file e = ''gpu'' @ show_int (pe_owning_gpu e) @ ''.weights'' \<and>
        take (unat (pe_byte_length e)) (drop (unat (pe_shard_offset e)) (example_shards ! nat (pe_owning_gpu e)))
          = take (unat (pe_byte_length e)) (drop (unat (pe_source_offset e)) src))"
proof -
  have "list_all row_indexable example_rows" "length (write_index example_rows) \<le> 67108864"
    "distinct (map mr_semantic_tensor_id example_rows)" "distinct (map mr_source_name example_rows)"
    by code_simp+
  then show ?thesis
    using packed_model_loads [OF example_run, of "write_index example_rows" example_shards example_fs "''i''"]
    by (simp add: example_fs_def) (simp add: example_rows_def)
qed

text \<open>
  C2: The shard layout. Every row of a successful run starts at a multiple of the alignment
  option, and of two rows of one GPU the later one starts at or after the end of the earlier one,
  so no two tensors share a byte of a shard.
\<close>

theorem packer_layout_disjoint:
  assumes run: "packer_main files argv = Inr out"
    and ij: "i < j" "j < length (out_rows out)"
  shows "\<exists>opt. packer_args packer_default_options argv = Inr opt \<and>
     (\<forall>r \<in> set (out_rows out). unat (po_alignment opt) dvd unat (mr_shard_offset r)) \<and>
     (mr_owning_gpu (out_rows out ! i) = mr_owning_gpu (out_rows out ! j) \<longrightarrow>
        shard_end (out_rows out ! i) \<le> unat (mr_shard_offset (out_rows out ! j)))"
proof (rule packer_main_steps [OF run])
  fix opt0 opt rows gpu
  assume a: "packer_args packer_default_options argv = Inr opt0" "packer_check_options opt0 = Inr opt"
    "po_alignment opt \<noteq> 0" "unat (po_gpus opt) \<le> 8" "rows_in_range (unat (po_gpus opt)) rows"
    "assign_shard_offsets rows (po_gpus opt) (po_alignment opt) = Inr (out_rows out, gpu)"
  have "po_alignment opt = po_alignment opt0"
    using a(2) by (auto simp: packer_check_options_def split: if_splits)
  then show ?thesis
    using a(1) assign_shard_offsets_layout [OF a(6,3,5,4)] ij
    by (auto simp: shards_ordered_def sorted_wrt_iff_nth_less)
qed

theorem packer_layout_disjoint_witness:
  "\<exists>opt. packer_args packer_default_options example_argv = Inr opt \<and>
     (\<forall>r \<in> set example_rows. unat (po_alignment opt) dvd unat (mr_shard_offset r)) \<and>
     shard_end (example_rows ! 0) \<le> unat (mr_shard_offset (example_rows ! 1))"
  using packer_layout_disjoint [OF example_run, of 0 1]
  by (simp add: example_rows_def) (simp add: example_row_def)

text \<open>
  C3: The chunked copy loop of the packer is one write: copying \<open>n\<close> bytes in buffers of eight
  megabytes either fails, when the source is short, or leaves the shard as if the whole range had
  been written at once at its position.
\<close>

theorem copy_exact_is_one_write:
  assumes "0 < n"
  shows "copy_exact src dst pos n name =
     (if length src < n then Inl (Short_copy name) else Inr (write_at dst pos (take n src)))"
  using assms by (rule copy_exact_eq)

theorem copy_exact_is_one_write_witness:
  "copy_exact ''abcdef'' ''xy'' 4 3 ''t'' = Inr (''xy'' @ [NUL, NUL] @ ''abc'')"
  using copy_exact_is_one_write [of 3 "''abcdef''" "''xy''" 4 "''t''"]
  by (simp add: write_at_def numeral_2_eq_2)

section \<open>The open index\<close>

text \<open>
  C4: An index that opens is well formed: every row has an owner in range and a non-zero length,
  neither its source range nor its shard range wraps around, its shard file is the owner's, and
  no two rows share a semantic id or a source name; a lookup finds exactly the row with that id.
\<close>

theorem pack_open_well_formed:
  assumes "ds4_pack_open fs path = Inr p"
  shows "pk_entries p \<noteq> [] \<and>
     (\<forall>e \<in> set (pk_entries p).
        0 \<le> pe_owning_gpu e \<and> pe_owning_gpu e \<le> 2147483647 \<and> pe_byte_length e \<noteq> 0 \<and>
        unat (pe_source_offset e) + unat (pe_byte_length e) < 2 ^ 64 \<and>
        unat (pe_shard_offset e) + unat (pe_byte_length e) < 2 ^ 64 \<and>
        (pe_shard_file e = [] \<or> valid_shard_name (pe_shard_file e) (pe_owning_gpu e))) \<and>
     distinct (map pe_source_name (pk_entries p)) \<and>
     (\<forall>tid e. ds4_pack_lookup p tid = Some e \<longleftrightarrow>
        e \<in> set (pk_entries p) \<and> pe_semantic_tensor_id e = tid)"
  using ds4_pack_open_wf [OF assms] ds4_pack_lookup_iff [of p]
  by (auto simp: pack_wf_def list_all_iff entry_wf_def less_Suc_eq_le)

theorem pack_open_well_formed_witness:
  "ds4_pack_open example_fs (Some ''i'') = Inr example_pack \<and>
     distinct (map pe_source_name (pk_entries example_pack)) \<and>
     ds4_pack_lookup example_pack ''b'' = Some (row_entry (example_row ''b'' ''B'' 4 8 3 8 ''y''))"
  using pack_open_well_formed [OF example_opens] example_opens
  by (simp add: example_pack_def example_rows_def) (simp add: row_entry_def entry_of_row_def example_row_def)

text \<open>
  The arena of a GPU is exactly as long as its tensors need: the size computed with 64-bit
  sums is the true maximum of the ends of the GPU's rows, so every row lies inside its arena and
  the range check that binding repeats on every row never fails on an open index.
\<close>

theorem arena_bytes_exact:
  assumes "ds4_pack_open fs path = Inr p" and "0 \<le> gpu"
  shows "unat (ds4_pack_arena_bytes p gpu) =
       Max (insert 0 ((\<lambda>e. unat (pe_shard_offset e) + unat (pe_byte_length e)) `
         {e \<in> set (pk_entries p). pe_owning_gpu e = gpu})) \<and>
     (\<forall>e \<in> set (pk_entries p). \<forall>a. a = ds4_pack_arena_bytes p (pe_owning_gpu e) \<longrightarrow>
        \<not> (pe_shard_offset e > a \<or> pe_byte_length e > a - pe_shard_offset e))"
  using ds4_pack_open_wf [OF assms(1)] assms(2) ds4_pack_arena_bytes_Max arena_check_passes by blast

theorem arena_bytes_exact_witness:
  "ds4_pack_open example_fs (Some ''i'') = Inr example_pack \<and> unat (ds4_pack_arena_bytes example_pack 0) = 11"
proof -
  have "{e \<in> set (pk_entries example_pack). pe_owning_gpu e = 0} = set (pk_entries example_pack)"
    by (auto simp: example_pack_def example_rows_def row_entry_def entry_of_row_def example_row_def)
  moreover have "(\<lambda>e. unat (pe_shard_offset e) + unat (pe_byte_length e)) ` set (pk_entries example_pack) = {4, 11}"
    by (auto simp: example_pack_def example_rows_def row_entry_def entry_of_row_def example_row_def)
  ultimately show ?thesis
    using arena_bytes_exact [OF example_opens, of 0] example_opens by simp
qed

text \<open>A row agrees with its source tensor, and its bytes lie within the source file.\<close>

lemma row_status_ok_iff:
  "row_status (Some e) s fsize n_gpus = Row_ok \<longleftrightarrow>
     (0 < n_gpus \<longrightarrow> 0 \<le> pe_owning_gpu e \<and> pe_owning_gpu e < n_gpus) \<and>
     unat (pe_source_offset e) + unat (pe_byte_length e) \<le> unat fsize \<and>
     pe_source_dtype e = st_source_dtype s \<and> pe_source_shape e = st_source_shape s \<and>
     pe_source_offset e = st_source_offset s \<and> pe_byte_length e = st_byte_length s"
proof -
  have "(pe_source_offset e > fsize \<or> pe_byte_length e > fsize - pe_source_offset e) \<longleftrightarrow>
      unat fsize < unat (pe_source_offset e) + unat (pe_byte_length e)"
  proof (cases "pe_source_offset e \<le> fsize")
    case True
    then show ?thesis using unat_sub [OF True] by (auto simp: word_less_nat_alt word_le_nat_alt)
  next
    case False
    then show ?thesis by (simp add: word_less_nat_alt word_le_nat_alt)
  qed
  then show ?thesis by (auto simp: row_status_def not_less)
qed

text \<open>
  C5: Reconciliation accepts exactly the faithful indexes: every source tensor has a row of its
  name with the same dtype, shape, offset and length, whose range of bytes ends within the source
  file and whose owner is one of the GPUs (any owner when the number of GPUs is not positive); every
  row is of some source tensor; and there are as many rows as tensors.
\<close>

theorem reconcile_accepts_iff:
  assumes "ds4_pack_open fs path = Inr p"
    and "length source + length (pk_entries p) < 18446744073709551616"
  shows "fst (ds4_pack_reconcile p source fsize n_gpus) = Inr () \<longleftrightarrow>
     (\<forall>s \<in> set source. \<exists>e \<in> set (pk_entries p). pe_source_name e = st_name s \<and>
        (0 < n_gpus \<longrightarrow> 0 \<le> pe_owning_gpu e \<and> pe_owning_gpu e < n_gpus) \<and>
        unat (pe_source_offset e) + unat (pe_byte_length e) \<le> unat fsize \<and>
        pe_source_dtype e = st_source_dtype s \<and> pe_source_shape e = st_source_shape s \<and>
        pe_source_offset e = st_source_offset s \<and> pe_byte_length e = st_byte_length s) \<and>
     (\<forall>e \<in> set (pk_entries p). \<exists>s \<in> set source. st_name s = pe_source_name e) \<and>
     length source = length (pk_entries p)"
proof -
  have wf: "pack_wf p" using ds4_pack_open_wf [OF assms(1)] by blast
  show ?thesis
    unfolding ds4_pack_reconcile_ok_iff [OF wf assms(2)] source_ok_iff [OF wf] row_status_ok_iff ..
qed

theorem reconcile_accepts_iff_witness:
  "let tensor = (\<lambda>n dt off len. \<lparr>st_name = n, st_source_dtype = dt, st_source_shape = ''1'',
        st_source_offset = off, st_byte_length = len\<rparr>);
       verdict = (\<lambda>source. fst (ds4_pack_reconcile example_pack source 16 8))
   in verdict [tensor ''B'' ''f32'' 8 3, tensor ''A'' ''f32'' 2 4] = Inr () \<and>
      verdict [tensor ''B'' ''f32'' 8 3, tensor ''A'' ''f16'' 2 4] \<noteq> Inr () \<and>
      verdict [tensor ''A'' ''f32'' 2 4] \<noteq> Inr ()"
proof -
  have "length (pk_entries example_pack) = 2" by (simp add: example_pack_def example_rows_def)
  then show ?thesis
    unfolding Let_def
    using reconcile_accepts_iff [OF example_opens, of "[_, _]" 16 8] reconcile_accepts_iff [OF example_opens, of "[_]" 16 8]
    by (simp add: example_pack_def example_rows_def row_entry_def entry_of_row_def example_row_def)
qed

text \<open>
  C6: Shard validation is sound: when it accepts a directory, every tensor's shard file is the
  one of its owner and the file on disk is long enough to hold the whole tensor.
\<close>

theorem validate_shards_sound:
  assumes "ds4_pack_open fs path = Inr p" and "ds4_pack_validate_shards stat_size p dir = Inr ()"
    and "e \<in> set (pk_entries p)"
  shows "valid_shard_name (pe_shard_file e) (pe_owning_gpu e) \<and>
     (\<exists>spath size. join_path 4096 dir (pe_shard_file e) = Some spath \<and> stat_size spath = Some size \<and>
        int (unat (pe_shard_offset e) + unat (pe_byte_length e)) \<le> size)"
  using ds4_pack_validate_shards_sound [OF conjunct1 [OF ds4_pack_open_wf [OF assms(1)]] assms(2,3)] .

theorem validate_shards_sound_witness:
  "ds4_pack_validate_shards (\<lambda>path. if path = ''d/gpu0.weights'' then Some 11 else None) example_pack ''d/'' = Inr () \<and>
     (\<exists>spath size. join_path 4096 ''d/'' ''gpu0.weights'' = Some spath \<and>
        (if spath = ''d/gpu0.weights'' then Some 11 else None) = Some size \<and> (11 :: int) \<le> size)"
proof -
  have v: "ds4_pack_validate_shards (\<lambda>path. if path = ''d/gpu0.weights'' then Some 11 else None) example_pack ''d/'' = Inr ()"
    by code_simp
  have e: "pk_entries example_pack ! 1 \<in> set (pk_entries example_pack)" "pe_shard_file (pk_entries example_pack ! 1) = ''gpu0.weights''"
    "unat (pe_shard_offset (pk_entries example_pack ! 1)) + unat (pe_byte_length (pk_entries example_pack ! 1)) = 11"
    by code_simp+
  show ?thesis using validate_shards_sound [OF example_opens v e(1)] v unfolding e by auto
qed

text \<open>
  C7: Every row of a TurboMind index that opens has an owner that is not negative, non-zero
  dimensions, between one packed expert and the total number of experts, and non-zero bytes of
  weights and scales per expert; its sidecar file is one of the two files of its owner; no two rows
  share a semantic id; and lookup by semantic id is exact. The end of its weights is the offset plus
  the product of packed experts and bytes per expert without a wrap of the sum, and so is the
  end of its scales, but the product itself is the one of 64 bits: it is the size of the experts
  only where that size is below \<open>2 ^ 64\<close>, see \<open>tm_span_check_wraps\<close>.
\<close>

theorem tm_open_well_formed:
  assumes "ds4_tm_pack_open fs path = Inr p"
  shows "tp_entries p \<noteq> [] \<and>
     (\<forall>e \<in> set (tp_entries p).
        0 \<le> te_owning_gpu e \<and> te_n e \<noteq> 0 \<and> te_k e \<noteq> 0 \<and>
        0 < unat (te_experts_packed e) \<and> unat (te_experts_packed e) \<le> unat (te_experts_total e) \<and>
        te_weight_bytes_per_expert e \<noteq> 0 \<and> te_scale_bytes_per_expert e \<noteq> 0 \<and>
        unat (tm_weight_end e) =
          unat (te_weight_offset e) + unat (te_experts_packed e) * unat (te_weight_bytes_per_expert e) mod 2 ^ 64 \<and>
        unat (tm_scale_end e) =
          unat (te_scale_offset e) + unat (te_experts_packed e) * unat (te_scale_bytes_per_expert e) mod 2 ^ 64 \<and>
        te_sidecar_file e \<in> {''gpu'' @ show_int (te_owning_gpu e) @ ''.turbomind'',
                             ''gpu'' @ show_int (te_owning_gpu e) @ ''.weights''}) \<and>
     distinct (map te_semantic_tensor_id (tp_entries p)) \<and>
     (\<forall>tid e. ds4_tm_pack_lookup p tid = Some e \<longleftrightarrow>
        e \<in> set (tp_entries p) \<and> te_semantic_tensor_id e = tid)"
proof -
  have wf: "tm_pack_wf p" and ne: "tp_entries p \<noteq> []" using ds4_tm_pack_open_wf [OF assms] by auto
  have row: "tm_entry_wf e" if "e \<in> set (tp_entries p)" for e
    using wf that by (auto simp: tm_pack_wf_def list_all_iff)
  have pos: "0 < unat (te_experts_packed e)" "unat (te_experts_packed e) \<le> unat (te_experts_total e)"
    if "e \<in> set (tp_entries p)" for e
    using row [OF that] by (auto simp: tm_entry_wf_def word_le_nat_alt unat_gt_0)
  have d: "distinct (map te_semantic_tensor_id (tp_entries p))" using wf by (simp add: tm_pack_wf_def)
  show ?thesis
    using row pos tm_ends_exact ne d ds4_tm_pack_lookup_iff [OF wf]
    by (auto simp: tm_entry_wf_def valid_sidecar_name_def)
qed

theorem tm_open_well_formed_witness:
  "ds4_tm_pack_open (\<lambda>_. Some (file_of (example_tm_index ''8'' ''16''))) (Some ''i'') = Inr (example_tm_pack 8 16) \<and>
     unat (tm_weight_end (example_tm_entry 8 16)) = 16 \<and> unat (tm_scale_end (example_tm_entry 8 16)) = 24 \<and>
     ds4_tm_pack_lookup (example_tm_pack 8 16) ''e'' = Some (example_tm_entry 8 16)"
  using tm_open_well_formed [OF example_tm_opens] example_tm_opens
  by (simp add: example_tm_pack_def) (simp add: example_tm_entry_def)

text \<open>
  The overflow check of a TurboMind row is on a product that has already wrapped: an index
  whose row claims two experts of \<open>2 ^ 63\<close> bytes each opens, and its weight range is taken to be
  empty, although the experts span \<open>2 ^ 64\<close> bytes.
\<close>

lemma tm_span_check_wraps:
  "ds4_tm_pack_open (\<lambda>_. Some (file_of (example_tm_index ''9223372036854775808'' ''16''))) (Some ''i'') =
     Inr (example_tm_pack 9223372036854775808 16) \<and>
   tm_weight_span (example_tm_entry 9223372036854775808 16) = 0 \<and>
   unat (te_experts_packed (example_tm_entry 9223372036854775808 16)) * unat (te_weight_bytes_per_expert (example_tm_entry 9223372036854775808 16)) = 18446744073709551616"
  by (intro conjI; code_simp)

text \<open>
  A numeric field of the pack index is refused when it starts with a minus sign, but not when
  white space precedes the sign: the field then reads as the two's complement of the number.
\<close>

theorem parse_u64_field_minus:
  "parse_u64_field (CHR ''-'' # ds) = None \<and> parse_u64_field '' -5'' = Some (- 5)"
  by (intro conjI, simp add: parse_u64_field_def, code_simp)

end
