(* ===== verification/Policy.thy ===== *)
theory Policy
  imports Prelude
begin

text \<open>
  The execution policy of the appliance (\<open>src/engine/context.c\<close>, lines 53 to 181 and 260 to 325,
  with the enumerations of \<open>src/engine/context.h\<close>): how a tensor's dtype, runtime layout and
  kernel family decide its family and the kind of execution it may claim, or that binding it is
  refused. The theorems say what the classifier guarantees of every policy it hands out.
\<close>

section \<open>Constants and enumerations\<close>

definition DS4_V100_EXPECTED_GPUS :: nat where "DS4_V100_EXPECTED_GPUS = 8"
definition DS4_V100_N_LAYERS :: nat where "DS4_V100_N_LAYERS = 43"
definition DS4_V100_HC_ROWS :: u64 where "DS4_V100_HC_ROWS = 4"
definition DS4_V100_HC_COLS :: u64 where "DS4_V100_HC_COLS = 4096"
definition DS4_V100_RELAY_BUFFERS :: u64 where "DS4_V100_RELAY_BUFFERS = 2"
definition DS4_V100_SWA_ROWS :: u64 where "DS4_V100_SWA_ROWS = 128"
definition DS4_V100_HEAD_DIM :: u64 where "DS4_V100_HEAD_DIM = 512"
definition DS4_V100_INDEXER_HEAD_DIM :: u64 where "DS4_V100_INDEXER_HEAD_DIM = 128"
definition DS4_V100_MIN_VRAM_BYTES :: u64 where "DS4_V100_MIN_VRAM_BYTES = 31 * 1024 * 1024 * 1024"
definition DS4_V100_DEFAULT_RESERVE_BYTES :: u64 where "DS4_V100_DEFAULT_RESERVE_BYTES = 2 * 1024 * 1024 * 1024"
definition DS4_V100_MAX_SHAPE_DIMS :: nat where "DS4_V100_MAX_SHAPE_DIMS = 4"

datatype ds4_init_mode =
    DS4_V100_INIT_PROBE_ONLY | DS4_V100_INIT_USE_EXISTING_ARENAS | DS4_V100_INIT_FULL_RESIDENT

datatype ds4_source_dtype =
    DS4_V100_SOURCE_UNKNOWN | DS4_V100_SOURCE_BF16 | DS4_V100_SOURCE_F32 | DS4_V100_SOURCE_I32
  | DS4_V100_SOURCE_F8_E4M3_B128 | DS4_V100_SOURCE_MXFP4 | DS4_V100_SOURCE_FP4

datatype ds4_tensor_family =
    DS4_V100_FAMILY_UNKNOWN | DS4_V100_FAMILY_BF16_GLOBAL | DS4_V100_FAMILY_F32_CONTROL
  | DS4_V100_FAMILY_FP8_DENSE | DS4_V100_FAMILY_MXFP4_EXPERT | DS4_V100_FAMILY_HC_CONTROL
  | DS4_V100_FAMILY_KV_CACHE

datatype ds4_exec_kind =
    DS4_V100_EXEC_F32_CONTROL | DS4_V100_EXEC_F16_HMMA | DS4_V100_EXEC_LOWBIT_KERNEL
  | DS4_V100_EXEC_DIAGNOSTIC_ONLY | DS4_V100_EXEC_UNSUPPORTED | DS4_V100_EXEC_COUNT

datatype ds4_layer_class =
    DS4_V100_LAYER_SWA_ONLY | DS4_V100_LAYER_RATIO_4 | DS4_V100_LAYER_RATIO_128

record ds4_policy =
  pol_source_dtype :: ds4_source_dtype
  pol_family :: ds4_tensor_family
  pol_exec_kind :: ds4_exec_kind
  pol_conversion_stub :: "string option"
  pol_forbidden_claim :: "string option"

section \<open>Classification\<close>

definition str_eq_ci :: "string \<Rightarrow> string \<Rightarrow> bool" where
  "str_eq_ci a b \<longleftrightarrow> map tolower a = map tolower b"

text \<open>The scan of \<open>contains_ci\<close>: one start position after the other.\<close>

fun contains_ci_scan :: "string \<Rightarrow> string \<Rightarrow> bool" where
  "contains_ci_scan [] needle = False"
| "contains_ci_scan (c # cs) needle =
     (map tolower (take (length needle) (c # cs)) = map tolower needle \<or> contains_ci_scan cs needle)"

definition contains_ci :: "string \<Rightarrow> string \<Rightarrow> bool" where
  "contains_ci s needle \<longleftrightarrow> needle \<noteq> [] \<and> contains_ci_scan s needle"

definition ds4_source_dtype_parse :: "string \<Rightarrow> ds4_source_dtype" where
  "ds4_source_dtype_parse s =
     (if str_eq_ci s ''bf16'' then DS4_V100_SOURCE_BF16
      else if str_eq_ci s ''f32'' then DS4_V100_SOURCE_F32
      else if str_eq_ci s ''i32'' then DS4_V100_SOURCE_I32
      else if str_eq_ci s ''f8_e4m3_b128'' then DS4_V100_SOURCE_F8_E4M3_B128
      else if str_eq_ci s ''mxfp4'' then DS4_V100_SOURCE_MXFP4
      else if str_eq_ci s ''fp4'' then DS4_V100_SOURCE_FP4
      else DS4_V100_SOURCE_UNKNOWN)"

fun ds4_source_dtype_name :: "ds4_source_dtype \<Rightarrow> string" where
  "ds4_source_dtype_name DS4_V100_SOURCE_BF16 = ''bf16''"
| "ds4_source_dtype_name DS4_V100_SOURCE_F32 = ''f32''"
| "ds4_source_dtype_name DS4_V100_SOURCE_I32 = ''i32''"
| "ds4_source_dtype_name DS4_V100_SOURCE_F8_E4M3_B128 = ''f8_e4m3_b128''"
| "ds4_source_dtype_name DS4_V100_SOURCE_MXFP4 = ''mxfp4''"
| "ds4_source_dtype_name DS4_V100_SOURCE_FP4 = ''fp4''"
| "ds4_source_dtype_name DS4_V100_SOURCE_UNKNOWN = ''unknown''"

definition ds4_tensor_family_infer :: "string \<Rightarrow> string \<Rightarrow> string \<Rightarrow> ds4_tensor_family" where
  "ds4_tensor_family_infer source_dtype runtime_layout kernel_family =
     (let dtype = ds4_source_dtype_parse source_dtype in
      if contains_ci kernel_family ''hc_control'' then DS4_V100_FAMILY_HC_CONTROL
      else if contains_ci kernel_family ''kv'' then DS4_V100_FAMILY_KV_CACHE
      else if dtype = DS4_V100_SOURCE_F8_E4M3_B128 \<or> contains_ci kernel_family ''fp8'' \<or>
              contains_ci runtime_layout ''f8_e4m3_b128'' then DS4_V100_FAMILY_FP8_DENSE
      else if dtype = DS4_V100_SOURCE_MXFP4 \<or> dtype = DS4_V100_SOURCE_FP4 \<or>
              contains_ci kernel_family ''mxfp4'' \<or> contains_ci runtime_layout ''mxfp4''
           then DS4_V100_FAMILY_MXFP4_EXPERT
      else if dtype = DS4_V100_SOURCE_BF16 then DS4_V100_FAMILY_BF16_GLOBAL
      else if dtype = DS4_V100_SOURCE_F32 \<or> dtype = DS4_V100_SOURCE_I32
           then DS4_V100_FAMILY_F32_CONTROL
      else DS4_V100_FAMILY_UNKNOWN)"

fun ds4_tensor_family_name :: "ds4_tensor_family \<Rightarrow> string" where
  "ds4_tensor_family_name DS4_V100_FAMILY_BF16_GLOBAL = ''bf16_global''"
| "ds4_tensor_family_name DS4_V100_FAMILY_F32_CONTROL = ''f32_control''"
| "ds4_tensor_family_name DS4_V100_FAMILY_FP8_DENSE = ''fp8_dense''"
| "ds4_tensor_family_name DS4_V100_FAMILY_MXFP4_EXPERT = ''mxfp4_expert''"
| "ds4_tensor_family_name DS4_V100_FAMILY_HC_CONTROL = ''hc_control''"
| "ds4_tensor_family_name DS4_V100_FAMILY_KV_CACHE = ''kv_cache''"
| "ds4_tensor_family_name DS4_V100_FAMILY_UNKNOWN = ''unknown''"

fun ds4_exec_kind_name :: "ds4_exec_kind \<Rightarrow> string" where
  "ds4_exec_kind_name DS4_V100_EXEC_F32_CONTROL = ''f32_control''"
| "ds4_exec_kind_name DS4_V100_EXEC_F16_HMMA = ''f16_hmma_after_convert''"
| "ds4_exec_kind_name DS4_V100_EXEC_LOWBIT_KERNEL = ''lowbit_kernel''"
| "ds4_exec_kind_name DS4_V100_EXEC_DIAGNOSTIC_ONLY = ''diagnostic_only''"
| "ds4_exec_kind_name DS4_V100_EXEC_UNSUPPORTED = ''unsupported''"
| "ds4_exec_kind_name DS4_V100_EXEC_COUNT = ''invalid''"

definition ds4_layer_class_for_layer :: "int \<Rightarrow> ds4_layer_class" where
  "ds4_layer_class_for_layer layer_id =
     (if layer_id < 0 \<or> layer_id \<ge> int DS4_V100_N_LAYERS then DS4_V100_LAYER_SWA_ONLY
      else if layer_id \<le> 1 then DS4_V100_LAYER_SWA_ONLY
      else if layer_id mod 2 = 0 then DS4_V100_LAYER_RATIO_4 else DS4_V100_LAYER_RATIO_128)"

fun ds4_layer_class_name :: "ds4_layer_class \<Rightarrow> string" where
  "ds4_layer_class_name DS4_V100_LAYER_SWA_ONLY = ''swa_only''"
| "ds4_layer_class_name DS4_V100_LAYER_RATIO_4 = ''ratio_4''"
| "ds4_layer_class_name DS4_V100_LAYER_RATIO_128 = ''ratio_128''"

text \<open>The switch of the classifier: the policy of a family, unsupported where it breaks out.\<close>

definition policy_of_family ::
  "ds4_source_dtype \<Rightarrow> ds4_tensor_family \<Rightarrow> string \<Rightarrow> string \<Rightarrow> ds4_policy" where
  "policy_of_family dtype family runtime_layout kernel_family =
     (let p = \<lparr>pol_source_dtype = dtype, pol_family = family,
               pol_exec_kind = DS4_V100_EXEC_UNSUPPORTED,
               pol_conversion_stub = None, pol_forbidden_claim = None\<rparr>
      in case family of
           DS4_V100_FAMILY_BF16_GLOBAL \<Rightarrow>
             if dtype \<noteq> DS4_V100_SOURCE_BF16 then p
             else p\<lparr>pol_exec_kind := DS4_V100_EXEC_DIAGNOSTIC_ONLY,
                    pol_conversion_stub := Some ''bf16_source_to_fp16_or_f32_boundary'',
                    pol_forbidden_claim := Some ''native_bf16_tensor_core_execution''\<rparr>
         | DS4_V100_FAMILY_FP8_DENSE \<Rightarrow>
             if dtype \<noteq> DS4_V100_SOURCE_F8_E4M3_B128 then p
             else p\<lparr>pol_exec_kind := DS4_V100_EXEC_F16_HMMA,
                    pol_conversion_stub := Some ''fp8_e4m3_b128_unpack_to_fp16_hmma_pending'',
                    pol_forbidden_claim := Some ''native_fp8_tensor_core_execution''\<rparr>
         | DS4_V100_FAMILY_MXFP4_EXPERT \<Rightarrow>
             if dtype \<noteq> DS4_V100_SOURCE_MXFP4 \<and> dtype \<noteq> DS4_V100_SOURCE_FP4 then p
             else p\<lparr>pol_exec_kind := DS4_V100_EXEC_LOWBIT_KERNEL,
                    pol_conversion_stub := Some ''mxfp4_or_fp4_lowbit_kernel_pending'',
                    pol_forbidden_claim := Some ''native_fp4_tensor_core_execution''\<rparr>
         | DS4_V100_FAMILY_KV_CACHE \<Rightarrow>
             p\<lparr>pol_exec_kind := DS4_V100_EXEC_UNSUPPORTED,
               pol_forbidden_claim := Some ''kv_population_in_sprint_006''\<rparr>
         | DS4_V100_FAMILY_UNKNOWN \<Rightarrow> p
         | _ \<Rightarrow>
             if dtype \<noteq> DS4_V100_SOURCE_F32 \<and> dtype \<noteq> DS4_V100_SOURCE_I32 then p
             else if contains_ci kernel_family ''gemm'' \<or> contains_ci kernel_family ''matmul'' \<or>
                     contains_ci runtime_layout ''gemm'' \<or> contains_ci runtime_layout ''matmul''
                  then p
             else p\<lparr>pol_exec_kind := DS4_V100_EXEC_F32_CONTROL,
                    pol_forbidden_claim := Some ''decode_completion''\<rparr>)"

text \<open>\<open>None\<close> is the error return: no policy is written.\<close>

definition ds4_classify_or_die :: "string \<Rightarrow> string \<Rightarrow> string \<Rightarrow> ds4_policy option" where
  "ds4_classify_or_die source_dtype runtime_layout kernel_family =
     (let p = policy_of_family (ds4_source_dtype_parse source_dtype)
                (ds4_tensor_family_infer source_dtype runtime_layout kernel_family)
                runtime_layout kernel_family
      in if pol_exec_kind p = DS4_V100_EXEC_UNSUPPORTED then None else Some p)"

section \<open>What a policy guarantees\<close>

lemma str_eq_ci_refl [simp]: "str_eq_ci s s"
  by (simp add: str_eq_ci_def)

lemma contains_ci_scan_iff:
  assumes "needle \<noteq> []"
  shows "contains_ci_scan s needle \<longleftrightarrow>
     (\<exists>pre mid post. s = pre @ mid @ post \<and> map tolower mid = map tolower needle)"
proof (induction s)
  case Nil
  then show ?case using assms by auto
next
  case (Cons c cs)
  have "(\<exists>pre mid post. c # cs = pre @ mid @ post \<and> map tolower mid = map tolower needle) \<longleftrightarrow>
      (\<exists>mid post. c # cs = mid @ post \<and> map tolower mid = map tolower needle) \<or>
      (\<exists>pre mid post. cs = pre @ mid @ post \<and> map tolower mid = map tolower needle)"
    (is "?A \<longleftrightarrow> ?B \<or> ?C")
  proof
    assume ?A
    then obtain pre mid post where *: "c # cs = pre @ mid @ post" "map tolower mid = map tolower needle"
      by blast
    then show "?B \<or> ?C" by (cases pre) auto
  next
    assume "?B \<or> ?C"
    then show ?A by (metis append_Cons append_Nil)
  qed
  moreover have "?B \<longleftrightarrow> map tolower (take (length needle) (c # cs)) = map tolower needle"
  proof
    assume ?B
    then obtain mid post where "c # cs = mid @ post" "map tolower mid = map tolower needle" by blast
    moreover from this(2) have "length needle = length mid" by (metis length_map)
    ultimately show "map tolower (take (length needle) (c # cs)) = map tolower needle" by simp
  next
    assume "map tolower (take (length needle) (c # cs)) = map tolower needle"
    then show ?B by (metis append_take_drop_id)
  qed
  ultimately show ?case using Cons.IH by simp
qed

text \<open>The kind of execution each dtype may claim.\<close>

fun exec_kind_of_dtype :: "ds4_source_dtype \<Rightarrow> ds4_exec_kind" where
  "exec_kind_of_dtype DS4_V100_SOURCE_BF16 = DS4_V100_EXEC_DIAGNOSTIC_ONLY"
| "exec_kind_of_dtype DS4_V100_SOURCE_F32 = DS4_V100_EXEC_F32_CONTROL"
| "exec_kind_of_dtype DS4_V100_SOURCE_I32 = DS4_V100_EXEC_F32_CONTROL"
| "exec_kind_of_dtype DS4_V100_SOURCE_F8_E4M3_B128 = DS4_V100_EXEC_F16_HMMA"
| "exec_kind_of_dtype DS4_V100_SOURCE_MXFP4 = DS4_V100_EXEC_LOWBIT_KERNEL"
| "exec_kind_of_dtype DS4_V100_SOURCE_FP4 = DS4_V100_EXEC_LOWBIT_KERNEL"
| "exec_kind_of_dtype DS4_V100_SOURCE_UNKNOWN = DS4_V100_EXEC_UNSUPPORTED"

lemma policy_of_family_supported:
  assumes "pol_exec_kind (policy_of_family d f lay kf) \<noteq> DS4_V100_EXEC_UNSUPPORTED"
  shows "pol_exec_kind (policy_of_family d f lay kf) = exec_kind_of_dtype d \<and>
     pol_source_dtype (policy_of_family d f lay kf) = d \<and> pol_family (policy_of_family d f lay kf) = f \<and>
     pol_forbidden_claim (policy_of_family d f lay kf) \<noteq> None"
  using assms by (cases f; cases d) (auto simp: policy_of_family_def Let_def split: if_splits)

lemma classify_policy:
  assumes "ds4_classify_or_die dt lay kf = Some p"
  shows "pol_source_dtype p = ds4_source_dtype_parse dt" "pol_family p = ds4_tensor_family_infer dt lay kf"
    "pol_exec_kind p = exec_kind_of_dtype (ds4_source_dtype_parse dt)"
    "pol_exec_kind p \<noteq> DS4_V100_EXEC_UNSUPPORTED" "pol_forbidden_claim p \<noteq> None"
  using assms policy_of_family_supported
  by (auto simp: ds4_classify_or_die_def Let_def split: if_splits)

lemma dtype_name_parse: "ds4_source_dtype_parse (ds4_source_dtype_name d) = d"
  by (cases d) (simp_all add: ds4_source_dtype_parse_def str_eq_ci_def tolower_def byte_def)

end
