(* ===== verification/Kv_Plan.thy ===== *)
theory Kv_Plan
  imports Policy Pack Tm_Pack
begin

unbundle bit_operations_syntax

text \<open>
  The memory plan of the engine (\<open>src/engine/context.c\<close>, lines 170 to 258 and 328 to 485): the
  saturating 64-bit arithmetic, the KV budget of a layer, the split of the layers over the eight
  pipeline stages, and the plan that lays the KV buffers of a stage's layers out in one arena.
  The theorems say that, unless the plan saturates, the buffers of all layers of a stage lie
  inside its arena and no two of them overlap.
\<close>

section \<open>Saturating arithmetic\<close>

definition sat_mul_u64 :: "u64 \<Rightarrow> u64 \<Rightarrow> u64" where
  "sat_mul_u64 a b = (if a \<noteq> 0 \<and> b > UINT64_MAX div a then UINT64_MAX else a * b)"

definition sat_add_u64 :: "u64 \<Rightarrow> u64 \<Rightarrow> u64" where
  "sat_add_u64 a b = (if b > UINT64_MAX - a then UINT64_MAX else a + b)"

definition align_up_u64 :: "u64 \<Rightarrow> u64 \<Rightarrow> u64" where
  "align_up_u64 v align =
     (if align = 0 then v
      else (let mask = align - 1 in
            if align AND mask \<noteq> 0 then v
            else if v > UINT64_MAX - mask then UINT64_MAX
            else (v + mask) AND NOT mask))"

section \<open>State\<close>

record ds4_kv_budget =
  kb_raw_swa_bytes :: u64
  kb_compressed_attn_bytes :: u64
  kb_indexer_kv_bytes :: u64
  kb_compression_state_bytes :: u64
  kb_total_bytes :: u64

record ds4_kv_arena_plan =
  ka_raw_swa_offset :: u64
  ka_raw_swa_bytes :: u64
  ka_compressed_attn_offset :: u64
  ka_compressed_attn_bytes :: u64
  ka_indexer_kv_offset :: u64
  ka_indexer_kv_bytes :: u64
  ka_compression_state_offset :: u64
  ka_compression_state_bytes :: u64
  ka_total_bytes :: u64

record ds4_layer_kv_view =
  kv_raw_swa_offset :: u64
  kv_raw_swa_bytes :: u64
  kv_compressed_attn_offset :: u64
  kv_compressed_attn_bytes :: u64
  kv_indexer_kv_offset :: u64
  kv_indexer_kv_bytes :: u64
  kv_attn_state_kv_offset :: u64
  kv_attn_state_kv_bytes :: u64
  kv_attn_state_score_offset :: u64
  kv_attn_state_score_bytes :: u64
  kv_indexer_state_kv_offset :: u64
  kv_indexer_state_kv_bytes :: u64
  kv_indexer_state_score_offset :: u64
  kv_indexer_state_score_bytes :: u64
  kv_total_bytes :: u64

record ds4_device_fact =
  df_visible_id :: int
  df_cc_major :: int
  df_cc_minor :: int
  df_total_global_mem :: u64
  df_pci_bus_id :: string
  df_uuid :: string
  df_peer_access :: "bool list"

record ds4_stage_info =
  sg_stage_id :: int
  sg_gpu :: int
  sg_layer_begin :: int
  sg_layer_end :: int
  sg_owns_token_embedding :: bool
  sg_owns_output_head :: bool
  sg_tensor_count :: u64
  sg_arena_bytes :: u64
  sg_scratch_bytes :: u64
  sg_relay_f16_bytes :: u64
  sg_relay_f32_debug_bytes :: u64
  sg_planned_kv_bytes :: u64
  sg_kv_arena :: ds4_kv_arena_plan
  sg_kv_raw_swa_bytes :: u64
  sg_kv_compressed_attn_bytes :: u64
  sg_kv_indexer_bytes :: u64
  sg_kv_compression_state_bytes :: u64
  sg_output_head_reserve_bytes :: u64
  sg_mtp_reserve_bytes :: u64
  sg_reserve_bytes :: u64
  sg_device_total_bytes :: u64

record ds4_layer_info =
  ly_layer_id :: int
  ly_stage_id :: int
  ly_layer_class :: ds4_layer_class
  ly_kv_budget :: ds4_kv_budget
  ly_kv_view :: ds4_layer_kv_view
  ly_tensor_count :: u64
  ly_has_f32_control :: bool
  ly_has_fp8_dense :: bool
  ly_has_mxfp4_expert :: bool
  ly_has_hc_control :: bool

text \<open>The device facts are the array with its length; \<open>None\<close> is the null pointer.\<close>

record ds4_context_options =
  op_pack_index_path :: "string option"
  op_turbomind_pack_index_path :: "string option"
  op_expected_gpus :: int
  op_mode :: ds4_init_mode
  op_require_production_topology :: bool
  op_enable_f32_debug_relay :: bool
  op_scratch_bytes_per_gpu :: u64
  op_relay_max_active_slots :: u64
  op_reserve_bytes_per_gpu :: u64
  op_planned_kv_bytes_per_gpu :: u64
  op_kv_ctx_tokens :: u64
  op_kv_active_slots :: u64
  op_output_head_reserve_bytes :: u64
  op_mtp_reserve_bytes :: u64
  op_device_facts :: "ds4_device_fact list option"

record ds4_tensor_desc =
  td_entry :: ds4_pack_entry
  td_policy :: ds4_policy

record ds4_tm_tensor_desc =
  tmd_entry :: ds4_tm_pack_entry
  tmd_policy :: ds4_policy

record ds4_context =
  cx_opts :: ds4_context_options
  cx_pack :: "ds4_pack option"
  cx_tm_pack :: "ds4_tm_pack option"
  cx_stages :: "ds4_stage_info list"
  cx_descs :: "ds4_tensor_desc list"
  cx_tm_descs :: "ds4_tm_tensor_desc list"
  cx_cap_descs :: u64
  cx_cap_tm_descs :: u64
  cx_exec_counts :: "ds4_exec_kind \<Rightarrow> u64"
  cx_has_token_embedding :: bool
  cx_layers :: "ds4_layer_info list"

section \<open>The budget of a layer\<close>

definition zero_budget :: ds4_kv_budget where
  "zero_budget = \<lparr>kb_raw_swa_bytes = 0, kb_compressed_attn_bytes = 0, kb_indexer_kv_bytes = 0,
     kb_compression_state_bytes = 0, kb_total_bytes = 0\<rparr>"

text \<open>The branch of the layer class: the three variable parts of the budget.\<close>

definition kv_class_parts :: "ds4_layer_class \<Rightarrow> u64 \<Rightarrow> u64 \<Rightarrow> u64 \<times> u64 \<times> u64" where
  "kv_class_parts layer_class ctx_tokens active_slots =
     (let elem_bytes = 2 in
      case layer_class of
        DS4_V100_LAYER_RATIO_4 \<Rightarrow>
          (let comp_slots = ctx_tokens div 4;
               comp_per_slot = sat_mul_u64 comp_slots (DS4_V100_HEAD_DIM * elem_bytes);
               index_per_slot = sat_mul_u64 comp_slots (DS4_V100_INDEXER_HEAD_DIM * elem_bytes)
           in (sat_mul_u64 comp_per_slot active_slots,
               sat_mul_u64 index_per_slot active_slots,
               sat_add_u64 (2 * (2 * DS4_V100_HEAD_DIM) * (2 * 4) * 4)
                 (2 * (2 * DS4_V100_INDEXER_HEAD_DIM) * (2 * 4) * 4)))
      | DS4_V100_LAYER_RATIO_128 \<Rightarrow>
          (let comp_slots = ctx_tokens div 128;
               comp_per_slot = sat_mul_u64 comp_slots (DS4_V100_HEAD_DIM * elem_bytes)
           in (sat_mul_u64 comp_per_slot active_slots, 0, 2 * DS4_V100_HEAD_DIM * 128 * 4))
      | DS4_V100_LAYER_SWA_ONLY \<Rightarrow> (0, 0, 0))"

definition ds4_kv_budget_for_layer :: "int \<Rightarrow> u64 \<Rightarrow> u64 \<Rightarrow> ds4_kv_budget" where
  "ds4_kv_budget_for_layer layer_id ctx_tokens active_slots =
     (if layer_id < 0 \<or> layer_id \<ge> int DS4_V100_N_LAYERS \<or> ctx_tokens = 0 \<or> active_slots = 0
      then zero_budget
      else (let raw_per_slot = DS4_V100_SWA_ROWS * DS4_V100_HEAD_DIM * 2;
                raw = sat_mul_u64 raw_per_slot active_slots;
                (cmp, index, state) =
                  kv_class_parts (ds4_layer_class_for_layer layer_id) ctx_tokens active_slots
            in \<lparr>kb_raw_swa_bytes = raw, kb_compressed_attn_bytes = cmp, kb_indexer_kv_bytes = index,
                kb_compression_state_bytes = state,
                kb_total_bytes = sat_add_u64 (sat_add_u64 (sat_add_u64 raw cmp) index) state\<rparr>))"

definition kv_state_split_for_layer :: "int \<Rightarrow> u64 \<times> u64 \<times> u64 \<times> u64" where
  "kv_state_split_for_layer layer_id =
     (case ds4_layer_class_for_layer layer_id of
        DS4_V100_LAYER_RATIO_4 \<Rightarrow>
          (let attn = (2 * DS4_V100_HEAD_DIM) * (2 * 4) * 4;
               idx = (2 * DS4_V100_INDEXER_HEAD_DIM) * (2 * 4) * 4
           in (attn, attn, idx, idx))
      | DS4_V100_LAYER_RATIO_128 \<Rightarrow>
          (let attn = DS4_V100_HEAD_DIM * 128 * 4 in (attn, attn, 0, 0))
      | DS4_V100_LAYER_SWA_ONLY \<Rightarrow> (0, 0, 0, 0))"

section \<open>Stages\<close>

definition ds4_stage_for_layer :: "int \<Rightarrow> int" where
  "ds4_stage_for_layer layer_id =
     (if layer_id < 0 \<or> layer_id \<ge> int DS4_V100_N_LAYERS then - 1
      else if layer_id \<le> 5 then 0
      else if layer_id \<le> 11 then 1
      else if layer_id \<le> 17 then 2
      else if layer_id \<le> 23 then 3
      else if layer_id \<le> 29 then 4
      else if layer_id \<le> 34 then 5
      else if layer_id \<le> 39 then 6
      else 7)"

definition stage_begins :: "int list" where
  "stage_begins = [0, 6, 12, 18, 24, 30, 35, 40]"

definition stage_ends :: "int list" where
  "stage_ends = [5, 11, 17, 23, 29, 34, 39, 42]"

definition init_stage :: "ds4_context_options \<Rightarrow> nat \<Rightarrow> ds4_stage_info \<Rightarrow> ds4_stage_info" where
  "init_stage opts i s =
     (let s' = s\<lparr>sg_stage_id := int i, sg_gpu := int i,
                 sg_layer_begin := stage_begins ! i, sg_layer_end := stage_ends ! i,
                 sg_owns_token_embedding := (i = 0), sg_owns_output_head := (i = 7),
                 sg_scratch_bytes := op_scratch_bytes_per_gpu opts,
                 sg_planned_kv_bytes := op_planned_kv_bytes_per_gpu opts,
                 sg_reserve_bytes := op_reserve_bytes_per_gpu opts,
                 sg_relay_f16_bytes := DS4_V100_RELAY_BUFFERS * op_relay_max_active_slots opts *
                   DS4_V100_HC_ROWS * DS4_V100_HC_COLS * 2,
                 sg_relay_f32_debug_bytes :=
                   (if op_enable_f32_debug_relay opts
                    then DS4_V100_RELAY_BUFFERS * op_relay_max_active_slots opts *
                         DS4_V100_HC_ROWS * DS4_V100_HC_COLS * 4
                    else 0)\<rparr>
      in if i = 7 then s'\<lparr>sg_output_head_reserve_bytes := op_output_head_reserve_bytes opts,
                          sg_mtp_reserve_bytes := op_mtp_reserve_bytes opts\<rparr>
         else s')"

definition init_stage_map :: "ds4_context \<Rightarrow> ds4_context" where
  "init_stage_map ctx = ctx\<lparr>
     cx_stages := map (\<lambda>i. init_stage (cx_opts ctx) i (cx_stages ctx ! i)) [0..<DS4_V100_EXPECTED_GPUS],
     cx_layers := map (\<lambda>l. (cx_layers ctx ! l)\<lparr>ly_layer_id := int l,
         ly_stage_id := ds4_stage_for_layer (int l),
         ly_layer_class := ds4_layer_class_for_layer (int l)\<rparr>) [0..<DS4_V100_N_LAYERS]\<rparr>"

section \<open>The derived plan\<close>

definition zero_kv_arena :: ds4_kv_arena_plan where
  "zero_kv_arena = \<lparr>ka_raw_swa_offset = 0, ka_raw_swa_bytes = 0, ka_compressed_attn_offset = 0,
     ka_compressed_attn_bytes = 0, ka_indexer_kv_offset = 0, ka_indexer_kv_bytes = 0,
     ka_compression_state_offset = 0, ka_compression_state_bytes = 0, ka_total_bytes = 0\<rparr>"

definition kv_reset_stage :: "ds4_stage_info \<Rightarrow> ds4_stage_info" where
  "kv_reset_stage s = s\<lparr>sg_planned_kv_bytes := 0, sg_kv_arena := zero_kv_arena,
     sg_kv_raw_swa_bytes := 0, sg_kv_compressed_attn_bytes := 0, sg_kv_indexer_bytes := 0,
     sg_kv_compression_state_bytes := 0\<rparr>"

definition kv_stage_add :: "ds4_kv_budget \<Rightarrow> ds4_stage_info \<Rightarrow> ds4_stage_info" where
  "kv_stage_add b s = s\<lparr>
     sg_kv_raw_swa_bytes := sat_add_u64 (sg_kv_raw_swa_bytes s) (kb_raw_swa_bytes b),
     sg_kv_compressed_attn_bytes := sat_add_u64 (sg_kv_compressed_attn_bytes s) (kb_compressed_attn_bytes b),
     sg_kv_indexer_bytes := sat_add_u64 (sg_kv_indexer_bytes s) (kb_indexer_kv_bytes b),
     sg_kv_compression_state_bytes :=
       sat_add_u64 (sg_kv_compression_state_bytes s) (kb_compression_state_bytes b),
     sg_planned_kv_bytes := sat_add_u64 (sg_planned_kv_bytes s) (kb_total_bytes b)\<rparr>"

text \<open>One round of the second loop: the budget of a layer, added to its stage.\<close>

definition kv_accumulate_layer :: "nat \<Rightarrow> ds4_context \<Rightarrow> ds4_context" where
  "kv_accumulate_layer layer ctx =
     (let b = ds4_kv_budget_for_layer (int layer) (op_kv_ctx_tokens (cx_opts ctx))
                (op_kv_active_slots (cx_opts ctx));
          li = (cx_layers ctx ! layer)\<lparr>ly_kv_budget := b\<rparr>;
          g = nat (ly_stage_id li)
      in ctx\<lparr>cx_layers := (cx_layers ctx)[layer := li],
             cx_stages := (cx_stages ctx)[g := kv_stage_add b (cx_stages ctx ! g)]\<rparr>)"

definition kv_plan_stage :: "ds4_stage_info \<Rightarrow> ds4_stage_info" where
  "kv_plan_stage s =
     (let off1 = align_up_u64 (sat_add_u64 0 (sg_kv_raw_swa_bytes s)) 256;
          off2 = align_up_u64 (sat_add_u64 off1 (sg_kv_compressed_attn_bytes s)) 256;
          off3 = align_up_u64 (sat_add_u64 off2 (sg_kv_indexer_bytes s)) 256;
          off4 = align_up_u64 (sat_add_u64 off3 (sg_kv_compression_state_bytes s)) 256
      in s\<lparr>sg_kv_arena := \<lparr>ka_raw_swa_offset = 0, ka_raw_swa_bytes = sg_kv_raw_swa_bytes s,
              ka_compressed_attn_offset = off1,
              ka_compressed_attn_bytes = sg_kv_compressed_attn_bytes s,
              ka_indexer_kv_offset = off2, ka_indexer_kv_bytes = sg_kv_indexer_bytes s,
              ka_compression_state_offset = off3,
              ka_compression_state_bytes = sg_kv_compression_state_bytes s,
              ka_total_bytes = off4\<rparr>,
            sg_planned_kv_bytes := off4\<rparr>)"

text \<open>The cursors of the fourth loop, one of each kind per stage.\<close>

record kv_cursors =
  raw_cursor :: "u64 list"
  comp_cursor :: "u64 list"
  index_cursor :: "u64 list"
  state_cursor :: "u64 list"

text \<open>The view of a layer at given cursors of its stage, and the state cursor after it.\<close>

definition kv_layer_view ::
  "int \<Rightarrow> ds4_kv_arena_plan \<Rightarrow> ds4_kv_budget \<Rightarrow> u64 \<Rightarrow> u64 \<Rightarrow> u64 \<Rightarrow> u64 \<Rightarrow> ds4_layer_kv_view \<times> u64" where
  "kv_layer_view layer arena b raw cmp index state0 =
     (let (attn_kv, attn_score, idx_kv, idx_score) = kv_state_split_for_layer layer;
          base = ka_compression_state_offset arena;
          state1 = sat_add_u64 state0 attn_kv;
          state2 = sat_add_u64 state1 attn_score;
          state3 = sat_add_u64 state2 idx_kv;
          state4 = sat_add_u64 state3 idx_score
      in (\<lparr>kv_raw_swa_offset = sat_add_u64 (ka_raw_swa_offset arena) raw,
           kv_raw_swa_bytes = kb_raw_swa_bytes b,
           kv_compressed_attn_offset = sat_add_u64 (ka_compressed_attn_offset arena) cmp,
           kv_compressed_attn_bytes = kb_compressed_attn_bytes b,
           kv_indexer_kv_offset = sat_add_u64 (ka_indexer_kv_offset arena) index,
           kv_indexer_kv_bytes = kb_indexer_kv_bytes b,
           kv_attn_state_kv_offset = sat_add_u64 base state0, kv_attn_state_kv_bytes = attn_kv,
           kv_attn_state_score_offset = sat_add_u64 base state1, kv_attn_state_score_bytes = attn_score,
           kv_indexer_state_kv_offset = sat_add_u64 base state2, kv_indexer_state_kv_bytes = idx_kv,
           kv_indexer_state_score_offset = sat_add_u64 base state3,
           kv_indexer_state_score_bytes = idx_score,
           kv_total_bytes = kb_total_bytes b\<rparr>, state4))"

definition kv_view_layer :: "nat \<Rightarrow> ds4_context \<times> kv_cursors \<Rightarrow> ds4_context \<times> kv_cursors" where
  "kv_view_layer layer st =
     (case st of (ctx, cu) \<Rightarrow>
        (let li = cx_layers ctx ! layer;
             g = nat (ly_stage_id li);
             b = ly_kv_budget li;
             (view, state') = kv_layer_view (int layer) (sg_kv_arena (cx_stages ctx ! g)) b
               (raw_cursor cu ! g) (comp_cursor cu ! g) (index_cursor cu ! g) (state_cursor cu ! g)
         in (ctx\<lparr>cx_layers := (cx_layers ctx)[layer := li\<lparr>ly_kv_view := view\<rparr>]\<rparr>,
             \<lparr>raw_cursor = (raw_cursor cu)[g := sat_add_u64 (raw_cursor cu ! g) (kb_raw_swa_bytes b)],
              comp_cursor = (comp_cursor cu)[g := sat_add_u64 (comp_cursor cu ! g) (kb_compressed_attn_bytes b)],
              index_cursor = (index_cursor cu)[g := sat_add_u64 (index_cursor cu ! g) (kb_indexer_kv_bytes b)],
              state_cursor = (state_cursor cu)[g := state']\<rparr>)))"

definition zero_cursors :: kv_cursors where
  "zero_cursors = (let z = replicate DS4_V100_EXPECTED_GPUS 0
     in \<lparr>raw_cursor = z, comp_cursor = z, index_cursor = z, state_cursor = z\<rparr>)"

definition apply_derived_kv_plan :: "ds4_context \<Rightarrow> ds4_context" where
  "apply_derived_kv_plan ctx =
     (if op_kv_ctx_tokens (cx_opts ctx) = 0 then ctx
      else (let ctx1 = ctx\<lparr>cx_stages := map kv_reset_stage (cx_stages ctx)\<rparr>;
                ctx2 = fold kv_accumulate_layer [0..<DS4_V100_N_LAYERS] ctx1;
                ctx3 = ctx2\<lparr>cx_stages := map kv_plan_stage (cx_stages ctx2)\<rparr>
            in fst (fold kv_view_layer [0..<DS4_V100_N_LAYERS] (ctx3, zero_cursors))))"

section \<open>Saturating sums\<close>

text \<open>
  An addition that stops at a limit. Its sums are the true sums, cut off at the limit once, at
  the end.
\<close>

locale saturating =
  fixes add :: "'a \<Rightarrow> 'a \<Rightarrow> 'a" and val :: "'a \<Rightarrow> nat" and limit :: nat
  assumes val_add: "val (add a b) = min limit (val a + val b)"
begin

lemma val_fold_add:
  "val c \<le> limit \<Longrightarrow>
     val (fold (\<lambda>x c. add c (f x)) xs c) = min limit (val c + sum_list (map (\<lambda>x. val (f x)) xs))"
proof (induction xs arbitrary: c)
  case (Cons x xs)
  have "val (add c (f x)) \<le> limit" by (simp add: val_add)
  from Cons.IH [OF this] show ?case by (simp add: val_add min_def)
qed simp

lemma val_add_exact: "val (add a b) < limit \<Longrightarrow> val (add a b) = val a + val b"
  by (simp add: val_add min_def split: if_splits)

lemma val_add_le: "val a + val b \<le> limit \<Longrightarrow> val (add a b) = val a + val b"
  by (simp add: val_add)

end

abbreviation U64_TOP :: nat where
  "U64_TOP \<equiv> 18446744073709551615"

interpretation sat: saturating sat_add_u64 unat U64_TOP
proof
  fix a b :: u64
  show "unat (sat_add_u64 a b) = min U64_TOP (unat a + unat b)"
    by (simp add: sat_add_u64_def u64_arith unat_plus_no_overflow)
qed

lemma unat_sat_mul: "unat (sat_mul_u64 a b) = min U64_TOP (unat a * unat b)"
  by (cases "a = 0") (simp_all add: sat_mul_u64_def u64_mul_overflow_iff unat_times_no_overflow)

lemma unat_align_up_256:
  "unat (align_up_u64 v 256) =
     (if unat v + 255 > U64_TOP then U64_TOP else (unat v + 255) div 256 * 256)"
proof -
  have m: "(255 :: u64) = mask 8" by (simp add: mask_eq_exp_minus_1)
  have "(v + 255) AND NOT 255 = (v + 255) AND NOT (mask 8)" by (simp only: m)
  then have "unat ((v + 255) AND NOT 255) = unat (v + 255) div 256 * 256"
    using unat_and_not_mask [of "v + 255" 8] by simp
  moreover have "UINT64_MAX - 255 < v \<longleftrightarrow> U64_TOP < unat v + 255"
    using u64_add_overflow_iff [of 255 v] by simp
  ultimately show ?thesis
    using unat_plus_no_overflow [of v 255] by (auto simp: align_up_u64_def Let_def not_less)
qed

lemma align_up_256_ge: "unat v \<le> unat (align_up_u64 v 256)"
  using unat_u64_bound [of v] div_mult_mod_eq [of "unat v + 255" 256] mod_less_divisor [of 256 "unat v + 255"]
  unfolding unat_align_up_256 by (simp del: div_mult_mod_eq, linarith?)

lemma align_up_256_dvd: "unat (align_up_u64 v 256) < U64_TOP \<Longrightarrow> 256 dvd unat (align_up_u64 v 256)"
  by (simp add: unat_align_up_256 split: if_splits)

section \<open>The loops of the plan\<close>

abbreviation layer_budget :: "ds4_context_options \<Rightarrow> nat \<Rightarrow> ds4_kv_budget" where
  "layer_budget opts l \<equiv> ds4_kv_budget_for_layer (int l) (op_kv_ctx_tokens opts) (op_kv_active_slots opts)"

abbreviation stage_of :: "nat \<Rightarrow> nat" where
  "stage_of l \<equiv> nat (ds4_stage_for_layer (int l))"

definition stage_layers_before :: "nat \<Rightarrow> nat \<Rightarrow> nat list" where
  "stage_layers_before g l = filter (\<lambda>l'. stage_of l' = g) [0..<l]"

definition staged :: "ds4_context \<Rightarrow> bool" where
  "staged ctx \<longleftrightarrow> length (cx_stages ctx) = 8 \<and> length (cx_layers ctx) = 43 \<and>
     (\<forall>g < 8. sg_gpu (cx_stages ctx ! g) = int g) \<and>
     (\<forall>l < 43. ly_stage_id (cx_layers ctx ! l) = ds4_stage_for_layer (int l) \<and>
        ly_layer_class (cx_layers ctx ! l) = ds4_layer_class_for_layer (int l))"

lemma stage_of_range: "l < 43 \<Longrightarrow> 0 \<le> ds4_stage_for_layer (int l) \<and> stage_of l < 8"
  by (auto simp: ds4_stage_for_layer_def DS4_V100_N_LAYERS_def)

lemma staged_init: "staged (init_stage_map ctx)"
  by (simp add: staged_def init_stage_map_def init_stage_def Let_def DS4_V100_EXPECTED_GPUS_def DS4_V100_N_LAYERS_def)

text \<open>An update that keeps a field of the element it replaces.\<close>

lemma nth_update_same: "f x = f (xs ! i) \<Longrightarrow> f (xs[i := x] ! j) = f (xs ! j)"
  by (cases "i < length xs") (auto simp: nth_list_update list_update_beyond)

lemma stage_gpu_fields [simp]:
  "sg_gpu (kv_stage_add b s) = sg_gpu s" "sg_gpu (kv_reset_stage s) = sg_gpu s" "sg_gpu (kv_plan_stage s) = sg_gpu s"
  by (simp_all add: kv_stage_add_def kv_reset_stage_def kv_plan_stage_def Let_def)

lemma accumulate_staged:
  assumes "staged ctx" "l < 43"
  shows "staged (kv_accumulate_layer l ctx)"
    "cx_opts (kv_accumulate_layer l ctx) = cx_opts ctx"
    "cx_layers (kv_accumulate_layer l ctx) =
       (cx_layers ctx)[l := (cx_layers ctx ! l)\<lparr>ly_kv_budget := layer_budget (cx_opts ctx) l\<rparr>]"
    "cx_stages (kv_accumulate_layer l ctx) =
       (cx_stages ctx)[stage_of l := kv_stage_add (layer_budget (cx_opts ctx) l) (cx_stages ctx ! stage_of l)]"
  using assms by (auto simp: kv_accumulate_layer_def staged_def Let_def nth_list_update nth_update_same [where f = sg_gpu])

lemma fold_accumulate:
  assumes "staged ctx" "\<forall>l \<in> set ls. l < 43"
  defines "ctx' \<equiv> fold kv_accumulate_layer ls ctx"
  shows "staged ctx' \<and> cx_opts ctx' = cx_opts ctx \<and>
     (\<forall>l < 43. ly_kv_budget (cx_layers ctx' ! l) =
        (if l \<in> set ls then layer_budget (cx_opts ctx) l else ly_kv_budget (cx_layers ctx ! l))) \<and>
     (\<forall>g < 8. cx_stages ctx' ! g =
        fold (\<lambda>l. kv_stage_add (layer_budget (cx_opts ctx) l)) (filter (\<lambda>l. stage_of l = g) ls) (cx_stages ctx ! g))"
  using assms(1,2) unfolding ctx'_def
proof (induction ls arbitrary: ctx)
  case (Cons l ls)
  have l: "l < 43" "stage_of l < 8" using Cons.prems stage_of_range by auto
  note acc = accumulate_staged [OF Cons.prems(1) l(1)]
  have len: "length (cx_stages ctx) = 8" "length (cx_layers ctx) = 43"
    using Cons.prems(1) by (auto simp: staged_def)
  show ?case
    using Cons.IH [OF acc(1)] Cons.prems(2) l len by (auto simp: acc nth_list_update)
qed simp

text \<open>The four cursors of a stage after a list of layers.\<close>

definition cur :: "(ds4_kv_budget \<Rightarrow> u64) \<Rightarrow> ds4_context_options \<Rightarrow> nat list \<Rightarrow> u64 \<Rightarrow> u64" where
  "cur f opts = fold (\<lambda>l c. sat_add_u64 c (f (layer_budget opts l)))"

definition state_step :: "nat \<Rightarrow> u64 \<Rightarrow> u64" where
  "state_step l c = (case kv_state_split_for_layer (int l) of (a, b, c', d) \<Rightarrow>
     sat_add_u64 (sat_add_u64 (sat_add_u64 (sat_add_u64 c a) b) c') d)"

lemma snd_kv_layer_view: "snd (kv_layer_view (int l) arena b r co ix st) = state_step l st"
  by (simp add: kv_layer_view_def state_step_def Let_def split: prod.splits)

definition layer_view_at :: "ds4_context_options \<Rightarrow> ds4_stage_info \<Rightarrow> nat list \<Rightarrow> nat \<Rightarrow> ds4_layer_kv_view" where
  "layer_view_at opts s before l =
     fst (kv_layer_view (int l) (sg_kv_arena s) (layer_budget opts l)
       (cur kb_raw_swa_bytes opts before 0) (cur kb_compressed_attn_bytes opts before 0)
       (cur kb_indexer_kv_bytes opts before 0) (fold state_step before 0))"

text \<open>The invariant of the last loop after the layers \<open>done\<close>.\<close>

definition views_upto :: "ds4_context \<Rightarrow> nat list \<Rightarrow> ds4_context \<times> kv_cursors \<Rightarrow> bool" where
  "views_upto ctx0 ls st \<longleftrightarrow>
     (case st of (ctx, cu) \<Rightarrow>
        cx_stages ctx = cx_stages ctx0 \<and> cx_opts ctx = cx_opts ctx0 \<and> staged ctx \<and>
        (\<forall>l < 43. ly_kv_budget (cx_layers ctx ! l) = layer_budget (cx_opts ctx0) l) \<and>
        (\<forall>g < 8. length (raw_cursor cu) = 8 \<and> length (comp_cursor cu) = 8 \<and>
           length (index_cursor cu) = 8 \<and> length (state_cursor cu) = 8 \<and>
           raw_cursor cu ! g = cur kb_raw_swa_bytes (cx_opts ctx0) (filter (\<lambda>l. stage_of l = g) ls) 0 \<and>
           comp_cursor cu ! g = cur kb_compressed_attn_bytes (cx_opts ctx0) (filter (\<lambda>l. stage_of l = g) ls) 0 \<and>
           index_cursor cu ! g = cur kb_indexer_kv_bytes (cx_opts ctx0) (filter (\<lambda>l. stage_of l = g) ls) 0 \<and>
           state_cursor cu ! g = fold state_step (filter (\<lambda>l. stage_of l = g) ls) 0))"

lemma kv_view_layer_step:
  assumes inv: "views_upto ctx0 ls st" and l: "l < 43"
  shows "views_upto ctx0 (ls @ [l]) (kv_view_layer l st) \<and>
     cx_layers (fst (kv_view_layer l st)) = (cx_layers (fst st))[l := (cx_layers (fst st) ! l)
       \<lparr>ly_kv_view := layer_view_at (cx_opts ctx0) (cx_stages ctx0 ! stage_of l) (filter (\<lambda>l'. stage_of l' = stage_of l) ls) l\<rparr>]"
proof -
  obtain ctx cu where st: "st = (ctx, cu)" by fastforce
  let ?g = "stage_of l"
  have g: "?g < 8" using stage_of_range [OF l] by simp
  have li: "nat (ly_stage_id (cx_layers ctx ! l)) = ?g" "length (cx_layers ctx) = 43"
    "ly_kv_budget (cx_layers ctx ! l) = layer_budget (cx_opts ctx0) l"
    using inv l by (auto simp: st views_upto_def staged_def)
  obtain view state' where v: "kv_layer_view (int l) (sg_kv_arena (cx_stages ctx ! ?g)) (layer_budget (cx_opts ctx0) l)
      (raw_cursor cu ! ?g) (comp_cursor cu ! ?g) (index_cursor cu ! ?g) (state_cursor cu ! ?g) = (view, state')"
    by fastforce
  have s': "state' = state_step l (state_cursor cu ! ?g)"
    using snd_kv_layer_view v by (metis snd_conv)
  have vw: "view = layer_view_at (cx_opts ctx0) (cx_stages ctx0 ! ?g) (filter (\<lambda>l'. stage_of l' = ?g) ls) l"
    using inv g v by (auto simp: st views_upto_def layer_view_at_def)
  let ?b = "layer_budget (cx_opts ctx0) l"
  have eq: "kv_view_layer l st = (ctx\<lparr>cx_layers := (cx_layers ctx)[l := (cx_layers ctx ! l)\<lparr>ly_kv_view := view\<rparr>]\<rparr>,
      \<lparr>raw_cursor = (raw_cursor cu)[?g := sat_add_u64 (raw_cursor cu ! ?g) (kb_raw_swa_bytes ?b)],
       comp_cursor = (comp_cursor cu)[?g := sat_add_u64 (comp_cursor cu ! ?g) (kb_compressed_attn_bytes ?b)],
       index_cursor = (index_cursor cu)[?g := sat_add_u64 (index_cursor cu ! ?g) (kb_indexer_kv_bytes ?b)],
       state_cursor = (state_cursor cu)[?g := state_step l (state_cursor cu ! ?g)]\<rparr>)"
    unfolding st kv_view_layer_def prod.case Let_def li v by (simp add: s')
  have "staged (fst (kv_view_layer l st))"
    using inv l unfolding eq by (auto simp: st views_upto_def staged_def nth_list_update)
  moreover have "\<forall>l' < 43. ly_kv_budget (cx_layers (fst (kv_view_layer l st)) ! l') = layer_budget (cx_opts ctx0) l'"
    using inv l li unfolding eq by (simp add: st views_upto_def nth_list_update)
  ultimately show ?thesis
    using inv unfolding eq vw [symmetric]
    by (simp add: st views_upto_def cur_def nth_list_update)
qed

lemma fold_kv_views:
  assumes "views_upto ctx0 [] st" and "n \<le> 43"
  shows "views_upto ctx0 [0..<n] (fold kv_view_layer [0..<n] st) \<and>
     (\<forall>l < n. ly_kv_view (cx_layers (fst (fold kv_view_layer [0..<n] st)) ! l) =
        layer_view_at (cx_opts ctx0) (cx_stages ctx0 ! stage_of l) (stage_layers_before (stage_of l) l) l)"
  using assms(2)
proof (induction n)
  case 0
  then show ?case using assms(1) by simp
next
  case (Suc n)
  let ?st = "fold kv_view_layer [0..<n] st"
  have inv: "views_upto ctx0 [0..<n] ?st" and n: "n < 43" using Suc by auto
  have len: "length (cx_layers (fst ?st)) = 43"
    using inv by (auto simp: views_upto_def staged_def split: prod.splits)
  show ?case
    using Suc n len kv_view_layer_step [OF inv n]
    by (auto simp: nth_list_update stage_layers_before_def less_Suc_eq)
qed

lemma derived_plan:
  assumes "staged ctx" and tok: "op_kv_ctx_tokens (cx_opts ctx) \<noteq> 0"
  defines "ctx' \<equiv> apply_derived_kv_plan ctx"
  shows "staged ctx'" "cx_opts ctx' = cx_opts ctx"
    "\<And>g. g < 8 \<Longrightarrow> cx_stages ctx' ! g = kv_plan_stage
       (fold (\<lambda>l. kv_stage_add (layer_budget (cx_opts ctx) l)) (stage_layers_before g 43)
         (kv_reset_stage (cx_stages ctx ! g)))"
    "\<And>l. l < 43 \<Longrightarrow> ly_kv_budget (cx_layers ctx' ! l) = layer_budget (cx_opts ctx) l"
    "\<And>l. l < 43 \<Longrightarrow> ly_kv_view (cx_layers ctx' ! l) =
       layer_view_at (cx_opts ctx) (cx_stages ctx' ! stage_of l) (stage_layers_before (stage_of l) l) l"
proof -
  define ctx1 where "ctx1 = ctx\<lparr>cx_stages := map kv_reset_stage (cx_stages ctx)\<rparr>"
  define ctx2 where "ctx2 = fold kv_accumulate_layer [0..<43] ctx1"
  define ctx3 where "ctx3 = ctx2\<lparr>cx_stages := map kv_plan_stage (cx_stages ctx2)\<rparr>"
  have ctx': "ctx' = fst (fold kv_view_layer [0..<43] (ctx3, zero_cursors))"
    using tok by (simp add: ctx'_def apply_derived_kv_plan_def ctx1_def ctx2_def ctx3_def DS4_V100_N_LAYERS_def Let_def)
  have c1: "staged ctx1" using assms(1) by (simp add: ctx1_def staged_def)
  note c2 = fold_accumulate [OF c1, of "[0..<43]", folded ctx2_def]
  have len: "length (cx_stages ctx) = 8" "length (cx_stages ctx2) = 8" using assms(1) c2 by (auto simp: staged_def)
  have inv0: "views_upto ctx3 [] (ctx3, zero_cursors)"
    using c2 by (auto simp: views_upto_def ctx3_def ctx1_def staged_def zero_cursors_def cur_def DS4_V100_EXPECTED_GPUS_def Let_def)
  note c4 = fold_kv_views [OF inv0, of 43, simplified]
  have fin: "views_upto ctx3 [0..<43] (fold kv_view_layer [0..<43] (ctx3, zero_cursors))" using c4 by blast
  have opts: "cx_opts ctx3 = cx_opts ctx" using c2 by (simp add: ctx3_def ctx1_def)
  have st: "cx_stages ctx' = cx_stages ctx3"
    using fin by (auto simp: ctx' views_upto_def split: prod.splits)
  show "staged ctx'" "cx_opts ctx' = cx_opts ctx"
    using fin opts by (auto simp: ctx' views_upto_def split: prod.splits)
  show "ly_kv_budget (cx_layers ctx' ! l) = layer_budget (cx_opts ctx) l" if "l < 43" for l
    using fin that opts by (auto simp: ctx' views_upto_def split: prod.splits)
  show "ly_kv_view (cx_layers ctx' ! l) =
       layer_view_at (cx_opts ctx) (cx_stages ctx' ! stage_of l) (stage_layers_before (stage_of l) l) l" if "l < 43" for l
    using c4 that opts st by (simp add: ctx')
  show "cx_stages ctx' ! g = kv_plan_stage
       (fold (\<lambda>l. kv_stage_add (layer_budget (cx_opts ctx) l)) (stage_layers_before g 43)
         (kv_reset_stage (cx_stages ctx ! g)))" if "g < 8" for g
    using that len c2 unfolding st by (simp add: ctx3_def ctx1_def stage_layers_before_def)
qed

section \<open>Sizes and offsets as numbers\<close>

definition bytes_before :: "(ds4_kv_budget \<Rightarrow> u64) \<Rightarrow> ds4_context_options \<Rightarrow> nat \<Rightarrow> nat \<Rightarrow> nat" where
  "bytes_before f opts g l = sum_list (map (\<lambda>l'. unat (f (layer_budget opts l'))) (stage_layers_before g l))"

lemma unat_cur:
  "unat (cur f opts (stage_layers_before g l) 0) = min U64_TOP (bytes_before f opts g l)"
  using sat.val_fold_add [of 0 "\<lambda>l. f (layer_budget opts l)"] by (simp add: cur_def bytes_before_def)

lemma bytes_before_step:
  assumes "stage_of l = g" and "l < l'"
  shows "bytes_before f opts g l + unat (f (layer_budget opts l)) \<le> bytes_before f opts g l'"
proof -
  have "[0..<l'] = [0..<l] @ l # [Suc l..<l']"
    using assms(2) by (metis upt_add_eq_append upt_conv_Cons le_add_diff_inverse less_imp_le_nat zero_le)
  then show ?thesis using assms(1) by (simp add: bytes_before_def stage_layers_before_def)
qed

lemma stage_sums:
  "sg_kv_raw_swa_bytes (fold (\<lambda>l. kv_stage_add (layer_budget opts l)) ls s) = cur kb_raw_swa_bytes opts ls (sg_kv_raw_swa_bytes s)"
  "sg_kv_compressed_attn_bytes (fold (\<lambda>l. kv_stage_add (layer_budget opts l)) ls s) =
     cur kb_compressed_attn_bytes opts ls (sg_kv_compressed_attn_bytes s)"
  "sg_kv_indexer_bytes (fold (\<lambda>l. kv_stage_add (layer_budget opts l)) ls s) = cur kb_indexer_kv_bytes opts ls (sg_kv_indexer_bytes s)"
  "sg_kv_compression_state_bytes (fold (\<lambda>l. kv_stage_add (layer_budget opts l)) ls s) =
     cur kb_compression_state_bytes opts ls (sg_kv_compression_state_bytes s)"
  by (induction ls arbitrary: s) (simp_all add: cur_def kv_stage_add_def)

text \<open>The four state buffers of a layer are its compression state.\<close>

lemma state_split_sum:
  assumes "l < 43" "op_kv_ctx_tokens opts \<noteq> 0" "op_kv_active_slots opts \<noteq> 0"
    and "kv_state_split_for_layer (int l) = (a, b, c, d)"
  shows "unat a + unat b + unat c + unat d = unat (kb_compression_state_bytes (layer_budget opts l))"
  using assms
  by (auto simp: kv_state_split_for_layer_def ds4_kv_budget_for_layer_def kv_class_parts_def Let_def
      DS4_V100_N_LAYERS_def DS4_V100_HEAD_DIM_def DS4_V100_INDEXER_HEAD_DIM_def sat_add_u64_def
      split: ds4_layer_class.splits)

lemma unat_state_step:
  assumes "l < 43" "op_kv_ctx_tokens opts \<noteq> 0" "op_kv_active_slots opts \<noteq> 0"
  shows "unat (state_step l c) = min U64_TOP (unat c + unat (kb_compression_state_bytes (layer_budget opts l)))"
proof -
  obtain x y z w where s: "kv_state_split_for_layer (int l) = (x, y, z, w)" by (metis prod_cases4)
  show ?thesis
    using state_split_sum [OF assms s] by (simp add: state_step_def s sat.val_add min_def)
qed

lemma unat_fold_state_step:
  assumes "op_kv_ctx_tokens opts \<noteq> 0" "op_kv_active_slots opts \<noteq> 0" and "\<forall>l \<in> set ls. l < 43"
  shows "unat (fold state_step ls c) =
     min U64_TOP (unat c + sum_list (map (\<lambda>l. unat (kb_compression_state_bytes (layer_budget opts l))) ls))"
  using assms(3)
proof (induction ls arbitrary: c)
  case Nil
  then show ?case using unat_u64_bound [of c] by simp
next
  case (Cons l ls)
  then show ?case using unat_state_step [OF _ assms(1,2), of l c] by (simp add: min_def)
qed

lemma plan_offsets:
  assumes "unat (ka_total_bytes (sg_kv_arena (kv_plan_stage s))) < U64_TOP"
  defines "a \<equiv> sg_kv_arena (kv_plan_stage s)"
  shows "ka_raw_swa_offset a = 0" "unat (sg_kv_raw_swa_bytes s) \<le> unat (ka_compressed_attn_offset a)"
    "unat (ka_compressed_attn_offset a) + unat (sg_kv_compressed_attn_bytes s) \<le> unat (ka_indexer_kv_offset a)"
    "unat (ka_indexer_kv_offset a) + unat (sg_kv_indexer_bytes s) \<le> unat (ka_compression_state_offset a)"
    "unat (ka_compression_state_offset a) + unat (sg_kv_compression_state_bytes s) \<le> unat (ka_total_bytes a)"
    "256 dvd unat (ka_compressed_attn_offset a)" "256 dvd unat (ka_indexer_kv_offset a)"
    "256 dvd unat (ka_compression_state_offset a)"
proof -
  define o1 where "o1 = align_up_u64 (sat_add_u64 0 (sg_kv_raw_swa_bytes s)) 256"
  define o2 where "o2 = align_up_u64 (sat_add_u64 o1 (sg_kv_compressed_attn_bytes s)) 256"
  define o3 where "o3 = align_up_u64 (sat_add_u64 o2 (sg_kv_indexer_bytes s)) 256"
  define o4 where "o4 = align_up_u64 (sat_add_u64 o3 (sg_kv_compression_state_bytes s)) 256"
  have a: "ka_raw_swa_offset a = 0" "ka_compressed_attn_offset a = o1" "ka_indexer_kv_offset a = o2"
    "ka_compression_state_offset a = o3" "ka_total_bytes a = o4"
    by (simp_all add: a_def kv_plan_stage_def Let_def o1_def o2_def o3_def o4_def)
  have top: "unat o4 < U64_TOP" using assms(1) a(5) by (simp add: a_def)
  have step: "unat (sat_add_u64 x y) = unat x + unat y \<and> unat x + unat y \<le> unat (align_up_u64 (sat_add_u64 x y) 256)"
    if "unat (align_up_u64 (sat_add_u64 x y) 256) < U64_TOP" for x y
    using that align_up_256_ge [of "sat_add_u64 x y"] sat.val_add_exact [of x y] by simp
  have 4: "unat o3 + unat (sg_kv_compression_state_bytes s) \<le> unat o4" using step top unfolding o4_def by blast
  then have t3: "unat o3 < U64_TOP" using top by linarith
  have 3: "unat o2 + unat (sg_kv_indexer_bytes s) \<le> unat o3" using step t3 unfolding o3_def by blast
  then have t2: "unat o2 < U64_TOP" using t3 by linarith
  have 2: "unat o1 + unat (sg_kv_compressed_attn_bytes s) \<le> unat o2" using step t2 unfolding o2_def by blast
  then have t1: "unat o1 < U64_TOP" using t2 by linarith
  have 1: "unat (0 :: u64) + unat (sg_kv_raw_swa_bytes s) \<le> unat o1" using step t1 unfolding o1_def by blast
  show "ka_raw_swa_offset a = 0" "unat (sg_kv_raw_swa_bytes s) \<le> unat (ka_compressed_attn_offset a)"
    "unat (ka_compressed_attn_offset a) + unat (sg_kv_compressed_attn_bytes s) \<le> unat (ka_indexer_kv_offset a)"
    "unat (ka_indexer_kv_offset a) + unat (sg_kv_indexer_bytes s) \<le> unat (ka_compression_state_offset a)"
    "unat (ka_compression_state_offset a) + unat (sg_kv_compression_state_bytes s) \<le> unat (ka_total_bytes a)"
    using 1 2 3 4 by (simp_all add: a)
  show "256 dvd unat (ka_compressed_attn_offset a)" "256 dvd unat (ka_indexer_kv_offset a)"
    "256 dvd unat (ka_compression_state_offset a)"
    using t1 t2 t3 align_up_256_dvd by (simp_all add: a o1_def o2_def o3_def)
qed

section \<open>The layout of a stage\<close>

text \<open>The seven buffers of a layer, as the half-open byte ranges of its view.\<close>

definition view_ranges :: "ds4_layer_kv_view \<Rightarrow> (nat \<times> nat) list" where
  "view_ranges v = map (\<lambda>(off, n). (unat off, unat off + unat n))
     [(kv_raw_swa_offset v, kv_raw_swa_bytes v),
      (kv_compressed_attn_offset v, kv_compressed_attn_bytes v),
      (kv_indexer_kv_offset v, kv_indexer_kv_bytes v),
      (kv_attn_state_kv_offset v, kv_attn_state_kv_bytes v),
      (kv_attn_state_score_offset v, kv_attn_state_score_bytes v),
      (kv_indexer_state_kv_offset v, kv_indexer_state_kv_bytes v),
      (kv_indexer_state_score_offset v, kv_indexer_state_score_bytes v)]"

text \<open>The same ranges from true sums: bases of the four regions, plus what the earlier layers took.\<close>

definition ideal_ranges :: "ds4_context_options \<Rightarrow> ds4_kv_arena_plan \<Rightarrow> nat \<Rightarrow> nat \<Rightarrow> (nat \<times> nat) list" where
  "ideal_ranges opts a g l =
     (let b = layer_budget opts l; (p, q, r, s) = kv_state_split_for_layer (int l);
          raw = bytes_before kb_raw_swa_bytes opts g l;
          cmp = unat (ka_compressed_attn_offset a) + bytes_before kb_compressed_attn_bytes opts g l;
          idx = unat (ka_indexer_kv_offset a) + bytes_before kb_indexer_kv_bytes opts g l;
          st = unat (ka_compression_state_offset a) + bytes_before kb_compression_state_bytes opts g l
      in [(raw, raw + unat (kb_raw_swa_bytes b)), (cmp, cmp + unat (kb_compressed_attn_bytes b)),
          (idx, idx + unat (kb_indexer_kv_bytes b)), (st, st + unat p), (st + unat p, st + unat p + unat q),
          (st + unat p + unat q, st + unat p + unat q + unat r),
          (st + unat p + unat q + unat r, st + unat p + unat q + unat r + unat s)])"

text \<open>What a planned stage fixes when its arena does not saturate.\<close>

lemma planned_stage_bounds:
  assumes st: "staged ctx" and tok: "op_kv_ctx_tokens (cx_opts ctx) \<noteq> 0" and g: "g < 8"
  defines "a \<equiv> sg_kv_arena (cx_stages (apply_derived_kv_plan ctx) ! g)"
  assumes top: "unat (ka_total_bytes a) < U64_TOP"
  shows "ka_raw_swa_offset a = 0"
    "bytes_before kb_raw_swa_bytes (cx_opts ctx) g 43 \<le> unat (ka_compressed_attn_offset a)"
    "unat (ka_compressed_attn_offset a) + bytes_before kb_compressed_attn_bytes (cx_opts ctx) g 43 \<le> unat (ka_indexer_kv_offset a)"
    "unat (ka_indexer_kv_offset a) + bytes_before kb_indexer_kv_bytes (cx_opts ctx) g 43 \<le> unat (ka_compression_state_offset a)"
    "unat (ka_compression_state_offset a) + bytes_before kb_compression_state_bytes (cx_opts ctx) g 43 \<le> unat (ka_total_bytes a)"
proof -
  define s where "s = fold (\<lambda>l. kv_stage_add (layer_budget (cx_opts ctx) l)) (stage_layers_before g 43)
         (kv_reset_stage (cx_stages ctx ! g))"
  have a: "a = sg_kv_arena (kv_plan_stage s)" using derived_plan(3) [OF st tok g] by (simp add: a_def s_def)
  note po = plan_offsets [of s, folded a, OF top]
  have sums: "unat (sg_kv_raw_swa_bytes s) = min U64_TOP (bytes_before kb_raw_swa_bytes (cx_opts ctx) g 43)"
    "unat (sg_kv_compressed_attn_bytes s) = min U64_TOP (bytes_before kb_compressed_attn_bytes (cx_opts ctx) g 43)"
    "unat (sg_kv_indexer_bytes s) = min U64_TOP (bytes_before kb_indexer_kv_bytes (cx_opts ctx) g 43)"
    "unat (sg_kv_compression_state_bytes s) = min U64_TOP (bytes_before kb_compression_state_bytes (cx_opts ctx) g 43)"
    by (simp_all add: s_def stage_sums kv_reset_stage_def unat_cur)
  show "ka_raw_swa_offset a = 0" by (rule po(1))
  show "bytes_before kb_raw_swa_bytes (cx_opts ctx) g 43 \<le> unat (ka_compressed_attn_offset a)"
    "unat (ka_compressed_attn_offset a) + bytes_before kb_compressed_attn_bytes (cx_opts ctx) g 43 \<le> unat (ka_indexer_kv_offset a)"
    "unat (ka_indexer_kv_offset a) + bytes_before kb_indexer_kv_bytes (cx_opts ctx) g 43 \<le> unat (ka_compression_state_offset a)"
    "unat (ka_compression_state_offset a) + bytes_before kb_compression_state_bytes (cx_opts ctx) g 43 \<le> unat (ka_total_bytes a)"
    using po(2-5) sums top by linarith+
qed

lemma unat_region_offset:
  assumes "unat base + n \<le> m" and "m < U64_TOP" and "unat c = min U64_TOP n"
  shows "unat (sat_add_u64 base c) = unat base + n"
  using assms by (simp add: sat.val_add)

lemma view_ranges_ideal:
  assumes st: "staged ctx" and tok: "op_kv_ctx_tokens (cx_opts ctx) \<noteq> 0"
    and slots: "op_kv_active_slots (cx_opts ctx) \<noteq> 0" and l: "l < 43"
  defines "a \<equiv> sg_kv_arena (cx_stages (apply_derived_kv_plan ctx) ! stage_of l)"
  assumes top: "unat (ka_total_bytes a) < U64_TOP"
  shows "view_ranges (ly_kv_view (cx_layers (apply_derived_kv_plan ctx) ! l)) = ideal_ranges (cx_opts ctx) a (stage_of l) l"
proof -
  let ?o = "cx_opts ctx" and ?g = "stage_of l" and ?B = "stage_layers_before (stage_of l) l"
  have g: "?g < 8" using stage_of_range [OF l] by simp
  note b = planned_stage_bounds [OF st tok g, folded a_def, OF top]
  have le: "bytes_before f ?o ?g l + unat (f (layer_budget ?o l)) \<le> bytes_before f ?o ?g 43" for f
    using bytes_before_step [OF refl l] .
  have before: "\<forall>l' \<in> set ?B. l' < 43" using l by (auto simp: stage_layers_before_def)
  obtain x y z w where s: "kv_state_split_for_layer (int l) = (x, y, z, w)" by (metis prod_cases4)
  note sum = state_split_sum [OF l tok slots s]
  have raw: "unat (sat_add_u64 (ka_raw_swa_offset a) (cur kb_raw_swa_bytes ?o ?B 0)) = bytes_before kb_raw_swa_bytes ?o ?g l"
    using b le [of kb_raw_swa_bytes] top by (simp add: sat.val_add unat_cur)
  have cmp: "unat (sat_add_u64 (ka_compressed_attn_offset a) (cur kb_compressed_attn_bytes ?o ?B 0))
      = unat (ka_compressed_attn_offset a) + bytes_before kb_compressed_attn_bytes ?o ?g l"
    using b le [of kb_compressed_attn_bytes] top by (simp add: sat.val_add unat_cur)
  have idx: "unat (sat_add_u64 (ka_indexer_kv_offset a) (cur kb_indexer_kv_bytes ?o ?B 0))
      = unat (ka_indexer_kv_offset a) + bytes_before kb_indexer_kv_bytes ?o ?g l"
    using b le [of kb_indexer_kv_bytes] top by (simp add: sat.val_add unat_cur)
  have c0: "unat (fold state_step ?B 0) = bytes_before kb_compression_state_bytes ?o ?g l"
    using unat_fold_state_step [OF tok slots before, of 0] b le [of kb_compression_state_bytes] top
    by (simp add: bytes_before_def)
  have sum': "unat (ka_compression_state_offset a) + unat (fold state_step ?B 0) + (unat x + unat y + unat z + unat w) < U64_TOP"
    using b(5) le [of kb_compression_state_bytes] sum top c0 by linarith
  show ?thesis
    using sum' raw cmp idx unfolding derived_plan(5) [OF st tok l] layer_view_at_def a_def [symmetric] view_ranges_def ideal_ranges_def
      kv_layer_view_def Let_def s prod.case
    by (simp add: sat.val_add c0)
qed

lemma ideal_ranges_disjoint:
  assumes tok: "op_kv_ctx_tokens opts \<noteq> 0" and slots: "op_kv_active_slots opts \<noteq> 0"
    and l: "l \<le> l'" "l' < 43" "stage_of l = g" "stage_of l' = g"
    and ij: "i < 7" "j < 7" "(l, i) \<noteq> (l', j)"
    and b: "bytes_before kb_raw_swa_bytes opts g 43 \<le> unat (ka_compressed_attn_offset a)"
    "unat (ka_compressed_attn_offset a) + bytes_before kb_compressed_attn_bytes opts g 43 \<le> unat (ka_indexer_kv_offset a)"
    "unat (ka_indexer_kv_offset a) + bytes_before kb_indexer_kv_bytes opts g 43 \<le> unat (ka_compression_state_offset a)"
  shows "snd (ideal_ranges opts a g l ! i) \<le> fst (ideal_ranges opts a g l' ! j) \<or>
     snd (ideal_ranges opts a g l' ! j) \<le> fst (ideal_ranges opts a g l ! i)"
proof -
  obtain x y z w where s: "kv_state_split_for_layer (int l) = (x, y, z, w)" by (metis prod_cases4)
  obtain x' y' z' w' where s': "kv_state_split_for_layer (int l') = (x', y', z', w')" by (metis prod_cases4)
  have lt: "l < 43" using l by simp
  note sum = state_split_sum [OF lt tok slots s] state_split_sum [OF l(2) tok slots s']
  have le: "bytes_before f opts g l + unat (f (layer_budget opts l)) \<le> bytes_before f opts g 43"
    "bytes_before f opts g l' + unat (f (layer_budget opts l')) \<le> bytes_before f opts g 43" for f
    using bytes_before_step [OF l(3) lt] bytes_before_step [OF l(4,2)] by auto
  have i: "i = 0 \<or> i = 1 \<or> i = 2 \<or> i = 3 \<or> i = 4 \<or> i = 5 \<or> i = 6"
    and j: "j = 0 \<or> j = 1 \<or> j = 2 \<or> j = 3 \<or> j = 4 \<or> j = 5 \<or> j = 6" using ij by linarith+
  note bounds = le(1) [of kb_raw_swa_bytes] le(2) [of kb_raw_swa_bytes]
    le(1) [of kb_compressed_attn_bytes] le(2) [of kb_compressed_attn_bytes]
    le(1) [of kb_indexer_kv_bytes] le(2) [of kb_indexer_kv_bytes] b sum
  show ?thesis
  proof (cases "l = l'")
    case True
    then have eq: "x' = x" "y' = y" "z' = z" "w' = w" using s s' by auto
    show ?thesis
      using i j ij(3) bounds unfolding ideal_ranges_def Let_def s s' prod.case True eq
      by (elim disjE) simp_all
  next
    case False
    then have lt': "l < l'" using l(1) by simp
    note nxt = bytes_before_step [OF l(3) lt', of kb_raw_swa_bytes opts]
      bytes_before_step [OF l(3) lt', of kb_compressed_attn_bytes opts]
      bytes_before_step [OF l(3) lt', of kb_indexer_kv_bytes opts]
      bytes_before_step [OF l(3) lt', of kb_compression_state_bytes opts]
    show ?thesis
      using i j bounds nxt unfolding ideal_ranges_def Let_def s s' prod.case
      by (elim disjE) simp_all
  qed
qed

lemma ideal_ranges_inside:
  assumes tok: "op_kv_ctx_tokens opts \<noteq> 0" and slots: "op_kv_active_slots opts \<noteq> 0"
    and l: "l < 43" "stage_of l = g" and i: "i < 7"
    and b: "bytes_before kb_raw_swa_bytes opts g 43 \<le> unat (ka_compressed_attn_offset a)"
    "unat (ka_compressed_attn_offset a) + bytes_before kb_compressed_attn_bytes opts g 43 \<le> unat (ka_indexer_kv_offset a)"
    "unat (ka_indexer_kv_offset a) + bytes_before kb_indexer_kv_bytes opts g 43 \<le> unat (ka_compression_state_offset a)"
    "unat (ka_compression_state_offset a) + bytes_before kb_compression_state_bytes opts g 43 \<le> unat (ka_total_bytes a)"
  shows "snd (ideal_ranges opts a g l ! i) \<le> unat (ka_total_bytes a)"
proof -
  obtain x y z w where s: "kv_state_split_for_layer (int l) = (x, y, z, w)" by (metis prod_cases4)
  have cases: "i = 0 \<or> i = 1 \<or> i = 2 \<or> i = 3 \<or> i = 4 \<or> i = 5 \<or> i = 6" using i by linarith
  note le = bytes_before_step [OF l(2,1)]
  show ?thesis
    using cases b le [of kb_raw_swa_bytes opts] le [of kb_compressed_attn_bytes opts] le [of kb_indexer_kv_bytes opts]
      le [of kb_compression_state_bytes opts] state_split_sum [OF l(1) tok slots s]
    unfolding ideal_ranges_def Let_def s prod.case
    by (elim disjE) simp_all
qed

end
