(* ===== verification/Context.thy ===== *)
theory Context
  imports Kv_Plan
begin

text \<open>
  The engine context (\<open>src/engine/context.c\<close>): options, topology check, the binding of the pack
  and TurboMind rows to stages and layers, the memory budget, \<open>ds4_context_open\<close>, the lookups of
  an open context and the layer skeleton check. The theorems say what opening establishes: every
  descriptor is bound where its layer lives, its bytes are those of its dtype and shape and lie
  inside the stage's arena, and the counters are exact.

  Pointer arguments are taken to be non-null, except where the source gives a null pointer a
  meaning of its own (the options and paths); memory allocation is taken to succeed.
\<close>

datatype context_error =
    Expected_gpus_range
  | Relay_slots_zero
  | Kv_slots_zero
  | Kv_plan_conflict
  | Topology_gpus
  | Topology_facts
  | Fact_visible_id nat int
  | Fact_not_v100 nat
  | Fact_small_vram nat u64
  | Missing_peer_edge nat nat
  | Open_failed pack_error
  | Too_many_descs
  | Bad_owning_gpu string int
  | Bad_layer_id string int
  | Owner_stage_mismatch string int int int
  | Bad_shape_dtype string string string
  | Byte_length_differs string u64 u64
  | Unsupported_policy string string string
  | Arena_span_overflow string int
  | Not_routed_expert string
  | Dtype_not_mxfp4 string
  | Shape_metadata_mismatch string
  | Below_reserve nat u64 u64 u64
  | Missing_tensor_id
  | Missing_descriptor string
  | Bad_source_shape string string
  | Missing_suffix
  | Tensor_id_too_long
  | Skeleton_failed nat string
  | Missing_token_embedding

section \<open>Options, topology and budget\<close>

definition ds4_context_options_init :: ds4_context_options where
  "ds4_context_options_init =
     \<lparr>op_pack_index_path = None, op_turbomind_pack_index_path = None,
      op_expected_gpus = int DS4_V100_EXPECTED_GPUS, op_mode = DS4_V100_INIT_PROBE_ONLY,
      op_require_production_topology = False, op_enable_f32_debug_relay = False,
      op_scratch_bytes_per_gpu = 0, op_relay_max_active_slots = 1,
      op_reserve_bytes_per_gpu = DS4_V100_DEFAULT_RESERVE_BYTES, op_planned_kv_bytes_per_gpu = 0,
      op_kv_ctx_tokens = 0, op_kv_active_slots = 1, op_output_head_reserve_bytes = 0,
      op_mtp_reserve_bytes = 0, op_device_facts = None\<rparr>"

definition checked_stage_used :: "ds4_stage_info \<Rightarrow> u64" where
  "checked_stage_used s =
     sg_arena_bytes s + sg_scratch_bytes s + sg_relay_f16_bytes s + sg_relay_f32_debug_bytes s +
     sg_planned_kv_bytes s + sg_output_head_reserve_bytes s + sg_mtp_reserve_bytes s"

text \<open>One round of the loop over the device facts: checks, then the stage learns its memory.\<close>

definition check_device_fact ::
  "ds4_device_fact list \<Rightarrow> nat \<Rightarrow> ds4_context \<Rightarrow> context_error + ds4_context" where
  "check_device_fact facts i ctx =
     (let f = facts ! i in
      res_bind (check (df_visible_id f \<noteq> int i) (Fact_visible_id i (df_visible_id f))) (\<lambda>_.
      res_bind (check (df_cc_major f \<noteq> 7) (Fact_not_v100 i)) (\<lambda>_.
      res_bind (check (df_total_global_mem f < DS4_V100_MIN_VRAM_BYTES)
                  (Fact_small_vram i (df_total_global_mem f))) (\<lambda>_.
      Inr (ctx\<lparr>cx_stages := (cx_stages ctx)[i := (cx_stages ctx ! i)
             \<lparr>sg_device_total_bytes := df_total_global_mem f\<rparr>]\<rparr>)))))"

definition check_peer_edge ::
  "ds4_device_fact list \<Rightarrow> nat \<Rightarrow> unit \<Rightarrow> context_error + unit" where
  "check_peer_edge facts i u =
     check (\<not> df_peer_access (facts ! i) ! Suc i \<or> \<not> df_peer_access (facts ! Suc i) ! i)
       (Missing_peer_edge i (Suc i))"

definition validate_topology :: "ds4_context \<Rightarrow> context_error + ds4_context" where
  "validate_topology ctx =
     (if \<not> op_require_production_topology (cx_opts ctx) then Inr ctx
      else if op_expected_gpus (cx_opts ctx) \<noteq> int DS4_V100_EXPECTED_GPUS then Inl Topology_gpus
      else (case op_device_facts (cx_opts ctx) of
              None \<Rightarrow> Inl Topology_facts
            | Some facts \<Rightarrow>
                if length facts \<noteq> DS4_V100_EXPECTED_GPUS then Inl Topology_facts
                else
                  res_bind (fold_res (check_device_fact facts) [0..<DS4_V100_EXPECTED_GPUS] ctx) (\<lambda>ctx'.
                  res_bind (fold_res (check_peer_edge facts) [0..<DS4_V100_EXPECTED_GPUS - 1] ()) (\<lambda>_.
                  Inr ctx'))))"

definition validate_memory_budget :: "ds4_context \<Rightarrow> context_error + unit" where
  "validate_memory_budget ctx =
     (if \<not> op_require_production_topology (cx_opts ctx) then Inr ()
      else fold_res (\<lambda>i u. let s = cx_stages ctx ! i; used = checked_stage_used s in
             check (used > sg_device_total_bytes s \<or>
                    sg_reserve_bytes s > sg_device_total_bytes s - used)
               (Below_reserve i used (sg_device_total_bytes s) (sg_reserve_bytes s)))
             [0..<DS4_V100_EXPECTED_GPUS] ())"

section \<open>Shapes and sizes\<close>

text \<open>The digit loop of one dimension: the value and the rest, \<open>None\<close> when it overflows.\<close>

fun shape_dim :: "u64 \<Rightarrow> string \<Rightarrow> (u64 \<times> string) option" where
  "shape_dim dim [] = Some (dim, [])"
| "shape_dim dim (c # cs) =
     (if isdigit c then
        (let d = of_nat (digit_val c) in
         if dim > (UINT64_MAX - d) div 10 then None else shape_dim (dim * 10 + d) cs)
      else Some (dim, c # cs))"

lemma shape_dim_length: "shape_dim d s = Some (v, r) \<Longrightarrow> length r \<le> length s"
proof (induction d s rule: shape_dim.induct)
  case (2 dim c cs)
  then show ?case by (fastforce simp: Let_def split: if_splits)
qed simp

lemma shape_dim_shorter: "shape_dim d (c # cs) = Some (v, r) \<Longrightarrow> isdigit c \<Longrightarrow> length r \<le> length cs"
  by (auto simp: Let_def dest: shape_dim_length split: if_splits)

text \<open>The loop over the dimensions; the end test of the source is in the first two equations.\<close>

function shape_dims :: "string \<Rightarrow> nat \<Rightarrow> u64 list \<Rightarrow> u64 \<Rightarrow> (u64 list \<times> u64) option" where
  "shape_dims p cap dims product =
     (case p of
        [] \<Rightarrow> None
      | c # cs \<Rightarrow>
          if c = CHR '']'' then (if cs \<noteq> [] \<or> dims = [] then None else Some (dims, product))
          else if \<not> isdigit c then None
          else (case shape_dim 0 p of
                  None \<Rightarrow> None
                | Some (dim, rest) \<Rightarrow>
                    if dim = 0 \<or> product > UINT64_MAX div dim then None
                    else if length dims \<ge> cap then None
                    else (case rest of
                            [] \<Rightarrow> None
                          | r # rs \<Rightarrow>
                              if r = CHR ''x'' then shape_dims rs cap (dims @ [dim]) (product * dim)
                              else if r \<noteq> CHR '']'' then None
                              else shape_dims rest cap (dims @ [dim]) (product * dim))))"
  by pat_completeness auto
termination
proof (relation "measure (\<lambda>(p, cap, dims, product). length p)", goal_cases)
  case (2 p cap dims product c cs x dim rest r rs)
  then have "length rest \<le> length cs" using shape_dim_shorter [of 0 c cs dim rest] by auto
  then show ?case using 2 by simp
next
  case (3 p cap dims product c cs x dim rest r rs)
  then have "length rest \<le> length cs" using shape_dim_shorter [of 0 c cs dim rest] by auto
  then show ?case using 3 by simp
qed simp

declare shape_dims.simps [simp del]

definition parse_shape_dims :: "string \<Rightarrow> nat \<Rightarrow> (u64 list \<times> u64) option" where
  "parse_shape_dims shape cap =
     (case shape of
        c # p \<Rightarrow> if c = CHR ''['' then shape_dims p cap [] 1 else None
      | [] \<Rightarrow> None)"

lemma shape_dims_product:
  "shape_dims p cap dims product = Some (ds, el) \<Longrightarrow> unat product = prod_list (map unat dims) \<Longrightarrow>
     unat el = prod_list (map unat ds)"
proof (induction p cap dims product rule: shape_dims.induct)
  case (1 p cap dims product)
  have step: "unat (product * dim) = prod_list (map unat (dims @ [dim]))"
    if "dim \<noteq> 0" "\<not> UINT64_MAX div dim < product" for dim
    using that u64_mul_overflow_iff [of dim product] 1(4) by (simp add: unat_times_no_overflow mult.commute)
  show ?case
    using 1(3) 1(1)[OF _ _ _ _ _ _ _ _ _ _ step] 1(2)[OF _ _ _ _ _ _ _ _ _ _ _ step] 1(4)
    by (subst (asm) shape_dims.simps) (auto split: list.splits if_splits option.splits prod.splits)
qed

lemma parse_shape_product:
  "parse_shape_dims shape cap = Some (dims, n) \<Longrightarrow> unat n = prod_list (map unat dims)"
  using shape_dims_product [of _ cap "[]" 1 dims n]
  by (auto simp: parse_shape_dims_def split: list.splits if_splits)

definition parse_shape_elements :: "string \<Rightarrow> u64 option" where
  "parse_shape_elements shape = map_option snd (parse_shape_dims shape DS4_V100_MAX_SHAPE_DIMS)"

definition dtype_bytes :: "ds4_source_dtype \<Rightarrow> u64 \<Rightarrow> u64 option" where
  "dtype_bytes dtype elements =
     (case dtype of
        DS4_V100_SOURCE_BF16 \<Rightarrow>
          if elements > UINT64_MAX div 2 then None else Some (elements * 2)
      | DS4_V100_SOURCE_F32 \<Rightarrow>
          if elements > UINT64_MAX div 4 then None else Some (elements * 4)
      | DS4_V100_SOURCE_I32 \<Rightarrow>
          if elements > UINT64_MAX div 4 then None else Some (elements * 4)
      | DS4_V100_SOURCE_F8_E4M3_B128 \<Rightarrow>
          if elements > UINT64_MAX - (elements + 127) div 128 then None
          else Some (elements + (elements + 127) div 128)
      | DS4_V100_SOURCE_MXFP4 \<Rightarrow>
          if elements mod 32 \<noteq> 0 then None
          else if elements > UINT64_MAX div 17 then None else Some (elements * 17 div 32)
      | DS4_V100_SOURCE_FP4 \<Rightarrow>
          if elements mod 32 \<noteq> 0 then None
          else if elements > UINT64_MAX div 17 then None else Some (elements * 17 div 32)
      | DS4_V100_SOURCE_UNKNOWN \<Rightarrow> None)"

definition expected_bytes_for_entry :: "ds4_pack_entry \<Rightarrow> u64 option" where
  "expected_bytes_for_entry e =
     (case parse_shape_elements (pe_source_shape e) of
        None \<Rightarrow> None
      | Some elements \<Rightarrow> dtype_bytes (ds4_source_dtype_parse (pe_source_dtype e)) elements)"

section \<open>Binding the rows\<close>

text \<open>\<open>sizeof(ds4_tensor_desc)\<close> and \<open>sizeof(ds4_tm_tensor_desc)\<close> are 40.\<close>

definition append_desc ::
  "ds4_pack_entry \<Rightarrow> ds4_policy \<Rightarrow> ds4_context \<Rightarrow> context_error + ds4_context" where
  "append_desc entry policy ctx =
     (let cap = cx_cap_descs ctx;
          grow = (of_nat (length (cx_descs ctx)) = cap);
          next = (if cap \<noteq> 0 then cap * 2 else 256)
      in if grow \<and> (next < cap \<or> next > UINT64_MAX div 40) then Inl Too_many_descs
         else Inr (ctx\<lparr>cx_cap_descs := (if grow then next else cap),
                       cx_descs := cx_descs ctx @ [\<lparr>td_entry = entry, td_policy = policy\<rparr>],
                       cx_exec_counts := (cx_exec_counts ctx)
                         (pol_exec_kind policy := cx_exec_counts ctx (pol_exec_kind policy) + 1)\<rparr>))"

definition append_tm_desc ::
  "ds4_tm_pack_entry \<Rightarrow> ds4_policy \<Rightarrow> ds4_context \<Rightarrow> context_error + ds4_context" where
  "append_tm_desc entry policy ctx =
     (let cap = cx_cap_tm_descs ctx;
          grow = (of_nat (length (cx_tm_descs ctx)) = cap);
          next = (if cap \<noteq> 0 then cap * 2 else 128)
      in if grow \<and> (next < cap \<or> next > UINT64_MAX div 40) then Inl Too_many_descs
         else Inr (ctx\<lparr>cx_cap_tm_descs := (if grow then next else cap),
                       cx_tm_descs := cx_tm_descs ctx @ [\<lparr>tmd_entry = entry, tmd_policy = policy\<rparr>],
                       cx_exec_counts := (cx_exec_counts ctx)
                         (pol_exec_kind policy := cx_exec_counts ctx (pol_exec_kind policy) + 1)\<rparr>))"

definition bind_max_gpu :: "ds4_context \<Rightarrow> int" where
  "bind_max_gpu ctx = (if op_expected_gpus (cx_opts ctx) > 0 then op_expected_gpus (cx_opts ctx)
     else int DS4_V100_EXPECTED_GPUS)"

definition mark_family :: "ds4_tensor_family \<Rightarrow> ds4_layer_info \<Rightarrow> ds4_layer_info" where
  "mark_family family li =
     (let li' = li\<lparr>ly_tensor_count := ly_tensor_count li + 1\<rparr> in
      case family of
        DS4_V100_FAMILY_F32_CONTROL \<Rightarrow> li'\<lparr>ly_has_f32_control := True\<rparr>
      | DS4_V100_FAMILY_FP8_DENSE \<Rightarrow> li'\<lparr>ly_has_fp8_dense := True\<rparr>
      | DS4_V100_FAMILY_MXFP4_EXPERT \<Rightarrow> li'\<lparr>ly_has_mxfp4_expert := True\<rparr>
      | DS4_V100_FAMILY_HC_CONTROL \<Rightarrow> li'\<lparr>ly_has_hc_control := True\<rparr>
      | _ \<Rightarrow> li')"

definition count_stage_tensor :: "ds4_stage_info \<Rightarrow> ds4_stage_info" where
  "count_stage_tensor s = s\<lparr>sg_tensor_count := sg_tensor_count s + 1\<rparr>"

text \<open>What binding a row changes, once its checks have passed.\<close>

definition bind_update :: "ds4_pack_entry \<Rightarrow> ds4_policy \<Rightarrow> ds4_context \<Rightarrow> ds4_context" where
  "bind_update e policy ctx =
     (let g = nat (pe_owning_gpu e);
          ctx1 = ctx\<lparr>cx_stages := (cx_stages ctx)[g := count_stage_tensor (cx_stages ctx ! g)]\<rparr>;
          l = nat (pe_layer_id e);
          ctx2 = (if pe_layer_id e \<ge> 0
                  then ctx1\<lparr>cx_layers := (cx_layers ctx1)[l := mark_family (pol_family policy) (cx_layers ctx1 ! l)]\<rparr>
                  else ctx1)
      in if pe_semantic_tensor_id e = ''token_embd.weight'' then ctx2\<lparr>cx_has_token_embedding := True\<rparr>
         else ctx2)"

definition bind_pack_entry ::
  "ds4_pack \<Rightarrow> ds4_pack_entry \<Rightarrow> ds4_context \<Rightarrow> context_error + ds4_context" where
  "bind_pack_entry pack e ctx =
     (let tid = pe_semantic_tensor_id e in
      res_bind (check (pe_owning_gpu e < 0 \<or> pe_owning_gpu e \<ge> bind_max_gpu ctx)
                  (Bad_owning_gpu tid (pe_owning_gpu e))) (\<lambda>_.
      res_bind (check (pe_layer_id e \<ge> int DS4_V100_N_LAYERS) (Bad_layer_id tid (pe_layer_id e))) (\<lambda>_.
      res_bind (check (pe_layer_id e \<ge> 0 \<and> ds4_stage_for_layer (pe_layer_id e) \<noteq> pe_owning_gpu e)
                  (Owner_stage_mismatch tid (pe_owning_gpu e) (pe_layer_id e)
                     (ds4_stage_for_layer (pe_layer_id e)))) (\<lambda>_.
      res_bind (ok_or (Bad_shape_dtype tid (pe_source_dtype e) (pe_source_shape e))
                  (expected_bytes_for_entry e)) (\<lambda>expected.
      res_bind (check (expected \<noteq> pe_byte_length e)
                  (Byte_length_differs tid expected (pe_byte_length e))) (\<lambda>_.
      res_bind (ok_or (Unsupported_policy (pe_source_dtype e) (pe_runtime_layout e) (pe_kernel_family e))
                  (ds4_classify_or_die (pe_source_dtype e) (pe_runtime_layout e) (pe_kernel_family e))) (\<lambda>policy.
      (let arena_bytes = ds4_pack_arena_bytes pack (pe_owning_gpu e) in
       res_bind (check (pe_shard_offset e > arena_bytes \<or> pe_byte_length e > arena_bytes - pe_shard_offset e)
                   (Arena_span_overflow tid (pe_owning_gpu e))) (\<lambda>_.
       append_desc e policy (bind_update e policy ctx))))))))))"

definition bind_pack :: "file_system \<Rightarrow> ds4_context \<Rightarrow> context_error + ds4_context" where
  "bind_pack fs ctx =
     (case op_pack_index_path (cx_opts ctx) of
        None \<Rightarrow> Inr ctx
      | Some path \<Rightarrow>
          if path = [] then Inr ctx
          else (case ds4_pack_open fs (Some path) of
                  Inl e \<Rightarrow> Inl (Open_failed e)
                | Inr pack \<Rightarrow>
                    ds4_pack_for_each pack (bind_pack_entry pack)
                      (ctx\<lparr>cx_pack := Some pack,
                           cx_stages := map (\<lambda>i. (cx_stages ctx ! i)
                             \<lparr>sg_arena_bytes := ds4_pack_arena_bytes pack (int i)\<rparr>)
                             [0..<DS4_V100_EXPECTED_GPUS]\<rparr>)))"

definition is_tp_routed_expert_id :: "string \<Rightarrow> bool" where
  "is_tp_routed_expert_id i \<longleftrightarrow>
     strstr_found i ''.ffn_gate_up_exps.tp0.weight'' \<or> strstr_found i ''.ffn_gate_up_exps.tp1.weight'' \<or>
     strstr_found i ''.ffn_down_exps.tp0.weight'' \<or> strstr_found i ''.ffn_down_exps.tp1.weight''"

definition is_routed_expert_id :: "string \<Rightarrow> bool" where
  "is_routed_expert_id i \<longleftrightarrow>
     strstr_found i ''.ffn_gate_exps.weight'' \<or> strstr_found i ''.ffn_up_exps.weight'' \<or>
     strstr_found i ''.ffn_gate_up_exps.weight'' \<or>
     strstr_found i ''.ffn_gate_up_exps.tp0.weight'' \<or> strstr_found i ''.ffn_gate_up_exps.tp1.weight'' \<or>
     strstr_found i ''.ffn_down_exps.tp0.weight'' \<or> strstr_found i ''.ffn_down_exps.tp1.weight'' \<or>
     strstr_found i ''.ffn_down_exps.weight''"

definition tm_bind_update :: "ds4_tm_pack_entry \<Rightarrow> u64 \<Rightarrow> u64 \<Rightarrow> ds4_context \<Rightarrow> ds4_context" where
  "tm_bind_update e weight_end scale_end ctx =
     (let g = nat (te_owning_gpu e); s = cx_stages ctx ! g;
          a1 = (if weight_end > sg_arena_bytes s then weight_end else sg_arena_bytes s);
          a2 = (if scale_end > a1 then scale_end else a1);
          l = nat (te_layer_id e); li = cx_layers ctx ! l
      in ctx\<lparr>cx_stages := (cx_stages ctx)[g := count_stage_tensor (s\<lparr>sg_arena_bytes := a2\<rparr>)],
             cx_layers := (cx_layers ctx)[l := li\<lparr>ly_tensor_count := ly_tensor_count li + 1,
                                                  ly_has_mxfp4_expert := True\<rparr>]\<rparr>)"

definition bind_tm_pack_entry ::
  "ds4_tm_pack_entry \<Rightarrow> ds4_context \<Rightarrow> context_error + ds4_context" where
  "bind_tm_pack_entry e ctx =
     (let tid = te_semantic_tensor_id e in
      res_bind (check (te_owning_gpu e < 0 \<or> te_owning_gpu e \<ge> bind_max_gpu ctx)
                  (Bad_owning_gpu tid (te_owning_gpu e))) (\<lambda>_.
      res_bind (check (te_layer_id e < 0 \<or> te_layer_id e \<ge> int DS4_V100_N_LAYERS)
                  (Bad_layer_id tid (te_layer_id e))) (\<lambda>_.
      res_bind (check (\<not> is_tp_routed_expert_id tid \<and> ds4_stage_for_layer (te_layer_id e) \<noteq> te_owning_gpu e)
                  (Owner_stage_mismatch tid (te_owning_gpu e) (te_layer_id e)
                     (ds4_stage_for_layer (te_layer_id e)))) (\<lambda>_.
      res_bind (check (\<not> is_routed_expert_id tid) (Not_routed_expert tid)) (\<lambda>_.
      res_bind (check (\<not> str_eq_ci (te_source_dtype e) ''mxfp4'') (Dtype_not_mxfp4 tid)) (\<lambda>_.
      res_bind (check (map_option fst (parse_shape_dims (te_source_shape e) DS4_V100_MAX_SHAPE_DIMS) \<noteq>
                       Some [ucast (te_k e), ucast (te_n e), ucast (te_experts_total e)])
                  (Shape_metadata_mismatch tid)) (\<lambda>_.
      res_bind (ok_or (Unsupported_policy (te_source_dtype e) (te_runtime_layout e) (te_kernel_family e))
                  (ds4_classify_or_die (te_source_dtype e) (te_runtime_layout e) (te_kernel_family e))) (\<lambda>policy.
      res_bind (check (tm_weight_end e < te_weight_offset e \<or> tm_scale_end e < te_scale_offset e)
                  (Arena_span_overflow tid (te_owning_gpu e))) (\<lambda>_.
      append_tm_desc e policy (tm_bind_update e (tm_weight_end e) (tm_scale_end e) ctx))))))))))"

definition bind_tm_pack :: "file_system \<Rightarrow> ds4_context \<Rightarrow> context_error + ds4_context" where
  "bind_tm_pack fs ctx =
     (case op_turbomind_pack_index_path (cx_opts ctx) of
        None \<Rightarrow> Inr ctx
      | Some path \<Rightarrow>
          if path = [] then Inr ctx
          else (case ds4_tm_pack_open fs (Some path) of
                  Inl e \<Rightarrow> Inl (Open_failed e)
                | Inr pack \<Rightarrow>
                    ds4_tm_pack_for_each pack bind_tm_pack_entry (ctx\<lparr>cx_tm_pack := Some pack\<rparr>)))"

section \<open>Opening a context\<close>

definition zero_stage :: ds4_stage_info where
  "zero_stage = \<lparr>sg_stage_id = 0, sg_gpu = 0, sg_layer_begin = 0, sg_layer_end = 0,
     sg_owns_token_embedding = False, sg_owns_output_head = False, sg_tensor_count = 0,
     sg_arena_bytes = 0, sg_scratch_bytes = 0, sg_relay_f16_bytes = 0, sg_relay_f32_debug_bytes = 0,
     sg_planned_kv_bytes = 0, sg_kv_arena = zero_kv_arena, sg_kv_raw_swa_bytes = 0,
     sg_kv_compressed_attn_bytes = 0, sg_kv_indexer_bytes = 0, sg_kv_compression_state_bytes = 0,
     sg_output_head_reserve_bytes = 0, sg_mtp_reserve_bytes = 0, sg_reserve_bytes = 0,
     sg_device_total_bytes = 0\<rparr>"

definition zero_view :: ds4_layer_kv_view where
  "zero_view = \<lparr>kv_raw_swa_offset = 0, kv_raw_swa_bytes = 0, kv_compressed_attn_offset = 0,
     kv_compressed_attn_bytes = 0, kv_indexer_kv_offset = 0, kv_indexer_kv_bytes = 0,
     kv_attn_state_kv_offset = 0, kv_attn_state_kv_bytes = 0, kv_attn_state_score_offset = 0,
     kv_attn_state_score_bytes = 0, kv_indexer_state_kv_offset = 0, kv_indexer_state_kv_bytes = 0,
     kv_indexer_state_score_offset = 0, kv_indexer_state_score_bytes = 0, kv_total_bytes = 0\<rparr>"

definition zero_layer :: ds4_layer_info where
  "zero_layer = \<lparr>ly_layer_id = 0, ly_stage_id = 0, ly_layer_class = DS4_V100_LAYER_SWA_ONLY,
     ly_kv_budget = zero_budget, ly_kv_view = zero_view, ly_tensor_count = 0,
     ly_has_f32_control = False, ly_has_fp8_dense = False, ly_has_mxfp4_expert = False,
     ly_has_hc_control = False\<rparr>"

text \<open>The zeroed context of \<open>calloc\<close>, with the options stored.\<close>

definition new_context :: "ds4_context_options \<Rightarrow> ds4_context" where
  "new_context opts =
     \<lparr>cx_opts = opts, cx_pack = None, cx_tm_pack = None,
      cx_stages = replicate DS4_V100_EXPECTED_GPUS zero_stage, cx_descs = [], cx_tm_descs = [],
      cx_cap_descs = 0, cx_cap_tm_descs = 0, cx_exec_counts = (\<lambda>_. 0),
      cx_has_token_embedding = False, cx_layers = replicate DS4_V100_N_LAYERS zero_layer\<rparr>"

definition ds4_context_open ::
  "file_system \<Rightarrow> ds4_context_options option \<Rightarrow> context_error + ds4_context" where
  "ds4_context_open fs opts =
     (let local = (case opts of Some o' \<Rightarrow> o' | None \<Rightarrow> ds4_context_options_init) in
      res_bind (check (op_expected_gpus local \<le> 0 \<or> op_expected_gpus local > int DS4_V100_EXPECTED_GPUS)
                  Expected_gpus_range) (\<lambda>_.
      res_bind (check (op_relay_max_active_slots local = 0) Relay_slots_zero) (\<lambda>_.
      res_bind (check (op_kv_ctx_tokens local \<noteq> 0 \<and> op_kv_active_slots local = 0) Kv_slots_zero) (\<lambda>_.
      res_bind (check (op_kv_ctx_tokens local \<noteq> 0 \<and> op_planned_kv_bytes_per_gpu local \<noteq> 0)
                  Kv_plan_conflict) (\<lambda>_.
      res_bind (validate_topology (apply_derived_kv_plan (init_stage_map (new_context local)))) (\<lambda>ctx1.
      res_bind (bind_pack fs ctx1) (\<lambda>ctx2.
      res_bind (bind_tm_pack fs ctx2) (\<lambda>ctx3.
      res_bind (validate_memory_budget ctx3) (\<lambda>_. Inr ctx3)))))))))"

section \<open>Accessors and lookups\<close>

definition ds4_context_stage_count :: "ds4_context option \<Rightarrow> int" where
  "ds4_context_stage_count ctx = (case ctx of None \<Rightarrow> 0 | Some c \<Rightarrow> op_expected_gpus (cx_opts c))"

definition ds4_context_stage :: "ds4_context option \<Rightarrow> int \<Rightarrow> ds4_stage_info option" where
  "ds4_context_stage ctx stage_id =
     (case ctx of
        None \<Rightarrow> None
      | Some c \<Rightarrow> if stage_id < 0 \<or> stage_id \<ge> op_expected_gpus (cx_opts c) then None
                  else Some (cx_stages c ! nat stage_id))"

definition ds4_context_layer :: "ds4_context option \<Rightarrow> int \<Rightarrow> ds4_layer_info option" where
  "ds4_context_layer ctx layer_id =
     (case ctx of
        None \<Rightarrow> None
      | Some c \<Rightarrow> if layer_id < 0 \<or> layer_id \<ge> int DS4_V100_N_LAYERS then None
                  else Some (cx_layers c ! nat layer_id))"

definition ds4_context_tensor_count :: "ds4_context option \<Rightarrow> u64" where
  "ds4_context_tensor_count ctx =
     (case ctx of None \<Rightarrow> 0 | Some c \<Rightarrow> of_nat (length (cx_descs c)) + of_nat (length (cx_tm_descs c)))"

definition ds4_context_exec_count :: "ds4_context option \<Rightarrow> ds4_exec_kind \<Rightarrow> u64" where
  "ds4_context_exec_count ctx kind =
     (case ctx of
        None \<Rightarrow> 0
      | Some c \<Rightarrow> if kind = DS4_V100_EXEC_COUNT then 0 else cx_exec_counts c kind)"

definition ds4_context_has_token_embedding :: "ds4_context option \<Rightarrow> bool" where
  "ds4_context_has_token_embedding ctx = (case ctx of None \<Rightarrow> False | Some c \<Rightarrow> cx_has_token_embedding c)"

text \<open>
  A binding copies the entry and the policy and adds the parsed shape: the entry is kept whole
  here, its fields being those of the binding.
\<close>

record ds4_tensor_binding =
  tb_entry :: ds4_pack_entry
  tb_policy :: ds4_policy
  tb_shape :: "u64 list"

record ds4_turbomind_binding =
  tmb_entry :: ds4_tm_pack_entry
  tmb_policy :: ds4_policy
  tmb_shape :: "u64 list"

definition fill_binding :: "ds4_tensor_desc \<Rightarrow> context_error + ds4_tensor_binding" where
  "fill_binding desc =
     (let e = td_entry desc in
      case parse_shape_dims (pe_source_shape e) DS4_V100_MAX_SHAPE_DIMS of
        None \<Rightarrow> Inl (Bad_source_shape (pe_semantic_tensor_id e) (pe_source_shape e))
      | Some (dims, _) \<Rightarrow> Inr \<lparr>tb_entry = e, tb_policy = td_policy desc, tb_shape = dims\<rparr>)"

definition fill_tm_binding :: "ds4_tm_tensor_desc \<Rightarrow> context_error + ds4_turbomind_binding" where
  "fill_tm_binding desc =
     (let e = tmd_entry desc in
      case parse_shape_dims (te_source_shape e) DS4_V100_MAX_SHAPE_DIMS of
        None \<Rightarrow> Inl (Bad_source_shape (te_semantic_tensor_id e) (te_source_shape e))
      | Some (dims, _) \<Rightarrow> Inr \<lparr>tmb_entry = e, tmb_policy = tmd_policy desc, tmb_shape = dims\<rparr>)"

definition ds4_context_lookup_tensor_binding ::
  "ds4_context \<Rightarrow> string \<Rightarrow> context_error + ds4_tensor_binding" where
  "ds4_context_lookup_tensor_binding ctx tid =
     (if tid = [] then Inl Missing_tensor_id
      else (case find (\<lambda>d. pe_semantic_tensor_id (td_entry d) = tid) (cx_descs ctx) of
              None \<Rightarrow> Inl (Missing_descriptor tid)
            | Some desc \<Rightarrow> fill_binding desc))"

definition ds4_context_lookup_turbomind_binding ::
  "ds4_context \<Rightarrow> string \<Rightarrow> context_error + ds4_turbomind_binding" where
  "ds4_context_lookup_turbomind_binding ctx tid =
     (if tid = [] then Inl Missing_tensor_id
      else (case find (\<lambda>d. te_semantic_tensor_id (tmd_entry d) = tid) (cx_tm_descs ctx) of
              None \<Rightarrow> Inl (Missing_descriptor tid)
            | Some desc \<Rightarrow> fill_tm_binding desc))"

text \<open>\<open>snprintf\<close> into \<open>id[192]\<close>.\<close>

definition layer_tensor_id :: "int \<Rightarrow> string \<Rightarrow> context_error + string" where
  "layer_tensor_id layer_id suffix =
     (if layer_id < 0 \<or> layer_id \<ge> int DS4_V100_N_LAYERS then Inl (Bad_layer_id suffix layer_id)
      else if suffix = [] then Inl Missing_suffix
      else (let i = ''blk.'' @ show_int layer_id @ ''.'' @ suffix in
            if length i \<ge> 192 then Inl Tensor_id_too_long else Inr i))"

definition ds4_context_require_layer_tensor_binding ::
  "ds4_context \<Rightarrow> int \<Rightarrow> string \<Rightarrow> context_error + ds4_tensor_binding" where
  "ds4_context_require_layer_tensor_binding ctx layer_id suffix =
     res_bind (layer_tensor_id layer_id suffix) (ds4_context_lookup_tensor_binding ctx)"

definition ds4_context_require_layer_turbomind_binding ::
  "ds4_context \<Rightarrow> int \<Rightarrow> string \<Rightarrow> context_error + ds4_turbomind_binding" where
  "ds4_context_require_layer_turbomind_binding ctx layer_id suffix =
     res_bind (layer_tensor_id layer_id suffix) (ds4_context_lookup_turbomind_binding ctx)"

definition ds4_context_output_head_binding :: "ds4_context \<Rightarrow> context_error + ds4_tensor_binding" where
  "ds4_context_output_head_binding ctx = ds4_context_lookup_tensor_binding ctx ''output.weight''"

definition layer_status :: "u64 \<Rightarrow> nat \<Rightarrow> ds4_layer_info \<Rightarrow> string" where
  "layer_status total_descs layer li =
     (if ly_stage_id li \<noteq> ds4_stage_for_layer (int layer) then ''BAD_STAGE''
      else if total_descs > 0 \<and> ly_tensor_count li = 0 then ''MISSING_LAYER_DESCRIPTORS''
      else if total_descs > 0 \<and> \<not> ly_has_f32_control li then ''MISSING_F32_CONTROL''
      else if total_descs > 0 \<and> \<not> ly_has_fp8_dense li then ''MISSING_FP8_DENSE''
      else if total_descs > 0 \<and> \<not> ly_has_mxfp4_expert li then ''MISSING_MXFP4_EXPERT''
      else if total_descs > 0 \<and> \<not> ly_has_hc_control li then ''MISSING_HC_CONTROL''
      else ''OK'')"

definition ds4_context_validate_layer_skeleton :: "ds4_context \<Rightarrow> context_error + unit" where
  "ds4_context_validate_layer_skeleton ctx =
     (let total_descs = ds4_context_tensor_count (Some ctx) in
      res_bind (fold_res (\<lambda>layer u. let status = layer_status total_descs layer (cx_layers ctx ! layer) in
                  check (status \<noteq> ''OK'') (Skeleton_failed layer status)) [0..<DS4_V100_N_LAYERS] ()) (\<lambda>_.
      check (total_descs > 0 \<and> \<not> cx_has_token_embedding ctx) Missing_token_embedding))"

section \<open>What binding establishes\<close>

text \<open>The counters and flags a context keeps, as functions of its descriptors.\<close>

definition stage_tensors :: "ds4_context \<Rightarrow> nat \<Rightarrow> nat" where
  "stage_tensors ctx g =
     length (filter (\<lambda>d. pe_owning_gpu (td_entry d) = int g) (cx_descs ctx)) +
     length (filter (\<lambda>d. te_owning_gpu (tmd_entry d) = int g) (cx_tm_descs ctx))"

definition layer_tensors :: "ds4_context \<Rightarrow> nat \<Rightarrow> nat" where
  "layer_tensors ctx l =
     length (filter (\<lambda>d. pe_layer_id (td_entry d) = int l) (cx_descs ctx)) +
     length (filter (\<lambda>d. te_layer_id (tmd_entry d) = int l) (cx_tm_descs ctx))"

definition exec_tensors :: "ds4_context \<Rightarrow> ds4_exec_kind \<Rightarrow> nat" where
  "exec_tensors ctx k =
     length (filter (\<lambda>d. pol_exec_kind (td_policy d) = k) (cx_descs ctx)) +
     length (filter (\<lambda>d. pol_exec_kind (tmd_policy d) = k) (cx_tm_descs ctx))"

definition layer_has :: "ds4_context \<Rightarrow> nat \<Rightarrow> ds4_tensor_family \<Rightarrow> bool" where
  "layer_has ctx l f \<longleftrightarrow>
     (\<exists>d \<in> set (cx_descs ctx). pe_layer_id (td_entry d) = int l \<and> pol_family (td_policy d) = f) \<or>
     (f = DS4_V100_FAMILY_MXFP4_EXPERT \<and> (\<exists>d \<in> set (cx_tm_descs ctx). te_layer_id (tmd_entry d) = int l))"

definition counters_exact :: "ds4_context \<Rightarrow> bool" where
  "counters_exact ctx \<longleftrightarrow>
     (\<forall>k. cx_exec_counts ctx k = of_nat (exec_tensors ctx k)) \<and>
     (\<forall>g < 8. sg_tensor_count (cx_stages ctx ! g) = of_nat (stage_tensors ctx g)) \<and>
     (\<forall>l < 43. ly_tensor_count (cx_layers ctx ! l) = of_nat (layer_tensors ctx l) \<and>
        ly_has_f32_control (cx_layers ctx ! l) = layer_has ctx l DS4_V100_FAMILY_F32_CONTROL \<and>
        ly_has_fp8_dense (cx_layers ctx ! l) = layer_has ctx l DS4_V100_FAMILY_FP8_DENSE \<and>
        ly_has_mxfp4_expert (cx_layers ctx ! l) = layer_has ctx l DS4_V100_FAMILY_MXFP4_EXPERT \<and>
        ly_has_hc_control (cx_layers ctx ! l) = layer_has ctx l DS4_V100_FAMILY_HC_CONTROL) \<and>
     (cx_has_token_embedding ctx \<longleftrightarrow>
        (\<exists>d \<in> set (cx_descs ctx). pe_semantic_tensor_id (td_entry d) = ''token_embd.weight''))"

text \<open>A descriptor whose row passed the checks.\<close>

definition desc_ok :: "ds4_context \<Rightarrow> ds4_tensor_desc \<Rightarrow> bool" where
  "desc_ok ctx d \<longleftrightarrow>
     (let e = td_entry d in
      0 \<le> pe_owning_gpu e \<and> pe_owning_gpu e < bind_max_gpu ctx \<and> pe_layer_id e < 43 \<and>
      (0 \<le> pe_layer_id e \<longrightarrow> ds4_stage_for_layer (pe_layer_id e) = pe_owning_gpu e) \<and>
      expected_bytes_for_entry e = Some (pe_byte_length e) \<and>
      ds4_classify_or_die (pe_source_dtype e) (pe_runtime_layout e) (pe_kernel_family e) = Some (td_policy d) \<and>
      entry_end e \<le> unat (sg_arena_bytes (cx_stages ctx ! nat (pe_owning_gpu e))))"

definition tm_desc_ok :: "ds4_context \<Rightarrow> ds4_tm_tensor_desc \<Rightarrow> bool" where
  "tm_desc_ok ctx d \<longleftrightarrow>
     (let e = tmd_entry d in
      0 \<le> te_owning_gpu e \<and> te_owning_gpu e < bind_max_gpu ctx \<and> 0 \<le> te_layer_id e \<and> te_layer_id e < 43 \<and>
      (\<not> is_tp_routed_expert_id (te_semantic_tensor_id e) \<longrightarrow>
         ds4_stage_for_layer (te_layer_id e) = te_owning_gpu e) \<and>
      map_option fst (parse_shape_dims (te_source_shape e) 4) =
        Some [ucast (te_k e), ucast (te_n e), ucast (te_experts_total e)] \<and>
      ds4_classify_or_die (te_source_dtype e) (te_runtime_layout e) (te_kernel_family e) = Some (tmd_policy d) \<and>
      unat (tm_weight_end e) \<le> unat (sg_arena_bytes (cx_stages ctx ! nat (te_owning_gpu e))) \<and>
      unat (tm_scale_end e) \<le> unat (sg_arena_bytes (cx_stages ctx ! nat (te_owning_gpu e))))"

text \<open>The part of a context that binding leaves alone.\<close>

definition plan_part :: "ds4_context \<Rightarrow>
  ds4_context_options \<times> (ds4_kv_arena_plan \<times> u64 \<times> u64) list \<times>
  (int \<times> ds4_kv_budget \<times> ds4_layer_kv_view) list" where
  "plan_part ctx =
     (cx_opts ctx,
      map (\<lambda>s. (sg_kv_arena s, sg_planned_kv_bytes s, sg_device_total_bytes s)) (cx_stages ctx),
      map (\<lambda>li. (ly_stage_id li, ly_kv_budget li, ly_kv_view li)) (cx_layers ctx))"

definition ctx_inv :: "ds4_context \<Rightarrow> bool" where
  "ctx_inv ctx \<longleftrightarrow> staged ctx \<and> bind_max_gpu ctx \<le> 8 \<and> counters_exact ctx \<and>
     (\<forall>d \<in> set (cx_descs ctx). desc_ok ctx d) \<and> (\<forall>d \<in> set (cx_tm_descs ctx). tm_desc_ok ctx d)"

lemma map_list_update_same: "f x = f (xs ! i) \<Longrightarrow> map f (xs[i := x]) = map f xs"
  by (cases "i < length xs") (auto simp: map_update list_update_same_conv list_update_beyond)

lemma append_desc_Inr:
  assumes "append_desc e p ctx = Inr ctx'"
  shows "ctx' = ctx\<lparr>cx_cap_descs := cx_cap_descs ctx', cx_descs := cx_descs ctx @ [\<lparr>td_entry = e, td_policy = p\<rparr>],
     cx_exec_counts := (cx_exec_counts ctx)(pol_exec_kind p := cx_exec_counts ctx (pol_exec_kind p) + 1)\<rparr>"
  using assms by (cases ctx) (auto simp: append_desc_def Let_def split: if_splits)

lemma append_tm_desc_Inr:
  assumes "append_tm_desc e p ctx = Inr ctx'"
  shows "ctx' = ctx\<lparr>cx_cap_tm_descs := cx_cap_tm_descs ctx', cx_tm_descs := cx_tm_descs ctx @ [\<lparr>tmd_entry = e, tmd_policy = p\<rparr>],
     cx_exec_counts := (cx_exec_counts ctx)(pol_exec_kind p := cx_exec_counts ctx (pol_exec_kind p) + 1)\<rparr>"
  using assms by (cases ctx) (auto simp: append_tm_desc_def Let_def split: if_splits)

lemma bind_pack_entry_Inr:
  assumes "bind_pack_entry pack e ctx = Inr ctx'"
  obtains p where "0 \<le> pe_owning_gpu e" "pe_owning_gpu e < bind_max_gpu ctx" "pe_layer_id e < 43"
    "0 \<le> pe_layer_id e \<longrightarrow> ds4_stage_for_layer (pe_layer_id e) = pe_owning_gpu e"
    "expected_bytes_for_entry e = Some (pe_byte_length e)"
    "ds4_classify_or_die (pe_source_dtype e) (pe_runtime_layout e) (pe_kernel_family e) = Some p"
    "append_desc e p (bind_update e p ctx) = Inr ctx'"
  using assms unfolding bind_pack_entry_def Let_def DS4_V100_N_LAYERS_def res_simps
  by (auto simp: not_less not_le)

lemma bind_update_fields:
  "cx_descs (bind_update e p ctx) = cx_descs ctx" "cx_tm_descs (bind_update e p ctx) = cx_tm_descs ctx"
  "cx_exec_counts (bind_update e p ctx) = cx_exec_counts ctx" "cx_opts (bind_update e p ctx) = cx_opts ctx"
  "cx_pack (bind_update e p ctx) = cx_pack ctx" "cx_tm_pack (bind_update e p ctx) = cx_tm_pack ctx"
  "cx_stages (bind_update e p ctx) = (cx_stages ctx)[nat (pe_owning_gpu e) := count_stage_tensor (cx_stages ctx ! nat (pe_owning_gpu e))]"
  "cx_layers (bind_update e p ctx) = (if pe_layer_id e \<ge> 0 then (cx_layers ctx)[nat (pe_layer_id e) :=
     mark_family (pol_family p) (cx_layers ctx ! nat (pe_layer_id e))] else cx_layers ctx)"
  "cx_has_token_embedding (bind_update e p ctx) =
     (cx_has_token_embedding ctx \<or> pe_semantic_tensor_id e = ''token_embd.weight'')"
  by (simp_all add: bind_update_def Let_def)

lemma mark_family_fields [simp]:
  "ly_stage_id (mark_family f li) = ly_stage_id li" "ly_layer_class (mark_family f li) = ly_layer_class li" "ly_kv_budget (mark_family f li) = ly_kv_budget li"
  "ly_kv_view (mark_family f li) = ly_kv_view li" "ly_tensor_count (mark_family f li) = ly_tensor_count li + 1"
  "ly_has_f32_control (mark_family f li) = (ly_has_f32_control li \<or> f = DS4_V100_FAMILY_F32_CONTROL)"
  "ly_has_fp8_dense (mark_family f li) = (ly_has_fp8_dense li \<or> f = DS4_V100_FAMILY_FP8_DENSE)"
  "ly_has_mxfp4_expert (mark_family f li) = (ly_has_mxfp4_expert li \<or> f = DS4_V100_FAMILY_MXFP4_EXPERT)"
  "ly_has_hc_control (mark_family f li) = (ly_has_hc_control li \<or> f = DS4_V100_FAMILY_HC_CONTROL)"
  by (simp_all add: mark_family_def Let_def split: ds4_tensor_family.splits)

lemma count_stage_tensor_fields [simp]:
  "sg_gpu (count_stage_tensor s) = sg_gpu s"
  "sg_arena_bytes (count_stage_tensor s) = sg_arena_bytes s"
  "sg_tensor_count (count_stage_tensor s) = sg_tensor_count s + 1"
  "sg_kv_arena (count_stage_tensor s) = sg_kv_arena s"
  "sg_planned_kv_bytes (count_stage_tensor s) = sg_planned_kv_bytes s"
  "sg_device_total_bytes (count_stage_tensor s) = sg_device_total_bytes s"
  by (simp_all add: count_stage_tensor_def)

text \<open>Adding one descriptor of either kind.\<close>

lemma bind_pack_entry_step:
  assumes b: "bind_pack_entry pack e ctx = Inr ctx'" and inv: "ctx_inv ctx"
    and arena: "0 \<le> pe_owning_gpu e \<Longrightarrow> pe_owning_gpu e < 8 \<Longrightarrow>
      entry_end e \<le> unat (sg_arena_bytes (cx_stages ctx ! nat (pe_owning_gpu e)))"
  shows "ctx_inv ctx' \<and> plan_part ctx' = plan_part ctx \<and> cx_tm_descs ctx' = cx_tm_descs ctx \<and>
     map td_entry (cx_descs ctx') = map td_entry (cx_descs ctx) @ [e] \<and> cx_pack ctx' = cx_pack ctx \<and>
     map sg_arena_bytes (cx_stages ctx') = map sg_arena_bytes (cx_stages ctx)"
proof -
  obtain p where c: "0 \<le> pe_owning_gpu e" "pe_owning_gpu e < bind_max_gpu ctx" "pe_layer_id e < 43"
    "0 \<le> pe_layer_id e \<longrightarrow> ds4_stage_for_layer (pe_layer_id e) = pe_owning_gpu e"
    "expected_bytes_for_entry e = Some (pe_byte_length e)"
    "ds4_classify_or_die (pe_source_dtype e) (pe_runtime_layout e) (pe_kernel_family e) = Some p"
    "append_desc e p (bind_update e p ctx) = Inr ctx'"
    by (rule bind_pack_entry_Inr [OF b])
  obtain cap where ctx': "ctx' = (bind_update e p ctx)\<lparr>cx_cap_descs := cap,
     cx_descs := cx_descs ctx @ [\<lparr>td_entry = e, td_policy = p\<rparr>],
     cx_exec_counts := (cx_exec_counts ctx)(pol_exec_kind p := cx_exec_counts ctx (pol_exec_kind p) + 1)\<rparr>"
    using append_desc_Inr [OF c(7)] by (simp add: bind_update_fields)
  have st: "staged ctx" and mx: "bind_max_gpu ctx \<le> 8" and cnt: "counters_exact ctx"
    and ds: "\<forall>d \<in> set (cx_descs ctx). desc_ok ctx d" "\<forall>d \<in> set (cx_tm_descs ctx). tm_desc_ok ctx d"
    using inv by (auto simp: ctx_inv_def)
  have len: "length (cx_stages ctx) = 8" "length (cx_layers ctx) = 43" using st by (auto simp: staged_def)
  have max': "bind_max_gpu ctx' = bind_max_gpu ctx" by (simp add: bind_max_gpu_def ctx' bind_update_fields)
  have ar: "map sg_arena_bytes (cx_stages ctx') = map sg_arena_bytes (cx_stages ctx)"
    unfolding ctx' by (simp add: bind_update_fields map_list_update_same)
  have arn: "sg_arena_bytes (cx_stages ctx' ! g) = sg_arena_bytes (cx_stages ctx ! g)" if "g < 8" for g
    using arg_cong [OF ar, of "\<lambda>xs. xs ! g"] that len by (simp add: ctx' bind_update_fields)
  have st': "staged ctx'"
    using st c(3) by (auto simp: staged_def ctx' bind_update_fields nth_list_update nth_update_same [where f = sg_gpu])
  have plan: "plan_part ctx' = plan_part ctx"
    by (simp add: plan_part_def ctx' bind_update_fields map_list_update_same)
  have dok: "desc_ok ctx' \<lparr>td_entry = e, td_policy = p\<rparr>"
    using c mx arena arn [of "nat (pe_owning_gpu e)"] by (simp add: desc_ok_def Let_def max')
  have ds': "\<forall>d \<in> set (cx_descs ctx). desc_ok ctx' d" "\<forall>d \<in> set (cx_tm_descs ctx). tm_desc_ok ctx' d"
    using ds mx arn by (fastforce simp: desc_ok_def tm_desc_ok_def Let_def max')+
  have cnt': "counters_exact ctx'"
  proof -
    have "cx_exec_counts ctx' k = of_nat (exec_tensors ctx' k)" for k
      using cnt by (simp add: counters_exact_def ctx' exec_tensors_def bind_update_fields)
    moreover have "sg_tensor_count (cx_stages ctx' ! g) = of_nat (stage_tensors ctx' g)" if "g < 8" for g
      using cnt that len c(1) by (auto simp: counters_exact_def ctx' stage_tensors_def bind_update_fields nth_list_update)
    moreover have "ly_tensor_count (cx_layers ctx' ! l) = of_nat (layer_tensors ctx' l)" if "l < 43" for l
      using cnt that len by (auto simp: counters_exact_def ctx' layer_tensors_def bind_update_fields nth_list_update)
    moreover have "ly_has_f32_control (cx_layers ctx' ! l) = layer_has ctx' l DS4_V100_FAMILY_F32_CONTROL \<and>
        ly_has_fp8_dense (cx_layers ctx' ! l) = layer_has ctx' l DS4_V100_FAMILY_FP8_DENSE \<and>
        ly_has_mxfp4_expert (cx_layers ctx' ! l) = layer_has ctx' l DS4_V100_FAMILY_MXFP4_EXPERT \<and>
        ly_has_hc_control (cx_layers ctx' ! l) = layer_has ctx' l DS4_V100_FAMILY_HC_CONTROL" if "l < 43" for l
    proof -
      have ly: "cx_layers ctx' ! l = (if pe_layer_id e = int l then mark_family (pol_family p) (cx_layers ctx ! l)
          else cx_layers ctx ! l)"
        using that len c(3) by (auto simp: ctx' bind_update_fields nth_list_update)
      have has: "layer_has ctx' l f \<longleftrightarrow> layer_has ctx l f \<or> (pe_layer_id e = int l \<and> pol_family p = f)" for f
        by (auto simp: layer_has_def ctx' bind_update_fields)
      show ?thesis using cnt that unfolding counters_exact_def ly has by simp
    qed
    moreover have "cx_has_token_embedding ctx' \<longleftrightarrow>
        (\<exists>d \<in> set (cx_descs ctx'). pe_semantic_tensor_id (td_entry d) = ''token_embd.weight'')"
      using cnt by (auto simp: counters_exact_def ctx' bind_update_fields)
    ultimately show ?thesis unfolding counters_exact_def by blast
  qed
  have eq: "cx_descs ctx' = cx_descs ctx @ [\<lparr>td_entry = e, td_policy = p\<rparr>]" "cx_tm_descs ctx' = cx_tm_descs ctx"
    "cx_pack ctx' = cx_pack ctx"
    by (simp_all add: ctx' bind_update_fields)
  show ?thesis
    using st' cnt' dok ds' plan ar mx by (simp add: ctx_inv_def max' eq)
qed

lemma bind_tm_pack_entry_Inr:
  assumes "bind_tm_pack_entry e ctx = Inr ctx'"
  obtains p where "0 \<le> te_owning_gpu e" "te_owning_gpu e < bind_max_gpu ctx" "0 \<le> te_layer_id e" "te_layer_id e < 43"
    "\<not> is_tp_routed_expert_id (te_semantic_tensor_id e) \<longrightarrow> ds4_stage_for_layer (te_layer_id e) = te_owning_gpu e"
    "map_option fst (parse_shape_dims (te_source_shape e) 4) =
        Some [ucast (te_k e), ucast (te_n e), ucast (te_experts_total e)]"
    "ds4_classify_or_die (te_source_dtype e) (te_runtime_layout e) (te_kernel_family e) = Some p"
    "append_tm_desc e p (tm_bind_update e (tm_weight_end e) (tm_scale_end e) ctx) = Inr ctx'"
  using assms unfolding bind_tm_pack_entry_def Let_def DS4_V100_N_LAYERS_def DS4_V100_MAX_SHAPE_DIMS_def res_simps
  by (auto simp: not_less not_le)

lemma tm_bind_update_fields:
  "cx_descs (tm_bind_update e w s ctx) = cx_descs ctx" "cx_tm_descs (tm_bind_update e w s ctx) = cx_tm_descs ctx"
  "cx_exec_counts (tm_bind_update e w s ctx) = cx_exec_counts ctx" "cx_opts (tm_bind_update e w s ctx) = cx_opts ctx"
  "cx_pack (tm_bind_update e w s ctx) = cx_pack ctx" "cx_tm_pack (tm_bind_update e w s ctx) = cx_tm_pack ctx"
  "cx_has_token_embedding (tm_bind_update e w s ctx) = cx_has_token_embedding ctx"
  "cx_layers (tm_bind_update e w s ctx) = (cx_layers ctx)[nat (te_layer_id e) := (cx_layers ctx ! nat (te_layer_id e))
     \<lparr>ly_tensor_count := ly_tensor_count (cx_layers ctx ! nat (te_layer_id e)) + 1, ly_has_mxfp4_expert := True\<rparr>]"
  "cx_stages (tm_bind_update e w s ctx) = (cx_stages ctx)[nat (te_owning_gpu e) := count_stage_tensor
     ((cx_stages ctx ! nat (te_owning_gpu e))\<lparr>sg_arena_bytes := max (max (sg_arena_bytes (cx_stages ctx ! nat (te_owning_gpu e))) w) s\<rparr>)]"
  by (auto simp: tm_bind_update_def Let_def max_def not_le not_less intro!: arg_cong [where f = "list_update _ _"])

lemma bind_tm_pack_entry_step:
  assumes b: "bind_tm_pack_entry e ctx = Inr ctx'" and inv: "ctx_inv ctx"
  shows "ctx_inv ctx' \<and> plan_part ctx' = plan_part ctx \<and> cx_descs ctx' = cx_descs ctx \<and>
     map tmd_entry (cx_tm_descs ctx') = map tmd_entry (cx_tm_descs ctx) @ [e] \<and> cx_pack ctx' = cx_pack ctx"
proof -
  obtain p where c: "0 \<le> te_owning_gpu e" "te_owning_gpu e < bind_max_gpu ctx" "0 \<le> te_layer_id e" "te_layer_id e < 43"
    "\<not> is_tp_routed_expert_id (te_semantic_tensor_id e) \<longrightarrow> ds4_stage_for_layer (te_layer_id e) = te_owning_gpu e"
    "map_option fst (parse_shape_dims (te_source_shape e) 4) =
        Some [ucast (te_k e), ucast (te_n e), ucast (te_experts_total e)]"
    "ds4_classify_or_die (te_source_dtype e) (te_runtime_layout e) (te_kernel_family e) = Some p"
    "append_tm_desc e p (tm_bind_update e (tm_weight_end e) (tm_scale_end e) ctx) = Inr ctx'"
    by (rule bind_tm_pack_entry_Inr [OF b])
  let ?u = "tm_bind_update e (tm_weight_end e) (tm_scale_end e) ctx"
  let ?d = "\<lparr>tmd_entry = e, tmd_policy = p\<rparr>"
  obtain cap where ctx': "ctx' = ?u\<lparr>cx_cap_tm_descs := cap, cx_tm_descs := cx_tm_descs ctx @ [?d],
     cx_exec_counts := (cx_exec_counts ctx)(pol_exec_kind p := cx_exec_counts ctx (pol_exec_kind p) + 1)\<rparr>"
    using append_tm_desc_Inr [OF c(8)] by (simp add: tm_bind_update_fields)
  have st: "staged ctx" and mx: "bind_max_gpu ctx \<le> 8" and cnt: "counters_exact ctx"
    and ds: "\<forall>d \<in> set (cx_descs ctx). desc_ok ctx d" "\<forall>d \<in> set (cx_tm_descs ctx). tm_desc_ok ctx d"
    using inv by (auto simp: ctx_inv_def)
  have len: "length (cx_stages ctx) = 8" "length (cx_layers ctx) = 43" using st by (auto simp: staged_def)
  have eq: "cx_tm_descs ctx' = cx_tm_descs ctx @ [?d]" "cx_descs ctx' = cx_descs ctx" "cx_pack ctx' = cx_pack ctx"
    "cx_opts ctx' = cx_opts ctx" "cx_stages ctx' = cx_stages ?u" "cx_layers ctx' = cx_layers ?u"
    "cx_has_token_embedding ctx' = cx_has_token_embedding ctx"
    "cx_exec_counts ctx' = (cx_exec_counts ctx)(pol_exec_kind p := cx_exec_counts ctx (pol_exec_kind p) + 1)"
    by (simp_all add: ctx' tm_bind_update_fields)
  have max': "bind_max_gpu ctx' = bind_max_gpu ctx" by (simp add: bind_max_gpu_def eq)
  have ly: "cx_layers ctx' ! l = (if te_layer_id e = int l
      then (cx_layers ctx ! l)\<lparr>ly_tensor_count := ly_tensor_count (cx_layers ctx ! l) + 1, ly_has_mxfp4_expert := True\<rparr>
      else cx_layers ctx ! l)" if "l < 43" for l
    using that len c(3,4) by (auto simp: eq tm_bind_update_fields nth_list_update)
  have sg: "cx_stages ctx' ! g = (if te_owning_gpu e = int g
      then count_stage_tensor ((cx_stages ctx ! g)\<lparr>sg_arena_bytes :=
             max (max (sg_arena_bytes (cx_stages ctx ! g)) (tm_weight_end e)) (tm_scale_end e)\<rparr>)
      else cx_stages ctx ! g)" if "g < 8" for g
    using that len c(1,2) mx by (auto simp: eq tm_bind_update_fields nth_list_update)
  have grow: "unat (sg_arena_bytes (cx_stages ctx ! g)) \<le> unat (sg_arena_bytes (cx_stages ctx' ! g))" if "g < 8" for g
    using sg [OF that] by (auto simp: max_def word_le_nat_alt)
  have st': "staged ctx'" using st ly len by (auto simp: staged_def nth_update_same [where f = sg_gpu] eq tm_bind_update_fields)
  have plan: "plan_part ctx' = plan_part ctx"
    by (simp add: plan_part_def eq tm_bind_update_fields map_list_update_same)
  have own: "nat (te_owning_gpu e) < 8" using c(1,2) mx by auto
  have sge: "sg_arena_bytes (cx_stages ctx' ! nat (te_owning_gpu e)) =
      max (max (sg_arena_bytes (cx_stages ctx ! nat (te_owning_gpu e))) (tm_weight_end e)) (tm_scale_end e)"
    using sg [OF own] c(1) by simp
  have dok: "tm_desc_ok ctx' ?d"
    using c sge by (simp add: tm_desc_ok_def Let_def max' word_le_nat_alt [symmetric] le_max_iff_disj)
  have "desc_ok ctx' d" if "desc_ok ctx d" for d
  proof -
    have "nat (pe_owning_gpu (td_entry d)) < 8" using that mx by (auto simp: desc_ok_def Let_def)
    with that le_trans [OF _ grow] show ?thesis by (simp add: desc_ok_def Let_def max')
  qed
  moreover have "tm_desc_ok ctx' d" if "tm_desc_ok ctx d" for d
  proof -
    have "nat (te_owning_gpu (tmd_entry d)) < 8" using that mx by (auto simp: tm_desc_ok_def Let_def)
    with that le_trans [OF _ grow] show ?thesis by (simp add: tm_desc_ok_def Let_def max')
  qed
  ultimately have ds': "\<forall>d \<in> set (cx_descs ctx). desc_ok ctx' d" "\<forall>d \<in> set (cx_tm_descs ctx). tm_desc_ok ctx' d"
    using ds by blast+
  have cnt': "counters_exact ctx'"
  proof -
    have "cx_exec_counts ctx' k = of_nat (exec_tensors ctx' k)" for k
      using cnt by (simp add: counters_exact_def eq exec_tensors_def)
    moreover have "sg_tensor_count (cx_stages ctx' ! g) = of_nat (stage_tensors ctx' g)" if "g < 8" for g
      using cnt that sg [OF that] by (simp add: counters_exact_def eq(1,2) stage_tensors_def)
    moreover have "ly_tensor_count (cx_layers ctx' ! l) = of_nat (layer_tensors ctx' l) \<and>
        ly_has_f32_control (cx_layers ctx' ! l) = layer_has ctx' l DS4_V100_FAMILY_F32_CONTROL \<and>
        ly_has_fp8_dense (cx_layers ctx' ! l) = layer_has ctx' l DS4_V100_FAMILY_FP8_DENSE \<and>
        ly_has_mxfp4_expert (cx_layers ctx' ! l) = layer_has ctx' l DS4_V100_FAMILY_MXFP4_EXPERT \<and>
        ly_has_hc_control (cx_layers ctx' ! l) = layer_has ctx' l DS4_V100_FAMILY_HC_CONTROL" if "l < 43" for l
    proof -
      have has: "layer_has ctx' l f \<longleftrightarrow> layer_has ctx l f \<or> (te_layer_id e = int l \<and> f = DS4_V100_FAMILY_MXFP4_EXPERT)" for f
        by (auto simp: layer_has_def eq)
      have lt: "layer_tensors ctx' l = layer_tensors ctx l + (if te_layer_id e = int l then 1 else 0)"
        by (simp add: layer_tensors_def eq)
      show ?thesis using cnt that unfolding counters_exact_def ly [OF that] has lt by simp
    qed
    moreover have "cx_has_token_embedding ctx' \<longleftrightarrow>
        (\<exists>d \<in> set (cx_descs ctx'). pe_semantic_tensor_id (td_entry d) = ''token_embd.weight'')"
      using cnt by (simp add: counters_exact_def eq)
    ultimately show ?thesis unfolding counters_exact_def by blast
  qed
  show ?thesis using st' cnt' dok ds' plan mx by (simp add: ctx_inv_def max' eq)
qed

section \<open>What opening establishes\<close>

lemma check_device_facts_result:
  assumes "fold_res (check_device_fact facts) [0..<n] ctx = Inr ctx'" and "n \<le> length (cx_stages ctx)"
  shows "ctx' = ctx\<lparr>cx_stages := map (\<lambda>i. if i < n then (cx_stages ctx ! i)
       \<lparr>sg_device_total_bytes := df_total_global_mem (facts ! i)\<rparr> else cx_stages ctx ! i) [0..<length (cx_stages ctx)]\<rparr> \<and>
     (\<forall>i < n. df_visible_id (facts ! i) = int i \<and> df_cc_major (facts ! i) = 7 \<and>
        DS4_V100_MIN_VRAM_BYTES \<le> df_total_global_mem (facts ! i))"
  using assms
proof (induction n arbitrary: ctx')
  case 0
  then show ?case by (simp add: map_nth)
next
  case (Suc n)
  obtain c where c: "fold_res (check_device_fact facts) [0..<n] ctx = Inr c" "check_device_fact facts n c = Inr ctx'"
    using Suc.prems(1) by (auto simp: fold_res_append res_simps)
  note ih = Suc.IH [OF c(1)]
  have n: "n < length (cx_stages ctx)" using Suc.prems(2) by simp
  have st: "cx_stages ctx' = (cx_stages c)[n := (cx_stages c ! n)\<lparr>sg_device_total_bytes := df_total_global_mem (facts ! n)\<rparr>]"
    and upd: "ctx' = c\<lparr>cx_stages := cx_stages ctx'\<rparr>"
    and ok: "df_visible_id (facts ! n) = int n" "df_cc_major (facts ! n) = 7"
      "DS4_V100_MIN_VRAM_BYTES \<le> df_total_global_mem (facts ! n)"
    using c(2) by (auto simp: check_device_fact_def Let_def res_simps not_less)
  have "cx_stages ctx' = map (\<lambda>i. if i < Suc n then (cx_stages ctx ! i)
       \<lparr>sg_device_total_bytes := df_total_global_mem (facts ! i)\<rparr> else cx_stages ctx ! i) [0..<length (cx_stages ctx)]"
    unfolding st using ih n by (intro nth_equalityI) (auto simp: nth_list_update less_Suc_eq)
  with upd ih n ok show ?case by (cases ctx) (auto simp: less_Suc_eq)
qed

text \<open>What a device check can change: the memory of the stages.\<close>

definition with_memory :: "ds4_context \<Rightarrow> (nat \<Rightarrow> u64) \<Rightarrow> ds4_context" where
  "with_memory ctx m = ctx\<lparr>cx_stages := map (\<lambda>i. (cx_stages ctx ! i)\<lparr>sg_device_total_bytes := m i\<rparr>) [0..<length (cx_stages ctx)]\<rparr>"

lemma validate_topology_result:
  assumes "validate_topology ctx = Inr ctx'" and "length (cx_stages ctx) = 8"
  shows "\<exists>m. ctx' = with_memory ctx m \<and>
     (op_require_production_topology (cx_opts ctx) \<longrightarrow>
        (\<exists>facts. op_device_facts (cx_opts ctx) = Some facts \<and> length facts = 8 \<and> op_expected_gpus (cx_opts ctx) = 8 \<and>
           (\<forall>i < 8. m i = df_total_global_mem (facts ! i) \<and> df_cc_major (facts ! i) = 7 \<and>
              DS4_V100_MIN_VRAM_BYTES \<le> m i) \<and>
           (\<forall>i < 7. df_peer_access (facts ! i) ! Suc i \<and> df_peer_access (facts ! Suc i) ! i)))"
proof (cases "op_require_production_topology (cx_opts ctx)")
  case False
  then have "ctx' = ctx" using assms(1) by (simp add: validate_topology_def)
  then have "ctx' = with_memory ctx (\<lambda>i. sg_device_total_bytes (cx_stages ctx ! i))"
    by (cases ctx) (simp add: with_memory_def map_nth)
  with False show ?thesis by blast
next
  case True
  then obtain facts where f: "op_device_facts (cx_opts ctx) = Some facts" "length facts = 8"
    "op_expected_gpus (cx_opts ctx) = 8" "fold_res (check_device_fact facts) [0..<8] ctx = Inr ctx'"
    "fold_res (check_peer_edge facts) [0..<7] () = Inr ()"
    using assms(1)
    by (auto simp: validate_topology_def DS4_V100_EXPECTED_GPUS_def res_simps split: if_splits option.splits)
  note r = check_device_facts_result [OF f(4), unfolded assms(2), OF order_refl]
  have "ctx' = with_memory ctx (\<lambda>i. df_total_global_mem (facts ! i))"
    using r assms(2) by (simp add: with_memory_def cong: map_cong)
  moreover have "\<forall>i < 7. df_peer_access (facts ! i) ! Suc i \<and> df_peer_access (facts ! Suc i) ! i"
    using f(5) by (auto simp: fold_res_unit_iff check_peer_edge_def res_simps)
  ultimately show ?thesis using f r by blast
qed

lemma fold_bind_pack:
  assumes "fold_res (bind_pack_entry pack) es ctx = Inr ctx'" and "ctx_inv ctx"
    and "\<forall>e \<in> set es. 0 \<le> pe_owning_gpu e \<longrightarrow> pe_owning_gpu e < 8 \<longrightarrow>
      entry_end e \<le> unat (sg_arena_bytes (cx_stages ctx ! nat (pe_owning_gpu e)))"
  shows "ctx_inv ctx' \<and> plan_part ctx' = plan_part ctx \<and> cx_tm_descs ctx' = cx_tm_descs ctx \<and>
     map td_entry (cx_descs ctx') = map td_entry (cx_descs ctx) @ es \<and> cx_pack ctx' = cx_pack ctx"
  using assms
proof (induction es arbitrary: ctx)
  case (Cons e es)
  obtain c where c: "bind_pack_entry pack e ctx = Inr c" "fold_res (bind_pack_entry pack) es c = Inr ctx'"
    using Cons.prems(1) by (auto simp: res_simps)
  note s = bind_pack_entry_step [OF c(1) Cons.prems(2)]
  have s': "ctx_inv c \<and> plan_part c = plan_part ctx \<and> cx_tm_descs c = cx_tm_descs ctx \<and>
     map td_entry (cx_descs c) = map td_entry (cx_descs ctx) @ [e] \<and> cx_pack c = cx_pack ctx"
    "map sg_arena_bytes (cx_stages c) = map sg_arena_bytes (cx_stages ctx)"
    using s Cons.prems(3) by auto
  have len: "length (cx_stages ctx) = 8" "length (cx_stages c) = 8"
    using Cons.prems(2) s' by (auto simp: ctx_inv_def staged_def)
  have "sg_arena_bytes (cx_stages c ! g) = sg_arena_bytes (cx_stages ctx ! g)" if "g < 8" for g
    using arg_cong [OF s'(2), of "\<lambda>xs. xs ! g"] that len by simp
  then have "\<forall>x \<in> set es. 0 \<le> pe_owning_gpu x \<longrightarrow> pe_owning_gpu x < 8 \<longrightarrow>
      entry_end x \<le> unat (sg_arena_bytes (cx_stages c ! nat (pe_owning_gpu x)))"
    using Cons.prems(3) by simp
  from Cons.IH [OF c(2) conjunct1 [OF s'(1)] this] s'(1) show ?case by simp
qed simp

lemma fold_bind_tm_pack:
  assumes "fold_res bind_tm_pack_entry es ctx = Inr ctx'" and "ctx_inv ctx"
  shows "ctx_inv ctx' \<and> plan_part ctx' = plan_part ctx \<and> cx_descs ctx' = cx_descs ctx \<and>
     map tmd_entry (cx_tm_descs ctx') = map tmd_entry (cx_tm_descs ctx) @ es \<and> cx_pack ctx' = cx_pack ctx"
  using assms
proof (induction es arbitrary: ctx)
  case (Cons e es)
  then show ?case using bind_tm_pack_entry_step by (fastforce simp: res_simps)
qed simp

text \<open>The rows a context must have bound: those of the index its options name.\<close>

definition pack_rows :: "file_system \<Rightarrow> ds4_context_options \<Rightarrow> ds4_pack_entry list" where
  "pack_rows fs opts = (case op_pack_index_path opts of None \<Rightarrow> []
     | Some path \<Rightarrow> if path = [] then []
                    else (case ds4_pack_open fs (Some path) of Inl _ \<Rightarrow> [] | Inr pack \<Rightarrow> pk_entries pack))"

definition tm_pack_rows :: "file_system \<Rightarrow> ds4_context_options \<Rightarrow> ds4_tm_pack_entry list" where
  "tm_pack_rows fs opts = (case op_turbomind_pack_index_path opts of None \<Rightarrow> []
     | Some path \<Rightarrow> if path = [] then []
                    else (case ds4_tm_pack_open fs (Some path) of Inl _ \<Rightarrow> [] | Inr pack \<Rightarrow> tp_entries pack))"

lemma ctx_inv_no_descs:
  assumes "staged ctx" "bind_max_gpu ctx \<le> 8" "counters_exact ctx" "cx_descs ctx = []" "cx_tm_descs ctx = []"
  shows "ctx_inv ctx"
  using assms by (simp add: ctx_inv_def)

lemma bind_pack_result:
  assumes b: "bind_pack fs ctx = Inr ctx'" and inv: "ctx_inv ctx"
    and empty: "cx_descs ctx = []" "cx_tm_descs ctx = []"
  shows "ctx_inv ctx' \<and> plan_part ctx' = plan_part ctx \<and> cx_tm_descs ctx' = [] \<and>
     map td_entry (cx_descs ctx') = pack_rows fs (cx_opts ctx)"
proof (cases "op_pack_index_path (cx_opts ctx) = None \<or> op_pack_index_path (cx_opts ctx) = Some []")
  case True
  then have "ctx' = ctx" "pack_rows fs (cx_opts ctx) = []"
    using b by (auto simp: bind_pack_def pack_rows_def)
  then show ?thesis using inv empty by simp
next
  case False
  then obtain path where path: "op_pack_index_path (cx_opts ctx) = Some path" "path \<noteq> []" by auto
  then obtain pack where pk: "ds4_pack_open fs (Some path) = Inr pack"
    using b by (auto simp: bind_pack_def split: sum.splits)
  define c where "c = ctx\<lparr>cx_pack := Some pack, cx_stages := map (\<lambda>i. (cx_stages ctx ! i)
      \<lparr>sg_arena_bytes := ds4_pack_arena_bytes pack (int i)\<rparr>) [0..<8]\<rparr>"
  have f: "fold_res (bind_pack_entry pack) (pk_entries pack) c = Inr ctx'"
    using b path pk by (simp add: bind_pack_def ds4_pack_for_each_def c_def DS4_V100_EXPECTED_GPUS_def)
  have len: "length (cx_stages ctx) = 8" using inv by (simp add: ctx_inv_def staged_def)
  have "counters_exact c"
    using inv by (simp add: ctx_inv_def counters_exact_def c_def exec_tensors_def stage_tensors_def layer_tensors_def layer_has_def)
  moreover have "staged c" "bind_max_gpu c \<le> 8"
    using inv by (auto simp: ctx_inv_def staged_def c_def bind_max_gpu_def)
  ultimately have ci: "ctx_inv c" using empty by (intro ctx_inv_no_descs) (simp_all add: c_def)
  have plan: "plan_part c = plan_part ctx"
    using len by (auto simp: plan_part_def c_def intro!: nth_equalityI)
  have wf: "pack_wf pack" using ds4_pack_open_wf [OF pk] by blast
  have "\<forall>e \<in> set (pk_entries pack). 0 \<le> pe_owning_gpu e \<longrightarrow> pe_owning_gpu e < 8 \<longrightarrow>
      entry_end e \<le> unat (sg_arena_bytes (cx_stages c ! nat (pe_owning_gpu e)))"
    using arena_covers_entry [OF wf] by (auto simp: c_def)
  from fold_bind_pack [OF f ci this] show ?thesis
    using plan path pk empty by (simp add: c_def pack_rows_def)
qed

lemma bind_tm_pack_result:
  assumes b: "bind_tm_pack fs ctx = Inr ctx'" and inv: "ctx_inv ctx" and empty: "cx_tm_descs ctx = []"
  shows "ctx_inv ctx' \<and> plan_part ctx' = plan_part ctx \<and> cx_descs ctx' = cx_descs ctx \<and>
     map tmd_entry (cx_tm_descs ctx') = tm_pack_rows fs (cx_opts ctx)"
proof (cases "op_turbomind_pack_index_path (cx_opts ctx) = None \<or> op_turbomind_pack_index_path (cx_opts ctx) = Some []")
  case True
  then have "ctx' = ctx" "tm_pack_rows fs (cx_opts ctx) = []"
    using b by (auto simp: bind_tm_pack_def tm_pack_rows_def)
  then show ?thesis using inv empty by simp
next
  case False
  then obtain path where path: "op_turbomind_pack_index_path (cx_opts ctx) = Some path" "path \<noteq> []" by auto
  then obtain pack where pk: "ds4_tm_pack_open fs (Some path) = Inr pack"
    using b by (auto simp: bind_tm_pack_def split: sum.splits)
  let ?c = "ctx\<lparr>cx_tm_pack := Some pack\<rparr>"
  have f: "fold_res bind_tm_pack_entry (tp_entries pack) ?c = Inr ctx'"
    using b path pk by (simp add: bind_tm_pack_def ds4_tm_pack_for_each_def)
  have "ctx_inv ?c"
  proof -
    have "staged ?c = staged ctx" "bind_max_gpu ?c = bind_max_gpu ctx" "counters_exact ?c = counters_exact ctx"
      "desc_ok ?c = desc_ok ctx" "tm_desc_ok ?c = tm_desc_ok ctx"
      by (simp_all add: fun_eq_iff staged_def bind_max_gpu_def counters_exact_def exec_tensors_def
          stage_tensors_def layer_tensors_def layer_has_def desc_ok_def tm_desc_ok_def)
    then show ?thesis using inv by (simp add: ctx_inv_def)
  qed
  from fold_bind_tm_pack [OF f this] show ?thesis
    using path pk empty by (simp add: tm_pack_rows_def plan_part_def)
qed

definition open_options :: "ds4_context_options option \<Rightarrow> ds4_context_options" where
  "open_options opts = (case opts of Some o' \<Rightarrow> o' | None \<Rightarrow> ds4_context_options_init)"

abbreviation planned_context :: "ds4_context_options \<Rightarrow> ds4_context" where
  "planned_context opts \<equiv> apply_derived_kv_plan (init_stage_map (new_context opts))"

lemma kv_plan_counters:
  assumes "staged ctx"
  shows "staged (apply_derived_kv_plan ctx) \<and> cx_opts (apply_derived_kv_plan ctx) = cx_opts ctx"
  using assms derived_plan(1,2) by (cases "op_kv_ctx_tokens (cx_opts ctx) = 0") (auto simp: apply_derived_kv_plan_def)

text \<open>The part of a context that planning leaves alone.\<close>

definition bind_part where
  "bind_part ctx =
     (cx_descs ctx, cx_tm_descs ctx, cx_exec_counts ctx, cx_has_token_embedding ctx,
      map sg_tensor_count (cx_stages ctx),
      map (\<lambda>li. (ly_tensor_count li, ly_has_f32_control li, ly_has_fp8_dense li,
                 ly_has_mxfp4_expert li, ly_has_hc_control li)) (cx_layers ctx))"

lemma fold_same: "(\<And>x s. P (f x s) = P s) \<Longrightarrow> P (fold f xs s) = P s"
  by (induction xs arbitrary: s) auto

lemma plan_bind_part:
  "bind_part (kv_accumulate_layer l ctx) = bind_part ctx"
  "bind_part (fst (kv_view_layer l st)) = bind_part (fst st)"
  "bind_part (ctx\<lparr>cx_stages := map kv_reset_stage (cx_stages ctx)\<rparr>) = bind_part ctx"
  "bind_part (ctx\<lparr>cx_stages := map kv_plan_stage (cx_stages ctx)\<rparr>) = bind_part ctx"
  by (simp_all add: bind_part_def kv_accumulate_layer_def kv_view_layer_def kv_stage_add_def kv_reset_stage_def
      kv_plan_stage_def Let_def map_list_update_same comp_def split: prod.splits)

lemma apply_derived_kv_plan_bind_part: "bind_part (apply_derived_kv_plan ctx) = bind_part ctx"
proof -
  have "bind_part (fst (fold kv_view_layer ls st)) = bind_part (fst st)" for ls st
    by (rule fold_same [where P = "\<lambda>st. bind_part (fst st)"]) (rule plan_bind_part(2))
  moreover have "bind_part (fold kv_accumulate_layer ls c) = bind_part c" for ls c
    by (rule fold_same) (rule plan_bind_part(1))
  ultimately show ?thesis by (simp add: apply_derived_kv_plan_def plan_bind_part Let_def)
qed

lemma init_stage_count: "sg_tensor_count (init_stage opts i s) = sg_tensor_count s"
  by (simp add: init_stage_def Let_def)

lemma init_stage_map_bind_part:
  assumes "length (cx_stages ctx) = DS4_V100_EXPECTED_GPUS" "length (cx_layers ctx) = DS4_V100_N_LAYERS"
  shows "bind_part (init_stage_map ctx) = bind_part ctx"
proof -
  have "map (\<lambda>i. f (xs ! i)) [0..<length xs] = map f xs" for f :: "'a \<Rightarrow> 'b" and xs
    by (rule nth_equalityI) auto
  from this [of sg_tensor_count "cx_stages ctx"] this [of _ "cx_layers ctx"] show ?thesis
    by (simp add: bind_part_def init_stage_map_def init_stage_count comp_def assms)
qed

lemma planned_context_parts:
  "staged (planned_context opts)" "cx_opts (planned_context opts) = opts"
  "cx_descs (planned_context opts) = []" "cx_tm_descs (planned_context opts) = []"
  "counters_exact (planned_context opts)"
proof -
  have c: "cx_opts (init_stage_map (new_context opts)) = opts"
    by (simp add: init_stage_map_def new_context_def)
  show st: "staged (planned_context opts)" and "cx_opts (planned_context opts) = opts"
    using kv_plan_counters [OF staged_init] c by auto
  have "bind_part (planned_context opts) = bind_part (new_context opts)"
    unfolding apply_derived_kv_plan_bind_part
    by (rule init_stage_map_bind_part) (simp_all add: new_context_def)
  also have "\<dots> = ([], [], \<lambda>_. 0, False, replicate DS4_V100_EXPECTED_GPUS 0,
      replicate DS4_V100_N_LAYERS (0, False, False, False, False))"
    by (simp add: bind_part_def new_context_def zero_stage_def zero_layer_def)
  finally have bp: "bind_part (planned_context opts) = ([], [], \<lambda>_. 0, False, replicate 8 0,
      replicate 43 (0, False, False, False, False))"
    unfolding DS4_V100_EXPECTED_GPUS_def DS4_V100_N_LAYERS_def .
  then show d: "cx_descs (planned_context opts) = []" "cx_tm_descs (planned_context opts) = []"
    by (simp_all add: bind_part_def)
  have len: "length (cx_stages (planned_context opts)) = 8" "length (cx_layers (planned_context opts)) = 43"
    using st by (auto simp: staged_def)
  have "sg_tensor_count (cx_stages (planned_context opts) ! g) = 0" if "g < 8" for g
    using arg_cong [OF bp, of "\<lambda>p. fst (snd (snd (snd (snd p)))) ! g"] that len by (simp add: bind_part_def)
  moreover have "(\<lambda>li. (ly_tensor_count li, ly_has_f32_control li, ly_has_fp8_dense li,
      ly_has_mxfp4_expert li, ly_has_hc_control li)) (cx_layers (planned_context opts) ! l) = (0, False, False, False, False)"
    if "l < 43" for l
    using arg_cong [OF bp, of "\<lambda>p. snd (snd (snd (snd (snd p)))) ! l"] that len by (simp add: bind_part_def)
  ultimately show "counters_exact (planned_context opts)"
    using bp d by (simp add: counters_exact_def bind_part_def exec_tensors_def stage_tensors_def layer_tensors_def layer_has_def)
qed

text \<open>A successful open, in one place.\<close>

lemma ds4_context_open_result:
  assumes "ds4_context_open fs opts = Inr ctx"
  shows "ctx_inv ctx" "cx_opts ctx = open_options opts"
    "0 < op_expected_gpus (open_options opts)" "op_expected_gpus (open_options opts) \<le> 8"
    "op_kv_ctx_tokens (open_options opts) \<noteq> 0 \<longrightarrow> op_kv_active_slots (open_options opts) \<noteq> 0"
    "map td_entry (cx_descs ctx) = pack_rows fs (open_options opts)"
    "map tmd_entry (cx_tm_descs ctx) = tm_pack_rows fs (open_options opts)"
    "\<forall>g < 8. sg_kv_arena (cx_stages ctx ! g) = sg_kv_arena (cx_stages (planned_context (open_options opts)) ! g)"
    "\<forall>l < 43. ly_kv_view (cx_layers ctx ! l) = ly_kv_view (cx_layers (planned_context (open_options opts)) ! l)"
    "validate_memory_budget ctx = Inr ()"
    "op_require_production_topology (open_options opts) \<longrightarrow>
        (\<exists>facts. op_device_facts (open_options opts) = Some facts \<and> length facts = 8 \<and>
           op_expected_gpus (open_options opts) = 8 \<and>
           (\<forall>i < 8. sg_device_total_bytes (cx_stages ctx ! i) = df_total_global_mem (facts ! i) \<and>
              df_cc_major (facts ! i) = 7 \<and> DS4_V100_MIN_VRAM_BYTES \<le> df_total_global_mem (facts ! i)) \<and>
           (\<forall>i < 7. df_peer_access (facts ! i) ! Suc i \<and> df_peer_access (facts ! Suc i) ! i))"
proof -
  let ?o = "open_options opts"
  let ?p = "planned_context ?o"
  obtain c1 c2 where o: "0 < op_expected_gpus ?o" "op_expected_gpus ?o \<le> 8"
      "op_kv_ctx_tokens ?o \<noteq> 0 \<longrightarrow> op_kv_active_slots ?o \<noteq> 0"
    and s: "validate_topology ?p = Inr c1" "bind_pack fs c1 = Inr c2" "bind_tm_pack fs c2 = Inr ctx"
    and bud: "validate_memory_budget ctx = Inr ()"
    using assms by (auto simp: ds4_context_open_def open_options_def [symmetric] Let_def res_simps
        DS4_V100_EXPECTED_GPUS_def not_le not_less)
  note p = planned_context_parts [of ?o]
  have len: "length (cx_stages ?p) = 8" "length (cx_layers ?p) = 43" using p(1) by (auto simp: staged_def)
  obtain m where m: "c1 = with_memory ?p m"
    and top: "op_require_production_topology ?o \<longrightarrow>
        (\<exists>facts. op_device_facts ?o = Some facts \<and> length facts = 8 \<and> op_expected_gpus ?o = 8 \<and>
           (\<forall>i < 8. m i = df_total_global_mem (facts ! i) \<and> df_cc_major (facts ! i) = 7 \<and>
              DS4_V100_MIN_VRAM_BYTES \<le> m i) \<and>
           (\<forall>i < 7. df_peer_access (facts ! i) ! Suc i \<and> df_peer_access (facts ! Suc i) ! i))"
    using validate_topology_result [OF s(1) len(1)] p(2) by auto
  have c1: "cx_opts c1 = ?o" "cx_descs c1 = []" "cx_tm_descs c1 = []" "cx_layers c1 = cx_layers ?p"
    "length (cx_stages c1) = 8"
    "\<And>g. g < 8 \<Longrightarrow> cx_stages c1 ! g = (cx_stages ?p ! g)\<lparr>sg_device_total_bytes := m g\<rparr>"
    "cx_exec_counts c1 = cx_exec_counts ?p" "cx_has_token_embedding c1 = cx_has_token_embedding ?p"
    using p len by (simp_all add: m with_memory_def)
  have "staged c1" using p(1) c1 by (simp add: staged_def)
  moreover have "counters_exact c1"
    using p(5) by (simp add: counters_exact_def c1 exec_tensors_def stage_tensors_def layer_tensors_def layer_has_def p(3,4))
  ultimately have inv1: "ctx_inv c1" using o c1 by (intro ctx_inv_no_descs) (simp_all add: bind_max_gpu_def)
  note r2 = bind_pack_result [OF s(2) inv1 c1(2,3)]
  have inv2: "ctx_inv c2" "cx_tm_descs c2 = []" using r2 by auto
  note r3 = bind_tm_pack_result [OF s(3) inv2]
  have plan: "plan_part ctx = plan_part c1" using r2 r3 by simp
  show "ctx_inv ctx" using r3 by blast
  show opt: "cx_opts ctx = ?o" using plan c1(1) by (simp add: plan_part_def)
  have opt2: "cx_opts c2 = ?o" using r2 c1(1) by (simp add: plan_part_def)
  show "0 < op_expected_gpus ?o" "op_expected_gpus ?o \<le> 8" "op_kv_ctx_tokens ?o \<noteq> 0 \<longrightarrow> op_kv_active_slots ?o \<noteq> 0"
    "validate_memory_budget ctx = Inr ()" using o bud by auto
  show "map td_entry (cx_descs ctx) = pack_rows fs ?o" "map tmd_entry (cx_tm_descs ctx) = tm_pack_rows fs ?o"
    using r2 r3 c1(1) opt2 by simp_all
  have len': "length (cx_stages ctx) = 8" "length (cx_layers ctx) = 43"
    using r3 by (auto simp: ctx_inv_def staged_def)
  have stg: "sg_kv_arena (cx_stages ctx ! g) = sg_kv_arena (cx_stages c1 ! g) \<and>
      sg_device_total_bytes (cx_stages ctx ! g) = sg_device_total_bytes (cx_stages c1 ! g)" if "g < 8" for g
    using arg_cong [OF plan, of "\<lambda>q. fst (snd q) ! g"] that len' c1(5) by (simp add: plan_part_def)
  have lay: "ly_kv_view (cx_layers ctx ! l) = ly_kv_view (cx_layers c1 ! l)" if "l < 43" for l
    using arg_cong [OF plan, of "\<lambda>q. snd (snd q) ! l"] that len' len c1(4) by (simp add: plan_part_def)
  show "\<forall>g < 8. sg_kv_arena (cx_stages ctx ! g) = sg_kv_arena (cx_stages ?p ! g)" using stg c1(6) by simp
  show "\<forall>l < 43. ly_kv_view (cx_layers ctx ! l) = ly_kv_view (cx_layers ?p ! l)" using lay c1(4) by simp
  show "op_require_production_topology ?o \<longrightarrow>
        (\<exists>facts. op_device_facts ?o = Some facts \<and> length facts = 8 \<and> op_expected_gpus ?o = 8 \<and>
           (\<forall>i < 8. sg_device_total_bytes (cx_stages ctx ! i) = df_total_global_mem (facts ! i) \<and>
              df_cc_major (facts ! i) = 7 \<and> DS4_V100_MIN_VRAM_BYTES \<le> df_total_global_mem (facts ! i)) \<and>
           (\<forall>i < 7. df_peer_access (facts ! i) ! Suc i \<and> df_peer_access (facts ! Suc i) ! i))"
    using top stg c1(6) by (auto 0 4)
qed

section \<open>The skeleton check\<close>

lemma layer_status_ok_iff:
  "layer_status n l li = ''OK'' \<longleftrightarrow> ly_stage_id li = ds4_stage_for_layer (int l) \<and>
     (0 < n \<longrightarrow> ly_tensor_count li \<noteq> 0 \<and> ly_has_f32_control li \<and> ly_has_fp8_dense li \<and>
        ly_has_mxfp4_expert li \<and> ly_has_hc_control li)"
  by (auto simp: layer_status_def)

lemma layer_has_counts: "layer_has ctx l f \<Longrightarrow> 0 < layer_tensors ctx l"
  by (auto simp: layer_has_def layer_tensors_def filter_empty_conv)

lemma layer_tensors_le: "layer_tensors ctx l \<le> length (cx_descs ctx) + length (cx_tm_descs ctx)"
  by (simp add: layer_tensors_def add_mono)

lemma validate_layer_skeleton_iff:
  assumes "ctx_inv ctx" and n: "0 < length (cx_descs ctx) + length (cx_tm_descs ctx)"
    "length (cx_descs ctx) + length (cx_tm_descs ctx) < 18446744073709551616"
  shows "ds4_context_validate_layer_skeleton ctx = Inr () \<longleftrightarrow>
     (\<forall>l < 43. \<forall>f \<in> {DS4_V100_FAMILY_F32_CONTROL, DS4_V100_FAMILY_FP8_DENSE, DS4_V100_FAMILY_MXFP4_EXPERT,
                DS4_V100_FAMILY_HC_CONTROL}. layer_has ctx l f) \<and>
     (\<exists>d \<in> set (cx_descs ctx). pe_semantic_tensor_id (td_entry d) = ''token_embd.weight'')"
proof -
  have pos: "0 < ds4_context_tensor_count (Some ctx)"
    using n of_nat_u64_eq_0_iff [OF n(2)] by (simp add: ds4_context_tensor_count_def word_gt_0)
  have st: "ly_stage_id (cx_layers ctx ! l) = ds4_stage_for_layer (int l)" if "l < 43" for l
    using assms(1) that by (simp add: ctx_inv_def staged_def)
  have cnt: "counters_exact ctx" using assms(1) by (simp add: ctx_inv_def)
  have pos_l: "(of_nat (layer_tensors ctx l) :: u64) \<noteq> 0" if "layer_has ctx l f" for l f
    using layer_has_counts [OF that] of_nat_u64_eq_0_iff [of "layer_tensors ctx l"] layer_tensors_le [of ctx l] n(2) by simp
  have "ds4_context_validate_layer_skeleton ctx = Inr () \<longleftrightarrow>
      (\<forall>l < 43. layer_status (ds4_context_tensor_count (Some ctx)) l (cx_layers ctx ! l) = ''OK'') \<and>
      cx_has_token_embedding ctx"
    using pos by (auto simp: ds4_context_validate_layer_skeleton_def Let_def fold_res_unit_iff res_simps DS4_V100_N_LAYERS_def)
  also have "\<dots> \<longleftrightarrow> (\<forall>l < 43. ly_tensor_count (cx_layers ctx ! l) \<noteq> 0 \<and> ly_has_f32_control (cx_layers ctx ! l) \<and>
      ly_has_fp8_dense (cx_layers ctx ! l) \<and> ly_has_mxfp4_expert (cx_layers ctx ! l) \<and> ly_has_hc_control (cx_layers ctx ! l)) \<and>
      cx_has_token_embedding ctx"
    using pos st by (auto simp: layer_status_ok_iff)
  also have "\<dots> \<longleftrightarrow> (\<forall>l < 43. (of_nat (layer_tensors ctx l) :: u64) \<noteq> 0 \<and>
        (\<forall>f \<in> {DS4_V100_FAMILY_F32_CONTROL, DS4_V100_FAMILY_FP8_DENSE, DS4_V100_FAMILY_MXFP4_EXPERT,
                DS4_V100_FAMILY_HC_CONTROL}. layer_has ctx l f)) \<and>
     (\<exists>d \<in> set (cx_descs ctx). pe_semantic_tensor_id (td_entry d) = ''token_embd.weight'')"
    using cnt by (simp add: counters_exact_def)
  also have "\<dots> \<longleftrightarrow> (\<forall>l < 43. \<forall>f \<in> {DS4_V100_FAMILY_F32_CONTROL, DS4_V100_FAMILY_FP8_DENSE, DS4_V100_FAMILY_MXFP4_EXPERT,
                DS4_V100_FAMILY_HC_CONTROL}. layer_has ctx l f) \<and>
     (\<exists>d \<in> set (cx_descs ctx). pe_semantic_tensor_id (td_entry d) = ''token_embd.weight'')"
    using pos_l by blast
  finally show ?thesis .
qed

end
