(* ===== verification/Context_Properties.thy ===== *)
theory Context_Properties
  imports Context Pack_Properties
begin

text \<open>
  What the engine context promises (\<open>src/engine/context.c\<close>): the KV layout, the bound tensors and
  the counters of an open context, its lookups, the layer skeleton and the memory budget, together
  with the shape syntax and the byte sizes the binding checks rest on.
\<close>

section \<open>Shapes print and parse\<close>

definition show_shape :: "u64 list \<Rightarrow> string" where
  "show_shape dims = CHR ''['' # join_with CHR ''x'' (map (\<lambda>d. show_nat (unat d)) dims) @ '']''"

lemma digits_value_ge: "acc \<le> digits_value acc ds"
proof (induction ds arbitrary: acc)
  case (Cons c ds)
  have "acc \<le> acc * 10 + digit_val c" by simp
  also have "\<dots> \<le> digits_value (acc * 10 + digit_val c) ds" by (rule Cons.IH)
  finally show ?case by simp
qed simp

lemma digit_overflow_iff:
  assumes "d < 10"
  shows "(UINT64_MAX - of_nat d) div 10 < dim \<longleftrightarrow> U64_TOP < unat dim * 10 + d"
proof -
  have d: "unat (of_nat d :: u64) = d" using assms by (simp add: unat_of_nat_u64)
  have "unat ((UINT64_MAX - of_nat d) div 10) = (U64_TOP - d) div 10"
    by (simp add: unat_div unat_max_minus d)
  then show ?thesis using assms by (simp add: word_less_nat_alt div_less_iff_less_mult) linarith
qed

lemma shape_dim_digits:
  assumes "list_all isdigit ds" and "rest = [] \<or> \<not> isdigit (hd rest)"
    and "digits_value (unat dim) ds \<le> U64_TOP"
  shows "shape_dim dim (ds @ rest) = Some (of_nat (digits_value (unat dim) ds), rest)"
  using assms(1,3)
proof (induction ds arbitrary: dim)
  case Nil
  then show ?case using assms(2) by (cases rest) auto
next
  case (Cons c ds)
  let ?d = "digit_val c"
  have d: "?d < 10" using Cons.prems(1) by (auto simp: isdigit_def digit_val_def)
  have le: "unat dim * 10 + ?d \<le> U64_TOP"
    using Cons.prems(2) digits_value_ge [of "unat dim * 10 + ?d" ds] by simp
  have "unat (dim * 10) = unat dim * 10" using le by (subst unat_times_no_overflow) simp_all
  moreover have "unat (of_nat ?d :: u64) = ?d" using d by (simp add: unat_of_nat_u64)
  ultimately have v: "unat (dim * 10 + of_nat ?d) = unat dim * 10 + ?d"
    using le by (subst unat_plus_no_overflow) simp_all
  have "shape_dim (dim * 10 + of_nat ?d) (ds @ rest) = Some (of_nat (digits_value (unat (dim * 10 + of_nat ?d)) ds), rest)"
    using Cons.prems by (intro Cons.IH) (simp_all add: v)
  moreover have "\<not> (UINT64_MAX - of_nat ?d) div 10 < dim" using le digit_overflow_iff [OF d, of dim] by simp
  ultimately show ?case using Cons.prems(1) by (simp add: v Let_def)
qed

lemma shape_dim_show:
  "rest = [] \<or> \<not> isdigit (hd rest) \<Longrightarrow> shape_dim 0 (show_nat (unat d) @ rest) = Some (d, rest)"
  using shape_dim_digits [OF show_nat_isdigit [of "unat d"], of rest 0] unat_u64_bound [of d] by simp

lemma shape_dims_join:
  assumes "dims \<noteq> []" and "\<forall>d \<in> set dims. d \<noteq> 0" and "length acc + length dims \<le> cap"
    and "unat product * prod_list (map unat dims) \<le> U64_TOP"
  shows "shape_dims (join_with CHR ''x'' (map (\<lambda>d. show_nat (unat d)) dims) @ '']'') cap acc product =
     Some (acc @ dims, product * prod_list dims)"
  using assms
proof (induction dims arbitrary: acc product)
  case (Cons d ds)
  let ?tail = "if ds = [] then '']'' else CHR ''x'' # join_with CHR ''x'' (map (\<lambda>d. show_nat (unat d)) ds) @ '']''"
  let ?p = "show_nat (unat d) @ ?tail"
  have str: "join_with CHR ''x'' (map (\<lambda>d. show_nat (unat d)) (d # ds)) @ '']'' = ?p"
    by (cases ds) auto
  obtain c cs where c: "show_nat (unat d) = c # cs" using show_nat_nonempty by (cases "show_nat (unat d)") auto
  have dig: "isdigit c" using show_nat_isdigit [of "unat d"] c by simp
  have nb: "c \<noteq> CHR '']''" using dig by (auto simp: isdigit_def byte_def)
  have tl: "?tail = [] \<or> \<not> isdigit (hd ?tail)" by (simp add: isdigit_def byte_def)
  have sd: "shape_dim 0 ?p = Some (d, ?tail)" by (rule shape_dim_show [OF tl])
  have ds_pos: "0 < prod_list (map unat ds)"
    using Cons.prems(2) by (induction ds) (auto simp: unat_gt_0)
  have "unat product * unat d \<le> unat product * unat d * prod_list (map unat ds)" using ds_pos by simp
  also have "\<dots> \<le> U64_TOP" using Cons.prems(4) by (simp add: mult.assoc)
  finally have le: "unat product * unat d \<le> U64_TOP" .
  have no: "\<not> UINT64_MAX div d < product"
    using le Cons.prems(2) u64_mul_overflow_iff [of d product] by (simp add: mult.commute)
  have step: "shape_dims ?p cap acc product =
      (case ?tail of [] \<Rightarrow> None | r # rs \<Rightarrow>
         if r = CHR ''x'' then shape_dims rs cap (acc @ [d]) (product * d)
         else if r \<noteq> CHR '']'' then None else shape_dims ?tail cap (acc @ [d]) (product * d))"
    using sd Cons.prems(2,3) no dig nb c by (subst shape_dims.simps) auto
  show ?case
  proof (cases "ds = []")
    case True
    then show ?thesis unfolding str step by (simp add: shape_dims.simps [of "'']''"])
  next
    case False
    have "unat (product * d) = unat product * unat d" using le by (rule unat_times_no_overflow)
    then have "shape_dims (join_with CHR ''x'' (map (\<lambda>d. show_nat (unat d)) ds) @ '']'') cap (acc @ [d]) (product * d) =
        Some ((acc @ [d]) @ ds, product * d * prod_list ds)"
      using Cons.prems False by (intro Cons.IH) (auto simp: mult.assoc)
    then show ?thesis unfolding str step using False by (simp add: mult.assoc)
  qed
qed simp

text \<open>
  A printed shape parses back: for up to four non-zero dimensions whose product fits 64 bits,
  the parser returns exactly the dimensions and their product.
\<close>

theorem parse_shape_round_trip:
  assumes "dims \<noteq> []" and "length dims \<le> 4" and "\<forall>d \<in> set dims. d \<noteq> 0"
    and "prod_list (map unat dims) < 2 ^ 64"
  shows "parse_shape_dims (show_shape dims) DS4_V100_MAX_SHAPE_DIMS = Some (dims, prod_list dims)"
  using shape_dims_join [of dims "[]" 4 1] assms
  by (simp add: parse_shape_dims_def show_shape_def DS4_V100_MAX_SHAPE_DIMS_def)

theorem parse_shape_round_trip_witness:
  "parse_shape_dims ''[7168x2048x256]'' DS4_V100_MAX_SHAPE_DIMS = Some ([7168, 2048, 256], 3758096384)"
  using parse_shape_round_trip [of "[7168, 2048, 256]"]
  by (simp add: show_shape_def show_nat.simps digit_char_def)

text \<open>
  The byte size of a tensor, where the size function gives one, is the exact size of its
  format: two bytes per bf16 element, four per f32 or i32 element, 17 bytes per block of 32 MXFP4
  elements, and one byte per FP8 element plus one per block of 128, the last one rounded up unless
  the element count is within 127 of \<open>2 ^ 64\<close>.
\<close>

theorem dtype_bytes_exact:
  assumes "dtype_bytes dtype n = Some b"
  shows "case dtype of
       DS4_V100_SOURCE_BF16 \<Rightarrow> unat b = 2 * unat n
     | DS4_V100_SOURCE_F32 \<Rightarrow> unat b = 4 * unat n
     | DS4_V100_SOURCE_I32 \<Rightarrow> unat b = 4 * unat n
     | DS4_V100_SOURCE_F8_E4M3_B128 \<Rightarrow>
         unat b = unat n + (if unat n + 127 < 2 ^ 64 then (unat n + 127) div 128 else 0)
     | DS4_V100_SOURCE_MXFP4 \<Rightarrow> 32 dvd unat n \<and> unat b = unat n div 32 * 17
     | DS4_V100_SOURCE_FP4 \<Rightarrow> 32 dvd unat n \<and> unat b = unat n div 32 * 17
     | DS4_V100_SOURCE_UNKNOWN \<Rightarrow> False"
proof -
  have mul: "\<not> UINT64_MAX div k < n \<Longrightarrow> k \<noteq> 0 \<Longrightarrow> unat (n * k) = unat n * unat k" for k :: u64
    using u64_mul_overflow_iff [of k n] unat_times_no_overflow [of n k] by (simp add: mult.commute)
  have fp4: "32 dvd unat n \<and> unat (n * 17 div 32) = unat n div 32 * 17"
    if "n mod 32 = 0" "\<not> UINT64_MAX div 17 < n"
  proof -
    have d: "32 dvd unat n" using arg_cong [OF that(1), of unat] by (simp add: unat_mod dvd_eq_mod_eq_0)
    then show ?thesis using mul [OF that(2)] by (auto simp: unat_div elim!: dvdE)
  qed
  have f8: "unat (n + (n + 127) div 128) = unat n + (if unat n + 127 < 2 ^ 64 then (unat n + 127) div 128 else 0)"
    if "\<not> UINT64_MAX - (n + 127) div 128 < n"
  proof -
    have "unat (n + (n + 127) div 128) = unat n + unat ((n + 127) div 128)"
      using that u64_add_overflow_iff [of "(n + 127) div 128" n] by (intro unat_plus_no_overflow) (simp add: add.commute)
    moreover have "unat (n + 127) = (unat n + 127) mod 2 ^ 64" by (simp add: unat_word_ariths)
    moreover have "(unat n + 127) mod 2 ^ 64 div 128 = (if unat n + 127 < 2 ^ 64 then (unat n + 127) div 128 else 0)"
    proof (cases "unat n + 127 < 2 ^ 64")
      case False
      then have "(unat n + 127) mod 2 ^ 64 = unat n + 127 - 2 ^ 64"
        using unat_u64_bound [of n] by (subst le_mod_geq) auto
      then show ?thesis using False unat_u64_bound [of n] by simp
    qed simp
    ultimately show ?thesis by (simp add: unat_div)
  qed
  show ?thesis
    using assms mul [of 2] mul [of 4] fp4 f8
    by (auto simp: dtype_bytes_def mult.commute split: ds4_source_dtype.splits if_splits)
qed

theorem dtype_bytes_exact_witness:
  "unat (the (dtype_bytes DS4_V100_SOURCE_MXFP4 64)) = 34"
proof -
  have "dtype_bytes DS4_V100_SOURCE_MXFP4 64 = Some 34" by code_simp
  from dtype_bytes_exact [OF this] this show ?thesis by simp
qed

section \<open>Example contexts\<close>

definition example_options :: ds4_context_options where
  "example_options = ds4_context_options_init\<lparr>op_kv_ctx_tokens := 4096, op_kv_active_slots := 2\<rparr>"

definition example_facts :: "ds4_device_fact list" where
  "example_facts = map (\<lambda>i. \<lparr>df_visible_id = int i, df_cc_major = 7, df_cc_minor = 0,
     df_total_global_mem = 34359738368, df_pci_bus_id = '''', df_uuid = '''',
     df_peer_access = replicate 8 True\<rparr>) [0..<8]"

text \<open>A production context without a KV plan, and one whose plan asks for \<open>2 ^ 62\<close> tokens.\<close>

definition production_options :: "u64 \<Rightarrow> ds4_context_options" where
  "production_options tokens = ds4_context_options_init\<lparr>op_kv_ctx_tokens := tokens,
     op_require_production_topology := True, op_device_facts := Some example_facts\<rparr>"

definition example_token_row :: manifest_row where
  "example_token_row =
     \<lparr>mr_semantic_tensor_id = ''token_embd.weight'', mr_source_name = ''t'', mr_source_dtype = ''BF16'',
      mr_source_shape = ''[4x2]'', mr_runtime_layout = ''row'', mr_owning_gpu = 0, mr_layer_id = - 1,
      mr_kernel_family = ''embed'', mr_source_offset = 0, mr_byte_length = 16, mr_scale_offset = ''-1'',
      mr_checksum = ''c'', mr_byte_offset_basis = ''absolute_gguf_file'', mr_shard_offset = 0\<rparr>"

definition example_token_fs :: file_system where
  "example_token_fs path = Some (file_of (write_index [example_token_row]))"

definition example_token_options :: ds4_context_options where
  "example_token_options = ds4_context_options_init\<lparr>op_pack_index_path := Some ''i''\<rparr>"

text \<open>The seven parts of a stage's memory, as numbers.\<close>

definition stage_parts :: "ds4_stage_info \<Rightarrow> nat list" where
  "stage_parts s = map unat [sg_arena_bytes s, sg_scratch_bytes s, sg_relay_f16_bytes s, sg_relay_f32_debug_bytes s,
     sg_planned_kv_bytes s, sg_output_head_reserve_bytes s, sg_mtp_reserve_bytes s]"

lemma open_without_packs:
  assumes "op_pack_index_path opts = None" "op_turbomind_pack_index_path opts = None"
    and "0 < op_expected_gpus opts" "op_expected_gpus opts \<le> 8" "op_relay_max_active_slots opts \<noteq> 0"
    and "op_kv_ctx_tokens opts \<noteq> 0 \<longrightarrow> op_kv_active_slots opts \<noteq> 0 \<and> op_planned_kv_bytes_per_gpu opts = 0"
    and "validate_topology (planned_context opts) = Inr ctx" "cx_opts ctx = opts" "validate_memory_budget ctx = Inr ()"
  shows "ds4_context_open fs (Some opts) = Inr ctx"
  using assms by (auto simp: ds4_context_open_def DS4_V100_EXPECTED_GPUS_def bind_pack_def bind_tm_pack_def not_le not_less check_def)

lemma example_context_opens: "ds4_context_open fs (Some example_options) = Inr (planned_context example_options)"
proof -
  have o: "\<not> op_require_production_topology example_options" by (simp add: example_options_def ds4_context_options_init_def)
  then show ?thesis
    by (intro open_without_packs)
      (simp_all add: validate_topology_def validate_memory_budget_def planned_context_parts(2),
       simp_all add: example_options_def ds4_context_options_init_def DS4_V100_EXPECTED_GPUS_def)
qed

lemma example_budgets:
  "ds4_kv_budget_for_layer 0 4096 2 = \<lparr>kb_raw_swa_bytes = 262144, kb_compressed_attn_bytes = 0, kb_indexer_kv_bytes = 0,
     kb_compression_state_bytes = 0, kb_total_bytes = 262144\<rparr>"
  "ds4_kv_budget_for_layer 1 4096 2 = ds4_kv_budget_for_layer 0 4096 2"
  "ds4_kv_budget_for_layer 2 4096 2 = \<lparr>kb_raw_swa_bytes = 262144, kb_compressed_attn_bytes = 2097152, kb_indexer_kv_bytes = 524288,
     kb_compression_state_bytes = 81920, kb_total_bytes = 2965504\<rparr>"
  "ds4_kv_budget_for_layer 3 4096 2 = \<lparr>kb_raw_swa_bytes = 262144, kb_compressed_attn_bytes = 65536, kb_indexer_kv_bytes = 0,
     kb_compression_state_bytes = 524288, kb_total_bytes = 851968\<rparr>"
  "ds4_kv_budget_for_layer 4 4096 2 = ds4_kv_budget_for_layer 2 4096 2"
  "ds4_kv_budget_for_layer 5 4096 2 = ds4_kv_budget_for_layer 3 4096 2"
  by (simp_all add: ds4_kv_budget_for_layer_def kv_class_parts_def ds4_layer_class_for_layer_def DS4_V100_N_LAYERS_def
      DS4_V100_SWA_ROWS_def DS4_V100_HEAD_DIM_def DS4_V100_INDEXER_HEAD_DIM_def sat_mul_u64_def sat_add_u64_def Let_def)

lemma example_opts: "op_kv_ctx_tokens example_options = 4096" "op_kv_active_slots example_options = 2"
  by (simp_all add: example_options_def)

lemma example_total: "ka_total_bytes (sg_kv_arena (cx_stages (planned_context example_options) ! 0)) = 8159232"
proof -
  have o: "cx_opts (init_stage_map (new_context example_options)) = example_options"
    by (simp add: init_stage_map_def new_context_def)
  have al: "align_up_u64 1572864 256 = 1572864" "align_up_u64 5898240 256 = 5898240" "align_up_u64 6946816 256 = 6946816"
    "align_up_u64 8159232 256 = 8159232" by code_simp+
  have ls: "stage_layers_before 0 43 = [0, 1, 2, 3, 4, 5]" by code_simp
  have sums: "cur kb_raw_swa_bytes example_options [0, 1, 2, 3, 4, 5] 0 = 1572864"
    "cur kb_compressed_attn_bytes example_options [0, 1, 2, 3, 4, 5] 0 = 4325376"
    "cur kb_indexer_kv_bytes example_options [0, 1, 2, 3, 4, 5] 0 = 1048576"
    "cur kb_compression_state_bytes example_options [0, 1, 2, 3, 4, 5] 0 = 1212416"
    by (simp_all add: cur_def example_opts example_budgets sat_add_u64_def)
  define s where "s = fold (\<lambda>l. kv_stage_add (layer_budget example_options l)) (stage_layers_before 0 43)
      (kv_reset_stage (cx_stages (init_stage_map (new_context example_options)) ! 0))"
  have st: "cx_stages (planned_context example_options) ! 0 = kv_plan_stage s"
    using derived_plan(3) [OF staged_init, of "new_context example_options" 0] by (simp add: o example_opts(1) s_def)
  have "sg_kv_raw_swa_bytes s = 1572864" "sg_kv_compressed_attn_bytes s = 4325376" "sg_kv_indexer_bytes s = 1048576"
    "sg_kv_compression_state_bytes s = 1212416"
    unfolding s_def stage_sums ls by (simp_all add: kv_reset_stage_def sums del: One_nat_def)
  then show ?thesis unfolding st by (simp add: kv_plan_stage_def Let_def sat_add_u64_def al)
qed

section \<open>The KV plan\<close>

text \<open>
  The KV budget of a layer is exact: whatever the context length and slot count, each part of
  the 64-bit budget is the true number of bytes, cut off at \<open>2 ^ 64 - 1\<close> only when it does not fit,
  and so is the total.
\<close>

theorem kv_budget_exact:
  assumes "0 \<le> layer" "layer < 43" "ctx_tokens \<noteq> 0" "active_slots \<noteq> 0"
  defines "b \<equiv> ds4_kv_budget_for_layer layer ctx_tokens active_slots"
    and "t \<equiv> unat ctx_tokens" and "s \<equiv> unat active_slots"
  shows "\<exists>raw comp index state.
     raw = 131072 * s \<and>
     (comp, index, state) = (case ds4_layer_class_for_layer layer of
        DS4_V100_LAYER_RATIO_4 \<Rightarrow> (t div 4 * 1024 * s, t div 4 * 256 * s, 81920)
      | DS4_V100_LAYER_RATIO_128 \<Rightarrow> (t div 128 * 1024 * s, 0, 524288)
      | DS4_V100_LAYER_SWA_ONLY \<Rightarrow> (0, 0, 0)) \<and>
     unat (kb_raw_swa_bytes b) = min U64_TOP raw \<and> unat (kb_compressed_attn_bytes b) = min U64_TOP comp \<and>
     unat (kb_indexer_kv_bytes b) = min U64_TOP index \<and> unat (kb_compression_state_bytes b) = state \<and>
     unat (kb_total_bytes b) = min U64_TOP (raw + comp + index + state)"
proof -
  have s: "1 \<le> s" using assms(4) by (simp add: s_def Suc_le_eq unat_gt_0)
  have cut: "min U64_TOP (min U64_TOP x * s) = min U64_TOP (x * s)" for x
  proof (cases "x \<le> U64_TOP")
    case False
    then have "U64_TOP * 1 \<le> x * s" "U64_TOP * 1 \<le> U64_TOP * s" using s by (intro mult_le_mono; simp)+
    with False show ?thesis by simp
  qed simp
  note defs = ds4_kv_budget_for_layer_def kv_class_parts_def Let_def DS4_V100_N_LAYERS_def DS4_V100_SWA_ROWS_def
    DS4_V100_HEAD_DIM_def DS4_V100_INDEXER_HEAD_DIM_def sat.val_add unat_sat_mul unat_div cut [unfolded s_def]
  have total: "kb_total_bytes b = sat_add_u64 (sat_add_u64 (sat_add_u64 (kb_raw_swa_bytes b) (kb_compressed_attn_bytes b))
      (kb_indexer_kv_bytes b)) (kb_compression_state_bytes b)"
    using assms(1-4) by (simp add: b_def ds4_kv_budget_for_layer_def DS4_V100_N_LAYERS_def Let_def split: prod.splits)
  have sum: "unat (kb_total_bytes b) = min U64_TOP (R + C + I + S)"
    if "unat (kb_raw_swa_bytes b) = min U64_TOP R" "unat (kb_compressed_attn_bytes b) = min U64_TOP C"
      "unat (kb_indexer_kv_bytes b) = min U64_TOP I" "unat (kb_compression_state_bytes b) = S" for R C I S
    unfolding total sat.val_add that by linarith
  have raw: "unat (kb_raw_swa_bytes b) = min U64_TOP (131072 * s)"
    using assms(1-4) by (simp add: b_def s_def ds4_kv_budget_for_layer_def DS4_V100_N_LAYERS_def Let_def unat_sat_mul
        DS4_V100_SWA_ROWS_def DS4_V100_HEAD_DIM_def split: prod.splits)
  show ?thesis
  proof (cases "ds4_layer_class_for_layer layer")
    case DS4_V100_LAYER_SWA_ONLY
    then have "unat (kb_compressed_attn_bytes b) = min U64_TOP 0" "unat (kb_indexer_kv_bytes b) = min U64_TOP 0"
      "unat (kb_compression_state_bytes b) = 0"
      using assms(1-4) unfolding b_def by (simp_all add: defs)
    with DS4_V100_LAYER_SWA_ONLY raw sum [OF raw this] show ?thesis by simp
  next
    case DS4_V100_LAYER_RATIO_4
    then have "unat (kb_compressed_attn_bytes b) = min U64_TOP (t div 4 * 1024 * s)"
      "unat (kb_indexer_kv_bytes b) = min U64_TOP (t div 4 * 256 * s)" "unat (kb_compression_state_bytes b) = 81920"
      using assms(1-4) unfolding b_def s_def t_def by (simp_all add: defs)
    with DS4_V100_LAYER_RATIO_4 raw sum [OF raw this] show ?thesis by simp
  next
    case DS4_V100_LAYER_RATIO_128
    then have "unat (kb_compressed_attn_bytes b) = min U64_TOP (t div 128 * 1024 * s)"
      "unat (kb_indexer_kv_bytes b) = min U64_TOP 0" "unat (kb_compression_state_bytes b) = 524288"
      using assms(1-4) unfolding b_def s_def t_def by (simp_all add: defs)
    with DS4_V100_LAYER_RATIO_128 raw sum [OF raw this] show ?thesis by simp
  qed
qed

text \<open>
  C8: The KV buffers of an open context do not collide. Unless a stage's arena size is the
  saturation value \<open>2 ^ 64 - 1\<close>, each of the seven buffers of each of its layers lies inside the
  stage's arena, and two different buffers of the stage, of one layer or of two, share no byte.
\<close>

theorem kv_views_disjoint:
  assumes op: "ds4_context_open fs opts = Inr ctx" and tok: "op_kv_ctx_tokens (cx_opts ctx) \<noteq> 0"
    and l: "l < 43" "l' < 43" "ds4_stage_for_layer (int l) = ds4_stage_for_layer (int l')"
    and ij: "i < 7" "j < 7" "(l, i) \<noteq> (l', j)"
    and top: "ka_total_bytes (sg_kv_arena (cx_stages ctx ! stage_of l)) \<noteq> UINT64_MAX"
  shows "let r = view_ranges (ly_kv_view (cx_layers ctx ! l)) ! i;
             r' = view_ranges (ly_kv_view (cx_layers ctx ! l')) ! j
         in (snd r \<le> fst r' \<or> snd r' \<le> fst r) \<and>
            snd r \<le> unat (ka_total_bytes (sg_kv_arena (cx_stages ctx ! stage_of l)))"
proof -
  let ?o = "cx_opts ctx" and ?g = "stage_of l"
  define a where "a = sg_kv_arena (cx_stages (planned_context ?o) ! ?g)"
  note r = ds4_context_open_result [OF op]
  have o: "open_options opts = ?o" using r(2) by simp
  have slots: "op_kv_active_slots ?o \<noteq> 0" using r(5) tok by (simp add: o)
  have g: "?g < 8" using stage_of_range [OF l(1)] by simp
  have g': "stage_of l' = ?g" using l(3) by simp
  have a_eq: "sg_kv_arena (cx_stages ctx ! ?g) = a" using r(8) g by (simp add: o a_def)
  have iopt: "cx_opts (init_stage_map (new_context ?o)) = ?o" by (simp add: init_stage_map_def new_context_def)
  have a_top: "unat (ka_total_bytes a) < U64_TOP"
    using top unat_u64_bound [of "ka_total_bytes a"] word_unat_eq_iff [of "ka_total_bytes a" UINT64_MAX]
    unfolding a_eq by simp
  note b = planned_stage_bounds [OF staged_init, of "new_context ?o" ?g, unfolded iopt, OF tok g, folded a_def, OF a_top]
  have vw: "view_ranges (ly_kv_view (cx_layers ctx ! k)) = ideal_ranges ?o a ?g k" if "k < 43" "stage_of k = ?g" for k
    using view_ranges_ideal [OF staged_init, of "new_context ?o" k, unfolded iopt, OF tok slots that(1)] that a_top r(9)
    by (simp add: o a_def)
  have dis: "snd (ideal_ranges ?o a ?g l ! i) \<le> fst (ideal_ranges ?o a ?g l' ! j) \<or>
      snd (ideal_ranges ?o a ?g l' ! j) \<le> fst (ideal_ranges ?o a ?g l ! i)"
  proof (cases "l \<le> l'")
    case True
    then show ?thesis using ideal_ranges_disjoint [OF tok slots True l(2) refl g' ij b(2-4)] by simp
  next
    case False
    then show ?thesis
      using ideal_ranges_disjoint [OF tok slots _ l(1) g' refl ij(2,1) _ b(2-4)] ij(3) by fastforce
  qed
  have "snd (ideal_ranges ?o a ?g l ! i) \<le> unat (ka_total_bytes a)"
    by (rule ideal_ranges_inside [OF tok slots l(1) refl ij(1) b(2-5)])
  with dis show ?thesis using vw [OF l(1) refl] vw [OF l(2) g'] by (simp add: Let_def a_eq)
qed

theorem kv_views_disjoint_witness:
  "let r = view_ranges (ly_kv_view (cx_layers (planned_context example_options) ! 2)) ! 1;
       r' = view_ranges (ly_kv_view (cx_layers (planned_context example_options) ! 4)) ! 3
   in (snd r \<le> fst r' \<or> snd r' \<le> fst r) \<and> snd r \<le> 8159232"
proof -
  have g: "stage_of 2 = 0" "ds4_stage_for_layer (int 2) = ds4_stage_for_layer (int 4)" by code_simp+
  have tok: "op_kv_ctx_tokens (cx_opts (planned_context example_options)) \<noteq> 0"
    by (simp add: planned_context_parts(2) example_opts)
  have top: "ka_total_bytes (sg_kv_arena (cx_stages (planned_context example_options) ! stage_of 2)) \<noteq> UINT64_MAX"
    unfolding g(1) example_total by simp
  show ?thesis
    using kv_views_disjoint [OF example_context_opens tok _ _ g(2) _ _ _ top, of 1 3, unfolded g(1) example_total] by simp
qed

theorem kv_budget_exact_witness:
  "unat (kb_total_bytes (ds4_kv_budget_for_layer 2 4096 2)) = 2965504 \<and>
   unat (kb_total_bytes (ds4_kv_budget_for_layer 4 18446744073709551615 18446744073709551615)) = U64_TOP"
proof -
  have c: "ds4_layer_class_for_layer 2 = DS4_V100_LAYER_RATIO_4" "ds4_layer_class_for_layer 4 = DS4_V100_LAYER_RATIO_4"
    by code_simp+
  show ?thesis
    using kv_budget_exact [of 2 4096 2] kv_budget_exact [of 4 18446744073709551615 18446744073709551615] by (simp add: c)
qed

section \<open>What an open context has bound\<close>

text \<open>
  What the bound rows are compared with: the stage of a layer (five stages of six layers, two of
  five and one of three), the size of a tensor of \<open>n\<close> elements in each source format, and the ids of
  the two tensor-parallel halves of the routed experts.
\<close>

definition stage_of_layer :: "int \<Rightarrow> int" where
  "stage_of_layer l = (if l < 30 then l div 6 else if l < 40 then 5 + (l - 30) div 5 else 7)"

lemma ds4_stage_exact: "0 \<le> l \<Longrightarrow> l < 43 \<Longrightarrow> ds4_stage_for_layer l = stage_of_layer l"
proof -
  have "\<forall>l \<in> set [0..42]. ds4_stage_for_layer l = stage_of_layer l" by code_simp
  then show "0 \<le> l \<Longrightarrow> l < 43 \<Longrightarrow> ?thesis" by simp
qed

definition format_bytes :: "ds4_source_dtype \<Rightarrow> nat \<Rightarrow> nat option" where
  "format_bytes dtype n =
     (case dtype of
        DS4_V100_SOURCE_BF16 \<Rightarrow> Some (2 * n)
      | DS4_V100_SOURCE_F32 \<Rightarrow> Some (4 * n)
      | DS4_V100_SOURCE_I32 \<Rightarrow> Some (4 * n)
      | DS4_V100_SOURCE_F8_E4M3_B128 \<Rightarrow> Some (n + (if n + 127 < 2 ^ 64 then (n + 127) div 128 else 0))
      | DS4_V100_SOURCE_MXFP4 \<Rightarrow> if 32 dvd n then Some (n div 32 * 17) else None
      | DS4_V100_SOURCE_FP4 \<Rightarrow> if 32 dvd n then Some (n div 32 * 17) else None
      | DS4_V100_SOURCE_UNKNOWN \<Rightarrow> None)"

definition names_tensor_half :: "string \<Rightarrow> bool" where
  "names_tensor_half i \<longleftrightarrow>
     (\<exists>pre post. \<exists>part \<in> {''gate_up'', ''down''}. \<exists>half \<in> {''tp0'', ''tp1''}.
        i = pre @ (''.ffn_'' @ part @ ''_exps.'' @ half @ ''.weight'') @ post)"

lemma tp_routed_iff: "is_tp_routed_expert_id i \<longleftrightarrow> names_tensor_half i"
  by (auto simp: is_tp_routed_expert_id_def names_tensor_half_def strstr_found_iff)

lemma tm_pack_row_wf:
  assumes "e \<in> set (tm_pack_rows fs opts)"
  shows "tm_entry_wf e"
proof -
  have "\<exists>path pack. ds4_tm_pack_open fs (Some path) = Inr pack \<and> e \<in> set (tp_entries pack)"
    using assms by (simp add: tm_pack_rows_def split: option.splits if_splits sum.splits) metis
  then obtain path pack where "ds4_tm_pack_open fs (Some path) = Inr pack" "e \<in> set (tp_entries pack)" by blast
  then show ?thesis using ds4_tm_pack_open_wf by (auto simp: tm_pack_wf_def list_all_iff)
qed

lemma expected_bytes_exact:
  assumes "expected_bytes_for_entry e = Some b"
  shows "\<exists>dims n. parse_shape_dims (pe_source_shape e) 4 = Some (dims, n) \<and>
     format_bytes (ds4_source_dtype_parse (pe_source_dtype e)) (prod_list (map unat dims)) = Some (unat b)"
proof -
  obtain dims n where sh: "parse_shape_dims (pe_source_shape e) 4 = Some (dims, n)"
    and b: "dtype_bytes (ds4_source_dtype_parse (pe_source_dtype e)) n = Some b"
    using assms by (auto simp: expected_bytes_for_entry_def parse_shape_elements_def DS4_V100_MAX_SHAPE_DIMS_def
        split: option.splits)
  show ?thesis
    using dtype_bytes_exact [OF b] parse_shape_product [OF sh] sh
    by (auto simp: format_bytes_def split: ds4_source_dtype.splits)
qed

text \<open>
  C9: An open context has bound every row of its two indexes, in order, and nothing else. A row of
  the pack index is owned by one of the expected GPUs, the one of its layer's stage if it has a
  layer; its length is the size of its dtype and of the product of its dimensions (for an FP8
  tensor within 127 of \<open>2 ^ 64\<close> elements without the scales); its policy is the supported one of its
  dtype, layout and kernel; and it ends inside its stage's weight arena. A row of the TurboMind
  index is owned by one of the expected GPUs, has a layer, and is on the stage of that layer unless
  it is a half of a tensor-parallel pair (\<open>tp0\<close> or \<open>tp1\<close>), which may be on any of the GPUs; its policy
  is the supported one; its shape is that of its dimensions; and the ends of its weights and scales,
  taken with a product of experts and bytes per expert modulo \<open>2 ^ 64\<close>, are inside the arena of
  its owner.
\<close>

theorem bound_tensors_sound:
  assumes op: "ds4_context_open fs opts = Inr ctx"
  shows "map td_entry (cx_descs ctx) = pack_rows fs (cx_opts ctx) \<and>
     map tmd_entry (cx_tm_descs ctx) = tm_pack_rows fs (cx_opts ctx) \<and>
     (\<forall>d \<in> set (cx_descs ctx). let e = td_entry d in
        0 \<le> pe_owning_gpu e \<and> pe_owning_gpu e < op_expected_gpus (cx_opts ctx) \<and> pe_layer_id e < 43 \<and>
        (0 \<le> pe_layer_id e \<longrightarrow> pe_owning_gpu e = stage_of_layer (pe_layer_id e)) \<and>
        expected_bytes_for_entry e = Some (pe_byte_length e) \<and>
        (\<exists>dims n. parse_shape_dims (pe_source_shape e) 4 = Some (dims, n) \<and>
           format_bytes (ds4_source_dtype_parse (pe_source_dtype e)) (prod_list (map unat dims)) =
             Some (unat (pe_byte_length e))) \<and>
        ds4_classify_or_die (pe_source_dtype e) (pe_runtime_layout e) (pe_kernel_family e) = Some (td_policy d) \<and>
        pol_exec_kind (td_policy d) = exec_kind_of_dtype (ds4_source_dtype_parse (pe_source_dtype e)) \<and>
        pol_exec_kind (td_policy d) \<noteq> DS4_V100_EXEC_UNSUPPORTED \<and>
        entry_end e \<le> unat (sg_arena_bytes (cx_stages ctx ! nat (pe_owning_gpu e)))) \<and>
     (\<forall>d \<in> set (cx_tm_descs ctx). let e = tmd_entry d; arena = sg_arena_bytes (cx_stages ctx ! nat (te_owning_gpu e)) in
        0 \<le> te_owning_gpu e \<and> te_owning_gpu e < op_expected_gpus (cx_opts ctx) \<and>
        0 \<le> te_layer_id e \<and> te_layer_id e < 43 \<and>
        (te_owning_gpu e = stage_of_layer (te_layer_id e) \<or> names_tensor_half (te_semantic_tensor_id e)) \<and>
        ds4_classify_or_die (te_source_dtype e) (te_runtime_layout e) (te_kernel_family e) = Some (tmd_policy d) \<and>
        pol_exec_kind (tmd_policy d) = exec_kind_of_dtype (ds4_source_dtype_parse (te_source_dtype e)) \<and>
        pol_exec_kind (tmd_policy d) \<noteq> DS4_V100_EXEC_UNSUPPORTED \<and>
        unat (te_weight_offset e) + unat (te_experts_packed e) * unat (te_weight_bytes_per_expert e) mod 2 ^ 64
          \<le> unat arena \<and>
        unat (te_scale_offset e) + unat (te_experts_packed e) * unat (te_scale_bytes_per_expert e) mod 2 ^ 64
          \<le> unat arena \<and>
        map_option fst (parse_shape_dims (te_source_shape e) 4) =
          Some [ucast (te_k e), ucast (te_n e), ucast (te_experts_total e)])"
    (is "_ \<and> _ \<and> (\<forall>d \<in> set (cx_descs ctx). ?P d) \<and> (\<forall>d \<in> set (cx_tm_descs ctx). ?T d)")
proof -
  note r = ds4_context_open_result [OF op]
  have n: "bind_max_gpu ctx = op_expected_gpus (cx_opts ctx)" using r(2,3) by (simp add: bind_max_gpu_def)
  have P: "?P d" if "d \<in> set (cx_descs ctx)" for d
  proof -
    have "desc_ok ctx d" using r(1) that by (simp add: ctx_inv_def)
    then show ?thesis
      using expected_bytes_exact [of "td_entry d"] n
      by (auto simp: desc_ok_def Let_def ds4_stage_exact dest: classify_policy(3,4))
  qed
  have T: "?T d" if d: "d \<in> set (cx_tm_descs ctx)" for d
  proof -
    have "tmd_entry d \<in> set (tm_pack_rows fs (cx_opts ctx))"
      using r(7) d unfolding r(2) by (metis image_eqI set_map)
    then have "tm_entry_wf (tmd_entry d)" by (rule tm_pack_row_wf)
    note e = tm_ends_exact [OF this]
    have "tm_desc_ok ctx d" using r(1) d by (simp add: ctx_inv_def)
    then show ?thesis
      using n by (auto simp: tm_desc_ok_def Let_def e tp_routed_iff ds4_stage_exact dest: classify_policy(3,4))
  qed
  show ?thesis using r(2,6,7) P T by simp
qed

text \<open>
  The counters and flags of an open context are those of its descriptors: the number of tensors
  per stage, per layer and per kind of execution, which families each layer has, and whether there
  is a token embedding.
\<close>

theorem context_counters_exact:
  assumes op: "ds4_context_open fs opts = Inr ctx"
  shows "(\<forall>k. cx_exec_counts ctx k = of_nat (length (filter (\<lambda>d. pol_exec_kind (td_policy d) = k) (cx_descs ctx)) +
            length (filter (\<lambda>d. pol_exec_kind (tmd_policy d) = k) (cx_tm_descs ctx)))) \<and>
     (\<forall>g < 8. sg_tensor_count (cx_stages ctx ! g) = of_nat (stage_tensors ctx g)) \<and>
     (\<forall>l < 43. ly_tensor_count (cx_layers ctx ! l) = of_nat (layer_tensors ctx l) \<and>
        (ly_has_fp8_dense (cx_layers ctx ! l) \<longleftrightarrow> (\<exists>d \<in> set (cx_descs ctx).
           pe_layer_id (td_entry d) = int l \<and> pol_family (td_policy d) = DS4_V100_FAMILY_FP8_DENSE)) \<and>
        (ly_has_mxfp4_expert (cx_layers ctx ! l) \<longleftrightarrow> (\<exists>d \<in> set (cx_descs ctx).
           pe_layer_id (td_entry d) = int l \<and> pol_family (td_policy d) = DS4_V100_FAMILY_MXFP4_EXPERT) \<or>
           (\<exists>d \<in> set (cx_tm_descs ctx). te_layer_id (tmd_entry d) = int l))) \<and>
     (cx_has_token_embedding ctx \<longleftrightarrow>
        (\<exists>d \<in> set (cx_descs ctx). pe_semantic_tensor_id (td_entry d) = ''token_embd.weight''))"
  using ds4_context_open_result(1) [OF op] by (simp add: ctx_inv_def counters_exact_def exec_tensors_def layer_has_def)

text \<open>
  C10: The skeleton check of a context with tensors passes exactly when every layer has an F32
  control, an FP8 dense, an MXFP4 expert and an HC control tensor and there is a token embedding.
\<close>

theorem skeleton_check_iff:
  assumes op: "ds4_context_open fs opts = Inr ctx"
    and n: "cx_descs ctx \<noteq> []" "length (cx_descs ctx) + length (cx_tm_descs ctx) < 2 ^ 64"
  shows "ds4_context_validate_layer_skeleton ctx = Inr () \<longleftrightarrow>
     (\<forall>l < 43. \<forall>f \<in> {DS4_V100_FAMILY_F32_CONTROL, DS4_V100_FAMILY_FP8_DENSE, DS4_V100_FAMILY_MXFP4_EXPERT,
                DS4_V100_FAMILY_HC_CONTROL}. layer_has ctx l f) \<and>
     (\<exists>d \<in> set (cx_descs ctx). pe_semantic_tensor_id (td_entry d) = ''token_embd.weight'')"
  by (rule validate_layer_skeleton_iff [OF ds4_context_open_result(1) [OF op]]) (use n in auto)

text \<open>
  Lookup in an open context is exact: a non-empty id finds the row of the index with that id,
  with its policy and its parsed shape, and fails only when the index has no such row.
\<close>

theorem tensor_lookup_exact:
  assumes op: "ds4_context_open fs opts = Inr ctx" and tid: "tid \<noteq> []"
  shows "(\<forall>e \<in> set (pack_rows fs (cx_opts ctx)). pe_semantic_tensor_id e = tid \<longrightarrow>
        (\<exists>b dims n. ds4_context_lookup_tensor_binding ctx tid = Inr b \<and> tb_entry b = e \<and>
           ds4_classify_or_die (pe_source_dtype e) (pe_runtime_layout e) (pe_kernel_family e) = Some (tb_policy b) \<and>
           parse_shape_dims (pe_source_shape e) 4 = Some (dims, n) \<and> tb_shape b = dims)) \<and>
     ((\<forall>e \<in> set (pack_rows fs (cx_opts ctx)). pe_semantic_tensor_id e \<noteq> tid) \<longrightarrow>
        ds4_context_lookup_tensor_binding ctx tid = Inl (Missing_descriptor tid))"
proof -
  note r = ds4_context_open_result [OF op]
  have rows: "map td_entry (cx_descs ctx) = pack_rows fs (cx_opts ctx)" using r(2,6) by simp
  have uniq: "distinct (map pe_semantic_tensor_id (pack_rows fs (cx_opts ctx)))"
    using ds4_pack_open_wf by (auto simp: pack_rows_def pack_wf_def split: option.splits sum.splits)
  have mem: "td_entry d \<in> set (pack_rows fs (cx_opts ctx))" if "d \<in> set (cx_descs ctx)" for d
    using that unfolding rows [symmetric] by simp
  show ?thesis
  proof (cases "find (\<lambda>d. pe_semantic_tensor_id (td_entry d) = tid) (cx_descs ctx)")
    case None
    then have "\<forall>e \<in> set (pack_rows fs (cx_opts ctx)). pe_semantic_tensor_id e \<noteq> tid"
      unfolding rows [symmetric] by (simp add: find_None_iff)
    then show ?thesis using None tid by (simp add: ds4_context_lookup_tensor_binding_def)
  next
    case (Some d)
    then have d: "d \<in> set (cx_descs ctx)" "pe_semantic_tensor_id (td_entry d) = tid"
      by (auto simp: find_Some_iff)
    have e: "e = td_entry d" if "e \<in> set (pack_rows fs (cx_opts ctx))" "pe_semantic_tensor_id e = tid" for e
      using uniq that mem [OF d(1)] d(2) by (auto simp: distinct_map dest: inj_onD)
    have ok: "desc_ok ctx d" using r(1) d(1) by (simp add: ctx_inv_def)
    then obtain dims n where sh: "parse_shape_dims (pe_source_shape (td_entry d)) 4 = Some (dims, n)"
      by (auto simp: desc_ok_def Let_def expected_bytes_for_entry_def parse_shape_elements_def
          DS4_V100_MAX_SHAPE_DIMS_def split: option.splits)
    then have look: "ds4_context_lookup_tensor_binding ctx tid =
        Inr \<lparr>tb_entry = td_entry d, tb_policy = td_policy d, tb_shape = dims\<rparr>"
      using Some tid by (simp add: ds4_context_lookup_tensor_binding_def fill_binding_def DS4_V100_MAX_SHAPE_DIMS_def)
    have "ds4_classify_or_die (pe_source_dtype (td_entry d)) (pe_runtime_layout (td_entry d))
        (pe_kernel_family (td_entry d)) = Some (td_policy d)"
      using ok by (simp add: desc_ok_def Let_def)
    with look sh have "\<exists>b dims n. ds4_context_lookup_tensor_binding ctx tid = Inr b \<and> tb_entry b = td_entry d \<and>
        ds4_classify_or_die (pe_source_dtype (td_entry d)) (pe_runtime_layout (td_entry d))
          (pe_kernel_family (td_entry d)) = Some (tb_policy b) \<and>
        parse_shape_dims (pe_source_shape (td_entry d)) 4 = Some (dims, n) \<and> tb_shape b = dims"
      by simp
    then show ?thesis using e mem [OF d(1)] d(2) by blast
  qed
qed

section \<open>The memory budget\<close>

text \<open>
  C11: On a production topology an open context fits: when the seven parts of a stage's memory do
  not wrap around in their 64-bit sum, they and the reserve fit the memory of the stage's device.
\<close>

theorem memory_budget_sound:
  assumes op: "ds4_context_open fs opts = Inr ctx" and prod: "op_require_production_topology (cx_opts ctx)"
    and g: "g < 8"
    and nowrap: "sum_list (stage_parts (cx_stages ctx ! g)) < 2 ^ 64"
  shows "\<exists>facts. op_device_facts (cx_opts ctx) = Some facts \<and> length facts = 8 \<and>
     sum_list (stage_parts (cx_stages ctx ! g)) + unat (sg_reserve_bytes (cx_stages ctx ! g))
       \<le> unat (df_total_global_mem (facts ! g))"
proof -
  define s where "s = cx_stages ctx ! g"
  define parts where "parts = stage_parts s"
  note r = ds4_context_open_result [OF op]
  obtain facts where f: "op_device_facts (cx_opts ctx) = Some facts" "length facts = 8"
    "sg_device_total_bytes s = df_total_global_mem (facts ! g)"
    using r(2,11) prod g by (auto simp: s_def)
  have chk: "\<not> checked_stage_used s > sg_device_total_bytes s"
    "\<not> sg_reserve_bytes s > sg_device_total_bytes s - checked_stage_used s"
    using r(10) prod g by (auto simp: validate_memory_budget_def fold_res_unit_iff Let_def res_simps s_def DS4_V100_EXPECTED_GPUS_def)
  have used: "unat (checked_stage_used s) = sum_list parts"
  proof -
    have "unat (checked_stage_used s) = sum_list parts mod 2 ^ 64"
      by (simp add: checked_stage_used_def parts_def stage_parts_def unat_word_ariths mod_simps add.assoc)
    then show ?thesis using nowrap by (simp add: parts_def s_def)
  qed
  have "unat (sg_device_total_bytes s - checked_stage_used s) = unat (sg_device_total_bytes s) - unat (checked_stage_used s)"
    using chk(1) by (intro unat_sub) (simp add: word_le_nat_alt not_less)
  then have "sum_list parts + unat (sg_reserve_bytes s) \<le> unat (sg_device_total_bytes s)"
    using chk used by (simp add: word_less_nat_alt not_less)
  then show ?thesis using f by (auto simp: parts_def s_def)
qed

section \<open>A budget that wraps around\<close>

lemma sat_top:
  "sat_add_u64 x UINT64_MAX = UINT64_MAX" "sat_add_u64 UINT64_MAX x = UINT64_MAX" "align_up_u64 UINT64_MAX 256 = UINT64_MAX"
proof -
  have "unat (sat_add_u64 x UINT64_MAX) = unat (UINT64_MAX :: u64)" "unat (sat_add_u64 UINT64_MAX x) = unat (UINT64_MAX :: u64)"
    "unat (align_up_u64 UINT64_MAX 256) = unat (UINT64_MAX :: u64)"
    unfolding sat.val_add unat_align_up_256 by simp_all
  then show "sat_add_u64 x UINT64_MAX = UINT64_MAX" "sat_add_u64 UINT64_MAX x = UINT64_MAX" "align_up_u64 UINT64_MAX 256 = UINT64_MAX"
    by (simp_all only: word_unat_eq_iff)
qed

lemma fold_stage_add_other:
  "sg_arena_bytes (fold (\<lambda>l. kv_stage_add (b l)) ls s) = sg_arena_bytes s"
  "sg_scratch_bytes (fold (\<lambda>l. kv_stage_add (b l)) ls s) = sg_scratch_bytes s"
  "sg_relay_f16_bytes (fold (\<lambda>l. kv_stage_add (b l)) ls s) = sg_relay_f16_bytes s"
  "sg_relay_f32_debug_bytes (fold (\<lambda>l. kv_stage_add (b l)) ls s) = sg_relay_f32_debug_bytes s"
  "sg_output_head_reserve_bytes (fold (\<lambda>l. kv_stage_add (b l)) ls s) = sg_output_head_reserve_bytes s"
  "sg_mtp_reserve_bytes (fold (\<lambda>l. kv_stage_add (b l)) ls s) = sg_mtp_reserve_bytes s"
  "sg_reserve_bytes (fold (\<lambda>l. kv_stage_add (b l)) ls s) = sg_reserve_bytes s"
  by (induction ls arbitrary: s) (simp_all add: kv_stage_add_def)

lemma example_topology:
  assumes "length (cx_stages ctx) = 8" "op_require_production_topology (cx_opts ctx)"
    "op_expected_gpus (cx_opts ctx) = 8" "op_device_facts (cx_opts ctx) = Some example_facts"
  shows "\<exists>ctx'. validate_topology ctx = Inr ctx' \<and> cx_opts ctx' = cx_opts ctx \<and>
     (\<forall>g < 8. cx_stages ctx' ! g = (cx_stages ctx ! g)\<lparr>sg_device_total_bytes := 34359738368\<rparr>)"
proof -
  have fact: "example_facts ! i = \<lparr>df_visible_id = int i, df_cc_major = 7, df_cc_minor = 0,
     df_total_global_mem = 34359738368, df_pci_bus_id = '''', df_uuid = '''', df_peer_access = replicate 8 True\<rparr>"
    if "i < 8" for i using that by (simp add: example_facts_def)
  have "\<exists>c. fold_res (check_device_fact example_facts) [0..<n] ctx = Inr c" if "n \<le> 8" for n
    using that
  proof (induction n)
    case (Suc n)
    then show ?case by (auto simp: fold_res_append check_device_fact_def fact DS4_V100_MIN_VRAM_BYTES_def)
  qed simp
  then obtain c where c: "fold_res (check_device_fact example_facts) [0..<8] ctx = Inr c" by blast
  note r = check_device_facts_result [OF c, unfolded assms(1), OF order_refl]
  have "fold_res (check_peer_edge example_facts) [0..<7] () = Inr ()"
    by (simp add: fold_res_unit_iff check_peer_edge_def fact)
  with c have "validate_topology ctx = Inr c"
    using assms(2-4) by (simp add: validate_topology_def DS4_V100_EXPECTED_GPUS_def example_facts_def)
  then show ?thesis using r fact by (intro exI [of _ c]) auto
qed

text \<open>The stages of a plan for \<open>2 ^ 62\<close> tokens: each plan saturates, and the sum of a stage wraps.\<close>

lemma saturated_stage:
  assumes g: "g < 8"
  defines "s \<equiv> cx_stages (planned_context (production_options 4611686018427387904)) ! g"
  shows "sg_planned_kv_bytes s = UINT64_MAX" "checked_stage_used s = 65535" "sg_reserve_bytes s = 2147483648"
proof -
  let ?o = "production_options 4611686018427387904"
  define l where "l = [2, 6, 12, 18, 24, 30, 36, 40 :: nat] ! g"
  have o: "op_kv_ctx_tokens ?o = 4611686018427387904" "op_kv_active_slots ?o = 1" "op_scratch_bytes_per_gpu ?o = 0"
    "op_relay_max_active_slots ?o = 1" "op_output_head_reserve_bytes ?o = 0" "op_mtp_reserve_bytes ?o = 0"
    "op_reserve_bytes_per_gpu ?o = 2147483648" "\<not> op_enable_f32_debug_relay ?o"
    by (simp_all add: production_options_def ds4_context_options_init_def DS4_V100_DEFAULT_RESERVE_BYTES_def)
  have gs: "g = 0 \<or> g = 1 \<or> g = 2 \<or> g = 3 \<or> g = 4 \<or> g = 5 \<or> g = 6 \<or> g = 7" using g by linarith
  have l: "l < 43" "stage_of l = g" "ds4_layer_class_for_layer (int l) = DS4_V100_LAYER_RATIO_4"
    using gs by (auto simp: l_def ds4_stage_for_layer_def ds4_layer_class_for_layer_def DS4_V100_N_LAYERS_def)
  have "kb_compressed_attn_bytes (layer_budget ?o l) = UINT64_MAX"
    using l by (simp add: ds4_kv_budget_for_layer_def kv_class_parts_def Let_def o DS4_V100_N_LAYERS_def
        DS4_V100_HEAD_DIM_def sat_mul_u64_def)
  then have big: "U64_TOP \<le> bytes_before kb_compressed_attn_bytes ?o g 43"
    using bytes_before_step [OF l(2,1), of kb_compressed_attn_bytes ?o] by simp
  define s0 where "s0 = cx_stages (init_stage_map (new_context ?o)) ! g"
  define S where "S = fold (\<lambda>l. kv_stage_add (layer_budget ?o l)) (stage_layers_before g 43) (kv_reset_stage s0)"
  have iopt: "cx_opts (init_stage_map (new_context ?o)) = ?o" by (simp add: init_stage_map_def new_context_def)
  have s: "s = kv_plan_stage S"
    using derived_plan(3) [OF staged_init, of "new_context ?o" g, unfolded iopt] g o by (simp add: s_def S_def s0_def)
  have "unat (sg_kv_compressed_attn_bytes S) = U64_TOP"
    using big by (simp add: S_def stage_sums kv_reset_stage_def unat_cur)
  then have comp: "sg_kv_compressed_attn_bytes S = UINT64_MAX" by (simp add: word_unat_eq_iff)
  show pl: "sg_planned_kv_bytes s = UINT64_MAX"
    unfolding s kv_plan_stage_def Let_def comp by (simp add: sat_top)
  have s0: "sg_arena_bytes s0 = 0" "sg_scratch_bytes s0 = 0" "sg_relay_f16_bytes s0 = 65536" "sg_relay_f32_debug_bytes s0 = 0"
    "sg_output_head_reserve_bytes s0 = 0" "sg_mtp_reserve_bytes s0 = 0" "sg_reserve_bytes s0 = 2147483648"
    using g by (simp_all add: s0_def init_stage_map_def DS4_V100_EXPECTED_GPUS_def new_context_def init_stage_def Let_def
        zero_stage_def o DS4_V100_RELAY_BUFFERS_def DS4_V100_HC_ROWS_def DS4_V100_HC_COLS_def)
  have f: "sg_arena_bytes s = 0" "sg_scratch_bytes s = 0" "sg_relay_f16_bytes s = 65536" "sg_relay_f32_debug_bytes s = 0"
    "sg_output_head_reserve_bytes s = 0" "sg_mtp_reserve_bytes s = 0" "sg_reserve_bytes s = 2147483648"
    by (simp_all add: s kv_plan_stage_def Let_def S_def fold_stage_add_other kv_reset_stage_def s0)
  show "sg_reserve_bytes s = 2147483648" by (rule f(7))
  show "checked_stage_used s = 65535" by (simp add: checked_stage_used_def f pl)
qed

text \<open>
  The memory check can be passed by a plan that does not fit: the parts of a stage are summed
  with wrap-around, so a context for \<open>2 ^ 62\<close> tokens opens on eight devices of 32 GiB although
  the KV arena of every stage is planned with \<open>2 ^ 64 - 1\<close> bytes.
\<close>

theorem memory_budget_wraps:
  "\<exists>ctx. ds4_context_open fs (Some (production_options 4611686018427387904)) = Inr ctx \<and>
     list_all (\<lambda>g. sg_planned_kv_bytes (cx_stages ctx ! g) = UINT64_MAX \<and>
        unat (sg_device_total_bytes (cx_stages ctx ! g)) < unat (sg_planned_kv_bytes (cx_stages ctx ! g))) [0..<8]"
proof -
  let ?o = "production_options 4611686018427387904"
  note p = planned_context_parts [of ?o]
  have o: "op_pack_index_path ?o = None" "op_turbomind_pack_index_path ?o = None" "op_expected_gpus ?o = 8"
    "op_relay_max_active_slots ?o \<noteq> 0" "op_kv_active_slots ?o \<noteq> 0" "op_planned_kv_bytes_per_gpu ?o = 0"
    "op_require_production_topology ?o" "op_device_facts ?o = Some example_facts"
    by (simp_all add: production_options_def ds4_context_options_init_def DS4_V100_EXPECTED_GPUS_def)
  obtain ctx where c: "validate_topology (planned_context ?o) = Inr ctx" "cx_opts ctx = ?o"
    "\<forall>g < 8. cx_stages ctx ! g = (cx_stages (planned_context ?o) ! g)\<lparr>sg_device_total_bytes := 34359738368\<rparr>"
    using example_topology [of "planned_context ?o"] p(1,2) o by (auto simp: staged_def)
  have st: "sg_planned_kv_bytes (cx_stages ctx ! g) = UINT64_MAX" "checked_stage_used (cx_stages ctx ! g) = 65535"
    "sg_reserve_bytes (cx_stages ctx ! g) = 2147483648" "sg_device_total_bytes (cx_stages ctx ! g) = 34359738368"
    if "g < 8" for g
    using c(3) that saturated_stage [OF that] by (simp_all add: checked_stage_used_def)
  have "validate_memory_budget ctx = Inr ()"
    using st by (simp add: validate_memory_budget_def fold_res_unit_iff res_simps Let_def DS4_V100_EXPECTED_GPUS_def)
  then have "ds4_context_open fs (Some ?o) = Inr ctx"
    using o c by (intro open_without_packs) simp_all
  then show ?thesis using st by (intro exI [of _ ctx]) (simp add: list_all_iff)
qed

section \<open>Witnesses\<close>

text \<open>A model of one tensor, the token embedding, and the context that binds it.\<close>

lemma example_token_opens:
  "\<exists>ctx. ds4_context_open example_token_fs (Some example_token_options) = Inr ctx \<and> length (cx_descs ctx) = 1"
proof -
  have "case ds4_context_open example_token_fs (Some example_token_options) of
      Inr ctx \<Rightarrow> length (cx_descs ctx) = 1 | Inl _ \<Rightarrow> False"
    by code_simp
  then show ?thesis by (auto split: sum.splits)
qed

lemma example_production_opens:
  "\<exists>ctx. ds4_context_open (\<lambda>_. None) (Some (production_options 0)) = Inr ctx \<and>
     sum_list (stage_parts (cx_stages ctx ! 0)) < 100000"
proof -
  have "case ds4_context_open (\<lambda>_. None) (Some (production_options 0)) of
      Inr ctx \<Rightarrow> sum_list (stage_parts (cx_stages ctx ! 0)) < 100000 | Inl _ \<Rightarrow> False"
    by code_simp
  then show ?thesis by (auto split: sum.splits)
qed

text \<open>
  Two rows of a TurboMind index: one of layer 0 on its stage, and a tensor-parallel half of the same
  layer on the third GPU.
\<close>

definition example_bound_tm_row :: "string \<Rightarrow> string \<Rightarrow> string" where
  "example_bound_tm_row i gpu = join_with TAB
     [i, ''E'', ''mxfp4'', ''[2x2x4]'', ''tm'', gpu, ''0'', ''mxfp4_grouped'', ''2'', ''2'', ''2'', ''4'', ''8'', ''4'', ''1'',
      ''2'', ''2'', ''gpu'' @ gpu @ ''.turbomind'', ''0'', ''16'', ''gpu0.weights'', ''0'', ''32'', ''c'', ''1'']"

definition example_bound_fs :: file_system where
  "example_bound_fs path =
     (if path = ''t''
      then Some (file_of (concat (map (\<lambda>l. l @ [LF])
             [ds4_tm_pack_header, example_bound_tm_row ''blk.0.ffn_gate_exps.weight'' ''0'',
              example_bound_tm_row ''blk.0.ffn_down_exps.tp1.weight'' ''2''])))
      else example_token_fs path)"

definition example_bound_options :: ds4_context_options where
  "example_bound_options = example_token_options\<lparr>op_turbomind_pack_index_path := Some ''t''\<rparr>"

lemma example_bound_opens:
  "\<exists>ctx. ds4_context_open example_bound_fs (Some example_bound_options) = Inr ctx \<and>
     length (cx_descs ctx) = 1 \<and> map (te_owning_gpu \<circ> tmd_entry) (cx_tm_descs ctx) = [0, 2] \<and>
     map (te_scale_offset \<circ> tmd_entry) (cx_tm_descs ctx) = [16, 16] \<and>
     map (te_layer_id \<circ> tmd_entry) (cx_tm_descs ctx) = [0, 0]"
proof -
  have "case ds4_context_open example_bound_fs (Some example_bound_options) of
      Inr ctx \<Rightarrow> length (cx_descs ctx) = 1 \<and> map (te_owning_gpu \<circ> tmd_entry) (cx_tm_descs ctx) = [0, 2] \<and>
        map (te_scale_offset \<circ> tmd_entry) (cx_tm_descs ctx) = [16, 16] \<and> map (te_layer_id \<circ> tmd_entry) (cx_tm_descs ctx) = [0, 0]
    | Inl _ \<Rightarrow> False"
    by code_simp
  then show ?thesis by (auto split: sum.splits)
qed

theorem bound_tensors_sound_witness:
  "\<exists>ctx. ds4_context_open example_bound_fs (Some example_bound_options) = Inr ctx \<and>
     length (cx_descs ctx) = 1 \<and> map (te_owning_gpu \<circ> tmd_entry) (cx_tm_descs ctx) = [0, 2] \<and>
     (\<exists>d \<in> set (cx_descs ctx). expected_bytes_for_entry (td_entry d) = Some (pe_byte_length (td_entry d))) \<and>
     names_tensor_half (te_semantic_tensor_id (tmd_entry (cx_tm_descs ctx ! 1))) \<and>
     16 \<le> unat (sg_arena_bytes (cx_stages ctx ! 2))"
proof -
  obtain ctx where op: "ds4_context_open example_bound_fs (Some example_bound_options) = Inr ctx"
    and c: "length (cx_descs ctx) = 1" "map (te_owning_gpu \<circ> tmd_entry) (cx_tm_descs ctx) = [0, 2]"
      "map (te_scale_offset \<circ> tmd_entry) (cx_tm_descs ctx) = [16, 16]"
    and l: "map (te_layer_id \<circ> tmd_entry) (cx_tm_descs ctx) = [0, 0]"
    using example_bound_opens by auto
  obtain d1 d2 where ds: "cx_tm_descs ctx = [d1, d2]" "te_owning_gpu (tmd_entry d2) = 2"
    "te_scale_offset (tmd_entry d2) = 16" "te_layer_id (tmd_entry d2) = 0"
    using c(2,3) l by (auto simp: map_eq_Cons_conv)
  obtain d where d: "cx_descs ctx = [d]" using c(1) by (auto simp: length_Suc_conv)
  have s: "stage_of_layer 0 \<noteq> 2" by (simp add: stage_of_layer_def)
  show ?thesis
    using bound_tensors_sound [OF op] op c s ds d by (simp add: Let_def)
qed

theorem context_counters_exact_witness:
  "\<exists>ctx. ds4_context_open example_token_fs (Some example_token_options) = Inr ctx \<and>
     sg_tensor_count (cx_stages ctx ! 3) = of_nat (stage_tensors ctx 3)"
  using example_token_opens context_counters_exact [of example_token_fs "Some example_token_options"] by force

theorem skeleton_check_iff_witness:
  "\<exists>ctx. ds4_context_open example_token_fs (Some example_token_options) = Inr ctx \<and>
     (ds4_context_validate_layer_skeleton ctx = Inr () \<longrightarrow> layer_has ctx 7 DS4_V100_FAMILY_FP8_DENSE)"
proof -
  obtain ctx where op: "ds4_context_open example_token_fs (Some example_token_options) = Inr ctx"
    and n: "length (cx_descs ctx) = 1" using example_token_opens by blast
  have "tm_pack_rows example_token_fs (open_options (Some example_token_options)) = []"
    by (simp add: tm_pack_rows_def open_options_def example_token_options_def ds4_context_options_init_def)
  then have tm: "cx_tm_descs ctx = []" using ds4_context_open_result(7) [OF op] by simp
  have ne: "cx_descs ctx \<noteq> []" using n by auto
  show ?thesis using skeleton_check_iff [OF op ne] n op tm by auto
qed

theorem tensor_lookup_exact_witness:
  "\<exists>ctx. ds4_context_open example_token_fs (Some example_token_options) = Inr ctx \<and>
     ds4_context_lookup_tensor_binding ctx ''x'' = Inl (Missing_descriptor ''x'')"
proof -
  obtain ctx where op: "ds4_context_open example_token_fs (Some example_token_options) = Inr ctx"
    using example_token_opens by blast
  have o: "cx_opts ctx = example_token_options" using ds4_context_open_result(2) [OF op] by (simp add: open_options_def)
  have "\<forall>e \<in> set (pack_rows example_token_fs example_token_options). pe_semantic_tensor_id e \<noteq> ''x''"
    by code_simp
  then show ?thesis using tensor_lookup_exact [OF op, of "''x''"] op o by auto
qed

theorem memory_budget_sound_witness:
  "\<exists>ctx. ds4_context_open (\<lambda>_. None) (Some (production_options 0)) = Inr ctx \<and>
     sum_list (stage_parts (cx_stages ctx ! 0)) + unat (sg_reserve_bytes (cx_stages ctx ! 0)) \<le> 34359738368"
proof -
  obtain ctx where op: "ds4_context_open (\<lambda>_. None) (Some (production_options 0)) = Inr ctx"
    "sum_list (stage_parts (cx_stages ctx ! 0)) < 100000" using example_production_opens by blast
  have o: "cx_opts ctx = production_options 0" using ds4_context_open_result(2) [OF op(1)] by (simp add: open_options_def)
  have "df_total_global_mem (example_facts ! 0) = 34359738368" by (simp add: example_facts_def)
  then show ?thesis
    using memory_budget_sound [OF op(1), of 0] op o by (auto simp: production_options_def)
qed

end
