(* ===== verification/Source_Formats.thy ===== *)
theory Source_Formats
  imports Prelude Complex_Main
begin

text \<open>
  The source tensor formats (\<open>src/ds4_source_formats.c\<close>): the byte size of a packed row, the check
  of a row span, the decoding of the small number formats, the order in which the elements of a
  block are stored, and the conversion of routing ids. A number a decoder returns is a
  \<open>f32_value\<close>: the exact rational, an infinity or a NaN. Every value here is exact in
  single precision; \<open>scaled_product_exact\<close> states it for the products. The two dot products, which
  accumulate in double precision, are not modelled.
\<close>

section \<open>Row sizes\<close>

definition DS4_SRC_F8_E4M3_B128_BLOCK_ELEMS :: u64 where "DS4_SRC_F8_E4M3_B128_BLOCK_ELEMS = 128"
definition DS4_SRC_F8_E4M3_B128_BLOCK_BYTES :: u64 where "DS4_SRC_F8_E4M3_B128_BLOCK_BYTES = 129"
definition DS4_SRC_MXFP4_BLOCK_ELEMS :: u64 where "DS4_SRC_MXFP4_BLOCK_ELEMS = 32"
definition DS4_SRC_MXFP4_BLOCK_BYTES :: u64 where "DS4_SRC_MXFP4_BLOCK_BYTES = 17"

definition packed_row_bytes :: "u64 \<Rightarrow> u64 \<Rightarrow> u64 \<Rightarrow> u64" where
  "packed_row_bytes ncols block_elems block_bytes =
     (if ncols = 0 \<or> ncols mod block_elems \<noteq> 0 then 0
      else (let nblocks = ncols div block_elems in
            if nblocks > UINT64_MAX div block_bytes then 0 else nblocks * block_bytes))"

datatype span_error = Bad_row_length | Row_bytes_overflow | Undersized_row_span

definition validate_packed_row_span :: "u64 \<Rightarrow> u64 \<Rightarrow> u64 \<Rightarrow> u64 \<Rightarrow> span_error + unit" where
  "validate_packed_row_span ncols span_bytes block_elems block_bytes =
     (if ncols = 0 \<or> ncols mod block_elems \<noteq> 0 then Inl Bad_row_length
      else (let need = packed_row_bytes ncols block_elems block_bytes in
            if need = 0 then Inl Row_bytes_overflow
            else if span_bytes < need then Inl Undersized_row_span
            else Inr ()))"

definition ds4_src_f8_e4m3_b128_row_bytes :: "u64 \<Rightarrow> u64" where
  "ds4_src_f8_e4m3_b128_row_bytes ncols =
     packed_row_bytes ncols DS4_SRC_F8_E4M3_B128_BLOCK_ELEMS DS4_SRC_F8_E4M3_B128_BLOCK_BYTES"

definition ds4_src_mxfp4_row_bytes :: "u64 \<Rightarrow> u64" where
  "ds4_src_mxfp4_row_bytes ncols =
     packed_row_bytes ncols DS4_SRC_MXFP4_BLOCK_ELEMS DS4_SRC_MXFP4_BLOCK_BYTES"

definition ds4_src_f8_e4m3_b128_validate_row_span :: "u64 \<Rightarrow> u64 \<Rightarrow> span_error + unit" where
  "ds4_src_f8_e4m3_b128_validate_row_span ncols span_bytes =
     validate_packed_row_span ncols span_bytes
       DS4_SRC_F8_E4M3_B128_BLOCK_ELEMS DS4_SRC_F8_E4M3_B128_BLOCK_BYTES"

definition ds4_src_mxfp4_validate_row_span :: "u64 \<Rightarrow> u64 \<Rightarrow> span_error + unit" where
  "ds4_src_mxfp4_validate_row_span ncols span_bytes =
     validate_packed_row_span ncols span_bytes DS4_SRC_MXFP4_BLOCK_ELEMS DS4_SRC_MXFP4_BLOCK_BYTES"

section \<open>Number formats\<close>

text \<open>
  A single precision value: a sign and a magnitude, an infinity with its sign, or a NaN. Multiplication is that of
  IEEE 754 with rounding to nearest, ties to even: the unit in the last place is the smallest
  power of two, from \<open>2 ^ -149\<close> on, for which the product has at most 24 bits.
\<close>

datatype f32_value = F32_NaN | F32_Inf bool | F32 bool rat

definition f32_from_bits :: "u32 \<Rightarrow> f32_value" where
  "f32_from_bits bits =
     (let s = bit bits 31;
          e = unat (drop_bit 23 bits AND 255);
          m = of_nat (unat (bits AND mask 23))
      in if e = 255 then (if m = 0 then F32_Inf s else F32_NaN)
         else if e = 0 then F32 s (m * 2 powi (- 149))
         else F32 s ((2 ^ 23 + m) * 2 powi (int e - 150)))"

definition f32_ulp_exp :: "rat \<Rightarrow> int option" where
  "f32_ulp_exp p = List.find (\<lambda>k. p < 2 powi (k + 24)) [- 149..104]"

definition round_half_even :: "rat \<Rightarrow> int" where
  "round_half_even q =
     (let n = \<lfloor>q\<rfloor>; r = q - of_int n in
      if r < 1 / 2 \<or> (r = 1 / 2 \<and> even n) then n else n + 1)"

definition f32_round :: "bool \<Rightarrow> rat \<Rightarrow> f32_value" where
  "f32_round s p =
     (case f32_ulp_exp p of
        None \<Rightarrow> F32_Inf s
      | Some k \<Rightarrow> (let v = of_int (round_half_even (p / 2 powi k)) * 2 powi k in
                   if v \<ge> 2 ^ 128 then F32_Inf s else F32 s v))"

fun f32_mul :: "f32_value \<Rightarrow> f32_value \<Rightarrow> f32_value" where
  "f32_mul (F32 s a) (F32 t b) = f32_round (s \<noteq> t) (a * b)"
| "f32_mul (F32_Inf s) (F32_Inf t) = F32_Inf (s \<noteq> t)"
| "f32_mul (F32_Inf s) (F32 t b) = (if b = 0 then F32_NaN else F32_Inf (s \<noteq> t))"
| "f32_mul (F32 s a) (F32_Inf t) = (if a = 0 then F32_NaN else F32_Inf (s \<noteq> t))"
| "f32_mul F32_NaN _ = F32_NaN"
| "f32_mul _ F32_NaN = F32_NaN"

definition ds4_src_bf16_to_f32 :: "u16 \<Rightarrow> f32_value" where
  "ds4_src_bf16_to_f32 bits = f32_from_bits (push_bit 16 (ucast bits))"

definition ds4_src_e8m0_to_f32 :: "u8 \<Rightarrow> f32_value" where
  "ds4_src_e8m0_to_f32 e =
     f32_from_bits (if e = 0 then 0x00400000 else push_bit 23 (ucast e))"

definition ds4_src_e4m3fn_to_f32 :: "u8 \<Rightarrow> f32_value" where
  "ds4_src_e4m3fn_to_f32 x =
     (let abs = x AND 0x7f; sign = (x AND 0x80 \<noteq> 0) in
      if abs = 0 then f32_from_bits (if sign then 0x80000000 else 0)
      else if abs = 0x7f then f32_from_bits 0x7fc00000
      else (let exp = unat (drop_bit 3 x AND 0x0f);
                man = of_nat (unat (x AND 0x07));
                value = (if exp = 0 then man * 2 powi (- 9) else (1 + man / 8) * 2 powi (int exp - 7))
            in F32 sign value))"

definition fp4_table :: "f32_value list" where
  "fp4_table = [F32 False 0, F32 False (1 / 2), F32 False 1, F32 False (3 / 2),
     F32 False 2, F32 False 3, F32 False 4, F32 False 6,
     F32 False 0, F32 True (1 / 2), F32 True 1, F32 True (3 / 2),
     F32 True 2, F32 True 3, F32 True 4, F32 True 6]"

definition ds4_src_mxfp4_nibble_to_f32 :: "u8 \<Rightarrow> f32_value" where
  "ds4_src_mxfp4_nibble_to_f32 q = fp4_table ! unat (q AND 0x0f)"

section \<open>Rows\<close>

text \<open>
  The row routines write into the destination array \<open>dst\<close>. A null pointer has no counterpart
  here; the caller supplies buffers of the size of the row, as the C functions demand.
\<close>

definition ds4_src_bf16_row_to_f32 :: "f32_value list \<Rightarrow> u16 list \<Rightarrow> nat \<Rightarrow> f32_value list option" where
  "ds4_src_bf16_row_to_f32 dst src n =
     (if n = 0 then None
      else Some (fold (\<lambda>i d. d[i := ds4_src_bf16_to_f32 (src ! i)]) [0..<n] dst))"

definition f8_block :: "u8 list \<Rightarrow> nat \<Rightarrow> f32_value list \<Rightarrow> f32_value list" where
  "f8_block src b dst =
     (let scale = ds4_src_e8m0_to_f32 (src ! (b * 129)) in
      fold (\<lambda>i d. d[b * 128 + i := f32_mul (ds4_src_e4m3fn_to_f32 (src ! (b * 129 + 1 + i))) scale])
        [0..<128] dst)"

definition ds4_src_f8_e4m3_b128_row_to_f32 ::
  "f32_value list \<Rightarrow> u8 list \<Rightarrow> nat \<Rightarrow> f32_value list option" where
  "ds4_src_f8_e4m3_b128_row_to_f32 dst src ncols =
     (if ncols = 0 \<or> ncols mod 128 \<noteq> 0 then None
      else Some (fold (f8_block src) [0..<ncols div 128] dst))"

definition mxfp4_block :: "u8 list \<Rightarrow> nat \<Rightarrow> f32_value list \<Rightarrow> f32_value list" where
  "mxfp4_block src b dst =
     (let scale = ds4_src_e8m0_to_f32 (src ! (b * 17)) in
      fold (\<lambda>j d. let q = src ! (b * 17 + 1 + j) in
                  d[b * 32 + j := f32_mul (ds4_src_mxfp4_nibble_to_f32 (q AND 0x0f)) scale,
                    b * 32 + (j + 16) := f32_mul (ds4_src_mxfp4_nibble_to_f32 (drop_bit 4 q AND 0x0f)) scale])
        [0..<16] dst)"

definition ds4_src_mxfp4_row_to_f32 ::
  "f32_value list \<Rightarrow> u8 list \<Rightarrow> nat \<Rightarrow> f32_value list option" where
  "ds4_src_mxfp4_row_to_f32 dst src ncols =
     (if ncols = 0 \<or> ncols mod 32 \<noteq> 0 then None
      else Some (fold (mxfp4_block src) [0..<ncols div 32] dst))"

section \<open>Routing ids\<close>

datatype i32_error = I32_empty | I32_negative

text \<open>\<open>Inl\<close> keeps the ids written before the first negative one.\<close>

fun i32_row_loop :: "int list \<Rightarrow> u32 list \<Rightarrow> (i32_error \<times> u32 list) + u32 list" where
  "i32_row_loop [] dst = Inr dst"
| "i32_row_loop (x # xs) dst =
     (if x < 0 then Inl (I32_negative, dst) else i32_row_loop xs (dst @ [of_int x]))"

definition ds4_src_i32_row_to_u32 :: "int list \<Rightarrow> (i32_error \<times> u32 list) + u32 list" where
  "ds4_src_i32_row_to_u32 src = (if src = [] then Inl (I32_empty, []) else i32_row_loop src [])"

section \<open>Row sizes are exact\<close>

lemma packed_row_bytes_exact:
  assumes "0 < unat be" "unat be \<le> unat n" "unat n mod unat be = 0"
    "unat n div unat be * unat bb \<le> 18446744073709551615" "bb \<noteq> 0"
  shows "unat (packed_row_bytes n be bb) = unat n div unat be * unat bb"
proof -
  have n: "n \<noteq> 0" "n mod be = 0"
    using assms(1,2,3) by (auto simp: word_eq_iff_unsigned unat_mod simp flip: unat_eq_zero)
  have "\<not> UINT64_MAX div bb < n div be"
    using assms(4,5) by (simp add: u64_mul_overflow_iff unat_div mult.commute)
  with n assms(4) show ?thesis
    by (simp add: packed_row_bytes_def Let_def unat_times_no_overflow unat_div)
qed

lemma packed_row_bytes_le: "unat (packed_row_bytes n be bb) \<le> unat n div unat be * unat bb"
proof (cases "n = 0 \<or> n mod be \<noteq> 0 \<or> UINT64_MAX div bb < n div be")
  case True
  then show ?thesis by (auto simp: packed_row_bytes_def Let_def)
next
  case False
  then have "packed_row_bytes n be bb = n div be * bb" by (simp add: packed_row_bytes_def)
  moreover have "unat (n div be * bb) \<le> unat (n div be) * unat bb"
    by (simp add: unat_word_ariths)
  ultimately show ?thesis by (simp add: unat_div)
qed

lemma mxfp4_row_bytes_le: "unat (ds4_src_mxfp4_row_bytes n) \<le> unat n div 32 * 17"
  using packed_row_bytes_le [of n 32 17]
  by (simp add: ds4_src_mxfp4_row_bytes_def DS4_SRC_MXFP4_BLOCK_ELEMS_def DS4_SRC_MXFP4_BLOCK_BYTES_def)

section \<open>Products of the block formats are exact\<close>

lemma find_upto_Some:
  "List.find P [a..b] = Some k \<Longrightarrow> a \<le> k \<and> P k \<and> (\<forall>k'. a \<le> k' \<longrightarrow> k' < k \<longrightarrow> \<not> P k')"
proof (induction a b rule: upto.induct)
  case (1 a b)
  show ?case
  proof (cases "a \<le> b \<and> \<not> P a")
    case True
    with 1 have "a + 1 \<le> k \<and> P k \<and> (\<forall>k'. a + 1 \<le> k' \<longrightarrow> k' < k \<longrightarrow> \<not> P k')"
      by (simp add: upto.simps [of a b])
    with True show ?thesis by (metis order_le_less zless_imp_add1_zle zle_add1_eq_le order_trans)
  next
    case False
    with 1(2) show ?thesis by (auto simp: upto.simps [of a b] split: if_splits)
  qed
qed

lemma f32_ulp_exp_Some:
  assumes "p < 2 ^ 128"
  obtains k where "f32_ulp_exp p = Some k" "- 149 \<le> k"
    "\<And>k'. - 149 \<le> k' \<Longrightarrow> k' < k \<Longrightarrow> \<not> p < 2 powi (k' + 24)"
proof (cases "f32_ulp_exp p")
  case None
  then have "\<forall>k \<in> {- 149..104}. \<not> p < 2 powi (k + 24)"
    by (simp only: f32_ulp_exp_def find_None_iff set_upto) blast
  then have "\<not> p < 2 powi (104 + 24)" by (rule bspec) simp
  with assms show ?thesis by (simp add: power_int_def)
next
  case (Some k)
  with find_upto_Some [of "\<lambda>k. p < 2 powi (k + 24)" "- 149" 104 k] that show ?thesis
    unfolding f32_ulp_exp_def by blast
qed

lemma round_half_even_of_int: "round_half_even (of_int n) = n"
  by (simp add: round_half_even_def Let_def)

lemma f32_round_exact:
  assumes p: "p = of_int m * 2 powi j" "p < 2 ^ 128" and m: "m < 2 ^ 24" and j: "- 149 \<le> j"
  shows "f32_round s p = F32 s p"
proof -
  obtain k where k: "f32_ulp_exp p = Some k" "- 149 \<le> k"
      "\<And>k'. - 149 \<le> k' \<Longrightarrow> k' < k \<Longrightarrow> \<not> p < 2 powi (k' + 24)"
    using f32_ulp_exp_Some [OF p(2)] by metis
  have "p < 2 powi (j + 24)"
  proof -
    have "(of_int m :: rat) < of_int (2 ^ 24)" using m by (simp only: of_int_less_iff)
    then have "(of_int m :: rat) < 2 ^ 24" by simp
    then have "of_int m * 2 powi j < (2 ^ 24 :: rat) * 2 powi j" by (intro mult_strict_right_mono) auto
    also have "\<dots> = 2 powi (j + 24)" by (subst power_int_add) (auto simp: power_int_def)
    finally show ?thesis using p(1) by simp
  qed
  with k(3) j have "k \<le> j" by force
  then have "p / 2 powi k = of_int m * 2 powi (j - k)"
    using p(1) by (simp add: power_int_diff)
  also have "\<dots> = of_int (m * 2 ^ nat (j - k))" using \<open>k \<le> j\<close> by (simp add: power_int_def)
  finally have q: "p / 2 powi k = of_int (m * 2 ^ nat (j - k))" .
  have "of_int (round_half_even (p / 2 powi k)) * 2 powi k = p"
    by (simp only: q round_half_even_of_int) (simp only: q [symmetric], simp)
  with p(2) show ?thesis by (simp add: f32_round_def k(1) Let_def)
qed

section \<open>Rows are decoded element by element\<close>

text \<open>A sequence of writes into an array, as index and value pairs.\<close>

definition write_all :: "(nat \<times> 'a) list \<Rightarrow> 'a list \<Rightarrow> 'a list" where
  "write_all ws dst = fold (\<lambda>(i, v) d. d[i := v]) ws dst"

lemma write_all_simps [simp]:
  "write_all [] dst = dst"
  "write_all (w # ws) dst = write_all ws (dst[fst w := snd w])"
  by (simp_all add: write_all_def case_prod_beta)

lemma write_all_append: "write_all (xs @ ys) d = write_all ys (write_all xs d)"
  by (simp add: write_all_def)

lemma fold_write_all: "fold (\<lambda>i. write_all (g i)) is dst = write_all (concat (map g is)) dst"
proof (induction "is" arbitrary: dst)
  case Nil
  then show ?case by simp
next
  case (Cons a as)
  then show ?case by (simp add: write_all_append)
qed

lemma length_write_all [simp]: "length (write_all ws dst) = length dst"
  by (induction ws arbitrary: dst) auto

lemma nth_write_all:
  "k < length dst \<Longrightarrow> \<forall>(i, v) \<in> set ws. v = f i \<Longrightarrow>
     write_all ws dst ! k = (if k \<in> fst ` set ws then f k else dst ! k)"
proof (induction ws arbitrary: dst)
  case Nil
  then show ?case by simp
next
  case (Cons w ws)
  then show ?case by (cases w) (auto simp: nth_list_update)
qed

text \<open>When every write at an index stores the reference value of that index and every index is written.\<close>

lemma write_all_eq_map:
  assumes "\<forall>(i, v) \<in> set ws. v = f i" and "{..<length dst} \<subseteq> fst ` set ws"
  shows "write_all ws dst = map f [0..<length dst]"
  using assms(2) nth_write_all [OF _ assms(1)] by (intro nth_equalityI) auto

definition mxfp4_element :: "u8 list \<Rightarrow> nat \<Rightarrow> f32_value" where
  "mxfp4_element src k =
     (let q = src ! (k div 32 * 17 + 1 + k mod 16);
          nibble = (if k mod 32 < 16 then q AND 0x0f else drop_bit 4 q AND 0x0f)
      in f32_mul (ds4_src_mxfp4_nibble_to_f32 nibble) (ds4_src_e8m0_to_f32 (src ! (k div 32 * 17))))"

definition f8_element :: "u8 list \<Rightarrow> nat \<Rightarrow> f32_value" where
  "f8_element src k =
     f32_mul (ds4_src_e4m3fn_to_f32 (src ! (k div 128 * 129 + 1 + k mod 128)))
       (ds4_src_e8m0_to_f32 (src ! (k div 128 * 129)))"

lemma fold_write_one: "fold (\<lambda>i d. d[p i := v i]) is dst = write_all (map (\<lambda>i. (p i, v i)) is) dst"
  by (induction "is" arbitrary: dst) auto

text \<open>A block loop whose every block writes its own elements decodes the whole row.\<close>

lemma blocks_decode_row:
  assumes blk: "\<And>b d. block b d = write_all (writes b) d"
    and val: "\<And>b i v. (i, v) \<in> set (writes b) \<Longrightarrow> v = elem i"
    and cover: "\<And>b i. i < n \<Longrightarrow> b * n + i \<in> fst ` set (writes b)"
    and len: "length dst = m * n" and n: "0 < n"
  shows "fold block [0..<m] dst = map elem [0..<m * n]"
proof -
  let ?ws = "concat (map writes [0..<m])"
  have "block = (\<lambda>b. write_all (writes b))" using blk by blast
  then have "fold block [0..<m] dst = write_all ?ws dst" by (simp only: fold_write_all)
  also have "\<dots> = map elem [0..<length dst]"
  proof (rule write_all_eq_map)
    show "\<forall>(i, v) \<in> set ?ws. v = elem i" using val by auto
    have "k \<in> fst ` set ?ws" if "k < m * n" for k
    proof -
      have "k \<in> fst ` set (writes (k div n))" "k div n < m"
        using cover [of "k mod n" "k div n"] that n by (simp_all add: less_mult_imp_div_less)
      then show ?thesis by (auto simp: image_iff)
    qed
    then show "{..<length dst} \<subseteq> fst ` set ?ws" using len by auto
  qed
  finally show ?thesis using len by simp
qed

definition f8_writes :: "u8 list \<Rightarrow> nat \<Rightarrow> (nat \<times> f32_value) list" where
  "f8_writes src b = map (\<lambda>i. (b * 128 + i, f8_element src (b * 128 + i))) [0..<128]"

definition mxfp4_writes :: "u8 list \<Rightarrow> nat \<Rightarrow> (nat \<times> f32_value) list" where
  "mxfp4_writes src b = concat (map (\<lambda>j. [(b * 32 + j, mxfp4_element src (b * 32 + j)),
     (b * 32 + (j + 16), mxfp4_element src (b * 32 + (j + 16)))]) [0..<16])"

lemma f8_block_writes: "f8_block src b d = write_all (f8_writes src b) d"
proof -
  have "f8_block src b d = write_all (map (\<lambda>i. (b * 128 + i,
      f32_mul (ds4_src_e4m3fn_to_f32 (src ! (b * 129 + 1 + i))) (ds4_src_e8m0_to_f32 (src ! (b * 129))))) [0..<128]) d"
    unfolding f8_block_def Let_def by (rule fold_write_one)
  also have "map (\<lambda>i. (b * 128 + i,
      f32_mul (ds4_src_e4m3fn_to_f32 (src ! (b * 129 + 1 + i))) (ds4_src_e8m0_to_f32 (src ! (b * 129))))) [0..<128] =
      f8_writes src b"
    unfolding f8_writes_def f8_element_def by (intro map_cong refl) simp_all
  finally show ?thesis .
qed

lemma mxfp4_block_writes: "mxfp4_block src b d = write_all (mxfp4_writes src b) d"
proof -
  have "fold (\<lambda>j d. let q = src ! (b * 17 + 1 + j) in
          d[b * 32 + j := f32_mul (ds4_src_mxfp4_nibble_to_f32 (q AND 0x0f)) (ds4_src_e8m0_to_f32 (src ! (b * 17))),
            b * 32 + (j + 16) := f32_mul (ds4_src_mxfp4_nibble_to_f32 (drop_bit 4 q AND 0x0f))
              (ds4_src_e8m0_to_f32 (src ! (b * 17)))]) [0..<16] d =
      fold (\<lambda>j. write_all [(b * 32 + j, mxfp4_element src (b * 32 + j)),
        (b * 32 + (j + 16), mxfp4_element src (b * 32 + (j + 16)))]) [0..<16] d"
  proof (intro fold_cong refl ext)
    fix j d assume "j \<in> set [0..<16]"
    then have "j < 16" by simp
    then have dm: "(b * 32 + j) div 32 = b" "(b * 32 + j) mod 32 = j"
      "(b * 32 + (j + 16)) div 32 = b" "(b * 32 + (j + 16)) mod 32 = j + 16" by simp_all
    moreover have "(b * 32 + j) mod 16 = j" "(b * 32 + (j + 16)) mod 16 = j"
      using mod_mod_cancel [of 16 32 "b * 32 + j"] mod_mod_cancel [of 16 32 "b * 32 + (j + 16)"]
        \<open>j < 16\<close> unfolding dm by simp_all
    ultimately show "(let q = src ! (b * 17 + 1 + j) in
          d[b * 32 + j := f32_mul (ds4_src_mxfp4_nibble_to_f32 (q AND 0x0f)) (ds4_src_e8m0_to_f32 (src ! (b * 17))),
            b * 32 + (j + 16) := f32_mul (ds4_src_mxfp4_nibble_to_f32 (drop_bit 4 q AND 0x0f))
              (ds4_src_e8m0_to_f32 (src ! (b * 17)))]) =
        write_all [(b * 32 + j, mxfp4_element src (b * 32 + j)),
          (b * 32 + (j + 16), mxfp4_element src (b * 32 + (j + 16)))] d"
      using \<open>j < 16\<close> by (simp add: mxfp4_element_def Let_def)
  qed
  then show ?thesis unfolding mxfp4_block_def mxfp4_writes_def Let_def fold_write_all .
qed

lemma f8_row_elements:
  assumes "length dst = ncols" "ncols \<noteq> 0" "ncols mod 128 = 0"
  shows "ds4_src_f8_e4m3_b128_row_to_f32 dst src ncols = Some (map (f8_element src) [0..<ncols])"
proof -
  have "fold (f8_block src) [0..<ncols div 128] dst = map (f8_element src) [0..<ncols div 128 * 128]"
    by (rule blocks_decode_row [where writes = "f8_writes src"])
       (use assms in \<open>auto simp: f8_block_writes f8_writes_def image_iff\<close>)
  then show ?thesis using assms by (auto simp: ds4_src_f8_e4m3_b128_row_to_f32_def)
qed

lemma mxfp4_row_elements:
  assumes "length dst = ncols" "ncols \<noteq> 0" "ncols mod 32 = 0"
  shows "ds4_src_mxfp4_row_to_f32 dst src ncols = Some (map (mxfp4_element src) [0..<ncols])"
proof -
  have "fold (mxfp4_block src) [0..<ncols div 32] dst = map (mxfp4_element src) [0..<ncols div 32 * 32]"
  proof (rule blocks_decode_row [where writes = "mxfp4_writes src"])
    fix b i :: nat assume "i < 32"
    then show "b * 32 + i \<in> fst ` set (mxfp4_writes src b)"
      by (cases "i < 16") (auto simp: mxfp4_writes_def image_iff intro: bexI [of _ "i - 16"] bexI [of _ i])
  qed (use assms in \<open>auto simp: mxfp4_block_writes mxfp4_writes_def\<close>)
  then show ?thesis using assms by (auto simp: ds4_src_mxfp4_row_to_f32_def)
qed

section \<open>The value of a scaled element\<close>

lemma e8m0_value:
  assumes "e \<noteq> 255"
  shows "ds4_src_e8m0_to_f32 e = F32 False (2 powi (int (unat e) - 127))"
proof (cases "e = 0")
  case True
  have b: "bit (0x00400000 :: u32) 31 = False" "unat (drop_bit 23 (0x00400000 :: u32) AND 255) = 0"
    "unat (0x00400000 AND mask 23 :: u32) = 2 ^ 22"
    by code_simp+
  have "of_nat (2 ^ 22) * 2 powi (- 149) = (2 powi 22 * 2 powi (- 149) :: rat)"
    by (simp add: power_int_def)
  also have "\<dots> = 2 powi (- 127)" by (subst power_int_add [symmetric]) simp_all
  finally have "f32_from_bits 0x00400000 = F32 False (2 powi (- 127))"
    by (simp only: f32_from_bits_def Let_def b zero_neq_numeral if_False refl if_True)
  with True show ?thesis by (simp add: ds4_src_e8m0_to_f32_def)
next
  case False
  let ?b = "push_bit 23 (ucast e) :: u32"
  have e: "unat e < 256" "unat e \<noteq> 255" "unat e \<noteq> 0"
    using unsigned_less [of e, where 'a = nat] assms False
    by (simp_all add: word_unat_eq_iff [of e 255] word_unat_eq_iff [of e 0])
  have m8: "(255 :: u32) = mask 8" by (simp add: mask_eq_exp_minus_1)
  have "drop_bit 23 ?b AND 255 = ucast e"
    unfolding m8 by (rule bit_word_eqI) (auto simp: bit_simps dest: bit_imp_le_length)
  then have ex: "unat (drop_bit 23 ?b AND 255) = unat e"
    using e by (simp add: unsigned_ucast_eq take_bit_nat_eq_self)
  have m: "?b AND mask 23 = 0"
    by (rule bit_word_eqI) (auto simp: bit_simps)
  have "\<not> bit ?b 31"
    by (auto simp: bit_simps dest: bit_imp_le_length)
  then have "f32_from_bits ?b = F32 False ((2 ^ 23 + 0) * 2 powi (int (unat e) - 150))"
    unfolding f32_from_bits_def ex m Let_def using e by simp
  also have "(2 ^ 23 + 0) * 2 powi (int (unat e) - 150) = (2 :: rat) powi (int (unat e) - 127)"
  proof -
    have "(2 :: rat) powi (int (unat e) - 127) = 2 powi 23 * 2 powi (int (unat e) - 150)"
      by (subst power_int_add [symmetric]) simp_all
    then show ?thesis by (simp add: power_int_def)
  qed
  finally show ?thesis using False by (simp add: ds4_src_e8m0_to_f32_def)
qed

lemma f32_round_overflow: "2 ^ 128 \<le> p \<Longrightarrow> f32_round s p = F32_Inf s"
proof -
  assume p: "2 ^ 128 \<le> p"
  have "List.find (\<lambda>k. p < 2 powi (k + 24)) [- 149..104] = None"
    unfolding find_None_iff set_upto
  proof
    assume "\<exists>k. k \<in> {- 149..104} \<and> p < 2 powi (k + 24)"
    then obtain k :: int where k: "k \<in> {- 149..104}" "p < 2 powi (k + 24)" by blast
    have "(2 :: rat) powi (k + 24) \<le> 2 powi 128" using k(1) by (intro power_int_increasing) auto
    with k(2) p show False by (simp add: power_int_def)
  qed
  then show ?thesis by (simp add: f32_round_def f32_ulp_exp_def del: upto_rec_numeral)
qed

lemma fp4_table_value:
  assumes "n < 16"
  obtains s m where "fp4_table ! n = F32 s (of_int m / 2)" "0 \<le> m" "m \<le> 12"
proof -
  have "list_all (\<lambda>v. \<exists>m \<in> {0, 1, 2, 3, 4, 6, 8, 12}. v = F32 False (of_int m / 2) \<or> v = F32 True (of_int m / 2)) fp4_table"
    by (simp add: fp4_table_def)
  moreover have "n < length fp4_table" using assms by (simp add: fp4_table_def)
  ultimately obtain m :: int where "m \<in> {0, 1, 2, 3, 4, 6, 8, 12}"
      "fp4_table ! n = F32 False (of_int m / 2) \<or> fp4_table ! n = F32 True (of_int m / 2)"
    unfolding list_all_length by blast
  moreover from this(1) have "0 \<le> m" "m \<le> 12" by auto
  ultimately show ?thesis using that by blast
qed

text \<open>The product of a nibble and its block scale is exact, or an infinity beyond the range.\<close>

lemma scaled_product_exact:
  assumes "e \<noteq> 255" "ds4_src_mxfp4_nibble_to_f32 q = F32 s v"
  shows "f32_mul (ds4_src_mxfp4_nibble_to_f32 q) (ds4_src_e8m0_to_f32 e) =
    (let p = v * 2 powi (int (unat e) - 127) in if p < 2 ^ 128 then F32 s p else F32_Inf s)"
proof -
  have "unat (q AND 0x0f) < 16"
    using word_and_le1 [of q "0x0f"] by (simp add: word_le_nat_alt)
  then obtain s' m where m: "fp4_table ! unat (q AND 0x0f) = F32 s' (of_int m / 2)" "0 \<le> m" "m \<le> 12"
    using fp4_table_value by blast
  then have v: "s' = s" "v = of_int m / 2" using assms(2) by (simp_all add: ds4_src_mxfp4_nibble_to_f32_def)
  let ?p = "v * 2 powi (int (unat e) - 127)"
  have "?p = of_int m * 2 powi (int (unat e) - 128)"
  proof -
    have "(2 :: rat) powi (int (unat e) - 127) = 2 * 2 powi (int (unat e) - 128)"
      by (subst power_int_add_1' [symmetric]) simp_all
    then show ?thesis by (simp add: v)
  qed
  then have "?p < 2 ^ 128 \<Longrightarrow> f32_round s ?p = F32 s ?p" by (rule f32_round_exact) (use m in auto)
  then show ?thesis
    using f32_round_overflow [of ?p s] by (simp add: assms(2) e8m0_value [OF assms(1)] Let_def)
qed

lemma nibble_finite: "\<exists>s v. ds4_src_mxfp4_nibble_to_f32 q = F32 s v"
proof -
  have "unat (q AND 0x0f) < 16"
    using word_and_le1 [of q "0x0f"] by (simp add: word_le_nat_alt)
  then show ?thesis
    unfolding ds4_src_mxfp4_nibble_to_f32_def using fp4_table_value by metis
qed

end
