(* ===== verification/Layer_State.thy ===== *)
theory Layer_State
  imports Context Source_Formats
begin

unbundle bit_operations_syntax

text \<open>
  The state of one layer (\<open>src/engine/layer_state.c\<close>, \<open>src/engine/layer_state.h\<close>): which bound
  tensors play which role in a layer, the matrices they are viewed as, the checks of their
  formats, owners and dimensions, the slices of the routed experts, and the part of a device
  arena a layer reads. Initialisation fills \<open>out\<close> step by step in C; here each step takes the state
  so far and returns it extended, or the error of the first check that fails. The fields of the C
  structure are grouped in sub-records, and a group guarded by a \<open>has_\<close> flag is an option.
\<close>

section \<open>Types\<close>

datatype ds4_router_kind = DS4_V100_ROUTER_UNKNOWN | DS4_V100_ROUTER_HASH | DS4_V100_ROUTER_BIAS

datatype layer_error =
    Binding_failed context_error
  | Matrix_format string | Matrix_length string
  | Expert_outside string u32 | Expert_span string
  | Turbomind_format string | Turbomind_partial_experts string | Fused_gate_up_shape string
  | Partial_tp2 int | Partial_turbomind int
  | Owner_mismatch string int
  | Router_dims | Hash_router_format | Bias_router_format | No_router
  | Invalid_layer int | Missing_stage int
  | Routed_not_3d | Attention_dims | Attention_control_dims | Compressor_dims | Indexer_dims
  | Routed_expert_counts | Routed_expert_dims | Tp2_odd_intermediate | Tp2_owners | Tp2_dims
  | Shared_expert_dims
  | Source_view_unavailable int | Expert_out_of_range u32 | Selected_expert_out_of_range int
  | Fixed_ffn_span_overflow | Turbomind_span_overflow | Routed_span_overflow
  | Attention_span_overflow | Compressor_span_overflow | Indexer_span_overflow
  | Empty_matrix | Not_bf16

record ds4_bound_matrix =
  bm_binding :: ds4_tensor_binding
  bm_rows :: u32
  bm_cols :: u32
  bm_planes :: u32
  bm_row_bytes :: u64
  bm_bytes :: u64
  bm_rel :: u64

record ds4_route_matrices =
  ro_gate :: ds4_bound_matrix
  ro_up :: ds4_bound_matrix
  ro_down :: ds4_bound_matrix

record ds4_gpu_turbomind_mxfp4_matrix_view =
  tv_weight_offset :: u64
  tv_scale_offset :: u64
  tv_weight_bytes_per_expert :: u64
  tv_scale_bytes_per_expert :: u64
  tv_n :: u32
  tv_k :: u32
  tv_experts_packed :: u32
  tv_experts_total :: u32
  tv_k_pack :: int
  tv_weight_stride :: int
  tv_scale_stride :: int
  tv_flags :: u32

definition DS4_GPU_TURBOMIND_MXFP4_GATE_UP_INTERLEAVED :: u32 where
  "DS4_GPU_TURBOMIND_MXFP4_GATE_UP_INTERLEAVED = 1"

text \<open>
  The routed experts. A TurboMind binding that was not found is \<open>None\<close>; its view stays zero. The
  two halves of a TP2 layer are lists of two, empty without TP2.
\<close>

record ds4_routed_state =
  rt_gate :: ds4_tensor_binding
  rt_up :: ds4_tensor_binding
  rt_down :: ds4_tensor_binding
  rt_has_turbomind :: bool
  rt_has_fused_gate_up :: bool
  rt_has_tp2 :: bool
  rt_tp2_peer_gpu :: int
  rt_tm_gate :: "ds4_turbomind_binding option"
  rt_tm_up :: "ds4_turbomind_binding option"
  rt_tm_gate_up :: "ds4_turbomind_binding option"
  rt_tm_down :: "ds4_turbomind_binding option"
  rt_tp2_gate_up :: "ds4_turbomind_binding list"
  rt_tp2_down :: "ds4_turbomind_binding list"
  rt_gate_view :: ds4_gpu_turbomind_mxfp4_matrix_view
  rt_up_view :: ds4_gpu_turbomind_mxfp4_matrix_view
  rt_gate_up_view :: ds4_gpu_turbomind_mxfp4_matrix_view
  rt_down_view :: ds4_gpu_turbomind_mxfp4_matrix_view
  rt_tp2_gate_up_view :: "ds4_gpu_turbomind_mxfp4_matrix_view list"
  rt_tp2_down_view :: "ds4_gpu_turbomind_mxfp4_matrix_view list"

record ds4_attention_state =
  at_q_a :: ds4_bound_matrix
  at_q_b :: ds4_bound_matrix
  at_kv_latent :: ds4_bound_matrix
  at_output_a :: ds4_bound_matrix
  at_output_b :: ds4_bound_matrix
  at_norm :: ds4_tensor_binding
  at_q_a_norm :: ds4_tensor_binding
  at_kv_a_norm :: ds4_tensor_binding
  at_sinks :: ds4_tensor_binding
  at_hc_fn :: ds4_tensor_binding
  at_hc_base :: ds4_tensor_binding
  at_hc_scale :: ds4_tensor_binding

record ds4_compressor_state =
  co_ape :: ds4_bound_matrix
  co_kv :: ds4_bound_matrix
  co_gate :: ds4_bound_matrix
  co_norm :: ds4_tensor_binding

record ds4_indexer_state =
  ix_attn_q_b :: ds4_bound_matrix
  ix_proj :: ds4_bound_matrix
  ix_compressor_ape :: ds4_bound_matrix
  ix_compressor_kv :: ds4_bound_matrix
  ix_compressor_gate :: ds4_bound_matrix
  ix_compressor_norm :: ds4_tensor_binding

record ds4_shared_state =
  sh_gate :: ds4_bound_matrix
  sh_up :: ds4_bound_matrix
  sh_down :: ds4_bound_matrix
  sh_ffn_norm :: ds4_tensor_binding
  sh_hc_fn :: ds4_tensor_binding
  sh_hc_base :: ds4_tensor_binding
  sh_hc_scale :: ds4_tensor_binding

record ds4_layer_state =
  ls_layer_id :: int
  ls_stage_id :: int
  ls_owning_gpu :: int
  ls_layer_class :: ds4_layer_class
  ls_kv_view :: ds4_layer_kv_view
  ls_hidden_size :: u32
  ls_q_lora_rank :: u32
  ls_q_width :: u32
  ls_kv_latent_width :: u32
  ls_attention_output_rank :: u32
  ls_compress_ratio :: u32
  ls_compressor_width :: u32
  ls_indexer_q_width :: u32
  ls_indexer_proj_width :: u32
  ls_indexer_compressor_width :: u32
  ls_intermediate_size :: u32
  ls_routed_experts :: u32
  ls_routes_per_token :: u32
  ls_router_token_capacity :: u32
  ls_router_kind :: ds4_router_kind
  ls_router :: ds4_bound_matrix
  ls_router_hash :: "ds4_tensor_binding option"
  ls_router_bias :: "ds4_tensor_binding option"
  ls_attention :: ds4_attention_state
  ls_compressor :: "ds4_compressor_state option"
  ls_indexer :: "ds4_indexer_state option"
  ls_routed :: ds4_routed_state
  ls_shared :: ds4_shared_state

fun ds4_router_kind_name :: "ds4_router_kind \<Rightarrow> string" where
  "ds4_router_kind_name DS4_V100_ROUTER_HASH = ''hash''"
| "ds4_router_kind_name DS4_V100_ROUTER_BIAS = ''bias''"
| "ds4_router_kind_name DS4_V100_ROUTER_UNKNOWN = ''unknown''"

section \<open>Bindings and matrices\<close>

abbreviation tb_owner :: "ds4_tensor_binding \<Rightarrow> int" where
  "tb_owner b \<equiv> pe_owning_gpu (tb_entry b)"

abbreviation tmb_owner :: "ds4_turbomind_binding \<Rightarrow> int" where
  "tmb_owner b \<equiv> te_owning_gpu (tmb_entry b)"

abbreviation n_shape_dims :: "ds4_tensor_binding \<Rightarrow> nat" where
  "n_shape_dims b \<equiv> length (tb_shape b)"

text \<open>\<open>strcmp\<close>, so the case of the dtype matters here.\<close>

definition dtype_is :: "ds4_tensor_binding \<Rightarrow> string \<Rightarrow> bool" where
  "dtype_is b dtype \<longleftrightarrow> pe_source_dtype (tb_entry b) = dtype"

definition lift_context :: "context_error + 'a \<Rightarrow> layer_error + 'a" where
  "lift_context r = (case r of Inl e \<Rightarrow> Inl (Binding_failed e) | Inr x \<Rightarrow> Inr x)"

definition bind_required :: "ds4_context \<Rightarrow> int \<Rightarrow> string \<Rightarrow> layer_error + ds4_tensor_binding" where
  "bind_required ctx layer_id suffix =
     lift_context (ds4_context_require_layer_tensor_binding ctx layer_id suffix)"

definition bind_optional :: "ds4_context \<Rightarrow> int \<Rightarrow> string \<Rightarrow> ds4_tensor_binding option" where
  "bind_optional ctx layer_id suffix =
     (case ds4_context_require_layer_tensor_binding ctx layer_id suffix of
        Inl _ \<Rightarrow> None | Inr b \<Rightarrow> Some b)"

text \<open>The common body of the three two-dimensional matrix constructors.\<close>

definition make_2d_matrix ::
  "string \<Rightarrow> (u32 \<Rightarrow> u64) \<Rightarrow> ds4_tensor_binding \<Rightarrow> string \<Rightarrow> layer_error + ds4_bound_matrix" where
  "make_2d_matrix dtype row_size b label =
     (if n_shape_dims b \<noteq> 2 \<or> \<not> dtype_is b dtype then Inl (Matrix_format label)
      else (let cols = ucast (tb_shape b ! 0);
                rows = ucast (tb_shape b ! 1);
                row_bytes = row_size cols;
                bytes = ucast rows * row_bytes
            in if bytes \<noteq> pe_byte_length (tb_entry b) then Inl (Matrix_length label)
               else Inr \<lparr>bm_binding = b, bm_rows = rows, bm_cols = cols, bm_planes = 1,
                         bm_row_bytes = row_bytes, bm_bytes = bytes, bm_rel = 0\<rparr>))"

definition make_f32_matrix :: "ds4_tensor_binding \<Rightarrow> string \<Rightarrow> layer_error + ds4_bound_matrix" where
  "make_f32_matrix = make_2d_matrix ''f32'' (\<lambda>cols. ucast cols * 4)"

definition make_f8_matrix :: "ds4_tensor_binding \<Rightarrow> string \<Rightarrow> layer_error + ds4_bound_matrix" where
  "make_f8_matrix = make_2d_matrix ''f8_e4m3_b128'' (\<lambda>cols. ds4_src_f8_e4m3_b128_row_bytes (ucast cols))"

definition make_bf16_matrix :: "ds4_tensor_binding \<Rightarrow> string \<Rightarrow> layer_error + ds4_bound_matrix" where
  "make_bf16_matrix = make_2d_matrix ''bf16'' (\<lambda>cols. ucast cols * 2)"

definition make_mxfp4_expert_matrix ::
  "ds4_tensor_binding \<Rightarrow> u32 \<Rightarrow> string \<Rightarrow> layer_error + ds4_bound_matrix" where
  "make_mxfp4_expert_matrix b expert label =
     (if n_shape_dims b \<noteq> 3 \<or> \<not> dtype_is b ''mxfp4'' then Inl (Matrix_format label)
      else if ucast expert \<ge> tb_shape b ! 2 then Inl (Expert_outside label expert)
      else (let cols = ucast (tb_shape b ! 0);
                rows = ucast (tb_shape b ! 1);
                row_bytes = ds4_src_mxfp4_row_bytes (ucast cols);
                bytes = ucast rows * row_bytes;
                rel = ucast expert * bytes;
                len = pe_byte_length (tb_entry b)
            in if rel > len \<or> bytes > len - rel then Inl (Expert_span label)
               else Inr \<lparr>bm_binding = b, bm_rows = rows, bm_cols = cols,
                         bm_planes = ucast (tb_shape b ! 2),
                         bm_row_bytes = row_bytes, bm_bytes = bytes, bm_rel = rel\<rparr>))"

definition zero_tm_view :: ds4_gpu_turbomind_mxfp4_matrix_view where
  "zero_tm_view = \<lparr>tv_weight_offset = 0, tv_scale_offset = 0, tv_weight_bytes_per_expert = 0,
     tv_scale_bytes_per_expert = 0, tv_n = 0, tv_k = 0, tv_experts_packed = 0, tv_experts_total = 0,
     tv_k_pack = 0, tv_weight_stride = 0, tv_scale_stride = 0, tv_flags = 0\<rparr>"

definition tm_gpu_view :: "ds4_turbomind_binding \<Rightarrow> ds4_gpu_turbomind_mxfp4_matrix_view" where
  "tm_gpu_view b =
     (let e = tmb_entry b in
      \<lparr>tv_weight_offset = te_weight_offset e, tv_scale_offset = te_scale_offset e,
       tv_weight_bytes_per_expert = te_weight_bytes_per_expert e,
       tv_scale_bytes_per_expert = te_scale_bytes_per_expert e,
       tv_n = te_n e, tv_k = te_k e,
       tv_experts_packed = te_experts_packed e, tv_experts_total = te_experts_total e,
       tv_k_pack = te_k_pack e, tv_weight_stride = te_weight_stride e,
       tv_scale_stride = te_scale_stride e,
       tv_flags = (if strstr_found (te_runtime_layout e) ''turbomind_mxfp4_grouped_gate_up_interleaved''
                   then 0 OR DS4_GPU_TURBOMIND_MXFP4_GATE_UP_INTERLEAVED else 0)\<rparr>)"

section \<open>The routed experts\<close>

definition make_turbomind_routed_binding ::
  "ds4_turbomind_binding \<Rightarrow> string \<Rightarrow> layer_error + ds4_tensor_binding" where
  "make_turbomind_routed_binding b label =
     (let e = tmb_entry b in
      if length (tmb_shape b) \<noteq> 3 \<or> te_source_dtype e \<noteq> ''mxfp4'' then Inl (Turbomind_format label)
      else if te_experts_packed e < te_experts_total e then Inl (Turbomind_partial_experts label)
      else Inr \<lparr>tb_entry = \<lparr>pe_semantic_tensor_id = te_semantic_tensor_id e, pe_source_name = te_source_name e,
                  pe_source_dtype = te_source_dtype e, pe_source_shape = te_source_shape e,
                  pe_runtime_layout = te_runtime_layout e, pe_kernel_family = te_kernel_family e,
                  pe_shard_file = te_sidecar_file e, pe_owning_gpu = te_owning_gpu e,
                  pe_layer_id = te_layer_id e, pe_scale_offset = - 1, pe_source_offset = 0,
                  pe_byte_length = te_source_byte_length e, pe_shard_offset = te_source_shard_offset e\<rparr>,
                tb_policy = tmb_policy b, tb_shape = tmb_shape b\<rparr>)"

definition make_turbomind_fused_gate_up_synthetic_binding ::
  "ds4_turbomind_binding \<Rightarrow> string \<Rightarrow> layer_error + ds4_tensor_binding" where
  "make_turbomind_fused_gate_up_synthetic_binding b label =
     res_bind (make_turbomind_routed_binding b label) (\<lambda>out.
     let e = tmb_entry b in
     if te_n e = 0 \<or> te_n e mod 2 \<noteq> 0 \<or> length (tmb_shape b) \<noteq> 3 \<or>
        tmb_shape b ! 1 \<noteq> ucast (te_n e) \<or> tmb_shape b ! 0 \<noteq> ucast (te_k e)
     then Inl (Fused_gate_up_shape label)
     else Inr (out\<lparr>tb_shape := (tb_shape out)[1 := ucast (te_n e) div 2],
                    tb_entry := (tb_entry out)\<lparr>pe_byte_length := te_source_byte_length e div 2\<rparr>\<rparr>))"

definition tm_lookup :: "ds4_context \<Rightarrow> int \<Rightarrow> string \<Rightarrow> ds4_turbomind_binding option" where
  "tm_lookup ctx layer_id suffix =
     (case ds4_context_require_layer_turbomind_binding ctx layer_id suffix of
        Inl _ \<Rightarrow> None | Inr b \<Rightarrow> Some b)"

text \<open>The experts when they come from the source pack.\<close>

definition bind_source_experts :: "ds4_context \<Rightarrow> int \<Rightarrow> ds4_routed_state \<Rightarrow> layer_error + ds4_routed_state" where
  "bind_source_experts ctx layer_id out =
     res_bind (bind_required ctx layer_id ''ffn_gate_exps.weight'') (\<lambda>gate.
     res_bind (bind_required ctx layer_id ''ffn_up_exps.weight'') (\<lambda>up.
     res_bind (bind_required ctx layer_id ''ffn_down_exps.weight'') (\<lambda>down.
     Inr (out\<lparr>rt_gate := gate, rt_up := up, rt_down := down\<rparr>))))"

text \<open>The gate and up projections from TurboMind: fused in one tensor, or separate.\<close>

definition bind_tm_gate_up :: "ds4_routed_state \<Rightarrow> layer_error + ds4_routed_state" where
  "bind_tm_gate_up out =
     (case rt_tm_gate_up out of
        None \<Rightarrow> Inr (out\<lparr>rt_has_fused_gate_up := False\<rparr>)
      | Some gu \<Rightarrow>
          res_bind (make_turbomind_fused_gate_up_synthetic_binding gu ''ffn_gate_up_exps.weight'') (\<lambda>half.
          Inr (out\<lparr>rt_has_fused_gate_up := True, rt_gate_up_view := tm_gpu_view gu,
                   rt_gate := half, rt_up := half\<rparr>)))"

definition bind_tm_separate :: "ds4_routed_state \<Rightarrow> layer_error + ds4_routed_state" where
  "bind_tm_separate out =
     (case (rt_tm_gate out, rt_tm_up out) of
        (Some g, Some u) \<Rightarrow>
          res_bind (make_turbomind_routed_binding g ''ffn_gate_exps.weight'') (\<lambda>gate.
          res_bind (make_turbomind_routed_binding u ''ffn_up_exps.weight'') (\<lambda>up.
          Inr (out\<lparr>rt_gate := gate, rt_up := up, rt_gate_view := tm_gpu_view g,
                   rt_up_view := tm_gpu_view u\<rparr>)))
      | _ \<Rightarrow> Inr out)"

definition bind_tm_tp2 ::
  "ds4_turbomind_binding option list \<Rightarrow> ds4_turbomind_binding option list \<Rightarrow> ds4_routed_state \<Rightarrow> ds4_routed_state" where
  "bind_tm_tp2 tp_gu tp_d out =
     (if None \<in> set (tp_gu @ tp_d) then out
      else (let gu = map the tp_gu; d = map the tp_d in
            out\<lparr>rt_has_tp2 := True, rt_tp2_peer_gpu := tmb_owner (gu ! 1),
                rt_tp2_gate_up := gu, rt_tp2_down := d,
                rt_tp2_gate_up_view := map tm_gpu_view gu, rt_tp2_down_view := map tm_gpu_view d\<rparr>))"

definition zero_pack_entry :: ds4_pack_entry where
  "zero_pack_entry = \<lparr>pe_semantic_tensor_id = [], pe_source_name = [], pe_source_dtype = [], pe_source_shape = [],
     pe_runtime_layout = [], pe_kernel_family = [], pe_shard_file = [], pe_owning_gpu = 0, pe_layer_id = 0,
     pe_scale_offset = 0, pe_source_offset = 0, pe_byte_length = 0, pe_shard_offset = 0\<rparr>"

definition zero_binding :: ds4_tensor_binding where
  "zero_binding = \<lparr>tb_entry = zero_pack_entry,
     tb_policy = \<lparr>pol_source_dtype = DS4_V100_SOURCE_UNKNOWN, pol_family = DS4_V100_FAMILY_UNKNOWN,
       pol_exec_kind = DS4_V100_EXEC_F32_CONTROL, pol_conversion_stub = None, pol_forbidden_claim = None\<rparr>,
     tb_shape = []\<rparr>"

definition zero_routed_state :: ds4_routed_state where
  "zero_routed_state = \<lparr>rt_gate = zero_binding, rt_up = zero_binding, rt_down = zero_binding,
     rt_has_turbomind = False, rt_has_fused_gate_up = False, rt_has_tp2 = False, rt_tp2_peer_gpu = 0,
     rt_tm_gate = None, rt_tm_up = None, rt_tm_gate_up = None, rt_tm_down = None,
     rt_tp2_gate_up = [], rt_tp2_down = [],
     rt_gate_view = zero_tm_view, rt_up_view = zero_tm_view, rt_gate_up_view = zero_tm_view,
     rt_down_view = zero_tm_view, rt_tp2_gate_up_view = [], rt_tp2_down_view = []\<rparr>"

text \<open>The branch taken when the down projection and a form of gate and up are TurboMind rows.\<close>

definition bind_tm_experts ::
  "int \<Rightarrow> ds4_turbomind_binding option list \<Rightarrow> ds4_turbomind_binding option list \<Rightarrow>
   ds4_turbomind_binding \<Rightarrow> ds4_routed_state \<Rightarrow> layer_error + ds4_routed_state" where
  "bind_tm_experts layer_id tp_gu tp_d down out =
     (if (rt_tm_gate out \<noteq> None) \<noteq> (rt_tm_up out \<noteq> None) then Inl (Partial_turbomind layer_id)
      else res_bind (bind_tm_gate_up (out\<lparr>rt_has_turbomind := True\<rparr>)) (\<lambda>out1.
           res_bind (bind_tm_separate out1) (\<lambda>out2.
           res_bind (make_turbomind_routed_binding down ''ffn_down_exps.weight'') (\<lambda>db.
           Inr (bind_tm_tp2 tp_gu tp_d (out2\<lparr>rt_down := db, rt_down_view := tm_gpu_view down\<rparr>))))))"

definition bind_routed_expert_tensors :: "ds4_context \<Rightarrow> int \<Rightarrow> layer_error + ds4_routed_state" where
  "bind_routed_expert_tensors ctx layer_id =
     (let look = tm_lookup ctx layer_id;
          out = zero_routed_state\<lparr>rt_tm_gate := look ''ffn_gate_exps.weight'',
                  rt_tm_up := look ''ffn_up_exps.weight'',
                  rt_tm_gate_up := look ''ffn_gate_up_exps.weight'',
                  rt_tm_down := look ''ffn_down_exps.weight''\<rparr>;
          tp_gu = [look ''ffn_gate_up_exps.tp0.weight'', look ''ffn_gate_up_exps.tp1.weight''];
          tp_d = [look ''ffn_down_exps.tp0.weight'', look ''ffn_down_exps.tp1.weight''];
          has_full_tp2 = (None \<notin> set (tp_gu @ tp_d));
          has_partial_tp2 = ((\<exists>b \<in> set (tp_gu @ tp_d). b \<noteq> None) \<and> \<not> has_full_tp2);
          has_separate_gate_up = (rt_tm_gate out \<noteq> None \<and> rt_tm_up out \<noteq> None);
          has_fused_gate_up = (rt_tm_gate_up out \<noteq> None)
      in if has_partial_tp2 then Inl (Partial_tp2 layer_id)
         else (case rt_tm_down out of
             Some down \<Rightarrow>
               (if has_separate_gate_up \<or> has_fused_gate_up
                then bind_tm_experts layer_id tp_gu tp_d down out
                else bind_source_experts ctx layer_id out)
           | None \<Rightarrow> bind_source_experts ctx layer_id out))"

section \<open>Initialisation\<close>

definition check_same_owner :: "int \<Rightarrow> ds4_tensor_binding \<Rightarrow> string \<Rightarrow> layer_error + unit" where
  "check_same_owner owner b label = check (tb_owner b \<noteq> owner) (Owner_mismatch label (tb_owner b))"

record ds4_fixed_bindings =
  fb_shared_gate :: ds4_tensor_binding
  fb_shared_up :: ds4_tensor_binding
  fb_shared_down :: ds4_tensor_binding
  fb_router :: ds4_tensor_binding
  fb_attn_q_a :: ds4_tensor_binding
  fb_attn_q_b :: ds4_tensor_binding
  fb_attn_kv_latent :: ds4_tensor_binding
  fb_attn_output_a :: ds4_tensor_binding
  fb_attn_output_b :: ds4_tensor_binding
  fb_attn_norm :: ds4_tensor_binding
  fb_attn_q_a_norm :: ds4_tensor_binding
  fb_attn_kv_a_norm :: ds4_tensor_binding
  fb_attn_sinks :: ds4_tensor_binding
  fb_hc_attn_fn :: ds4_tensor_binding
  fb_hc_attn_base :: ds4_tensor_binding
  fb_hc_attn_scale :: ds4_tensor_binding
  fb_ffn_norm :: ds4_tensor_binding
  fb_hc_ffn_fn :: ds4_tensor_binding
  fb_hc_ffn_base :: ds4_tensor_binding
  fb_hc_ffn_scale :: ds4_tensor_binding

text \<open>The bindings every layer must have, looked up in order.\<close>

definition bind_fixed :: "ds4_context \<Rightarrow> int \<Rightarrow> layer_error + ds4_fixed_bindings" where
  "bind_fixed ctx layer_id =
     (let req = bind_required ctx layer_id in
      res_bind (req ''ffn_gate_shexp.weight'') (\<lambda>shared_gate.
      res_bind (req ''ffn_up_shexp.weight'') (\<lambda>shared_up.
      res_bind (req ''ffn_down_shexp.weight'') (\<lambda>shared_down.
      res_bind (req ''ffn_gate_inp.weight'') (\<lambda>router.
      res_bind (req ''attn_q_a.weight'') (\<lambda>q_a.
      res_bind (req ''attn_q_b.weight'') (\<lambda>q_b.
      res_bind (req ''attn_kv_latent.weight'') (\<lambda>kv_latent.
      res_bind (req ''attn_output_a.weight'') (\<lambda>output_a.
      res_bind (req ''attn_output_b.weight'') (\<lambda>output_b.
      res_bind (req ''attn_norm.weight'') (\<lambda>norm.
      res_bind (req ''attn_q_a_norm.weight'') (\<lambda>q_a_norm.
      res_bind (req ''attn_kv_a_norm.weight'') (\<lambda>kv_a_norm.
      res_bind (req ''attn_sinks'') (\<lambda>sinks.
      res_bind (req ''hc_attn_fn'') (\<lambda>hc_attn_fn.
      res_bind (req ''hc_attn_base'') (\<lambda>hc_attn_base.
      res_bind (req ''hc_attn_scale'') (\<lambda>hc_attn_scale.
      res_bind (req ''ffn_norm.weight'') (\<lambda>ffn_norm.
      res_bind (req ''hc_ffn_fn'') (\<lambda>hc_ffn_fn.
      res_bind (req ''hc_ffn_base'') (\<lambda>hc_ffn_base.
      res_bind (req ''hc_ffn_scale'') (\<lambda>hc_ffn_scale.
      Inr \<lparr>fb_shared_gate = shared_gate, fb_shared_up = shared_up, fb_shared_down = shared_down,
           fb_router = router, fb_attn_q_a = q_a, fb_attn_q_b = q_b, fb_attn_kv_latent = kv_latent,
           fb_attn_output_a = output_a, fb_attn_output_b = output_b, fb_attn_norm = norm,
           fb_attn_q_a_norm = q_a_norm, fb_attn_kv_a_norm = kv_a_norm, fb_attn_sinks = sinks,
           fb_hc_attn_fn = hc_attn_fn, fb_hc_attn_base = hc_attn_base, fb_hc_attn_scale = hc_attn_scale,
           fb_ffn_norm = ffn_norm, fb_hc_ffn_fn = hc_ffn_fn, fb_hc_ffn_base = hc_ffn_base,
           fb_hc_ffn_scale = hc_ffn_scale\<rparr>)))))))))))))))))))))"

text \<open>The state with the fixed matrices; the router, the compression and the dimensions follow.\<close>

definition make_fixed_matrices ::
  "int \<Rightarrow> ds4_layer_info \<Rightarrow> ds4_stage_info \<Rightarrow> ds4_routed_state \<Rightarrow> ds4_fixed_bindings \<Rightarrow>
   ds4_tensor_binding option \<Rightarrow> ds4_tensor_binding option \<Rightarrow> layer_error + ds4_layer_state" where
  "make_fixed_matrices layer_id li stage routed fb hash bias =
     res_bind (make_f32_matrix (fb_router fb) ''ffn_gate_inp.weight'') (\<lambda>router.
     res_bind (make_f8_matrix (fb_attn_q_a fb) ''attn_q_a.weight'') (\<lambda>q_a.
     res_bind (make_f8_matrix (fb_attn_q_b fb) ''attn_q_b.weight'') (\<lambda>q_b.
     res_bind (make_f8_matrix (fb_attn_kv_latent fb) ''attn_kv_latent.weight'') (\<lambda>kv_latent.
     res_bind (make_f8_matrix (fb_attn_output_a fb) ''attn_output_a.weight'') (\<lambda>output_a.
     res_bind (make_f8_matrix (fb_attn_output_b fb) ''attn_output_b.weight'') (\<lambda>output_b.
     res_bind (make_f8_matrix (fb_shared_gate fb) ''ffn_gate_shexp.weight'') (\<lambda>shared_gate.
     res_bind (make_f8_matrix (fb_shared_up fb) ''ffn_up_shexp.weight'') (\<lambda>shared_up.
     res_bind (make_f8_matrix (fb_shared_down fb) ''ffn_down_shexp.weight'') (\<lambda>shared_down.
     Inr \<lparr>ls_layer_id = layer_id, ls_stage_id = ly_stage_id li, ls_owning_gpu = sg_gpu stage,
          ls_layer_class = ly_layer_class li, ls_kv_view = ly_kv_view li,
          ls_hidden_size = 0, ls_q_lora_rank = 0, ls_q_width = 0, ls_kv_latent_width = 0,
          ls_attention_output_rank = 0, ls_compress_ratio = 0, ls_compressor_width = 0,
          ls_indexer_q_width = 0, ls_indexer_proj_width = 0, ls_indexer_compressor_width = 0,
          ls_intermediate_size = 0, ls_routed_experts = 0, ls_routes_per_token = 0,
          ls_router_token_capacity = 0, ls_router_kind = DS4_V100_ROUTER_UNKNOWN,
          ls_router = router, ls_router_hash = hash, ls_router_bias = bias,
          ls_attention = \<lparr>at_q_a = q_a, at_q_b = q_b, at_kv_latent = kv_latent,
            at_output_a = output_a, at_output_b = output_b, at_norm = fb_attn_norm fb,
            at_q_a_norm = fb_attn_q_a_norm fb, at_kv_a_norm = fb_attn_kv_a_norm fb,
            at_sinks = fb_attn_sinks fb, at_hc_fn = fb_hc_attn_fn fb,
            at_hc_base = fb_hc_attn_base fb, at_hc_scale = fb_hc_attn_scale fb\<rparr>,
          ls_compressor = None, ls_indexer = None, ls_routed = routed,
          ls_shared = \<lparr>sh_gate = shared_gate, sh_up = shared_up, sh_down = shared_down,
            sh_ffn_norm = fb_ffn_norm fb, sh_hc_fn = fb_hc_ffn_fn fb,
            sh_hc_base = fb_hc_ffn_base fb, sh_hc_scale = fb_hc_ffn_scale fb\<rparr>\<rparr>)))))))))"

definition validate_router_binding :: "ds4_layer_state \<Rightarrow> layer_error + ds4_layer_state" where
  "validate_router_binding st =
     (if bm_rows (ls_router st) \<noteq> 256 \<or> bm_cols (ls_router st) = 0 then Inl Router_dims
      else (case ls_router_hash st of
          Some hash \<Rightarrow>
            (if \<not> dtype_is hash ''i32'' \<or> n_shape_dims hash \<noteq> 2 \<or> tb_shape hash ! 0 \<noteq> 6
             then Inl Hash_router_format
             else Inr (st\<lparr>ls_router_kind := DS4_V100_ROUTER_HASH, ls_routes_per_token := 6,
                          ls_router_token_capacity := ucast (tb_shape hash ! 1)\<rparr>))
        | None \<Rightarrow>
            (case ls_router_bias st of
               Some bias \<Rightarrow>
                 (if \<not> dtype_is bias ''f32'' \<or> n_shape_dims bias \<noteq> 1 \<or> tb_shape bias ! 0 \<noteq> 256
                  then Inl Bias_router_format
                  else Inr (st\<lparr>ls_router_kind := DS4_V100_ROUTER_BIAS, ls_routes_per_token := 6,
                               ls_router_token_capacity := 0\<rparr>))
             | None \<Rightarrow> Inl No_router)))"

definition set_compression :: "ds4_layer_state \<Rightarrow> ds4_layer_state" where
  "set_compression st =
     (let ratio = (case ls_layer_class st of DS4_V100_LAYER_RATIO_4 \<Rightarrow> 4
                   | DS4_V100_LAYER_RATIO_128 \<Rightarrow> 128 | _ \<Rightarrow> 0)
      in st\<lparr>ls_compress_ratio := ratio,
            ls_compressor_width := (if ratio = 4 then 2 * ucast DS4_V100_HEAD_DIM
                                    else if ratio = 128 then ucast DS4_V100_HEAD_DIM else 0),
            ls_indexer_q_width := (if ratio = 4 then 64 * ucast DS4_V100_INDEXER_HEAD_DIM else 0),
            ls_indexer_proj_width := (if ratio = 4 then 64 else 0),
            ls_indexer_compressor_width := (if ratio = 4 then 2 * ucast DS4_V100_INDEXER_HEAD_DIM else 0)\<rparr>)"

definition init_compressor :: "ds4_context \<Rightarrow> ds4_layer_state \<Rightarrow> layer_error + ds4_layer_state" where
  "init_compressor ctx st =
     (if ls_compress_ratio st = 0 then Inr st
      else (let req = bind_required ctx (ls_layer_id st); own = check_same_owner (ls_owning_gpu st) in
        res_bind (req ''attn_compress_ape'') (\<lambda>comp_ape.
        res_bind (req ''attn_compress_kv.weight'') (\<lambda>comp_kv.
        res_bind (req ''attn_compress_gate.weight'') (\<lambda>comp_gate.
        res_bind (req ''attn_compress_norm.weight'') (\<lambda>norm.
        res_bind (make_f32_matrix comp_ape ''attn_compress_ape'') (\<lambda>ape.
        res_bind (make_bf16_matrix comp_kv ''attn_compress_kv.weight'') (\<lambda>kv.
        res_bind (make_bf16_matrix comp_gate ''attn_compress_gate.weight'') (\<lambda>gate.
        res_bind (own (bm_binding ape) ''attn_compress_ape'') (\<lambda>_.
        res_bind (own (bm_binding kv) ''attn_compress_kv.weight'') (\<lambda>_.
        res_bind (own (bm_binding gate) ''attn_compress_gate.weight'') (\<lambda>_.
        res_bind (own norm ''attn_compress_norm.weight'') (\<lambda>_.
        Inr (st\<lparr>ls_compressor := Some \<lparr>co_ape = ape, co_kv = kv, co_gate = gate, co_norm = norm\<rparr>\<rparr>))))))))))))))"

definition init_indexer :: "ds4_context \<Rightarrow> ds4_layer_state \<Rightarrow> layer_error + ds4_layer_state" where
  "init_indexer ctx st =
     (if ls_compress_ratio st \<noteq> 4 then Inr st
      else (let req = bind_required ctx (ls_layer_id st); own = check_same_owner (ls_owning_gpu st) in
        res_bind (req ''indexer.attn_q_b.weight'') (\<lambda>index_q_b.
        res_bind (req ''indexer.proj.weight'') (\<lambda>index_proj.
        res_bind (req ''indexer.compress_ape'') (\<lambda>index_ape.
        res_bind (req ''indexer.compress_kv.weight'') (\<lambda>index_kv.
        res_bind (req ''indexer.compress_gate.weight'') (\<lambda>index_gate.
        res_bind (req ''indexer.compress_norm.weight'') (\<lambda>norm.
        res_bind (make_f8_matrix index_q_b ''indexer.attn_q_b.weight'') (\<lambda>q_b.
        res_bind (make_bf16_matrix index_proj ''indexer.proj.weight'') (\<lambda>proj.
        res_bind (make_f32_matrix index_ape ''indexer.compress_ape'') (\<lambda>ape.
        res_bind (make_bf16_matrix index_kv ''indexer.compress_kv.weight'') (\<lambda>kv.
        res_bind (make_bf16_matrix index_gate ''indexer.compress_gate.weight'') (\<lambda>gate.
        res_bind (own (bm_binding q_b) ''indexer.attn_q_b.weight'') (\<lambda>_.
        res_bind (own (bm_binding proj) ''indexer.proj.weight'') (\<lambda>_.
        res_bind (own (bm_binding ape) ''indexer.compress_ape'') (\<lambda>_.
        res_bind (own (bm_binding kv) ''indexer.compress_kv.weight'') (\<lambda>_.
        res_bind (own (bm_binding gate) ''indexer.compress_gate.weight'') (\<lambda>_.
        res_bind (own norm ''indexer.compress_norm.weight'') (\<lambda>_.
        Inr (st\<lparr>ls_indexer := Some \<lparr>ix_attn_q_b = q_b, ix_proj = proj, ix_compressor_ape = ape,
               ix_compressor_kv = kv, ix_compressor_gate = gate, ix_compressor_norm = norm\<rparr>\<rparr>))))))))))))))))))))"

text \<open>The array \<open>owned\<close> with its labels.\<close>

definition owned_bindings :: "ds4_layer_state \<Rightarrow> (ds4_tensor_binding \<times> string) list" where
  "owned_bindings st =
     (let r = ls_routed st; s = ls_shared st; a = ls_attention st in
      [(rt_gate r, ''ffn_gate_exps.weight''), (rt_up r, ''ffn_up_exps.weight''),
       (rt_down r, ''ffn_down_exps.weight''),
       (bm_binding (sh_gate s), ''ffn_gate_shexp.weight''), (bm_binding (sh_up s), ''ffn_up_shexp.weight''),
       (bm_binding (sh_down s), ''ffn_down_shexp.weight''),
       (bm_binding (ls_router st), ''ffn_gate_inp.weight''),
       (bm_binding (at_q_a a), ''attn_q_a.weight''), (bm_binding (at_q_b a), ''attn_q_b.weight''),
       (bm_binding (at_kv_latent a), ''attn_kv_latent.weight''),
       (bm_binding (at_output_a a), ''attn_output_a.weight''),
       (bm_binding (at_output_b a), ''attn_output_b.weight''),
       (at_norm a, ''attn_norm.weight''), (at_q_a_norm a, ''attn_q_a_norm.weight''),
       (at_kv_a_norm a, ''attn_kv_a_norm.weight''), (at_sinks a, ''attn_sinks''),
       (at_hc_fn a, ''hc_attn_fn''), (at_hc_base a, ''hc_attn_base''), (at_hc_scale a, ''hc_attn_scale''),
       (sh_ffn_norm s, ''ffn_norm.weight''), (sh_hc_fn s, ''hc_ffn_fn''),
       (sh_hc_base s, ''hc_ffn_base''), (sh_hc_scale s, ''hc_ffn_scale'')])"

definition check_owned :: "ds4_layer_state \<Rightarrow> layer_error + unit" where
  "check_owned st =
     fold_res (\<lambda>(b, label) u. check_same_owner (ls_owning_gpu st) b label) (owned_bindings st) ()"

definition set_dimensions :: "ds4_layer_state \<Rightarrow> ds4_layer_state" where
  "set_dimensions st =
     (let a = ls_attention st in
      st\<lparr>ls_hidden_size := bm_cols (ls_router st), ls_q_lora_rank := bm_rows (at_q_a a),
         ls_q_width := bm_rows (at_q_b a), ls_kv_latent_width := bm_rows (at_kv_latent a),
         ls_attention_output_rank := bm_rows (at_output_a a),
         ls_intermediate_size := bm_rows (sh_gate (ls_shared st))\<rparr>)"

definition attention_dims_ok :: "ds4_layer_state \<Rightarrow> bool" where
  "attention_dims_ok st \<longleftrightarrow>
     (let a = ls_attention st in
      bm_cols (at_q_a a) = ls_hidden_size st \<and> bm_cols (at_q_b a) = ls_q_lora_rank st \<and>
      bm_cols (at_kv_latent a) = ls_hidden_size st \<and> bm_cols (at_output_a a) = ls_hidden_size st \<and>
      bm_cols (at_output_b a) = ls_attention_output_rank st \<and> bm_rows (at_output_b a) = ls_hidden_size st \<and>
      ls_q_lora_rank st = 1024 \<and> ls_q_width st = 32768 \<and>
      ls_kv_latent_width st = ucast DS4_V100_HEAD_DIM \<and> ls_attention_output_rank st = 8192)"

definition vector_ok :: "ds4_tensor_binding \<Rightarrow> u64 \<Rightarrow> bool" where
  "vector_ok b len \<longleftrightarrow> dtype_is b ''f32'' \<and> n_shape_dims b = 1 \<and> tb_shape b ! 0 = len"

definition attention_controls_ok :: "ds4_layer_state \<Rightarrow> bool" where
  "attention_controls_ok st \<longleftrightarrow>
     (let a = ls_attention st in
      vector_ok (at_norm a) (ucast (ls_hidden_size st)) \<and> vector_ok (at_q_a_norm a) (ucast (ls_q_lora_rank st)) \<and>
      vector_ok (at_kv_a_norm a) (ucast (ls_kv_latent_width st)) \<and> vector_ok (at_sinks a) 64)"

definition compressor_dims_ok :: "ds4_layer_state \<Rightarrow> ds4_compressor_state \<Rightarrow> bool" where
  "compressor_dims_ok st c \<longleftrightarrow>
     bm_rows (co_ape c) = ls_compress_ratio st \<and> bm_cols (co_ape c) = ls_compressor_width st \<and>
     bm_rows (co_kv c) = ls_compressor_width st \<and> bm_cols (co_kv c) = ls_hidden_size st \<and>
     bm_rows (co_gate c) = ls_compressor_width st \<and> bm_cols (co_gate c) = ls_hidden_size st \<and>
     vector_ok (co_norm c) DS4_V100_HEAD_DIM"

definition indexer_dims_ok :: "ds4_layer_state \<Rightarrow> ds4_indexer_state \<Rightarrow> bool" where
  "indexer_dims_ok st x \<longleftrightarrow>
     bm_rows (ix_attn_q_b x) = ls_indexer_q_width st \<and> bm_cols (ix_attn_q_b x) = ls_q_lora_rank st \<and>
     bm_rows (ix_proj x) = ls_indexer_proj_width st \<and> bm_cols (ix_proj x) = ls_hidden_size st \<and>
     bm_rows (ix_compressor_ape x) = ls_compress_ratio st \<and>
     bm_cols (ix_compressor_ape x) = ls_indexer_compressor_width st \<and>
     bm_rows (ix_compressor_kv x) = ls_indexer_compressor_width st \<and>
     bm_cols (ix_compressor_kv x) = ls_hidden_size st \<and>
     bm_rows (ix_compressor_gate x) = ls_indexer_compressor_width st \<and>
     bm_cols (ix_compressor_gate x) = ls_hidden_size st \<and>
     vector_ok (ix_compressor_norm x) DS4_V100_INDEXER_HEAD_DIM"

definition routed_dims_ok :: "ds4_layer_state \<Rightarrow> bool" where
  "routed_dims_ok st \<longleftrightarrow>
     (let r = ls_routed st; hidden = ucast (ls_hidden_size st); mid = ucast (ls_intermediate_size st) in
      tb_shape (rt_gate r) ! 0 = hidden \<and> tb_shape (rt_up r) ! 0 = hidden \<and>
      tb_shape (rt_gate r) ! 1 = mid \<and> tb_shape (rt_up r) ! 1 = mid \<and>
      tb_shape (rt_down r) ! 0 = mid \<and> tb_shape (rt_down r) ! 1 = hidden)"

definition tp2_owners_ok :: "ds4_layer_state \<Rightarrow> bool" where
  "tp2_owners_ok st \<longleftrightarrow>
     (let gu = rt_tp2_gate_up (ls_routed st); d = rt_tp2_down (ls_routed st); owner = ls_owning_gpu st in
      tmb_owner (gu ! 0) = owner \<and> tmb_owner (d ! 0) = owner \<and>
      tmb_owner (gu ! 1) \<noteq> owner \<and> tmb_owner (d ! 1) = tmb_owner (gu ! 1))"

definition tp2_half_ok :: "ds4_layer_state \<Rightarrow> nat \<Rightarrow> bool" where
  "tp2_half_ok st half \<longleftrightarrow>
     (let gu = rt_tp2_gate_up_view (ls_routed st) ! half; dw = rt_tp2_down_view (ls_routed st) ! half in
      tv_n gu = ls_intermediate_size st \<and> tv_k gu = ls_hidden_size st \<and>
      tv_n dw = ls_hidden_size st \<and> tv_k dw = ls_intermediate_size st div 2 \<and>
      tv_experts_total gu = ls_routed_experts st \<and> tv_experts_total dw = ls_routed_experts st \<and>
      tv_flags gu AND DS4_GPU_TURBOMIND_MXFP4_GATE_UP_INTERLEAVED \<noteq> 0)"

definition check_tp2 :: "ds4_layer_state \<Rightarrow> layer_error + ds4_layer_state" where
  "check_tp2 st =
     (if \<not> rt_has_tp2 (ls_routed st) then Inr st
      else if ls_intermediate_size st mod 2 \<noteq> 0 then Inl Tp2_odd_intermediate
      else if \<not> tp2_owners_ok st then Inl Tp2_owners
      else if \<not> tp2_half_ok st 0 \<or> \<not> tp2_half_ok st 1 then Inl Tp2_dims
      else Inr (st\<lparr>ls_routed := (ls_routed st)\<lparr>
             rt_tp2_peer_gpu := tmb_owner (rt_tp2_gate_up (ls_routed st) ! 1)\<rparr>\<rparr>))"

definition shared_dims_ok :: "ds4_layer_state \<Rightarrow> bool" where
  "shared_dims_ok st \<longleftrightarrow>
     (let s = ls_shared st in
      bm_cols (sh_up s) = ls_hidden_size st \<and> bm_rows (sh_up s) = ls_intermediate_size st \<and>
      bm_cols (sh_down s) = ls_intermediate_size st \<and> bm_rows (sh_down s) = ls_hidden_size st)"

text \<open>The checks after the owners, in the order of the code.\<close>

definition check_dimensions :: "ds4_layer_state \<Rightarrow> layer_error + ds4_layer_state" where
  "check_dimensions st0 =
     (let r = ls_routed st0 in
      res_bind (check (n_shape_dims (rt_gate r) \<noteq> 3 \<or> n_shape_dims (rt_up r) \<noteq> 3 \<or>
                       n_shape_dims (rt_down r) \<noteq> 3) Routed_not_3d) (\<lambda>_.
      let st = set_dimensions st0 in
      res_bind (check (\<not> attention_dims_ok st) Attention_dims) (\<lambda>_.
      res_bind (check (\<not> attention_controls_ok st) Attention_control_dims) (\<lambda>_.
      res_bind (check (case ls_compressor st of None \<Rightarrow> False | Some c \<Rightarrow> \<not> compressor_dims_ok st c)
                  Compressor_dims) (\<lambda>_.
      res_bind (check (case ls_indexer st of None \<Rightarrow> False | Some x \<Rightarrow> \<not> indexer_dims_ok st x)
                  Indexer_dims) (\<lambda>_.
      let st1 = st\<lparr>ls_routed_experts := ucast (tb_shape (rt_gate r) ! 2)\<rparr> in
      res_bind (check (tb_shape (rt_up r) ! 2 \<noteq> ucast (ls_routed_experts st1) \<or>
                       tb_shape (rt_down r) ! 2 \<noteq> ucast (ls_routed_experts st1)) Routed_expert_counts) (\<lambda>_.
      res_bind (check (\<not> routed_dims_ok st1) Routed_expert_dims) (\<lambda>_.
      res_bind (check_tp2 st1) (\<lambda>st2.
      res_bind (check (\<not> shared_dims_ok st2) Shared_expert_dims) (\<lambda>_.
      Inr st2))))))))))"

definition ds4_layer_state_init :: "ds4_context \<Rightarrow> int \<Rightarrow> layer_error + ds4_layer_state" where
  "ds4_layer_state_init ctx layer_id =
     (case ds4_context_layer (Some ctx) layer_id of
        None \<Rightarrow> Inl (Invalid_layer layer_id)
      | Some li \<Rightarrow>
          (case ds4_context_stage (Some ctx) (ly_stage_id li) of
             None \<Rightarrow> Inl (Missing_stage layer_id)
           | Some stage \<Rightarrow>
               res_bind (bind_routed_expert_tensors ctx layer_id) (\<lambda>routed.
               res_bind (bind_fixed ctx layer_id) (\<lambda>fb.
               res_bind (make_fixed_matrices layer_id li stage routed fb
                           (bind_optional ctx layer_id ''ffn_gate_tid2eid'')
                           (bind_optional ctx layer_id ''exp_probs_b'')) (\<lambda>st1.
               res_bind (validate_router_binding st1) (\<lambda>st2.
               res_bind (init_compressor ctx (set_compression st2)) (\<lambda>st3.
               res_bind (init_indexer ctx st3) (\<lambda>st4.
               res_bind (check_owned st4) (\<lambda>_.
               check_dimensions st4)))))))))"

section \<open>Expert slices, arena spans and views\<close>

definition ds4_layer_state_route_matrices :: "ds4_layer_state \<Rightarrow> u32 \<Rightarrow> layer_error + ds4_route_matrices" where
  "ds4_layer_state_route_matrices st expert =
     (let r = ls_routed st in
      if rt_has_turbomind r then Inl (Source_view_unavailable (ls_layer_id st))
      else if expert \<ge> ls_routed_experts st then Inl (Expert_out_of_range expert)
      else res_bind (make_mxfp4_expert_matrix (rt_gate r) expert ''ffn_gate_exps.weight'') (\<lambda>gate.
           res_bind (make_mxfp4_expert_matrix (rt_up r) expert ''ffn_up_exps.weight'') (\<lambda>up.
           res_bind (make_mxfp4_expert_matrix (rt_down r) expert ''ffn_down_exps.weight'') (\<lambda>down.
           Inr \<lparr>ro_gate = gate, ro_up = up, ro_down = down\<rparr>))))"

definition ds4_bound_matrix_arena_offset :: "ds4_bound_matrix \<Rightarrow> u64" where
  "ds4_bound_matrix_arena_offset m = pe_shard_offset (tb_entry (bm_binding m)) + bm_rel m"

text \<open>The two growth steps; \<open>None\<close> is the overflow they report.\<close>

definition grow_span_for_matrix :: "ds4_bound_matrix \<Rightarrow> u64 \<Rightarrow> u64 option" where
  "grow_span_for_matrix m sp =
     (let start = ds4_bound_matrix_arena_offset m in
      if bm_bytes m > UINT64_MAX - start then None
      else Some (if start + bm_bytes m > sp then start + bm_bytes m else sp))"

definition grow_span_for_turbomind_view :: "ds4_gpu_turbomind_mxfp4_matrix_view \<Rightarrow> u64 \<Rightarrow> u64 option" where
  "grow_span_for_turbomind_view v sp =
     (let weight_end = tv_weight_offset v + ucast (tv_experts_packed v) * tv_weight_bytes_per_expert v;
          scale_end = tv_scale_offset v + ucast (tv_experts_packed v) * tv_scale_bytes_per_expert v
      in if weight_end < tv_weight_offset v \<or> scale_end < tv_scale_offset v then None
         else (let s1 = (if weight_end > sp then weight_end else sp)
               in Some (if scale_end > s1 then scale_end else s1)))"

definition grow_spans ::
  "('a \<Rightarrow> u64 \<Rightarrow> u64 option) \<Rightarrow> layer_error \<Rightarrow> 'a list \<Rightarrow> u64 \<Rightarrow> layer_error + u64" where
  "grow_spans grow e ms sp = fold_res (\<lambda>m s. ok_or e (grow m s)) ms sp"

definition check_selected :: "ds4_layer_state \<Rightarrow> int \<Rightarrow> layer_error + unit" where
  "check_selected st e =
     check (e < 0 \<or> of_int e \<ge> ls_routed_experts st) (Selected_expert_out_of_range e)"

definition route_span_step :: "ds4_layer_state \<Rightarrow> int \<Rightarrow> u64 \<Rightarrow> layer_error + u64" where
  "route_span_step st e sp =
     res_bind (check_selected st e) (\<lambda>_.
     res_bind (ds4_layer_state_route_matrices st (of_int e)) (\<lambda>route.
     grow_spans grow_span_for_matrix Routed_span_overflow [ro_gate route, ro_up route, ro_down route] sp))"

text \<open>The selected experts are \<open>int32_t\<close> values, so the cast of a non-negative one is its value.\<close>

definition ds4_layer_state_ffn_arena_span :: "ds4_layer_state \<Rightarrow> int list \<Rightarrow> layer_error + u64" where
  "ds4_layer_state_ffn_arena_span st selected =
     (let s = ls_shared st; r = ls_routed st in
      res_bind (grow_spans grow_span_for_matrix Fixed_ffn_span_overflow
                  [ls_router st, sh_gate s, sh_up s, sh_down s] 0) (\<lambda>sp0.
      if rt_has_turbomind r then
        res_bind (fold_res (\<lambda>e u. check_selected st e) selected ()) (\<lambda>_.
        res_bind (if rt_has_fused_gate_up r
                  then grow_spans grow_span_for_turbomind_view Turbomind_span_overflow [rt_gate_up_view r] sp0
                  else Inr sp0) (\<lambda>sp1.
        res_bind (if tv_experts_packed (rt_gate_view r) \<noteq> 0 \<or> tv_experts_packed (rt_up_view r) \<noteq> 0
                  then grow_spans grow_span_for_turbomind_view Turbomind_span_overflow
                         [rt_gate_view r, rt_up_view r] sp1
                  else Inr sp1) (\<lambda>sp2.
        grow_spans grow_span_for_turbomind_view Turbomind_span_overflow [rt_down_view r] sp2)))
      else fold_res (route_span_step st) selected sp0))"

definition compressor_matrices :: "ds4_compressor_state \<Rightarrow> ds4_bound_matrix list" where
  "compressor_matrices c = [co_ape c, co_kv c, co_gate c]"

definition indexer_matrices :: "ds4_indexer_state \<Rightarrow> ds4_bound_matrix list" where
  "indexer_matrices x = [ix_attn_q_b x, ix_proj x, ix_compressor_ape x, ix_compressor_kv x, ix_compressor_gate x]"

definition attention_matrices :: "ds4_attention_state \<Rightarrow> ds4_bound_matrix list" where
  "attention_matrices a = [at_q_a a, at_q_b a, at_kv_latent a, at_output_a a, at_output_b a]"

definition ds4_layer_state_attention_arena_span :: "ds4_layer_state \<Rightarrow> layer_error + u64" where
  "ds4_layer_state_attention_arena_span st =
     res_bind (grow_spans grow_span_for_matrix Attention_span_overflow (attention_matrices (ls_attention st)) 0) (\<lambda>s1.
     res_bind (case ls_compressor st of
                 None \<Rightarrow> Inr s1
               | Some c \<Rightarrow> grow_spans grow_span_for_matrix Compressor_span_overflow (compressor_matrices c) s1) (\<lambda>s2.
     (case ls_indexer st of
        None \<Rightarrow> Inr s2
      | Some x \<Rightarrow> grow_spans grow_span_for_matrix Indexer_span_overflow (indexer_matrices x) s2)))"

record ds4_gpu_source_row_view =
  sv_arena_offset :: u64
  sv_byte_length :: u64
  sv_rows :: u32
  sv_cols :: u32
  sv_row_stride_bytes :: u32

record ds4_gpu_bf16_matrix_view =
  bv_arena_offset :: u64
  bv_byte_length :: u64
  bv_rows :: u32
  bv_cols :: u32
  bv_row_stride_elements :: u32

definition empty_matrix :: "ds4_bound_matrix \<Rightarrow> bool" where
  "empty_matrix m \<longleftrightarrow> bm_rows m = 0 \<or> bm_cols m = 0 \<or> bm_row_bytes m = 0 \<or> bm_bytes m = 0"

definition ds4_bound_matrix_source_view :: "ds4_bound_matrix \<Rightarrow> layer_error + ds4_gpu_source_row_view" where
  "ds4_bound_matrix_source_view m =
     (if empty_matrix m then Inl Empty_matrix
      else Inr \<lparr>sv_arena_offset = ds4_bound_matrix_arena_offset m, sv_byte_length = bm_bytes m,
                sv_rows = bm_rows m, sv_cols = bm_cols m, sv_row_stride_bytes = ucast (bm_row_bytes m)\<rparr>)"

definition ds4_bound_matrix_bf16_view :: "ds4_bound_matrix \<Rightarrow> layer_error + ds4_gpu_bf16_matrix_view" where
  "ds4_bound_matrix_bf16_view m =
     (if \<not> dtype_is (bm_binding m) ''bf16'' then Inl Not_bf16
      else if empty_matrix m then Inl Empty_matrix
      else Inr \<lparr>bv_arena_offset = ds4_bound_matrix_arena_offset m, bv_byte_length = bm_bytes m,
                bv_rows = bm_rows m, bv_cols = bm_cols m, bv_row_stride_elements = bm_cols m\<rparr>)"

end
