(* ===== verification/Layer_Bounds.thy ===== *)
theory Layer_Bounds
  imports Layer_State
begin

unbundle bit_operations_syntax

text \<open>
  What the initialisation of a layer establishes: every matrix it hands out lies inside the arena of
  the stage that owns the layer, the slices of the routed experts tile their tensors, and the spans
  the layer reports are the largest ends of its matrices.
\<close>

section \<open>What initialisation establishes\<close>

definition arena_of :: "ds4_context \<Rightarrow> int \<Rightarrow> nat" where
  "arena_of ctx g = unat (sg_arena_bytes (cx_stages ctx ! nat g))"

text \<open>A binding whose row passed the checks of the context, with its shape parsed.\<close>

definition bound_ok :: "ds4_context \<Rightarrow> ds4_tensor_binding \<Rightarrow> bool" where
  "bound_ok ctx b \<longleftrightarrow>
     expected_bytes_for_entry (tb_entry b) = Some (pe_byte_length (tb_entry b)) \<and>
     map_option fst (parse_shape_dims (pe_source_shape (tb_entry b)) 4) = Some (tb_shape b) \<and>
     entry_end (tb_entry b) \<le> arena_of ctx (tb_owner b)"

definition whole_matrix :: "ds4_context \<Rightarrow> ds4_bound_matrix \<Rightarrow> bool" where
  "whole_matrix ctx m \<longleftrightarrow> bound_ok ctx (bm_binding m) \<and> bm_rel m = 0 \<and>
     bm_bytes m = pe_byte_length (tb_entry (bm_binding m))"

lemma lookup_bound_ok:
  assumes "ctx_inv ctx" "ds4_context_require_layer_tensor_binding ctx layer suffix = Inr b"
  shows "bound_ok ctx b"
proof -
  obtain i where "ds4_context_lookup_tensor_binding ctx i = Inr b"
    using assms(2) by (auto simp: ds4_context_require_layer_tensor_binding_def res_simps)
  then obtain d where d: "find (\<lambda>d. pe_semantic_tensor_id (td_entry d) = i) (cx_descs ctx) = Some d"
      "fill_binding d = Inr b"
    by (auto simp: ds4_context_lookup_tensor_binding_def split: if_splits option.splits)
  then have "desc_ok ctx d"
    using assms(1) by (auto simp: ctx_inv_def find_Some_iff)
  with d(2) show ?thesis
    by (auto simp: fill_binding_def bound_ok_def desc_ok_def Let_def arena_of_def DS4_V100_MAX_SHAPE_DIMS_def
        split: option.splits)
qed

lemma bind_required_ok: "ctx_inv ctx \<Longrightarrow> bind_required ctx l s = Inr b \<Longrightarrow> bound_ok ctx b"
  by (auto simp: bind_required_def lift_context_def lookup_bound_ok split: sum.splits)

lemma make_2d_matrix_whole:
  "make_2d_matrix dt rs b label = Inr m \<Longrightarrow> bound_ok ctx b \<Longrightarrow> whole_matrix ctx m \<and> bm_binding m = b"
  by (auto simp: make_2d_matrix_def whole_matrix_def Let_def split: if_splits)

lemmas make_matrix_whole =
  make_2d_matrix_whole [of "''f32''" "\<lambda>cols. ucast cols * 4", folded make_f32_matrix_def]
  make_2d_matrix_whole [of "''f8_e4m3_b128''" "\<lambda>cols. ds4_src_f8_e4m3_b128_row_bytes (ucast cols)", folded make_f8_matrix_def]
  make_2d_matrix_whole [of "''bf16''" "\<lambda>cols. ucast cols * 2", folded make_bf16_matrix_def]

lemma required_matrix:
  assumes "ctx_inv ctx" "bind_required ctx l s = Inr b"
  shows "make_f32_matrix b label = Inr m \<Longrightarrow> whole_matrix ctx m"
    "make_f8_matrix b label = Inr m \<Longrightarrow> whole_matrix ctx m"
    "make_bf16_matrix b label = Inr m \<Longrightarrow> whole_matrix ctx m"
  using make_matrix_whole bind_required_ok [OF assms] by blast+

definition fixed_matrix_bindings :: "ds4_fixed_bindings \<Rightarrow> ds4_tensor_binding list" where
  "fixed_matrix_bindings fb = [fb_router fb, fb_attn_q_a fb, fb_attn_q_b fb, fb_attn_kv_latent fb,
     fb_attn_output_a fb, fb_attn_output_b fb, fb_shared_gate fb, fb_shared_up fb, fb_shared_down fb]"

lemma bind_fixed_ok:
  "ctx_inv ctx \<Longrightarrow> bind_fixed ctx l = Inr fb \<Longrightarrow> list_all (bound_ok ctx) (fixed_matrix_bindings fb)"
  unfolding bind_fixed_def Let_def res_bind_Inr_iff
  by (elim exE conjE) (clarsimp simp: fixed_matrix_bindings_def bind_required_ok)

definition fixed_matrices :: "ds4_layer_state \<Rightarrow> ds4_bound_matrix list" where
  "fixed_matrices st = ls_router st # attention_matrices (ls_attention st) @
     [sh_gate (ls_shared st), sh_up (ls_shared st), sh_down (ls_shared st)]"

lemma make_fixed_matrices_ok:
  assumes "make_fixed_matrices layer li stage routed fb hash bias = Inr st"
    and "list_all (bound_ok ctx) (fixed_matrix_bindings fb)"
  shows "list_all (whole_matrix ctx) (fixed_matrices st)" "ls_compressor st = None" "ls_indexer st = None"
    "ls_owning_gpu st = sg_gpu stage" "ls_layer_id st = layer" "ls_routed st = routed"
    "ls_layer_class st = ly_layer_class li" "ls_stage_id st = ly_stage_id li"
  using assms(1) unfolding make_fixed_matrices_def res_bind_Inr_iff
  by (elim exE conjE; use assms(2) in
      \<open>auto simp: fixed_matrices_def attention_matrices_def fixed_matrix_bindings_def dest: make_matrix_whole\<close>)+


lemma validate_router_binding_fields:
  assumes "validate_router_binding st = Inr st'"
  shows "fixed_matrices st' = fixed_matrices st" "ls_compressor st' = ls_compressor st" "ls_indexer st' = ls_indexer st"
    "ls_owning_gpu st' = ls_owning_gpu st" "ls_layer_id st' = ls_layer_id st" "ls_routed st' = ls_routed st"
    "ls_layer_class st' = ls_layer_class st" "ls_stage_id st' = ls_stage_id st"
  using assms by (auto simp: validate_router_binding_def fixed_matrices_def split: if_splits option.splits)

lemma set_compression_fields [simp]:
  "fixed_matrices (set_compression st) = fixed_matrices st" "ls_compressor (set_compression st) = ls_compressor st"
  "ls_indexer (set_compression st) = ls_indexer st" "ls_owning_gpu (set_compression st) = ls_owning_gpu st"
  "ls_layer_id (set_compression st) = ls_layer_id st" "ls_routed (set_compression st) = ls_routed st"
  "ls_layer_class (set_compression st) = ls_layer_class st" "ls_stage_id (set_compression st) = ls_stage_id st"
  by (simp_all add: set_compression_def fixed_matrices_def Let_def)

text \<open>Matrices of the owner that are whole bindings.\<close>

definition owned_matrices :: "ds4_context \<Rightarrow> int \<Rightarrow> ds4_bound_matrix list \<Rightarrow> bool" where
  "owned_matrices ctx g ms \<longleftrightarrow> (\<forall>m \<in> set ms. whole_matrix ctx m \<and> tb_owner (bm_binding m) = g)"

lemma check_same_owner_Inr [res_simps]: "check_same_owner g b label = Inr u \<longleftrightarrow> tb_owner b = g"
  by (auto simp: check_same_owner_def res_simps)

lemma init_compressor_ok:
  assumes "ctx_inv ctx" "init_compressor ctx st = Inr st'" "ls_compressor st = None"
  shows "st' = st\<lparr>ls_compressor := ls_compressor st'\<rparr> \<and> (ls_compressor st' = None \<longleftrightarrow> ls_compress_ratio st = 0) \<and>
    (case ls_compressor st' of None \<Rightarrow> True
      | Some x \<Rightarrow> owned_matrices ctx (ls_owning_gpu st) (compressor_matrices x))"
proof (cases "ls_compress_ratio st = 0")
  case True
  then show ?thesis using assms by (simp add: init_compressor_def)
next
  case False
  from assms(2) show ?thesis
    unfolding init_compressor_def Let_def if_not_P [OF False] res_bind_Inr_iff
    by (elim exE conjE)
       (use False in \<open>clarsimp simp: check_same_owner_Inr owned_matrices_def compressor_matrices_def\<close>,
        intro conjI; erule (1) required_matrix [OF assms(1)])
qed

lemma init_indexer_ok:
  assumes "ctx_inv ctx" "init_indexer ctx st = Inr st'" "ls_indexer st = None"
  shows "st' = st\<lparr>ls_indexer := ls_indexer st'\<rparr> \<and> (ls_indexer st' = None \<longleftrightarrow> ls_compress_ratio st \<noteq> 4) \<and>
    (case ls_indexer st' of None \<Rightarrow> True
      | Some x \<Rightarrow> owned_matrices ctx (ls_owning_gpu st) (indexer_matrices x))"
proof (cases "ls_compress_ratio st \<noteq> 4")
  case True
  then show ?thesis using assms by (simp add: init_indexer_def)
next
  case False
  from assms(2) show ?thesis
    unfolding init_indexer_def Let_def if_not_P [OF False] res_bind_Inr_iff
    by (elim exE conjE)
       (use False in \<open>clarsimp simp: check_same_owner_Inr owned_matrices_def indexer_matrices_def\<close>,
        intro conjI; erule (1) required_matrix [OF assms(1)])
qed


text \<open>A TurboMind view whose packed experts lie inside an arena.\<close>

definition view_ok :: "ds4_context \<Rightarrow> int \<Rightarrow> ds4_gpu_turbomind_mxfp4_matrix_view \<Rightarrow> bool" where
  "view_ok ctx g v \<longleftrightarrow>
     unat (tv_weight_offset v + ucast (tv_experts_packed v) * tv_weight_bytes_per_expert v) \<le> arena_of ctx g \<and>
     unat (tv_scale_offset v + ucast (tv_experts_packed v) * tv_scale_bytes_per_expert v) \<le> arena_of ctx g"

lemma tm_lookup_view_ok:
  assumes "ctx_inv ctx" "tm_lookup ctx layer suffix = Some b"
  shows "view_ok ctx (tmb_owner b) (tm_gpu_view b)"
proof -
  obtain i where "ds4_context_lookup_turbomind_binding ctx i = Inr b"
    using assms(2) by (auto simp: tm_lookup_def ds4_context_require_layer_turbomind_binding_def res_simps split: sum.splits)
  then obtain d where d: "find (\<lambda>d. te_semantic_tensor_id (tmd_entry d) = i) (cx_tm_descs ctx) = Some d"
      "fill_tm_binding d = Inr b"
    by (auto simp: ds4_context_lookup_turbomind_binding_def split: if_splits option.splits)
  then have "tm_desc_ok ctx d"
    using assms(1) by (auto simp: ctx_inv_def find_Some_iff)
  with d(2) show ?thesis
    by (auto simp: fill_tm_binding_def view_ok_def tm_gpu_view_def tm_desc_ok_def Let_def arena_of_def
        tm_weight_end_def tm_scale_end_def tm_weight_span_def tm_scale_span_def split: option.splits)
qed

lemma make_turbomind_routed_owner:
  "make_turbomind_routed_binding b label = Inr x \<Longrightarrow> tb_owner x = tmb_owner b"
  "make_turbomind_fused_gate_up_synthetic_binding b label = Inr x \<Longrightarrow> tb_owner x = tmb_owner b"
  by (auto simp: make_turbomind_fused_gate_up_synthetic_binding_def make_turbomind_routed_binding_def
      Let_def res_simps split: if_splits)

text \<open>What the routed group of a layer holds, source-bound or TurboMind-bound.\<close>

definition routed_ok :: "ds4_context \<Rightarrow> ds4_routed_state \<Rightarrow> bool" where
  "routed_ok ctx r \<longleftrightarrow>
     (if rt_has_turbomind r then
        view_ok ctx (tb_owner (rt_down r)) (rt_down_view r) \<and>
        (if rt_tm_gate r = None
         then rt_gate_view r = zero_tm_view \<and> rt_up_view r = zero_tm_view \<and>
              (rt_has_fused_gate_up r \<longrightarrow> view_ok ctx (tb_owner (rt_gate r)) (rt_gate_up_view r))
         else view_ok ctx (tb_owner (rt_gate r)) (rt_gate_view r) \<and> view_ok ctx (tb_owner (rt_up r)) (rt_up_view r))
      else bound_ok ctx (rt_gate r) \<and> bound_ok ctx (rt_up r) \<and> bound_ok ctx (rt_down r))"

lemma bind_source_experts_ok:
  "ctx_inv ctx \<Longrightarrow> bind_source_experts ctx l out = Inr r \<Longrightarrow> \<not> rt_has_turbomind out \<Longrightarrow> routed_ok ctx r"
  by (auto simp: bind_source_experts_def res_simps routed_ok_def dest: bind_required_ok)

lemma bind_tm_gate_up_Inr:
  assumes "bind_tm_gate_up out = Inr r"
  shows "rt_has_turbomind r = rt_has_turbomind out" "rt_tm_gate r = rt_tm_gate out" "rt_tm_up r = rt_tm_up out"
    "rt_gate_view r = rt_gate_view out" "rt_up_view r = rt_up_view out"
    "rt_has_fused_gate_up r \<longleftrightarrow> rt_tm_gate_up out \<noteq> None"
    "\<forall>b. rt_tm_gate_up out = Some b \<longrightarrow> rt_gate_up_view r = tm_gpu_view b \<and> tb_owner (rt_gate r) = tmb_owner b"
  using assms by (auto simp: bind_tm_gate_up_def res_simps dest: make_turbomind_routed_owner split: option.splits)

lemma bind_tm_separate_Inr:
  assumes "bind_tm_separate out = Inr r"
  shows "rt_has_turbomind r = rt_has_turbomind out" "rt_tm_gate r = rt_tm_gate out"
    "rt_tm_gate out = None \<Longrightarrow> r = out"
    "\<forall>g u. rt_tm_gate out = Some g \<and> rt_tm_up out = Some u \<longrightarrow>
       rt_gate_view r = tm_gpu_view g \<and> rt_up_view r = tm_gpu_view u \<and>
       tb_owner (rt_gate r) = tmb_owner g \<and> tb_owner (rt_up r) = tmb_owner u"
  using assms by (auto simp: bind_tm_separate_def res_simps dest: make_turbomind_routed_owner split: option.splits)

lemma bind_tm_tp2_fields [simp]:
  "routed_ok ctx (bind_tm_tp2 gu d out) = routed_ok ctx out"
  by (simp add: bind_tm_tp2_def routed_ok_def Let_def)

lemma bind_routed_expert_tensors_ok:
  assumes inv: "ctx_inv ctx" and b: "bind_routed_expert_tensors ctx l = Inr r"
  shows "routed_ok ctx r"
proof -
  let ?look = "tm_lookup ctx l"
  define out where "out = zero_routed_state\<lparr>rt_tm_gate := ?look ''ffn_gate_exps.weight'',
    rt_tm_up := ?look ''ffn_up_exps.weight'', rt_tm_gate_up := ?look ''ffn_gate_up_exps.weight'',
    rt_tm_down := ?look ''ffn_down_exps.weight''\<rparr>"
  have out: "\<not> rt_has_turbomind out" "rt_gate_view out = zero_tm_view" "rt_up_view out = zero_tm_view"
    "rt_tm_gate out = ?look ''ffn_gate_exps.weight''" "rt_tm_up out = ?look ''ffn_up_exps.weight''"
    "rt_tm_gate_up out = ?look ''ffn_gate_up_exps.weight''" "rt_tm_down out = ?look ''ffn_down_exps.weight''"
    by (simp_all add: out_def zero_routed_state_def)
  have "bind_source_experts ctx l out = Inr r \<or> (\<exists>down gu d. rt_tm_down out = Some down \<and> bind_tm_experts l gu d down out = Inr r)"
    using b unfolding bind_routed_expert_tensors_def Let_def out_def [symmetric]
    by (simp split: if_splits option.splits) blast
  then consider (source) "bind_source_experts ctx l out = Inr r"
    | (tm) down gu d out1 out2 db where "?look ''ffn_down_exps.weight'' = Some down"
        "(rt_tm_gate out \<noteq> None) = (rt_tm_up out \<noteq> None)"
        "bind_tm_gate_up (out\<lparr>rt_has_turbomind := True\<rparr>) = Inr out1" "bind_tm_separate out1 = Inr out2"
        "make_turbomind_routed_binding down ''ffn_down_exps.weight'' = Inr db"
        "r = bind_tm_tp2 gu d (out2\<lparr>rt_down := db, rt_down_view := tm_gpu_view down\<rparr>)"
    unfolding out(7) by (fastforce simp: bind_tm_experts_def res_simps)
  then show ?thesis
  proof cases
    case source
    then show ?thesis using bind_source_experts_ok [OF inv _ out(1)] by blast
  next
    case tm
    note g = bind_tm_gate_up_Inr [OF tm(3)] and s = bind_tm_separate_Inr [OF tm(4)]
    note own = make_turbomind_routed_owner(1) [OF tm(5)] and ok = tm_lookup_view_ok [OF inv]
    have r: "routed_ok ctx r = routed_ok ctx (out2\<lparr>rt_down := db, rt_down_view := tm_gpu_view down\<rparr>)"
      by (simp add: tm(6))
    show ?thesis
    proof (cases "rt_tm_gate out")
      case None
      then have "out2 = out1" using g(2) s(3) by simp
      with None g out own ok [OF tm(1)] ok [of l "''ffn_gate_up_exps.weight''"] show ?thesis
        unfolding r by (auto simp: routed_ok_def)
    next
      case (Some ga)
      with tm(2) obtain u where u: "rt_tm_up out = Some u" by auto
      from Some u g s own ok [OF tm(1)] ok [of l "''ffn_gate_exps.weight''" ga] ok [of l "''ffn_up_exps.weight''" u] out
      show ?thesis unfolding r by (auto simp: routed_ok_def)
    qed
  qed
qed

section \<open>Arena spans\<close>

text \<open>A matrix inside the arena of a device, with no wrap in its offset.\<close>

definition matrix_inside :: "ds4_context \<Rightarrow> int \<Rightarrow> ds4_bound_matrix \<Rightarrow> bool" where
  "matrix_inside ctx g m \<longleftrightarrow> unat (ds4_bound_matrix_arena_offset m) + unat (bm_bytes m) \<le> arena_of ctx g"

lemma arena_of_bound: "arena_of ctx g \<le> 18446744073709551615"
  by (simp add: arena_of_def unat_u64_bound)

lemma span_inside:
  assumes "bound_ok ctx (bm_binding m)" "tb_owner (bm_binding m) = g"
    and "unat (bm_rel m) + unat (bm_bytes m) \<le> unat (pe_byte_length (tb_entry (bm_binding m)))"
  shows "matrix_inside ctx g m"
proof -
  have "entry_end (tb_entry (bm_binding m)) \<le> arena_of ctx g" using assms(1,2) by (simp add: bound_ok_def)
  moreover from this have "unat (ds4_bound_matrix_arena_offset m) =
      unat (pe_shard_offset (tb_entry (bm_binding m))) + unat (bm_rel m)"
    unfolding ds4_bound_matrix_arena_offset_def using assms(3) arena_of_bound [of ctx g]
    by (intro unat_plus_no_overflow) simp
  ultimately show ?thesis using assms(3) by (simp add: matrix_inside_def)
qed

lemma whole_matrix_inside: "whole_matrix ctx m \<Longrightarrow> tb_owner (bm_binding m) = g \<Longrightarrow> matrix_inside ctx g m"
  by (rule span_inside) (simp_all add: whole_matrix_def)

lemma owned_matrices_inside: "owned_matrices ctx g ms \<Longrightarrow> list_all (matrix_inside ctx g) ms"
  by (auto simp: owned_matrices_def list_all_iff whole_matrix_inside)

text \<open>Growing a span over matrices inside an arena succeeds and stays inside.\<close>

lemma grow_span_for_matrix_inside:
  assumes "matrix_inside ctx g m"
  shows "\<exists>t. grow_span_for_matrix m s = Some t \<and>
     unat t = max (unat s) (unat (ds4_bound_matrix_arena_offset m) + unat (bm_bytes m))"
proof -
  let ?o = "ds4_bound_matrix_arena_offset m"
  have le: "unat ?o + unat (bm_bytes m) \<le> 18446744073709551615"
    using assms arena_of_bound [of ctx g] unfolding matrix_inside_def by linarith
  then have "\<not> bm_bytes m > UINT64_MAX - ?o" by (simp add: u64_arith)
  moreover have "unat (?o + bm_bytes m) = unat ?o + unat (bm_bytes m)" using le by (rule unat_plus_no_overflow)
  ultimately show ?thesis by (auto simp: grow_span_for_matrix_def Let_def word_less_nat_alt max_def)
qed

text \<open>The largest end of a list of matrices.\<close>

fun matrices_end :: "ds4_bound_matrix list \<Rightarrow> nat" where
  "matrices_end [] = 0"
| "matrices_end (m # ms) =
     max (unat (ds4_bound_matrix_arena_offset m) + unat (bm_bytes m)) (matrices_end ms)"

lemma matrices_end_append: "matrices_end (ms @ ns) = max (matrices_end ms) (matrices_end ns)"
  by (induction ms) (simp_all add: max.assoc)

lemma matrices_end_inside: "list_all (matrix_inside ctx g) ms \<Longrightarrow> matrices_end ms \<le> arena_of ctx g"
  by (induction ms) (simp_all add: matrix_inside_def)

lemma grow_spans_inside:
  "list_all (matrix_inside ctx g) ms \<Longrightarrow>
     \<exists>t. grow_spans grow_span_for_matrix e ms s = Inr t \<and> unat t = max (unat s) (matrices_end ms)"
proof (induction ms arbitrary: s)
  case Nil
  then show ?case by (simp add: grow_spans_def)
next
  case (Cons m ms)
  then obtain s1 where s1: "grow_span_for_matrix m s = Some s1"
      "unat s1 = max (unat s) (unat (ds4_bound_matrix_arena_offset m) + unat (bm_bytes m))"
    using grow_span_for_matrix_inside by fastforce
  moreover obtain t where "grow_spans grow_span_for_matrix e ms s1 = Inr t" "unat t = max (unat s1) (matrices_end ms)"
    using Cons by auto
  ultimately show ?case by (auto simp: grow_spans_def max.assoc)
qed

lemma grow_spans_views:
  assumes "grow_spans grow_span_for_turbomind_view e vs s = Inr t" "list_all (view_ok ctx g) vs"
    "unat s \<le> arena_of ctx g"
  shows "unat t \<le> arena_of ctx g"
  using assms(1) unfolding grow_spans_def
proof (rule fold_res_invariant)
  show "unat s \<le> arena_of ctx g" by fact
  fix v a b assume "v \<in> set vs" "unat a \<le> arena_of ctx g" "ok_or e (grow_span_for_turbomind_view v a) = Inr b"
  then show "unat b \<le> arena_of ctx g"
    using assms(2) by (auto simp: list_all_iff grow_span_for_turbomind_view_def view_ok_def res_simps Let_def split: if_splits)
qed

section \<open>An initialised layer\<close>

text \<open>The matrices attention reads, in the order of the span.\<close>

definition all_attention_matrices :: "ds4_layer_state \<Rightarrow> ds4_bound_matrix list" where
  "all_attention_matrices st = attention_matrices (ls_attention st) @
     (case ls_compressor st of None \<Rightarrow> [] | Some c \<Rightarrow> compressor_matrices c) @
     (case ls_indexer st of None \<Rightarrow> [] | Some x \<Rightarrow> indexer_matrices x)"

definition ffn_matrices :: "ds4_layer_state \<Rightarrow> ds4_bound_matrix list" where
  "ffn_matrices st = [ls_router st, sh_gate (ls_shared st), sh_up (ls_shared st), sh_down (ls_shared st)]"

definition layer_inv :: "ds4_context \<Rightarrow> ds4_layer_state \<Rightarrow> bool" where
  "layer_inv ctx st \<longleftrightarrow>
     list_all (matrix_inside ctx (ls_owning_gpu st)) (all_attention_matrices st @ ffn_matrices st) \<and>
     routed_ok ctx (ls_routed st) \<and>
     tb_owner (rt_gate (ls_routed st)) = ls_owning_gpu st \<and> tb_owner (rt_up (ls_routed st)) = ls_owning_gpu st \<and>
     tb_owner (rt_down (ls_routed st)) = ls_owning_gpu st"

lemma check_tp2_Inr:
  "check_tp2 st = Inr st' \<Longrightarrow> \<exists>p. st' = st\<lparr>ls_routed := (ls_routed st)\<lparr>rt_tp2_peer_gpu := p\<rparr>\<rparr>"
  by (auto simp: check_tp2_def split: if_splits intro: exI [of _ "rt_tp2_peer_gpu (ls_routed st)"])

lemma routed_peer [simp]: "routed_ok ctx (r\<lparr>rt_tp2_peer_gpu := p\<rparr>) = routed_ok ctx r"
  by (simp add: routed_ok_def)

lemma set_dimensions_fields [simp]:
  "ls_routed (set_dimensions st) = ls_routed st" "ls_attention (set_dimensions st) = ls_attention st"
  "ls_shared (set_dimensions st) = ls_shared st" "ls_router (set_dimensions st) = ls_router st"
  "ls_compressor (set_dimensions st) = ls_compressor st" "ls_indexer (set_dimensions st) = ls_indexer st"
  "ls_owning_gpu (set_dimensions st) = ls_owning_gpu st" "ls_layer_id (set_dimensions st) = ls_layer_id st"
  "ls_layer_class (set_dimensions st) = ls_layer_class st" "ls_stage_id (set_dimensions st) = ls_stage_id st"
  "ls_compress_ratio (set_dimensions st) = ls_compress_ratio st"
  "ls_hidden_size (set_dimensions st) = bm_cols (ls_router st)"
  "ls_intermediate_size (set_dimensions st) = bm_rows (sh_gate (ls_shared st))"
  by (simp_all add: set_dimensions_def Let_def)

text \<open>What the last checks establish, and what they leave alone.\<close>

definition with_routed :: "u32 \<Rightarrow> int \<Rightarrow> ds4_layer_state \<Rightarrow> ds4_layer_state" where
  "with_routed n p st = st\<lparr>ls_routed_experts := n, ls_routed := (ls_routed st)\<lparr>rt_tp2_peer_gpu := p\<rparr>\<rparr>"

lemma check_dimensions_Inr:
  assumes "check_dimensions st = Inr st'"
  obtains n p where "st' = with_routed n p (set_dimensions st)"
    "attention_dims_ok (set_dimensions st)" "attention_controls_ok (set_dimensions st)"
    "case ls_compressor st of None \<Rightarrow> True | Some c \<Rightarrow> compressor_dims_ok (set_dimensions st) c"
    "case ls_indexer st of None \<Rightarrow> True | Some x \<Rightarrow> indexer_dims_ok (set_dimensions st) x"
    "routed_dims_ok (set_dimensions st)" "shared_dims_ok (set_dimensions st)"
    "tb_shape (rt_up (ls_routed st)) ! 2 = ucast n" "tb_shape (rt_down (ls_routed st)) ! 2 = ucast n"
    "n_shape_dims (rt_gate (ls_routed st)) = 3" "n_shape_dims (rt_up (ls_routed st)) = 3"
    "n_shape_dims (rt_down (ls_routed st)) = 3" "n = ucast (tb_shape (rt_gate (ls_routed st)) ! 2)"
proof -
  let ?d = "set_dimensions st" and ?n = "ucast (tb_shape (rt_gate (ls_routed st)) ! 2) :: u32"
  let ?s1 = "?d\<lparr>ls_routed_experts := ?n\<rparr>"
  obtain st2 where c: "check_tp2 ?s1 = Inr st2" "st' = st2" "shared_dims_ok st2" "routed_dims_ok ?s1"
      "attention_dims_ok ?d" "attention_controls_ok ?d"
      "\<not> (case ls_compressor st of None \<Rightarrow> False | Some c \<Rightarrow> \<not> compressor_dims_ok ?d c)"
      "\<not> (case ls_indexer st of None \<Rightarrow> False | Some x \<Rightarrow> \<not> indexer_dims_ok ?d x)"
      "tb_shape (rt_up (ls_routed st)) ! 2 = ucast ?n" "tb_shape (rt_down (ls_routed st)) ! 2 = ucast ?n"
      "n_shape_dims (rt_gate (ls_routed st)) = 3" "n_shape_dims (rt_up (ls_routed st)) = 3"
      "n_shape_dims (rt_down (ls_routed st)) = 3"
    using assms unfolding check_dimensions_def Let_def res_bind_Inr_iff check_Inr_iff
    by (elim exE conjE) simp_all
  from check_tp2_Inr [OF c(1)] obtain p where p: "st' = with_routed ?n p ?d"
    using c(2) by (auto simp: with_routed_def)
  moreover have "shared_dims_ok ?d" using c(2,3) p by (auto simp: shared_dims_ok_def with_routed_def Let_def)
  moreover have "routed_dims_ok ?d" using c(4) by (simp add: routed_dims_ok_def)
  ultimately show ?thesis using that [of ?n p] c(5-) by (auto split: option.splits)
qed


lemma fixed_matrices_routed [simp]: "fixed_matrices (with_routed n p st) = fixed_matrices st"
  by (simp add: fixed_matrices_def with_routed_def)

text \<open>Initialisation, in one place.\<close>

lemma ds4_layer_state_init_result:
  assumes inv: "ctx_inv ctx" and i: "ds4_layer_state_init ctx l = Inr st"
  obtains st4 n p where "st = with_routed n p (set_dimensions st4)" "check_dimensions st4 = Inr st"
    "0 \<le> l" "l < 43" "ls_layer_id st4 = l" "ls_owning_gpu st4 = sg_gpu (cx_stages ctx ! nat (ly_stage_id (cx_layers ctx ! nat l)))"
    "ls_layer_class st4 = ly_layer_class (cx_layers ctx ! nat l)"
    "check_owned st4 = Inr ()" "routed_ok ctx (ls_routed st4)" "list_all (whole_matrix ctx) (fixed_matrices st4)"
    "case ls_compressor st4 of None \<Rightarrow> True | Some c \<Rightarrow> owned_matrices ctx (ls_owning_gpu st4) (compressor_matrices c)"
    "case ls_indexer st4 of None \<Rightarrow> True | Some x \<Rightarrow> owned_matrices ctx (ls_owning_gpu st4) (indexer_matrices x)"
proof -
  obtain li stage routed fb st1 st2 st3 st4 where
    li: "ds4_context_layer (Some ctx) l = Some li" "ds4_context_stage (Some ctx) (ly_stage_id li) = Some stage"
    and b: "bind_routed_expert_tensors ctx l = Inr routed" "bind_fixed ctx l = Inr fb"
    and s1: "make_fixed_matrices l li stage routed fb (bind_optional ctx l ''ffn_gate_tid2eid'')
        (bind_optional ctx l ''exp_probs_b'') = Inr st1"
    and s2: "validate_router_binding st1 = Inr st2"
    and s3: "init_compressor ctx (set_compression st2) = Inr st3"
    and s4: "init_indexer ctx st3 = Inr st4"
    and own: "check_owned st4 = Inr ()" and dims: "check_dimensions st4 = Inr st"
    using i unfolding ds4_layer_state_init_def by (auto simp: res_simps split: option.splits)
  note f1 = make_fixed_matrices_ok [OF s1 bind_fixed_ok [OF inv b(2)]]
  note f2 = validate_router_binding_fields [OF s2]
  have "ls_compressor (set_compression st2) = None" using f1 f2 by simp
  note c3 = init_compressor_ok [OF inv s3 this]
  then obtain c where c: "st3 = set_compression st2\<lparr>ls_compressor := c\<rparr>" by blast
  have "ls_indexer st3 = None" using f1 f2 by (simp add: c)
  note c4 = init_indexer_ok [OF inv s4 this]
  then obtain x where x: "st4 = st3\<lparr>ls_indexer := x\<rparr>" by blast
  have fm: "fixed_matrices st4 = fixed_matrices st1"
    using f2(1) by (simp add: x c fixed_matrices_def set_compression_def Let_def)
  obtain n p where "st = with_routed n p (set_dimensions st4)" using dims by (rule check_dimensions_Inr)
  then show ?thesis
  proof (rule that)
    show "0 \<le> l" "l < 43" using li(1) by (auto simp: ds4_context_layer_def DS4_V100_N_LAYERS_def split: if_splits)
    show "ls_layer_id st4 = l" "ls_layer_class st4 = ly_layer_class (cx_layers ctx ! nat l)"
      using f1 f2 li(1) by (auto simp: x c ds4_context_layer_def split: if_splits)
    show "ls_owning_gpu st4 = sg_gpu (cx_stages ctx ! nat (ly_stage_id (cx_layers ctx ! nat l)))"
      using f1 f2 li by (auto simp: x c ds4_context_layer_def ds4_context_stage_def split: if_splits)
    show "routed_ok ctx (ls_routed st4)"
      using f1 f2 bind_routed_expert_tensors_ok [OF inv b(1)] by (simp add: x c)
    show "list_all (whole_matrix ctx) (fixed_matrices st4)" using f1(1) by (simp add: fm)
    show "case ls_compressor st4 of None \<Rightarrow> True | Some c \<Rightarrow> owned_matrices ctx (ls_owning_gpu st4) (compressor_matrices c)"
      using c3 by (simp add: x c split: option.splits)
    show "case ls_indexer st4 of None \<Rightarrow> True | Some x \<Rightarrow> owned_matrices ctx (ls_owning_gpu st4) (indexer_matrices x)"
      using c4 by (simp add: x split: option.splits)
  qed (fact own dims)+
qed

lemma layer_inv_init:
  assumes inv: "ctx_inv ctx" and i: "ds4_layer_state_init ctx l = Inr st"
  shows "layer_inv ctx st"
proof -
  obtain st4 n p where st: "st = with_routed n p (set_dimensions st4)" and own: "check_owned st4 = Inr ()"
    and r: "routed_ok ctx (ls_routed st4)" and fm: "list_all (whole_matrix ctx) (fixed_matrices st4)"
    and c: "case ls_compressor st4 of None \<Rightarrow> True | Some c \<Rightarrow> owned_matrices ctx (ls_owning_gpu st4) (compressor_matrices c)"
    and x: "case ls_indexer st4 of None \<Rightarrow> True | Some x \<Rightarrow> owned_matrices ctx (ls_owning_gpu st4) (indexer_matrices x)"
    using ds4_layer_state_init_result [OF inv i] by metis
  have o: "\<forall>b \<in> fst ` set (owned_bindings st4). tb_owner b = ls_owning_gpu st4"
    using own unfolding check_owned_def fold_res_unit_iff by (auto simp: check_same_owner_Inr)
  have "list_all (\<lambda>m. tb_owner (bm_binding m) = ls_owning_gpu st4) (fixed_matrices st4)"
    using o by (simp add: owned_bindings_def fixed_matrices_def attention_matrices_def Let_def)
  with fm have fi: "list_all (matrix_inside ctx (ls_owning_gpu st4)) (fixed_matrices st4)"
    by (auto simp: list_all_iff whole_matrix_inside)
  have "list_all (matrix_inside ctx (ls_owning_gpu st4)) (all_attention_matrices st4 @ ffn_matrices st4)"
    using fi c x by (auto simp: all_attention_matrices_def ffn_matrices_def fixed_matrices_def
        dest: owned_matrices_inside split: option.splits)
  moreover have "all_attention_matrices st = all_attention_matrices st4" "ffn_matrices st = ffn_matrices st4"
    "ls_owning_gpu st = ls_owning_gpu st4"
    by (simp_all add: st with_routed_def all_attention_matrices_def ffn_matrices_def)
  ultimately show ?thesis
    using o r by (simp add: layer_inv_def st with_routed_def owned_bindings_def Let_def)
qed

section \<open>Expert slices\<close>

lemma bound_shape_elements:
  assumes "bound_ok ctx b" "dtype_is b ''mxfp4''"
  shows "32 dvd prod_list (map unat (tb_shape b))"
    "unat (pe_byte_length (tb_entry b)) = prod_list (map unat (tb_shape b)) div 32 * 17"
proof -
  obtain el where el: "parse_shape_dims (pe_source_shape (tb_entry b)) 4 = Some (tb_shape b, el)"
    using assms(1) by (auto simp: bound_ok_def)
  then have p: "unat el = prod_list (map unat (tb_shape b))"
    using shape_dims_product [of _ 4 "[]" 1 "tb_shape b" el]
    by (auto simp: parse_shape_dims_def split: list.splits if_splits)
  have "dtype_bytes DS4_V100_SOURCE_MXFP4 el = Some (pe_byte_length (tb_entry b))"
    using assms el
    by (auto simp: bound_ok_def expected_bytes_for_entry_def parse_shape_elements_def DS4_V100_MAX_SHAPE_DIMS_def
        dtype_is_def ds4_source_dtype_parse_def str_eq_ci_def tolower_def byte_def)
  then have d: "el mod 32 = 0" "\<not> UINT64_MAX div 17 < el" "pe_byte_length (tb_entry b) = el * 17 div 32"
    by (auto simp: dtype_bytes_def split: if_splits)
  have "unat (el * 17) = unat el * 17"
    using d(2) u64_mul_overflow_iff [of 17 el] unat_times_no_overflow [of el 17] by (simp add: mult.commute)
  moreover have "32 dvd unat el" using arg_cong [OF d(1), of unat] by (simp add: unat_mod dvd_eq_mod_eq_0)
  ultimately show "32 dvd prod_list (map unat (tb_shape b))"
    "unat (pe_byte_length (tb_entry b)) = prod_list (map unat (tb_shape b)) div 32 * 17"
    by (auto simp: d(3) unat_div p [symmetric] elim!: dvdE)
qed

lemma list_of_3: "length xs = 3 \<Longrightarrow> xs = [xs ! 0, xs ! 1, xs ! 2]"
  by (auto simp: numeral_3_eq_3 length_Suc_conv)

text \<open>The number of bytes of one expert, and the slice of an expert inside its binding.\<close>

definition expert_bytes :: "u32 \<Rightarrow> u32 \<Rightarrow> nat" where
  "expert_bytes cols rows = unat rows * (if 32 dvd unat cols then unat cols div 32 * 17 else 0)"

lemma mxfp4_row_bytes_exact:
  "unat (ds4_src_mxfp4_row_bytes (ucast (c :: u32))) = (if 32 dvd unat c then unat c div 32 * 17 else 0)"
proof (cases "32 dvd unat c \<and> c \<noteq> 0")
  case True
  then have "32 \<le> unat c" by (auto simp: unat_gt_0 dvd_imp_le)
  moreover have "unat c div 32 * 17 \<le> 18446744073709551615"
    using unat_u32_bound [of c] by linarith
  ultimately show ?thesis
    using True packed_row_bytes_exact [of 32 "ucast c" 17]
    by (simp add: ds4_src_mxfp4_row_bytes_def DS4_SRC_MXFP4_BLOCK_ELEMS_def DS4_SRC_MXFP4_BLOCK_BYTES_def
        unat_ucast_u64 dvd_eq_mod_eq_0)
next
  case False
  have "(ucast c :: u64) mod 32 = 0 \<longleftrightarrow> 32 dvd unat c"
    by (simp add: word_unat_eq_iff unat_mod unat_ucast_u64 dvd_eq_mod_eq_0)
  moreover have "(ucast c :: u64) = 0 \<longleftrightarrow> c = 0"
    by (simp add: word_unat_eq_iff unat_ucast_u64)
  ultimately show ?thesis
    using False by (auto simp: ds4_src_mxfp4_row_bytes_def packed_row_bytes_def DS4_SRC_MXFP4_BLOCK_ELEMS_def)
qed

lemma mxfp4_span:
  assumes b: "bound_ok ctx b" and d: "n_shape_dims b = 3" "dtype_is b ''mxfp4''" "ucast (e :: u32) < tb_shape b ! 2"
    and sh: "tb_shape b ! 0 = ucast cols" "tb_shape b ! 1 = ucast rows"
  defines "row \<equiv> ds4_src_mxfp4_row_bytes (ucast cols)"
  shows "unat (ucast rows * row) = expert_bytes cols rows"
    "unat (ucast e * (ucast rows * row)) = unat e * expert_bytes cols rows"
    "unat e * expert_bytes cols rows + expert_bytes cols rows \<le> unat (pe_byte_length (tb_entry b))"
    "32 dvd unat cols \<Longrightarrow> unat (pe_byte_length (tb_entry b)) = unat (tb_shape b ! 2) * expert_bytes cols rows"
proof -
  let ?len = "unat (pe_byte_length (tb_entry b))" and ?n = "unat (tb_shape b ! 2)" and ?x = "expert_bytes cols rows"
  have "prod_list (map unat (tb_shape b)) = unat cols * unat rows * ?n"
    by (subst list_of_3 [OF d(1)]) (simp add: sh sh(2) [unfolded One_nat_def] unat_ucast_u64 mult.assoc)
  note len = bound_shape_elements [OF b d(2), unfolded this]
  have tile: "?len = ?n * ?x" if "32 dvd unat cols"
    using that len(2) by (auto simp: expert_bytes_def elim!: dvdE)
  then show "32 dvd unat cols \<Longrightarrow> ?len = ?n * ?x" .
  have e: "unat e < ?n" using d(3) by (simp add: word_less_nat_alt unat_ucast_u64)
  have all: "(unat e + 1) * ?x \<le> ?len"
  proof (cases "32 dvd unat cols")
    case True
    then show ?thesis using tile e by (simp only: mult_le_mono1 Suc_le_eq Suc_eq_plus1 [symmetric])
  next
    case False
    then show ?thesis by (simp add: expert_bytes_def)
  qed
  have one: "?x \<le> 18446744073709551615" and rel: "unat e * ?x \<le> 18446744073709551615"
    using all unat_u64_bound [of "pe_byte_length (tb_entry b)"] by (simp_all add: algebra_simps)
  have x: "unat rows * unat row = ?x" by (simp add: row_def mxfp4_row_bytes_exact expert_bytes_def)
  show bytes: "unat (ucast rows * row) = ?x"
    using unat_times_no_overflow [of "ucast rows" row] one x by (simp add: unat_ucast_u64)
  show "unat (ucast e * (ucast rows * row)) = unat e * ?x"
    using unat_times_no_overflow [of "ucast e" "ucast rows * row"] rel bytes by (simp add: unat_ucast_u64)
  show "unat e * ?x + ?x \<le> ?len" using all by (simp add: algebra_simps)
qed

lemma ucast_ucast_u32: "ucast (ucast (x :: u32) :: u64) = x"
  by (rule bit_word_eqI) (auto simp: bit_simps)

lemma mxfp4_slice:
  assumes b: "bound_ok ctx b" and m: "make_mxfp4_expert_matrix b e label = Inr m"
    and sh: "tb_shape b ! 0 = ucast cols" "tb_shape b ! 1 = ucast rows"
  shows "bm_binding m = b" "unat (bm_bytes m) = expert_bytes cols rows"
    "unat (bm_rel m) = unat e * expert_bytes cols rows"
    "unat (bm_rel m) + unat (bm_bytes m) \<le> unat (pe_byte_length (tb_entry b))"
proof -
  have d: "n_shape_dims b = 3" "dtype_is b ''mxfp4''" "ucast e < tb_shape b ! 2"
    using m by (auto simp: make_mxfp4_expert_matrix_def split: if_splits)
  note span = mxfp4_span [OF b d sh]
  show "bm_binding m = b" "unat (bm_bytes m) = expert_bytes cols rows"
    "unat (bm_rel m) = unat e * expert_bytes cols rows"
    "unat (bm_rel m) + unat (bm_bytes m) \<le> unat (pe_byte_length (tb_entry b))"
    using m span(1,2,3) by (auto simp: make_mxfp4_expert_matrix_def sh sh(2) [unfolded One_nat_def] Let_def ucast_ucast_u32 split: if_splits)
qed

lemma mxfp4_slice_exists:
  assumes b: "bound_ok ctx b" and d: "n_shape_dims b = 3" "dtype_is b ''mxfp4''" "ucast e < tb_shape b ! 2"
    and sh: "tb_shape b ! 0 = ucast (cols :: u32)" "tb_shape b ! 1 = ucast (rows :: u32)"
  shows "\<exists>m. make_mxfp4_expert_matrix b e label = Inr m"
proof -
  note span = mxfp4_span [OF b d sh]
  let ?bytes = "ucast rows * ds4_src_mxfp4_row_bytes (ucast cols)" and ?len = "pe_byte_length (tb_entry b)"
  have "ucast e * ?bytes \<le> ?len" using span by (simp add: word_le_nat_alt)
  moreover from this have "?bytes \<le> ?len - ucast e * ?bytes"
    using span by (simp add: word_le_nat_alt unat_sub)
  ultimately show ?thesis
    using d by (simp add: make_mxfp4_expert_matrix_def sh sh(2) [unfolded One_nat_def] Let_def ucast_ucast_u32 not_less)
qed

text \<open>The dimensions of an initialised layer.\<close>

lemma init_dimensions:
  assumes inv: "ctx_inv ctx" and i: "ds4_layer_state_init ctx l = Inr st"
  shows "routed_dims_ok st" "attention_dims_ok st" "attention_controls_ok st" "shared_dims_ok st"
    "n_shape_dims (rt_gate (ls_routed st)) = 3" "n_shape_dims (rt_up (ls_routed st)) = 3"
    "n_shape_dims (rt_down (ls_routed st)) = 3"
    "tb_shape (rt_up (ls_routed st)) ! 2 = ucast (ls_routed_experts st)"
    "tb_shape (rt_down (ls_routed st)) ! 2 = ucast (ls_routed_experts st)"
    "ls_routed_experts st = ucast (tb_shape (rt_gate (ls_routed st)) ! 2)"
    "ls_layer_id st = l" "ls_hidden_size st = bm_cols (ls_router st)"
proof -
  obtain st4 where c: "check_dimensions st4 = Inr st" "ls_layer_id st4 = l"
    using ds4_layer_state_init_result [OF inv i] by metis
  let ?P = "routed_dims_ok st \<and> attention_dims_ok st \<and> attention_controls_ok st \<and> shared_dims_ok st \<and>
    n_shape_dims (rt_gate (ls_routed st)) = 3 \<and> n_shape_dims (rt_up (ls_routed st)) = 3 \<and>
    n_shape_dims (rt_down (ls_routed st)) = 3 \<and>
    tb_shape (rt_up (ls_routed st)) ! 2 = ucast (ls_routed_experts st) \<and>
    tb_shape (rt_down (ls_routed st)) ! 2 = ucast (ls_routed_experts st) \<and>
    ls_routed_experts st = ucast (tb_shape (rt_gate (ls_routed st)) ! 2) \<and>
    ls_layer_id st = l \<and> ls_hidden_size st = bm_cols (ls_router st)"
  have ?P
    by (rule check_dimensions_Inr [OF c(1)])
       (simp add: c(2) Let_def with_routed_def routed_dims_ok_def attention_dims_ok_def attention_controls_ok_def shared_dims_ok_def)
  then show "routed_dims_ok st" "attention_dims_ok st" "attention_controls_ok st" "shared_dims_ok st"
    "n_shape_dims (rt_gate (ls_routed st)) = 3" "n_shape_dims (rt_up (ls_routed st)) = 3"
    "n_shape_dims (rt_down (ls_routed st)) = 3"
    "tb_shape (rt_up (ls_routed st)) ! 2 = ucast (ls_routed_experts st)"
    "tb_shape (rt_down (ls_routed st)) ! 2 = ucast (ls_routed_experts st)"
    "ls_routed_experts st = ucast (tb_shape (rt_gate (ls_routed st)) ! 2)"
    "ls_layer_id st = l" "ls_hidden_size st = bm_cols (ls_router st)"
    by blast+
qed

text \<open>The slices of a route, by role.\<close>

definition route_list :: "ds4_route_matrices \<Rightarrow> ds4_bound_matrix list" where
  "route_list r = [ro_gate r, ro_up r, ro_down r]"

definition routed_list :: "ds4_routed_state \<Rightarrow> ds4_tensor_binding list" where
  "routed_list r = [rt_gate r, rt_up r, rt_down r]"

text \<open>The dimensions of the slices: gate and up map the hidden state to the intermediate one, down back.\<close>

definition slice_dims :: "ds4_layer_state \<Rightarrow> (u32 \<times> u32) list" where
  "slice_dims st = [(ls_hidden_size st, ls_intermediate_size st), (ls_hidden_size st, ls_intermediate_size st),
     (ls_intermediate_size st, ls_hidden_size st)]"

lemma less_3_cases: "(k :: nat) < 3 \<Longrightarrow> k = 0 \<or> k = 1 \<or> k = 2" by auto

lemma route_slice:
  assumes inv: "layer_inv ctx st" and dims: "routed_dims_ok st"
    and r: "ds4_layer_state_route_matrices st e = Inr r" and k: "k < 3"
  shows "bound_ok ctx (routed_list (ls_routed st) ! k)"
    "tb_owner (routed_list (ls_routed st) ! k) = ls_owning_gpu st"
    "\<exists>label. make_mxfp4_expert_matrix (routed_list (ls_routed st) ! k) e label = Inr (route_list r ! k)"
    "tb_shape (routed_list (ls_routed st) ! k) ! 0 = ucast (fst (slice_dims st ! k))"
    "tb_shape (routed_list (ls_routed st) ! k) ! 1 = ucast (snd (slice_dims st ! k))"
  using less_3_cases [OF k] inv dims r
  by (auto simp: layer_inv_def routed_ok_def ds4_layer_state_route_matrices_def Let_def res_simps routed_list_def
      route_list_def routed_dims_ok_def slice_dims_def split: if_splits)

text \<open>Where a slice lies in the arena of its layer.\<close>

lemma route_slice_range:
  assumes "layer_inv ctx st" "routed_dims_ok st" "ds4_layer_state_route_matrices st e = Inr r" "k < 3"
  shows "bm_binding (route_list r ! k) = routed_list (ls_routed st) ! k"
    "unat (ds4_bound_matrix_arena_offset (route_list r ! k)) =
       unat (pe_shard_offset (tb_entry (routed_list (ls_routed st) ! k))) +
       unat e * expert_bytes (fst (slice_dims st ! k)) (snd (slice_dims st ! k))"
    "unat (bm_bytes (route_list r ! k)) = expert_bytes (fst (slice_dims st ! k)) (snd (slice_dims st ! k))"
    "matrix_inside ctx (ls_owning_gpu st) (route_list r ! k)"
proof -
  note s = route_slice [OF assms]
  from s(3) obtain label where m: "make_mxfp4_expert_matrix (routed_list (ls_routed st) ! k) e label = Inr (route_list r ! k)"
    by blast
  note sl = mxfp4_slice [OF s(1) m s(4,5)]
  show b: "bm_binding (route_list r ! k) = routed_list (ls_routed st) ! k" by (rule sl(1))
  show "unat (bm_bytes (route_list r ! k)) = expert_bytes (fst (slice_dims st ! k)) (snd (slice_dims st ! k))"
    by (rule sl(2))
  show "matrix_inside ctx (ls_owning_gpu st) (route_list r ! k)"
    using s(1,2) sl(4) by (intro span_inside) (simp_all add: b)
  have "entry_end (tb_entry (routed_list (ls_routed st) ! k)) \<le> 18446744073709551615"
    using s(1) arena_of_bound by (auto simp: bound_ok_def intro: order_trans)
  then show "unat (ds4_bound_matrix_arena_offset (route_list r ! k)) =
       unat (pe_shard_offset (tb_entry (routed_list (ls_routed st) ! k))) +
       unat e * expert_bytes (fst (slice_dims st ! k)) (snd (slice_dims st ! k))"
    using sl(2,3,4) by (simp add: ds4_bound_matrix_arena_offset_def b unat_plus_no_overflow)
qed

text \<open>Which experts have slices, for a layer bound to the source pack.\<close>

lemma route_matrices_succeeds:
  assumes inv: "ctx_inv ctx" and i: "ds4_layer_state_init ctx l = Inr st"
    and src: "\<not> rt_has_turbomind (ls_routed st)" and dt: "list_all (\<lambda>b. dtype_is b ''mxfp4'') (routed_list (ls_routed st))"
    and e: "e < ls_routed_experts st"
  shows "\<exists>r. ds4_layer_state_route_matrices st e = Inr r"
proof -
  note d = init_dimensions [OF inv i]
  let ?r = "ls_routed st"
  have ok: "bound_ok ctx (rt_gate ?r)" "bound_ok ctx (rt_up ?r)" "bound_ok ctx (rt_down ?r)"
    using layer_inv_init [OF inv i] src by (simp_all add: layer_inv_def routed_ok_def)
  have sh: "tb_shape (rt_gate ?r) ! 0 = ucast (ls_hidden_size st)" "tb_shape (rt_gate ?r) ! 1 = ucast (ls_intermediate_size st)"
    "tb_shape (rt_up ?r) ! 0 = ucast (ls_hidden_size st)" "tb_shape (rt_up ?r) ! 1 = ucast (ls_intermediate_size st)"
    "tb_shape (rt_down ?r) ! 0 = ucast (ls_intermediate_size st)" "tb_shape (rt_down ?r) ! 1 = ucast (ls_hidden_size st)"
    using d(1) by (simp_all add: routed_dims_ok_def Let_def)
  have "unat e < unat (ls_routed_experts st)" using e by (simp add: word_less_nat_alt)
  moreover have "unat (ls_routed_experts st) \<le> unat (tb_shape (rt_gate ?r) ! 2)"
    by (simp add: d(10) unsigned_ucast_eq)
  ultimately have lt: "ucast e < tb_shape (rt_gate ?r) ! 2" "ucast e < tb_shape (rt_up ?r) ! 2" "ucast e < tb_shape (rt_down ?r) ! 2"
    unfolding d(8,9) by (simp_all add: word_less_nat_alt unat_ucast_u64)
  have t: "dtype_is (rt_gate ?r) ''mxfp4''" "dtype_is (rt_up ?r) ''mxfp4''" "dtype_is (rt_down ?r) ''mxfp4''"
    using dt by (simp_all add: routed_list_def)
  obtain g u w where "make_mxfp4_expert_matrix (rt_gate ?r) e ''ffn_gate_exps.weight'' = Inr g"
      "make_mxfp4_expert_matrix (rt_up ?r) e ''ffn_up_exps.weight'' = Inr u"
      "make_mxfp4_expert_matrix (rt_down ?r) e ''ffn_down_exps.weight'' = Inr w"
    using mxfp4_slice_exists [OF ok(1) d(5) t(1) lt(1) sh(1,2)] mxfp4_slice_exists [OF ok(2) d(6) t(2) lt(2) sh(3,4)]
      mxfp4_slice_exists [OF ok(3) d(7) t(3) lt(3) sh(5,6)] by metis
  moreover have "\<not> ls_routed_experts st \<le> e" using e by simp
  ultimately show ?thesis using src by (simp add: ds4_layer_state_route_matrices_def)
qed

text \<open>The span of the feed-forward part.\<close>

lemma route_list_inside:
  assumes "layer_inv ctx st" "routed_dims_ok st" "ds4_layer_state_route_matrices st e = Inr r"
  shows "list_all (matrix_inside ctx (ls_owning_gpu st)) (route_list r)"
  using route_slice_range(4) [OF assms] by (simp add: list_all_length route_list_def nth_Cons')

lemma route_span_step_inside:
  assumes inv: "layer_inv ctx st" and dims: "routed_dims_ok st"
  shows "route_span_step st e s = Inr t \<Longrightarrow> unat s \<le> arena_of ctx (ls_owning_gpu st) \<Longrightarrow>
      unat t \<le> arena_of ctx (ls_owning_gpu st)"
    "0 \<le> e \<Longrightarrow> (of_int e :: u32) < ls_routed_experts st \<Longrightarrow>
      ds4_layer_state_route_matrices st (of_int e) = Inr r \<Longrightarrow> \<exists>t. route_span_step st e s = Inr t"
proof -
  have g: "\<exists>t. grow_spans grow_span_for_matrix Routed_span_overflow (route_list r) s = Inr t \<and>
      unat t = max (unat s) (matrices_end (route_list r)) \<and> matrices_end (route_list r) \<le> arena_of ctx (ls_owning_gpu st)"
    if "ds4_layer_state_route_matrices st (of_int e) = Inr r" for r
    using grow_spans_inside [OF route_list_inside [OF inv dims that]] matrices_end_inside [OF route_list_inside [OF inv dims that]]
    by blast
  show "route_span_step st e s = Inr t \<Longrightarrow> unat s \<le> arena_of ctx (ls_owning_gpu st) \<Longrightarrow>
      unat t \<le> arena_of ctx (ls_owning_gpu st)"
    using g by (auto simp: route_span_step_def res_simps route_list_def [symmetric] dest!: g)
  show "\<exists>t. route_span_step st e s = Inr t" if "0 \<le> e" "(of_int e :: u32) < ls_routed_experts st"
      "ds4_layer_state_route_matrices st (of_int e) = Inr r"
    using that g [OF that(3)] by (auto simp: route_span_step_def check_selected_def route_list_def [symmetric] not_le check_def)
qed

section \<open>Spans of a layer\<close>

lemma layer_owner:
  assumes inv: "ctx_inv ctx" and i: "ds4_layer_state_init ctx l = Inr st"
  shows "ls_owning_gpu st = ds4_stage_for_layer l"
proof -
  obtain st4 n p where st: "st = with_routed n p (set_dimensions st4)" and l: "0 \<le> l" "l < 43"
    and o: "ls_owning_gpu st4 = sg_gpu (cx_stages ctx ! nat (ly_stage_id (cx_layers ctx ! nat l)))"
    using ds4_layer_state_init_result [OF inv i] by metis
  have "ly_stage_id (cx_layers ctx ! nat l) = ds4_stage_for_layer l" "stage_of (nat l) < 8" "0 \<le> ds4_stage_for_layer l"
    using inv l stage_of_range [of "nat l"] by (auto simp: ctx_inv_def staged_def)
  moreover from this have "sg_gpu (cx_stages ctx ! nat (ds4_stage_for_layer l)) = ds4_stage_for_layer l"
    using inv l by (simp add: ctx_inv_def staged_def)
  ultimately show ?thesis by (simp add: st with_routed_def o)
qed

lemma attention_span_inside:
  assumes "list_all (matrix_inside ctx g) (all_attention_matrices st)"
  shows "\<exists>n. ds4_layer_state_attention_arena_span st = Inr n \<and> unat n = matrices_end (all_attention_matrices st) \<and>
     unat n \<le> arena_of ctx g"
proof -
  let ?a = "attention_matrices (ls_attention st)"
  let ?c = "case ls_compressor st of None \<Rightarrow> [] | Some c \<Rightarrow> compressor_matrices c"
  let ?x = "case ls_indexer st of None \<Rightarrow> [] | Some x \<Rightarrow> indexer_matrices x"
  have all: "list_all (matrix_inside ctx g) ?a" "list_all (matrix_inside ctx g) ?c" "list_all (matrix_inside ctx g) ?x"
    using assms by (simp_all add: all_attention_matrices_def)
  note gr = grow_spans_inside
  obtain s1 where s1: "grow_spans grow_span_for_matrix Attention_span_overflow ?a 0 = Inr s1" "unat s1 = matrices_end ?a"
    using gr [OF all(1), of Attention_span_overflow 0] by auto
  obtain s2 where s2: "(case ls_compressor st of None \<Rightarrow> Inr s1
      | Some c \<Rightarrow> grow_spans grow_span_for_matrix Compressor_span_overflow (compressor_matrices c) s1) = Inr s2"
      "unat s2 = max (matrices_end ?a) (matrices_end ?c)"
    using gr [OF all(2), of Compressor_span_overflow s1] s1(2) by (auto split: option.splits)
  obtain s3 where s3: "(case ls_indexer st of None \<Rightarrow> Inr s2
      | Some x \<Rightarrow> grow_spans grow_span_for_matrix Indexer_span_overflow (indexer_matrices x) s2) = Inr s3"
      "unat s3 = max (max (matrices_end ?a) (matrices_end ?c)) (matrices_end ?x)"
    using gr [OF all(3), of Indexer_span_overflow s2] s2(2) by (auto split: option.splits)
  have "ds4_layer_state_attention_arena_span st = Inr s3"
    by (simp add: ds4_layer_state_attention_arena_span_def s1(1) s2(1) s3(1))
  moreover have "unat s3 = matrices_end (all_attention_matrices st)"
    by (simp add: s3(2) all_attention_matrices_def matrices_end_append max.assoc)
  ultimately show ?thesis using matrices_end_inside [OF assms] by auto
qed

lemma ffn_fixed_span:
  assumes "layer_inv ctx st"
  shows "\<exists>s. grow_spans grow_span_for_matrix Fixed_ffn_span_overflow (ffn_matrices st) 0 = Inr s \<and>
     unat s = matrices_end (ffn_matrices st) \<and> unat s \<le> arena_of ctx (ls_owning_gpu st)"
proof -
  have all: "list_all (matrix_inside ctx (ls_owning_gpu st)) (ffn_matrices st)" using assms by (simp add: layer_inv_def)
  show ?thesis
    using grow_spans_inside [OF all, of Fixed_ffn_span_overflow 0] matrices_end_inside [OF all] by auto
qed

lemma grow_spans_mono:
  assumes "\<And>m a b. grow m a = Some b \<Longrightarrow> unat a \<le> unat (b :: u64)" "grow_spans grow e ms s = Inr t"
  shows "unat s \<le> unat t"
  using assms(2) unfolding grow_spans_def
  by (rule fold_res_invariant) (auto simp: res_simps dest: assms(1))

lemma grow_matrix_mono: "grow_span_for_matrix m a = Some b \<Longrightarrow> unat a \<le> unat b"
  by (auto simp: grow_span_for_matrix_def Let_def word_less_nat_alt split: if_splits)

lemma grow_view_mono: "grow_span_for_turbomind_view v a = Some b \<Longrightarrow> unat a \<le> unat b"
  by (auto simp: grow_span_for_turbomind_view_def Let_def word_less_nat_alt split: if_splits)

lemma span_mono:
  "grow_spans grow_span_for_matrix e ms s = Inr t \<Longrightarrow> unat s \<le> unat t"
  "grow_spans grow_span_for_turbomind_view e vs s = Inr t \<Longrightarrow> unat s \<le> unat t"
  using grow_spans_mono [of grow_span_for_matrix] grow_spans_mono [of grow_span_for_turbomind_view]
    grow_matrix_mono grow_view_mono by blast+

lemma route_span_mono: "route_span_step st e s = Inr t \<Longrightarrow> unat s \<le> unat t"
  by (auto simp: route_span_step_def res_simps dest: span_mono)

lemma ffn_span_bounds:
  assumes inv: "layer_inv ctx st" and dims: "routed_dims_ok st"
    and f: "ds4_layer_state_ffn_arena_span st selected = Inr n"
    and one: "\<not> (rt_has_fused_gate_up (ls_routed st) \<and> rt_tm_gate (ls_routed st) \<noteq> None)"
  shows "matrices_end (ffn_matrices st) \<le> unat n \<and> unat n \<le> arena_of ctx (ls_owning_gpu st)"
proof -
  let ?A = "arena_of ctx (ls_owning_gpu st)" and ?r = "ls_routed st"
  obtain s0 where s0: "grow_spans grow_span_for_matrix Fixed_ffn_span_overflow (ffn_matrices st) 0 = Inr s0"
      "unat s0 = matrices_end (ffn_matrices st)" "unat s0 \<le> ?A"
    using ffn_fixed_span [OF inv] by blast
  have own: "tb_owner (rt_gate ?r) = ls_owning_gpu st" "tb_owner (rt_up ?r) = ls_owning_gpu st"
    "tb_owner (rt_down ?r) = ls_owning_gpu st" and ok: "routed_ok ctx ?r"
    using inv by (simp_all add: layer_inv_def)
  show ?thesis
  proof (cases "rt_has_turbomind ?r")
    case False
    then have f': "fold_res (route_span_step st) selected s0 = Inr n"
      using f s0(1) by (simp add: ds4_layer_state_ffn_arena_span_def ffn_matrices_def Let_def)
    have "unat s0 \<le> unat n \<and> unat n \<le> ?A"
      using f' by (rule fold_res_invariant [where P = "\<lambda>s. unat s0 \<le> unat s \<and> unat s \<le> ?A"])
        (use s0(3) route_span_step_inside(1) [OF inv dims] route_span_mono in \<open>auto intro: order_trans\<close>)
    with s0(2) show ?thesis by simp
  next
    case True
    obtain s1 s2 where s1: "(if rt_has_fused_gate_up ?r
          then grow_spans grow_span_for_turbomind_view Turbomind_span_overflow [rt_gate_up_view ?r] s0 else Inr s0) = Inr s1"
      and s2: "(if tv_experts_packed (rt_gate_view ?r) \<noteq> 0 \<or> tv_experts_packed (rt_up_view ?r) \<noteq> 0
          then grow_spans grow_span_for_turbomind_view Turbomind_span_overflow [rt_gate_view ?r, rt_up_view ?r] s1
          else Inr s1) = Inr s2"
      and s3: "grow_spans grow_span_for_turbomind_view Turbomind_span_overflow [rt_down_view ?r] s2 = Inr n"
      using f s0(1) True by (auto simp: ds4_layer_state_ffn_arena_span_def ffn_matrices_def Let_def res_simps)
    note gv = grow_spans_views [where g = "ls_owning_gpu st" and ctx = ctx]
    have v: "view_ok ctx (ls_owning_gpu st) (rt_down_view ?r)"
      "rt_tm_gate ?r = None \<longrightarrow> rt_gate_view ?r = zero_tm_view \<and> rt_up_view ?r = zero_tm_view \<and>
         (rt_has_fused_gate_up ?r \<longrightarrow> view_ok ctx (ls_owning_gpu st) (rt_gate_up_view ?r))"
      "rt_tm_gate ?r \<noteq> None \<longrightarrow> view_ok ctx (ls_owning_gpu st) (rt_gate_view ?r) \<and> view_ok ctx (ls_owning_gpu st) (rt_up_view ?r)"
      using ok True own by (auto simp: routed_ok_def split: if_splits)
    have "unat s0 \<le> unat s1 \<and> unat s1 \<le> ?A"
      using s1 one v s0(3) gv [of Turbomind_span_overflow "[rt_gate_up_view ?r]" s0 s1] span_mono(2)
      by (auto split: if_splits)
    moreover from this have "unat s1 \<le> unat s2 \<and> unat s2 \<le> ?A"
      using s2 v gv [of Turbomind_span_overflow "[rt_gate_view ?r, rt_up_view ?r]" s1 s2] span_mono(2)
      by (cases "rt_tm_gate ?r") (auto simp: zero_tm_view_def split: if_splits)
    moreover from this have "unat s2 \<le> unat n \<and> unat n \<le> ?A"
      using s3 v gv [of Turbomind_span_overflow "[rt_down_view ?r]" s2 n] span_mono(2)
      by auto
    ultimately show ?thesis using s0(2) by simp
  qed
qed

lemma selected_expert_u32: "0 \<le> e \<Longrightarrow> e < int (unat (x :: u32)) \<Longrightarrow> (of_int e :: u32) < x"
  using unsigned_less [of x, where 'a = int]
  by (simp add: word_less_def uint_word_of_int take_bit_int_eq_self)

lemma ffn_span_succeeds:
  assumes inv: "ctx_inv ctx" and i: "ds4_layer_state_init ctx l = Inr st"
    and src: "\<not> rt_has_turbomind (ls_routed st) \<and> list_all (\<lambda>b. dtype_is b ''mxfp4'') (routed_list (ls_routed st)) \<and>
      list_all (\<lambda>e. 0 \<le> e \<and> e < int (unat (ls_routed_experts st))) selected"
  shows "\<exists>n. ds4_layer_state_ffn_arena_span st selected = Inr n"
proof -
  note l = layer_inv_init [OF inv i] and d = init_dimensions(1) [OF inv i]
  obtain s0 where s0: "grow_spans grow_span_for_matrix Fixed_ffn_span_overflow (ffn_matrices st) 0 = Inr s0"
    using ffn_fixed_span [OF l] by blast
  have step: "\<exists>t. route_span_step st e s = Inr t" if "0 \<le> e" "e < int (unat (ls_routed_experts st))" for e s
    using route_matrices_succeeds [OF inv i _ _ selected_expert_u32 [OF that]] src
      route_span_step_inside(2) [OF l d that(1) selected_expert_u32 [OF that]] by blast
  have "list_all (\<lambda>e. 0 \<le> e \<and> e < int (unat (ls_routed_experts st))) es \<Longrightarrow> \<exists>n. fold_res (route_span_step st) es s = Inr n" for es s
    using step by (induction es arbitrary: s) (auto, metis res_bind_simps(2))
  with src s0 show ?thesis
    by (simp add: ds4_layer_state_ffn_arena_span_def ffn_matrices_def Let_def)
qed

end
