(* ===== verification/Context_Success.thy ===== *)
theory Context_Success
  imports Context
begin

text \<open>
  When opening succeeds. The checks of \<open>bind_pack_entry\<close> on a row do not depend on the rows bound
  before it, and the table of descriptors never outgrows its capacity test, so a context without
  a TurboMind index opens exactly when every row of its pack index passes those checks.
\<close>

section \<open>Rows that can be bound\<close>

definition bindable :: "ds4_context_options \<Rightarrow> ds4_pack_entry \<Rightarrow> bool" where
  "bindable opts e \<longleftrightarrow>
     0 \<le> pe_owning_gpu e \<and> pe_owning_gpu e < op_expected_gpus opts \<and> pe_layer_id e < 43 \<and>
     (0 \<le> pe_layer_id e \<longrightarrow> ds4_stage_for_layer (pe_layer_id e) = pe_owning_gpu e) \<and>
     expected_bytes_for_entry e = Some (pe_byte_length e) \<and>
     ds4_classify_or_die (pe_source_dtype e) (pe_runtime_layout e) (pe_kernel_family e) \<noteq> None"

text \<open>The capacity of the descriptor table is zero, or covers the table without being much larger.\<close>

definition descs_room :: "ds4_context \<Rightarrow> bool" where
  "descs_room ctx \<longleftrightarrow> cx_cap_descs ctx = 0 \<and> cx_descs ctx = [] \<or>
     length (cx_descs ctx) \<le> unat (cx_cap_descs ctx) \<and> unat (cx_cap_descs ctx) \<le> 2 * length (cx_descs ctx) + 256"

lemma append_desc_succeeds:
  assumes room: "descs_room ctx" and len: "length (cx_descs ctx) < 2 ^ 56"
  shows "\<exists>ctx'. append_desc e p ctx = Inr ctx' \<and> descs_room ctx' \<and>
     cx_descs ctx' = cx_descs ctx @ [\<lparr>td_entry = e, td_policy = p\<rparr>] \<and> cx_opts ctx' = cx_opts ctx"
proof -
  let ?n = "length (cx_descs ctx)" and ?cap = "cx_cap_descs ctx"
  have n: "unat (of_nat ?n :: u64) = ?n" using len by (simp add: unat_of_nat_u64)
  have grow: "(of_nat ?n = ?cap) \<longleftrightarrow> ?n = unat ?cap"
    using n by (metis word_unat_eq_iff)
  show ?thesis
  proof (cases "?n = unat ?cap")
    case False
    with room show ?thesis
      by (auto simp: append_desc_def Let_def grow descs_room_def)
  next
    case True
    show ?thesis
    proof (cases "?cap = 0")
      case True
      with \<open>?n = unat ?cap\<close> show ?thesis
        by (auto simp: append_desc_def Let_def grow descs_room_def)
    next
      case False
      have pos: "0 < unat ?cap" using False by (simp add: unat_gt_0)
      have dbl: "unat (?cap * 2) = unat ?cap * 2"
        using len True by (subst unat_times_no_overflow) auto
      moreover have "\<not> ?cap * 2 < ?cap" "\<not> ?cap * 2 > UINT64_MAX div 40"
        using len True by (simp_all add: word_less_nat_alt dbl)
      ultimately show ?thesis
        using True False len pos by (auto simp: append_desc_def Let_def grow descs_room_def dbl)
    qed
  qed
qed

lemma bind_pack_entry_succeeds:
  assumes room: "descs_room ctx" and len: "length (cx_descs ctx) < 2 ^ 56"
    and ok: "bindable (cx_opts ctx) e" and arena: "pack_wf pack" "e \<in> set (pk_entries pack)"
  shows "\<exists>ctx'. bind_pack_entry pack e ctx = Inr ctx' \<and> descs_room ctx' \<and>
     length (cx_descs ctx') = Suc (length (cx_descs ctx)) \<and> cx_opts ctx' = cx_opts ctx"
proof -
  obtain p where p: "ds4_classify_or_die (pe_source_dtype e) (pe_runtime_layout e) (pe_kernel_family e) = Some p"
    using ok by (auto simp: bindable_def)
  have "descs_room (bind_update e p ctx) = descs_room ctx"
    by (simp add: descs_room_def bind_update_def Let_def)
  from append_desc_succeeds [of "bind_update e p ctx" e p] this room len
  obtain ctx' where c: "append_desc e p (bind_update e p ctx) = Inr ctx'" "descs_room ctx'"
      "length (cx_descs ctx') = Suc (length (cx_descs ctx))" "cx_opts ctx' = cx_opts ctx"
    by (auto simp: bind_update_fields)
  have "0 < op_expected_gpus (cx_opts ctx)" using ok by (simp add: bindable_def)
  with ok p c(1) arena_check_passes [OF arena refl] have "bind_pack_entry pack e ctx = Inr ctx'"
    unfolding bind_pack_entry_def Let_def res_simps
    by (auto simp: bindable_def bind_max_gpu_def DS4_V100_N_LAYERS_def)
  with c show ?thesis by blast
qed

lemma fold_bind_pack_succeeds:
  assumes "descs_room ctx" "length (cx_descs ctx) + length es < 2 ^ 56"
    and "\<forall>e \<in> set es. bindable (cx_opts ctx) e" "pack_wf pack" "set es \<subseteq> set (pk_entries pack)"
  shows "\<exists>ctx'. fold_res (bind_pack_entry pack) es ctx = Inr ctx' \<and> cx_opts ctx' = cx_opts ctx"
  using assms
proof (induction es arbitrary: ctx)
  case (Cons e es)
  then obtain c where c: "bind_pack_entry pack e ctx = Inr c" "descs_room c"
      "length (cx_descs c) = Suc (length (cx_descs ctx))" "cx_opts c = cx_opts ctx"
    using bind_pack_entry_succeeds [of ctx e pack] by auto
  with Cons.IH [of c] Cons.prems show ?case by auto
qed simp

lemma fold_bind_pack_bindable:
  "fold_res (bind_pack_entry pack) es ctx = Inr ctx' \<Longrightarrow> 0 < op_expected_gpus (cx_opts ctx) \<Longrightarrow>
     (\<forall>e \<in> set es. bindable (cx_opts ctx) e) \<and> cx_opts ctx' = cx_opts ctx"
proof (induction es arbitrary: ctx)
  case (Cons e es)
  obtain c where c: "bind_pack_entry pack e ctx = Inr c" "fold_res (bind_pack_entry pack) es c = Inr ctx'"
    using Cons.prems(1) by (auto simp: res_simps)
  from bind_pack_entry_Inr [OF c(1)] obtain p where p: "0 \<le> pe_owning_gpu e" "pe_owning_gpu e < bind_max_gpu ctx"
      "pe_layer_id e < 43" "0 \<le> pe_layer_id e \<longrightarrow> ds4_stage_for_layer (pe_layer_id e) = pe_owning_gpu e"
      "expected_bytes_for_entry e = Some (pe_byte_length e)"
      "ds4_classify_or_die (pe_source_dtype e) (pe_runtime_layout e) (pe_kernel_family e) = Some p"
      "append_desc e p (bind_update e p ctx) = Inr c" by metis
  have "cx_opts c = cx_opts ctx"
    using p(7) by (auto simp: append_desc_def Let_def bind_update_fields split: if_splits)
  with Cons.IH [OF c(2)] Cons.prems(2) p(1-6) show ?case by (simp add: bindable_def bind_max_gpu_def)
qed simp

section \<open>The number of rows of an index\<close>

lemma length_split_on: "length (split_on c xs) \<le> Suc (length xs)"
  by (induction c xs rule: split_on.induct) (auto split: list.splits)

lemma pack_read_lines_length:
  "pack_read_lines pack no segs = Inr p \<Longrightarrow> length (pk_entries p) \<le> length (pk_entries pack) + length segs"
proof (induction pack no segs rule: pack_read_lines.induct)
  case (2 pack no seg segs)
  have "length (pk_entries q) = Suc (length (pk_entries pack))" if "parse_pack_row pack (c_str seg) (Suc no) = Inr q" for q
    using parse_pack_row_appends [OF that] by auto
  with 2 show ?case
    by (auto simp: Let_def res_simps split: if_splits intro: le_SucI)
qed simp

lemma ds4_pack_open_length:
  assumes "ds4_pack_open fs (Some path) = Inr p"
  shows "length (pk_entries p) \<le> 67108865"
proof -
  obtain buf where buf: "read_small_file fs path = Inr buf"
      "pack_read_lines \<lparr>pk_entries = [], pk_cap_entries = 0, pk_path = path\<rparr> 0 (split_on LF buf) = Inr p"
    using assms by (auto simp: ds4_pack_open_def res_simps split: if_splits)
  have "length buf \<le> 67108864"
    using buf(1) by (auto simp: read_small_file_def Let_def split: option.splits if_splits)
  with pack_read_lines_length [OF buf(2)] length_split_on [of LF buf] show ?thesis by simp
qed

section \<open>Opening\<close>

text \<open>Options that ask for a pack index and nothing that needs a device.\<close>

definition pack_only :: "ds4_context_options \<Rightarrow> string \<Rightarrow> bool" where
  "pack_only opts path \<longleftrightarrow> op_pack_index_path opts = Some path \<and> path \<noteq> [] \<and>
     op_turbomind_pack_index_path opts = None \<and> \<not> op_require_production_topology opts \<and>
     0 < op_expected_gpus opts \<and> op_expected_gpus opts \<le> 8 \<and> op_relay_max_active_slots opts \<noteq> 0 \<and>
     (op_kv_ctx_tokens opts = 0 \<or> op_kv_active_slots opts \<noteq> 0 \<and> op_planned_kv_bytes_per_gpu opts = 0)"

lemma plan_cap: "cx_cap_descs (planned_context opts) = 0"
proof -
  have "cx_cap_descs (fst (fold kv_view_layer ls st)) = cx_cap_descs (fst st)" for ls st
    by (rule fold_same [where P = "\<lambda>st. cx_cap_descs (fst st)"]) (simp add: kv_view_layer_def Let_def split: prod.splits)
  moreover have "cx_cap_descs (fold kv_accumulate_layer ls c) = cx_cap_descs c" for ls c
    by (rule fold_same) (simp add: kv_accumulate_layer_def Let_def)
  ultimately show ?thesis
    by (simp add: apply_derived_kv_plan_def Let_def init_stage_map_def new_context_def)
qed

lemma context_opens_iff_bindable:
  assumes po: "pack_only opts path"
  shows "(\<exists>ctx. ds4_context_open fs (Some opts) = Inr ctx) \<longleftrightarrow>
     (\<exists>pack. ds4_pack_open fs (Some path) = Inr pack \<and> (\<forall>e \<in> set (pk_entries pack). bindable opts e))"
proof -
  let ?p = "planned_context opts"
  note p = planned_context_parts [of opts]
  have open_eq: "ds4_context_open fs (Some opts) = Inr ctx \<longleftrightarrow> bind_pack fs ?p = Inr ctx" for ctx
  proof -
    have "bind_pack fs ?p = Inr c \<Longrightarrow> cx_opts c = opts" for c
    proof -
      assume b: "bind_pack fs ?p = Inr c"
      have "ctx_inv ?p" using p po by (intro ctx_inv_no_descs) (simp_all add: bind_max_gpu_def pack_only_def)
      then have "plan_part c = plan_part ?p" using bind_pack_result [OF b _ p(3,4)] by blast
      then show ?thesis using p(2) by (simp add: plan_part_def)
    qed
    then show ?thesis
      using po p(2) by (auto simp: ds4_context_open_def pack_only_def check_def validate_topology_def bind_tm_pack_def
          validate_memory_budget_def DS4_V100_EXPECTED_GPUS_def res_simps)
  qed
  have bind: "bind_pack fs ?p = Inr ctx \<longleftrightarrow> (\<exists>pack. ds4_pack_open fs (Some path) = Inr pack \<and>
      fold_res (bind_pack_entry pack) (pk_entries pack) (?p\<lparr>cx_pack := Some pack,
        cx_stages := map (\<lambda>i. (cx_stages ?p ! i)\<lparr>sg_arena_bytes := ds4_pack_arena_bytes pack (int i)\<rparr>)
          [0..<DS4_V100_EXPECTED_GPUS]\<rparr>) = Inr ctx)" for ctx
    using po p(2) by (auto simp: bind_pack_def pack_only_def ds4_pack_for_each_def split: sum.splits)
  show ?thesis
  proof
    assume "\<exists>ctx. ds4_context_open fs (Some opts) = Inr ctx"
    then show "\<exists>pack. ds4_pack_open fs (Some path) = Inr pack \<and> (\<forall>e \<in> set (pk_entries pack). bindable opts e)"
      using po p(2) by (auto simp: open_eq bind pack_only_def dest!: fold_bind_pack_bindable)
  next
    assume "\<exists>pack. ds4_pack_open fs (Some path) = Inr pack \<and> (\<forall>e \<in> set (pk_entries pack). bindable opts e)"
    then obtain pack where pk: "ds4_pack_open fs (Some path) = Inr pack" "\<forall>e \<in> set (pk_entries pack). bindable opts e"
      by blast
    let ?c = "?p\<lparr>cx_pack := Some pack,
        cx_stages := map (\<lambda>i. (cx_stages ?p ! i)\<lparr>sg_arena_bytes := ds4_pack_arena_bytes pack (int i)\<rparr>)
          [0..<DS4_V100_EXPECTED_GPUS]\<rparr>"
    have "descs_room ?c" "cx_opts ?c = opts" "cx_descs ?c = []"
      using p plan_cap by (simp_all add: descs_room_def)
    then obtain ctx where "fold_res (bind_pack_entry pack) (pk_entries pack) ?c = Inr ctx"
      using fold_bind_pack_succeeds [of ?c "pk_entries pack" pack] pk ds4_pack_open_length [OF pk(1)]
        ds4_pack_open_wf [OF pk(1)] by auto
    then show "\<exists>ctx. ds4_context_open fs (Some opts) = Inr ctx"
      using pk(1) by (auto simp: open_eq bind)
  qed
qed

end
