(* ===== verification/Layer_Properties.thy ===== *)
theory Layer_Properties
  imports Layer_Bounds Context_Success Context_Properties
begin

text \<open>
  The properties of opening a context from a pack, of the state of a layer, of the slices of its
  routed experts and of the source formats, with an example model of one layer.
\<close>

section \<open>An example layer\<close>

text \<open>
  Layer 0 of a small model: hidden size 128, intermediate size 128, two experts. The theorems
  below are applied to the index the packer writes for it.
\<close>

definition tensor_row :: "string \<Rightarrow> string \<Rightarrow> string \<Rightarrow> nat \<Rightarrow> nat \<Rightarrow> manifest_row" where
  "tensor_row suffix dtype shape offset len =
     \<lparr>mr_semantic_tensor_id = ''blk.0.'' @ suffix, mr_source_name = suffix, mr_source_dtype = dtype,
      mr_source_shape = shape, mr_runtime_layout = ''row'', mr_owning_gpu = 0, mr_layer_id = 0,
      mr_kernel_family = ''k'', mr_source_offset = of_nat offset, mr_byte_length = of_nat len, mr_scale_offset = ''-1'',
      mr_checksum = ''c'', mr_byte_offset_basis = ''absolute_gguf_file'', mr_shard_offset = of_nat offset\<rparr>"

definition example_layer :: "manifest_row list" where
  "example_layer = [
     tensor_row ''ffn_gate_exps.weight'' ''mxfp4'' ''[128x128x2]'' 0 17408,
     tensor_row ''ffn_up_exps.weight'' ''mxfp4'' ''[128x128x2]'' 17408 17408,
     tensor_row ''ffn_down_exps.weight'' ''mxfp4'' ''[128x128x2]'' 34816 17408,
     tensor_row ''ffn_gate_shexp.weight'' ''f8_e4m3_b128'' ''[128x128]'' 52224 16512,
     tensor_row ''ffn_up_shexp.weight'' ''f8_e4m3_b128'' ''[128x128]'' 68736 16512,
     tensor_row ''ffn_down_shexp.weight'' ''f8_e4m3_b128'' ''[128x128]'' 85248 16512,
     tensor_row ''ffn_gate_inp.weight'' ''f32'' ''[128x256]'' 101760 131072,
     tensor_row ''attn_q_a.weight'' ''f8_e4m3_b128'' ''[128x1024]'' 232832 132096,
     tensor_row ''attn_q_b.weight'' ''f8_e4m3_b128'' ''[1024x32768]'' 364928 33816576,
     tensor_row ''attn_kv_latent.weight'' ''f8_e4m3_b128'' ''[128x512]'' 34181504 66048,
     tensor_row ''attn_output_a.weight'' ''f8_e4m3_b128'' ''[128x8192]'' 34247552 1056768,
     tensor_row ''attn_output_b.weight'' ''f8_e4m3_b128'' ''[8192x128]'' 35304320 1056768,
     tensor_row ''attn_norm.weight'' ''f32'' ''[128]'' 36361088 512,
     tensor_row ''attn_q_a_norm.weight'' ''f32'' ''[1024]'' 36361600 4096,
     tensor_row ''attn_kv_a_norm.weight'' ''f32'' ''[512]'' 36365696 2048,
     tensor_row ''attn_sinks'' ''f32'' ''[64]'' 36367744 256,
     tensor_row ''hc_attn_fn'' ''f32'' ''[4]'' 36368000 16,
     tensor_row ''hc_attn_base'' ''f32'' ''[4]'' 36368016 16,
     tensor_row ''hc_attn_scale'' ''f32'' ''[4]'' 36368032 16,
     tensor_row ''ffn_norm.weight'' ''f32'' ''[4]'' 36368048 16,
     tensor_row ''hc_ffn_fn'' ''f32'' ''[4]'' 36368064 16,
     tensor_row ''hc_ffn_base'' ''f32'' ''[4]'' 36368080 16,
     tensor_row ''hc_ffn_scale'' ''f32'' ''[4]'' 36368096 16,
     tensor_row ''exp_probs_b'' ''f32'' ''[256]'' 36368112 1024]"

definition example_layer_fs :: file_system where
  "example_layer_fs path = Some (file_of (write_index example_layer))"

lemma example_layer_length: "length example_layer = 24"
  by (simp add: example_layer_def)

text \<open>Shapes by the round trip of printing and parsing.\<close>

lemma parse_shape_show:
  assumes "dims \<noteq> []" "length dims \<le> 4" "\<forall>d \<in> set dims. d \<noteq> 0" "prod_list (map unat dims) < 2 ^ 64"
  shows "parse_shape_dims (show_shape dims) 4 = Some (dims, prod_list dims)"
  using shape_dims_join [of dims "[]" 4 1] assms by (simp add: parse_shape_dims_def show_shape_def)

lemma example_shapes:
  "parse_shape_dims ''[128x128x2]'' 4 = Some ([128, 128, 2], 32768)"
  "parse_shape_dims ''[128x128]'' 4 = Some ([128, 128], 16384)"
  "parse_shape_dims ''[128x256]'' 4 = Some ([128, 256], 32768)"
  "parse_shape_dims ''[128x1024]'' 4 = Some ([128, 1024], 131072)"
  "parse_shape_dims ''[1024x32768]'' 4 = Some ([1024, 32768], 33554432)"
  "parse_shape_dims ''[128x512]'' 4 = Some ([128, 512], 65536)"
  "parse_shape_dims ''[128x8192]'' 4 = Some ([128, 8192], 1048576)"
  "parse_shape_dims ''[8192x128]'' 4 = Some ([8192, 128], 1048576)"
  "parse_shape_dims ''[128]'' 4 = Some ([128], 128)"
  "parse_shape_dims ''[1024]'' 4 = Some ([1024], 1024)"
  "parse_shape_dims ''[512]'' 4 = Some ([512], 512)"
  "parse_shape_dims ''[64]'' 4 = Some ([64], 64)"
  "parse_shape_dims ''[4]'' 4 = Some ([4], 4)"
  "parse_shape_dims ''[256]'' 4 = Some ([256], 256)"
  using parse_shape_show [of "[128, 128, 2]"] parse_shape_show [of "[128, 128]"] parse_shape_show [of "[128, 256]"]
    parse_shape_show [of "[128, 1024]"] parse_shape_show [of "[1024, 32768]"] parse_shape_show [of "[128, 512]"]
    parse_shape_show [of "[128, 8192]"] parse_shape_show [of "[8192, 128]"] parse_shape_show [of "[128]"]
    parse_shape_show [of "[1024]"] parse_shape_show [of "[512]"] parse_shape_show [of "[64]"]
    parse_shape_show [of "[4]"] parse_shape_show [of "[256]"]
  by (simp_all add: show_shape_def show_nat.simps digit_char_def)

lemma example_dtypes:
  "ds4_source_dtype_parse ''mxfp4'' = DS4_V100_SOURCE_MXFP4"
  "ds4_source_dtype_parse ''f8_e4m3_b128'' = DS4_V100_SOURCE_F8_E4M3_B128"
  "ds4_source_dtype_parse ''f32'' = DS4_V100_SOURCE_F32"
  "ds4_classify_or_die ''mxfp4'' ''row'' ''k'' \<noteq> None"
  "ds4_classify_or_die ''f8_e4m3_b128'' ''row'' ''k'' \<noteq> None"
  "ds4_classify_or_die ''f32'' ''row'' ''k'' \<noteq> None"
  by (simp_all add: ds4_source_dtype_parse_def str_eq_ci_def tolower_def byte_def ds4_classify_or_die_def
      ds4_tensor_family_infer_def contains_ci_def policy_of_family_def)

definition example_ok :: "string \<Rightarrow> string \<Rightarrow> nat \<Rightarrow> bool" where
  "example_ok dtype shape len \<longleftrightarrow>
     (\<exists>ds el. parse_shape_dims shape 4 = Some (ds, el) \<and>
        dtype_bytes (ds4_source_dtype_parse dtype) el = Some (of_nat len)) \<and>
     ds4_classify_or_die dtype ''row'' ''k'' \<noteq> None"

lemma tensor_row_bindable:
  "example_ok dtype shape len \<Longrightarrow> bindable example_token_options (row_entry (tensor_row suffix dtype shape off len))"
  by (auto simp: example_ok_def bindable_def row_entry_def tensor_row_def entry_of_row_def ds4_stage_for_layer_def
      DS4_V100_N_LAYERS_def expected_bytes_for_entry_def parse_shape_elements_def DS4_V100_MAX_SHAPE_DIMS_def
      example_token_options_def ds4_context_options_init_def DS4_V100_EXPECTED_GPUS_def)

lemma example_layer_bindable: "\<forall>r \<in> set example_layer. bindable example_token_options (row_entry r)"
  unfolding example_layer_def
  by (simp add: tensor_row_bindable example_ok_def example_shapes example_dtypes dtype_bytes_def)

lemma length_show_nat: "n < 10 ^ k \<Longrightarrow> 0 < k \<Longrightarrow> length (show_nat n) \<le> k"
proof (induction k arbitrary: n)
  case (Suc k)
  show ?case
  proof (cases "n < 10")
    case False
    with Suc have "length (show_nat (n div 10)) \<le> k" by (cases k) auto
    with False show ?thesis by (simp add: show_nat.simps [of n])
  qed (simp add: show_nat.simps [of n])
qed simp

lemma length_tensor_row:
  assumes "off < 10 ^ 9" "len < 10 ^ 9"
  shows "length (index_row (tensor_row s d sh off len)) \<le> 200 + 2 * length s + length d + length sh"
proof -
  have "unat (of_nat off :: u64) = off" "unat (of_nat len :: u64) = len"
    using assms by (simp_all add: unat_of_nat_u64)
  then show ?thesis
    using length_show_nat [of off 9] length_show_nat [of len 9] assms
    by (simp add: index_row_def tensor_row_def show_int_def show_nat.simps [of 0])
qed

lemma example_layer_size: "length (write_index example_layer) \<le> 67108864"
proof -
  have w: "length (write_index rows) = length ds4_pack_header + 1 + sum_list (map (\<lambda>r. Suc (length (index_row r))) rows)" for rows
    by (simp add: write_index_def length_concat comp_def)
  have "sum_list (map (\<lambda>r. Suc (length (index_row r))) rows) \<le> 1000 * length rows"
    if "\<forall>r \<in> set rows. length (index_row r) < 1000" for rows
    using that by (induction rows) auto
  moreover have "\<forall>r \<in> set example_layer. length (index_row r) < 1000"
    unfolding example_layer_def by (simp add: le_less_trans [OF length_tensor_row])
  ultimately have "sum_list (map (\<lambda>r. Suc (length (index_row r))) example_layer) \<le> 1000 * 24"
    by (metis (no_types, lifting) example_layer_length)
  moreover have "length ds4_pack_header \<le> 1000" by (simp add: ds4_pack_header_def)
  ultimately show ?thesis by (simp add: w)
qed

lemma example_layer_indexable: "list_all row_indexable example_layer"
proof -
  have "parse_i64_field ''-1'' = Some (- 1)" by code_simp
  then show ?thesis
    unfolding example_layer_def
    by (simp add: tensor_row_def row_indexable_def text_fields_def unat_of_nat_u64)
qed

lemma example_layer_distinct:
  "distinct (map mr_semantic_tensor_id example_layer)" "distinct (map mr_source_name example_layer)"
  by (simp_all add: example_layer_def tensor_row_def)

lemma example_layer_pack:
  obtains pack where "ds4_pack_open example_layer_fs (Some ''i'') = Inr pack" "pk_entries pack = map row_entry example_layer"
  using write_index_opens [OF example_layer_indexable _ example_layer_distinct example_layer_size, of example_layer_fs "''i''"]
  by (auto simp: example_layer_fs_def file_of_def example_layer_def)


text \<open>The context of the example, and what its lookups return; the policy stays what the classifier gave.\<close>

definition lookup_policy :: "ds4_context \<Rightarrow> string \<Rightarrow> ds4_policy" where
  "lookup_policy ctx suffix = tb_policy (projr (ds4_context_lookup_tensor_binding ctx (''blk.0.'' @ suffix)))"

lemma find_distinct:
  "distinct (map key xs) \<Longrightarrow> x \<in> set xs \<Longrightarrow> find (\<lambda>y. key y = key x) xs = Some x"
  by (induction xs) auto

lemma find_map: "find P (map f xs) = map_option f (find (\<lambda>x. P (f x)) xs)"
  by (induction xs) auto

lemma example_lookup:
  assumes ctx: "map td_entry (cx_descs ctx) = map row_entry example_layer"
    and r: "tensor_row suffix dtype shape off len \<in> set example_layer" "length suffix < 100"
    and sh: "map_option fst (parse_shape_dims shape 4) = Some ds" and ne: "suffix \<noteq> []"
  shows "bind_required ctx 0 suffix = Inr \<lparr>tb_entry = row_entry (tensor_row suffix dtype shape off len),
     tb_policy = lookup_policy ctx suffix, tb_shape = ds\<rparr>"
proof -
  let ?r = "tensor_row suffix dtype shape off len"
  have "find (\<lambda>e. pe_semantic_tensor_id e = mr_semantic_tensor_id ?r) (map row_entry example_layer) = Some (row_entry ?r)"
    using find_distinct [OF example_layer_distinct(1) r(1)] by (simp add: find_map row_entry_def entry_of_row_def)
  then obtain d where d: "find (\<lambda>d. pe_semantic_tensor_id (td_entry d) = ''blk.0.'' @ suffix) (cx_descs ctx) = Some d"
      "td_entry d = row_entry ?r"
    by (auto simp: ctx [symmetric] find_map tensor_row_def)
  moreover obtain el where "parse_shape_dims shape 4 = Some (ds, el)" using sh by auto
  ultimately have l: "ds4_context_lookup_tensor_binding ctx (''blk.0.'' @ suffix) =
      Inr \<lparr>tb_entry = row_entry ?r, tb_policy = td_policy d, tb_shape = ds\<rparr>"
    by (simp add: ds4_context_lookup_tensor_binding_def fill_binding_def DS4_V100_MAX_SHAPE_DIMS_def
        row_entry_def entry_of_row_def tensor_row_def)
  moreover have "layer_tensor_id 0 suffix = Inr (''blk.0.'' @ suffix)"
    using r(2) ne by (simp add: layer_tensor_id_def DS4_V100_N_LAYERS_def show_int_def show_nat.simps [of 0] digit_char_def)
  ultimately show ?thesis
    by (simp add: bind_required_def lift_context_def ds4_context_require_layer_tensor_binding_def lookup_policy_def)
qed

lemma example_bindings:
  assumes ctx: "map td_entry (cx_descs ctx) = map row_entry example_layer"
  shows
    "bind_required ctx 0 ''ffn_gate_exps.weight'' = Inr \<lparr>tb_entry = row_entry (tensor_row ''ffn_gate_exps.weight'' ''mxfp4'' ''[128x128x2]'' 0 17408),
      tb_policy = lookup_policy ctx ''ffn_gate_exps.weight'', tb_shape = [128, 128, 2]\<rparr>"
    "bind_required ctx 0 ''ffn_up_exps.weight'' = Inr \<lparr>tb_entry = row_entry (tensor_row ''ffn_up_exps.weight'' ''mxfp4'' ''[128x128x2]'' 17408 17408),
      tb_policy = lookup_policy ctx ''ffn_up_exps.weight'', tb_shape = [128, 128, 2]\<rparr>"
    "bind_required ctx 0 ''ffn_down_exps.weight'' = Inr \<lparr>tb_entry = row_entry (tensor_row ''ffn_down_exps.weight'' ''mxfp4'' ''[128x128x2]'' 34816 17408),
      tb_policy = lookup_policy ctx ''ffn_down_exps.weight'', tb_shape = [128, 128, 2]\<rparr>"
    "bind_required ctx 0 ''ffn_gate_shexp.weight'' = Inr \<lparr>tb_entry = row_entry (tensor_row ''ffn_gate_shexp.weight'' ''f8_e4m3_b128'' ''[128x128]'' 52224 16512),
      tb_policy = lookup_policy ctx ''ffn_gate_shexp.weight'', tb_shape = [128, 128]\<rparr>"
    "bind_required ctx 0 ''ffn_up_shexp.weight'' = Inr \<lparr>tb_entry = row_entry (tensor_row ''ffn_up_shexp.weight'' ''f8_e4m3_b128'' ''[128x128]'' 68736 16512),
      tb_policy = lookup_policy ctx ''ffn_up_shexp.weight'', tb_shape = [128, 128]\<rparr>"
    "bind_required ctx 0 ''ffn_down_shexp.weight'' = Inr \<lparr>tb_entry = row_entry (tensor_row ''ffn_down_shexp.weight'' ''f8_e4m3_b128'' ''[128x128]'' 85248 16512),
      tb_policy = lookup_policy ctx ''ffn_down_shexp.weight'', tb_shape = [128, 128]\<rparr>"
    "bind_required ctx 0 ''ffn_gate_inp.weight'' = Inr \<lparr>tb_entry = row_entry (tensor_row ''ffn_gate_inp.weight'' ''f32'' ''[128x256]'' 101760 131072),
      tb_policy = lookup_policy ctx ''ffn_gate_inp.weight'', tb_shape = [128, 256]\<rparr>"
    "bind_required ctx 0 ''attn_q_a.weight'' = Inr \<lparr>tb_entry = row_entry (tensor_row ''attn_q_a.weight'' ''f8_e4m3_b128'' ''[128x1024]'' 232832 132096),
      tb_policy = lookup_policy ctx ''attn_q_a.weight'', tb_shape = [128, 1024]\<rparr>"
    "bind_required ctx 0 ''attn_q_b.weight'' = Inr \<lparr>tb_entry = row_entry (tensor_row ''attn_q_b.weight'' ''f8_e4m3_b128'' ''[1024x32768]'' 364928 33816576),
      tb_policy = lookup_policy ctx ''attn_q_b.weight'', tb_shape = [1024, 32768]\<rparr>"
    "bind_required ctx 0 ''attn_kv_latent.weight'' = Inr \<lparr>tb_entry = row_entry (tensor_row ''attn_kv_latent.weight'' ''f8_e4m3_b128'' ''[128x512]'' 34181504 66048),
      tb_policy = lookup_policy ctx ''attn_kv_latent.weight'', tb_shape = [128, 512]\<rparr>"
    "bind_required ctx 0 ''attn_output_a.weight'' = Inr \<lparr>tb_entry = row_entry (tensor_row ''attn_output_a.weight'' ''f8_e4m3_b128'' ''[128x8192]'' 34247552 1056768),
      tb_policy = lookup_policy ctx ''attn_output_a.weight'', tb_shape = [128, 8192]\<rparr>"
    "bind_required ctx 0 ''attn_output_b.weight'' = Inr \<lparr>tb_entry = row_entry (tensor_row ''attn_output_b.weight'' ''f8_e4m3_b128'' ''[8192x128]'' 35304320 1056768),
      tb_policy = lookup_policy ctx ''attn_output_b.weight'', tb_shape = [8192, 128]\<rparr>"
    "bind_required ctx 0 ''attn_norm.weight'' = Inr \<lparr>tb_entry = row_entry (tensor_row ''attn_norm.weight'' ''f32'' ''[128]'' 36361088 512),
      tb_policy = lookup_policy ctx ''attn_norm.weight'', tb_shape = [128]\<rparr>"
    "bind_required ctx 0 ''attn_q_a_norm.weight'' = Inr \<lparr>tb_entry = row_entry (tensor_row ''attn_q_a_norm.weight'' ''f32'' ''[1024]'' 36361600 4096),
      tb_policy = lookup_policy ctx ''attn_q_a_norm.weight'', tb_shape = [1024]\<rparr>"
    "bind_required ctx 0 ''attn_kv_a_norm.weight'' = Inr \<lparr>tb_entry = row_entry (tensor_row ''attn_kv_a_norm.weight'' ''f32'' ''[512]'' 36365696 2048),
      tb_policy = lookup_policy ctx ''attn_kv_a_norm.weight'', tb_shape = [512]\<rparr>"
    "bind_required ctx 0 ''attn_sinks'' = Inr \<lparr>tb_entry = row_entry (tensor_row ''attn_sinks'' ''f32'' ''[64]'' 36367744 256),
      tb_policy = lookup_policy ctx ''attn_sinks'', tb_shape = [64]\<rparr>"
    "bind_required ctx 0 ''hc_attn_fn'' = Inr \<lparr>tb_entry = row_entry (tensor_row ''hc_attn_fn'' ''f32'' ''[4]'' 36368000 16),
      tb_policy = lookup_policy ctx ''hc_attn_fn'', tb_shape = [4]\<rparr>"
    "bind_required ctx 0 ''hc_attn_base'' = Inr \<lparr>tb_entry = row_entry (tensor_row ''hc_attn_base'' ''f32'' ''[4]'' 36368016 16),
      tb_policy = lookup_policy ctx ''hc_attn_base'', tb_shape = [4]\<rparr>"
    "bind_required ctx 0 ''hc_attn_scale'' = Inr \<lparr>tb_entry = row_entry (tensor_row ''hc_attn_scale'' ''f32'' ''[4]'' 36368032 16),
      tb_policy = lookup_policy ctx ''hc_attn_scale'', tb_shape = [4]\<rparr>"
    "bind_required ctx 0 ''ffn_norm.weight'' = Inr \<lparr>tb_entry = row_entry (tensor_row ''ffn_norm.weight'' ''f32'' ''[4]'' 36368048 16),
      tb_policy = lookup_policy ctx ''ffn_norm.weight'', tb_shape = [4]\<rparr>"
    "bind_required ctx 0 ''hc_ffn_fn'' = Inr \<lparr>tb_entry = row_entry (tensor_row ''hc_ffn_fn'' ''f32'' ''[4]'' 36368064 16),
      tb_policy = lookup_policy ctx ''hc_ffn_fn'', tb_shape = [4]\<rparr>"
    "bind_required ctx 0 ''hc_ffn_base'' = Inr \<lparr>tb_entry = row_entry (tensor_row ''hc_ffn_base'' ''f32'' ''[4]'' 36368080 16),
      tb_policy = lookup_policy ctx ''hc_ffn_base'', tb_shape = [4]\<rparr>"
    "bind_required ctx 0 ''hc_ffn_scale'' = Inr \<lparr>tb_entry = row_entry (tensor_row ''hc_ffn_scale'' ''f32'' ''[4]'' 36368096 16),
      tb_policy = lookup_policy ctx ''hc_ffn_scale'', tb_shape = [4]\<rparr>"
    "bind_required ctx 0 ''exp_probs_b'' = Inr \<lparr>tb_entry = row_entry (tensor_row ''exp_probs_b'' ''f32'' ''[256]'' 36368112 1024),
      tb_policy = lookup_policy ctx ''exp_probs_b'', tb_shape = [256]\<rparr>"
  by (rule example_lookup [OF ctx]; simp add: example_layer_def example_shapes)+

lemma example_entry [simp]:
  "pe_source_dtype (row_entry (tensor_row suffix dtype shape off len)) = dtype"
  "pe_byte_length (row_entry (tensor_row suffix dtype shape off len)) = of_nat len"
  "pe_owning_gpu (row_entry (tensor_row suffix dtype shape off len)) = 0"
  by (simp_all add: row_entry_def entry_of_row_def tensor_row_def)

lemma example_tm_lookup: "cx_tm_descs ctx = [] \<Longrightarrow> tm_lookup ctx l suffix = None"
  by (auto simp: tm_lookup_def ds4_context_require_layer_turbomind_binding_def ds4_context_lookup_turbomind_binding_def
      res_bind_def split: sum.splits)

lemma example_optional: "bind_required ctx l suffix = Inr b \<Longrightarrow> bind_optional ctx l suffix = Some b"
  by (auto simp: bind_required_def bind_optional_def lift_context_def split: sum.splits)

lemma example_init:
  assumes ctx: "map td_entry (cx_descs ctx) = map row_entry example_layer" "cx_tm_descs ctx = []" "ctx_inv ctx"
    "cx_opts ctx = example_token_options"
  shows "\<exists>st. ds4_layer_state_init ctx 0 = Inr st \<and> \<not> rt_has_turbomind (ls_routed st) \<and>
     ls_routed_experts st = 2 \<and> ls_hidden_size st = 128 \<and> ls_intermediate_size st = 128 \<and> ls_owning_gpu st = 0 \<and>
     list_all (\<lambda>b. dtype_is b ''mxfp4'') (routed_list (ls_routed st))"
proof -
  note look = example_bindings [OF ctx(1)]
  have li: "ly_stage_id (cx_layers ctx ! 0) = 0" "ly_layer_class (cx_layers ctx ! 0) = DS4_V100_LAYER_SWA_ONLY"
    "sg_gpu (cx_stages ctx ! 0) = 0"
    using ctx(3) by (auto simp: ctx_inv_def staged_def ds4_stage_for_layer_def ds4_layer_class_for_layer_def DS4_V100_N_LAYERS_def)
  let ?gate = "tensor_row ''ffn_gate_exps.weight'' ''mxfp4'' ''[128x128x2]'' 0 17408"
  let ?b = "\<lambda>r suffix. \<lparr>tb_entry = row_entry r, tb_policy = lookup_policy ctx suffix, tb_shape = [128, 128, 2]\<rparr>"
  have r: "bind_routed_expert_tensors ctx 0 = Inr (zero_routed_state\<lparr>
      rt_gate := ?b ?gate ''ffn_gate_exps.weight'',
      rt_up := ?b (tensor_row ''ffn_up_exps.weight'' ''mxfp4'' ''[128x128x2]'' 17408 17408) ''ffn_up_exps.weight'',
      rt_down := ?b (tensor_row ''ffn_down_exps.weight'' ''mxfp4'' ''[128x128x2]'' 34816 17408) ''ffn_down_exps.weight''\<rparr>)"
    by (simp add: bind_routed_expert_tensors_def Let_def example_tm_lookup ctx(2) zero_routed_state_def bind_source_experts_def look)
  have lay: "ds4_context_layer (Some ctx) 0 = Some (cx_layers ctx ! 0)" "ds4_context_stage (Some ctx) 0 = Some (cx_stages ctx ! 0)"
    by (simp_all add: ds4_context_layer_def ds4_context_stage_def DS4_V100_N_LAYERS_def DS4_V100_EXPECTED_GPUS_def
        ctx(4) example_token_options_def ds4_context_options_init_def)
  have f8: "ds4_src_f8_e4m3_b128_row_bytes 128 = 129" "ds4_src_f8_e4m3_b128_row_bytes 1024 = 1032"
    "ds4_src_f8_e4m3_b128_row_bytes 8192 = 8256"
    by (simp_all add: ds4_src_f8_e4m3_b128_row_bytes_def packed_row_bytes_def DS4_SRC_F8_E4M3_B128_BLOCK_ELEMS_def
        DS4_SRC_F8_E4M3_B128_BLOCK_BYTES_def)
  have hash: "bind_optional ctx 0 ''ffn_gate_tid2eid'' = None"
  proof -
    have "find (\<lambda>d. pe_semantic_tensor_id (td_entry d) = ''blk.0.ffn_gate_tid2eid'') (cx_descs ctx) = None"
      using arg_cong [OF ctx(1), of "find (\<lambda>e. pe_semantic_tensor_id e = ''blk.0.ffn_gate_tid2eid'')"]
      by (simp add: find_map example_layer_def tensor_row_def row_entry_def entry_of_row_def)
    then show ?thesis
      by (simp add: bind_optional_def ds4_context_require_layer_tensor_binding_def layer_tensor_id_def DS4_V100_N_LAYERS_def
          show_int_def show_nat.simps [of 0] digit_char_def ds4_context_lookup_tensor_binding_def)
  qed
  obtain fb where fb: "bind_fixed ctx 0 = Inr fb"
    by (simp add: bind_fixed_def look)
  then have fb': "fb = projr (bind_fixed ctx 0)" by simp
  let ?r = "zero_routed_state\<lparr>
      rt_gate := ?b ?gate ''ffn_gate_exps.weight'',
      rt_up := ?b (tensor_row ''ffn_up_exps.weight'' ''mxfp4'' ''[128x128x2]'' 17408 17408) ''ffn_up_exps.weight'',
      rt_down := ?b (tensor_row ''ffn_down_exps.weight'' ''mxfp4'' ''[128x128x2]'' 34816 17408) ''ffn_down_exps.weight''\<rparr>"
  let ?bias = "\<lparr>tb_entry = row_entry (tensor_row ''exp_probs_b'' ''f32'' ''[256]'' 36368112 1024),
      tb_policy = lookup_policy ctx ''exp_probs_b'', tb_shape = [256]\<rparr>"
  obtain st where st: "make_fixed_matrices 0 (cx_layers ctx ! 0) (cx_stages ctx ! 0) ?r fb None (Some ?bias) = Inr st"
    unfolding fb'
    by (simp add: bind_fixed_def look make_fixed_matrices_def make_f32_matrix_def make_f8_matrix_def make_2d_matrix_def
        dtype_is_def f8)
  have st': "st = projr (make_fixed_matrices 0 (cx_layers ctx ! 0) (cx_stages ctx ! 0) ?r fb None (Some ?bias))"
    by (simp add: st)
  have dims: "\<exists>st'. res_bind (validate_router_binding st) (\<lambda>st2. res_bind (init_compressor ctx (set_compression st2)) (\<lambda>st3.
      res_bind (init_indexer ctx st3) (\<lambda>st4. res_bind (check_owned st4) (\<lambda>_. check_dimensions st4)))) = Inr st' \<and>
      \<not> rt_has_turbomind (ls_routed st') \<and>
     ls_routed_experts st' = 2 \<and> ls_hidden_size st' = 128 \<and> ls_intermediate_size st' = 128 \<and> ls_owning_gpu st' = 0 \<and>
     list_all (\<lambda>b. dtype_is b ''mxfp4'') (routed_list (ls_routed st'))"
    unfolding st' fb'
    by (simp add: bind_fixed_def look make_fixed_matrices_def make_f32_matrix_def make_f8_matrix_def make_2d_matrix_def
        f8 dtype_is_def validate_router_binding_def set_compression_def init_compressor_def
        init_indexer_def check_owned_def owned_bindings_def check_same_owner_def check_dimensions_def set_dimensions_def
        attention_dims_ok_def attention_controls_ok_def vector_ok_def routed_dims_ok_def check_tp2_def shared_dims_ok_def
        routed_list_def zero_routed_state_def li DS4_V100_HEAD_DIM_def Let_def)
  show ?thesis
    using dims by (simp add: ds4_layer_state_init_def lay li r fb hash example_optional [OF look(24)] st)
qed


lemma example_layer_opens:
  obtains ctx st where "ds4_context_open example_layer_fs (Some example_token_options) = Inr ctx"
    "ds4_layer_state_init ctx 0 = Inr st" "\<not> rt_has_turbomind (ls_routed st)" "ls_routed_experts st = 2"
    "ls_hidden_size st = 128" "ls_intermediate_size st = 128" "ls_owning_gpu st = 0"
    "list_all (\<lambda>b. dtype_is b ''mxfp4'') (routed_list (ls_routed st))"
proof -
  obtain pack where pk: "ds4_pack_open example_layer_fs (Some ''i'') = Inr pack" "pk_entries pack = map row_entry example_layer"
    by (rule example_layer_pack)
  have po: "pack_only example_token_options ''i''"
    by (simp add: pack_only_def example_token_options_def ds4_context_options_init_def DS4_V100_EXPECTED_GPUS_def)
  have "\<forall>e \<in> set (pk_entries pack). bindable example_token_options e"
    using example_layer_bindable by (simp add: pk(2))
  then obtain ctx where ctx: "ds4_context_open example_layer_fs (Some example_token_options) = Inr ctx"
    using context_opens_iff_bindable [OF po, of example_layer_fs] pk(1) by blast
  note r = ds4_context_open_result [OF ctx]
  have o: "open_options (Some example_token_options) = example_token_options" by (simp add: open_options_def)
  have "map td_entry (cx_descs ctx) = map row_entry example_layer" "cx_tm_descs ctx = []"
    using r(6,7) pk po by (simp_all add: o pack_rows_def tm_pack_rows_def pack_only_def)
  with example_init [of ctx] r(1,2) o ctx that show ?thesis by metis
qed

section \<open>Opening\<close>

text \<open>
  C12: A context whose options name a pack index and ask for no device opens exactly when the index
  can be read and every one of its rows is bindable: its owner is an expected GPU and the stage of
  its layer, its size is the size of its shape and dtype, and its policy is supported.
\<close>

theorem context_opens_iff:
  assumes "pack_only opts path"
  shows "(\<exists>ctx. ds4_context_open fs (Some opts) = Inr ctx) \<longleftrightarrow>
     (\<exists>pack. ds4_pack_open fs (Some path) = Inr pack \<and> list_all (bindable opts) (pk_entries pack))"
  using context_opens_iff_bindable [OF assms] by (simp add: list_all_iff)

theorem context_opens_iff_witness:
  "\<exists>ctx. ds4_context_open example_layer_fs (Some example_token_options) = Inr ctx"
proof -
  have "pack_only example_token_options ''i''"
    by (simp add: pack_only_def example_token_options_def ds4_context_options_init_def DS4_V100_EXPECTED_GPUS_def)
  note iff = context_opens_iff [OF this, of example_layer_fs]
  show ?thesis
    by (rule example_layer_pack) (use iff example_layer_bindable in \<open>auto simp: list_all_iff\<close>)
qed

section \<open>Arena spans\<close>

lemma matrices_end_Max:
  "ms \<noteq> [] \<Longrightarrow> matrices_end ms = Max ((\<lambda>m. unat (ds4_bound_matrix_arena_offset m) + unat (bm_bytes m)) ` set ms)"
proof (induction ms)
  case (Cons m ms)
  then show ?case by (cases "ms = []") simp_all
qed simp

lemma attention_matrices_read:
  "set (all_attention_matrices st) =
     {at_q_a (ls_attention st), at_q_b (ls_attention st), at_kv_latent (ls_attention st),
      at_output_a (ls_attention st), at_output_b (ls_attention st)} \<union>
     (case ls_compressor st of None \<Rightarrow> {} | Some c \<Rightarrow> {co_ape c, co_kv c, co_gate c}) \<union>
     (case ls_indexer st of None \<Rightarrow> {}
      | Some x \<Rightarrow> {ix_attn_q_b x, ix_proj x, ix_compressor_ape x, ix_compressor_kv x, ix_compressor_gate x})"
  "all_attention_matrices st \<noteq> []"
  by (auto simp: all_attention_matrices_def attention_matrices_def compressor_matrices_def indexer_matrices_def
      split: option.splits)

text \<open>
  C13: The attention span of an initialised layer always exists; it is the largest end, offset in
  the arena plus size, of the matrices attention reads: the five projections, and of the compressor
  and the indexer, where the layer has them, all three and all five matrices. It lies inside the
  arena of the layer's stage, which owns the layer.
\<close>

theorem attention_span_exact:
  assumes op: "ds4_context_open fs opts = Inr ctx" and i: "ds4_layer_state_init ctx l = Inr st"
  shows "ls_owning_gpu st = stage_of_layer l \<and>
     (let a = ls_attention st;
          read = {at_q_a a, at_q_b a, at_kv_latent a, at_output_a a, at_output_b a} \<union>
            (case ls_compressor st of None \<Rightarrow> {} | Some c \<Rightarrow> {co_ape c, co_kv c, co_gate c}) \<union>
            (case ls_indexer st of None \<Rightarrow> {}
             | Some x \<Rightarrow> {ix_attn_q_b x, ix_proj x, ix_compressor_ape x, ix_compressor_kv x, ix_compressor_gate x})
      in \<exists>n. ds4_layer_state_attention_arena_span st = Inr n \<and>
           unat n = Max ((\<lambda>m. unat (ds4_bound_matrix_arena_offset m) + unat (bm_bytes m)) ` read) \<and>
           unat n \<le> unat (sg_arena_bytes (cx_stages ctx ! nat (ls_owning_gpu st))))"
    (is "_ \<and> ?span")
proof
  have inv: "ctx_inv ctx" using ds4_context_open_result [OF op] by blast
  obtain "0 \<le> l" "l < 43" by (rule ds4_layer_state_init_result [OF inv i])
  then show "ls_owning_gpu st = stage_of_layer l" using layer_owner [OF inv i] by (simp add: ds4_stage_exact)
  have "list_all (matrix_inside ctx (ls_owning_gpu st)) (all_attention_matrices st)"
    using layer_inv_init [OF inv i] by (simp add: layer_inv_def)
  note span = attention_span_inside [OF this, unfolded matrices_end_Max [OF attention_matrices_read(2)]
      attention_matrices_read(1)]
  then show ?span by (simp add: Let_def arena_of_def)
qed

theorem attention_span_exact_witness:
  "\<exists>ctx st n. ds4_context_open example_layer_fs (Some example_token_options) = Inr ctx \<and>
     ds4_layer_state_init ctx 0 = Inr st \<and> ds4_layer_state_attention_arena_span st = Inr n \<and>
     unat n \<le> arena_of ctx 0"
proof -
  obtain ctx st where e: "ds4_context_open example_layer_fs (Some example_token_options) = Inr ctx"
    "ds4_layer_state_init ctx 0 = Inr st" "ls_owning_gpu st = 0"
    by (rule example_layer_opens) blast
  from attention_span_exact [OF e(1,2)] e show ?thesis by (auto simp: Let_def arena_of_def)
qed

text \<open>
  C14: The feed-forward span of an initialised layer covers the router and the shared expert and
  never reaches past the arena of the layer's stage, as long as the layer does not bind fused and
  separate TurboMind gate and up tensors at once. For a layer bound to MXFP4 tensors of the source
  pack the span exists for every selection of experts the layer has.
\<close>

theorem ffn_span_inside:
  assumes op: "ds4_context_open fs opts = Inr ctx" and i: "ds4_layer_state_init ctx l = Inr st"
  shows "(\<forall>n. ds4_layer_state_ffn_arena_span st selected = Inr n \<longrightarrow>
        \<not> (rt_has_fused_gate_up (ls_routed st) \<and> rt_tm_gate (ls_routed st) \<noteq> None) \<longrightarrow>
        matrices_end (ffn_matrices st) \<le> unat n \<and> unat n \<le> arena_of ctx (ls_owning_gpu st)) \<and>
     (\<not> rt_has_turbomind (ls_routed st) \<and> list_all (\<lambda>b. dtype_is b ''mxfp4'') (routed_list (ls_routed st)) \<and>
      list_all (\<lambda>e. 0 \<le> e \<and> e < int (unat (ls_routed_experts st))) selected \<longrightarrow>
        (\<exists>n. ds4_layer_state_ffn_arena_span st selected = Inr n))"
proof -
  have inv: "ctx_inv ctx" using ds4_context_open_result [OF op] by blast
  note l = layer_inv_init [OF inv i] and d = init_dimensions(1) [OF inv i]
  show ?thesis
    using ffn_span_bounds [OF l d] ffn_span_succeeds [OF inv i] by blast
qed

theorem ffn_span_inside_witness:
  "\<exists>ctx st n. ds4_context_open example_layer_fs (Some example_token_options) = Inr ctx \<and>
     ds4_layer_state_init ctx 0 = Inr st \<and> ds4_layer_state_ffn_arena_span st [1, 0] = Inr n"
proof -
  obtain ctx st where e: "ds4_context_open example_layer_fs (Some example_token_options) = Inr ctx"
    "ds4_layer_state_init ctx 0 = Inr st" "\<not> rt_has_turbomind (ls_routed st)" "ls_routed_experts st = 2"
    "list_all (\<lambda>b. dtype_is b ''mxfp4'') (routed_list (ls_routed st))"
    by (rule example_layer_opens) blast
  from ffn_span_inside [OF e(1,2), of "[1, 0]"] e show ?thesis by auto
qed

text \<open>
  C15: The slices of two experts of a layer never overlap: in each of the gate, up and down tensors
  the slice of expert \<open>e\<close> starts \<open>e\<close> slice sizes after the tensor, and the slices of two different
  experts are equally large, disjoint, and inside the arena.
\<close>

theorem expert_slices_disjoint:
  assumes op: "ds4_context_open fs opts = Inr ctx" and i: "ds4_layer_state_init ctx l = Inr st"
    and r: "ds4_layer_state_route_matrices st e = Inr r" "ds4_layer_state_route_matrices st e' = Inr r'"
    and ne: "e \<noteq> e'" and k: "k < 3"
  shows "let m = route_list r ! k; m' = route_list r' ! k;
             start = unat (ds4_bound_matrix_arena_offset m); start' = unat (ds4_bound_matrix_arena_offset m')
         in bm_binding m = bm_binding m' \<and> unat (bm_bytes m) = unat (bm_bytes m') \<and>
            start = unat (pe_shard_offset (tb_entry (bm_binding m))) + unat e * unat (bm_bytes m) \<and>
            (start + unat (bm_bytes m) \<le> start' \<or> start' + unat (bm_bytes m') \<le> start) \<and>
            start + unat (bm_bytes m) \<le> arena_of ctx (ls_owning_gpu st)"
proof -
  have inv: "ctx_inv ctx" using ds4_context_open_result [OF op] by blast
  note l = layer_inv_init [OF inv i] and d = init_dimensions(1) [OF inv i]
  note s = route_slice_range [OF l d r(1) k] and s' = route_slice_range [OF l d r(2) k]
  have "unat e \<noteq> unat e'" using ne by (simp add: word_unat_eq_iff)
  then have "unat e * x + x \<le> unat e' * x \<or> unat e' * x + x \<le> unat e * x" for x
    using mult_le_mono1 [of "Suc (unat e)" "unat e'" x] mult_le_mono1 [of "Suc (unat e')" "unat e" x] by fastforce
  with s s' show ?thesis by (simp add: Let_def matrix_inside_def)
qed

theorem expert_slices_disjoint_witness:
  "\<exists>ctx st r r'. ds4_context_open example_layer_fs (Some example_token_options) = Inr ctx \<and>
     ds4_layer_state_init ctx 0 = Inr st \<and> ds4_layer_state_route_matrices st 0 = Inr r \<and>
     ds4_layer_state_route_matrices st 1 = Inr r' \<and>
     unat (bm_bytes (ro_down r)) = unat (bm_bytes (ro_down r'))"
proof -
  obtain ctx st where e: "ds4_context_open example_layer_fs (Some example_token_options) = Inr ctx"
    "ds4_layer_state_init ctx 0 = Inr st" "\<not> rt_has_turbomind (ls_routed st)" "ls_routed_experts st = 2"
    "list_all (\<lambda>b. dtype_is b ''mxfp4'') (routed_list (ls_routed st))"
    by (rule example_layer_opens) blast
  have "ctx_inv ctx" using ds4_context_open_result [OF e(1)] by blast
  then obtain r r' where r: "ds4_layer_state_route_matrices st 0 = Inr r" "ds4_layer_state_route_matrices st 1 = Inr r'"
    using route_matrices_succeeds [OF _ e(2,3,5), of 0] route_matrices_succeeds [OF _ e(2,3,5), of 1] e(4) by auto
  from expert_slices_disjoint [OF e(1,2) r, of 2] e r show ?thesis
    by (auto simp: Let_def route_list_def)
qed

section \<open>Source formats\<close>

text \<open>
  The E2M1 format, by its fields: a sign, two bits of exponent with bias 1 and one bit of mantissa,
  subnormal where the exponent is 0. The decoder has no negative zero.
\<close>

definition e2m1_magnitude :: "nat \<Rightarrow> rat" where
  "e2m1_magnitude code =
     (let e = code div 2 mod 4; m = of_nat (code mod 2)
      in if e = 0 then m / 2 else (1 + m / 2) * 2 ^ (e - 1))"

definition e2m1_negative :: "nat \<Rightarrow> bool" where
  "e2m1_negative code \<longleftrightarrow> 8 \<le> code \<and> e2m1_magnitude code \<noteq> 0"

lemma fp4_table_e2m1: "c < 16 \<Longrightarrow> fp4_table ! c = F32 (e2m1_negative c) (e2m1_magnitude c)"
proof -
  have "\<forall>c < 16. fp4_table ! c = F32 (e2m1_negative c) (e2m1_magnitude c)"
    unfolding e2m1_negative_def by code_simp
  then show "c < 16 \<Longrightarrow> ?thesis" by blast
qed

lemma low_nibble: "unat (x AND 15) = unat x mod 16" for x :: u8
proof -
  have "x AND 15 = take_bit 4 x" by (simp add: take_bit_eq_mask mask_eq_exp_minus_1)
  then show ?thesis by (simp add: unat_mod take_bit_eq_mod)
qed

lemma nibble_e2m1:
  "ds4_src_mxfp4_nibble_to_f32 q = F32 (e2m1_negative (unat q mod 16)) (e2m1_magnitude (unat q mod 16))"
  by (simp add: ds4_src_mxfp4_nibble_to_f32_def fp4_table_e2m1 low_nibble)

text \<open>
  C16: Decoding an MXFP4 row stores at every index the exact product of the element's E2M1 value and
  the scale of its block, a power of two, or an infinity where the product leaves the range of
  single precision, for every block whose scale byte is not 255. Element \<open>k\<close> comes from the low
  nibble of byte \<open>k mod 16\<close> of its block in the first half of the block and from the high nibble in
  the second half.
\<close>

theorem mxfp4_row_decodes:
  assumes "length dst = ncols" "ncols \<noteq> 0" "ncols mod 32 = 0" "k < ncols" "src ! (k div 32 * 17) \<noteq> 255"
  shows "\<exists>row. ds4_src_mxfp4_row_to_f32 dst src ncols = Some row \<and> length row = ncols \<and>
     row ! k =
       (let q = unat (src ! (k div 32 * 17 + 1 + k mod 16));
            code = (if k mod 32 < 16 then q mod 16 else q div 16);
            p = e2m1_magnitude code * 2 powi (int (unat (src ! (k div 32 * 17))) - 127)
        in if p < 2 ^ 128 then F32 (e2m1_negative code) p else F32_Inf (e2m1_negative code))"
proof -
  let ?b = "src ! (k div 32 * 17 + 1 + k mod 16)" and ?e = "src ! (k div 32 * 17)"
  let ?n = "if k mod 32 < 16 then ?b AND 15 else drop_bit 4 ?b AND 15"
  let ?c = "if k mod 32 < 16 then unat ?b mod 16 else unat ?b div 16"
  have "unat ?b div 16 < 16" using unsigned_less [of ?b, where 'a = nat] by simp
  then have "unat ?n mod 16 = ?c" by (simp add: low_nibble unat_div drop_bit_eq_div)
  then have n: "ds4_src_mxfp4_nibble_to_f32 ?n = F32 (e2m1_negative ?c) (e2m1_magnitude ?c)"
    unfolding nibble_e2m1 by simp
  have "mxfp4_element src k = f32_mul (ds4_src_mxfp4_nibble_to_f32 ?n) (ds4_src_e8m0_to_f32 ?e)"
    by (simp add: mxfp4_element_def Let_def)
  also have "\<dots> = (let p = e2m1_magnitude ?c * 2 powi (int (unat ?e) - 127)
      in if p < 2 ^ 128 then F32 (e2m1_negative ?c) p else F32_Inf (e2m1_negative ?c))"
    by (rule scaled_product_exact [OF assms(5) n])
  finally show ?thesis
    using assms(4) mxfp4_row_elements [OF assms(1-3), of src] by (auto simp: Let_def)
qed

theorem mxfp4_row_decodes_witness:
  "\<exists>row. ds4_src_mxfp4_row_to_f32 (replicate 32 F32_NaN) (128 # replicate 16 0xd6) 32 = Some row \<and>
     row ! 4 = F32 False 8 \<and> row ! 20 = F32 True 6"
proof -
  let ?src = "128 # replicate 16 0xd6 :: u8 list"
  have *: "length (replicate 32 F32_NaN) = 32" "?src ! (4 div 32 * 17) \<noteq> 255" "?src ! (20 div 32 * 17) \<noteq> 255" by simp_all
  have v: "e2m1_magnitude 6 = 4" "e2m1_magnitude 13 = 3" "\<not> e2m1_negative 6" "e2m1_negative 13"
    by (simp_all add: e2m1_magnitude_def e2m1_negative_def Let_def)
  from mxfp4_row_decodes [OF *(1) _ _ _ *(2)] mxfp4_row_decodes [OF *(1) _ _ _ *(3)] show ?thesis
    by (auto simp: Let_def v)
qed

text \<open>
  A tensor whose dtype column is written in upper case passes the context, which parses dtypes
  without regard to case, and is refused by the layer state, which compares them with
  \<open>strcmp\<close>.
\<close>

theorem dtype_case_rejected:
  "ds4_source_dtype_parse ''MXFP4'' = DS4_V100_SOURCE_MXFP4 \<and>
   make_mxfp4_expert_matrix (b\<lparr>tb_entry := (tb_entry b)\<lparr>pe_source_dtype := ''MXFP4''\<rparr>\<rparr>) e label =
     Inl (Matrix_format label)"
  by (simp add: ds4_source_dtype_parse_def str_eq_ci_def tolower_def byte_def make_mxfp4_expert_matrix_def dtype_is_def)

end
