(* ===== verification/Json.thy ===== *)
theory Json
  imports Source_Formats
begin

text \<open>
  The JSON reader and writer of the server (\<open>ds4_server.c\<close>). A reader takes the text at its
  cursor and returns its result with the text at the new cursor; the end of the list is the
  terminating NUL of the request body. A \<open>buf\<close> that collects output is the list of the bytes
  appended to it. The skipper of ignored values is the mutual recursion of the C functions, with
  the loops of \<open>json_skip_array_depth\<close> and \<open>json_skip_object_depth\<close> as functions of their own;
  its termination is proved from the fact that no reader moves the cursor backwards.
\<close>

section \<open>Characters and escapes\<close>

definition json_ws :: "string \<Rightarrow> string" where
  "json_ws s = dropWhile isspace s"

definition json_lit :: "string \<Rightarrow> string \<Rightarrow> string option" where
  "json_lit s lit = (if starts_with s lit then Some (drop (length lit) s) else None)"

definition json_hex :: "char \<Rightarrow> int" where
  "json_hex c =
     (let b = int (byte c) in
      if 48 \<le> b \<and> b \<le> 57 then b - 48
      else if 97 \<le> b \<and> b \<le> 102 then 10 + b - 97
      else if 65 \<le> b \<and> b \<le> 70 then 10 + b - 65
      else - 1)"

definition chr :: "u32 \<Rightarrow> char" where
  "chr w = char_of (unat (w AND 255))"

definition utf8_put :: "u32 \<Rightarrow> string" where
  "utf8_put cp =
     (if cp \<le> 0x7f then [chr cp]
      else if cp \<le> 0x7ff then
        [chr (0xc0 OR drop_bit 6 cp), chr (0x80 OR (cp AND 0x3f))]
      else if cp \<le> 0xffff then
        [chr (0xe0 OR drop_bit 12 cp), chr (0x80 OR (drop_bit 6 cp AND 0x3f)),
         chr (0x80 OR (cp AND 0x3f))]
      else
        [chr (0xf0 OR drop_bit 18 cp), chr (0x80 OR (drop_bit 12 cp AND 0x3f)),
         chr (0x80 OR (drop_bit 6 cp AND 0x3f)), chr (0x80 OR (cp AND 0x3f))])"

text \<open>The four digits of a \<open>\u\<close> escape; a digit past the end reads the NUL, which is no digit.\<close>

fun hex_digits :: "string \<Rightarrow> u32 \<Rightarrow> u32 option" where
  "hex_digits [] cp = Some cp"
| "hex_digits (c # s) cp =
     (let h = json_hex c in
      if h < 0 then None else hex_digits s (push_bit 4 cp OR of_int h))"

fun json_u16 :: "string \<Rightarrow> (u32 \<times> string) option" where
  "json_u16 (b # u # s) =
     (if b \<noteq> CHR 0x5C \<or> u \<noteq> CHR ''u'' then None
      else if length s < 4 then None
      else map_option (\<lambda>cp. (cp, drop 4 s)) (hex_digits (take 4 s) 0))"
| "json_u16 s = None"

text \<open>
  The code point of a \<open>\u\<close> escape. After a high surrogate a second escape is read, and its six
  characters stay consumed even when it turns out not to be a low surrogate.
\<close>

definition json_code_point :: "string \<Rightarrow> (u32 \<times> string) option" where
  "json_code_point s =
     (case json_u16 s of
        None \<Rightarrow> None
      | Some (cp, s1) \<Rightarrow>
          if 0xd800 \<le> cp \<and> cp \<le> 0xdbff then
            (case json_u16 s1 of
               None \<Rightarrow> Some (cp, s1)
             | Some (lo, s2) \<Rightarrow>
                 if 0xdc00 \<le> lo \<and> lo \<le> 0xdfff
                 then Some (0x10000 + push_bit 10 (cp - 0xd800) + (lo - 0xdc00), s2)
                 else Some (cp, s2))
          else Some (cp, s1))"

definition simple_escape :: "char \<Rightarrow> char option" where
  "simple_escape c =
     (if c = CHR 0x22 then Some (CHR 0x22)
      else if c = CHR 0x5C then Some (CHR 0x5C)
      else if c = CHR ''/'' then Some (CHR ''/'')
      else if c = CHR ''b'' then Some (CHR 0x08)
      else if c = CHR ''f'' then Some (CHR 0x0C)
      else if c = CHR ''n'' then Some (CHR 0x0A)
      else if c = CHR ''r'' then Some (CHR 0x0D)
      else if c = CHR ''t'' then Some (CHR 0x09)
      else None)"

lemma json_u16_length: "json_u16 s = Some (v, r) \<Longrightarrow> length s = length r + 6"
  by (induction s rule: json_u16.induct) (auto split: if_splits)

lemma json_code_point_length: "json_code_point s = Some (v, r) \<Longrightarrow> length r + 6 \<le> length s"
  unfolding json_code_point_def
  by (auto split: option.splits if_splits prod.splits dest!: json_u16_length)

lemma json_ws_length [simp]: "length (json_ws s) \<le> length s"
  by (simp add: json_ws_def length_dropWhile_le)

section \<open>Strings\<close>

text \<open>The body of \<open>json_string\<close> after its opening quote, with the bytes collected so far.\<close>

function json_string_loop :: "string \<Rightarrow> string \<Rightarrow> (string \<times> string) option" where
  "json_string_loop [] b = None"
| "json_string_loop (c # s) b =
     (if c = CHR 0x22 then Some (b, s)
      else if c \<noteq> CHR 0x5C then json_string_loop s (b @ [c])
      else (case s of
              [] \<Rightarrow> None
            | e # s1 \<Rightarrow>
                if e = CHR ''u'' then
                  (case json_code_point (c # s) of
                     None \<Rightarrow> None
                   | Some (cp, s2) \<Rightarrow> json_string_loop s2 (b @ utf8_put cp))
                else (case simple_escape e of
                        None \<Rightarrow> None
                      | Some x \<Rightarrow> json_string_loop s1 (b @ [x]))))"
  by pat_completeness auto
termination
  by (relation "measure (\<lambda>(s, b). length s)") (auto dest!: json_code_point_length)

definition json_string :: "string \<Rightarrow> (string \<times> string) option" where
  "json_string s =
     (case json_ws s of
        [] \<Rightarrow> None
      | c # s1 \<Rightarrow> if c \<noteq> CHR 0x22 then None else json_string_loop s1 [])"

declare json_string_loop.simps(2) [simp del]

text \<open>One step of the loop, as a case distinction that proofs by induction can use.\<close>

lemma json_string_loop_Some:
  assumes "json_string_loop (c # s) b = Some (v, r)"
  obtains (quote) "c = CHR 0x22" "v = b" "r = s"
  | (plain) "c \<noteq> CHR 0x22" "c \<noteq> CHR 0x5C" "json_string_loop s (b @ [c]) = Some (v, r)"
  | (unicode) cp s1 s2 where "c = CHR 0x5C" "s = CHR ''u'' # s1"
      "json_code_point (c # s) = Some (cp, s2)" "json_string_loop s2 (b @ utf8_put cp) = Some (v, r)"
  | (simple) e s1 x where "c = CHR 0x5C" "s = e # s1" "e \<noteq> CHR ''u''" "simple_escape e = Some x"
      "json_string_loop s1 (b @ [x]) = Some (v, r)"
  using assms
  by (auto simp: json_string_loop.simps(2) split: if_splits list.splits option.splits prod.splits)

lemma json_string_loop_length: "json_string_loop s b = Some (v, r) \<Longrightarrow> length r < length s"
proof (induction "length s" arbitrary: s b rule: less_induct)
  case less
  obtain c s' where s: "s = c # s'" using less.prems by (cases s) auto
  have IH: "length r < length t"
    if "length t < length s" "json_string_loop t b' = Some (v, r)" for t b'
    using less.hyps that by blast
  from less.prems [unfolded s] show ?case
  proof (cases rule: json_string_loop_Some)
    case quote
    then show ?thesis by (simp add: s)
  next
    case plain
    then show ?thesis using IH [of s'] by (simp add: s less_Suc_eq)
  next
    case (unicode cp s1 s2)
    then show ?thesis using IH [of s2] json_code_point_length [of "c # s'"]
      by (fastforce simp: s)
  next
    case (simple e s1 x)
    then show ?thesis using IH [of s1] by (fastforce simp: s)
  qed
qed

lemma json_string_length:
  assumes "json_string s = Some (v, r)"
  shows "length r + 2 \<le> length s"
proof -
  obtain s1 where w: "json_ws s = CHR 0x22 # s1" and s1: "json_string_loop s1 [] = Some (v, r)"
    using assms by (auto simp: json_string_def split: list.splits if_splits)
  have "Suc (length s1) \<le> length s" using json_ws_length [of s] by (simp only: w) simp
  with json_string_loop_length [OF s1] show ?thesis by simp
qed

section \<open>Numbers\<close>

text \<open>
  A double as a NaN, a signed infinity or a sign and a magnitude, and the rounding of an exact
  magnitude to the nearest double (ties to even): its last place is the smallest power of two,
  from \<open>2 ^ -1074\<close> on, for which 53 bits are enough.
\<close>

datatype f64_value = F64_NaN | F64_Inf bool | F64 bool rat

definition f64_ulp_exp :: "rat \<Rightarrow> int option" where
  "f64_ulp_exp p = List.find (\<lambda>k. p < 2 powi (k + 53)) [- 1074..971]"

definition f64_round :: "bool \<Rightarrow> rat \<Rightarrow> f64_value" where
  "f64_round s p =
     (case f64_ulp_exp p of
        None \<Rightarrow> F64_Inf s
      | Some k \<Rightarrow> (let v = of_int (round_half_even (p / 2 powi k)) * 2 powi k in
                   if v \<ge> 2 ^ 1024 then F64_Inf s else F64 s v))"

text \<open>
  \<open>strtod\<close> of the C library in the C locale: white space, a sign, then the longest match of an
  infinity, a NaN with its optional character sequence, a hexadecimal number or a decimal number.
  \<open>None\<close> when nothing matches, which leaves \<open>end\<close> at the start of the text.
\<close>

fun ci_prefix :: "string \<Rightarrow> string \<Rightarrow> bool" where
  "ci_prefix [] s = True"
| "ci_prefix (p # ps) [] = False"
| "ci_prefix (p # ps) (c # s) = (tolower c = byte p \<and> ci_prefix ps s)"

definition scan_sign :: "string \<Rightarrow> bool \<times> string" where
  "scan_sign s =
     (case s of [] \<Rightarrow> (False, s)
      | c # t \<Rightarrow> if c = CHR ''-'' then (True, t) else if c = CHR ''+'' then (False, t) else (False, s))"

definition scan_exponent :: "char \<Rightarrow> string \<Rightarrow> int \<times> string" where
  "scan_exponent m s =
     (case s of
        [] \<Rightarrow> (0, s)
      | c # t \<Rightarrow>
          if tolower c \<noteq> byte m then (0, s)
          else (case scan_sign t of
                  (neg, t1) \<Rightarrow>
                    let ds = takeWhile isdigit t1; e = int (digits_value 0 ds) in
                    if ds = [] then (0, s)
                    else (if neg then - e else e, dropWhile isdigit t1)))"

definition isxdigit :: "char \<Rightarrow> bool" where
  "isxdigit c \<longleftrightarrow> 0 \<le> json_hex c"

definition hex_value :: "string \<Rightarrow> nat" where
  "hex_value ds = foldl (\<lambda>a c. a * 16 + nat (json_hex c)) 0 ds"

text \<open>Digits, an optional point and digits; at least one digit in all.\<close>

definition scan_mantissa :: "(char \<Rightarrow> bool) \<Rightarrow> string \<Rightarrow> (string \<times> string \<times> string) option" where
  "scan_mantissa dig s =
     (let ip = takeWhile dig s; t = dropWhile dig s;
          (fp, u) = (case t of
                       c # t1 \<Rightarrow> if c = CHR ''.'' then (takeWhile dig t1, dropWhile dig t1) else ([], t)
                     | [] \<Rightarrow> ([], t))
      in if ip = [] \<and> fp = [] then None else Some (ip, fp, u))"

definition scan_decimal :: "string \<Rightarrow> (rat \<times> string) option" where
  "scan_decimal s =
     (case scan_mantissa isdigit s of
        None \<Rightarrow> None
      | Some (ip, fp, t) \<Rightarrow>
          (case scan_exponent (CHR ''e'') t of
             (e, r) \<Rightarrow> Some (of_nat (digits_value 0 (ip @ fp)) * 10 powi (e - int (length fp)), r)))"

definition scan_hex :: "string \<Rightarrow> (rat \<times> string) option" where
  "scan_hex s =
     (if \<not> ci_prefix ''0x'' s then None
      else case scan_mantissa isxdigit (drop 2 s) of
        None \<Rightarrow> None
      | Some (ip, fp, t) \<Rightarrow>
          (case scan_exponent (CHR ''p'') t of
             (e, r) \<Rightarrow> Some (of_nat (hex_value (ip @ fp)) * 2 powi (e - 4 * int (length fp)), r)))"

definition nan_char :: "char \<Rightarrow> bool" where
  "nan_char c \<longleftrightarrow> isdigit c \<or> (97 \<le> tolower c \<and> tolower c \<le> 122) \<or> c = CHR ''_''"

definition nan_suffix :: "string \<Rightarrow> string" where
  "nan_suffix s =
     (case s of
        c # t \<Rightarrow> if c = CHR ''('' then
                   (case dropWhile nan_char t of
                      d # r \<Rightarrow> if d = CHR '')'' then r else s
                    | [] \<Rightarrow> s)
                 else s
      | [] \<Rightarrow> s)"

definition strtod :: "string \<Rightarrow> (f64_value \<times> string) option" where
  "strtod s =
     (case scan_sign (dropWhile isspace s) of
        (neg, t) \<Rightarrow>
          if ci_prefix ''infinity'' t then Some (F64_Inf neg, drop 8 t)
          else if ci_prefix ''inf'' t then Some (F64_Inf neg, drop 3 t)
          else if ci_prefix ''nan'' t then Some (F64_NaN, nan_suffix (drop 3 t))
          else (case (case scan_hex t of None \<Rightarrow> scan_decimal t | Some x \<Rightarrow> Some x) of
                  None \<Rightarrow> None
                | Some (q, r) \<Rightarrow> Some (f64_round neg q, r)))"

definition json_number :: "string \<Rightarrow> (f64_value \<times> string) option" where
  "json_number s = strtod (json_ws s)"

text \<open>
  The integer fields of a request. The two clamps use comparisons that are false for a NaN, and
  the conversion of a NaN to \<open>int\<close> has no defined result: the inner \<open>None\<close>.
\<close>

definition INT_MAX :: int where "INT_MAX = 2147483647"

fun clamp_int :: "f64_value \<Rightarrow> int option" where
  "clamp_int F64_NaN = None"
| "clamp_int (F64_Inf neg) = Some (if neg then 0 else INT_MAX)"
| "clamp_int (F64 neg q) =
     Some (if neg then 0 else if q > of_int INT_MAX then INT_MAX else \<lfloor>q\<rfloor>)"

definition json_int :: "string \<Rightarrow> (int option \<times> string) option" where
  "json_int s = map_option (map_prod clamp_int id) (json_number s)"

definition json_bool :: "string \<Rightarrow> (bool \<times> string) option" where
  "json_bool s =
     (let s1 = json_ws s in
      case json_lit s1 ''true'' of
        Some r \<Rightarrow> Some (True, r)
      | None \<Rightarrow> (case json_lit s1 ''false'' of Some r \<Rightarrow> Some (False, r) | None \<Rightarrow> None))"

lemma scan_sign_length: "scan_sign s = (neg, t) \<Longrightarrow> length t \<le> length s"
  by (auto simp: scan_sign_def split: list.splits if_splits)

lemma scan_exponent_length: "scan_exponent m s = (e, r) \<Longrightarrow> length r \<le> length s"
  using length_dropWhile_le [of isdigit "snd (scan_sign (tl s))"]
  by (auto simp: scan_exponent_def Let_def split: list.splits if_splits prod.splits
      dest!: scan_sign_length)

lemma takeWhile_nonempty_length: "takeWhile P s \<noteq> [] \<Longrightarrow> length (dropWhile P s) < length s"
  using takeWhile_dropWhile_id [of P s] by (metis append_self_conv2 length_dropWhile_le
      le_neq_implies_less length_append add_0 add_right_cancel length_0_conv)

lemma scan_mantissa_length:
  assumes "scan_mantissa dig s = Some (ip, fp, u)"
  shows "length u < length s"
proof -
  have d: "length (dropWhile dig t) \<le> length t" for t by (rule length_dropWhile_le)
  show ?thesis
  proof (cases "takeWhile dig s = []")
    case True
    then have "dropWhile dig s = s" using takeWhile_dropWhile_id [of dig s] by simp
    with True assms show ?thesis
      using d by (auto simp: scan_mantissa_def le_imp_less_Suc split: list.splits if_splits)
  next
    case False
    have "length u \<le> length (dropWhile dig s)"
      using assms d by (cases "dropWhile dig s")
        (auto simp: scan_mantissa_def Let_def le_SucI split: if_splits, metis length_Cons order_refl)
    with takeWhile_nonempty_length [OF False] show ?thesis by simp
  qed
qed

lemma scan_decimal_length: "scan_decimal s = Some (q, r) \<Longrightarrow> length r < length s"
  by (fastforce simp: scan_decimal_def split: option.splits prod.splits
      dest: scan_mantissa_length scan_exponent_length)

lemma ci_prefix_length: "ci_prefix p s \<Longrightarrow> length p \<le> length s"
  by (induction p s rule: ci_prefix.induct) auto

lemma scan_hex_length: "scan_hex s = Some (q, r) \<Longrightarrow> length r < length s"
  by (fastforce simp: scan_hex_def split: option.splits prod.splits if_splits
      dest: scan_mantissa_length scan_exponent_length)

lemma nan_suffix_length: "length (nan_suffix s) \<le> length s"
proof -
  have "length (dropWhile nan_char t) \<le> length t" for t by (rule length_dropWhile_le)
  from this [of "tl s"] show ?thesis
    by (auto simp: nan_suffix_def split: list.splits)
qed

lemma strtod_length:
  assumes "strtod s = Some (v, r)"
  shows "length r < length s"
proof -
  obtain neg t where t: "scan_sign (dropWhile isspace s) = (neg, t)" by fastforce
  have "length t \<le> length s"
    using scan_sign_length [OF t] length_dropWhile_le [of isspace s] by simp
  moreover have "length r < length t"
    using assms t nan_suffix_length [of "drop 3 t"]
    by (auto simp: strtod_def split: if_splits option.splits prod.splits
        dest!: ci_prefix_length scan_decimal_length scan_hex_length)
  ultimately show ?thesis by simp
qed

lemma json_number_length: "json_number s = Some (v, r) \<Longrightarrow> length r < length s"
  unfolding json_number_def by (rule less_le_trans [OF strtod_length json_ws_length])

lemma json_lit_length: "json_lit s l = Some r \<Longrightarrow> length s = length l + length r"
  by (auto simp: json_lit_def starts_with_iff split: if_splits)

section \<open>Skipping values\<close>

definition JSON_MAX_NESTING :: nat where "JSON_MAX_NESTING = 256"

text \<open>
  \<open>json_skip_elements\<close> and \<open>json_skip_members\<close> are the loops of the array and the object
  skipper, from a place where an element or a member has to start.
\<close>

function (domintros) json_skip_array_depth :: "nat \<Rightarrow> string \<Rightarrow> string option"
  and json_skip_elements :: "nat \<Rightarrow> string \<Rightarrow> string option"
  and json_skip_object_depth :: "nat \<Rightarrow> string \<Rightarrow> string option"
  and json_skip_members :: "nat \<Rightarrow> string \<Rightarrow> string option"
  and json_skip_value_depth :: "nat \<Rightarrow> string \<Rightarrow> string option"
where
  "json_skip_array_depth depth s =
     (if JSON_MAX_NESTING \<le> depth then None
      else (case json_ws s of
              [] \<Rightarrow> None
            | c # s1 \<Rightarrow>
                if c \<noteq> CHR ''['' then None
                else (case json_ws s1 of
                        [] \<Rightarrow> json_skip_elements depth []
                      | d # s2 \<Rightarrow> if d = CHR '']'' then Some s2
                                  else json_skip_elements depth (d # s2))))"
| "json_skip_elements depth s =
     (case json_skip_value_depth (depth + 1) s of
        None \<Rightarrow> None
      | Some s1 \<Rightarrow>
          (case json_ws s1 of
             [] \<Rightarrow> None
           | c # s2 \<Rightarrow> if c = CHR '']'' then Some s2
                       else if c \<noteq> CHR '','' then None
                       else json_skip_elements depth s2))"
| "json_skip_object_depth depth s =
     (if JSON_MAX_NESTING \<le> depth then None
      else (case json_ws s of
              [] \<Rightarrow> None
            | c # s1 \<Rightarrow>
                if c \<noteq> CHR ''{'' then None
                else (case json_ws s1 of
                        [] \<Rightarrow> json_skip_members depth []
                      | d # s2 \<Rightarrow> if d = CHR ''}'' then Some s2
                                  else json_skip_members depth (d # s2))))"
| "json_skip_members depth s =
     (case json_string s of
        None \<Rightarrow> None
      | Some (key, s1) \<Rightarrow>
          (case json_ws s1 of
             [] \<Rightarrow> None
           | c # s2 \<Rightarrow>
               if c \<noteq> CHR '':'' then None
               else (case json_skip_value_depth (depth + 1) s2 of
                       None \<Rightarrow> None
                     | Some s3 \<Rightarrow>
                         (case json_ws s3 of
                            [] \<Rightarrow> None
                          | d # s4 \<Rightarrow> if d = CHR ''}'' then Some s4
                                      else if d \<noteq> CHR '','' then None
                                      else json_skip_members depth s4))))"
| "json_skip_value_depth depth s =
     (case json_ws s of
        [] \<Rightarrow> map_option snd (json_number [])
      | c # s1 \<Rightarrow>
          if c = CHR 0x22 then map_option snd (json_string (c # s1))
          else if c = CHR ''{'' then json_skip_object_depth depth (c # s1)
          else if c = CHR ''['' then json_skip_array_depth depth (c # s1)
          else if json_lit (c # s1) ''true'' \<noteq> None then json_lit (c # s1) ''true''
          else if json_lit (c # s1) ''false'' \<noteq> None then json_lit (c # s1) ''false''
          else if json_lit (c # s1) ''null'' \<noteq> None then json_lit (c # s1) ''null''
          else map_option snd (json_number (c # s1)))"
  by pat_completeness auto

text \<open>Every successful skip consumes text, which is what makes the recursion end.\<close>

abbreviation skip_dom where
  "skip_dom \<equiv> json_skip_array_depth_json_skip_elements_json_skip_object_depth_json_skip_members_json_skip_value_depth_dom"

lemma json_ws_Cons_length: "json_ws s = c # t \<Longrightarrow> length t < length s"
  using json_ws_length [of s] by (simp del: json_ws_length)

lemma json_skip_length_partial:
  "skip_dom (Inl (Inl (depth, s))) \<Longrightarrow>
     (\<And>r. json_skip_array_depth depth s = Some r \<Longrightarrow> length r < length s)"
  "skip_dom (Inl (Inr (depth, s))) \<Longrightarrow>
     (\<And>r. json_skip_elements depth s = Some r \<Longrightarrow> length r < length s)"
  "skip_dom (Inr (Inl (depth, s))) \<Longrightarrow>
     (\<And>r. json_skip_object_depth depth s = Some r \<Longrightarrow> length r < length s)"
  "skip_dom (Inr (Inr (Inl (depth, s)))) \<Longrightarrow>
     (\<And>r. json_skip_members depth s = Some r \<Longrightarrow> length r < length s)"
  "skip_dom (Inr (Inr (Inr (depth, s)))) \<Longrightarrow>
     (\<And>r. json_skip_value_depth depth s = Some r \<Longrightarrow> length r < length s)"
proof (induction rule: json_skip_array_depth_json_skip_elements_json_skip_object_depth_json_skip_members_json_skip_value_depth.pinduct)
  case (1 depth s)
  then show ?case
    by (fastforce simp: json_skip_array_depth.psimps split: if_splits list.splits
        dest: json_ws_Cons_length)
next
  case (2 depth s)
  then show ?case
    by (fastforce simp: json_skip_elements.psimps split: if_splits list.splits option.splits
        dest: json_ws_Cons_length)
next
  case (3 depth s)
  then show ?case
    by (fastforce simp: json_skip_object_depth.psimps split: if_splits list.splits
        dest: json_ws_Cons_length)
next
  case (4 depth s)
  then show ?case
    by (fastforce simp: json_skip_members.psimps split: if_splits list.splits option.splits
        prod.splits dest: json_ws_Cons_length json_string_length)
next
  case (5 depth s)
  then show ?case
    by (fastforce simp: json_skip_value_depth.psimps split: if_splits list.splits option.splits
        prod.splits dest: json_ws_Cons_length json_string_length json_number_length json_lit_length)
qed

termination json_skip_array_depth
proof (relation "measure (\<lambda>x. case x of
      Inl (Inl (d, s)) \<Rightarrow> 3 * length s
    | Inl (Inr (d, s)) \<Rightarrow> 3 * length s + 2
    | Inr (Inl (d, s)) \<Rightarrow> 3 * length s
    | Inr (Inr (Inl (d, s))) \<Rightarrow> 3 * length s + 2
    | Inr (Inr (Inr (d, s))) \<Rightarrow> 3 * length s + 1)", goal_cases)
  case (5 depth s s1 c s2)
  then show ?case by (auto dest!: json_ws_Cons_length json_skip_length_partial(5))
next
  case (9 depth s)
  then show ?case
    by (auto dest!: json_ws_Cons_length json_string_length json_skip_length_partial(5))
qed (auto dest!: json_ws_Cons_length json_string_length)

lemmas json_skip_induct = json_skip_array_depth_json_skip_elements_json_skip_object_depth_json_skip_members_json_skip_value_depth.induct

declare json_skip_array_depth.simps [simp del] json_skip_elements.simps [simp del]
  json_skip_object_depth.simps [simp del] json_skip_members.simps [simp del]
  json_skip_value_depth.simps [simp del]

lemma json_skip_lengths:
  "json_skip_array_depth depth s = Some r \<Longrightarrow> length r < length s"
  "json_skip_elements depth s = Some r \<Longrightarrow> length r < length s"
  "json_skip_object_depth depth s = Some r \<Longrightarrow> length r < length s"
  "json_skip_members depth s = Some r \<Longrightarrow> length r < length s"
  "json_skip_value_depth depth s = Some r \<Longrightarrow> length r < length s"
proof (induction depth s and depth s and depth s and depth s and depth s arbitrary: r and r and r
    and r and r rule: json_skip_induct)
  case (1 depth s)
  then show ?case
    by (fastforce simp: json_skip_array_depth.simps split: if_splits list.splits
        dest: json_ws_Cons_length)
next
  case (2 depth s)
  then show ?case
    by (fastforce simp: json_skip_elements.simps [of depth s] split: if_splits list.splits
        option.splits dest: json_ws_Cons_length)
next
  case (3 depth s)
  then show ?case
    by (fastforce simp: json_skip_object_depth.simps split: if_splits list.splits
        dest: json_ws_Cons_length)
next
  case (4 depth s)
  then show ?case
    by (fastforce simp: json_skip_members.simps [of depth s] split: if_splits list.splits
        option.splits prod.splits dest: json_ws_Cons_length json_string_length)
next
  case (5 depth s)
  then show ?case
    by (fastforce simp: json_skip_value_depth.simps [of depth s] split: if_splits list.splits
        option.splits prod.splits
        dest: json_ws_Cons_length json_string_length json_number_length json_lit_length)
qed

definition json_skip_value :: "string \<Rightarrow> string option" where
  "json_skip_value s = json_skip_value_depth 0 s"

text \<open>The text between the two cursors, and the cursor after it.\<close>

definition json_raw_value :: "string \<Rightarrow> (string \<times> string) option" where
  "json_raw_value s =
     (let start = json_ws s in
      case json_skip_value start of
        None \<Rightarrow> None
      | Some r \<Rightarrow> Some (take (length start - length r) start, r))"

section \<open>Minifying\<close>

text \<open>The copying loop, with its flags \<open>in_string\<close> and \<open>escape\<close>.\<close>

fun minify_loop :: "bool \<Rightarrow> bool \<Rightarrow> string \<Rightarrow> string" where
  "minify_loop in_string escape [] = []"
| "minify_loop in_string escape (c # s) =
     (if in_string then
        c # (if escape then minify_loop True False s
             else if c = CHR 0x5C then minify_loop True True s
             else if c = CHR 0x22 then minify_loop False False s
             else minify_loop True False s)
      else if c = CHR 0x22 then c # minify_loop True escape s
      else if \<not> isspace c then c # minify_loop False escape s
      else minify_loop False escape s)"

definition json_minify_raw_value :: "string option \<Rightarrow> string" where
  "json_minify_raw_value json =
     (let text = (case json of None \<Rightarrow> ''null'' | Some t \<Rightarrow> t);
          start = json_ws text in
      case json_skip_value start of
        None \<Rightarrow> text
      | Some r \<Rightarrow> minify_loop False False (take (length start - length r) start))"

section \<open>Message contents\<close>

text \<open>
  \<open>json_content\<close>: a string, nothing for \<open>null\<close> and other scalars, or the concatenated texts of
  an array of parts. \<open>buf_puts\<close> copies a C string, so a part is cut at an embedded NUL.
\<close>

lemma json_skip_value_length: "json_skip_value s = Some r \<Longrightarrow> length r < length s"
  by (simp add: json_skip_value_def json_skip_lengths)

definition skip_comma :: "string \<Rightarrow> string" where
  "skip_comma s =
     (case json_ws s of
        [] \<Rightarrow> []
      | c # t \<Rightarrow> json_ws (if c = CHR '','' then t else c # t))"

lemma skip_comma_length: "length (skip_comma s) \<le> length s"
  using json_ws_length [of s] json_ws_length [of "tl (json_ws s)"]
  by (auto simp: skip_comma_def simp del: json_ws_length split: list.splits
      intro: order_trans [OF json_ws_length])

function content_object :: "string \<Rightarrow> string \<Rightarrow> (string \<times> string) option" where
  "content_object [] b = None"
| "content_object (c # s) b =
     (if c = CHR ''}'' then Some (b, s)
      else case json_string (c # s) of
        None \<Rightarrow> None
      | Some (key, s1) \<Rightarrow>
          (case json_ws s1 of
             [] \<Rightarrow> None
           | d # s2 \<Rightarrow>
               if d \<noteq> CHR '':'' then None
               else if c_str key = ''text'' then
                 (case json_string s2 of
                    None \<Rightarrow> None
                  | Some (v, s3) \<Rightarrow> content_object (skip_comma s3) (b @ c_str v))
               else
                 (case json_skip_value s2 of
                    None \<Rightarrow> None
                  | Some s3 \<Rightarrow> content_object (skip_comma s3) b)))"
  by pat_completeness auto
termination
proof (relation "measure (\<lambda>(s, b). length s)", goal_cases)
  case (2 c s b p key s1 d s2 q v s3)
  then show ?case using skip_comma_length [of s3]
    by (auto dest!: json_string_length json_ws_Cons_length)
next
  case (3 c s b p key s1 d s2 s3)
  then show ?case using skip_comma_length [of s3]
    by (auto dest!: json_string_length json_ws_Cons_length json_skip_value_length)
qed simp

declare content_object.simps(2) [simp del]

lemma content_object_Some:
  assumes "content_object (c # s) b = Some (v, r)"
  obtains (close) "c = CHR ''}''" "v = b" "r = s"
  | (part) key s1 s2 w s3 where "c \<noteq> CHR ''}''" "json_string (c # s) = Some (key, s1)"
      "json_ws s1 = CHR '':'' # s2" "json_string s2 = Some (w, s3)"
      "content_object (skip_comma s3) (b @ c_str w) = Some (v, r)"
  | (other) key s1 s2 s3 where "c \<noteq> CHR ''}''" "json_string (c # s) = Some (key, s1)"
      "json_ws s1 = CHR '':'' # s2" "json_skip_value s2 = Some s3"
      "content_object (skip_comma s3) b = Some (v, r)"
  using assms
  by (auto simp: content_object.simps(2) split: if_splits list.splits option.splits prod.splits)

lemma content_object_length: "content_object s b = Some (v, r) \<Longrightarrow> length r < length s"
proof (induction "length s" arbitrary: s b rule: less_induct)
  case less
  obtain c s' where s: "s = c # s'" using less.prems by (cases s) auto
  from less.prems [unfolded s] show ?case
  proof (cases rule: content_object_Some)
    case close
    then show ?thesis by (simp add: s)
  next
    case (part key s1 s2 w s3)
    then have "length s3 < length s"
      using json_string_length [OF part(2)] json_string_length [OF part(4)]
        json_ws_Cons_length [OF part(3)] by (simp add: s)
    with skip_comma_length [of s3] less.hyps [OF _ part(5)] show ?thesis by simp
  next
    case (other key s1 s2 s3)
    then have "length s3 < length s"
      using json_string_length [OF other(2)] json_skip_value_length [OF other(4)]
        json_ws_Cons_length [OF other(3)] by (simp add: s)
    with skip_comma_length [of s3] less.hyps [OF _ other(5)] show ?thesis by simp
  qed
qed

function content_array :: "string \<Rightarrow> string \<Rightarrow> (string \<times> string) option" where
  "content_array [] b = None"
| "content_array (c # s) b =
     (if c = CHR '']'' then Some (b, s)
      else if c = CHR 0x22 then
        (case json_string (c # s) of
           None \<Rightarrow> None
         | Some (v, s1) \<Rightarrow> content_array (skip_comma s1) (b @ c_str v))
      else if c = CHR ''{'' then
        (case content_object (json_ws s) b of
           None \<Rightarrow> None
         | Some (b1, s1) \<Rightarrow> content_array (skip_comma s1) b1)
      else
        (case json_skip_value (c # s) of
           None \<Rightarrow> None
         | Some s1 \<Rightarrow> content_array (skip_comma s1) b))"
  by pat_completeness auto
termination
proof (relation "measure (\<lambda>(s, b). length s)", goal_cases)
  case (2 c s b p v s1)
  then show ?case using skip_comma_length [of s1] by (auto dest!: json_string_length)
next
  case (3 c s b p b1 s1)
  then show ?case using skip_comma_length [of s1] json_ws_length [of s]
    by (auto dest!: content_object_length simp del: json_ws_length)
next
  case (4 c s b s1)
  then show ?case using skip_comma_length [of s1] by (auto dest!: json_skip_value_length)
qed simp

definition json_content :: "string \<Rightarrow> (string \<times> string) option" where
  "json_content s =
     (case json_ws s of
        [] \<Rightarrow> None
      | c # s1 \<Rightarrow>
          if c = CHR 0x22 then json_string (c # s1)
          else (case json_lit (c # s1) ''null'' of
                  Some r \<Rightarrow> Some ([], r)
                | None \<Rightarrow>
                    if c \<noteq> CHR ''['' then map_option (\<lambda>r. ([], r)) (json_skip_value (c # s1))
                    else content_array (json_ws s1) []))"

section \<open>Writing strings\<close>

definition hex_char :: "nat \<Rightarrow> char" where
  "hex_char d = ''0123456789abcdef'' ! d"

text \<open>\<open>\u%04x\<close> of a byte: the two high digits are zero.\<close>

definition u_escape :: "nat \<Rightarrow> string" where
  "u_escape n = [CHR 0x5C, CHR ''u'', CHR ''0'', CHR ''0'', hex_char (n div 16), hex_char (n mod 16)]"

definition json_escape_char :: "char \<Rightarrow> string" where
  "json_escape_char c =
     (if c = CHR 0x22 \<or> c = CHR 0x5C then [CHR 0x5C, c]
      else if c = CHR 0x0A then [CHR 0x5C, CHR ''n'']
      else if c = CHR 0x0D then [CHR 0x5C, CHR ''r'']
      else if c = CHR 0x09 then [CHR 0x5C, CHR ''t'']
      else if byte c < 32 then u_escape (byte c)
      else [c])"

definition json_escape_fragment_n :: "string \<Rightarrow> string" where
  "json_escape_fragment_n s = concat (map json_escape_char s)"

text \<open>\<open>json_escape\<close> stops at the terminating NUL of its argument.\<close>

definition json_escape :: "string \<Rightarrow> string" where
  "json_escape s = CHR 0x22 # concat (map json_escape_char (c_str s)) @ [CHR 0x22]"

definition json_escape_n :: "string \<Rightarrow> nat \<Rightarrow> string" where
  "json_escape_n s n = json_escape (take n s)"

end
