(* ===== verification/Json_Grammar.thy ===== *)
theory Json_Grammar
  imports Json "HOL-Library.Sublist"
begin

text \<open>
  The texts the JSON reader accepts, as an inductive grammar with a bound on the nesting, and the
  proof that the skipper recognises exactly this grammar. A number is what the C library's
  \<open>strtod\<close> takes from the text, so a derivation also mentions the text that follows.
\<close>

section \<open>String literals\<close>

inductive json_chars :: "string \<Rightarrow> bool" where
  json_chars_end: "json_chars []"
| json_chars_plain: "c \<noteq> CHR 0x22 \<Longrightarrow> c \<noteq> CHR 0x5C \<Longrightarrow> json_chars s \<Longrightarrow> json_chars (c # s)"
| json_chars_simple: "simple_escape e \<noteq> None \<Longrightarrow> json_chars s \<Longrightarrow> json_chars (CHR 0x5C # e # s)"
| json_chars_unicode: "length h = 4 \<Longrightarrow> list_all isxdigit h \<Longrightarrow> json_chars s \<Longrightarrow>
    json_chars (CHR 0x5C # CHR ''u'' # h @ s)"

inductive_cases json_chars_NilE: "json_chars []"
inductive_cases json_chars_ConsE: "json_chars (c # s)"

lemma simple_escape_u [simp]: "simple_escape (CHR ''u'') = None"
  by (simp add: simple_escape_def)

lemma hex_digits_Some_iff: "(\<exists>v. hex_digits h cp = Some v) \<longleftrightarrow> list_all isxdigit h"
  by (induction h cp rule: hex_digits.induct) (auto simp: isxdigit_def Let_def)

lemma json_u16_Some_iff:
  "(\<exists>v. json_u16 s = Some (v, r)) \<longleftrightarrow>
     (\<exists>h. s = CHR 0x5C # CHR ''u'' # h @ r \<and> length h = 4 \<and> list_all isxdigit h)" (is "?L \<longleftrightarrow> ?R")
proof
  assume ?L
  then obtain v where v: "json_u16 s = Some (v, r)" by blast
  then obtain t where t: "s = CHR 0x5C # CHR ''u'' # t" "4 \<le> length t" "r = drop 4 t"
    "hex_digits (take 4 t) 0 = Some v"
    by (cases s rule: json_u16.cases) (auto split: if_splits)
  then have "list_all isxdigit (take 4 t)" using hex_digits_Some_iff by blast
  with t show ?R by (intro exI [of _ "take 4 t"]) simp
next
  assume ?R
  then obtain h where h: "s = CHR 0x5C # CHR ''u'' # h @ r" "length h = 4" "list_all isxdigit h"
    by blast
  then obtain v where "hex_digits h 0 = Some v" using hex_digits_Some_iff by blast
  with h show ?L by auto
qed

lemma json_code_point_Some:
  assumes "json_code_point s = Some (cp, r)"
  obtains (one) h where "s = CHR 0x5C # CHR ''u'' # h @ r" "length h = 4" "list_all isxdigit h"
  | (two) h k where "s = CHR 0x5C # CHR ''u'' # h @ CHR 0x5C # CHR ''u'' # k @ r"
      "length h = 4" "list_all isxdigit h" "length k = 4" "list_all isxdigit k"
proof -
  from assms obtain v s1 where v: "json_u16 s = Some (v, s1)"
    and s1: "s1 = r \<or> (\<exists>w. json_u16 s1 = Some (w, r))"
    by (auto simp: json_code_point_def split: option.splits if_splits prod.splits)
  from v json_u16_Some_iff [of s s1] obtain h where
    h: "s = CHR 0x5C # CHR ''u'' # h @ s1" "length h = 4" "list_all isxdigit h" by blast
  from s1 show thesis
  proof
    assume "s1 = r"
    with h one show thesis by blast
  next
    assume "\<exists>w. json_u16 s1 = Some (w, r)"
    with json_u16_Some_iff [of s1 r] h two show thesis by auto
  qed
qed

lemma json_code_point_total:
  assumes "json_u16 s = Some (v, t)"
  shows "\<exists>cp s2. json_code_point s = Some (cp, s2) \<and>
    (s2 = t \<or> (\<exists>w. json_u16 t = Some (w, s2)))"
  by (simp add: json_code_point_def assms split: option.split prod.split)

lemma json_chars_unicode_inv:
  assumes "json_chars b" and "b @ CHR 0x22 # r = CHR 0x5C # CHR ''u'' # h @ t"
    and "length h = 4" and "list_all isxdigit h"
  obtains b' where "b = CHR 0x5C # CHR ''u'' # h @ b'" "t = b' @ CHR 0x22 # r" "json_chars b'"
  using assms(1)
proof cases
  case (json_chars_unicode k s)
  then have "k = h" "s @ CHR 0x22 # r = t"
    using assms by (auto simp: append_eq_append_conv)
  with json_chars_unicode that show thesis by blast
qed (use assms in auto)

lemma json_string_loop_iff:
  "(\<exists>v. json_string_loop s b = Some (v, r)) \<longleftrightarrow> (\<exists>t. s = t @ CHR 0x22 # r \<and> json_chars t)"
proof (induction "length s" arbitrary: s b rule: less_induct)
  case less
  show ?case
  proof (cases s)
    case Nil
    then show ?thesis by simp
  next
    case (Cons c s')
    have IH: "(\<exists>v. json_string_loop t b' = Some (v, r)) \<longleftrightarrow>
        (\<exists>u. t = u @ CHR 0x22 # r \<and> json_chars u)" if "length t < length s" for t b'
      using less that by blast
    show ?thesis
    proof
      assume "\<exists>v. json_string_loop s b = Some (v, r)"
      then obtain v where v: "json_string_loop (c # s') b = Some (v, r)" using Cons by auto
      then show "\<exists>t. s = t @ CHR 0x22 # r \<and> json_chars t"
      proof (cases rule: json_string_loop_Some)
        case quote
        then show ?thesis by (intro exI [of _ "[]"]) (simp add: Cons json_chars_end)
      next
        case plain
        then obtain u where "s' = u @ CHR 0x22 # r" "json_chars u" using IH [of s'] Cons by auto
        then show ?thesis using plain
          by (intro exI [of _ "c # u"]) (simp add: Cons json_chars_plain)
      next
        case (unicode cp s1 s2)
        have "length s2 < length s" using json_code_point_length [OF unicode(3)] by (simp add: Cons)
        then obtain u where u: "s2 = u @ CHR 0x22 # r" "json_chars u"
          using IH [of s2] unicode(4) by blast
        from unicode(3) show ?thesis
        proof (cases rule: json_code_point_Some)
          case (one h)
          then show ?thesis using u json_chars_unicode [of h u]
            by (intro exI [of _ "CHR 0x5C # CHR ''u'' # h @ u"]) (simp add: Cons)
        next
          case (two h k)
          then show ?thesis using u json_chars_unicode [OF _ _ json_chars_unicode [of k u], of h]
            by (intro exI [of _ "CHR 0x5C # CHR ''u'' # h @ CHR 0x5C # CHR ''u'' # k @ u"])
              (simp add: Cons)
        qed
      next
        case (simple e s1 x)
        then obtain u where "s1 = u @ CHR 0x22 # r" "json_chars u" using IH [of s1] Cons by auto
        then show ?thesis using simple
          by (intro exI [of _ "CHR 0x5C # e # u"]) (simp add: Cons json_chars_simple)
      qed
    next
      assume "\<exists>t. s = t @ CHR 0x22 # r \<and> json_chars t"
      then obtain t where t: "s = t @ CHR 0x22 # r" "json_chars t" by blast
      from t(2) show "\<exists>v. json_string_loop s b = Some (v, r)"
      proof cases
        case json_chars_end
        with t(1) show ?thesis by (simp add: json_string_loop.simps(2))
      next
        case (json_chars_plain d u)
        with t(1) IH [of "u @ CHR 0x22 # r"] show ?thesis
          by (auto simp: json_string_loop.simps(2))
      next
        case (json_chars_simple e u)
        moreover from this have "e \<noteq> CHR ''u''" by auto
        ultimately show ?thesis using t(1) IH [of "u @ CHR 0x22 # r"]
          by (auto simp: json_string_loop.simps(2))
      next
        case (json_chars_unicode h u)
        let ?u = "u @ CHR 0x22 # r"
        have s: "s = CHR 0x5C # CHR ''u'' # h @ ?u" using json_chars_unicode(1) t(1) by simp
        then obtain v where v: "json_u16 s = Some (v, ?u)"
          using json_u16_Some_iff [of s ?u] json_chars_unicode(2,3) by blast
        obtain cp s2 where cp: "json_code_point s = Some (cp, s2)"
          and s2: "s2 = ?u \<or> (\<exists>w. json_u16 ?u = Some (w, s2))"
          using json_code_point_total [OF v] by blast
        have "\<exists>u'. s2 = u' @ CHR 0x22 # r \<and> json_chars u'"
          using s2
        proof
          assume "\<exists>w. json_u16 ?u = Some (w, s2)"
          then obtain k where "?u = CHR 0x5C # CHR ''u'' # k @ s2" "length k = 4" "list_all isxdigit k"
            using json_u16_Some_iff [of ?u s2] by blast
          then show ?thesis using json_chars_unicode_inv [OF json_chars_unicode(4)] by metis
        qed (use json_chars_unicode(4) in blast)
        moreover have "length s2 < length s" using json_code_point_length [OF cp] by (simp add: s)
        ultimately have "\<exists>v. json_string_loop s2 (b @ utf8_put cp) = Some (v, r)"
          using IH by blast
        then show ?thesis using cp by (simp add: s json_string_loop.simps(2))
      qed
    qed
  qed
qed

section \<open>Values\<close>

text \<open>
  \<open>json_text n v r\<close>: \<open>v\<close> is a value with at most \<open>n\<close> levels of arrays and objects, in front of
  \<open>r\<close>. \<open>json_elements\<close> and \<open>json_members\<close> include the closing bracket.
\<close>

abbreviation blank :: "string \<Rightarrow> bool" where
  "blank w \<equiv> list_all isspace w"

definition json_literals :: "string list" where
  "json_literals = [''true'', ''false'', ''null'']"

inductive json_text :: "nat \<Rightarrow> string \<Rightarrow> string \<Rightarrow> bool"
  and json_elements :: "nat \<Rightarrow> string \<Rightarrow> string \<Rightarrow> bool"
  and json_members :: "nat \<Rightarrow> string \<Rightarrow> string \<Rightarrow> bool"
where
  text_string: "json_chars b \<Longrightarrow> json_text n (CHR 0x22 # b @ [CHR 0x22]) r"
| text_literal: "v \<in> set json_literals \<Longrightarrow> json_text n v r"
| text_number: "json_number (v @ r) = Some (x, r) \<Longrightarrow> v \<noteq> [] \<Longrightarrow> \<not> isspace (hd v) \<Longrightarrow> json_text n v r"
| text_empty_array: "blank w \<Longrightarrow> json_text (Suc n) (CHR ''['' # w @ '']'') r"
| text_array: "json_elements n e r \<Longrightarrow> json_text (Suc n) (CHR ''['' # e) r"
| text_empty_object: "blank w \<Longrightarrow> json_text (Suc n) (CHR ''{'' # w @ ''}'') r"
| text_object: "json_members n m r \<Longrightarrow> json_text (Suc n) (CHR ''{'' # m) r"
| elements_last: "blank w1 \<Longrightarrow> json_text n v (w2 @ CHR '']'' # r) \<Longrightarrow> blank w2 \<Longrightarrow>
    json_elements n (w1 @ v @ w2 @ '']'') r"
| elements_more: "blank w1 \<Longrightarrow> json_text n v (w2 @ CHR '','' # e @ r) \<Longrightarrow> blank w2 \<Longrightarrow>
    json_elements n e r \<Longrightarrow> json_elements n (w1 @ v @ w2 @ CHR '','' # e) r"
| members_last: "blank w1 \<Longrightarrow> json_chars k \<Longrightarrow> blank w2 \<Longrightarrow> blank w3 \<Longrightarrow>
    json_text n v (w4 @ CHR ''}'' # r) \<Longrightarrow> blank w4 \<Longrightarrow>
    json_members n (w1 @ CHR 0x22 # k @ CHR 0x22 # w2 @ CHR '':'' # w3 @ v @ w4 @ ''}'') r"
| members_more: "blank w1 \<Longrightarrow> json_chars k \<Longrightarrow> blank w2 \<Longrightarrow> blank w3 \<Longrightarrow>
    json_text n v (w4 @ CHR '','' # m @ r) \<Longrightarrow> blank w4 \<Longrightarrow> json_members n m r \<Longrightarrow>
    json_members n (w1 @ CHR 0x22 # k @ CHR 0x22 # w2 @ CHR '':'' # w3 @ v @ w4 @ CHR '','' # m) r"

inductive_cases json_elementsE: "json_elements n e r"
inductive_cases json_membersE: "json_members n m r"
inductive_simps json_text_flat: "json_text 0 v r"

text \<open>White space in front of a token.\<close>

lemma json_ws_blank [simp]: "blank w \<Longrightarrow> json_ws (w @ s) = json_ws s"
  by (induction w) (simp_all add: json_ws_def)

lemma json_ws_Cons [simp]: "\<not> isspace c \<Longrightarrow> json_ws (c # s) = c # s"
  by (simp add: json_ws_def)

lemma json_ws_idem [simp]: "json_ws (json_ws s) = json_ws s"
  by (simp add: json_ws_def)

lemma json_ws_split:
  assumes "json_ws s = t"
  obtains w where "s = w @ t" "blank w"
  using assms takeWhile_dropWhile_id [of isspace s] that [of "takeWhile isspace s"]
  by (auto simp: json_ws_def list_all_iff dest: set_takeWhileD)

lemma json_ws_not_space: "json_ws s = c # t \<Longrightarrow> \<not> isspace c"
  by (auto simp: json_ws_def dropWhile_eq_Cons_conv)

lemma not_space_simps [simp]:
  "\<not> isspace (CHR 0x22)" "\<not> isspace (CHR ''['')" "\<not> isspace (CHR ''{'')" "\<not> isspace (CHR '']'')"
  "\<not> isspace (CHR ''}'')" "\<not> isspace (CHR '','')" "\<not> isspace (CHR '':'')" "\<not> isspace (CHR ''t'')"
  "\<not> isspace (CHR ''f'')" "\<not> isspace (CHR ''n'')"
  by (simp_all add: isspace_def byte_def)

lemma elements_blank:
  assumes "blank w" and "json_elements n e r"
  shows "json_elements n (w @ e) r"
  using assms(2)
proof (rule json_elementsE)
  fix w1 v w2
  assume "e = w1 @ v @ w2 @ '']''" "blank w1" "json_text n v (w2 @ CHR '']'' # r)" "blank w2"
  then show ?thesis using elements_last [of "w @ w1" n v w2 r] assms(1) by simp
next
  fix w1 v w2 e'
  assume "e = w1 @ v @ w2 @ CHR '','' # e'" "blank w1" "json_text n v (w2 @ CHR '','' # e' @ r)"
    "blank w2" "json_elements n e' r"
  then show ?thesis using elements_more [of "w @ w1" n v w2 e' r] assms(1) by simp
qed

lemma members_blank:
  assumes "blank w" and "json_members n m r"
  shows "json_members n (w @ m) r"
  using assms(2)
proof (rule json_membersE)
  fix w1 k w2 w3 v w4
  assume "m = w1 @ CHR 0x22 # k @ CHR 0x22 # w2 @ CHR '':'' # w3 @ v @ w4 @ ''}''" "blank w1"
    "json_chars k" "blank w2" "blank w3" "json_text n v (w4 @ CHR ''}'' # r)" "blank w4"
  then show ?thesis using members_last [of "w @ w1" k w2 w3 n v w4 r] assms(1) by simp
next
  fix w1 k w2 w3 v w4 m'
  assume "m = w1 @ CHR 0x22 # k @ CHR 0x22 # w2 @ CHR '':'' # w3 @ v @ w4 @ CHR '','' # m'"
    "blank w1" "json_chars k" "blank w2" "blank w3" "json_text n v (w4 @ CHR '','' # m' @ r)"
    "blank w4" "json_members n m' r"
  then show ?thesis using members_more [of "w @ w1" k w2 w3 n v w4 m' r] assms(1) by simp
qed

text \<open>What a number can begin with.\<close>

lemma strtod_first:
  assumes "strtod (c # s) = Some (x, r)" and "\<not> isspace c"
  shows "isdigit c \<or> c \<in> set [CHR ''-'', CHR ''+'', CHR ''.''] \<or> tolower c = 105 \<or>
    ci_prefix ''nan'' (c # s)"
proof (rule ccontr)
  assume a: "\<not> ?thesis"
  then have "scan_sign (c # s) = (False, c # s)" by (simp add: scan_sign_def)
  moreover have "tolower c \<noteq> 48"
    using a by (auto simp: isdigit_def tolower_def Let_def split: if_splits)
  ultimately show False
    using assms a
    by (auto simp: strtod_def scan_hex_def scan_decimal_def scan_mantissa_def byte_def)
qed

lemma scan_sign_suffix: "scan_sign s = (neg, t) \<Longrightarrow> suffix t s"
  by (auto simp: scan_sign_def suffix_Cons split: list.splits if_splits)

lemma scan_exponent_suffix: "scan_exponent m s = (e, r) \<Longrightarrow> suffix r s"
  using suffix_dropWhile [of isdigit "snd (scan_sign (tl s))"]
  by (auto simp: scan_exponent_def Let_def suffix_Cons split: list.splits if_splits prod.splits
      dest!: scan_sign_suffix intro: suffix_order.trans)

lemma scan_mantissa_suffix: "scan_mantissa dig s = Some (ip, fp, u) \<Longrightarrow> suffix u s"
  using suffix_dropWhile [of dig s] suffix_dropWhile [of dig "tl (dropWhile dig s)"]
  by (cases "dropWhile dig s")
    (auto simp: scan_mantissa_def Let_def dest: suffix_ConsD split: if_splits
      intro: suffix_order.trans)

lemma strtod_suffix:
  assumes "strtod s = Some (x, r)"
  shows "suffix r s"
proof -
  obtain neg t where t: "scan_sign (dropWhile isspace s) = (neg, t)" by fastforce
  have "suffix (nan_suffix u) u" for u
    using suffix_dropWhile [of nan_char "tl u"]
    by (auto simp: nan_suffix_def suffix_Cons split: list.splits dest: suffix_ConsD)
  then have "suffix (nan_suffix (drop 3 t)) t" using suffix_drop suffix_order.trans by blast
  moreover have "suffix r t" if "scan_decimal t = Some (q, r)" for q
    using that by (auto simp: scan_decimal_def split: option.splits prod.splits
        dest!: scan_mantissa_suffix scan_exponent_suffix intro: suffix_order.trans)
  moreover have "suffix r t" if "scan_hex t = Some (q, r)" for q
    using that suffix_drop [of 2 t] by (auto simp: scan_hex_def split: option.splits prod.splits if_splits
        dest!: scan_mantissa_suffix scan_exponent_suffix intro: suffix_order.trans)
  ultimately have "suffix r t"
    using assms t
    by (auto simp: strtod_def suffix_drop split: if_splits option.splits prod.splits)
  then show ?thesis
    using scan_sign_suffix [OF t] suffix_dropWhile [of isspace s] suffix_order.trans by blast
qed

lemma json_number_suffix: "json_number s = Some (x, r) \<Longrightarrow> suffix r s"
  using strtod_suffix [of "json_ws s" x r] suffix_dropWhile [of isspace s]
  by (auto simp: json_number_def json_ws_def intro: suffix_order.trans)

lemma nan_not_null: "ci_prefix ''an'' s \<Longrightarrow> \<not> starts_with s ''ull''"
  by (cases s) (auto simp: tolower_def byte_def)

lemma json_number_first:
  assumes "json_number (c # s) = Some (x, r)" and "\<not> isspace c"
  shows "c \<notin> set [CHR 0x22, CHR ''['', CHR ''{'', CHR '']'', CHR ''}'']"
    and "\<forall>l \<in> set json_literals. \<not> starts_with (c # s) l"
  using strtod_first [of c s x r] assms nan_not_null [of s]
  by (auto simp: json_number_def isdigit_def tolower_def byte_def json_literals_def)

lemma json_string_iff:
  "(\<exists>v. json_string (CHR 0x22 # s) = Some (v, r)) \<longleftrightarrow> (\<exists>t. s = t @ CHR 0x22 # r \<and> json_chars t)"
  by (simp add: json_string_def json_string_loop_iff)

text \<open>The skipper skips exactly the values of the grammar, and white space in front of them.\<close>

lemma json_literals_simps: "json_lit s l = Some r \<longleftrightarrow> s = l @ r"
  by (auto simp: json_lit_def starts_with_iff)

lemma nest_Suc:
  assumes "\<not> JSON_MAX_NESTING \<le> depth"
  shows "JSON_MAX_NESTING - depth = Suc (JSON_MAX_NESTING - (depth + 1))"
  using assms by simp

lemma json_skip_sound:
  "json_skip_array_depth depth s = Some r \<Longrightarrow>
     \<exists>w v. s = w @ v @ r \<and> blank w \<and> json_text (JSON_MAX_NESTING - depth) v r"
  "json_skip_elements depth s = Some r \<Longrightarrow>
     \<exists>e. s = e @ r \<and> json_elements (JSON_MAX_NESTING - (depth + 1)) e r"
  "json_skip_object_depth depth s = Some r \<Longrightarrow>
     \<exists>w v. s = w @ v @ r \<and> blank w \<and> json_text (JSON_MAX_NESTING - depth) v r"
  "json_skip_members depth s = Some r \<Longrightarrow>
     \<exists>m. s = m @ r \<and> json_members (JSON_MAX_NESTING - (depth + 1)) m r"
  "json_skip_value_depth depth s = Some r \<Longrightarrow>
     \<exists>w v. s = w @ v @ r \<and> blank w \<and> json_text (JSON_MAX_NESTING - depth) v r"
proof (induction depth s and depth s and depth s and depth s and depth s arbitrary: r and r and r
    and r and r rule: json_skip_induct)
  case (1 depth s)
  then obtain s1 where d: "\<not> JSON_MAX_NESTING \<le> depth" and s1: "json_ws s = CHR ''['' # s1"
    by (auto simp: json_skip_array_depth.simps split: if_splits list.splits)
  from s1 obtain w where w: "s = w @ CHR ''['' # s1" "blank w" by (rule json_ws_split)
  obtain w' where w': "s1 = w' @ json_ws s1" "blank w'" using json_ws_split [OF refl] by blast
  have "\<exists>v. CHR ''['' # s1 = v @ r \<and> json_text (JSON_MAX_NESTING - depth) v r" (is "\<exists>v. ?P v")
  proof (cases "\<exists>s2. json_ws s1 = CHR '']'' # s2")
    case True
    then have "json_ws s1 = CHR '']'' # r"
      using 1(3) d s1 by (auto simp: json_skip_array_depth.simps)
    with w' text_empty_array [OF w'(2)] show ?thesis unfolding nest_Suc [OF d]
      by (intro exI [of _ "CHR ''['' # w' @ '']''"]) simp
  next
    case False
    then have "json_skip_elements depth (json_ws s1) = Some r"
      using 1(3) d s1 by (auto simp: json_skip_array_depth.simps split: list.splits if_splits)
    then obtain e where "json_ws s1 = e @ r" "json_elements (JSON_MAX_NESTING - (depth + 1)) e r"
      using 1(1,2) d s1 False by (cases "json_ws s1") fastforce+
    with w' text_array [OF elements_blank [OF w'(2)]] show ?thesis unfolding nest_Suc [OF d]
      by (intro exI [of _ "CHR ''['' # w' @ e"]) simp
  qed
  then obtain v where "?P v" by blast
  with w show ?case by (intro exI [of _ w] exI [of _ v]) simp
next
  case (2 depth s)
  then obtain s1 where s1: "json_skip_value_depth (depth + 1) s = Some s1"
    by (auto simp: json_skip_elements.simps [of depth s] split: option.splits)
  from 2(1) [OF s1] obtain w v where v: "s = w @ v @ s1" "blank w"
    "json_text (JSON_MAX_NESTING - (depth + 1)) v s1" by blast
  obtain w' where w': "s1 = w' @ json_ws s1" "blank w'" using json_ws_split [OF refl] by blast
  consider "json_ws s1 = CHR '']'' # r"
    | s2 where "json_ws s1 = CHR '','' # s2" "json_skip_elements depth s2 = Some r"
    using 2(3) s1 by (auto simp: json_skip_elements.simps [of depth s] split: list.splits if_splits)
  then show ?case
  proof cases
    case 1
    with v w' elements_last [of w _ v w' r] show ?thesis
      by (intro exI [of _ "w @ v @ w' @ '']''"]) simp
  next
    case (2 s2)
    with "2.IH"(2) [OF s1 2(1)] obtain e where
      e: "s2 = e @ r" "json_elements (JSON_MAX_NESTING - (depth + 1)) e r" by auto
    with v w' 2 elements_more [of w _ v w' e r] show ?thesis
      by (intro exI [of _ "w @ v @ w' @ CHR '','' # e"]) simp
  qed
next
  case (3 depth s)
  then obtain s1 where d: "\<not> JSON_MAX_NESTING \<le> depth" and s1: "json_ws s = CHR ''{'' # s1"
    by (auto simp: json_skip_object_depth.simps split: if_splits list.splits)
  from s1 obtain w where w: "s = w @ CHR ''{'' # s1" "blank w" by (rule json_ws_split)
  obtain w' where w': "s1 = w' @ json_ws s1" "blank w'" using json_ws_split [OF refl] by blast
  have "\<exists>v. CHR ''{'' # s1 = v @ r \<and> json_text (JSON_MAX_NESTING - depth) v r" (is "\<exists>v. ?P v")
  proof (cases "\<exists>s2. json_ws s1 = CHR ''}'' # s2")
    case True
    then have "json_ws s1 = CHR ''}'' # r"
      using 3(3) d s1 by (auto simp: json_skip_object_depth.simps)
    with w' text_empty_object [OF w'(2)] show ?thesis unfolding nest_Suc [OF d]
      by (intro exI [of _ "CHR ''{'' # w' @ ''}''"]) simp
  next
    case False
    then have "json_skip_members depth (json_ws s1) = Some r"
      using 3(3) d s1 by (auto simp: json_skip_object_depth.simps split: list.splits if_splits)
    then obtain e where "json_ws s1 = e @ r" "json_members (JSON_MAX_NESTING - (depth + 1)) e r"
      using 3(1,2) d s1 False by (cases "json_ws s1") fastforce+
    with w' text_object [OF members_blank [OF w'(2)]] show ?thesis unfolding nest_Suc [OF d]
      by (intro exI [of _ "CHR ''{'' # w' @ e"]) simp
  qed
  then obtain v where "?P v" by blast
  with w show ?case by (intro exI [of _ w] exI [of _ v]) simp
next
  case (4 depth s)
  then obtain key s1 s2 s3 where k: "json_string s = Some (key, s1)" "json_ws s1 = CHR '':'' # s2"
      "json_skip_value_depth (depth + 1) s2 = Some s3"
    by (auto simp: json_skip_members.simps [of depth s] split: option.splits list.splits if_splits)
  obtain s0 where s0: "json_ws s = CHR 0x22 # s0"
    using k(1) by (auto simp: json_string_def split: list.splits if_splits)
  then obtain w1 where w1: "s = w1 @ CHR 0x22 # s0" "blank w1" by (rule json_ws_split)
  have "json_string (CHR 0x22 # s0) = Some (key, s1)" using k(1) s0 by (simp add: json_string_def)
  then obtain t where t: "s0 = t @ CHR 0x22 # s1" "json_chars t" using json_string_iff by blast
  from k(2) obtain w2 where w2: "s1 = w2 @ CHR '':'' # s2" "blank w2" by (rule json_ws_split)
  from "4.IH"(1) [OF k(1) refl k(2) _ k(3)] obtain w3 v where v: "s2 = w3 @ v @ s3" "blank w3"
    "json_text (JSON_MAX_NESTING - (depth + 1)) v s3" by auto
  obtain w4 where w4: "s3 = w4 @ json_ws s3" "blank w4" using json_ws_split [OF refl] by blast
  note parts = w1 t w2 v w4
  consider "json_ws s3 = CHR ''}'' # r"
    | s4 where "json_ws s3 = CHR '','' # s4" "json_skip_members depth s4 = Some r"
    using 4(3) k by (auto simp: json_skip_members.simps [of depth s] split: list.splits if_splits)
  then show ?case
  proof cases
    case 1
    with parts members_last [of w1 t w2 w3 _ v w4 r] show ?thesis
      by (intro exI [of _ "w1 @ CHR 0x22 # t @ CHR 0x22 # w2 @ CHR '':'' # w3 @ v @ w4 @ ''}''"]) simp
  next
    case (2 s4)
    have "s4 = m @ r \<Longrightarrow> ?thesis" if "json_members (JSON_MAX_NESTING - (depth + 1)) m r" for m
      using parts 2 that members_more [of w1 t w2 w3 _ v w4 m r]
      by (intro exI
          [of _ "w1 @ CHR 0x22 # t @ CHR 0x22 # w2 @ CHR '':'' # w3 @ v @ w4 @ CHR '','' # m"]) simp
    with "4.IH"(2) [OF k(1) refl k(2) _ k(3) 2(1)] 2(2) show ?thesis by auto
  qed
next
  case (5 depth s)
  then show ?case
  proof (cases "json_ws s")
    case Nil
    with 5(3) show ?thesis
      by (auto simp: json_skip_value_depth.simps [of depth s] dest: json_number_length)
  next
    case (Cons c s1)
    obtain w where w: "s = w @ c # s1" "blank w" using json_ws_split [OF Cons] by blast
    have c: "\<not> isspace c" using Cons by (rule json_ws_not_space)
    have "\<exists>w' v. c # s1 = w' @ v @ r \<and> blank w' \<and> json_text (JSON_MAX_NESTING - depth) v r"
    proof -
      consider (str) v where "c = CHR 0x22" "json_string (c # s1) = Some (v, r)"
        | (obj) "c = CHR ''{''" "json_skip_object_depth depth (c # s1) = Some r"
        | (arr) "c = CHR ''[''" "json_skip_array_depth depth (c # s1) = Some r"
        | (lit) l where "l \<in> set json_literals" "json_lit (c # s1) l = Some r"
        | (num) x where "json_number (c # s1) = Some (x, r)"
        using 5(3) Cons
        by (auto simp: json_skip_value_depth.simps [of depth s] json_literals_def split: if_splits)
      then show ?thesis
      proof cases
        case str
        then obtain t where "s1 = t @ CHR 0x22 # r" "json_chars t" using json_string_iff by blast
        with str(1) show ?thesis
          by (intro exI [of _ "[]"] exI [of _ "CHR 0x22 # t @ [CHR 0x22]"])
            (simp add: text_string)
      next
        case obj
        with 5(1) [OF Cons] show ?thesis by simp
      next
        case arr
        with 5(2) [OF Cons] show ?thesis by simp
      next
        case lit
        then show ?thesis
          by (intro exI [of _ "[]"] exI [of _ l]) (simp add: text_literal json_literals_simps)
      next
        case num
        obtain v where v: "c # s1 = v @ r" using json_number_suffix [OF num] by (auto elim: suffixE)
        have "v \<noteq> []" using json_number_length [OF num] v by auto
        moreover from this v have "hd v = c" by (cases v) auto
        ultimately show ?thesis using num c v
          by (intro exI [of _ "[]"] exI [of _ v]) (auto intro!: text_number)
      qed
    qed
    then obtain w' v where "c # s1 = w' @ v @ r" "blank w'" "json_text (JSON_MAX_NESTING - depth) v r"
      by blast
    with w show ?thesis by (intro exI [of _ "w @ w'"] exI [of _ v]) simp
  qed
qed

lemma json_skip_value_blank:
  "blank w \<Longrightarrow> json_skip_value_depth depth (w @ s) = json_skip_value_depth depth s"
  by (simp add: json_skip_value_depth.simps [of depth])

lemma json_skip_elements_blank:
  "blank w \<Longrightarrow> json_skip_elements depth (w @ s) = json_skip_elements depth s"
  by (simp add: json_skip_elements.simps [of depth "w @ s"] json_skip_elements.simps [of depth s]
      json_skip_value_blank)

lemma json_skip_members_blank:
  "blank w \<Longrightarrow> json_skip_members depth (w @ s) = json_skip_members depth s"
  by (simp add: json_skip_members.simps [of depth "w @ s"] json_skip_members.simps [of depth s]
      json_string_def)

text \<open>The character with which a value, a list of elements or a list of members begins.\<close>

definition begins :: "string \<Rightarrow> char \<Rightarrow> bool" where
  "begins v close \<longleftrightarrow> (\<exists>w c t. v = w @ c # t \<and> blank w \<and> \<not> isspace c \<and> c \<noteq> close)"

lemma begins_Cons: "\<not> isspace c \<Longrightarrow> c \<noteq> x \<Longrightarrow> begins (c # t) x"
  unfolding begins_def by (intro exI [of _ "[]"]) simp

lemma begins_append: "begins v x \<Longrightarrow> begins (v @ t) x"
  unfolding begins_def by force

lemma begins_blank: "blank w \<Longrightarrow> begins v x \<Longrightarrow> begins (w @ v) x"
  unfolding begins_def by (metis append.assoc list_all_append)

lemma json_text_begins:
  assumes "json_text n v r"
  shows "begins v (CHR '']'')"
  using assms
proof cases
  case (text_number x)
  then obtain c t where v: "v = c # t" by (cases v) auto
  with text_number json_number_first [of c "t @ r" x r] show ?thesis by (simp add: begins_Cons)
qed (auto simp: json_literals_def begins_Cons)

lemma json_elements_begins: "json_elements n e r \<Longrightarrow> begins e (CHR '']'')"
  by (erule json_elementsE) (auto intro: begins_blank begins_append dest: json_text_begins)

lemma json_members_begins: "json_members n m r \<Longrightarrow> begins m (CHR ''}'')"
  by (erule json_membersE) (auto intro!: begins_blank begins_Cons)

lemma begins_json_ws:
  assumes "begins e x"
  obtains w c t where "json_ws (e @ r) = c # t" "c \<noteq> x" "e @ r = w @ c # t" "blank w"
proof -
  from assms obtain w c t where "e = w @ c # t" "blank w" "\<not> isspace c" "c \<noteq> x"
    by (auto simp: begins_def)
  with that [of c "t @ r" w] show thesis by simp
qed

lemma json_skip_complete:
  "json_text n v r \<Longrightarrow> (\<And>depth. depth + n = JSON_MAX_NESTING \<Longrightarrow>
     json_skip_value_depth depth (v @ r) = Some r)"
  "json_elements n e r \<Longrightarrow> (\<And>depth. depth + Suc n = JSON_MAX_NESTING \<Longrightarrow>
     json_skip_elements depth (e @ r) = Some r)"
  "json_members n m r \<Longrightarrow> (\<And>depth. depth + Suc n = JSON_MAX_NESTING \<Longrightarrow>
     json_skip_members depth (m @ r) = Some r)"
proof (induction rule: json_text_json_elements_json_members.inducts)
  case (text_string b n r)
  then have "\<exists>v. json_string (CHR 0x22 # b @ CHR 0x22 # r) = Some (v, r)"
    using json_string_iff by blast
  then show ?case by (auto simp: json_skip_value_depth.simps [of depth])
next
  case (text_literal v n r)
  then show ?case
    by (auto simp: json_literals_def json_skip_value_depth.simps [of depth] json_lit_def)
next
  case (text_number v r x n)
  then obtain c t where v: "v = c # t" "\<not> isspace c" by (cases v) auto
  with text_number json_number_first [of c "t @ r" x r] show ?case
    by (auto simp: json_skip_value_depth.simps [of depth] json_lit_def json_literals_def)
next
  case (text_empty_array w n r)
  then show ?case
    by (simp add: json_skip_value_depth.simps [of depth] json_skip_array_depth.simps [of depth])
next
  case (text_array n e r)
  obtain w c t where b: "json_ws (e @ r) = c # t" "c \<noteq> CHR '']''" "e @ r = w @ c # t" "blank w"
    using begins_json_ws [OF json_elements_begins [OF text_array(1)]] by blast
  with text_array(2) [of depth] text_array(3) json_skip_elements_blank [OF b(4)] show ?case
    by (simp add: json_skip_value_depth.simps [of depth] json_skip_array_depth.simps [of depth])
next
  case (text_empty_object w n r)
  then show ?case
    by (simp add: json_skip_value_depth.simps [of depth] json_skip_object_depth.simps [of depth])
next
  case (text_object n m r)
  obtain w c t where b: "json_ws (m @ r) = c # t" "c \<noteq> CHR ''}''" "m @ r = w @ c # t" "blank w"
    using begins_json_ws [OF json_members_begins [OF text_object(1)]] by blast
  with text_object(2) [of depth] text_object(3) json_skip_members_blank [OF b(4)] show ?case
    by (simp add: json_skip_value_depth.simps [of depth] json_skip_object_depth.simps [of depth])
next
  case (elements_last w1 n v w2 r)
  then show ?case
    by (simp add: json_skip_elements_blank json_skip_elements.simps [of depth "v @ u" for u])
next
  case (elements_more w1 n v w2 e r)
  then show ?case
    by (simp add: json_skip_elements_blank json_skip_elements.simps [of depth "v @ u" for u])
next
  case (members_last w1 k w2 w3 n v w4 r)
  let ?t = "w2 @ CHR '':'' # w3 @ v @ w4 @ CHR ''}'' # r"
  obtain y where "json_string (CHR 0x22 # k @ CHR 0x22 # ?t) = Some (y, ?t)"
    using json_string_iff members_last(2) by blast
  with members_last show ?case
    by (simp add: json_skip_members_blank json_skip_value_blank
        json_skip_members.simps [of depth "CHR 0x22 # u" for u])
next
  case (members_more w1 k w2 w3 n v w4 m r)
  let ?t = "w2 @ CHR '':'' # w3 @ v @ w4 @ CHR '','' # m @ r"
  obtain y where "json_string (CHR 0x22 # k @ CHR 0x22 # ?t) = Some (y, ?t)"
    using json_string_iff members_more(2) by blast
  with members_more show ?case
    by (simp add: json_skip_members_blank json_skip_value_blank
        json_skip_members.simps [of depth "CHR 0x22 # u" for u])
qed

text \<open>A run of more opening brackets than the ceiling is rejected whatever follows.\<close>

lemma deep_array_rejected:
  "JSON_MAX_NESTING < depth + k \<Longrightarrow> 0 < k \<Longrightarrow>
     json_skip_value_depth depth (replicate k (CHR ''['') @ s) = None"
proof (induction k arbitrary: depth)
  case (Suc k)
  have "json_skip_array_depth depth (replicate (Suc k) (CHR ''['') @ s) = None"
  proof (cases "JSON_MAX_NESTING \<le> depth")
    case False
    then have "0 < k" using Suc.prems by simp
    then obtain j where "k = Suc j" by (cases k) auto
    with Suc False show ?thesis
      by (simp add: json_skip_array_depth.simps [of depth] json_skip_elements.simps [of depth])
  qed (simp add: json_skip_array_depth.simps)
  then show ?case by (simp add: json_skip_value_depth.simps [of depth])
qed simp

lemma nested_array_text:
  "json_text (Suc n) (replicate (Suc n) (CHR ''['') @ replicate (Suc n) (CHR '']'')) r"
proof (induction n arbitrary: r)
  case 0
  show ?case using text_empty_array [of "[]" 0 r] by simp
next
  case (Suc n)
  let ?v = "replicate (Suc n) (CHR ''['') @ replicate (Suc n) (CHR '']'')"
  have "json_elements (Suc n) ([] @ ?v @ [] @ '']'') r"
    by (rule elements_last) (use Suc in simp_all)
  then have "json_text (Suc (Suc n)) (CHR ''['' # [] @ ?v @ [] @ '']'') r" by (rule text_array)
  then show ?case by (simp add: replicate_append_same)
qed

lemma json_text_mono: "json_text n v r \<Longrightarrow> (\<And>m. n \<le> m \<Longrightarrow> json_text m v r)"
  and "json_elements n e r \<Longrightarrow> (\<And>m. n \<le> m \<Longrightarrow> json_elements m e r)"
  and "json_members n m' r \<Longrightarrow> (\<And>m. n \<le> m \<Longrightarrow> json_members m m' r)"
proof (induction rule: json_text_json_elements_json_members.inducts)
  case (text_empty_array w n r)
  then show ?case using json_text_json_elements_json_members.text_empty_array
    by (cases m) auto
next
  case (text_array n e r)
  then show ?case using json_text_json_elements_json_members.text_array by (cases m) auto
next
  case (text_empty_object w n r)
  then show ?case using json_text_json_elements_json_members.text_empty_object
    by (cases m) auto
next
  case (text_object n m' r)
  then show ?case using json_text_json_elements_json_members.text_object by (cases m) auto
qed (auto intro: json_text_json_elements_json_members.intros)

section \<open>Escaped strings\<close>

lemma chr_of_nat:
  assumes "n < 256"
  shows "chr (of_nat n) = char_of n"
proof -
  have "n AND 255 = take_bit 8 n" by (simp add: take_bit_eq_mask mask_eq_exp_minus_1)
  then show ?thesis using assms
    by (simp add: chr_def unsigned_and_eq unsigned_of_nat take_bit_nat_eq_self)
qed

lemma utf8_put_ascii: "n < 128 \<Longrightarrow> utf8_put (of_nat n) = [char_of n]"
  by (simp add: utf8_put_def chr_of_nat word_le_nat_alt unsigned_of_nat take_bit_nat_eq_self)

lemma hex_char_value: "d < 16 \<Longrightarrow> json_hex (hex_char d) = int d"
proof -
  have "list_all (\<lambda>d. json_hex (hex_char d) = int d) [0..<16]" by code_simp
  then show "d < 16 \<Longrightarrow> json_hex (hex_char d) = int d" by (simp add: list_all_iff)
qed

lemma hex_pair_value:
  assumes "n < 32"
  shows "push_bit 4 (of_nat (n div 16)) OR of_nat (n mod 16) = (of_nat n :: u32)"
proof (cases "n < 16")
  case False
  then obtain b where b: "n = 16 + b" "b < 16" using assms by (metis add_less_cancel_left
        le_add_diff_inverse not_less numeral_Bit0)
  have "list_all (\<lambda>b. push_bit 4 1 OR of_nat b = (of_nat (16 + b) :: u32)) [0..<16]"
    by (simp add: upt_rec)
  with b have "push_bit 4 1 OR of_nat b = (of_nat (16 + b) :: u32)"
    by (simp only: list_all_iff set_upt) simp
  with b show ?thesis by simp
qed simp

lemma u_escape_digits:
  assumes "n < 32"
  shows "hex_digits (drop 2 (u_escape n)) 0 = Some (of_nat n)"
proof -
  have "json_hex (CHR ''0'') = 0" by (simp add: json_hex_def byte_def)
  moreover have "json_hex (hex_char (n div 16)) = int (n div 16)"
    and "json_hex (hex_char (n mod 16)) = int (n mod 16)"
    using assms by (auto intro!: hex_char_value)
  ultimately show ?thesis using hex_pair_value [OF assms] by (simp add: u_escape_def)
qed

lemma u_escape_code_point:
  assumes "n < 32"
  shows "json_code_point (u_escape n @ s) = Some (of_nat n, s)"
proof -
  have "hex_digits (drop 2 (u_escape n)) 0 = Some (of_nat n)"
    using assms by (rule u_escape_digits)
  moreover have "\<not> 0xd800 \<le> (of_nat n :: u32)"
    using assms by (simp add: word_le_nat_alt unsigned_of_nat take_bit_nat_eq_self)
  ultimately show ?thesis by (simp add: json_code_point_def u_escape_def)
qed

lemma json_string_loop_escape:
  "json_string_loop (json_escape_char c @ s) b = json_string_loop s (b @ [c])"
proof (cases "json_escape_char c = u_escape (byte c) \<and> byte c < 32")
  case True
  then have "json_code_point (CHR 0x5C # CHR ''u'' # drop 2 (u_escape (byte c)) @ s) =
      Some (of_nat (byte c), s)"
    using u_escape_code_point [of "byte c" s] by (simp add: u_escape_def)
  with True show ?thesis
    by (simp add: u_escape_def json_string_loop.simps(2) utf8_put_ascii byte_def)
next
  case False
  then show ?thesis
    by (auto simp: json_escape_char_def json_string_loop.simps(2) simple_escape_def)
qed

lemma json_string_loop_escapes:
  "json_string_loop (concat (map json_escape_char t) @ s) b = json_string_loop s (b @ t)"
  by (induction t arbitrary: b) (simp_all add: json_string_loop_escape)

end
