(* ===== verification/Json_Properties.thy ===== *)
theory Json_Properties
  imports Json_Grammar
begin

text \<open>
  What the server's JSON code guarantees: strings survive being written and read back, the
  skipper accepts exactly the grammar of \<open>Json_Grammar\<close>, and its recursion stops at the nesting
  ceiling.
\<close>

text \<open>
  C17: A string written by \<open>json_escape\<close> in front of any text is read back by \<open>json_string\<close> as
  the same C string, with the cursor right after the closing quote; for \<open>json_escape_fragment_n\<close>,
  whose caller writes the quotes, all the bytes come back, embedded NULs included.
\<close>

theorem json_escape_round_trip:
  "json_string (json_escape s @ r) = Some (c_str s, r) \<and>
   json_string (CHR 0x22 # json_escape_fragment_n s @ CHR 0x22 # r) = Some (s, r)"
  using json_string_loop_escapes [of "c_str s" "CHR 0x22 # r" "[]"]
    json_string_loop_escapes [of s "CHR 0x22 # r" "[]"]
  by (simp add: json_string_def json_escape_def json_escape_fragment_n_def
      json_string_loop.simps(2))

text \<open>
  C18: Skipping a value succeeds exactly on white space followed by a value of the JSON grammar
  with at most \<open>JSON_MAX_NESTING\<close> levels of arrays and objects, and it leaves the cursor at the end of
  that value.
\<close>

theorem json_skip_value_iff:
  "json_skip_value s = Some r \<longleftrightarrow>
     (\<exists>w v. s = w @ v @ r \<and> blank w \<and> json_text JSON_MAX_NESTING v r)"
proof
  assume "json_skip_value s = Some r"
  then show "\<exists>w v. s = w @ v @ r \<and> blank w \<and> json_text JSON_MAX_NESTING v r"
    using json_skip_sound(5) [of 0 s r] by (simp add: json_skip_value_def)
next
  assume "\<exists>w v. s = w @ v @ r \<and> blank w \<and> json_text JSON_MAX_NESTING v r"
  then show "json_skip_value s = Some r"
    using json_skip_complete(1) [of JSON_MAX_NESTING _ r 0]
    by (auto simp: json_skip_value_def json_skip_value_blank)
qed

text \<open>
  An array nested to the ceiling of 256 levels is skipped and one level more is rejected,
  however deep the text goes on.
\<close>

lemma json_nesting_ceiling:
  "json_skip_value (replicate (Suc n) (CHR ''['') @ replicate (Suc n) (CHR '']'') @ r) =
     (if n < 256 then Some r else None)"
proof (cases "n < 256")
  case True
  then have "json_text JSON_MAX_NESTING (replicate (Suc n) (CHR ''['') @ replicate (Suc n) (CHR '']'')) r"
    by (intro json_text_mono(1) [OF nested_array_text]) (simp add: JSON_MAX_NESTING_def)
  from json_skip_complete(1) [OF this, of 0] True show ?thesis
    by (simp add: json_skip_value_def)
next
  case False
  then show ?thesis
    using deep_array_rejected [of 0 "Suc n" "replicate (Suc n) (CHR '']'') @ r"]
    by (simp add: json_skip_value_def JSON_MAX_NESTING_def)
qed

end
