(* ===== verification/Job_Queue.thy ===== *)
theory Job_Queue
  imports Prelude
begin

text \<open>
  The threads of the server (\<open>ds4_server.c\<close>) and the queue of jobs they share: client threads
  submit a job each and wait for it, one worker takes jobs and serves them, the main thread
  accepts connections, and on shutdown stops the queue, joins the worker and waits for the clients.

  The queue is the linked list of the source: \<open>head\<close>, \<open>tail\<close> and the \<open>next\<close> field of every job.
  A job lives on the stack of its client thread, so a job is named by its thread. Each step of the
  system is one critical section of the source; a blocked \<open>pthread_cond_wait\<close> is a step that is
  not enabled.
\<close>

section \<open>The queue\<close>

type_synonym job = nat

record job_queue =
  head :: "job option"
  tail :: "job option"
  nxt :: "job \<Rightarrow> job option"
  stopping :: bool
  clients :: nat

definition enqueue :: "job \<Rightarrow> job_queue \<Rightarrow> bool \<times> job_queue" where
  "enqueue j s =
     (if stopping s then (False, s)
      else let s1 = (case tail s of
                       Some t \<Rightarrow> s\<lparr>nxt := (nxt s)(t := Some j)\<rparr>
                     | None \<Rightarrow> s\<lparr>head := Some j\<rparr>)
           in (True, s1\<lparr>tail := Some j\<rparr>))"

text \<open>\<open>dequeue\<close> either waits on the condition variable, or returns no job, or returns the head.\<close>

datatype dequeued = Waits | No_job | Job job

definition dequeue :: "job_queue \<Rightarrow> dequeued \<times> job_queue" where
  "dequeue s =
     (if head s = None \<and> \<not> stopping s then (Waits, s)
      else case head s of
        None \<Rightarrow> (No_job, s)
      | Some j \<Rightarrow>
          let s1 = s\<lparr>head := nxt s j\<rparr>;
              s2 = (if head s1 = None then s1\<lparr>tail := None\<rparr> else s1)
          in (Job j, s2\<lparr>nxt := (nxt s2)(j := None)\<rparr>))"

definition client_done :: "job_queue \<Rightarrow> job_queue" where
  "client_done s = (if clients s > 0 then s\<lparr>clients := clients s - 1\<rparr> else s)"

text \<open>The jobs from a pointer to the end of its chain, and the list a queue represents.\<close>

primrec chain :: "(job \<Rightarrow> job option) \<Rightarrow> job option \<Rightarrow> job list \<Rightarrow> bool" where
  "chain h p [] \<longleftrightarrow> p = None"
| "chain h p (x # xs) \<longleftrightarrow> p = Some x \<and> chain h (h x) xs"

definition queue_rep :: "job_queue \<Rightarrow> job list \<Rightarrow> bool" where
  "queue_rep s q \<longleftrightarrow> chain (nxt s) (head s) q \<and> distinct q \<and>
     tail s = (if q = [] then None else Some (last q))"

lemma chain_update: "x \<notin> set q \<Longrightarrow> chain (h(x := v)) p q = chain h p q"
  by (induction q arbitrary: p) auto

lemma chain_append:
  "chain h p q \<Longrightarrow> q \<noteq> [] \<Longrightarrow> distinct q \<Longrightarrow> j \<notin> set q \<Longrightarrow> h j = None \<Longrightarrow>
     chain (h(last q := Some j)) p (q @ [j])"
proof (induction q arbitrary: p)
  case (Cons x q)
  show ?case
  proof (cases "q = []")
    case False
    then have "last q \<noteq> x" using Cons.prems(3) by auto
    with False Cons show ?thesis by simp
  qed (use Cons.prems in auto)
qed simp

lemma chain_unique: "chain h p q \<Longrightarrow> chain h p q' \<Longrightarrow> q = q'"
proof (induction q arbitrary: p q')
  case Nil
  then show ?case by (cases q') auto
next
  case (Cons x q)
  then show ?case by (cases q') auto
qed

lemma queue_rep_unique: "queue_rep s q \<Longrightarrow> queue_rep s q' \<Longrightarrow> q = q'"
  by (auto simp: queue_rep_def intro: chain_unique)

lemma enqueue_rep:
  assumes "queue_rep s q" and "\<not> stopping s" and "j \<notin> set q" and "nxt s j = None"
  shows "fst (enqueue j s)" and "queue_rep (snd (enqueue j s)) (q @ [j])"
proof -
  show "fst (enqueue j s)" using assms(2) by (simp add: enqueue_def)
  show "queue_rep (snd (enqueue j s)) (q @ [j])"
  proof (cases "q = []")
    case True
    with assms show ?thesis by (simp add: enqueue_def queue_rep_def)
  next
    case False
    with assms show ?thesis
      using chain_append [of "nxt s" "head s" q j] by (simp add: enqueue_def queue_rep_def)
  qed
qed

lemma head_rep: "queue_rep s q \<Longrightarrow> head s = (case q of [] \<Rightarrow> None | j # _ \<Rightarrow> Some j)"
  by (auto simp: queue_rep_def split: list.splits)

lemma dequeue_rep_Nil:
  "queue_rep s [] \<Longrightarrow> dequeue s = (if stopping s then No_job else Waits, s)"
  by (simp add: dequeue_def head_rep)

lemma dequeue_rep_Cons:
  assumes "queue_rep s (j # q)"
  shows "fst (dequeue s) = Job j" and "queue_rep (snd (dequeue s)) q"
proof -
  have h: "head s = Some j" "chain (nxt s) (nxt s j) q" "j \<notin> set q" "distinct q"
    "tail s = Some (last (j # q))"
    using assms by (auto simp: queue_rep_def)
  then show "fst (dequeue s) = Job j" by (simp add: dequeue_def Let_def)
  show "queue_rep (snd (dequeue s)) q"
  proof (cases q)
    case Nil
    with h show ?thesis by (simp add: dequeue_def queue_rep_def Let_def)
  next
    case (Cons k r)
    with h show ?thesis
      by (auto simp: dequeue_def queue_rep_def Let_def chain_update)
  qed
qed

lemma enqueue_fields [simp]:
  "stopping (snd (enqueue j s)) = stopping s" "clients (snd (enqueue j s)) = clients s"
  by (simp_all add: enqueue_def Let_def split: option.split)

lemma dequeue_fields [simp]:
  "stopping (snd (dequeue s)) = stopping s" "clients (snd (dequeue s)) = clients s"
  by (simp_all add: dequeue_def Let_def split: option.split)

section \<open>The threads\<close>

text \<open>
  Where each thread is. A client thread that answers without the queue (an error, \<open>OPTIONS\<close>, a model
  list) goes from \<open>C_Parse\<close> to \<open>C_Close\<close>; one that submits waits until its job is done.
\<close>

datatype client_pc = C_None | C_Parse | C_Wait | C_Close | C_Gone
datatype worker_pc = W_Loop | W_Run job | W_Exited
datatype main_pc = M_Listen | M_Accept | M_Spawn job | M_Join | M_Drain | M_Join_Only | M_Closed

record system =
  queue :: job_queue
  job_done :: "job \<Rightarrow> bool"
  client :: "job \<Rightarrow> client_pc"
  worker :: worker_pc
  main_at :: main_pc

definition sys_init :: system where
  "sys_init = \<lparr>queue = \<lparr>head = None, tail = None, nxt = (\<lambda>_. None), stopping = False, clients = 0\<rparr>,
     job_done = (\<lambda>_. False), client = (\<lambda>_. C_None), worker = W_Loop, main_at = M_Listen\<rparr>"

text \<open>What a step does to the outside: the jobs that enter the queue, leave it and are served.\<close>

datatype event = Submitted job | Refused job | Taken job | Served job | Internal

text \<open>The job of a new client starts with all fields zero.\<close>

definition client_submit :: "job \<Rightarrow> system \<Rightarrow> bool \<times> system" where
  "client_submit j s =
     (let q0 = (queue s)\<lparr>nxt := (nxt (queue s))(j := None)\<rparr>;
          r = enqueue j q0
      in (fst r, s\<lparr>queue := snd r, job_done := (job_done s)(j := False),
                   client := (client s)(j := if fst r then C_Wait else C_Close)\<rparr>))"

definition worker_take :: "system \<Rightarrow> (event \<times> system) option" where
  "worker_take s =
     (case dequeue (queue s) of
        (Waits, _) \<Rightarrow> None
      | (No_job, q) \<Rightarrow> Some (Internal, s\<lparr>queue := q, worker := W_Exited\<rparr>)
      | (Job j, q) \<Rightarrow> Some (Taken j, s\<lparr>queue := q, worker := W_Run j\<rparr>))"

definition set_stopping :: "job_queue \<Rightarrow> job_queue" where
  "set_stopping q = q\<lparr>stopping := True\<rparr>"

inductive worker_step :: "system \<Rightarrow> event \<Rightarrow> system \<Rightarrow> bool" where
  take: "worker s = W_Loop \<Longrightarrow> worker_take s = Some (e, s') \<Longrightarrow> worker_step s e s'"
| serve: "worker s = W_Run j \<Longrightarrow>
    worker_step s (Served j) (s\<lparr>job_done := (job_done s)(j := True), worker := W_Loop\<rparr>)"

inductive client_step :: "system \<Rightarrow> event \<Rightarrow> system \<Rightarrow> bool" where
  reply: "client s j = C_Parse \<Longrightarrow>
    client_step s Internal (s\<lparr>client := (client s)(j := C_Close)\<rparr>)"
| submit: "client s j = C_Parse \<Longrightarrow> client_submit j s = (True, s') \<Longrightarrow>
    client_step s (Submitted j) s'"
| refuse: "client s j = C_Parse \<Longrightarrow> client_submit j s = (False, s') \<Longrightarrow>
    client_step s (Refused j) s'"
| wake: "client s j = C_Wait \<Longrightarrow> job_done s j \<Longrightarrow>
    client_step s Internal (s\<lparr>client := (client s)(j := C_Close)\<rparr>)"
| leave: "client s j = C_Close \<Longrightarrow>
    client_step s Internal (s\<lparr>queue := client_done (queue s), client := (client s)(j := C_Gone)\<rparr>)"

inductive main_step :: "system \<Rightarrow> event \<Rightarrow> system \<Rightarrow> bool" where
  listening: "main_at s = M_Listen \<Longrightarrow> main_step s Internal (s\<lparr>main_at := M_Accept\<rparr>)"
| listen_failed: "main_at s = M_Listen \<Longrightarrow>
    main_step s Internal (s\<lparr>queue := set_stopping (queue s), main_at := M_Join_Only\<rparr>)"
| joined_only: "main_at s = M_Join_Only \<Longrightarrow> worker s = W_Exited \<Longrightarrow>
    main_step s Internal (s\<lparr>main_at := M_Closed\<rparr>)"
| accepted: "main_at s = M_Accept \<Longrightarrow> client s j = C_None \<Longrightarrow>
    main_step s Internal (s\<lparr>queue := (queue s)\<lparr>clients := clients (queue s) + 1\<rparr>,
                            main_at := M_Spawn j\<rparr>)"
| spawned: "main_at s = M_Spawn j \<Longrightarrow>
    main_step s Internal (s\<lparr>client := (client s)(j := C_Parse), main_at := M_Accept\<rparr>)"
| spawn_failed: "main_at s = M_Spawn j \<Longrightarrow>
    main_step s Internal (s\<lparr>queue := (queue s)\<lparr>clients := clients (queue s) - 1\<rparr>,
                            main_at := M_Accept\<rparr>)"
| stop: "main_at s = M_Accept \<Longrightarrow>
    main_step s Internal (s\<lparr>queue := set_stopping (queue s), main_at := M_Join\<rparr>)"
| joined: "main_at s = M_Join \<Longrightarrow> worker s = W_Exited \<Longrightarrow>
    main_step s Internal (s\<lparr>main_at := M_Drain\<rparr>)"
| drained: "main_at s = M_Drain \<Longrightarrow> clients (queue s) = 0 \<Longrightarrow>
    main_step s Internal (s\<lparr>main_at := M_Closed\<rparr>)"

inductive_cases worker_stepE: "worker_step s e s'"
inductive_cases client_stepE: "client_step s e s'"
inductive_cases main_stepE: "main_step s e s'"

definition sys_step :: "system \<Rightarrow> event \<Rightarrow> system \<Rightarrow> bool" where
  "sys_step s e s' \<longleftrightarrow> worker_step s e s' \<or> client_step s e s' \<or> main_step s e s'"

inductive execution :: "event list \<Rightarrow> system \<Rightarrow> bool" where
  exec_init: "execution [] sys_init"
| exec_step: "execution es s \<Longrightarrow> sys_step s e s' \<Longrightarrow> execution (es @ [e]) s'"

section \<open>The invariant\<close>

text \<open>
  \<open>live\<close> are the client threads that will still call \<open>client_done\<close>. The waiting jobs that are not
  done are those in the queue and the one the worker serves; the client count is the number
  of live threads, plus one for a thread about to be created.
\<close>

definition live :: "system \<Rightarrow> job set" where
  "live s = {j. client s j \<in> {C_Parse, C_Wait, C_Close}}"

definition spawning :: "system \<Rightarrow> job set" where
  "spawning s = (case main_at s of M_Spawn j \<Rightarrow> {j} | _ \<Rightarrow> {})"

definition serving :: "system \<Rightarrow> job set" where
  "serving s = (case worker s of W_Run j \<Rightarrow> {j} | _ \<Rightarrow> {})"

definition jobs_inv :: "system \<Rightarrow> job list \<Rightarrow> bool" where
  "jobs_inv s q \<longleftrightarrow> queue_rep (queue s) q \<and> set q \<inter> serving s = {} \<and>
     {j. client s j = C_Wait \<and> \<not> job_done s j} = set q \<union> serving s"

definition count_inv :: "system \<Rightarrow> bool" where
  "count_inv s \<longleftrightarrow> finite (live s) \<and> (\<forall>j \<in> spawning s. client s j = C_None) \<and>
     clients (queue s) = card (live s) + card (spawning s)"

definition shutdown_inv :: "system \<Rightarrow> bool" where
  "shutdown_inv s \<longleftrightarrow>
     (stopping (queue s) \<longleftrightarrow> main_at s \<in> {M_Join, M_Drain, M_Join_Only, M_Closed}) \<and>
     (main_at s \<in> {M_Drain, M_Closed} \<longrightarrow> worker s = W_Exited) \<and>
     (main_at s \<in> {M_Listen, M_Join_Only} \<longrightarrow> live s = {}) \<and>
     (main_at s = M_Closed \<longrightarrow> live s = {}) \<and>
     (worker s = W_Exited \<longrightarrow> stopping (queue s) \<and> head (queue s) = None)"

definition sys_inv :: "system \<Rightarrow> bool" where
  "sys_inv s \<longleftrightarrow> (\<exists>q. jobs_inv s q) \<and> count_inv s \<and> shutdown_inv s"

text \<open>What an event does to the list of queued jobs.\<close>

fun queue_event :: "event \<Rightarrow> job list \<Rightarrow> job list \<Rightarrow> bool" where
  "queue_event (Submitted j) q q' \<longleftrightarrow> q' = q @ [j]"
| "queue_event (Taken j) q q' \<longleftrightarrow> q = j # q'"
| "queue_event _ q q' \<longleftrightarrow> q' = q"

lemma queue_rep_frame:
  "head s' = head s \<Longrightarrow> tail s' = tail s \<Longrightarrow> nxt s' = nxt s \<Longrightarrow> queue_rep s' q = queue_rep s q"
  by (simp add: queue_rep_def)

lemma client_submit_cases:
  assumes "jobs_inv s q" and "client s j = C_Parse" and "client_submit j s = (ok, s')"
  shows "ok \<longleftrightarrow> \<not> stopping (queue s)"
    and "jobs_inv s' (if ok then q @ [j] else q)"
proof -
  let ?q0 = "(queue s)\<lparr>nxt := (nxt (queue s))(j := None)\<rparr>"
  have rep: "queue_rep (queue s) q" and w: "set q \<inter> serving s = {}"
    and jobs: "{j. client s j = C_Wait \<and> \<not> job_done s j} = set q \<union> serving s"
    using assms(1) by (auto simp: jobs_inv_def)
  have j: "j \<notin> set q \<union> serving s" using assms(2) by (simp add: jobs [symmetric])
  then have rep0: "queue_rep ?q0 q" using rep by (simp add: queue_rep_def chain_update)
  show ok: "ok \<longleftrightarrow> \<not> stopping (queue s)"
    using assms(3) by (auto simp: client_submit_def enqueue_def Let_def)
  have s': "s' = s\<lparr>queue := snd (enqueue j ?q0), job_done := (job_done s)(j := False),
      client := (client s)(j := if ok then C_Wait else C_Close)\<rparr>" "ok = fst (enqueue j ?q0)"
    using assms(3) by (auto simp: client_submit_def Let_def)
  show "jobs_inv s' (if ok then q @ [j] else q)"
  proof (cases ok)
    case True
    then have "queue_rep (snd (enqueue j ?q0)) (q @ [j])"
      using enqueue_rep(2) [OF rep0] ok j by simp
    moreover have "{k. client s' k = C_Wait \<and> \<not> job_done s' k} =
        insert j {k. client s k = C_Wait \<and> \<not> job_done s k}"
      using True by (auto simp: s'(1))
    ultimately show ?thesis using True w j
      by (auto simp: jobs_inv_def jobs s'(1) serving_def)
  next
    case False
    then have "snd (enqueue j ?q0) = ?q0" using ok by (simp add: enqueue_def)
    moreover have "{k. client s' k = C_Wait \<and> \<not> job_done s' k} =
        {k. client s k = C_Wait \<and> \<not> job_done s k}"
      using False assms(2) by (auto simp: s'(1))
    ultimately show ?thesis using False w rep0
      by (auto simp: jobs_inv_def jobs s'(1) serving_def)
  qed
qed

lemma worker_take_cases:
  assumes "jobs_inv s q" and "worker s = W_Loop" and "worker_take s = Some (e, s')"
  obtains (take) j q' where "q = j # q'" "e = Taken j"
      "s' = s\<lparr>queue := snd (dequeue (queue s)), worker := W_Run j\<rparr>" "jobs_inv s' q'"
  | (exits) "q = []" "e = Internal" "stopping (queue s)" "s' = s\<lparr>worker := W_Exited\<rparr>" "jobs_inv s' q"
proof -
  have rep: "queue_rep (queue s) q" and serving: "serving s = {}"
    and jobs: "{j. client s j = C_Wait \<and> \<not> job_done s j} = set q"
    using assms(1,2) by (auto simp: jobs_inv_def serving_def)
  show thesis
  proof (cases q)
    case Nil
    then have "stopping (queue s)" "e = Internal" "s' = s\<lparr>worker := W_Exited\<rparr>"
      using assms(3) dequeue_rep_Nil [of "queue s"] rep
      by (auto simp: worker_take_def split: if_splits)
    with Nil rep jobs show thesis by (intro exits) (auto simp: jobs_inv_def serving_def)
  next
    case (Cons j q')
    then have d: "fst (dequeue (queue s)) = Job j" "queue_rep (snd (dequeue (queue s))) q'"
      using dequeue_rep_Cons rep by blast+
    then have s': "e = Taken j" "s' = s\<lparr>queue := snd (dequeue (queue s)), worker := W_Run j\<rparr>"
      using assms(3) by (auto simp: worker_take_def split: prod.splits)
    have "jobs_inv s' q'"
      using d(2) jobs Cons rep by (auto simp: jobs_inv_def s'(2) serving_def queue_rep_def)
    with Cons s' show thesis by (intro take)
  qed
qed

lemma jobs_inv_serve:
  assumes "jobs_inv s q" and "worker s = W_Run j"
  shows "jobs_inv (s\<lparr>job_done := (job_done s)(j := True), worker := W_Loop\<rparr>) q"
proof -
  have "{k. client s k = C_Wait \<and> k \<noteq> j \<and> \<not> job_done s k} =
      {k. client s k = C_Wait \<and> \<not> job_done s k} - {j}" by auto
  then show ?thesis using assms by (auto simp: jobs_inv_def serving_def)
qed

lemma jobs_inv_client:
  assumes "jobs_inv s q" and "client s j = C_Wait \<longrightarrow> job_done s j" and "pc \<noteq> C_Wait"
  shows "jobs_inv (s\<lparr>client := (client s)(j := pc)\<rparr>) q"
proof -
  have "{k. (if k = j then pc else client s k) = C_Wait \<and> \<not> job_done s k} =
      {k. client s k = C_Wait \<and> \<not> job_done s k}"
    using assms(2,3) by auto
  then show ?thesis using assms(1) by (simp add: jobs_inv_def serving_def)
qed

lemma jobs_inv_frame:
  assumes "jobs_inv s q" and "head q' = head (queue s)" "tail q' = tail (queue s)"
    "nxt q' = nxt (queue s)"
  shows "jobs_inv (s\<lparr>queue := q', main_at := m\<rparr>) q" "jobs_inv (s\<lparr>queue := q'\<rparr>) q"
    "jobs_inv (s\<lparr>main_at := m\<rparr>) q"
  using assms queue_rep_frame [OF assms(2-4)] by (simp_all add: jobs_inv_def serving_def)

lemma client_done_frame [simp]:
  "head (client_done q) = head q" "tail (client_done q) = tail q" "nxt (client_done q) = nxt q"
  "stopping (client_done q) = stopping q" "clients (client_done q) = clients q - 1"
  by (simp_all add: client_done_def)

lemma set_stopping_frame [simp]:
  "head (set_stopping q) = head q" "tail (set_stopping q) = tail q" "nxt (set_stopping q) = nxt q"
  "stopping (set_stopping q)" "clients (set_stopping q) = clients q"
  by (simp_all add: set_stopping_def)

lemma jobs_inv_step:
  assumes "sys_step s e s'" and inv: "jobs_inv s q"
    and spawn: "\<And>j. main_at s = M_Spawn j \<Longrightarrow> client s j = C_None"
  shows "\<exists>q'. jobs_inv s' q' \<and> queue_event e q q'"
  using assms(1) unfolding sys_step_def
proof (elim disjE)
  assume "worker_step s e s'"
  then show ?thesis
  proof (cases rule: worker_step.cases)
    case take
    from inv take show ?thesis by (cases rule: worker_take_cases) auto
  next
    case (serve j)
    with jobs_inv_serve [OF inv serve(3)] show ?thesis by auto
  qed
next
  assume "client_step s e s'"
  then show ?thesis
  proof (cases rule: client_step.cases)
    case (reply j)
    with jobs_inv_client [OF inv, of j C_Close] show ?thesis by auto
  next
    case (submit j)
    with client_submit_cases(2) [OF inv submit(2,3)] show ?thesis by auto
  next
    case (refuse j)
    with client_submit_cases(2) [OF inv refuse(2,3)] show ?thesis by auto
  next
    case (wake j)
    with jobs_inv_client [OF inv, of j C_Close] show ?thesis by auto
  next
    case (leave j)
    with jobs_inv_client [OF jobs_inv_frame(2) [OF inv, of "client_done (queue s)"], of j C_Gone]
    show ?thesis by auto
  qed
next
  assume "main_step s e s'"
  then show ?thesis
  proof (cases rule: main_step.cases)
    case (spawned j)
    with jobs_inv_frame(3) [OF jobs_inv_client [OF inv, of j C_Parse]] spawn show ?thesis by auto
  qed (use jobs_inv_frame [OF inv] in auto)
qed

text \<open>Only the client threads and the spawning main thread change who is alive.\<close>

definition is_live :: "client_pc \<Rightarrow> bool" where
  "is_live pc \<longleftrightarrow> pc \<in> {C_Parse, C_Wait, C_Close}"

lemma live_upd:
  assumes "client s' = (client s)(j := pc)"
  shows "live s' = (if is_live pc then insert j (live s) else live s - {j})"
  using assms by (auto simp: live_def is_live_def)

lemma count_inv_same:
  assumes "count_inv s" and "client s' = (client s)(j := pc)" and "main_at s' = main_at s"
    and "clients (queue s') = clients (queue s)" and "is_live pc" and "j \<in> live s"
  shows "count_inv s'"
proof -
  have "live s' = live s" using live_upd [OF assms(2)] assms(5,6) by auto
  moreover have "spawning s' = spawning s" by (simp add: spawning_def assms(3))
  moreover have "j \<notin> spawning s" using assms(1,6) by (auto simp: count_inv_def live_def)
  ultimately show ?thesis using assms(1,2,4) by (auto simp: count_inv_def)
qed

lemma count_inv_frame:
  assumes "count_inv s" and "client s' = client s" and "spawning s' = spawning s"
    and "clients (queue s') = clients (queue s)"
  shows "count_inv s'"
  using assms by (simp add: count_inv_def live_def)

lemma client_submit_fields:
  assumes "client_submit j s = (ok, s')"
  shows "client s' = (client s)(j := if ok then C_Wait else C_Close)" "main_at s' = main_at s"
    "clients (queue s') = clients (queue s)" "worker s' = worker s"
    "stopping (queue s') = stopping (queue s)"
    "stopping (queue s) \<Longrightarrow> head (queue s') = head (queue s)"
  using assms by (auto simp: client_submit_def Let_def) (simp_all add: enqueue_def)

lemma worker_take_fields:
  assumes "worker_take s = Some (e, s')"
  shows "client s' = client s" "main_at s' = main_at s" "clients (queue s') = clients (queue s)"
    "stopping (queue s') = stopping (queue s)"
proof -
  obtain d q where d: "dequeue (queue s) = (d, q)" by fastforce
  then have "stopping q = stopping (queue s)" "clients q = clients (queue s)"
    using dequeue_fields [of "queue s"] by simp_all
  then show "client s' = client s" "main_at s' = main_at s"
    "clients (queue s') = clients (queue s)" "stopping (queue s') = stopping (queue s)"
    using assms by (auto simp: worker_take_def d split: dequeued.splits)
qed

lemma count_inv_step:
  assumes "sys_step s e s'" and "count_inv s" and "shutdown_inv s"
  shows "count_inv s'"
  using assms(1) unfolding sys_step_def
proof (elim disjE)
  assume "worker_step s e s'"
  then show ?thesis
    by (cases rule: worker_step.cases)
      (use assms(2) worker_take_fields in \<open>auto intro!: count_inv_frame [of s] simp: spawning_def\<close>)
next
  assume "client_step s e s'"
  then show ?thesis
  proof (cases rule: client_step.cases)
    case (leave j)
    then have live: "live s' = live s - {j}" "j \<in> live s"
      using live_upd [of s' s j C_Gone] by (auto simp: is_live_def live_def)
    have "j \<notin> spawning s" using assms(2) leave(3) by (auto simp: count_inv_def)
    moreover have "spawning s' = spawning s" by (simp add: spawning_def leave)
    moreover have "0 < card (live s)"
      using assms(2) live(2) by (auto simp: count_inv_def card_gt_0_iff)
    ultimately show ?thesis
      using assms(2) live leave by (auto simp: count_inv_def card_Diff_singleton)
  next
    case (submit j)
    then show ?thesis using client_submit_fields [OF submit(3)]
      by (intro count_inv_same [OF assms(2)]) (auto simp: is_live_def live_def)
  next
    case (refuse j)
    then show ?thesis using client_submit_fields [OF refuse(3)]
      by (intro count_inv_same [OF assms(2)]) (auto simp: is_live_def live_def)
  qed (auto intro!: count_inv_same [OF assms(2)] simp: is_live_def live_def)
next
  assume "main_step s e s'"
  then show ?thesis
  proof (cases rule: main_step.cases)
    case (accepted j)
    then show ?thesis using assms(2) by (auto simp: count_inv_def spawning_def live_def)
  next
    case (spawned j)
    then have "live s' = insert j (live s)" "j \<notin> live s"
      using assms(2) live_upd [of s' s j C_Parse]
      by (auto simp: is_live_def count_inv_def spawning_def live_def)
    with spawned show ?thesis using assms(2) by (auto simp: count_inv_def spawning_def)
  next
    case (spawn_failed j)
    then show ?thesis using assms(2) by (auto simp: count_inv_def spawning_def live_def)
  qed (use assms(2) in \<open>auto intro!: count_inv_frame [of s] simp: spawning_def\<close>)
qed

lemma shutdown_inv_step:
  assumes "sys_step s e s'" and "count_inv s" and "shutdown_inv s" and jobs: "jobs_inv s q"
  shows "shutdown_inv s'"
  using assms(1) unfolding sys_step_def
proof (elim disjE)
  assume "worker_step s e s'"
  then show ?thesis
  proof (cases rule: worker_step.cases)
    case take
    from jobs take(1,2) show ?thesis
    proof (cases rule: worker_take_cases)
      case (take j q')
      then show ?thesis using assms(3) \<open>worker s = W_Loop\<close>
        by (auto simp: shutdown_inv_def live_def)
    next
      case exits
      moreover have "head (queue s) = None"
        using jobs exits(1) by (simp add: jobs_inv_def queue_rep_def)
      ultimately show ?thesis using assms(3) \<open>worker s = W_Loop\<close>
        by (auto simp: shutdown_inv_def live_def)
    qed
  next
    case (serve j)
    then show ?thesis using assms(3) by (auto simp: shutdown_inv_def live_def)
  qed
next
  assume "client_step s e s'"
  then show ?thesis
  proof (cases rule: client_step.cases)
    case (submit j)
    then show ?thesis using assms(3) client_submit_fields [OF submit(3)]
      client_submit_cases(1) [OF jobs submit(2,3)]
      by (auto simp: shutdown_inv_def live_def)
  next
    case (refuse j)
    then show ?thesis using assms(3) client_submit_fields [OF refuse(3)]
      client_submit_cases(1) [OF jobs refuse(2,3)]
      by (auto simp: shutdown_inv_def live_def)
  qed (use assms(3) in \<open>auto simp: shutdown_inv_def live_def\<close>)
next
  assume "main_step s e s'"
  then show ?thesis
  proof (cases rule: main_step.cases)
    case drained
    then have "live s = {}" using assms(2) by (auto simp: count_inv_def)
    with drained show ?thesis using assms(3) by (auto simp: shutdown_inv_def live_def)
  qed (use assms(3) in \<open>auto simp: shutdown_inv_def live_def\<close>)
qed

lemma sys_inv_init: "jobs_inv sys_init [] \<and> count_inv sys_init \<and> shutdown_inv sys_init"
  by (simp add: sys_init_def jobs_inv_def count_inv_def shutdown_inv_def queue_rep_def live_def
      spawning_def serving_def)

text \<open>The jobs that entered the queue and those that left it, in order.\<close>

definition submitted :: "event list \<Rightarrow> job list" where
  "submitted es = concat (map (\<lambda>e. case e of Submitted j \<Rightarrow> [j] | _ \<Rightarrow> []) es)"

definition taken :: "event list \<Rightarrow> job list" where
  "taken es = concat (map (\<lambda>e. case e of Taken j \<Rightarrow> [j] | _ \<Rightarrow> []) es)"

lemma execution_inv:
  "execution es s \<Longrightarrow> \<exists>q. jobs_inv s q \<and> count_inv s \<and> shutdown_inv s \<and> submitted es = taken es @ q"
proof (induction rule: execution.induct)
  case exec_init
  then show ?case using sys_inv_init by (auto simp: submitted_def taken_def)
next
  case (exec_step es s e s')
  then obtain q where q: "jobs_inv s q" "count_inv s" "shutdown_inv s" "submitted es = taken es @ q"
    by blast
  have "client s j = C_None" if "main_at s = M_Spawn j" for j
    using q(2) that by (simp add: count_inv_def spawning_def)
  with jobs_inv_step [OF exec_step(2) q(1)] obtain q' where
    q': "jobs_inv s' q'" "queue_event e q q'" by blast
  have "submitted (es @ [e]) = taken (es @ [e]) @ q'"
    using q(4) q'(2) by (cases e) (auto simp: submitted_def taken_def)
  with q' count_inv_step [OF exec_step(2) q(2,3)] shutdown_inv_step [OF exec_step(2) q(2,3,1)]
  show ?case by blast
qed

section \<open>Runs\<close>

text \<open>
  An infinite run, with stuttering when no thread moves. The worker is enabled unless it has exited
  or waits for a job, and it is scheduled fairly: again and again it is either disabled or takes
  a step. A step \<open>serve\<close> stands for a call of \<open>generate_job\<close> that returns.
\<close>

definition is_run :: "(nat \<Rightarrow> system) \<Rightarrow> bool" where
  "is_run \<sigma> \<longleftrightarrow> \<sigma> 0 = sys_init \<and> (\<forall>i. \<sigma> (Suc i) = \<sigma> i \<or> (\<exists>e. sys_step (\<sigma> i) e (\<sigma> (Suc i))))"

definition worker_enabled :: "system \<Rightarrow> bool" where
  "worker_enabled s \<longleftrightarrow> (\<exists>e s'. worker_step s e s')"

definition worker_fair :: "(nat \<Rightarrow> system) \<Rightarrow> bool" where
  "worker_fair \<sigma> \<longleftrightarrow>
     (\<forall>i. \<exists>k \<ge> i. \<not> worker_enabled (\<sigma> k) \<or> (\<exists>e. worker_step (\<sigma> k) e (\<sigma> (Suc k))))"

lemma run_inv:
  assumes "is_run \<sigma>"
  shows "\<exists>q. jobs_inv (\<sigma> i) q \<and> count_inv (\<sigma> i) \<and> shutdown_inv (\<sigma> i)"
proof -
  have "\<exists>es. execution es (\<sigma> i)"
  proof (induction i)
    case 0
    then show ?case using assms exec_init by (auto simp: is_run_def)
  next
    case (Suc i)
    then show ?case using assms exec_step by (metis is_run_def)
  qed
  then show ?thesis using execution_inv by blast
qed

text \<open>How many worker steps a waiting job is away from being served.\<close>

definition waiting_at :: "system \<Rightarrow> job \<Rightarrow> nat \<Rightarrow> bool" where
  "waiting_at s j n \<longleftrightarrow>
     client s j = C_Wait \<and> \<not> job_done s j \<and>
     (\<exists>q. jobs_inv s q \<and>
       (if worker s = W_Run j then n = 0
        else \<exists>i < length q. q ! i = j \<and> n = 2 * i + 1 + (if serving s = {} then 0 else 1)))"

lemma waiting_at_exists:
  assumes "jobs_inv s q" and "client s j = C_Wait" and "\<not> job_done s j"
  shows "\<exists>n. waiting_at s j n"
proof (cases "worker s = W_Run j")
  case False
  have "j \<in> {k. client s k = C_Wait \<and> \<not> job_done s k}" using assms by simp
  then have "j \<in> set q \<union> serving s" using assms(1) by (simp only: jobs_inv_def)
  with False have "j \<in> set q" by (simp add: serving_def split: worker_pc.splits)
  with assms False show ?thesis by (auto simp: waiting_at_def in_set_conv_nth)
qed (use assms in \<open>auto simp: waiting_at_def\<close>)

lemma waiting_at_enabled:
  assumes "waiting_at s j n" and "shutdown_inv s"
  shows "worker_enabled s"
proof (cases "worker s")
  case (W_Run k)
  then show ?thesis by (auto simp: worker_enabled_def intro: serve)
next
  case W_Loop
  with assms(1) obtain k q where "jobs_inv s (k # q)"
    by (auto simp: waiting_at_def) (metis length_pos_if_in_set list.exhaust_sel nth_mem
        list.size(3) not_less_zero)
  then have "fst (dequeue (queue s)) = Job k" by (intro dequeue_rep_Cons(1) [of _ k q]) (simp add: jobs_inv_def)
  then have "\<exists>s'. worker_take s = Some (Taken k, s')"
    by (cases "dequeue (queue s)") (simp add: worker_take_def)
  with W_Loop show ?thesis by (auto simp: worker_enabled_def intro: take)
next
  case W_Exited
  with assms have "head (queue s) = None" "serving s = {}"
    by (auto simp: shutdown_inv_def serving_def)
  with assms(1) W_Exited show ?thesis
    by (auto simp: waiting_at_def jobs_inv_def head_rep split: list.splits)
qed

lemma worker_progress:
  assumes "waiting_at s j n" and "worker_step s e s'"
  shows "job_done s' j \<or> (\<exists>m < n. waiting_at s' j m)"
  using assms(2)
proof (cases rule: worker_step.cases)
  case take
  then have ser: "serving s = {}" by (simp add: serving_def)
  with assms(1) take(1) obtain q i where w: "jobs_inv s q" "client s j = C_Wait" "\<not> job_done s j"
      "i < length q" "q ! i = j" "n = 2 * i + 1"
    by (auto simp: waiting_at_def)
  from w(1) take(1,2) show ?thesis
  proof (cases rule: worker_take_cases)
    case (take k q')
    show ?thesis
    proof (cases i)
      case 0
      with w take have "waiting_at s' j 0" by (auto simp: waiting_at_def)
      with w(6) show ?thesis by auto
    next
      case (Suc i')
      have "distinct q" using w(1) by (simp add: jobs_inv_def queue_rep_def)
      then have "k \<noteq> j" using w(4,5) take(1) Suc by auto
      with w take Suc have "waiting_at s' j (2 * i' + 2)"
        by (auto simp: waiting_at_def serving_def intro!: exI [of _ q'] exI [of _ i'])
      with w(6) Suc show ?thesis by auto
    qed
  next
    case exits
    with w(4) show ?thesis by simp
  qed
next
  case (serve k)
  show ?thesis
  proof (cases "k = j")
    case True
    with serve show ?thesis by simp
  next
    case False
    with assms(1) serve obtain q i where w: "jobs_inv s q" "client s j = C_Wait" "\<not> job_done s j"
        "i < length q" "q ! i = j" "n = 2 * i + 2"
      by (auto simp: waiting_at_def serving_def)
    with serve False jobs_inv_serve [OF w(1) serve(3)] have "waiting_at s' j (2 * i + 1)"
      by (auto simp: waiting_at_def serving_def)
    with w(6) show ?thesis by auto
  qed
qed

lemma other_steps_fields:
  assumes "client_step s e s' \<or> main_step s e s'" and "client s j = C_Wait" and "\<not> job_done s j"
    and "count_inv s"
  shows "worker s' = worker s" "client s' j = C_Wait" "\<not> job_done s' j"
    and "queue_event e q q' \<Longrightarrow> \<exists>r. q' = q @ r"
proof -
  have spawn: "main_at s \<noteq> M_Spawn j"
    using assms(2,4) by (auto simp: count_inv_def spawning_def)
  have "worker s' = worker s \<and> client s' j = C_Wait \<and> \<not> job_done s' j \<and>
      (queue_event e q q' \<longrightarrow> (\<exists>r. q' = q @ r))"
    using assms(1)
  proof
    assume "client_step s e s'"
    then show ?thesis
      using assms(2,3) by (cases rule: client_step.cases)
        (auto simp: client_submit_def Let_def split: if_splits)
  next
    assume "main_step s e s'"
    then show ?thesis using assms(2,3) spawn by (cases rule: main_step.cases) auto
  qed
  then show "worker s' = worker s" "client s' j = C_Wait" "\<not> job_done s' j"
    "queue_event e q q' \<Longrightarrow> \<exists>r. q' = q @ r" by blast+
qed

lemma other_steps:
  assumes "waiting_at s j n" and "client_step s e s' \<or> main_step s e s'" and "count_inv s"
  shows "waiting_at s' j n"
proof -
  obtain q where w: "client s j = C_Wait" "\<not> job_done s j" "jobs_inv s q"
    and n: "if worker s = W_Run j then n = 0
        else \<exists>i < length q. q ! i = j \<and> n = 2 * i + 1 + (if serving s = {} then 0 else 1)"
    using assms(1) by (auto simp: waiting_at_def)
  note f = other_steps_fields [OF assms(2) w(1,2) assms(3)]
  have "client s k = C_None" if "main_at s = M_Spawn k" for k
    using assms(3) that by (simp add: count_inv_def spawning_def)
  with jobs_inv_step [OF _ w(3), of e s'] assms(2) obtain q' where
    q': "jobs_inv s' q'" "queue_event e q q'" unfolding sys_step_def by blast
  from f(4) [OF q'(2)] obtain r where r: "q' = q @ r" by blast
  have "serving s' = serving s" by (simp add: serving_def f(1))
  with n f q'(1) r show ?thesis
    by (auto simp: waiting_at_def nth_append split: if_splits intro!: exI [of _ q'])
qed

lemma served_eventually:
  assumes "is_run \<sigma>" and "worker_fair \<sigma>"
  shows "waiting_at (\<sigma> i) j n \<Longrightarrow> \<exists>k \<ge> i. job_done (\<sigma> k) j"
proof (induction n arbitrary: i rule: less_induct)
  case (less n)
  let ?step = "\<lambda>k. \<exists>e. worker_step (\<sigma> k) e (\<sigma> (Suc k))"
  have stays: "waiting_at (\<sigma> k) j n" if "i \<le> k" "\<forall>l. i \<le> l \<and> l < k \<longrightarrow> \<not> ?step l" for k
    using that
  proof (induction k rule: dec_induct)
    case base
    then show ?case using less.prems by simp
  next
    case (step k)
    then have "waiting_at (\<sigma> k) j n" "\<not> ?step k" by auto
    moreover have "\<sigma> (Suc k) = \<sigma> k \<or> (\<exists>e. sys_step (\<sigma> k) e (\<sigma> (Suc k)))"
      using assms(1) by (simp add: is_run_def)
    ultimately show ?case
      using run_inv [OF assms(1), of k] other_steps unfolding sys_step_def by metis
  qed
  obtain k where k: "i \<le> k" "?step k" "\<forall>l. i \<le> l \<and> l < k \<longrightarrow> \<not> ?step l"
  proof -
    obtain m where m: "i \<le> m" "\<not> worker_enabled (\<sigma> m) \<or> ?step m"
      using assms(2) unfolding worker_fair_def by blast
    have "\<exists>l. i \<le> l \<and> ?step l"
    proof (rule ccontr)
      assume n: "\<not> ?thesis"
      then have "waiting_at (\<sigma> m) j n" using stays [OF m(1)] by blast
      then have "worker_enabled (\<sigma> m)"
        using waiting_at_enabled run_inv [OF assms(1), of m] by blast
      with m n show False by blast
    qed
    then show thesis
      using exists_least_iff [of "\<lambda>l. i \<le> l \<and> ?step l"] that by blast
  qed
  from stays [OF k(1,3)] k(2) worker_progress
  have "job_done (\<sigma> (Suc k)) j \<or> (\<exists>m < n. waiting_at (\<sigma> (Suc k)) j m)" by blast
  then show ?case
  proof
    assume "job_done (\<sigma> (Suc k)) j"
    with k(1) show ?thesis by (meson le_SucI)
  next
    assume "\<exists>m < n. waiting_at (\<sigma> (Suc k)) j m"
    with less.IH [of _ "Suc k"] k(1) show ?thesis by (meson Suc_leD le_SucI le_trans)
  qed
qed

end
