(* ===== verification/Job_Properties.thy ===== *)
theory Job_Properties
  imports Job_Queue
begin

text \<open>
  What the queue and the threads of the server guarantee, and an example run with one client that
  is served.
\<close>

section \<open>An example run\<close>

definition ex_listening :: system where
  "ex_listening = sys_init\<lparr>main_at := M_Accept\<rparr>"

definition ex_spawning :: system where
  "ex_spawning = ex_listening\<lparr>queue := (queue ex_listening)\<lparr>clients := 1\<rparr>, main_at := M_Spawn 0\<rparr>"

definition ex_parsing :: system where
  "ex_parsing = ex_spawning\<lparr>client := (client ex_spawning)(0 := C_Parse), main_at := M_Accept\<rparr>"

definition ex_waiting :: system where
  "ex_waiting = snd (client_submit 0 ex_parsing)"

definition ex_running :: system where
  "ex_running = snd (the (worker_take ex_waiting))"

definition ex_served :: system where
  "ex_served = ex_running\<lparr>job_done := (job_done ex_running)(0 := True), worker := W_Loop\<rparr>"

definition ex_run :: "nat \<Rightarrow> system" where
  "ex_run i = [sys_init, ex_listening, ex_spawning, ex_parsing, ex_waiting, ex_running, ex_served]
     ! min i 6"

lemmas ex_defs = ex_served_def ex_running_def ex_waiting_def ex_parsing_def ex_spawning_def
  ex_listening_def sys_init_def client_submit_def worker_take_def enqueue_def dequeue_def

lemma ex_steps:
  "main_step sys_init Internal ex_listening"
  "main_step ex_listening Internal ex_spawning"
  "main_step ex_spawning Internal ex_parsing"
  "client_step ex_parsing (Submitted 0) ex_waiting"
  "worker_step ex_waiting (Taken 0) ex_running"
  "worker_step ex_running (Served 0) ex_served"
proof -
  show "main_step sys_init Internal ex_listening"
    unfolding ex_listening_def by (rule listening) (simp add: sys_init_def)
  have "main_step ex_listening Internal
      (ex_listening\<lparr>queue := (queue ex_listening)\<lparr>clients := clients (queue ex_listening) + 1\<rparr>,
        main_at := M_Spawn 0\<rparr>)"
    by (rule accepted) (simp_all add: ex_defs)
  then show "main_step ex_listening Internal ex_spawning"
    by (simp add: ex_spawning_def) (simp add: ex_defs)
  show "main_step ex_spawning Internal ex_parsing"
    unfolding ex_parsing_def by (rule spawned) (simp add: ex_defs)
  show "client_step ex_parsing (Submitted 0) ex_waiting"
    by (rule submit) (simp_all add: ex_defs Let_def)
  show "worker_step ex_waiting (Taken 0) ex_running"
    by (rule take) (simp_all add: ex_defs Let_def)
  show "worker_step ex_running (Served 0) ex_served"
    unfolding ex_served_def by (rule serve) (simp add: ex_defs Let_def)
qed

lemma ex_execution:
  "execution [Internal, Internal, Internal, Submitted 0] ex_waiting"
  "execution [Internal, Internal, Internal, Submitted 0, Taken 0] ex_running"
proof -
  have st: "sys_step sys_init Internal ex_listening" "sys_step ex_listening Internal ex_spawning"
    "sys_step ex_spawning Internal ex_parsing" "sys_step ex_parsing (Submitted 0) ex_waiting"
    using ex_steps by (simp_all add: sys_step_def)
  from exec_step [OF exec_step [OF exec_step [OF exec_step [OF exec_init st(1)] st(2)] st(3)] st(4)]
  show w: "execution [Internal, Internal, Internal, Submitted 0] ex_waiting" by simp
  from exec_step [OF w, of "Taken 0" ex_running] ex_steps(5)
  show "execution [Internal, Internal, Internal, Submitted 0, Taken 0] ex_running"
    by (simp add: sys_step_def)
qed

section \<open>Properties\<close>

text \<open>
  C19: The linked list of the server implements a FIFO buffer: in every execution the jobs that the
  worker has taken, followed by the jobs in the list, are the submitted jobs in their
  order. No job is lost, duplicated or overtaken.
\<close>

theorem queue_refines_fifo:
  assumes "execution es s"
  shows "\<exists>q. queue_rep (queue s) q \<and> submitted es = taken es @ q"
  using execution_inv [OF assms] by (auto simp: jobs_inv_def)

theorem queue_refines_fifo_witness:
  "(\<exists>q. queue_rep (queue ex_waiting) q \<and>
      submitted [Internal, Internal, Internal, Submitted 0] =
        taken [Internal, Internal, Internal, Submitted 0] @ q)"
  by (rule queue_refines_fifo [OF ex_execution(1)])

text \<open>
  C20: The main thread releases the shared resources only after the worker has exited and no client
  thread is left, the worker exits only with an empty queue, and then no client waits for a job
  that is not done.
\<close>

theorem shutdown_is_safe:
  assumes "execution es s"
  shows "(main_at s = M_Closed \<longrightarrow> worker s = W_Exited \<and> live s = {}) \<and>
    (worker s = W_Exited \<longrightarrow>
      head (queue s) = None \<and> (\<forall>j. client s j = C_Wait \<longrightarrow> job_done s j))"
proof -
  obtain q where i: "jobs_inv s q" "shutdown_inv s" using execution_inv [OF assms] by blast
  show ?thesis
  proof (intro conjI impI allI)
    fix j
    assume w: "worker s = W_Exited" and j: "client s j = C_Wait"
    then have "q = []" using i by (auto simp: shutdown_inv_def jobs_inv_def head_rep split: list.splits)
    with w i(1) j show "job_done s j" by (auto simp: jobs_inv_def serving_def)
  qed (use i(2) in \<open>auto simp: shutdown_inv_def\<close>)
qed

text \<open>The shutdown after a failed \<open>listen\<close>.\<close>

definition ex_stopping :: system where
  "ex_stopping = sys_init\<lparr>queue := set_stopping (queue sys_init), main_at := M_Join_Only\<rparr>"

definition ex_exited :: system where
  "ex_exited = snd (the (worker_take ex_stopping))"

definition ex_closed :: system where
  "ex_closed = ex_exited\<lparr>main_at := M_Closed\<rparr>"

lemma ex_closed_execution: "execution [Internal, Internal, Internal] ex_closed"
proof -
  have "main_step sys_init Internal ex_stopping"
    unfolding ex_stopping_def by (rule listen_failed) (simp add: sys_init_def)
  moreover have "worker_step ex_stopping Internal ex_exited"
    by (rule take) (simp_all add: ex_exited_def ex_stopping_def set_stopping_def ex_defs)
  moreover have "main_step ex_exited Internal ex_closed"
    unfolding ex_closed_def
    by (rule joined_only) (simp_all add: ex_exited_def ex_stopping_def set_stopping_def ex_defs)
  ultimately have "sys_step sys_init Internal ex_stopping" "sys_step ex_stopping Internal ex_exited"
    "sys_step ex_exited Internal ex_closed" by (simp_all add: sys_step_def)
  from exec_step [OF exec_step [OF exec_step [OF exec_init this(1)] this(2)] this(3)]
  show ?thesis by simp
qed

theorem shutdown_is_safe_witness:
  "worker ex_closed = W_Exited \<and> live ex_closed = {} \<and> head (queue ex_closed) = None"
  using shutdown_is_safe [OF ex_closed_execution] by (simp add: ex_closed_def)

text \<open>
  C21: In every run in which the worker is scheduled fairly and each call of \<open>generate_job\<close> returns,
  a client that waits for its job is eventually served, shutdown or not.
\<close>

theorem waiting_job_is_served:
  assumes "is_run \<sigma>" and "worker_fair \<sigma>" and "client (\<sigma> i) j = C_Wait"
  shows "\<exists>k \<ge> i. job_done (\<sigma> k) j"
proof (cases "job_done (\<sigma> i) j")
  case False
  from run_inv [OF assms(1)] obtain q where "jobs_inv (\<sigma> i) q" by blast
  from waiting_at_exists [OF this assms(3) False] served_eventually [OF assms(1,2)]
  show ?thesis by blast
qed auto

lemma ex_is_run: "is_run ex_run"
proof -
  have "\<exists>e. sys_step (ex_run i) e (ex_run (Suc i))" if "i \<in> {0, 1, 2, 3, 4, 5}" for i
    using that ex_steps by (auto simp: ex_run_def sys_step_def numeral_eq_Suc)
  moreover have "ex_run (Suc i) = ex_run i" if "i \<notin> {0, 1, 2, 3, 4, 5}" for i
    using that by (auto simp: ex_run_def min_def)
  ultimately have "ex_run (Suc i) = ex_run i \<or> (\<exists>e. sys_step (ex_run i) e (ex_run (Suc i)))" for i
    by blast
  moreover have "ex_run 0 = sys_init" by (simp add: ex_run_def)
  ultimately show ?thesis unfolding is_run_def by blast
qed

lemma ex_is_fair: "worker_fair ex_run"
proof -
  have "\<not> worker_enabled ex_served"
    by (auto simp: worker_enabled_def elim!: worker_stepE)
      (simp_all add: ex_defs Let_def)
  then have "\<not> worker_enabled (ex_run (max i 6))" for i
    by (simp add: ex_run_def min_def max_def)
  then show ?thesis unfolding worker_fair_def by (metis max.cobounded1)
qed

theorem waiting_job_is_served_witness: "\<exists>k \<ge> 4. job_done (ex_run k) 0"
  by (rule waiting_job_is_served [OF ex_is_run ex_is_fair])
    (simp add: ex_run_def ex_defs Let_def)

end
