(* ===== verification/Search.thy ===== *)
theory Search
  imports Prelude
begin

text \<open>
  Substring search shared by the text handling of the server: the position \<open>strstr\<close> and
  \<open>find_lit_bounded\<close> report, \<open>memchr\<close>, and how occurrences behave when text is appended.
\<close>

fun strstr_pos :: "string \<Rightarrow> string \<Rightarrow> nat option" where
  "strstr_pos [] needle = (if needle = [] then Some 0 else None)"
| "strstr_pos (c # s) needle =
     (if starts_with (c # s) needle then Some 0 else map_option Suc (strstr_pos s needle))"

definition memchr_pos :: "string \<Rightarrow> char \<Rightarrow> nat option" where
  "memchr_pos s c = find_index (\<lambda>d. d = c) s"

definition occurs_at :: "string \<Rightarrow> string \<Rightarrow> nat \<Rightarrow> bool" where
  "occurs_at t s q \<longleftrightarrow> q \<le> length t \<and> starts_with (drop q t) s"

lemma starts_with_append: "starts_with s p \<Longrightarrow> starts_with (s @ t) p"
  by (auto simp: starts_with_iff)

lemma starts_with_appendD: "starts_with (s @ t) p \<Longrightarrow> length p \<le> length s \<Longrightarrow> starts_with s p"
  by (auto simp: starts_with_iff append_eq_append_conv2)

lemma starts_with_length: "starts_with s p \<Longrightarrow> length p \<le> length s"
  by (auto simp: starts_with_iff)

lemma starts_with_Nil [simp]: "starts_with [] p \<longleftrightarrow> p = []"
  by (cases p) auto

lemma occurs_at_length: "occurs_at t s q \<Longrightarrow> q + length s \<le> length t"
  by (auto simp: occurs_at_def dest: starts_with_length)

lemma occurs_at_iff: "occurs_at t s q \<longleftrightarrow> (\<exists>u v. t = u @ s @ v \<and> length u = q)"
proof
  assume "occurs_at t s q"
  then obtain v where "drop q t = s @ v" "q \<le> length t"
    by (auto simp: occurs_at_def starts_with_iff)
  then show "\<exists>u v. t = u @ s @ v \<and> length u = q"
    using append_take_drop_id [of q t]
    by (intro exI [of _ "take q t"] exI [of _ v]) (simp only: length_take, simp)
qed (auto simp: occurs_at_def starts_with_iff)

lemma occurs_at_append:
  assumes "occurs_at t s q"
  shows "occurs_at (t @ u) s q"
  using assms starts_with_append [of "drop q t" s "drop (q - length t) u"]
  by (simp add: occurs_at_def)

lemma occurs_at_appendD:
  assumes "occurs_at (t @ u) s q" and "q + length s \<le> length t"
  shows "occurs_at t s q"
  using assms starts_with_appendD [of "drop q t" "drop (q - length t) u" s]
  by (auto simp: occurs_at_def)

lemma occurs_at_take: "occurs_at (take n t) s q \<Longrightarrow> occurs_at t s q"
  using occurs_at_append [of "take n t" s q "drop n t"] by simp

lemma occurs_at_drop: "k \<le> length t \<Longrightarrow> occurs_at (drop k t) s q \<longleftrightarrow> occurs_at t s (k + q)"
  by (auto simp: occurs_at_def add.commute)

text \<open>The search returns the first occurrence.\<close>

lemma all_less_Suc_split: "(\<forall>j < Suc k. P j) \<longleftrightarrow> P 0 \<and> (\<forall>j < k. P (Suc j))"
  using less_Suc_eq_0_disj by auto

lemma strstr_pos_Some_iff:
  "strstr_pos t s = Some q \<longleftrightarrow> occurs_at t s q \<and> (\<forall>j < q. \<not> occurs_at t s j)"
proof (induction t arbitrary: q)
  case Nil
  then show ?case by (auto simp: occurs_at_def)
next
  case (Cons c t)
  have suc: "occurs_at (c # t) s (Suc j) \<longleftrightarrow> occurs_at t s j" for j
    by (auto simp: occurs_at_def)
  show ?case
  proof (cases "starts_with (c # t) s")
    case True
    then have "occurs_at (c # t) s 0" by (simp add: occurs_at_def)
    with True show ?thesis by (auto intro: gr0I)
  next
    case False
    then have no: "\<not> occurs_at (c # t) s 0" by (simp add: occurs_at_def)
    show ?thesis
    proof (cases q)
      case 0
      with False no show ?thesis by simp
    next
      case (Suc k)
      then have "strstr_pos (c # t) s = Some q \<longleftrightarrow> strstr_pos t s = Some k" using False by auto
      also have "\<dots> \<longleftrightarrow> occurs_at t s k \<and> (\<forall>j < k. \<not> occurs_at t s j)" by (rule Cons)
      also have "\<dots> \<longleftrightarrow> occurs_at (c # t) s q \<and> (\<forall>j < q. \<not> occurs_at (c # t) s j)"
        using no suc by (simp only: Suc all_less_Suc_split) simp
      finally show ?thesis .
    qed
  qed
qed

lemma strstr_pos_None_iff: "strstr_pos t s = None \<longleftrightarrow> (\<forall>q. \<not> occurs_at t s q)"
proof
  assume "\<forall>q. \<not> occurs_at t s q"
  then show "strstr_pos t s = None" using strstr_pos_Some_iff by (metis not_Some_eq)
next
  assume none: "strstr_pos t s = None"
  show "\<forall>q. \<not> occurs_at t s q"
  proof (rule ccontr)
    assume "\<not> ?thesis"
    then obtain q where "occurs_at t s q" "\<forall>j < q. \<not> occurs_at t s j"
      using exists_least_iff [of "occurs_at t s"] by blast
    then have "strstr_pos t s = Some q" by (simp add: strstr_pos_Some_iff)
    with none show False by simp
  qed
qed

lemma strstr_pos_append: "strstr_pos t s = Some q \<Longrightarrow> strstr_pos (t @ u) s = Some q"
proof -
  assume a: "strstr_pos t s = Some q"
  have "\<not> occurs_at (t @ u) s j" if "j < q" for j
  proof
    assume o: "occurs_at (t @ u) s j"
    have "q + length s \<le> length t" using a occurs_at_length strstr_pos_Some_iff by blast
    with that have "occurs_at t s j" by (intro occurs_at_appendD [OF o]) simp
    with a that show False by (auto simp: strstr_pos_Some_iff)
  qed
  with a show ?thesis by (auto simp: strstr_pos_Some_iff occurs_at_append)
qed

lemma memchr_pos_append: "memchr_pos t c = Some q \<Longrightarrow> memchr_pos (t @ u) c = Some q"
  unfolding memchr_pos_def by (induction t arbitrary: q) (auto split: if_splits option.splits)

lemma memchr_pos_less: "memchr_pos t c = Some q \<Longrightarrow> q < length t \<and> t ! q = c"
  unfolding memchr_pos_def using find_index_SomeD by fast

end
