(* ===== verification/Stream_Text.thy ===== *)
theory Stream_Text
  imports Search Json
begin

text \<open>
  Streaming of generated text (\<open>ds4_server.c\<close>): the stop sequences of a request, the length that can
  be sent without cutting a stop sequence or a UTF-8 character, and the part of the token loop of
  \<open>generate_job\<close> that appends a token's text, looks for a stop sequence and sends a chunk.
\<close>

section \<open>Stop sequences\<close>

record stop_list =
  stops :: "string list"
  max_len :: nat

definition stop_list_empty :: stop_list where
  "stop_list_empty = \<lparr>stops = [], max_len = 0\<rparr>"

definition stop_list_push :: "stop_list \<Rightarrow> string \<Rightarrow> stop_list" where
  "stop_list_push sl s =
     (if s = [] then sl
      else \<lparr>stops = stops sl @ [s], max_len = (if length s > max_len sl then length s else max_len sl)\<rparr>)"

text \<open>
  \<open>parse_stop\<close>: a string or an array whose strings are pushed, each as the C string it is; other
  values are skipped.
\<close>

function parse_stop_loop :: "string \<Rightarrow> stop_list \<Rightarrow> (stop_list \<times> string) option" where
  "parse_stop_loop [] sl = None"
| "parse_stop_loop (c # s) sl =
     (if c = CHR '']'' then Some (sl, s)
      else if c = CHR 0x22 then
        (case json_string (c # s) of
           None \<Rightarrow> None
         | Some (v, s1) \<Rightarrow> parse_stop_loop (skip_comma s1) (stop_list_push sl (c_str v)))
      else
        (case json_skip_value (c # s) of
           None \<Rightarrow> None
         | Some s1 \<Rightarrow> parse_stop_loop (skip_comma s1) sl))"
  by pat_completeness auto
termination
proof (relation "measure (\<lambda>(s, sl). length s)", goal_cases)
  case (2 c s sl p v s1)
  then show ?case using skip_comma_length [of s1] by (auto dest!: json_string_length)
next
  case (3 c s sl s1)
  then show ?case using skip_comma_length [of s1] by (auto dest!: json_skip_value_length)
qed simp

definition parse_stop :: "string \<Rightarrow> (stop_list \<times> string) option" where
  "parse_stop s =
     (case json_ws s of
        [] \<Rightarrow> map_option (\<lambda>r. (stop_list_empty, r)) (json_skip_value [])
      | c # s1 \<Rightarrow>
          if c = CHR 0x22 then
            map_option (\<lambda>(v, r). (stop_list_push stop_list_empty (c_str v), r)) (json_string (c # s1))
          else if c \<noteq> CHR ''['' then map_option (\<lambda>r. (stop_list_empty, r)) (json_skip_value (c # s1))
          else parse_stop_loop (json_ws s1) stop_list_empty)"

text \<open>The first of the positions at which a stop sequence occurs, from \<open>from\<close> on.\<close>

definition stop_find_step :: "string \<Rightarrow> nat \<Rightarrow> string \<Rightarrow> (nat \<times> nat) option \<Rightarrow> (nat \<times> nat) option" where
  "stop_find_step text from s best =
     (case strstr_pos (c_str (drop from text)) s of
        None \<Rightarrow> best
      | Some k \<Rightarrow>
          (case best of
             None \<Rightarrow> Some (from + k, length s)
           | Some (bp, bl) \<Rightarrow> if from + k < bp then Some (from + k, length s) else best))"

definition stop_list_find_from :: "stop_list \<Rightarrow> string \<Rightarrow> nat \<Rightarrow> (nat \<times> nat) option" where
  "stop_list_find_from sl text from = fold (stop_find_step text from) (stops sl) None"

definition stop_list_stream_safe_len :: "stop_list \<Rightarrow> nat \<Rightarrow> nat" where
  "stop_list_stream_safe_len sl text_len =
     (if stops sl = [] \<or> max_len sl \<le> 1 then text_len
      else let hold = max_len sl - 1 in if text_len > hold then text_len - hold else 0)"

section \<open>UTF-8\<close>

definition utf8_expected_len :: "char \<Rightarrow> nat" where
  "utf8_expected_len c =
     (let b = byte c in
      if b < 0x80 then 1
      else if 0xc2 \<le> b \<and> b \<le> 0xdf then 2
      else if 0xe0 \<le> b \<and> b \<le> 0xef then 3
      else if 0xf0 \<le> b \<and> b \<le> 0xf4 then 4
      else 1)"

text \<open>\<open>(c & 0xc0) == 0x80\<close>\<close>

definition is_cont :: "char \<Rightarrow> bool" where
  "is_cont c \<longleftrightarrow> byte c div 64 = 2"

function utf8_back :: "string \<Rightarrow> nat \<Rightarrow> nat \<Rightarrow> nat \<Rightarrow> nat" where
  "utf8_back s start p cont =
     (if p > start \<and> cont < 4 \<and> is_cont (s ! (p - 1)) then utf8_back s start (p - 1) (cont + 1) else p)"
  by pat_completeness auto
termination
  by (relation "measure (\<lambda>(s, start, p, cont). p)") auto

declare utf8_back.simps [simp del]

definition utf8_stream_safe_len :: "string \<Rightarrow> nat \<Rightarrow> nat \<Rightarrow> bool \<Rightarrow> nat" where
  "utf8_stream_safe_len s start limit final =
     (if final \<or> limit \<le> start then limit
      else let p = utf8_back s start limit 0 in
        if p = limit then
          (if utf8_expected_len (s ! (limit - 1)) > 1 then limit - 1 else limit)
        else if p = start \<and> is_cont (s ! p) then start
        else let lead = p - 1; need = utf8_expected_len (s ! lead) in
          if limit - lead < need then lead else limit)"

section \<open>The token loop\<close>

text \<open>
  The variables of \<open>generate_job\<close> that concern plain text streaming, with the bytes sent so far.
  \<open>Length\<close> is the initial value of \<open>finish\<close>.
\<close>

datatype finish = Length | Stop | Error

record stream =
  out_text :: string
  plain_stream_pos :: nat
  stop_scan_from :: nat
  finish_reason :: finish
  sent :: string

definition stream_init :: stream where
  "stream_init = \<lparr>out_text = [], plain_stream_pos = 0, stop_scan_from = 0, finish_reason = Length, sent = []\<rparr>"

text \<open>
  One token's text. \<open>writable\<close> tells whether \<open>sse_chunk\<close> succeeds. The result also says
  whether decoding stops.
\<close>

definition feed_piece :: "stop_list \<Rightarrow> bool \<Rightarrow> string \<Rightarrow> stream \<Rightarrow> bool \<times> stream" where
  "feed_piece sl writable piece st =
     (let text = out_text st @ piece;
          hit = stop_list_find_from sl text (stop_scan_from st);
          len0 = (case hit of Some (pos, _) \<Rightarrow> pos
                            | None \<Rightarrow> stop_list_stream_safe_len sl (length text));
          len1 = (if len0 > length text then length text else len0);
          stream_len = utf8_stream_safe_len text (plain_stream_pos st) len1 (hit \<noteq> None);
          scan = (if hit = None \<and> max_len sl > 1
                  then (let hold = max_len sl - 1 in
                        if length text > hold then length text - hold else 0)
                  else stop_scan_from st);
          st1 = st\<lparr>out_text := text, stop_scan_from := scan\<rparr>
      in if stream_len > plain_stream_pos st \<and> \<not> writable
         then (True, st1\<lparr>finish_reason := Error\<rparr>)
         else
           let st2 = (if stream_len > plain_stream_pos st
                      then st1\<lparr>sent := sent st @ drop (plain_stream_pos st) (take stream_len text),
                               plain_stream_pos := stream_len\<rparr>
                      else st1)
           in case hit of
                Some (pos, _) \<Rightarrow> (True, st2\<lparr>finish_reason := Stop, out_text := take pos text\<rparr>)
              | None \<Rightarrow> (False, st2))"

text \<open>The loop over the sampled tokens, and the flush of the held tail after it.\<close>

fun feed_pieces :: "stop_list \<Rightarrow> (bool \<times> string) list \<Rightarrow> stream \<Rightarrow> stream" where
  "feed_pieces sl [] st = st"
| "feed_pieces sl ((w, piece) # ps) st =
     (case feed_piece sl w piece st of
        (True, st1) \<Rightarrow> st1
      | (False, st1) \<Rightarrow> feed_pieces sl ps st1)"

definition flush_tail :: "bool \<Rightarrow> stream \<Rightarrow> stream" where
  "flush_tail writable st =
     (if length (out_text st) > plain_stream_pos st
      then if writable then st\<lparr>sent := sent st @ drop (plain_stream_pos st) (out_text st)\<rparr>
           else st\<lparr>finish_reason := Error\<rparr>
      else st)"

definition stream_pieces :: "stop_list \<Rightarrow> (bool \<times> string) list \<Rightarrow> bool \<Rightarrow> stream" where
  "stream_pieces sl ps writable = flush_tail writable (feed_pieces sl ps stream_init)"

section \<open>UTF-8 boundaries\<close>

text \<open>
  The encoded characters by their ranges of bytes: one byte below 128, or a lead byte of two, three or
  four with as many continuation bytes as it demands.
\<close>

definition utf8_char :: "string \<Rightarrow> bool" where
  "utf8_char c \<longleftrightarrow>
     (let trail = (\<lambda>x. 0x80 \<le> x \<and> x \<le> (0xBF :: nat)) in
      case map byte c of
        [x] \<Rightarrow> x < 0x80
      | [x, y] \<Rightarrow> 0xC2 \<le> x \<and> x \<le> 0xDF \<and> trail y
      | [x, y, z] \<Rightarrow> 0xE0 \<le> x \<and> x \<le> 0xEF \<and> trail y \<and> trail z
      | [x, y, z, w] \<Rightarrow> 0xF0 \<le> x \<and> x \<le> 0xF4 \<and> trail y \<and> trail z \<and> trail w
      | _ \<Rightarrow> False)"

lemma is_cont_iff: "is_cont c \<longleftrightarrow> 0x80 \<le> byte c \<and> byte c \<le> 0xBF"
proof
  assume "is_cont c"
  then show "0x80 \<le> byte c \<and> byte c \<le> 0xBF"
    using div_mult_mod_eq [of "byte c" 64] mod_less_divisor [of 64 "byte c"] by (simp add: is_cont_def)
next
  assume "0x80 \<le> byte c \<and> byte c \<le> 0xBF"
  then have "byte c div 64 = 2" by (intro div_nat_eqI) simp_all
  then show "is_cont c" by (simp only: is_cont_def)
qed

text \<open>A character is a lead byte and the continuation bytes that the code expects after it.\<close>

lemma utf8_char_shape:
  assumes "utf8_char c"
  shows "c \<noteq> [] \<and> \<not> is_cont (hd c) \<and> list_all is_cont (tl c) \<and> length c = utf8_expected_len (hd c)"
proof -
  consider x where "c = [x]" | x y where "c = [x, y]" | x y z where "c = [x, y, z]"
    | x y z w where "c = [x, y, z, w]"
    using assms by (auto simp: utf8_char_def Let_def map_eq_Cons_conv split: list.splits)
  then show ?thesis
    using assms by cases (auto simp: utf8_char_def is_cont_iff utf8_expected_len_def Let_def)
qed

lemma utf8_expected_len_le: "1 \<le> utf8_expected_len c \<and> utf8_expected_len c \<le> 4"
  by (simp add: utf8_expected_len_def Let_def)

text \<open>Walking back over at most three continuation bytes that follow a lead byte.\<close>

lemma utf8_back_run:
  "start < b + 1 \<Longrightarrow> k + cont \<le> 4 \<Longrightarrow> \<forall>i < k. is_cont (s ! (b + 1 + i)) \<Longrightarrow> \<not> is_cont (s ! b) \<Longrightarrow>
     utf8_back s start (b + 1 + k) cont = b + 1"
proof (induction k arbitrary: cont)
  case 0
  then show ?case by (simp add: utf8_back.simps [of s start "Suc b"])
next
  case (Suc k)
  have "utf8_back s start (b + 1 + Suc k) cont = utf8_back s start (b + 1 + k) (cont + 1)"
    using Suc.prems by (subst utf8_back.simps) simp
  also have "\<dots> = b + 1" using Suc.prems by (intro Suc.IH) auto
  finally show ?case .
qed

lemma utf8_safe_partial:
  assumes "start \<le> b" and "s = u @ take d c @ v" and "length u = b" and "utf8_char c"
    and "0 < d" and "d \<le> length c"
  shows "utf8_stream_safe_len s start (b + d) False = (if d < length c then b else b + d)"
proof -
  obtain l t where c: "c = l # t" using utf8_char_shape [OF assms(4)] by (cases c) auto
  have len: "length c = utf8_expected_len l" and l: "\<not> is_cont l" and t: "list_all is_cont t"
    using utf8_char_shape [OF assms(4)] by (auto simp: c)
  obtain k where k: "d = Suc k" using assms(5) by (cases d) auto
  have at_b: "s ! b = l" using assms(2,3) by (simp add: c k nth_append)
  have cont: "is_cont (s ! (b + 1 + i))" if "i < k" for i
  proof -
    have "i < length t" using that assms(6) c k by simp
    then have "s ! (b + 1 + i) = t ! i" using that assms(2,3) by (simp add: c k nth_append)
    with t \<open>i < length t\<close> show ?thesis by (simp add: list_all_length)
  qed
  have k4: "k \<le> 3" using assms(6) len utf8_expected_len_le [of l] by (simp add: k)
  have walk: "utf8_back s start (b + d) 0 = b + 1"
    using utf8_back_run [of start b k 0 s] assms(1) k4 cont l at_b by (simp add: k)
  show ?thesis
  proof (cases "k = 0")
    case True
    with walk at_b len assms(1) show ?thesis
      by (simp add: utf8_stream_safe_len_def k)
  next
    case False
    with walk at_b len assms(1,6) show ?thesis
      by (auto simp: utf8_stream_safe_len_def k Let_def)
  qed
qed

end
