(* ===== verification/Stream_Properties.thy ===== *)
theory Stream_Properties
  imports Stream_Text
begin

text \<open>
  What streaming guarantees: a client receives exactly the text up to the first stop sequence that the
  loop completes, and a chunk never ends inside a UTF-8 character.
\<close>

section \<open>Character boundaries\<close>

definition char_boundary :: "string list \<Rightarrow> nat \<Rightarrow> nat" where
  "char_boundary cs k = length (concat (take k cs))"

lemma char_boundary_Suc:
  "k < length cs \<Longrightarrow> char_boundary cs (Suc k) = char_boundary cs k + length (cs ! k)"
  by (simp add: char_boundary_def take_Suc_conv_app_nth)

lemma char_boundary_mono: "j \<le> k \<Longrightarrow> char_boundary cs j \<le> char_boundary cs k"
  by (simp add: char_boundary_def le_iff_add take_add) (metis length_append concat_append le_add1
      le_add_diff_inverse take_add)

lemma concat_split:
  "k < length cs \<Longrightarrow> concat cs = concat (take k cs) @ cs ! k @ concat (drop (Suc k) cs)"
  by (metis concat.simps(2) concat_append id_take_nth_drop)

lemma largest_boundary:
  assumes "char_boundary cs j \<le> limit" and "j \<le> length cs"
  obtains k where "j \<le> k" "k \<le> length cs" "char_boundary cs k \<le> limit"
    "k = length cs \<or> limit < char_boundary cs (Suc k)"
proof -
  let ?P = "\<lambda>k. j \<le> k \<and> k \<le> length cs \<and> char_boundary cs k \<le> limit"
  define k where "k = (GREATEST k. ?P k)"
  have k: "?P k" unfolding k_def by (rule GreatestI_nat [of ?P j "length cs"]) (use assms in auto)
  have "\<not> ?P (Suc k)"
  proof
    assume "?P (Suc k)"
    then have "Suc k \<le> k" unfolding k_def by (rule Greatest_le_nat) auto
    then show False by simp
  qed
  with k that show thesis by auto
qed

text \<open>
  C23: Let the text be complete UTF-8 characters followed by a possibly cut one, and let everything up to a
  character boundary be sent. Then the length that is safe to send is the largest character boundary
  not above the limit: a chunk never ends inside a character and holds back no complete one.
\<close>

theorem utf8_safe_len_is_boundary:
  assumes "list_all utf8_char cs" and "utf8_char c" and "d < length c"
    and "s = concat cs @ take d c"
    and "j \<le> length cs" and "char_boundary cs j \<le> limit" and "limit \<le> length s"
  shows "\<exists>k. j \<le> k \<and> k \<le> length cs \<and>
    utf8_stream_safe_len s (char_boundary cs j) limit False = char_boundary cs k \<and>
    char_boundary cs k \<le> limit \<and> (k = length cs \<or> limit < char_boundary cs (Suc k))"
proof -
  obtain k where k: "j \<le> k" "k \<le> length cs" "char_boundary cs k \<le> limit"
    "k = length cs \<or> limit < char_boundary cs (Suc k)"
    using largest_boundary [OF assms(6,5)] by blast
  have "utf8_stream_safe_len s (char_boundary cs j) limit False = char_boundary cs k"
  proof (cases "limit = char_boundary cs k")
    case True
    show ?thesis
    proof (cases "j = k")
      case False
      then obtain i where i: "k = Suc i" "j \<le> i" "i < length cs" using k by (cases k) auto
      have "utf8_char (cs ! i)" using assms(1) i(3) by (simp add: list_all_length)
      moreover have "s = concat (take i cs) @ take (length (cs ! i)) (cs ! i) @
          concat (drop (Suc i) cs) @ take d c"
        using concat_split [OF i(3)] assms(4) by (simp only: append_assoc take_all order_refl)
      moreover have "length (cs ! i) \<noteq> 0" using utf8_char_shape [OF calculation(1)] length_0_conv by blast
      ultimately have "utf8_stream_safe_len s (char_boundary cs j)
          (char_boundary cs i + length (cs ! i)) False =
          (if length (cs ! i) < length (cs ! i) then char_boundary cs i
           else char_boundary cs i + length (cs ! i))"
        by (intro utf8_safe_partial [OF char_boundary_mono [OF i(2)]])
          (simp_all add: char_boundary_def)
      then show ?thesis using True i by (simp add: char_boundary_Suc)
    qed (simp add: True utf8_stream_safe_len_def)
  next
    case False
    define e where "e = limit - char_boundary cs k"
    have e: "0 < e" "limit = char_boundary cs k + e" using False k(3) by (auto simp: e_def)
    have start: "char_boundary cs j \<le> char_boundary cs k" by (rule char_boundary_mono [OF k(1)])
    show ?thesis
    proof (cases "k = length cs")
      case True
      then have "e \<le> d" using assms(4,7) e(2) by (simp add: char_boundary_def)
      then have "take d c = take e c @ drop e (take d c)"
        by (metis append_take_drop_id min.absorb1 take_take)
      then show ?thesis
        using utf8_safe_partial [OF start _ _ assms(2) e(1), of s "concat cs" "drop e (take d c)"]
          \<open>e \<le> d\<close> assms(3,4) e(2) True by (simp add: char_boundary_def)
    next
      case False
      then have kl: "k < length cs" using k(2) by simp
      then have "utf8_char (cs ! k)" using assms(1) by (simp add: list_all_length)
      moreover have "e < length (cs ! k)" using k(4) False kl e(2) by (simp add: char_boundary_Suc)
      moreover have "s = concat (take k cs) @ take e (cs ! k) @
          drop e (cs ! k) @ concat (drop (Suc k) cs) @ take d c"
        using concat_split [OF kl] assms(4)
        by (simp only: append_assoc) (metis append_assoc append_take_drop_id)
      ultimately show ?thesis
        using utf8_safe_partial [OF start, of s "concat (take k cs)" e "cs ! k"] e
        by (simp add: char_boundary_def)
    qed
  qed
  with k show ?thesis by blast
qed

text \<open>
  A letter, a euro sign of three bytes and an emoji of four bytes cut after the third: all but the
  emoji can be sent; and with a limit inside the euro sign, only the letter.
\<close>

theorem utf8_safe_len_is_boundary_witness:
  "utf8_stream_safe_len [CHR ''a'', CHR 0xE2, CHR 0x82, CHR 0xAC, CHR 0xF0, CHR 0x9F, CHR 0x98] 0 7 False = 4 \<and>
   utf8_stream_safe_len [CHR ''a'', CHR 0xE2, CHR 0x82, CHR 0xAC, CHR 0xF0, CHR 0x9F, CHR 0x98] 0 3 False = 1"
proof -
  let ?cs = "[''a'', [CHR 0xE2, CHR 0x82, CHR 0xAC]]" and ?c = "[CHR 0xF0, CHR 0x9F, CHR 0x98, CHR 0x80]"
  have chars: "list_all utf8_char ?cs" "utf8_char ?c" by (simp_all add: utf8_char_def byte_def)
  have two: "k = 0 \<or> k = Suc 0 \<or> k = Suc (Suc 0)" if "k \<le> Suc (Suc 0)" for k :: nat using that by auto
  have at: "char_boundary ?cs 0 = 0" "char_boundary ?cs (Suc 0) = 1" "char_boundary ?cs 1 = 1" "char_boundary ?cs 2 = 4"
    "char_boundary ?cs (Suc (Suc 0)) = 4"
    by (simp_all add: char_boundary_def)
  have "utf8_stream_safe_len (concat ?cs @ take 3 ?c) (char_boundary ?cs 0) 7 False = 4"
    using utf8_safe_len_is_boundary [OF chars, of 3 "concat ?cs @ take 3 ?c" 0 7] at by (auto dest!: two)
  moreover have "utf8_stream_safe_len (concat ?cs @ take 3 ?c) (char_boundary ?cs 0) 3 False = 1"
    using utf8_safe_len_is_boundary [OF chars, of 3 "concat ?cs @ take 3 ?c" 0 3] at by (auto dest!: two)
  ultimately show ?thesis by (simp add: at)
qed

section \<open>The first stop sequence\<close>

definition stops_ok :: "stop_list \<Rightarrow> bool" where
  "stops_ok sl \<longleftrightarrow> (\<forall>s \<in> set (stops sl). s \<noteq> [] \<and> length s \<le> max_len sl)"

definition stop_free :: "stop_list \<Rightarrow> string \<Rightarrow> bool" where
  "stop_free sl t \<longleftrightarrow> (\<forall>s \<in> set (stops sl). \<forall>q. \<not> occurs_at t s q)"

lemma stops_ok_push: "stops_ok sl \<Longrightarrow> stops_ok (stop_list_push sl s)"
  by (auto simp: stops_ok_def stop_list_push_def)

lemma stops_ok_fold: "stops_ok sl \<Longrightarrow> stops_ok (foldl stop_list_push sl ss)"
  by (induction ss arbitrary: sl) (auto simp: stops_ok_push)

lemma stops_ok_empty: "stops_ok stop_list_empty"
  by (simp add: stops_ok_def stop_list_empty_def)

text \<open>
  A stop sequence starts at a position of a text; the first such position; and a list in which no stop
  sequence contains another.
\<close>

definition stops_at :: "string set \<Rightarrow> string \<Rightarrow> nat \<Rightarrow> bool" where
  "stops_at S t q \<longleftrightarrow> (\<exists>s \<in> S. \<exists>u v. t = u @ s @ v \<and> length u = q)"

definition first_stop :: "string set \<Rightarrow> string \<Rightarrow> nat \<Rightarrow> bool" where
  "first_stop S t p \<longleftrightarrow> stops_at S t p \<and> (\<forall>q < p. \<not> stops_at S t q)"

definition not_nested :: "string set \<Rightarrow> bool" where
  "not_nested S \<longleftrightarrow> (\<forall>s \<in> S. \<forall>s' \<in> S. \<forall>u v. s = u @ s' @ v \<longrightarrow> s = s')"

lemma stops_at_occurs: "stops_at S t q \<longleftrightarrow> (\<exists>s \<in> S. occurs_at t s q)"
  by (simp add: stops_at_def occurs_at_iff)

lemma stop_free_iff: "stop_free sl t \<longleftrightarrow> (\<forall>q. \<not> stops_at (set (stops sl)) t q)"
  by (auto simp: stop_free_def stops_at_occurs)

lemma stops_pushed: "set (stops (foldl stop_list_push sl ss)) = set (stops sl) \<union> (set ss - {[]})"
  by (induction ss arbitrary: sl) (auto simp: stop_list_push_def)

text \<open>What the best candidate over some of the stop sequences means.\<close>

definition best_stop :: "string \<Rightarrow> nat \<Rightarrow> string set \<Rightarrow> (nat \<times> nat) option \<Rightarrow> bool" where
  "best_stop t from S best \<longleftrightarrow>
     (case best of
        None \<Rightarrow> \<forall>s \<in> S. \<forall>q \<ge> from. \<not> occurs_at t s q
      | Some (p, l) \<Rightarrow> from \<le> p \<and> (\<exists>s \<in> S. occurs_at t s p \<and> l = length s) \<and>
          (\<forall>s \<in> S. \<forall>q. from \<le> q \<and> q < p \<longrightarrow> \<not> occurs_at t s q))"

lemma c_str_drop: "NUL \<notin> set t \<Longrightarrow> c_str (drop n t) = drop n t"
  by (rule c_str_no_nul) (auto dest: in_set_dropD)

lemma stop_find_step_best:
  assumes "NUL \<notin> set t" and "from \<le> length t" and "best_stop t from S best"
  shows "best_stop t from (insert s S) (stop_find_step t from s best)"
proof (cases "strstr_pos (drop from t) s")
  case None
  have "\<not> occurs_at t s q" if "from \<le> q" for q
    using None that assms(2) occurs_at_drop [of "from" t s "q - from"]
    by (simp add: strstr_pos_None_iff)
  with None assms show ?thesis
    by (auto simp: best_stop_def stop_find_step_def c_str_drop split: option.splits)
next
  case (Some k)
  then have k: "occurs_at t s (from + k)" "\<And>q. from \<le> q \<Longrightarrow> q < from + k \<Longrightarrow> \<not> occurs_at t s q"
  proof -
    show "occurs_at t s (from + k)"
      using Some assms(2) by (simp add: strstr_pos_Some_iff occurs_at_drop)
    fix q
    assume "from \<le> q" "q < from + k"
    then show "\<not> occurs_at t s q"
      using Some assms(2) occurs_at_drop [of "from" t s "q - from"] by (simp add: strstr_pos_Some_iff)
  qed
  show ?thesis
  proof (cases best)
    case None
    with Some k assms show ?thesis
      by (auto simp: best_stop_def stop_find_step_def c_str_drop)
  next
    case (Some p)
    with \<open>strstr_pos (drop from t) s = Some k\<close> k assms show ?thesis
      by (cases p) (auto simp: best_stop_def stop_find_step_def c_str_drop)
  qed
qed

lemma stop_list_find_from_best:
  assumes "NUL \<notin> set t" and "from \<le> length t"
  shows "best_stop t from (set (stops sl)) (stop_list_find_from sl t from)"
proof -
  have "best_stop t from (S \<union> set xs) (fold (stop_find_step t from) xs best)"
    if "best_stop t from S best" for xs S best
    using that
  proof (induction xs arbitrary: S best)
    case (Cons x xs)
    from Cons.IH [OF stop_find_step_best [OF assms Cons.prems]] show ?case by simp
  qed simp
  from this [of "{}" None "stops sl"] show ?thesis
    by (simp add: best_stop_def stop_list_find_from_def)
qed

lemma utf8_back_le: "utf8_back s start p cont \<le> p"
  by (induction s start p cont rule: utf8_back.induct) (subst utf8_back.simps, auto)

lemma utf8_stream_safe_len_le: "utf8_stream_safe_len s start limit final \<le> limit"
  using utf8_back_le [of s start limit 0] by (auto simp: utf8_stream_safe_len_def Let_def)

lemma utf8_stream_safe_len_final: "utf8_stream_safe_len s start limit True = limit"
  by (simp add: utf8_stream_safe_len_def)

section \<open>The token loop\<close>

text \<open>
  Between two tokens: no stop sequence in the text so far, everything sent is a prefix of it, and both
  the sent length and the start of the next scan stay clear of a stop sequence that is still
  incomplete.
\<close>

definition stream_inv :: "stop_list \<Rightarrow> stream \<Rightarrow> bool" where
  "stream_inv sl st \<longleftrightarrow>
     stop_free sl (out_text st) \<and> finish_reason st = Length \<and>
     sent st = take (plain_stream_pos st) (out_text st) \<and>
     plain_stream_pos st \<le> stop_list_stream_safe_len sl (length (out_text st)) \<and>
     stop_scan_from st \<le> length (out_text st) - (if max_len sl > 1 then max_len sl - 1 else length (out_text st))"

lemma stop_list_stream_safe_len_le: "stop_list_stream_safe_len sl n \<le> n"
  by (auto simp: stop_list_stream_safe_len_def Let_def)

lemma stop_list_stream_safe_len_mono:
  "m \<le> n \<Longrightarrow> stop_list_stream_safe_len sl m \<le> stop_list_stream_safe_len sl n"
  by (auto simp: stop_list_stream_safe_len_def Let_def)

lemma new_stop_position:
  assumes "stops_ok sl" and "stream_inv sl st" and "s \<in> set (stops sl)"
    and "occurs_at (out_text st @ piece) s q"
  shows "stop_scan_from st \<le> q \<and> plain_stream_pos st \<le> q"
proof -
  let ?n = "length (out_text st)"
  have s: "s \<noteq> []" "length s \<le> max_len sl" using assms(1,3) by (auto simp: stops_ok_def)
  have "\<not> q + length s \<le> ?n"
    using assms(2-4) occurs_at_appendD unfolding stream_inv_def stop_free_def by blast
  then have "?n < q + max_len sl" using s(2) by simp
  moreover have "stops sl \<noteq> []" using assms(3) by auto
  moreover have "1 \<le> max_len sl" using s by (cases s) auto
  ultimately show ?thesis using assms(2)
    by (auto simp: stream_inv_def stop_list_stream_safe_len_def Let_def split: if_splits)
qed

lemma feed_piece_no_hit:
  assumes "stop_list_find_from sl (out_text st @ piece) (stop_scan_from st) = None"
    and "n = utf8_stream_safe_len (out_text st @ piece) (plain_stream_pos st)
      (stop_list_stream_safe_len sl (length (out_text st @ piece))) False"
  shows "feed_piece sl True piece st =
    (False, st\<lparr>out_text := out_text st @ piece,
      plain_stream_pos := (if plain_stream_pos st < n then n else plain_stream_pos st),
      stop_scan_from := (if max_len sl > 1 then length (out_text st @ piece) - (max_len sl - 1)
                         else stop_scan_from st),
      sent := (if plain_stream_pos st < n
               then sent st @ drop (plain_stream_pos st) (take n (out_text st @ piece))
               else sent st)\<rparr>)"
  using assms stop_list_stream_safe_len_le [of sl "length (out_text st @ piece)"]
  unfolding feed_piece_def Let_def by simp

lemma feed_piece_hit:
  assumes "stop_list_find_from sl (out_text st @ piece) (stop_scan_from st) = Some (p, l)"
    and "p \<le> length (out_text st @ piece)"
  shows "feed_piece sl True piece st =
    (True, st\<lparr>out_text := take p (out_text st @ piece),
      plain_stream_pos := (if plain_stream_pos st < p then p else plain_stream_pos st),
      finish_reason := Stop,
      sent := (if plain_stream_pos st < p
               then sent st @ drop (plain_stream_pos st) (take p (out_text st @ piece))
               else sent st)\<rparr>)"
  using assms unfolding feed_piece_def Let_def by (simp add: utf8_stream_safe_len_final)

lemma feed_piece_inv:
  assumes "stops_ok sl" and "stream_inv sl st" and "NUL \<notin> set (out_text st @ piece)"
    and "feed_piece sl True piece st = (stopped, st')"
  shows "\<not> stopped \<Longrightarrow> stream_inv sl st' \<and> out_text st' = out_text st @ piece"
    and "stopped \<Longrightarrow> finish_reason st' = Stop \<and> stop_free sl (out_text st') \<and>
      sent st' = out_text st' \<and> plain_stream_pos st' = length (out_text st') \<and>
      (\<exists>v. out_text st @ piece = out_text st' @ v) \<and>
      first_stop (set (stops sl)) (out_text st @ piece) (length (out_text st'))"
proof -
  let ?t = "out_text st @ piece"
  let ?hit = "stop_list_find_from sl ?t (stop_scan_from st)"
  have scan_le: "stop_scan_from st \<le> length ?t" using assms(2) by (auto simp: stream_inv_def)
  have best: "best_stop ?t (stop_scan_from st) (set (stops sl)) ?hit"
    by (rule stop_list_find_from_best [OF assms(3) scan_le])
  have pos: "stop_scan_from st \<le> q \<and> plain_stream_pos st \<le> q"
    if "s \<in> set (stops sl)" "occurs_at ?t s q" for s q
    using new_stop_position [OF assms(1,2) that] .
  define len1 where "len1 = (case ?hit of Some (p, _) \<Rightarrow> p
      | None \<Rightarrow> stop_list_stream_safe_len sl (length ?t))"
  define n where "n = utf8_stream_safe_len ?t (plain_stream_pos st) len1 (?hit \<noteq> None)"
  have len1: "len1 \<le> length ?t"
    using best stop_list_stream_safe_len_le [of sl "length ?t"]
    by (auto simp: len1_def best_stop_def occurs_at_def split: option.splits)
  have n: "n \<le> len1" by (simp add: n_def utf8_stream_safe_len_le)
  have old: "plain_stream_pos st \<le> length (out_text st)"
    using assms(2) stop_list_stream_safe_len_le order_trans unfolding stream_inv_def by blast
  have sent: "sent st = take (plain_stream_pos st) ?t"
    using assms(2) old by (simp add: stream_inv_def)
  have join: "sent st @ drop (plain_stream_pos st) (take n ?t) = take n ?t" if "plain_stream_pos st < n"
    using that sent by (metis append_take_drop_id less_imp_le min.absorb1 take_take)
  let ?sent = "if n > plain_stream_pos st then take n ?t else sent st"
  let ?pos = "if n > plain_stream_pos st then n else plain_stream_pos st"
  show "\<not> stopped \<Longrightarrow> stream_inv sl st' \<and> out_text st' = ?t"
  proof -
    assume "\<not> stopped"
    then have hit: "?hit = None"
      using assms(4) feed_piece_hit len1 by (cases ?hit) (auto simp: len1_def)
    have len: "len1 = stop_list_stream_safe_len sl (length ?t)" by (simp add: len1_def hit)
    have n': "n = utf8_stream_safe_len ?t (plain_stream_pos st)
        (stop_list_stream_safe_len sl (length ?t)) False" by (simp add: n_def hit len)
    have "stop_list_stream_safe_len sl (length (out_text st)) \<le> len1"
      unfolding len by (rule stop_list_stream_safe_len_mono) simp
    then have pos_le: "?pos \<le> len1" using n assms(2) by (auto simp: stream_inv_def)
    have free: "stop_free sl ?t"
      using best pos by (simp add: hit best_stop_def stop_free_def) blast
    have st': "out_text st' = ?t" "sent st' = ?sent" "plain_stream_pos st' = ?pos"
      "finish_reason st' = finish_reason st"
      "stop_scan_from st' = (if max_len sl > 1 then length ?t - (max_len sl - 1) else stop_scan_from st)"
      using assms(4) feed_piece_no_hit [OF hit n'] join by auto
    show "stream_inv sl st' \<and> out_text st' = ?t"
      using st' free sent pos_le len assms(2) by (auto simp: stream_inv_def)
  qed
  show "stopped \<Longrightarrow> finish_reason st' = Stop \<and> stop_free sl (out_text st') \<and>
      sent st' = out_text st' \<and> plain_stream_pos st' = length (out_text st') \<and>
      (\<exists>v. ?t = out_text st' @ v) \<and>
      first_stop (set (stops sl)) ?t (length (out_text st'))"
  proof -
    assume "stopped"
    then obtain p l where hit: "?hit = Some (p, l)"
      using assms(4) feed_piece_no_hit [OF _ refl] by (cases ?hit) auto
    have p: "p \<le> length ?t" "len1 = p" "n = p" "plain_stream_pos st \<le> p"
      using len1 hit best pos
      by (auto simp: len1_def n_def utf8_stream_safe_len_final best_stop_def)
    have st': "finish_reason st' = Stop" "out_text st' = take p ?t" "sent st' = ?sent"
      "plain_stream_pos st' = ?pos"
      using assms(4) feed_piece_hit [OF hit p(1)] join p(3) by auto
    have none: "\<not> occurs_at ?t s q" if "s \<in> set (stops sl)" "q < p" for s q
      using best hit pos that by (auto simp: best_stop_def)
    have "stop_free sl (take p ?t)"
      unfolding stop_free_def
    proof (intro ballI allI notI)
      fix s q
      assume s: "s \<in> set (stops sl)" and o: "occurs_at (take p ?t) s q"
      have "s \<noteq> []" using assms(1) s by (auto simp: stops_ok_def)
      then have "q < p" using occurs_at_length [OF o] by (cases s) auto
      then show False using none [OF s] occurs_at_take [OF o] by blast
    qed
    moreover have "first_stop (set (stops sl)) ?t p"
      using best hit none by (auto simp: best_stop_def first_stop_def stops_at_occurs)
    moreover have "?t = take p ?t @ drop p ?t" by (rule append_take_drop_id [symmetric])
    ultimately show ?thesis
      using st' p sent by (auto simp del: append_take_drop_id take_append drop_append)
  qed
qed

text \<open>
  The tokens up to the one that completes a stop sequence: the loop sends what precedes the first
  stop sequence in their text.
\<close>

definition stopped_at :: "string set \<Rightarrow> string \<Rightarrow> string list \<Rightarrow> string \<Rightarrow> bool" where
  "stopped_at S t pieces out \<longleftrightarrow>
     (\<exists>i < length pieces. (\<forall>q. \<not> stops_at S (t @ concat (take i pieces)) q) \<and>
        (\<exists>v. t @ concat (take (Suc i) pieces) = out @ v) \<and>
        first_stop S (t @ concat (take (Suc i) pieces)) (length out))"

lemma stopped_at_Cons: "stopped_at S (t @ p) ps out \<Longrightarrow> stopped_at S t (p # ps) out"
  unfolding stopped_at_def by (metis Suc_less_eq append_assoc concat.simps(2) length_Cons take_Suc_Cons)

lemma feed_pieces_inv:
  "stops_ok sl \<Longrightarrow> stream_inv sl st \<Longrightarrow> list_all fst ps \<Longrightarrow>
   NUL \<notin> set (out_text st @ concat (map snd ps)) \<Longrightarrow> st' = feed_pieces sl ps st \<Longrightarrow>
   (stream_inv sl st' \<and> out_text st' = out_text st @ concat (map snd ps)) \<or>
   (finish_reason st' = Stop \<and> sent st' = out_text st' \<and> plain_stream_pos st' = length (out_text st') \<and>
    stopped_at (set (stops sl)) (out_text st) (map snd ps) (out_text st'))"
proof (induction ps arbitrary: st)
  case Nil
  then show ?case by simp
next
  case (Cons p ps)
  obtain w piece where p: "p = (w, piece)" by fastforce
  then have w: "w" using Cons.prems(3) by simp
  obtain stopped st1 where f: "feed_piece sl True piece st = (stopped, st1)" by fastforce
  have nul: "NUL \<notin> set (out_text st @ piece)" using Cons.prems(4) by (simp add: p)
  note inv = feed_piece_inv [OF Cons.prems(1,2) nul f]
  show ?case
  proof (cases stopped)
    case True
    then have st': "st' = st1" using Cons.prems(5) f w by (simp add: p)
    have "stop_free sl (out_text st)" using Cons.prems(2) by (simp add: stream_inv_def)
    then have "stopped_at (set (stops sl)) (out_text st) (map snd (p # ps)) (out_text st1)"
      unfolding stopped_at_def using inv(2) [OF True] by (intro exI [of _ 0]) (auto simp: p stop_free_iff)
    then show ?thesis using inv(2) [OF True] by (simp add: st')
  next
    case False
    then have st': "st' = feed_pieces sl ps st1" using Cons.prems(5) f w by (simp add: p)
    from inv(1) [OF False] have r: "stream_inv sl st1" "out_text st1 = out_text st @ piece" by auto
    with Cons.IH [OF Cons.prems(1) r(1) _ _ st'] Cons.prems(3,4) show ?thesis
      by (auto simp: p intro: stopped_at_Cons)
  qed
qed

lemma first_stop_beginning:
  assumes "first_stop S (x @ v) (length x)" "[] \<notin> S"
  shows "\<not> stops_at S x q"
proof
  assume "stops_at S x q"
  then obtain s where s: "s \<in> S" "occurs_at x s q" by (auto simp: stops_at_occurs)
  then have "q < length x" using occurs_at_length [OF s(2)] assms(2) by (cases s) auto
  moreover have "stops_at S (x @ v) q"
    using s(1) occurs_at_append [OF s(2)] by (auto simp: stops_at_occurs)
  ultimately show False using assms(1) by (simp add: first_stop_def)
qed

text \<open>
  Where no stop sequence contains another, the first one that is complete in a beginning of the text
  is the first one of the whole text: one that starts earlier and ends later would contain it.
\<close>

lemma first_stop_append:
  assumes "not_nested S" "first_stop S t p"
  shows "first_stop S (t @ r) p"
  unfolding first_stop_def
proof (intro conjI allI impI notI)
  obtain s where s: "s \<in> S" "occurs_at t s p"
    using assms(2) by (auto simp: first_stop_def stops_at_occurs)
  from s(1) occurs_at_append [OF s(2)] show "stops_at S (t @ r) p" by (auto simp: stops_at_occurs)
  fix q
  assume q: "q < p" and "stops_at S (t @ r) q"
  then obtain s' where s': "s' \<in> S" "occurs_at (t @ r) s' q" by (auto simp: stops_at_occurs)
  show False
  proof (cases "q + length s' \<le> length t")
    case True
    then have "stops_at S t q" using occurs_at_appendD [OF s'(2) True] s'(1) by (auto simp: stops_at_occurs)
    then show False using assms(2) q by (auto simp: first_stop_def)
  next
    case False
    obtain u v where u: "t = u @ s @ v" "length u = p" using s(2) by (auto simp: occurs_at_iff)
    obtain u' v' where u': "t @ r = u' @ s' @ v'" "length u' = q" using s'(2) by (auto simp: occurs_at_iff)
    have "s' = take (length s') (drop q (t @ r))" using u' by simp
    also have "\<dots> = take (length s') (drop q u @ s @ v @ r)" using u q by simp
    also have "\<dots> = drop q u @ s @ take (length s' - (p - q) - length s) (v @ r)"
      using False u q by simp
    finally have "s' = drop q u @ s @ take (length s' - (p - q) - length s) (v @ r)" .
    then have "s' = s" using assms(1) s(1) s'(1) unfolding not_nested_def by blast
    moreover have "length s < length s'" using False q u by simp
    ultimately show False by simp
  qed
qed

text \<open>
  C22: Let all chunks of a stream be written and the generated text contain no NUL. When no stop
  sequence of the request occurs in the text, the client receives the whole text. Otherwise the first
  token that completes a stop sequence ends the stream, and the client receives exactly what precedes
  the first position at which a stop sequence occurs in the text up to this token. Where no stop sequence
  contains another one, this is the first position of the whole text at which one occurs, so that
  the bytes received do not depend on how the text is cut into tokens.
\<close>

theorem stream_stops_exactly:
  assumes "sl = foldl stop_list_push stop_list_empty ss"
    and "list_all fst ps" and "NUL \<notin> set (concat (map snd ps))"
    and "r = stream_pieces sl ps True"
  shows "let S = set ss - {[]}; pieces = map snd ps in
    out_text r = sent r \<and> (\<forall>q. \<not> stops_at S (sent r) q) \<and>
    (if \<forall>q. \<not> stops_at S (concat pieces) q
     then finish_reason r = Length \<and> sent r = concat pieces
     else finish_reason r = Stop \<and> (\<exists>v. concat pieces = sent r @ v) \<and>
       (\<exists>i < length pieces. (\<forall>q. \<not> stops_at S (concat (take i pieces)) q) \<and>
          first_stop S (concat (take (Suc i) pieces)) (length (sent r))) \<and>
       (not_nested S \<longrightarrow> first_stop S (concat pieces) (length (sent r))))"
proof -
  let ?S = "set ss - {[]}" and ?P = "map snd ps" and ?st = "feed_pieces sl ps stream_init"
  have S: "set (stops sl) = ?S" using stops_pushed [of stop_list_empty ss] by (simp add: assms(1) stop_list_empty_def)
  have ok: "stops_ok sl" unfolding assms(1) by (rule stops_ok_fold [OF stops_ok_empty])
  then have "stream_inv sl stream_init"
    by (auto simp: stream_inv_def stream_init_def stop_free_def stops_ok_def occurs_at_def)
  from feed_pieces_inv [OF ok this assms(2) _ refl] assms(3)
  consider (all) "stream_inv sl ?st" "out_text ?st = concat ?P"
    | (stop) "finish_reason ?st = Stop" "sent ?st = out_text ?st" "plain_stream_pos ?st = length (out_text ?st)"
        "stopped_at ?S [] ?P (out_text ?st)"
    by (auto simp: stream_init_def S)
  then show ?thesis
  proof cases
    case all
    then have "sent r = concat ?P" "out_text r = concat ?P" "finish_reason r = Length" "stop_free sl (concat ?P)"
      by (auto simp: assms(4) stream_pieces_def flush_tail_def stream_inv_def)
    then show ?thesis by (simp add: Let_def stop_free_iff S)
  next
    case stop
    then have r: "r = ?st" by (simp add: assms(4) stream_pieces_def flush_tail_def)
    obtain i v where i: "i < length ?P" "\<forall>q. \<not> stops_at ?S (concat (take i ?P)) q"
        "concat (take (Suc i) ?P) = sent r @ v" "first_stop ?S (concat (take (Suc i) ?P)) (length (sent r))"
      using stop by (auto simp: stopped_at_def r)
    have split: "concat ?P = concat (take (Suc i) ?P) @ concat (drop (Suc i) ?P)"
      by (metis append_take_drop_id concat_append)
    have "stops_at ?S (concat ?P) (length (sent r))"
      using i(4) unfolding split first_stop_def stops_at_occurs by (blast intro: occurs_at_append)
    moreover have "\<not> stops_at ?S (sent r) q" for q
      by (rule first_stop_beginning [OF i(4) [unfolded i(3)]]) simp
    moreover have "not_nested ?S \<Longrightarrow> first_stop ?S (concat ?P) (length (sent r))"
      unfolding split by (rule first_stop_append [OF _ i(4)])
    moreover have "\<exists>v. concat ?P = sent r @ v" unfolding split i(3) by simp
    ultimately show ?thesis using stop i(1,2,4) by (auto simp: Let_def r)
  qed
qed

text \<open>The stop sequence is cut by a token; and of two nested ones, the token that ends first decides.\<close>

theorem stream_stops_exactly_witness:
  "sent (stream_pieces (foldl stop_list_push stop_list_empty [''END''])
      [(True, ''hello E''), (True, ''ND tail'')] True) = ''hello '' \<and>
   length (sent (stream_pieces (foldl stop_list_push stop_list_empty [''BCDE'', ''CD''])
      [(True, ''ABCDE'')] True)) = 1 \<and>
   length (sent (stream_pieces (foldl stop_list_push stop_list_empty [''BCDE'', ''CD''])
      [(True, ''ABCD''), (True, ''E'')] True)) = 2"
proof -
  let ?r = "stream_pieces (foldl stop_list_push stop_list_empty [''END''])
      [(True, ''hello E''), (True, ''ND tail'')] True"
  have "out_text ?r = ''hello ''" by code_simp
  then have "sent ?r = ''hello ''"
    using stream_stops_exactly [OF refl, of "[(True, ''hello E''), (True, ''ND tail'')]" ?r "[''END'']"]
    by (simp add: Let_def)
  moreover have "length (sent (stream_pieces (foldl stop_list_push stop_list_empty [''BCDE'', ''CD''])
      [(True, ''ABCDE'')] True)) = 1" by code_simp
  moreover have "length (sent (stream_pieces (foldl stop_list_push stop_list_empty [''BCDE'', ''CD''])
      [(True, ''ABCD''), (True, ''E'')] True)) = 2" by code_simp
  ultimately show ?thesis by blast
qed

end
