(* ===== verification/Dsml.thy ===== *)
theory Dsml
  imports Search
begin

text \<open>
  The tool call markup of the server (\<open>ds4_server.c\<close>): the three spellings of its markers,
  escaping and unescaping of its text, the attributes of a tag, and the tracker that follows the
  generated text to decide whether the next token is protocol syntax or payload.

  The raw text is the list of its bytes; positions are offsets into it. The loop of
  \<open>dsml_decode_tracker_update\<close> is a recursive function whose calls are the iterations of its
  loops.
\<close>

section \<open>Markers\<close>

text \<open>The byte sequence of the full width bar and the markers built from it.\<close>

definition fullwidth_bar :: string where
  "fullwidth_bar = [CHR 0xEF, CHR 0xBD, CHR 0x9C]"

definition DS4_DSML :: string where
  "DS4_DSML = fullwidth_bar @ ''DSML'' @ fullwidth_bar"

definition DS4_DSML_SHORT :: string where
  "DS4_DSML_SHORT = ''DSML'' @ fullwidth_bar"

datatype dsml_syntax = Syn_full | Syn_short | Syn_plain

definition dsml_syntaxes :: "dsml_syntax list" where
  "dsml_syntaxes = [Syn_full, Syn_short, Syn_plain]"

definition dsml_prefix :: "dsml_syntax \<Rightarrow> string" where
  "dsml_prefix syn =
     (case syn of Syn_full \<Rightarrow> DS4_DSML | Syn_short \<Rightarrow> DS4_DSML_SHORT | Syn_plain \<Rightarrow> [])"

definition tool_calls_start :: "dsml_syntax \<Rightarrow> string" where
  "tool_calls_start syn = ''<'' @ dsml_prefix syn @ ''tool_calls>''"

definition tool_calls_end :: "dsml_syntax \<Rightarrow> string" where
  "tool_calls_end syn = ''</'' @ dsml_prefix syn @ ''tool_calls>''"

definition invoke_start :: "dsml_syntax \<Rightarrow> string" where
  "invoke_start syn = ''<'' @ dsml_prefix syn @ ''invoke''"

definition invoke_end :: "dsml_syntax \<Rightarrow> string" where
  "invoke_end syn = ''</'' @ dsml_prefix syn @ ''invoke>''"

definition param_start :: "dsml_syntax \<Rightarrow> string" where
  "param_start syn = ''<'' @ dsml_prefix syn @ ''parameter''"

definition param_end :: "dsml_syntax \<Rightarrow> string" where
  "param_end syn = ''</'' @ dsml_prefix syn @ ''parameter>''"

section \<open>Escaping\<close>

definition dsml_attr_escape_char :: "char \<Rightarrow> string" where
  "dsml_attr_escape_char c =
     (if c = CHR ''&'' then ''&amp;''
      else if c = CHR ''<'' then ''&lt;''
      else if c = CHR ''>'' then ''&gt;''
      else if c = CHR 0x22 then ''&quot;''
      else [c])"

definition append_dsml_attr_escaped :: "string \<Rightarrow> string" where
  "append_dsml_attr_escaped s = concat (map dsml_attr_escape_char s)"

fun append_dsml_parameter_text :: "string \<Rightarrow> string" where
  "append_dsml_parameter_text [] = []"
| "append_dsml_parameter_text (c # s) =
     (if starts_with (c # s) (param_end Syn_full) then ''&lt;'' @ append_dsml_parameter_text s
      else c # append_dsml_parameter_text s)"

fun append_tool_result_text :: "string \<Rightarrow> string" where
  "append_tool_result_text [] = []"
| "append_tool_result_text (c # s) =
     (if starts_with (c # s) ''</tool_result>'' then ''&lt;'' @ append_tool_result_text s
      else c # append_tool_result_text s)"

fun append_dsml_json_literal :: "string \<Rightarrow> string" where
  "append_dsml_json_literal [] = []"
| "append_dsml_json_literal (c # s) =
     (if starts_with (c # s) (param_end Syn_full) then CHR 0x5C # ''u003c'' @ append_dsml_json_literal s
      else c # append_dsml_json_literal s)"

function dsml_unescape_text :: "string \<Rightarrow> string" where
  "dsml_unescape_text [] = []"
| "dsml_unescape_text (c # s) =
     (if c \<noteq> CHR ''&'' then c # dsml_unescape_text s
      else if starts_with (c # s) ''&amp;'' then CHR ''&'' # dsml_unescape_text (drop 4 s)
      else if starts_with (c # s) ''&lt;'' then CHR ''<'' # dsml_unescape_text (drop 3 s)
      else if starts_with (c # s) ''&gt;'' then CHR ''>'' # dsml_unescape_text (drop 3 s)
      else if starts_with (c # s) ''&quot;'' then CHR 0x22 # dsml_unescape_text (drop 5 s)
      else if starts_with (c # s) ''&apos;'' then CHR 0x27 # dsml_unescape_text (drop 5 s)
      else CHR ''&'' # dsml_unescape_text s)"
  by pat_completeness auto
termination
  by (relation "measure length") auto

lemma unescape_escape_char:
  "dsml_unescape_text (dsml_attr_escape_char c @ s) = c # dsml_unescape_text s"
  by (simp add: dsml_attr_escape_char_def numeral_eq_Suc)

lemma unescape_attr: "dsml_unescape_text (append_dsml_attr_escaped s) = s"
  by (induction s) (simp_all add: append_dsml_attr_escaped_def unescape_escape_char)

lemma attr_escaped_chars: "set (append_dsml_attr_escaped s) \<inter> {CHR 0x22, CHR ''<'', CHR ''>''} = {}"
  by (auto simp: append_dsml_attr_escaped_def dsml_attr_escape_char_def split: if_splits)

text \<open>
  An attribute of a tag: the text between the first \<open>name="\<close> and the next quote. The pattern is
  built in a buffer of 64 bytes, which the two names the server asks for fit into.
\<close>

definition dsml_attr :: "string \<Rightarrow> string \<Rightarrow> string option" where
  "dsml_attr tag name =
     (let pat = name @ [CHR ''='', CHR 0x22] in
      case strstr_pos tag pat of
        None \<Rightarrow> None
      | Some k \<Rightarrow>
          (let p = drop (k + length pat) tag in
           case memchr_pos p (CHR 0x22) of
             None \<Rightarrow> None
           | Some n \<Rightarrow> Some (dsml_unescape_text (take n p))))"

section \<open>Matching at a position\<close>

definition raw_full_lit :: "string \<Rightarrow> nat \<Rightarrow> string \<Rightarrow> bool" where
  "raw_full_lit raw pos lit \<longleftrightarrow>
     pos \<le> length raw \<and> length lit \<le> length raw - pos \<and> take (length lit) (drop pos raw) = lit"

definition raw_partial_lit :: "string \<Rightarrow> nat \<Rightarrow> string \<Rightarrow> bool" where
  "raw_partial_lit raw pos lit \<longleftrightarrow>
     pos \<le> length raw \<and> length raw - pos < length lit \<and>
     drop pos raw = take (length raw - pos) lit"

definition raw_partial_lit_min :: "string \<Rightarrow> nat \<Rightarrow> string \<Rightarrow> nat \<Rightarrow> bool" where
  "raw_partial_lit_min raw pos lit min_len \<longleftrightarrow>
     pos \<le> length raw \<and> length raw - pos < length lit \<and>
     min_len \<le> length raw - pos \<and> drop pos raw = take (length raw - pos) lit"

definition dsml_max_tool_start_len :: nat where
  "dsml_max_tool_start_len =
     fold (\<lambda>syn m. let n = length (tool_calls_start syn) in if n > m then n else m) dsml_syntaxes 0"

text \<open>The first start marker of any spelling; on equal positions the earlier spelling stays.\<close>

definition tool_start_step ::
  "string \<Rightarrow> dsml_syntax \<Rightarrow> (nat \<times> dsml_syntax) option \<Rightarrow> (nat \<times> dsml_syntax) option" where
  "tool_start_step raw syn best =
     (case strstr_pos raw (tool_calls_start syn) of
        None \<Rightarrow> best
      | Some p \<Rightarrow>
          (case best of
             None \<Rightarrow> Some (p, syn)
           | Some (bp, bs) \<Rightarrow> if p < bp then Some (p, syn) else best))"

definition dsml_find_tool_start :: "string \<Rightarrow> (nat \<times> dsml_syntax) option" where
  "dsml_find_tool_start raw =
     (case fold (tool_start_step raw) dsml_syntaxes None of
        None \<Rightarrow> None
      | Some (p, syn) \<Rightarrow> Some (p + length (tool_calls_start syn), syn))"

definition dsml_find_tool_start_from :: "string \<Rightarrow> nat \<Rightarrow> (nat \<times> dsml_syntax) option" where
  "dsml_find_tool_start_from raw start =
     (if start > length raw then None
      else case dsml_find_tool_start (drop start raw) of
        None \<Rightarrow> None
      | Some (rel, syn) \<Rightarrow> Some (start + rel, syn))"

definition dsml_attr_is_string_true :: "string \<Rightarrow> nat \<Rightarrow> nat \<Rightarrow> bool" where
  "dsml_attr_is_string_true raw tag_start tag_end =
     (if tag_end \<le> tag_start \<or> tag_end > length raw then False
      else dsml_attr (c_str (take (tag_end - tag_start) (drop tag_start raw))) ''string'' = Some ''true'')"

section \<open>The tracker\<close>

datatype dsml_decode_state =
  DECODE_OUTSIDE | DECODE_STRUCTURAL | DECODE_STRING_BODY | DECODE_JSON_STRUCTURAL
| DECODE_JSON_STRING

datatype dsml_track_mode =
  TRACK_SEARCH | TRACK_STRUCTURAL | TRACK_STRING_BODY | TRACK_JSON_PARAM | TRACK_DONE

record dsml_decode_tracker =
  mode :: dsml_track_mode
  decode :: dsml_decode_state
  syn_of :: "dsml_syntax option"
  pos_of :: nat
  json_in_string :: bool
  json_escaped :: bool

definition dsml_decode_state_is_tool :: "dsml_decode_state \<Rightarrow> bool" where
  "dsml_decode_state_is_tool d \<longleftrightarrow> d \<noteq> DECODE_OUTSIDE"

definition dsml_decode_state_uses_payload_sampling :: "dsml_decode_state \<Rightarrow> bool" where
  "dsml_decode_state_uses_payload_sampling d \<longleftrightarrow> d = DECODE_STRING_BODY \<or> d = DECODE_JSON_STRING"

definition dsml_decode_tracker_init :: dsml_decode_tracker where
  "dsml_decode_tracker_init =
     \<lparr>mode = TRACK_SEARCH, decode = DECODE_OUTSIDE, syn_of = None, pos_of = 0,
      json_in_string = False, json_escaped = False\<rparr>"

definition skip_space :: "string \<Rightarrow> nat \<Rightarrow> nat" where
  "skip_space raw pos = pos + length (takeWhile isspace (drop pos raw))"

text \<open>The flags after one more byte of a JSON parameter.\<close>

definition json_flags :: "char \<Rightarrow> dsml_decode_tracker \<Rightarrow> dsml_decode_tracker" where
  "json_flags c dt =
     (if json_in_string dt then
        (if json_escaped dt then dt\<lparr>json_escaped := False\<rparr>
         else if c = CHR 0x5C then dt\<lparr>json_escaped := True\<rparr>
         else if c = CHR 0x22 then dt\<lparr>json_in_string := False\<rparr>
         else dt)
      else if c = CHR 0x22 then dt\<lparr>json_in_string := True\<rparr>
      else dt)"

lemma json_flags_fields [simp]:
  "mode (json_flags c dt) = mode dt" "pos_of (json_flags c dt) = pos_of dt"
  "syn_of (json_flags c dt) = syn_of dt"
  by (simp_all add: json_flags_def)

lemma marker_nonempty [simp]:
  "tool_calls_start syn \<noteq> []" "tool_calls_end syn \<noteq> []" "invoke_start syn \<noteq> []"
  "invoke_end syn \<noteq> []" "param_start syn \<noteq> []" "param_end syn \<noteq> []"
  by (simp_all add: tool_calls_start_def tool_calls_end_def invoke_start_def invoke_end_def
      param_start_def param_end_def)

lemma skip_space_ge: "pos \<le> skip_space raw pos"
  by (simp add: skip_space_def)

lemma raw_full_lit_less: "raw_full_lit raw pos lit \<Longrightarrow> lit \<noteq> [] \<Longrightarrow> pos < length raw"
  by (cases lit) (auto simp: raw_full_lit_def)

lemma dsml_find_tool_start_from_ge:
  "dsml_find_tool_start_from raw start = Some (p, syn) \<Longrightarrow> start < p \<and> start \<le> length raw"
  by (auto simp: dsml_find_tool_start_from_def dsml_find_tool_start_def
      split: if_splits option.splits prod.splits)

text \<open>
  One iteration of a loop of \<open>dsml_decode_tracker_update\<close>, by the mode the tracker is in: \<open>Inl\<close>
  continues with the next iteration, \<open>Inr\<close> returns. A start marker leads straight into the structural
  loop, as does the end of a parameter; the structural loop reads closing and opening tags until
  it meets a parameter, the end of the block, or text it cannot use yet.
\<close>

type_synonym track_result = "dsml_decode_tracker + dsml_decode_tracker"

definition track_search :: "string \<Rightarrow> dsml_decode_tracker \<Rightarrow> track_result" where
  "track_search raw dt =
     (case dsml_find_tool_start_from raw (pos_of dt) of
        None \<Rightarrow>
          Inr (dt\<lparr>pos_of := (let hold = dsml_max_tool_start_len in
                             if length raw > hold then length raw - hold else 0),
                  decode := DECODE_OUTSIDE\<rparr>)
      | Some (p, syn) \<Rightarrow>
          Inl (dt\<lparr>syn_of := Some syn, pos_of := p, mode := TRACK_STRUCTURAL,
                  decode := DECODE_STRUCTURAL\<rparr>))"

definition track_string_body :: "string \<Rightarrow> dsml_decode_tracker \<Rightarrow> track_result" where
  "track_string_body raw dt =
     (if pos_of dt < length raw then
        (let e = param_end (the (syn_of dt)) in
         if raw_full_lit raw (pos_of dt) e then
           Inl (dt\<lparr>pos_of := pos_of dt + length e, mode := TRACK_STRUCTURAL,
                   decode := DECODE_STRUCTURAL\<rparr>)
         else if raw_partial_lit_min raw (pos_of dt) e 2 then Inr (dt\<lparr>decode := DECODE_STRUCTURAL\<rparr>)
         else Inl (dt\<lparr>pos_of := pos_of dt + 1\<rparr>))
      else Inr (dt\<lparr>decode := DECODE_STRING_BODY\<rparr>))"

definition track_json_param :: "string \<Rightarrow> dsml_decode_tracker \<Rightarrow> track_result" where
  "track_json_param raw dt =
     (if pos_of dt < length raw then
        (let e = param_end (the (syn_of dt)) in
         if \<not> json_in_string dt \<and> raw_full_lit raw (pos_of dt) e then
           Inl (dt\<lparr>pos_of := pos_of dt + length e, mode := TRACK_STRUCTURAL,
                   decode := DECODE_STRUCTURAL\<rparr>)
         else if \<not> json_in_string dt \<and> raw_partial_lit_min raw (pos_of dt) e 2 then
           Inr (dt\<lparr>decode := DECODE_STRUCTURAL\<rparr>)
         else Inl (json_flags (raw ! pos_of dt) (dt\<lparr>pos_of := pos_of dt + 1\<rparr>)))
      else Inr (dt\<lparr>decode := (if json_in_string dt then DECODE_JSON_STRING
                              else DECODE_JSON_STRUCTURAL)\<rparr>))"

text \<open>What stands at a position in the structural loop, with the bytes it takes.\<close>

datatype structural_item =
  Item_wait | Item_close | Item_skip nat | Item_param (string_value: bool) nat

definition structural_item :: "string \<Rightarrow> nat \<Rightarrow> dsml_syntax \<Rightarrow> structural_item" where
  "structural_item raw p syn =
     (if p \<ge> length raw then Item_wait
      else if raw_full_lit raw p (tool_calls_end syn) then Item_close
      else if raw_full_lit raw p (invoke_end syn) then Item_skip (length (invoke_end syn))
      else if raw_full_lit raw p (invoke_start syn) then
        (case memchr_pos (drop p raw) (CHR ''>'') of
           None \<Rightarrow> Item_wait
         | Some k \<Rightarrow> Item_skip (k + 1))
      else if raw_full_lit raw p (param_start syn) then
        (case memchr_pos (drop p raw) (CHR ''>'') of
           None \<Rightarrow> Item_wait
         | Some k \<Rightarrow> Item_param (dsml_attr_is_string_true raw p (p + k + 1)) (k + 1))
      else Item_wait)"

definition track_structural :: "string \<Rightarrow> dsml_decode_tracker \<Rightarrow> track_result" where
  "track_structural raw dt =
     (let p = skip_space raw (pos_of dt); syn = the (syn_of dt) in
      case structural_item raw p syn of
        Item_wait \<Rightarrow> Inr (dt\<lparr>pos_of := p, decode := DECODE_STRUCTURAL\<rparr>)
      | Item_close \<Rightarrow>
          Inr (dt\<lparr>mode := TRACK_DONE, pos_of := p + length (tool_calls_end syn),
                  decode := DECODE_OUTSIDE\<rparr>)
      | Item_skip n \<Rightarrow> Inl (dt\<lparr>pos_of := p + n\<rparr>)
      | Item_param is_string n \<Rightarrow>
          if is_string then
            Inl (dt\<lparr>pos_of := p + n, mode := TRACK_STRING_BODY, decode := DECODE_STRING_BODY\<rparr>)
          else
            Inl (dt\<lparr>pos_of := p + n, mode := TRACK_JSON_PARAM, json_in_string := False,
                    json_escaped := False, decode := DECODE_JSON_STRUCTURAL\<rparr>))"

lemma structural_item_bounds:
  "structural_item raw p syn = Item_skip n \<Longrightarrow> p < length raw \<and> 0 < n"
  "structural_item raw p syn = Item_param b n \<Longrightarrow> p < length raw \<and> 0 < n"
  by (auto simp: structural_item_def split: if_splits option.splits)

definition track_step :: "string \<Rightarrow> dsml_decode_tracker \<Rightarrow> track_result" where
  "track_step raw dt =
     (case mode dt of
        TRACK_DONE \<Rightarrow> Inr (dt\<lparr>decode := DECODE_OUTSIDE\<rparr>)
      | TRACK_SEARCH \<Rightarrow> track_search raw dt
      | TRACK_STRING_BODY \<Rightarrow> track_string_body raw dt
      | TRACK_JSON_PARAM \<Rightarrow> track_json_param raw dt
      | TRACK_STRUCTURAL \<Rightarrow> track_structural raw dt)"

lemmas track_step_defs = track_step_def track_search_def track_string_body_def
  track_json_param_def track_structural_def

definition track_measure :: "string \<Rightarrow> dsml_decode_tracker \<Rightarrow> nat" where
  "track_measure raw dt =
     2 * (length raw - pos_of dt) + (if mode dt = TRACK_SEARCH then 1 else 0)"

lemma track_step_measure:
  assumes "track_step raw dt = Inl dt'"
  shows "track_measure raw dt' < track_measure raw dt"
proof (cases "mode dt")
  case TRACK_SEARCH
  with assms show ?thesis
    by (auto simp: track_step_def track_search_def track_measure_def split: option.splits
        dest: dsml_find_tool_start_from_ge)
next
  case TRACK_STRUCTURAL
  have "pos_of dt \<le> skip_space raw (pos_of dt)" by (rule skip_space_ge)
  with assms TRACK_STRUCTURAL show ?thesis
    by (auto simp: track_step_def track_structural_def track_measure_def Let_def
        split: structural_item.splits if_splits dest!: structural_item_bounds)
qed (use assms in \<open>auto simp: track_step_defs track_measure_def Let_def split: if_splits
    intro!: diff_less_mono2\<close>)

function dsml_decode_tracker_update ::
  "string \<Rightarrow> dsml_decode_tracker \<Rightarrow> dsml_decode_tracker" where
  "dsml_decode_tracker_update raw dt =
     (case track_step raw dt of
        Inl dt' \<Rightarrow> dsml_decode_tracker_update raw dt'
      | Inr dt' \<Rightarrow> dt')"
  by pat_completeness auto
termination
  by (relation "measure (\<lambda>(raw, dt). track_measure raw dt)") (auto simp: track_step_measure)

declare dsml_decode_tracker_update.simps [simp del]

end
