(* ===== verification/Dsml_Tracker.thy ===== *)
theory Dsml_Tracker
  imports Dsml
begin

text \<open>
  The tracker on a text that arrives in pieces: every call leaves a state from which the call on
  the longer text continues as if it had seen the longer text at once, provided the text seen so
  far does not end in a single \<open><\<close>.
\<close>

abbreviation track :: "string \<Rightarrow> dsml_decode_tracker \<Rightarrow> dsml_decode_tracker" where
  "track \<equiv> dsml_decode_tracker_update"

lemmas track_unfold = dsml_decode_tracker_update.simps

section \<open>Matching and longer texts\<close>

lemma raw_full_lit_append: "raw_full_lit raw p lit \<Longrightarrow> raw_full_lit (raw @ m) p lit"
  by (auto simp: raw_full_lit_def)

lemma raw_full_lit_appendD:
  "raw_full_lit (raw @ m) p lit \<Longrightarrow> p + length lit \<le> length raw \<Longrightarrow> raw_full_lit raw p lit"
  by (auto simp: raw_full_lit_def)

lemma full_lits_comparable:
  assumes "raw_full_lit raw p a" and "raw_full_lit (raw @ m) p b"
  shows "take (length b) a = take (length a) b"
proof -
  have "raw_full_lit (raw @ m) p a" using assms(1) by (rule raw_full_lit_append)
  with assms(2) have ab: "take (length a) (drop p (raw @ m)) = a" "take (length b) (drop p (raw @ m)) = b"
    by (simp_all only: raw_full_lit_def)
  have "take (length b) (take (length a) (drop p (raw @ m))) =
      take (length a) (take (length b) (drop p (raw @ m)))"
    by (simp only: take_take min.commute)
  then show ?thesis by (simp only: ab)
qed

definition structural_markers :: "dsml_syntax \<Rightarrow> string list" where
  "structural_markers syn = [tool_calls_end syn, invoke_end syn, invoke_start syn, param_start syn]"

lemma markers_exclusive_eval:
  "list_all (\<lambda>syn. list_all (\<lambda>a. list_all (\<lambda>b. a = b \<or> take (length b) a \<noteq> take (length a) b)
     (structural_markers syn)) (structural_markers syn)) dsml_syntaxes"
  by code_simp

lemma syntaxes_all: "syn \<in> set dsml_syntaxes"
  by (cases syn) (simp_all add: dsml_syntaxes_def)

lemma markers_exclusive:
  assumes "a \<in> set (structural_markers syn)" and "b \<in> set (structural_markers syn)" and "a \<noteq> b"
  shows "take (length b) a \<noteq> take (length a) b"
  using markers_exclusive_eval syntaxes_all [of syn] assms by (simp only: list_all_iff) blast

lemma full_marker_unique:
  assumes "raw_full_lit raw p a" and "raw_full_lit (raw @ m) p b"
    and "a \<in> set (structural_markers syn)" and "b \<in> set (structural_markers syn)"
  shows "a = b"
  using full_lits_comparable [OF assms(1,2)] markers_exclusive [OF assms(3,4)] by blast

text \<open>
  At a position where neither the whole end marker nor at least two bytes of it stand, a longer text
  has none either, unless the position holds the last byte and it is a \<open><\<close>.
\<close>

definition no_cut :: "string \<Rightarrow> bool" where
  "no_cut raw \<longleftrightarrow> raw = [] \<or> last raw \<noteq> CHR ''<''"

lemma param_end_first: "param_end syn ! 0 = CHR ''<''"
  by (simp add: param_end_def)

lemma no_partial_end:
  assumes "p < length raw" and "no_cut raw"
    and "\<not> raw_full_lit raw p (param_end syn)" and "\<not> raw_partial_lit_min raw p (param_end syn) 2"
  shows "\<not> raw_full_lit (raw @ m) p (param_end syn)"
    and "\<not> raw_partial_lit_min (raw @ m) p (param_end syn) 2"
proof -
  let ?e = "param_end syn" and ?n = "length raw - p"
  have no: "take ?n (drop p (raw @ m)) \<noteq> take ?n ?e" if "?n < length ?e"
  proof (cases "2 \<le> ?n")
    case True
    with assms(1,4) that show ?thesis by (simp add: raw_partial_lit_min_def)
  next
    case False
    then have one: "?n = 1" using assms(1) by simp
    then have "raw ! p = last raw" using assms(1)
      by (metis One_nat_def Suc_diff_1 diff_Suc_eq_diff_pred diff_add_inverse2 last_conv_nth
          length_greater_0_conv less_nat_zero_code list.size(3) diff_diff_cancel less_imp_le)
    moreover have "take 1 (drop p (raw @ m)) = [raw ! p]"
      using assms(1) by (simp add: take_Suc_conv_app_nth hd_drop_conv_nth)
    moreover have "take 1 ?e = [CHR ''<'']" by (simp add: param_end_def)
    moreover have "last raw \<noteq> CHR ''<''" using assms(1,2) by (auto simp: no_cut_def)
    ultimately show ?thesis by (simp add: one)
  qed
  show "\<not> raw_full_lit (raw @ m) p ?e"
  proof
    assume f: "raw_full_lit (raw @ m) p ?e"
    show False
    proof (cases "?n < length ?e")
      case True
      from f have "take (length ?e) (drop p (raw @ m)) = ?e" by (simp add: raw_full_lit_def)
      then have "take ?n (drop p (raw @ m)) = take ?n ?e"
        using True by (metis less_imp_le min.absorb1 take_take)
      with no True show False by blast
    next
      case False
      with f assms(1,3) raw_full_lit_appendD show False by fastforce
    qed
  qed
  show "\<not> raw_partial_lit_min (raw @ m) p ?e 2"
  proof
    assume f: "raw_partial_lit_min (raw @ m) p ?e 2"
    then have l: "?n < length ?e" and "drop p (raw @ m) = take (length (raw @ m) - p) ?e"
      by (auto simp: raw_partial_lit_min_def)
    then have "take ?n (drop p (raw @ m)) = take ?n ?e"
      by (metis diff_le_mono le_add1 length_append min.absorb1 take_take)
    with no l show False by blast
  qed
qed

lemma skip_space_le: "p \<le> length raw \<Longrightarrow> skip_space raw p \<le> length raw"
  using length_takeWhile_le [of isspace "drop p raw"] by (simp add: skip_space_def)

lemma skip_space_append_inside:
  assumes "skip_space raw p < length raw"
  shows "skip_space (raw @ m) p = skip_space raw p"
proof -
  have "\<exists>x \<in> set (drop p raw). \<not> isspace x"
  proof (rule ccontr)
    assume "\<not> ?thesis"
    then have "takeWhile isspace (drop p raw) = drop p raw" by (simp add: takeWhile_eq_all_conv)
    with assms show False by (simp add: skip_space_def)
  qed
  moreover have "p < length raw" using assms by (simp add: skip_space_def)
  ultimately show ?thesis by (auto simp: skip_space_def)
qed

lemma skip_space_append_end:
  assumes "p \<le> length raw" and "length raw \<le> skip_space raw p"
  shows "skip_space (raw @ m) (skip_space raw p) = skip_space (raw @ m) p"
proof -
  have "length (takeWhile isspace (drop p raw)) = length (drop p raw)"
    using assms length_takeWhile_le [of isspace "drop p raw"] by (simp add: skip_space_def)
  then have "takeWhile isspace (drop p raw) = drop p raw"
    by (metis append_eq_conv_conj takeWhile_eq_take take_all_iff order_refl)
  then have "\<forall>x \<in> set (drop p raw). isspace x" by (simp add: takeWhile_eq_all_conv)
  moreover have "skip_space raw p = length raw" using skip_space_le [OF assms(1)] assms(2) by simp
  ultimately show ?thesis using assms(1) by (simp add: skip_space_def)
qed

section \<open>The last decode state does not matter\<close>

definition core :: "dsml_decode_tracker \<Rightarrow> dsml_decode_tracker" where
  "core dt = dt\<lparr>decode := DECODE_OUTSIDE\<rparr>"

lemma core_fields:
  assumes "core a = core b"
  shows "mode a = mode b" "syn_of a = syn_of b" "pos_of a = pos_of b"
    "json_in_string a = json_in_string b" "json_escaped a = json_escaped b"
  using assms by (cases a; cases b; simp add: core_def)+

lemma core_decode: "core a = core b \<Longrightarrow> b = a\<lparr>decode := decode b\<rparr>"
  by (cases a; cases b; simp add: core_def)

lemma track_step_core:
  "case track_step raw dt of
     Inl a \<Rightarrow> \<exists>a'. track_step raw (dt\<lparr>decode := d\<rparr>) = Inl a' \<and> core a' = core a
   | Inr r \<Rightarrow> track_step raw (dt\<lparr>decode := d\<rparr>) = Inr r"
proof (cases dt)
  case (fields mo de sy po js je)
  show ?thesis
  proof (cases mo)
    case TRACK_SEARCH
    then show ?thesis
      by (simp add: fields track_step_def track_search_def core_def split: option.split prod.split)
  next
    case TRACK_STRUCTURAL
    then show ?thesis
      by (simp add: fields track_step_def track_structural_def core_def Let_def
          split: structural_item.split)
  next
    case TRACK_STRING_BODY
    then show ?thesis
      by (simp add: fields track_step_def track_string_body_def core_def Let_def)
  next
    case TRACK_JSON_PARAM
    then show ?thesis
      by (simp add: fields track_step_def track_json_param_def core_def json_flags_def Let_def)
  next
    case TRACK_DONE
    then show ?thesis by (simp add: fields track_step_def core_def)
  qed
qed

lemma track_core: "core dt = core dt' \<Longrightarrow> track raw dt' = track raw dt"
proof (induction raw dt arbitrary: dt' rule: dsml_decode_tracker_update.induct)
  case (1 raw dt)
  have step: "case track_step raw dt of
      Inl a \<Rightarrow> \<exists>a'. track_step raw dt' = Inl a' \<and> core a' = core a
    | Inr r \<Rightarrow> track_step raw dt' = Inr r"
    using track_step_core [where raw = raw and dt = dt and d = "decode dt'"]
    by (simp only: core_decode [OF "1.prems", symmetric])
  show ?case
  proof (cases "track_step raw dt")
    case (Inl a)
    with step obtain a' where "track_step raw dt' = Inl a'" "core a' = core a" by auto
    with 1(1) [OF Inl, of a'] Inl show ?thesis by (simp add: track_unfold [of raw])
  next
    case (Inr r)
    with step show ?thesis by (simp add: track_unfold [of raw])
  qed
qed

section \<open>Continuing on a longer text\<close>

lemma markers_distinct: "distinct (structural_markers syn)"
  by (cases syn) (simp_all add: structural_markers_def tool_calls_end_def invoke_end_def
      invoke_start_def param_start_def dsml_prefix_def DS4_DSML_def DS4_DSML_SHORT_def
      fullwidth_bar_def)

lemma other_marker:
  assumes "raw_full_lit raw p a" and "a \<in> set (structural_markers syn)"
    and "b \<in> set (structural_markers syn)" and "a \<noteq> b"
  shows "\<not> raw_full_lit (raw @ m) p b"
  using full_marker_unique assms by blast

lemma dsml_attr_is_string_true_append:
  "tag_end \<le> length raw \<Longrightarrow> tag_start \<le> tag_end \<Longrightarrow>
     dsml_attr_is_string_true (raw @ m) tag_start tag_end = dsml_attr_is_string_true raw tag_start tag_end"
  by (simp add: dsml_attr_is_string_true_def)

lemma structural_item_append:
  assumes "structural_item raw p syn \<noteq> Item_wait"
  shows "structural_item (raw @ m) p syn = structural_item raw p syn"
proof -
  have p: "p < length raw" using assms by (auto simp: structural_item_def split: if_splits)
  have drop: "drop p (raw @ m) = drop p raw @ m" using p by simp
  note ms = structural_markers_def [of syn]
  note d = markers_distinct [of syn, unfolded ms]
  consider (close) "raw_full_lit raw p (tool_calls_end syn)"
    | (inv_end) "raw_full_lit raw p (invoke_end syn)" "\<not> raw_full_lit raw p (tool_calls_end syn)"
    | (inv) k where "raw_full_lit raw p (invoke_start syn)"
        "\<not> raw_full_lit raw p (invoke_end syn)" "\<not> raw_full_lit raw p (tool_calls_end syn)"
        "memchr_pos (drop p raw) (CHR ''>'') = Some k"
    | (par) k where "raw_full_lit raw p (param_start syn)"
        "\<not> raw_full_lit raw p (invoke_start syn)"
        "\<not> raw_full_lit raw p (invoke_end syn)" "\<not> raw_full_lit raw p (tool_calls_end syn)"
        "memchr_pos (drop p raw) (CHR ''>'') = Some k"
    using assms by (auto simp: structural_item_def split: if_splits option.splits)
  then show ?thesis
  proof cases
    case close
    with p raw_full_lit_append [OF close, of m] show ?thesis by (simp add: structural_item_def)
  next
    case inv_end
    have "\<not> raw_full_lit (raw @ m) p (tool_calls_end syn)"
      by (rule other_marker [OF inv_end(1), of syn]) (use d in \<open>auto simp: ms\<close>)
    with inv_end p raw_full_lit_append [OF inv_end(1), of m] show ?thesis
      by (simp add: structural_item_def)
  next
    case (inv k)
    have "\<not> raw_full_lit (raw @ m) p b" if "b \<in> {tool_calls_end syn, invoke_end syn}" for b
      by (rule other_marker [OF inv(1), of syn]) (use d that in \<open>auto simp: ms\<close>)
    with inv p raw_full_lit_append [OF inv(1), of m] memchr_pos_append [OF inv(4), of m] show ?thesis
      by (simp add: structural_item_def drop del: drop_append)
  next
    case (par k)
    have "\<not> raw_full_lit (raw @ m) p b"
      if "b \<in> {tool_calls_end syn, invoke_end syn, invoke_start syn}" for b
      by (rule other_marker [OF par(1), of syn]) (use d that in \<open>auto simp: ms\<close>)
    moreover have "p + k + 1 \<le> length raw" using memchr_pos_less [OF par(5)] by auto
    ultimately show ?thesis
      using par p raw_full_lit_append [OF par(1), of m] memchr_pos_append [OF par(5), of m]
        dsml_attr_is_string_true_append [of "p + k + 1" raw p m]
      by (simp add: structural_item_def drop del: drop_append)
  qed
qed

lemma skip_space_idem: "skip_space raw (skip_space raw p) = skip_space raw p"
proof -
  have "drop (skip_space raw p) raw = dropWhile isspace (drop p raw)"
    by (simp add: skip_space_def dropWhile_eq_drop add.commute)
  moreover have "takeWhile isspace (dropWhile isspace xs) = []" for xs
    by (induction xs) auto
  ultimately have "takeWhile isspace (drop (skip_space raw p) raw) = []" by simp
  then show ?thesis by (simp add: skip_space_def [of raw "skip_space raw p"])
qed

lemma track_structural_pos:
  assumes "mode dt = TRACK_STRUCTURAL" and "skip_space raw q = skip_space raw (pos_of dt)"
  shows "track raw (dt\<lparr>pos_of := q, decode := d\<rparr>) = track raw dt"
proof -
  have "track_step raw (dt\<lparr>pos_of := q\<rparr>) = track_step raw dt"
    using assms by (cases dt) (simp add: track_step_def track_structural_def Let_def
        split: structural_item.split)
  then have "track raw (dt\<lparr>pos_of := q\<rparr>) = track raw dt" by (simp add: track_unfold [of raw])
  moreover have "track raw (dt\<lparr>pos_of := q, decode := d\<rparr>) = track raw (dt\<lparr>pos_of := q\<rparr>)"
    by (rule track_core) (simp add: core_def)
  ultimately show ?thesis by simp
qed

text \<open>
  A step outside the search: either the step on the longer text is the same, or the state it returns
  is one from which the longer text is read as from the state before the step.
\<close>

definition step_continues :: "string \<Rightarrow> string \<Rightarrow> dsml_decode_tracker \<Rightarrow> bool" where
  "step_continues raw m dt \<longleftrightarrow>
     (case track_step raw dt of
        Inl a \<Rightarrow> track_step (raw @ m) dt = Inl a \<and> mode a \<noteq> TRACK_SEARCH \<and> pos_of a \<le> length raw
      | Inr r \<Rightarrow> track (raw @ m) r = track (raw @ m) dt \<and> mode r \<noteq> TRACK_SEARCH \<and>
          pos_of r \<le> length raw)"

lemma track_decode: "track raw (dt\<lparr>decode := d\<rparr>) = track raw dt"
  by (rule track_core) (simp add: core_def)

lemma raw_full_lit_end: "raw_full_lit raw p lit \<Longrightarrow> p + length lit \<le> length raw"
  by (auto simp: raw_full_lit_def)

lemma track_finished:
  "mode r = TRACK_DONE \<Longrightarrow> decode r = DECODE_OUTSIDE \<Longrightarrow> track raw r = r"
  by (subst track_unfold) (cases r, simp add: track_step_def)

lemma structural_step_continues:
  assumes "mode dt = TRACK_STRUCTURAL" and "pos_of dt \<le> length raw"
  shows "step_continues raw m dt"
proof -
  define p where "p = skip_space raw (pos_of dt)"
  let ?syn = "the (syn_of dt)"
  have ple: "p \<le> length raw" unfolding p_def by (rule skip_space_le [OF assms(2)])
  show ?thesis
  proof (cases "structural_item raw p ?syn = Item_wait")
    case True
    have "skip_space (raw @ m) p = skip_space (raw @ m) (pos_of dt)"
    proof (cases "p < length raw")
      case True
      then show ?thesis
        using skip_space_append_inside [of raw "pos_of dt" m] skip_space_idem
        by (metis p_def)
    next
      case False
      then show ?thesis
        using skip_space_append_end [OF assms(2)] by (simp add: p_def)
    qed
    from track_structural_pos [OF assms(1) this] True show ?thesis
      using assms(1) ple
      by (simp add: step_continues_def track_step_def track_structural_def p_def [symmetric] Let_def)
  next
    case False
    then have "p < length raw" by (auto simp: structural_item_def split: if_splits)
    then have "skip_space (raw @ m) (pos_of dt) = p"
      using skip_space_append_inside p_def by simp
    moreover note structural_item_append [OF False, of m]
    ultimately have "track_step (raw @ m) dt = track_step raw dt"
      using assms(1) by (simp add: track_step_def track_structural_def p_def [symmetric] Let_def)
    moreover have "case track_step raw dt of
        Inl a \<Rightarrow> mode a \<noteq> TRACK_SEARCH \<and> pos_of a \<le> length raw
      | Inr r \<Rightarrow> mode r = TRACK_DONE \<and> decode r = DECODE_OUTSIDE \<and> pos_of r \<le> length raw"
      using False assms(1)
      by (auto simp: track_step_def track_structural_def p_def [symmetric] Let_def
          structural_item_def split: if_splits option.splits
          dest: raw_full_lit_end memchr_pos_less)
    ultimately show ?thesis
      using track_finished track_unfold [of "raw @ m" dt]
      by (cases "track_step raw dt") (auto simp: step_continues_def)
  qed
qed

lemma string_step_continues:
  assumes "mode dt = TRACK_STRING_BODY" and "pos_of dt \<le> length raw"
    and "no_cut raw"
  shows "step_continues raw m dt"
proof -
  let ?e = "param_end (the (syn_of dt))"
  have step: "track_step raw' dt = track_string_body raw' dt" for raw'
    using assms(1) by (simp add: track_step_def)
  consider (full) "raw_full_lit raw (pos_of dt) ?e"
    | (partial) "\<not> raw_full_lit raw (pos_of dt) ?e" "raw_partial_lit_min raw (pos_of dt) ?e 2"
    | (neither) "pos_of dt < length raw" "\<not> raw_full_lit raw (pos_of dt) ?e"
        "\<not> raw_partial_lit_min raw (pos_of dt) ?e 2"
    | (ended) "pos_of dt = length raw" "\<not> raw_full_lit raw (pos_of dt) ?e"
        "\<not> raw_partial_lit_min raw (pos_of dt) ?e 2"
    using assms(2) by linarith
  then show ?thesis
  proof cases
    case full
    then have "pos_of dt < length raw" by (rule raw_full_lit_less) simp
    with full raw_full_lit_append [OF full, of m] raw_full_lit_end [OF full] assms show ?thesis
      by (simp add: step_continues_def step track_string_body_def Let_def)
  next
    case partial
    then have "pos_of dt < length raw" by (auto simp: raw_partial_lit_min_def)
    with partial assms show ?thesis
      by (simp add: step_continues_def step track_string_body_def track_decode)
  next
    case neither
    with no_partial_end [OF neither(1) assms(3) neither(2,3), of m] assms show ?thesis
      by (simp add: step_continues_def step track_string_body_def Let_def)
  next
    case ended
    with assms show ?thesis
      by (simp add: step_continues_def step track_string_body_def track_decode)
  qed
qed

lemma json_step_continues:
  assumes "mode dt = TRACK_JSON_PARAM" and "pos_of dt \<le> length raw"
    and "no_cut raw"
  shows "step_continues raw m dt"
proof -
  let ?e = "param_end (the (syn_of dt))"
  have step: "track_step raw' dt = track_json_param raw' dt" for raw'
    using assms(1) by (simp add: track_step_def)
  consider (full) "\<not> json_in_string dt" "raw_full_lit raw (pos_of dt) ?e"
    | (partial) "\<not> json_in_string dt" "\<not> raw_full_lit raw (pos_of dt) ?e"
        "raw_partial_lit_min raw (pos_of dt) ?e 2"
    | (neither) "pos_of dt < length raw" "\<not> raw_full_lit raw (pos_of dt) ?e"
        "\<not> raw_partial_lit_min raw (pos_of dt) ?e 2"
    | (inside) "pos_of dt < length raw" "json_in_string dt"
    | (ended) "pos_of dt = length raw"
    using assms(2) by linarith
  then show ?thesis
  proof cases
    case full
    then have "pos_of dt < length raw" using raw_full_lit_less by fastforce
    with full raw_full_lit_append [OF full(2), of m] raw_full_lit_end [OF full(2)] assms show ?thesis
      by (simp add: step_continues_def step track_json_param_def Let_def)
  next
    case partial
    then have "pos_of dt < length raw" by (auto simp: raw_partial_lit_min_def)
    with partial assms show ?thesis
      by (simp add: step_continues_def step track_json_param_def track_decode)
  next
    case neither
    with no_partial_end [OF neither(1) assms(3) neither(2,3), of m] assms show ?thesis
      by (simp add: step_continues_def step track_json_param_def Let_def nth_append)
  next
    case inside
    with assms show ?thesis
      by (simp add: step_continues_def step track_json_param_def Let_def nth_append)
  next
    case ended
    with assms show ?thesis
      by (simp add: step_continues_def step track_json_param_def track_decode)
  qed
qed

lemma track_step_continues:
  assumes "mode dt \<noteq> TRACK_SEARCH" and "pos_of dt \<le> length raw" and "no_cut raw"
  shows "step_continues raw m dt"
proof (cases "mode dt")
  case TRACK_DONE
  with assms(2) show ?thesis by (simp add: step_continues_def track_step_def track_decode)
qed (use assms structural_step_continues string_step_continues json_step_continues in auto)

lemma track_append:
  assumes "no_cut raw"
  shows "mode dt \<noteq> TRACK_SEARCH \<Longrightarrow> pos_of dt \<le> length raw \<Longrightarrow>
    track (raw @ m) (track raw dt) = track (raw @ m) dt \<and>
    mode (track raw dt) \<noteq> TRACK_SEARCH \<and> pos_of (track raw dt) \<le> length raw"
  using assms
proof (induction raw dt rule: dsml_decode_tracker_update.induct)
  case (1 raw dt)
  have cont: "step_continues raw m dt" by (rule track_step_continues [OF 1(2-4)])
  show ?case
  proof (cases "track_step raw dt")
    case (Inl a)
    with cont have "track_step (raw @ m) dt = Inl a" "mode a \<noteq> TRACK_SEARCH" "pos_of a \<le> length raw"
      by (simp_all add: step_continues_def)
    with 1(1) [OF Inl _ _ 1(4)] Inl show ?thesis
      by (simp add: track_unfold [of raw dt] track_unfold [of "raw @ m" dt])
  next
    case (Inr r)
    with cont show ?thesis by (simp add: track_unfold [of raw dt] step_continues_def)
  qed
qed

section \<open>Searching for the start of a block\<close>

definition marker_at :: "string \<Rightarrow> nat \<Rightarrow> dsml_syntax \<Rightarrow> bool" where
  "marker_at raw p syn = occurs_at raw (tool_calls_start syn) p"

definition first_marker :: "string \<Rightarrow> nat \<Rightarrow> dsml_syntax \<Rightarrow> bool" where
  "first_marker raw p syn \<longleftrightarrow> marker_at raw p syn \<and> (\<forall>q syn'. marker_at raw q syn' \<longrightarrow> p \<le> q)"

text \<open>Only the first byte of a start marker is a \<open><\<close>, so two of them never overlap.\<close>

lemma start_marker_inner_eval:
  "list_all (\<lambda>syn. hd (tool_calls_start syn) = CHR ''<'' \<and>
     CHR ''<'' \<notin> set (tl (tool_calls_start syn)) \<and> length (tool_calls_start syn) \<le> 22) dsml_syntaxes"
  by code_simp

lemma start_marker_inner:
  "hd (tool_calls_start syn) = CHR ''<''" "CHR ''<'' \<notin> set (tl (tool_calls_start syn))"
  "length (tool_calls_start syn) \<le> 22"
  using start_marker_inner_eval syntaxes_all [of syn] by (simp_all add: list_all_iff)

lemma marker_at_nth:
  assumes "marker_at raw p syn" and "i < length (tool_calls_start syn)"
  shows "raw ! (p + i) = tool_calls_start syn ! i" and "p + i < length raw"
  using assms occurs_at_length [of raw "tool_calls_start syn" p]
  by (auto simp: marker_at_def occurs_at_iff nth_append)

lemma markers_disjoint:
  assumes "marker_at raw p syn" and "marker_at raw q syn'" and "p < q"
  shows "p + length (tool_calls_start syn) \<le> q"
proof (rule ccontr)
  assume no: "\<not> ?thesis"
  obtain k where q: "q = p + Suc k" using assms(3) less_iff_Suc_add by auto
  with no have k: "Suc k < length (tool_calls_start syn)" by simp
  have "raw ! q = tool_calls_start syn ! Suc k"
    using marker_at_nth(1) [OF assms(1) k] by (simp only: q)
  also have "\<dots> = tl (tool_calls_start syn) ! k" using k by (simp add: nth_tl)
  also have "\<dots> \<in> set (tl (tool_calls_start syn))" using k by (intro nth_mem) simp
  finally have "raw ! q \<noteq> CHR ''<''" using start_marker_inner(2) by metis
  moreover have "raw ! q = CHR ''<''"
    using marker_at_nth(1) [OF assms(2), of 0] start_marker_inner(1) by (simp add: hd_conv_nth)
  ultimately show False by simp
qed

lemma list_allD: "list_all P xs \<Longrightarrow> x \<in> set xs \<Longrightarrow> P x"
  by (simp add: list_all_iff)

lemma start_markers_exclusive_eval:
  "list_all (\<lambda>a. list_all (\<lambda>b. a = b \<or>
     take (length (tool_calls_start b)) (tool_calls_start a) \<noteq>
     take (length (tool_calls_start a)) (tool_calls_start b)) dsml_syntaxes) dsml_syntaxes"
  by code_simp

lemma marker_at_take:
  "marker_at raw p syn \<Longrightarrow> take (length (tool_calls_start syn)) (drop p raw) = tool_calls_start syn"
  by (auto simp: marker_at_def occurs_at_iff)

lemma markers_same:
  assumes "marker_at raw p a" and "marker_at raw p b"
  shows "a = b"
proof (rule ccontr)
  let ?a = "tool_calls_start a" and ?b = "tool_calls_start b"
  assume "a \<noteq> b"
  have "a = b \<or> take (length ?b) ?a \<noteq> take (length ?a) ?b"
    using start_markers_exclusive_eval [THEN list_allD, OF syntaxes_all, THEN list_allD, OF syntaxes_all] .
  with \<open>a \<noteq> b\<close> have ne: "take (length ?b) ?a \<noteq> take (length ?a) ?b" by simp
  have ab: "take (length ?a) (drop p raw) = ?a" "take (length ?b) (drop p raw) = ?b"
    by (rule marker_at_take [OF assms(1)], rule marker_at_take [OF assms(2)])
  have "take (length ?b) (take (length ?a) (drop p raw)) = take (length ?a) (take (length ?b) (drop p raw))"
    by (simp only: take_take min.commute)
  with ne show False by (simp only: ab)
qed

lemma strstr_marker:
  "strstr_pos raw (tool_calls_start syn) = None \<longleftrightarrow> (\<forall>q. \<not> marker_at raw q syn)"
  "strstr_pos raw (tool_calls_start syn) = Some p \<longleftrightarrow>
     marker_at raw p syn \<and> (\<forall>q. marker_at raw q syn \<longrightarrow> p \<le> q)"
  by (auto simp: marker_at_def strstr_pos_None_iff strstr_pos_Some_iff not_less [symmetric])

definition best_of :: "string \<Rightarrow> dsml_syntax list \<Rightarrow> (nat \<times> dsml_syntax) option \<Rightarrow>
    (nat \<times> dsml_syntax) option \<Rightarrow> bool" where
  "best_of raw ss best r \<longleftrightarrow>
     (case r of
        None \<Rightarrow> best = None \<and> (\<forall>s \<in> set ss. \<forall>q. \<not> marker_at raw q s)
      | Some (p, s) \<Rightarrow>
          (best = Some (p, s) \<or> marker_at raw p s) \<and>
          (\<forall>bp bs. best = Some (bp, bs) \<longrightarrow> p \<le> bp) \<and>
          (\<forall>s' \<in> set ss. \<forall>q. marker_at raw q s' \<longrightarrow> p \<le> q))"

lemma best_of_step: "best_of raw [syn] best (tool_start_step raw syn best)"
proof (cases "strstr_pos raw (tool_calls_start syn)")
  case None
  then show ?thesis
    by (simp add: best_of_def tool_start_step_def strstr_marker split: option.split)
next
  case (Some p)
  with Some [unfolded strstr_marker] show ?thesis
    by (fastforce simp: best_of_def tool_start_step_def split: option.split)
qed

lemma best_of_trans:
  "best_of raw [s] best r \<Longrightarrow> best_of raw ss r r' \<Longrightarrow> best_of raw (s # ss) best r'"
  by (cases r; cases r') (fastforce simp: best_of_def)+

lemma best_of_fold: "best_of raw ss best (fold (tool_start_step raw) ss best)"
proof (induction ss arbitrary: best)
  case Nil
  show ?case by (simp add: best_of_def split: option.split)
next
  case (Cons s ss)
  show ?case using best_of_trans [OF best_of_step Cons] by simp
qed

lemma dsml_find_tool_start_None:
  "dsml_find_tool_start raw = None \<longleftrightarrow> (\<forall>q syn. \<not> marker_at raw q syn)"
proof -
  have "best_of raw dsml_syntaxes None (fold (tool_start_step raw) dsml_syntaxes None)"
    by (rule best_of_fold)
  then show ?thesis
    by (auto simp: dsml_find_tool_start_def best_of_def syntaxes_all split: option.splits)
qed

lemma dsml_find_tool_start_Some:
  "dsml_find_tool_start raw = Some (e, syn) \<longleftrightarrow>
     (\<exists>p. e = p + length (tool_calls_start syn) \<and> first_marker raw p syn)"
proof -
  have b: "best_of raw dsml_syntaxes None (fold (tool_start_step raw) dsml_syntaxes None)"
    by (rule best_of_fold)
  have u: "p = q \<and> a = c" if "first_marker raw p a" "first_marker raw q c" for p q a c
    using that markers_same [of raw p a c] unfolding first_marker_def by (metis antisym)
  show ?thesis
  proof (cases "fold (tool_start_step raw) dsml_syntaxes None")
    case None
    with b have "\<not> marker_at raw q s" for q s by (simp add: best_of_def syntaxes_all)
    with None show ?thesis by (simp add: dsml_find_tool_start_def first_marker_def)
  next
    case (Some r)
    obtain p s where r: "r = (p, s)" by (cases r)
    with b Some have f: "first_marker raw p s"
      by (simp add: best_of_def first_marker_def syntaxes_all)
    have "dsml_find_tool_start raw = Some (p + length (tool_calls_start s), s)"
      by (simp add: dsml_find_tool_start_def Some r)
    moreover have "first_marker raw q c \<longleftrightarrow> q = p \<and> c = s" for q c
      using f u [OF f] by blast
    ultimately show ?thesis by auto
  qed
qed

text \<open>
  A search may start at any position before which no marker of a longer text starts: the tracker keeps such a
  position by staying 22 bytes, the length of the longest marker, before the end of the text.
\<close>

definition search_ok :: "string \<Rightarrow> dsml_decode_tracker \<Rightarrow> bool" where
  "search_ok raw dt \<longleftrightarrow> mode dt = TRACK_SEARCH \<and> pos_of dt \<le> length raw \<and>
     (\<forall>m q syn. marker_at (raw @ m) q syn \<longrightarrow> pos_of dt \<le> q)"

definition tracker_inv :: "string \<Rightarrow> dsml_decode_tracker \<Rightarrow> bool" where
  "tracker_inv raw dt \<longleftrightarrow>
     search_ok raw dt \<or> (mode dt \<noteq> TRACK_SEARCH \<and> pos_of dt \<le> length raw)"

lemma search_ok_append: "search_ok raw dt \<Longrightarrow> search_ok (raw @ m) dt"
  by (simp add: search_ok_def)

lemma tracker_inv_append: "tracker_inv raw dt \<Longrightarrow> tracker_inv (raw @ m) dt"
  by (auto simp: tracker_inv_def search_ok_append)

lemma marker_at_drop: "k \<le> length raw \<Longrightarrow> marker_at (drop k raw) q syn \<longleftrightarrow> marker_at raw (k + q) syn"
  by (simp add: marker_at_def occurs_at_drop)

lemma first_marker_drop:
  assumes "k \<le> length raw" and "\<And>q syn. marker_at raw q syn \<Longrightarrow> k \<le> q"
  shows "first_marker (drop k raw) q syn \<longleftrightarrow> first_marker raw (k + q) syn"
  unfolding first_marker_def marker_at_drop [OF assms(1)]
  using assms(2) by (metis add_le_cancel_left le_add_diff_inverse)

lemma find_from_here:
  assumes "k \<le> length raw" and "\<And>q syn. marker_at raw q syn \<Longrightarrow> k \<le> q"
  shows "dsml_find_tool_start_from raw k = dsml_find_tool_start raw"
proof (cases "dsml_find_tool_start (drop k raw)")
  case None
  then have no: "\<not> marker_at raw (k + q) syn" for q syn
    using assms(1) by (simp add: dsml_find_tool_start_None marker_at_drop)
  have "\<not> marker_at raw q syn" for q syn
    using assms(2) [of q syn] no [of "q - k" syn] by auto
  then have "dsml_find_tool_start raw = None" by (simp add: dsml_find_tool_start_None)
  with None assms(1) show ?thesis by (simp add: dsml_find_tool_start_from_def)
next
  case (Some r)
  obtain e syn where r: "r = (e, syn)" by (cases r)
  with Some obtain p where p: "e = p + length (tool_calls_start syn)" "first_marker raw (k + p) syn"
    by (auto simp: dsml_find_tool_start_Some first_marker_drop [OF assms])
  then have "dsml_find_tool_start raw = Some (k + e, syn)"
    by (auto simp: dsml_find_tool_start_Some)
  with Some r assms(1) show ?thesis by (simp add: dsml_find_tool_start_from_def)
qed

lemma find_append:
  assumes "dsml_find_tool_start raw = Some (e, syn)"
  shows "dsml_find_tool_start (raw @ m) = Some (e, syn)" and "e \<le> length raw"
proof -
  from assms obtain p where p: "e = p + length (tool_calls_start syn)" "first_marker raw p syn"
    by (auto simp: dsml_find_tool_start_Some)
  then have at: "marker_at raw p syn" by (simp add: first_marker_def)
  then have at': "marker_at (raw @ m) p syn" by (simp add: marker_at_def occurs_at_append)
  show el: "e \<le> length raw" using at p(1) by (auto simp: marker_at_def dest: occurs_at_length)
  have "p \<le> q" if q: "marker_at (raw @ m) q s" for q s
  proof (rule ccontr)
    assume "\<not> p \<le> q"
    then have "q + length (tool_calls_start s) \<le> length raw"
      using markers_disjoint [OF q at'] el p(1) by simp
    then have "marker_at raw q s" using q occurs_at_appendD by (auto simp: marker_at_def)
    with p(2) \<open>\<not> p \<le> q\<close> show False by (auto simp: first_marker_def)
  qed
  with at' p(1) show "dsml_find_tool_start (raw @ m) = Some (e, syn)"
    by (auto simp: dsml_find_tool_start_Some first_marker_def)
qed

lemma dsml_max_tool_start_len_22: "dsml_max_tool_start_len = 22"
  by code_simp

lemma search_ok_none:
  assumes "dsml_find_tool_start raw = None" and "mode r = TRACK_SEARCH"
    and "pos_of r = length raw - 22"
  shows "search_ok raw r"
  unfolding search_ok_def
proof (intro conjI allI impI)
  fix m q syn
  assume q: "marker_at (raw @ m) q syn"
  show "pos_of r \<le> q"
  proof (rule ccontr)
    assume "\<not> ?thesis"
    then have "q + length (tool_calls_start syn) \<le> length raw"
      using assms(3) start_marker_inner(3) [of syn] by simp
    then have "marker_at raw q syn" using q occurs_at_appendD by (auto simp: marker_at_def)
    with assms(1) show False by (simp add: dsml_find_tool_start_None)
  qed
qed (use assms in auto)

lemma search_ok_step:
  assumes "search_ok raw dt"
  shows "track_step raw dt = (case dsml_find_tool_start raw of
      None \<Rightarrow> Inr (dt\<lparr>pos_of := length raw - 22, decode := DECODE_OUTSIDE\<rparr>)
    | Some (p, syn) \<Rightarrow> Inl (dt\<lparr>syn_of := Some syn, pos_of := p, mode := TRACK_STRUCTURAL,
                           decode := DECODE_STRUCTURAL\<rparr>))"
proof -
  have "marker_at raw q syn \<Longrightarrow> pos_of dt \<le> q" for q syn
    using assms [unfolded search_ok_def] append_Nil2 [of raw] by metis
  then have "dsml_find_tool_start_from raw (pos_of dt) = dsml_find_tool_start raw"
    using assms by (intro find_from_here) (auto simp: search_ok_def)
  with assms show ?thesis
    by (auto simp: track_step_def track_search_def search_ok_def dsml_max_tool_start_len_22 Let_def
        split: option.split)
qed

lemma search_same:
  assumes "search_ok raw dt" and "search_ok raw r" and "r = dt\<lparr>pos_of := k, decode := d\<rparr>"
  shows "track raw r = track raw dt"
proof -
  have "track raw (r\<lparr>decode := decode dt\<rparr>) = track raw dt"
    using search_ok_step [OF assms(1)] search_ok_step [of raw "r\<lparr>decode := decode dt\<rparr>"] assms
    by (simp add: search_ok_def track_unfold [of raw] split: option.split)
  then show ?thesis by (simp only: track_decode)
qed

lemma track_continues:
  assumes "tracker_inv raw dt" and "no_cut raw"
  shows "track (raw @ m) (track raw dt) = track (raw @ m) dt \<and> tracker_inv raw (track raw dt)"
proof (cases "mode dt = TRACK_SEARCH")
  case False
  with assms track_append [of raw dt m] show ?thesis
    by (auto simp: tracker_inv_def search_ok_def)
next
  case True
  with assms(1) have ok: "search_ok raw dt" by (simp add: tracker_inv_def)
  show ?thesis
  proof (cases "dsml_find_tool_start raw")
    case None
    let ?r = "dt\<lparr>pos_of := length raw - 22, decode := DECODE_OUTSIDE\<rparr>"
    have r: "track raw dt = ?r"
      using search_ok_step [OF ok] None by (simp add: track_unfold [of raw])
    have ok': "search_ok raw ?r" using None True by (intro search_ok_none) simp_all
    from search_same [OF search_ok_append [OF ok] search_ok_append [OF ok'] refl] ok' show ?thesis
      by (simp add: r tracker_inv_def)
  next
    case (Some x)
    obtain e syn where x: "x = (e, syn)" by (cases x)
    note found = find_append(1) [OF Some [unfolded x], of m] find_append(2) [OF Some [unfolded x]]
    let ?a = "dt\<lparr>syn_of := Some syn, pos_of := e, mode := TRACK_STRUCTURAL, decode := DECODE_STRUCTURAL\<rparr>"
    have "track raw dt = track raw ?a" "track (raw @ m) dt = track (raw @ m) ?a"
      using search_ok_step [OF ok] search_ok_step [OF search_ok_append [OF ok, of m]] Some found x
      by (simp_all add: track_unfold [of raw dt] track_unfold [of "raw @ m" dt])
    with track_append [OF assms(2), of ?a m] found(2) show ?thesis by (simp add: tracker_inv_def)
  qed
qed

text \<open>The tracker is updated with the whole text after every piece of it.\<close>

fun track_pieces :: "string \<Rightarrow> string list \<Rightarrow> dsml_decode_tracker \<Rightarrow> dsml_decode_tracker" where
  "track_pieces raw [] dt = dt"
| "track_pieces raw (m # ms) dt = track_pieces (raw @ m) ms (track (raw @ m) dt)"

lemma no_cut_append: "no_cut a \<Longrightarrow> no_cut b \<Longrightarrow> no_cut (a @ b)"
  by (auto simp: no_cut_def last_append)

lemma track_pieces_continues:
  "tracker_inv raw dt \<Longrightarrow> no_cut raw \<Longrightarrow> \<forall>m \<in> set (butlast ms). no_cut m \<Longrightarrow> ms \<noteq> [] \<Longrightarrow>
     track_pieces raw ms dt = track (raw @ concat ms) dt"
proof (induction ms arbitrary: raw dt)
  case (Cons m ms)
  show ?case
  proof (cases "ms = []")
    case False
    with Cons.prems(3) have m: "no_cut m" "\<forall>m \<in> set (butlast ms). no_cut m" by simp_all
    have raw: "no_cut (raw @ m)" by (rule no_cut_append [OF Cons.prems(2) m(1)])
    note c = track_continues [OF tracker_inv_append [OF Cons.prems(1)] raw, of "concat ms"]
    from Cons.IH [OF _ raw m(2) False] c show ?thesis by simp
  qed simp
qed simp

lemma tracker_inv_init: "tracker_inv [] dsml_decode_tracker_init"
  by (simp add: tracker_inv_def search_ok_def dsml_decode_tracker_init_def)

end
