(* ===== verification/Dsml_Reference.thy ===== *)
theory Dsml_Reference
  imports Dsml
begin

text \<open>
  The recognizer the server's own tests compare the tracker with
  (\<open>dsml_decode_state_for_text\<close>): it reads the whole text from its first start marker. Its loops are
  recursive functions whose calls are the iterations.
\<close>

text \<open>
  The lengths from \<open>min_len\<close> to one less than the literal, or the whole text where that is shorter.
\<close>

definition raw_suffix_partial_lit :: "string \<Rightarrow> string \<Rightarrow> nat \<Rightarrow> bool" where
  "raw_suffix_partial_lit raw lit min_len \<longleftrightarrow>
     raw \<noteq> [] \<and> lit \<noteq> [] \<and>
     (let m = (if length raw < length lit then length raw else length lit - 1) in
      list_ex (\<lambda>n. drop (length raw - n) raw = take n lit) [min_len ..< Suc m])"

function dsml_decode_scan_json_param ::
  "string \<Rightarrow> nat \<Rightarrow> dsml_syntax \<Rightarrow> bool \<Rightarrow> bool \<Rightarrow> dsml_decode_state" where
  "dsml_decode_scan_json_param raw pos syn in_string escaped =
     (if pos < length raw then
        (if \<not> in_string \<and> raw_full_lit raw pos (param_end syn) then DECODE_STRUCTURAL
         else
           (let c = raw ! pos in
            if in_string then
              (if escaped then dsml_decode_scan_json_param raw (pos + 1) syn True False
               else if c = CHR 0x5C then dsml_decode_scan_json_param raw (pos + 1) syn True True
               else if c = CHR 0x22 then dsml_decode_scan_json_param raw (pos + 1) syn False False
               else dsml_decode_scan_json_param raw (pos + 1) syn True False)
            else if c = CHR 0x22 then dsml_decode_scan_json_param raw (pos + 1) syn True escaped
            else dsml_decode_scan_json_param raw (pos + 1) syn False escaped))
      else if \<not> in_string \<and> raw_suffix_partial_lit raw (param_end syn) 2 then DECODE_STRUCTURAL
      else if in_string then DECODE_JSON_STRING else DECODE_JSON_STRUCTURAL)"
  by pat_completeness auto
termination
  by (relation "measure (\<lambda>(raw, pos, _). length raw - pos)") auto

declare dsml_decode_scan_json_param.simps [simp del]

text \<open>After a parameter's tag: the position behind its end marker, or the state to report.\<close>

definition recognize_param ::
  "string \<Rightarrow> nat \<Rightarrow> dsml_syntax \<Rightarrow> bool \<Rightarrow> nat + dsml_decode_state" where
  "recognize_param raw pos syn is_string =
     (let e = strstr_pos (drop pos raw) (param_end syn);
          found = (\<lambda>k. Inl (pos + k + length (param_end syn))) in
      if is_string then
        (case e of
           None \<Rightarrow>
             if raw_suffix_partial_lit raw (param_end syn) 2 then Inr DECODE_STRUCTURAL
             else Inr DECODE_STRING_BODY
         | Some k \<Rightarrow> found k)
      else
        (let json_state = dsml_decode_scan_json_param raw pos syn False False in
         if json_state = DECODE_STRUCTURAL then
           (case e of None \<Rightarrow> Inr DECODE_STRUCTURAL | Some k \<Rightarrow> found k)
         else Inr json_state))"

lemma recognize_param_less: "recognize_param raw pos syn b = Inl q \<Longrightarrow> pos < q"
  by (auto simp: recognize_param_def Let_def split: if_splits option.splits)

text \<open>
  The tests for partial markers at the end of the loop all lead to the same result as no marker at all.
\<close>

function recognize_structural :: "string \<Rightarrow> nat \<Rightarrow> dsml_syntax \<Rightarrow> dsml_decode_state" where
  "recognize_structural raw pos syn =
     (let p = skip_space raw pos in
      case structural_item raw p syn of
        Item_wait \<Rightarrow> DECODE_STRUCTURAL
      | Item_close \<Rightarrow> DECODE_OUTSIDE
      | Item_skip n \<Rightarrow> recognize_structural raw (p + n) syn
      | Item_param is_string n \<Rightarrow>
          (case recognize_param raw (p + n) syn is_string of
             Inl q \<Rightarrow> recognize_structural raw q syn
           | Inr d \<Rightarrow> d))"
  by pat_completeness auto
termination
proof (relation "measure (\<lambda>(raw, pos, _). length raw - pos)", goal_cases)
  case (2 raw pos syn p n)
  then have "p < length raw" "0 < n" using structural_item_bounds(1) by metis+
  with 2 skip_space_ge [of pos raw] show ?case by simp
next
  case (3 raw pos syn p b n q)
  then have "p < length raw" using structural_item_bounds(2) by metis
  with 3 skip_space_ge [of pos raw] recognize_param_less [of raw "p + n" syn b q] show ?case by simp
qed auto

declare recognize_structural.simps [simp del]

definition dsml_decode_state_for_text :: "string \<Rightarrow> dsml_decode_state" where
  "dsml_decode_state_for_text raw =
     (case dsml_find_tool_start raw of
        None \<Rightarrow> DECODE_OUTSIDE
      | Some (pos, syn) \<Rightarrow> recognize_structural raw pos syn)"

end
