(* ===== verification/Dsml_Properties.thy ===== *)
theory Dsml_Properties
  imports Dsml_Tracker Dsml_Reference
begin

text \<open>
  What the markup code guarantees: attributes survive escaping, the tracker does not depend on where
  the sampler cuts the text, as long as no cut is right after a \<open><\<close>, and an example where such a
  cut makes it lose the end of a parameter.
\<close>

section \<open>Escaping\<close>

text \<open>
  C24: The text of an attribute is read back unchanged, and its escaped form contains neither a quote nor an
  angle bracket, so it cannot end its attribute or its tag.
\<close>

theorem dsml_attr_escape_round_trip:
  "dsml_unescape_text (append_dsml_attr_escaped s) = s \<and>
   set (append_dsml_attr_escaped s) \<inter> {CHR 0x22, CHR ''<'', CHR ''>''} = {}"
  by (rule conjI [OF unescape_attr attr_escaped_chars])

text \<open>
  The text of a parameter is not escaped in the same way: an entity in it is decoded when it is read back.
\<close>

lemma parameter_text_entity_lost:
  "append_dsml_parameter_text ''a &lt; b'' = ''a &lt; b'' \<and>
   dsml_unescape_text (append_dsml_parameter_text ''a &lt; b'') = ''a < b''"
  by code_simp

section \<open>The tracker and the cuts of the text\<close>

text \<open>
  C25: After the sampler has added the pieces of a reply one by one, updating the tracker with the text so far each
  time, the tracker is in the state one update with the whole text leads to, provided no piece before
  the last ends in a \<open><\<close>: the decision how to sample the next token does not depend on how the
  tokenizer cuts the text.
\<close>

theorem tracker_chunk_independent:
  assumes "\<forall>m \<in> set (butlast ms). no_cut m" and "ms \<noteq> []"
  shows "track_pieces [] ms dsml_decode_tracker_init =
    dsml_decode_tracker_update (concat ms) dsml_decode_tracker_init"
  using track_pieces_continues [OF tracker_inv_init _ assms] by (simp add: no_cut_def)

definition example_call :: "string list" where
  "example_call =
     [''x<tool'', ''_calls><invoke name='', CHR 0x22 # ''a'' @ CHR 0x22 # ''><para'',
      ''meter name='' @ CHR 0x22 # ''x'' @ CHR 0x22 # '' string='' @ CHR 0x22 # ''true'' @ CHR 0x22 # ''>v</'',
      ''parameter></invoke>'']"

lemma tracker_chunk_independent_witness:
  "track_pieces [] example_call dsml_decode_tracker_init =
     dsml_decode_tracker_update (concat example_call) dsml_decode_tracker_init \<and>
   decode (dsml_decode_tracker_update (concat example_call) dsml_decode_tracker_init) = DECODE_STRUCTURAL \<and>
   concat example_call \<noteq> []"
proof (intro conjI)
  show "track_pieces [] example_call dsml_decode_tracker_init =
     dsml_decode_tracker_update (concat example_call) dsml_decode_tracker_init"
    by (rule tracker_chunk_independent) (simp_all add: example_call_def no_cut_def)
  show "decode (dsml_decode_tracker_update (concat example_call) dsml_decode_tracker_init) =
      DECODE_STRUCTURAL"
    by code_simp
qed (simp add: example_call_def)

text \<open>
  A piece that ends in a \<open><\<close> inside a parameter makes the tracker step over the first byte of the end
  marker: it then stays in the body of the parameter, where one update with the same text is back in the structure.
\<close>

definition cut_call :: "string list" where
  "cut_call =
     [''<tool_calls><invoke name='' @ CHR 0x22 # ''a'' @ CHR 0x22 # ''><parameter name='' @
        CHR 0x22 # ''x'' @ CHR 0x22 # '' string='' @ CHR 0x22 # ''true'' @ CHR 0x22 # ''>v<'',
      ''/parameter></invoke>'']"

lemma tracker_cut_loses_end:
  "decode (track_pieces [] cut_call dsml_decode_tracker_init) = DECODE_STRING_BODY \<and>
   decode (dsml_decode_tracker_update (concat cut_call) dsml_decode_tracker_init) = DECODE_STRUCTURAL"
  by code_simp

text \<open>
  The recognizer of the tests looks for the end of a JSON parameter without regard to its strings, the tracker
  skips end markers inside them; on such a parameter the two disagree.
\<close>

definition quoted_end_call :: string where
  "quoted_end_call =
     ''<tool_calls><invoke name='' @ CHR 0x22 # ''a'' @ CHR 0x22 # ''><parameter name='' @
       CHR 0x22 # ''x'' @ CHR 0x22 # ''>'' @ CHR 0x22 # ''</parameter>'' @ CHR 0x22 #
       ''</parameter></invoke></tool_calls>''"

lemma reference_ends_json_early:
  "dsml_decode_state_for_text quoted_end_call = DECODE_STRUCTURAL \<and>
   decode (dsml_decode_tracker_update quoted_end_call dsml_decode_tracker_init) = DECODE_OUTSIDE"
  by code_simp

end
