(* ===== verification/Tool_Text.thy ===== *)
theory Tool_Text
  imports Dsml Json
begin

text \<open>
  Tool calls as text (\<open>ds4_server.c\<close>): the arguments of a call as parsed JSON members, the rendering
  of calls as markup for the prompt, and the parser that turns generated markup back into calls.

  A C string is the list of its bytes before the terminating NUL; where the code stores the result of
  the JSON string reader, which can contain a NUL, the model cuts it there. A cursor into a text is the text
  from it on.
\<close>

section \<open>Arguments\<close>

record json_arg =
  arg_key :: string
  arg_value :: string
  arg_is_string :: bool
  arg_used :: bool

fun json_args_find_unused :: "json_arg list \<Rightarrow> string \<Rightarrow> nat option" where
  "json_args_find_unused args key =
     find_index (\<lambda>a. \<not> arg_used a \<and> arg_key a = key) args"

function json_args_loop :: "string \<Rightarrow> json_arg list \<Rightarrow> json_arg list option" where
  "json_args_loop [] args = None"
| "json_args_loop (c # s) args =
     (if c = CHR ''}'' then Some args
      else
        (case json_string (c # s) of
           None \<Rightarrow> None
         | Some (key, s1) \<Rightarrow>
             (case json_ws s1 of
                [] \<Rightarrow> None
              | d # s2 \<Rightarrow>
                  if d \<noteq> CHR '':'' then None
                  else if starts_with (json_ws s2) [CHR 0x22] then
                    (case json_string (json_ws s2) of
                       None \<Rightarrow> None
                     | Some (v, s3) \<Rightarrow>
                         json_args_loop (skip_comma s3)
                           (args @ [\<lparr>arg_key = c_str key, arg_value = c_str v, arg_is_string = True,
                                     arg_used = False\<rparr>]))
                  else
                    (case json_raw_value (json_ws s2) of
                       None \<Rightarrow> None
                     | Some (raw, s3) \<Rightarrow>
                         json_args_loop (skip_comma s3)
                           (args @ [\<lparr>arg_key = c_str key, arg_value = json_minify_raw_value (Some raw),
                                     arg_is_string = False, arg_used = False\<rparr>])))))"
  by pat_completeness auto

lemma json_raw_value_length: "json_raw_value s = Some (raw, r) \<Longrightarrow> length r < length s"
  by (auto simp: json_raw_value_def Let_def split: option.splits
      dest!: json_skip_value_length less_le_trans [OF _ json_ws_length])

termination json_args_loop
proof (relation "measure (\<lambda>(s, args). length s)", goal_cases)
  case (2 c s args p key s1 d s2 q v s3)
  have "length (d # s2) \<le> length s1" using json_ws_length [of s1] by (simp only: 2(4))
  moreover have "length s1 + 2 \<le> length (c # s)" using json_string_length [of "c # s" key s1] 2(2,3) by simp
  moreover have "length s3 + 2 \<le> length (json_ws s2)" using json_string_length [of "json_ws s2" v s3] 2(7,8) by simp
  ultimately show ?case
    using skip_comma_length [of s3] json_ws_length [of s2] by (simp del: json_ws_length)
next
  case (3 c s args p key s1 d s2 q raw s3)
  have "length (d # s2) \<le> length s1" using json_ws_length [of s1] by (simp only: 3(4))
  moreover have "length s1 + 2 \<le> length (c # s)" using json_string_length [of "c # s" key s1] 3(2,3) by simp
  moreover have "length s3 < length (json_ws s2)" using json_raw_value_length [of "json_ws s2" raw s3] 3(7,8) by simp
  ultimately show ?case
    using skip_comma_length [of s3] json_ws_length [of s2] by (simp del: json_ws_length)
qed simp

definition json_args_parse :: "string \<Rightarrow> json_arg list option" where
  "json_args_parse json =
     (case json_ws json of
        [] \<Rightarrow> None
      | c # s \<Rightarrow> if c \<noteq> CHR ''{'' then None else json_args_loop (json_ws s) [])"

section \<open>Rendering\<close>

definition quot :: char where
  "quot = CHR 0x22"

definition NL :: char where
  "NL = CHR 0x0A"

definition append_dsml_arg :: "json_arg \<Rightarrow> string" where
  "append_dsml_arg arg =
     param_start Syn_full @ '' name='' @ [quot] @ append_dsml_attr_escaped (arg_key arg) @ [quot] @
     '' string='' @ [quot] @ (if arg_is_string arg then ''true'' else ''false'') @ [quot] @ ''>'' @
     (if arg_is_string arg then append_dsml_parameter_text (arg_value arg)
      else append_dsml_json_literal (arg_value arg)) @
     param_end Syn_full @ [NL]"

text \<open>The arguments whose names the schema orders, in its order, and the flags after it.\<close>

fun append_ordered_args :: "string list \<Rightarrow> json_arg list \<Rightarrow> string \<times> json_arg list" where
  "append_ordered_args [] args = ([], args)"
| "append_ordered_args (p # ps) args =
     (case json_args_find_unused args p of
        None \<Rightarrow> append_ordered_args ps args
      | Some i \<Rightarrow>
          (case append_ordered_args ps (args[i := (args ! i)\<lparr>arg_used := True\<rparr>]) of
             (out, args') \<Rightarrow> (append_dsml_arg (args ! i) @ out, args')))"

definition append_dsml_arguments_from_json :: "string \<Rightarrow> string list option \<Rightarrow> string option" where
  "append_dsml_arguments_from_json json order =
     (case json_args_parse json of
        None \<Rightarrow> None
      | Some args \<Rightarrow>
          (case (case order of None \<Rightarrow> ([], args) | Some props \<Rightarrow> append_ordered_args props args) of
             (out, args') \<Rightarrow>
               Some (out @ concat (map append_dsml_arg (filter (\<lambda>a. \<not> arg_used a) args')))))"

definition append_json_arg_pair :: "json_arg \<Rightarrow> string" where
  "append_json_arg_pair arg =
     json_escape (arg_key arg) @ '':'' @
     (if arg_is_string arg then json_escape (arg_value arg) else arg_value arg)"

fun comma_separated :: "string list \<Rightarrow> string" where
  "comma_separated [] = []"
| "comma_separated [x] = x"
| "comma_separated (x # y # xs) = x @ '','' @ comma_separated (y # xs)"

definition append_json_object_or_empty :: "string \<Rightarrow> string" where
  "append_json_object_or_empty json =
     (case json_args_parse json of
        None \<Rightarrow> ''{}''
      | Some args \<Rightarrow> ''{'' @ comma_separated (map append_json_arg_pair args) @ ''}'')"

record tool_call =
  tc_id :: "string option"
  tc_name :: string
  tc_arguments :: string

record tool_calls =
  tc_list :: "tool_call list"
  raw_dsml :: "string option"

definition no_tool_calls :: tool_calls where
  "no_tool_calls = \<lparr>tc_list = [], raw_dsml = None\<rparr>"

definition append_dsml_invoke :: "tool_call \<Rightarrow> string" where
  "append_dsml_invoke tc =
     invoke_start Syn_full @ '' name='' @ [quot] @ append_dsml_attr_escaped (tc_name tc) @ [quot] @ ''>'' @ [NL] @
     (case append_dsml_arguments_from_json (tc_arguments tc) None of
        Some out \<Rightarrow> out
      | None \<Rightarrow>
          param_start Syn_full @ '' name='' @ [quot] @ ''arguments'' @ [quot] @ '' string='' @ [quot] @
          ''true'' @ [quot] @ ''>'' @ append_dsml_parameter_text (tc_arguments tc) @ param_end Syn_full @ [NL]) @
     invoke_end Syn_full @ [NL]"

definition append_dsml_tool_calls_text :: "tool_calls \<Rightarrow> string" where
  "append_dsml_tool_calls_text calls =
     (if tc_list calls = [] then []
      else if raw_dsml calls \<noteq> None \<and> raw_dsml calls \<noteq> Some [] then the (raw_dsml calls)
      else [NL, NL] @ tool_calls_start Syn_full @ [NL] @ concat (map append_dsml_invoke (tc_list calls)) @
        tool_calls_end Syn_full)"

section \<open>Parsing\<close>

fun skip_ascii_ws :: "string \<Rightarrow> string" where
  "skip_ascii_ws s = dropWhile isspace s"

text \<open>The length of the text without trailing white space, not below \<open>start\<close>.\<close>

function trim_tool_separator_ws :: "string \<Rightarrow> nat \<Rightarrow> nat \<Rightarrow> nat" where
  "trim_tool_separator_ws raw start limit =
     (if limit > start \<and> isspace (raw ! (limit - 1)) then trim_tool_separator_ws raw start (limit - 1)
      else limit)"
  by pat_completeness auto
termination
  by (relation "measure (\<lambda>(raw, start, limit). limit)") auto

declare trim_tool_separator_ws.simps [simp del]

function last_from :: "string \<Rightarrow> string \<Rightarrow> nat \<Rightarrow> nat option \<Rightarrow> nat option" where
  "last_from s needle p best =
     (if needle = [] then best
      else case strstr_pos (drop p s) needle of
        None \<Rightarrow> best
      | Some k \<Rightarrow> last_from s needle (p + k + 1) (Some (p + k)))"
  by pat_completeness auto
termination
proof (relation "measure (\<lambda>(s, needle, p, best). length s - p)", goal_cases)
  case (2 s needle p best k)
  then have "k + length needle \<le> length (drop p s)"
    using occurs_at_length [of "drop p s" needle k] by (simp only: strstr_pos_Some_iff)
  with 2(1) show ?case by (cases needle) auto
qed simp

declare last_from.simps [simp del]

definition find_last_substr :: "string \<Rightarrow> string \<Rightarrow> nat option" where
  "find_last_substr s needle = (if needle = [] then None else last_from s needle 0 None)"

definition tool_call_json_args_add :: "string \<Rightarrow> string \<Rightarrow> string \<Rightarrow> string option \<Rightarrow> string" where
  "tool_call_json_args_add args name value is_string =
     args @ (if args = [] then [] else '', '') @ json_escape name @ '': '' @
     (if is_string = Some ''true'' then json_escape value
      else (let m = json_minify_raw_value (Some value) in if m = [] then ''null'' else m))"

text \<open>The value of a parameter whose tag has been read: up to its end marker, decoded when it is a string.\<close>

definition dsml_take_value :: "dsml_syntax \<Rightarrow> string \<Rightarrow> string option \<Rightarrow> string \<Rightarrow> string \<Rightarrow> (string \<times> string) option" where
  "dsml_take_value syn name is_string v out =
     (case strstr_pos v (param_end syn) of
        None \<Rightarrow> None
      | Some k \<Rightarrow>
          (let raw_value = take k v;
               type = (case is_string of None \<Rightarrow> ''true'' | Some t \<Rightarrow> t);
               value = (if type = ''true'' then dsml_unescape_text raw_value else raw_value) in
           Some (drop (k + length (param_end syn)) v, tool_call_json_args_add out name value (Some type))))"

definition dsml_parse_leaf_param_json :: "dsml_syntax \<Rightarrow> string \<Rightarrow> string \<Rightarrow> (string \<times> string) option" where
  "dsml_parse_leaf_param_json syn p out =
     (if \<not> starts_with p (param_start syn) then None
      else case memchr_pos p (CHR ''>'') of
        None \<Rightarrow> None
      | Some k \<Rightarrow>
          (case dsml_attr (take (k + 1) p) ''name'' of
             None \<Rightarrow> None
           | Some name \<Rightarrow>
               dsml_take_value syn name (dsml_attr (take (k + 1) p) ''string'') (drop (k + 1) p) out))"

lemma dsml_take_value_length: "dsml_take_value syn n i v out = Some (r, out') \<Longrightarrow> length r \<le> length v"
  by (auto simp: dsml_take_value_def Let_def split: option.splits)

lemma memchr_pos_length: "memchr_pos p c = Some k \<Longrightarrow> k < length p"
  by (simp add: memchr_pos_less)

lemma dsml_parse_leaf_length:
  "dsml_parse_leaf_param_json syn p out = Some (r, out') \<Longrightarrow> length r < length p"
  by (auto simp: dsml_parse_leaf_param_json_def split: if_splits option.splits
      dest!: dsml_take_value_length memchr_pos_length)

lemma skip_ascii_ws_length: "length (skip_ascii_ws p) \<le> length p"
  by (simp add: length_dropWhile_le)

declare skip_ascii_ws.simps [simp del]

text \<open>The loop over nested parameters: the cursor and the members, whether any was read being whether they are
  non-empty, or nothing when one is malformed.\<close>

function nested_params_loop ::
  "dsml_syntax \<Rightarrow> string \<Rightarrow> string \<Rightarrow> bool \<Rightarrow> (string \<times> string \<times> bool) option" where
  "nested_params_loop syn p members any =
     (let q = skip_ascii_ws p in
      if \<not> starts_with q (param_start syn) then Some (q, members, any)
      else case dsml_parse_leaf_param_json syn q members of
        None \<Rightarrow> None
      | Some (r, members') \<Rightarrow> nested_params_loop syn r members' True)"
  by pat_completeness auto
termination
proof (relation "measure (\<lambda>(syn, p, members, any). length p)", goal_cases)
  case (2 syn p members any q x r members')
  then show ?case
    using dsml_parse_leaf_length [of syn q members r members'] skip_ascii_ws_length [of p] by auto
qed simp

declare nested_params_loop.simps [simp del]

definition dsml_parse_nested_params_object :: "dsml_syntax \<Rightarrow> string \<Rightarrow> (string \<times> string) option" where
  "dsml_parse_nested_params_object syn p =
     (case nested_params_loop syn p [] False of
        None \<Rightarrow> None
      | Some (q, members, any) \<Rightarrow> if \<not> any then None else Some (q, ''{'' @ members @ ''}''))"

definition parse_param :: "dsml_syntax \<Rightarrow> string \<Rightarrow> string \<Rightarrow> (string \<times> string) option" where
  "parse_param syn p args =
     (if \<not> starts_with p (param_start syn) then None
      else case memchr_pos p (CHR ''>'') of
        None \<Rightarrow> None
      | Some k \<Rightarrow>
          (let tag = take (k + 1) p; v = drop (k + 1) p in
           case dsml_attr tag ''name'' of
             None \<Rightarrow> None
           | Some name \<Rightarrow>
               (let is_string = dsml_attr tag ''string'' in
                if is_string = None \<and> starts_with (skip_ascii_ws v) (param_start syn) then
                  (case dsml_parse_nested_params_object syn v of
                     None \<Rightarrow> None
                   | Some (q, nested) \<Rightarrow>
                       (let q1 = skip_ascii_ws q in
                        Some (if starts_with q1 (param_end syn) then drop (length (param_end syn)) q1 else q1,
                              tool_call_json_args_add args name nested (Some ''false''))))
                else dsml_take_value syn name is_string v args)))"

lemma nested_params_loop_length:
  "nested_params_loop syn p members any = Some (q, members', any') \<Longrightarrow> length q \<le> length p"
proof (induction syn p members any rule: nested_params_loop.induct)
  case (1 syn p members any)
  let ?q = "skip_ascii_ws p"
  show ?case
  proof (cases "starts_with ?q (param_start syn)")
    case False
    with 1(2) skip_ascii_ws_length [of p] show ?thesis by (simp add: nested_params_loop.simps [of syn p])
  next
    case True
    with 1(2) obtain r out where leaf: "dsml_parse_leaf_param_json syn ?q members = Some (r, out)"
      and rest: "nested_params_loop syn r out True = Some (q, members', any')"
      by (auto simp: nested_params_loop.simps [of syn p] split: option.splits)
    have "length q \<le> length r" using 1(1) [OF refl _ leaf refl rest] True by simp
    with dsml_parse_leaf_length [OF leaf] skip_ascii_ws_length [of p] show ?thesis by simp
  qed
qed

lemma parse_param_length:
  assumes "parse_param syn p args = Some (r, args')"
  shows "length r < length p"
proof -
  from assms obtain k where k: "k < length p"
    and "length r \<le> length (drop (k + 1) p)"
    using skip_ascii_ws_length
    by (fastforce simp: parse_param_def dsml_parse_nested_params_object_def Let_def
        split: if_splits option.splits prod.splits intro: diff_le_self
        dest: memchr_pos_length dsml_take_value_length nested_params_loop_length le_trans)
  then show ?thesis by simp
qed

text \<open>The parameters of an invocation up to its end marker.\<close>

function parse_params :: "dsml_syntax \<Rightarrow> string \<Rightarrow> string \<Rightarrow> (string \<times> string) option" where
  "parse_params syn p args =
     (let q = skip_ascii_ws p in
      if starts_with q (invoke_end syn) then Some (drop (length (invoke_end syn)) q, args)
      else case parse_param syn q args of
        None \<Rightarrow> None
      | Some (r, args') \<Rightarrow> parse_params syn r args')"
  by pat_completeness auto
termination
proof (relation "measure (\<lambda>(syn, p, args). length p)", goal_cases)
  case (2 syn p args q x r args')
  then show ?case
    using parse_param_length [of syn q args r args'] skip_ascii_ws_length [of p] by auto
qed simp

declare parse_params.simps [simp del]

lemma parse_params_length: "parse_params syn p args = Some (r, args') \<Longrightarrow> length r \<le> length p"
proof (induction syn p args rule: parse_params.induct)
  case (1 syn p args)
  let ?q = "skip_ascii_ws p"
  show ?case
  proof (cases "starts_with ?q (invoke_end syn)")
    case True
    with 1(2) skip_ascii_ws_length [of p] show ?thesis by (auto simp: parse_params.simps [of syn p])
  next
    case False
    with 1(2) obtain x out where param: "parse_param syn ?q args = Some (x, out)"
      and rest: "parse_params syn x out = Some (r, args')"
      by (auto simp: parse_params.simps [of syn p] split: option.splits)
    have "length r \<le> length x" using 1(1) [OF refl False param refl rest] .
    with parse_param_length [OF param] skip_ascii_ws_length [of p] show ?thesis by simp
  qed
qed

definition parse_invoke :: "dsml_syntax \<Rightarrow> string \<Rightarrow> (string \<times> tool_call) option" where
  "parse_invoke syn p =
     (if \<not> starts_with p (invoke_start syn) then None
      else case memchr_pos p (CHR ''>'') of
        None \<Rightarrow> None
      | Some k \<Rightarrow>
          (case dsml_attr (take (k + 1) p) ''name'' of
             None \<Rightarrow> None
           | Some name \<Rightarrow>
               (case parse_params syn (drop (k + 1) p) [] of
                  None \<Rightarrow> None
                | Some (r, args) \<Rightarrow>
                    Some (r, \<lparr>tc_id = None, tc_name = name, tc_arguments = ''{'' @ args @ ''}''\<rparr>))))"

lemma parse_invoke_length: "parse_invoke syn p = Some (r, tc) \<Longrightarrow> length r < length p"
  by (auto simp: parse_invoke_def split: if_splits option.splits
      dest!: parse_params_length memchr_pos_length)

text \<open>The invocations of a block up to its end marker, added to the calls before.\<close>

function parse_invokes :: "dsml_syntax \<Rightarrow> string \<Rightarrow> tool_call list \<Rightarrow> (string \<times> tool_call list) option" where
  "parse_invokes syn p calls =
     (let q = skip_ascii_ws p in
      if starts_with q (tool_calls_end syn) then Some (drop (length (tool_calls_end syn)) q, calls)
      else case parse_invoke syn q of
        None \<Rightarrow> None
      | Some (r, tc) \<Rightarrow> parse_invokes syn r (calls @ [tc]))"
  by pat_completeness auto
termination
proof (relation "measure (\<lambda>(syn, p, calls). length p)", goal_cases)
  case (2 syn p calls q x r tc)
  then show ?case
    using parse_invoke_length [of syn q r tc] skip_ascii_ws_length [of p] by auto
qed simp

declare parse_invokes.simps [simp del]

text \<open>
  \<open>split_reasoning_content\<close>: the content and, when a \<open></think>\<close> stands in the text, what
  precedes it without an opening tag.
\<close>

definition split_reasoning_content :: "string \<Rightarrow> nat \<Rightarrow> string \<times> string option" where
  "split_reasoning_content text n =
     (let s = take n text; body = (if starts_with s ''<think>'' then drop 7 s else s) in
      case strstr_pos body ''</think>'' of
        Some k \<Rightarrow> (drop (k + 8) body, Some (take k body))
      | None \<Rightarrow> (s, None))"

text \<open>The start of the block: each spelling with its blank line before without, the full one first.\<close>

fun first_found :: "string \<Rightarrow> (string \<times> dsml_syntax) list \<Rightarrow> (nat \<times> dsml_syntax) option" where
  "first_found s [] = None"
| "first_found s ((m, syn) # ms) =
     (case strstr_pos s m of Some k \<Rightarrow> Some (k, syn) | None \<Rightarrow> first_found s ms)"

definition block_starts :: "(string \<times> dsml_syntax) list" where
  "block_starts =
     [([NL, NL] @ tool_calls_start Syn_full, Syn_full), (tool_calls_start Syn_full, Syn_full),
      ([NL, NL] @ tool_calls_start Syn_short, Syn_short), (tool_calls_start Syn_short, Syn_short),
      ([NL, NL] @ tool_calls_start Syn_plain, Syn_plain), (tool_calls_start Syn_plain, Syn_plain)]"

text \<open>
  The parser of a generated message. \<open>None\<close> is the result \<open>false\<close>, for which the caller frees
  whatever has been stored.
\<close>

definition parse_generated_message_ex ::
  "string \<Rightarrow> bool \<Rightarrow> tool_calls \<Rightarrow> (string \<times> string option \<times> tool_calls) option" where
  "parse_generated_message_ex text require_thinking_closed calls =
     (let plain = (case split_reasoning_content text (length text) of (c, r) \<Rightarrow> Some (c, r, calls));
          search = (if require_thinking_closed
                    then map_option (\<lambda>k. k + 8) (find_last_substr text ''</think>'') else Some 0) in
      case search of
        None \<Rightarrow> plain
      | Some from \<Rightarrow>
          (case first_found (drop from text) block_starts of
             None \<Rightarrow> plain
           | Some (k, syn) \<Rightarrow>
               (let start = from + k; content_len = trim_tool_separator_ws text 0 start in
                case strstr_pos (drop start text) (tool_calls_start syn) of
                  None \<Rightarrow> None
                | Some m \<Rightarrow>
                    (case parse_invokes syn (drop (start + m + length (tool_calls_start syn)) text)
                            (tc_list calls) of
                       None \<Rightarrow> None
                     | Some (r, tcs) \<Rightarrow>
                         (let raw_end = length text - length r in
                          case split_reasoning_content text content_len of
                            (c, rs) \<Rightarrow>
                              Some (c, rs, \<lparr>tc_list = tcs,
                                raw_dsml = Some (take (raw_end - start) (drop start text))\<rparr>))))))"

definition tool_parse_failure_recovery_finish :: "string \<Rightarrow> string" where
  "tool_parse_failure_recovery_finish finish = (if finish = ''length'' then ''length'' else ''stop'')"

record parsed_message =
  pm_ok :: bool
  pm_content :: string
  pm_reasoning :: "string option"
  pm_calls :: tool_calls
  pm_finish :: string
  pm_err :: "string option"
  pm_recovered :: bool

definition parse_generated_message_for_response ::
  "string \<Rightarrow> bool \<Rightarrow> bool \<Rightarrow> bool \<Rightarrow> string \<Rightarrow> tool_calls \<Rightarrow> parsed_message" where
  "parse_generated_message_for_response text has_tools saw_tool_start require_thinking_closed finish calls =
     (case parse_generated_message_ex text require_thinking_closed calls of
        Some (c, r, tcs) \<Rightarrow>
          \<lparr>pm_ok = True, pm_content = c, pm_reasoning = r, pm_calls = tcs, pm_finish = finish,
           pm_err = None, pm_recovered = False\<rparr>
      | None \<Rightarrow>
          (let recover = has_tools \<and> saw_tool_start \<and> finish \<noteq> ''error'' in
           \<lparr>pm_ok = False, pm_content = text, pm_reasoning = None, pm_calls = no_tool_calls,
            pm_finish = (if recover then tool_parse_failure_recovery_finish finish else finish),
            pm_err = (if recover then Some ''invalid tool call'' else None),
            pm_recovered = recover\<rparr>))"

section \<open>Markers seen while generating\<close>

definition find_any_step :: "string \<Rightarrow> string \<Rightarrow> nat option \<Rightarrow> nat option" where
  "find_any_step s m best =
     (case strstr_pos s m of
        None \<Rightarrow> best
      | Some k \<Rightarrow> (case best of None \<Rightarrow> Some k | Some b \<Rightarrow> if k < b then Some k else best))"

definition find_any_tool_start :: "string \<Rightarrow> nat option" where
  "find_any_tool_start s = fold (find_any_step s) (map tool_calls_start dsml_syntaxes) None"

definition find_any_tool_end :: "string \<Rightarrow> nat option" where
  "find_any_tool_end s = fold (find_any_step s) (map tool_calls_end dsml_syntaxes) None"

record seen_markers =
  saw_start :: bool
  saw_end :: bool
  orphan_end :: bool

definition observe_tool_markers :: "string \<Rightarrow> seen_markers \<Rightarrow> seen_markers" where
  "observe_tool_markers scan m =
     (let had_start = saw_start m;
          start = find_any_tool_start scan;
          end_scan = (if had_start then Some 0 else start);
          e = (case end_scan of None \<Rightarrow> None | Some k \<Rightarrow> find_any_tool_end (drop k scan));
          m1 = (if start \<noteq> None then m\<lparr>saw_start := True\<rparr> else m) in
      if e \<noteq> None then m1\<lparr>saw_end := True\<rparr>
      else if \<not> had_start \<and> start = None \<and> find_any_tool_end scan \<noteq> None
      then m1\<lparr>orphan_end := True\<rparr>
      else m1)"

end
