(* ===== verification/Tool_Text_Lemmas.thy ===== *)
theory Tool_Text_Lemmas
  imports Tool_Text Json_Grammar
begin

text \<open>
  How the parser of generated markup reads what the renderer wrote: the searches for end markers and
  attribute patterns, one parameter, one invocation, a whole block.
\<close>

section \<open>Searches\<close>

text \<open>A marker no proper beginning of which is also an end of it cannot overlap itself.\<close>

definition borderless :: "string \<Rightarrow> bool" where
  "borderless m \<longleftrightarrow> list_all (\<lambda>k. drop (length m - k) m \<noteq> take k m) [1 ..< length m]"

lemma occurs_overlap:
  assumes "borderless m" and "occurs_at (w @ m @ r) m i" and "i < length w"
  shows "occurs_at w m i"
proof (cases "i + length m \<le> length w")
  case True
  with assms(2) show ?thesis by (rule occurs_at_appendD)
next
  case False
  define k where "k = i + length m - length w"
  have k: "0 < k" "k < length m" "length m - k = length w - i" using False assms(3) by (auto simp: k_def)
  have "starts_with (drop i (w @ m @ r)) m" using assms(2) by (simp add: occurs_at_def)
  then obtain r' where e: "drop i w @ m @ r = m @ r'"
    using assms(3) by (auto simp: starts_with_iff)
  have "take (length m) (drop i w @ m @ r) = m" by (simp only: e) simp
  then have "drop i w @ take k (m @ r) = m" using k assms(3) by (simp add: k_def add.commute)
  then have "drop (length m - k) m = take k (m @ r)"
    using k(3) by (metis append_eq_conv_conj length_drop)
  then have "drop (length m - k) m = take k m" using k(2) by simp
  moreover have "k \<in> set [1 ..< length m]" using k by simp
  ultimately show ?thesis using assms(1) unfolding borderless_def list_all_iff by blast
qed

lemma strstr_borderless:
  assumes "borderless m" and "\<And>i. \<not> occurs_at w m i"
  shows "strstr_pos (w @ m @ r) m = Some (length w)"
  using occurs_overlap [OF assms(1)] assms(2)
  by (auto simp: strstr_pos_Some_iff occurs_at_iff) blast

lemma borderless_markers_eval:
  "list_all (\<lambda>syn. list_all borderless
     [param_end syn, tool_calls_start syn, [NL, NL] @ tool_calls_start syn]) dsml_syntaxes"
  by code_simp

text \<open>A pattern that ends in its only quote is found at a quote it stands before.\<close>

lemma starts_with_quote:
  assumes "q \<notin> set u" and "q \<notin> set p"
  shows "starts_with (u @ q # r) (p @ [q]) \<longleftrightarrow> u = p"
  using assms
proof (induction u arbitrary: p)
  case Nil
  then show ?case by (cases p) auto
next
  case (Cons c u)
  then show ?case by (cases p) auto
qed

lemma strstr_quote:
  assumes "q \<notin> set u" and "q \<notin> set p"
  shows "strstr_pos (u @ q # r) (p @ [q]) =
    (if suffix p u then Some (length u - length p)
     else map_option (\<lambda>k. Suc (length u + k)) (strstr_pos r (p @ [q])))"
  using assms(1)
proof (induction u)
  case Nil
  then show ?case
    using starts_with_quote [of q "[]" p r] assms(2) by (cases p) (auto simp: option.map_ident_strong)
next
  case (Cons c u)
  have sw: "starts_with (c # u @ q # r) (p @ [q]) \<longleftrightarrow> c # u = p"
    using starts_with_quote [of q "c # u" p r] Cons.prems assms(2) by simp
  have IH: "strstr_pos (u @ q # r) (p @ [q]) =
    (if suffix p u then Some (length u - length p)
     else map_option (\<lambda>k. Suc (length u + k)) (strstr_pos r (p @ [q])))"
    using Cons by simp
  show ?case
  proof (cases "c # u = p")
    case True
    with sw show ?thesis by auto
  next
    case False
    have "suffix p (c # u) \<longleftrightarrow> suffix p u" using False by (auto simp: suffix_Cons)
    moreover have "length p \<le> length u" if "suffix p u" using that by (rule suffix_length_le)
    ultimately show ?thesis
      using sw IH False by (cases "strstr_pos r (p @ [q])") (simp_all add: Suc_diff_le)
  qed
qed

lemma strstr_third_quote:
  assumes "q \<notin> set p" "q \<notin> set u" "q \<notin> set v" "q \<notin> set w"
    and "\<not> suffix p u" "\<not> suffix p v" "suffix p w"
  shows "strstr_pos (u @ q # v @ q # w @ q # r) (p @ [q]) =
    Some (length u + 1 + (length v + 1 + (length w - length p)))"
  using assms by (simp add: strstr_quote)

lemma take_drop_tag:
  "take (length u + 1) (u @ c # r) = u @ [c]" "drop (length u + 1) (u @ c # r) = r"
  by simp_all

lemma memchr_append: "c \<notin> set u \<Longrightarrow> memchr_pos (u @ c # r) c = Some (length u)"
  unfolding memchr_pos_def by (induction u) auto

section \<open>Values\<close>

lemma starts_with_param_text:
  "starts_with (append_dsml_parameter_text s) p \<Longrightarrow> CHR ''&'' \<notin> set p \<Longrightarrow> starts_with s p"
proof (induction p arbitrary: s)
  case (Cons x p)
  then obtain c t where s: "s = c # t" by (cases s) auto
  have no: "\<not> starts_with (c # t) (param_end Syn_full)"
  proof
    assume "starts_with (c # t) (param_end Syn_full)"
    with Cons.prems show False by (simp add: s)
  qed
  with Cons.prems have "c = x" "starts_with (append_dsml_parameter_text t) p" by (simp_all add: s)
  with Cons.IH [of t] Cons.prems(2) show ?case by (simp add: s)
qed simp

lemma param_end_split: "param_end Syn_full = CHR ''<'' # tl (param_end Syn_full)"
  by (simp add: param_end_def)

lemma param_end_no_amp: "CHR ''&'' \<notin> set (tl (param_end Syn_full))"
  by (simp add: param_end_def dsml_prefix_def DS4_DSML_def fullwidth_bar_def)

lemma occurs_at_Cons: "occurs_at (c # t) s (Suc i) \<longleftrightarrow> occurs_at t s i"
  by (simp add: occurs_at_def)

lemma occurs_at_0: "occurs_at t s 0 \<longleftrightarrow> starts_with t s"
  by (simp add: occurs_at_def)

lemma starts_with_param_end: "c \<noteq> CHR ''<'' \<Longrightarrow> \<not> starts_with (c # t) (param_end Syn_full)"
  by (subst param_end_split) simp

lemma param_text_no_end: "\<not> occurs_at (append_dsml_parameter_text v) (param_end Syn_full) i"
proof (induction v arbitrary: i)
  case Nil
  then show ?case by (auto simp: occurs_at_def)
next
  case (Cons c v)
  have plain: "\<not> occurs_at (d # t) (param_end Syn_full) i"
    if "d \<noteq> CHR ''<''" "\<And>i. \<not> occurs_at t (param_end Syn_full) i" for d t i
    using that starts_with_param_end by (cases i) (simp_all add: occurs_at_Cons occurs_at_0)
  show ?case
  proof (cases "starts_with (c # v) (param_end Syn_full)")
    case True
    have "\<not> occurs_at (CHR ''&'' # CHR ''l'' # CHR ''t'' # CHR '';'' # append_dsml_parameter_text v)
        (param_end Syn_full) i"
      by (intro plain Cons) simp_all
    with True show ?thesis by simp
  next
    case False
    have "\<not> starts_with (c # append_dsml_parameter_text v) (param_end Syn_full)"
    proof
      assume "starts_with (c # append_dsml_parameter_text v) (param_end Syn_full)"
      then have "c = CHR ''<''" "starts_with (append_dsml_parameter_text v) (tl (param_end Syn_full))"
        by (subst (asm) param_end_split, simp)+
      moreover note param_end_no_amp
      ultimately have "starts_with (c # v) (CHR ''<'' # tl (param_end Syn_full))"
        using starts_with_param_text by simp
      with False show False using param_end_split by metis
    qed
    then have "\<not> occurs_at (c # append_dsml_parameter_text v) (param_end Syn_full) i"
      using Cons by (cases i) (simp_all add: occurs_at_Cons occurs_at_0)
    with False show ?thesis by simp
  qed
qed

lemma unescape_param_text:
  "CHR ''&'' \<notin> set v \<Longrightarrow> dsml_unescape_text (append_dsml_parameter_text v) = v"
proof (induction v)
  case (Cons c v)
  have "c = CHR ''<''" if "starts_with (c # v) (param_end Syn_full)"
    using that starts_with_param_end by blast
  with Cons show ?case by (auto simp: numeral_eq_Suc)
qed simp

lemma json_literal_same:
  "(\<And>i. \<not> occurs_at v (param_end Syn_full) i) \<Longrightarrow> append_dsml_json_literal v = v"
proof (induction v)
  case (Cons c v)
  have "\<not> starts_with (c # v) (param_end Syn_full)" using Cons.prems [of 0] by (simp add: occurs_at_0)
  moreover have "\<not> occurs_at v (param_end Syn_full) i" for i
    using Cons.prems [of "Suc i"] by (simp add: occurs_at_Cons)
  ultimately show ?case using Cons.IH by simp
qed simp

text \<open>An escape ends in a semicolon, so an end of the escaped text without one is an end of the text.\<close>

lemma attr_escape_snoc:
  "append_dsml_attr_escaped (s @ [c]) = append_dsml_attr_escaped s @ dsml_attr_escape_char c"
  by (simp add: append_dsml_attr_escaped_def)

lemma attr_escape_char_nonempty: "dsml_attr_escape_char c \<noteq> []"
  by (simp add: dsml_attr_escape_char_def)

lemma suffix_attr_escaped:
  "suffix p (append_dsml_attr_escaped s) \<Longrightarrow> CHR '';'' \<notin> set p \<Longrightarrow> suffix p s"
proof (induction p arbitrary: s rule: rev_induct)
  case (snoc x p)
  then obtain s' c where s: "s = s' @ [c]"
    by (cases s rule: rev_cases) (auto simp: append_dsml_attr_escaped_def)
  have "last (dsml_attr_escape_char c) = x"
    using snoc.prems(1) by (auto simp: s attr_escape_snoc suffix_def attr_escape_char_nonempty last_append
        dest!: arg_cong [of _ _ last])
  then have one: "dsml_attr_escape_char c = [c]" "x = c"
    using snoc.prems(2) by (auto simp: dsml_attr_escape_char_def split: if_splits)
  with snoc.prems(1) have "suffix p (append_dsml_attr_escaped s')"
    by (simp add: s attr_escape_snoc)
  with snoc.IH [of s'] snoc.prems(2) one show ?case by (simp add: s)
qed simp

section \<open>Tags\<close>

lemma dsml_attr_found:
  assumes "strstr_pos (u @ b @ CHR 0x22 # t) (name @ [CHR ''='', CHR 0x22]) = Some k"
    and "length u = k + length name + 2" and "CHR 0x22 \<notin> set b"
  shows "dsml_attr (u @ b @ CHR 0x22 # t) name = Some (dsml_unescape_text b)"
proof -
  have "drop (k + length (name @ [CHR ''='', CHR 0x22])) (u @ b @ CHR 0x22 # t) = b @ CHR 0x22 # t"
    using assms(2) by simp
  then show ?thesis
    using assms(1) memchr_append [OF assms(3), of t] by (simp only: dsml_attr_def Let_def) simp
qed

lemma tag_name:
  assumes "CHR 0x22 \<notin> set m"
  shows "dsml_attr (m @ '' name='' @ [quot] @ append_dsml_attr_escaped n @ quot # t) ''name'' = Some n"
proof -
  let ?e = "append_dsml_attr_escaped n"
  have e: "CHR 0x22 \<notin> set ?e" using attr_escaped_chars by blast
  have "strstr_pos ((m @ '' name='') @ CHR 0x22 # ?e @ CHR 0x22 # t) (''name='' @ [CHR 0x22]) =
      Some (length (m @ '' name='') - length ''name='')"
    using assms by (subst strstr_quote) (auto simp: suffix_def)
  then have "dsml_attr ((m @ '' name='' @ [CHR 0x22]) @ ?e @ CHR 0x22 # t) ''name'' = Some (dsml_unescape_text ?e)"
    by (intro dsml_attr_found [OF _ _ e]) simp_all
  then show ?thesis by (simp add: quot_def unescape_attr)
qed

lemma tag_string:
  assumes "CHR 0x22 \<notin> set m" and "\<not> suffix ''string='' n"
    and "CHR 0x22 \<notin> set b" and "CHR ''&'' \<notin> set b"
  shows "dsml_attr (m @ '' name='' @ [quot] @ append_dsml_attr_escaped n @ [quot] @ '' string='' @ [quot] @
    b @ quot # t) ''string'' = Some b"
proof -
  let ?e = "append_dsml_attr_escaped n"
  have e: "CHR 0x22 \<notin> set ?e" using attr_escaped_chars by blast
  have "\<not> suffix ''string='' ?e" using suffix_attr_escaped [of "''string=''" n] assms(2) by auto
  moreover have "\<not> suffix ''string='' (m @ '' name='')" by (simp add: suffix_def)
  moreover have "suffix ''string='' '' string=''" by (simp add: suffix_def)
  ultimately have "strstr_pos ((m @ '' name='') @ CHR 0x22 # ?e @ CHR 0x22 # '' string='' @ CHR 0x22 # b @ CHR 0x22 # t)
      (''string='' @ [CHR 0x22]) =
      Some (length (m @ '' name='') + 1 + (length ?e + 1 + (length '' string='' - length ''string='')))"
    using assms(1) e by (intro strstr_third_quote) simp_all
  then have "dsml_attr ((m @ '' name='' @ [CHR 0x22] @ ?e @ [CHR 0x22] @ '' string='' @ [CHR 0x22]) @ b @ CHR 0x22 # t)
      ''string'' = Some (dsml_unescape_text b)"
    by (intro dsml_attr_found [OF _ _ assms(3)]) simp_all
  moreover have "dsml_unescape_text b = b" using assms(4)
    by (induction b) auto
  ultimately show ?thesis by (simp add: quot_def)
qed

section \<open>One parameter\<close>

text \<open>
  The arguments that survive being rendered and read back: the key does not end in \<open>string=\<close>, which the
  search for the other attribute would take for it, a string contains no ampersand, and another value is in the
  form the minifier gives it and does not contain the end marker.
\<close>

definition arg_survives :: "json_arg \<Rightarrow> bool" where
  "arg_survives a \<longleftrightarrow>
     \<not> suffix ''string='' (arg_key a) \<and>
     (if arg_is_string a then CHR ''&'' \<notin> set (arg_value a)
      else arg_value a \<noteq> [] \<and> json_minify_raw_value (Some (arg_value a)) = arg_value a \<and>
        \<not> strstr_found (arg_value a) (param_end Syn_full))"

definition arg_pair :: "json_arg \<Rightarrow> string" where
  "arg_pair a = json_escape (arg_key a) @ '': '' @
     (if arg_is_string a then json_escape (arg_value a) else arg_value a)"

definition add_arg :: "string \<Rightarrow> json_arg \<Rightarrow> string" where
  "add_arg args a = args @ (if args = [] then [] else '', '') @ arg_pair a"

text \<open>The markers of the full spelling contain neither a quote nor, before their end, a \<open>>\<close>.\<close>

lemma full_marker_chars:
  "CHR 0x22 \<notin> set (param_start Syn_full)" "CHR ''>'' \<notin> set (param_start Syn_full)"
  "CHR 0x22 \<notin> set (invoke_start Syn_full)" "CHR ''>'' \<notin> set (invoke_start Syn_full)"
  by (simp_all add: param_start_def invoke_start_def dsml_prefix_def DS4_DSML_def fullwidth_bar_def)

lemma starts_with_self: "starts_with (m @ r) m"
  by (auto simp: starts_with_iff)

lemma occurs_iff_found: "(\<exists>i. occurs_at v m i) \<longleftrightarrow> strstr_found v m"
  by (auto simp: occurs_at_iff strstr_found_iff)

lemma borderless_param_end: "borderless (param_end Syn_full)"
  and borderless_start: "borderless ([NL, NL] @ tool_calls_start Syn_full)" "borderless (tool_calls_start Syn_full)"
  using borderless_markers_eval by (simp_all add: dsml_syntaxes_def)

lemma take_value_string:
  assumes "CHR ''&'' \<notin> set v"
  shows "dsml_take_value Syn_full n (Some ''true'') (append_dsml_parameter_text v @ param_end Syn_full @ r) out =
    Some (r, tool_call_json_args_add out n v (Some ''true''))"
  using strstr_borderless [OF borderless_param_end param_text_no_end] unescape_param_text [OF assms]
  by (simp add: dsml_take_value_def)

lemma take_value_json:
  assumes "\<not> strstr_found v (param_end Syn_full)"
  shows "dsml_take_value Syn_full n (Some ''false'') (append_dsml_json_literal v @ param_end Syn_full @ r) out =
    Some (r, tool_call_json_args_add out n v (Some ''false''))"
proof -
  have no: "\<not> occurs_at v (param_end Syn_full) i" for i using assms occurs_iff_found by blast
  show ?thesis
    using strstr_borderless [OF borderless_param_end no] json_literal_same [OF no]
    by (simp add: dsml_take_value_def)
qed

lemma parse_param_arg:
  assumes "arg_survives a"
  shows "parse_param Syn_full (append_dsml_arg a @ r) args = Some (NL # r, add_arg args a)"
proof -
  let ?b = "if arg_is_string a then ''true'' else ''false''"
  let ?v = "if arg_is_string a then append_dsml_parameter_text (arg_value a)
    else append_dsml_json_literal (arg_value a)"
  let ?u = "param_start Syn_full @ '' name='' @ [quot] @ append_dsml_attr_escaped (arg_key a) @ [quot] @
    '' string='' @ [quot] @ ?b @ [quot]"
  let ?rest = "?v @ param_end Syn_full @ NL # r"
  have split: "append_dsml_arg a @ r = ?u @ CHR ''>'' # ?rest"
    by (simp add: append_dsml_arg_def)
  have "CHR ''>'' \<notin> set ?u"
    using attr_escaped_chars [of "arg_key a"] by (auto simp: full_marker_chars quot_def)
  then have "memchr_pos (?u @ CHR ''>'' # ?rest) (CHR ''>'') = Some (length ?u)" by (rule memchr_append)
  moreover have "starts_with (?u @ CHR ''>'' # ?rest) (param_start Syn_full)"
    by (simp only: append_assoc starts_with_self)
  moreover have "dsml_attr (?u @ [CHR ''>'']) ''name'' = Some (arg_key a)"
    using tag_name [OF full_marker_chars(1), of "arg_key a" "'' string='' @ [quot] @ ?b @ [quot, CHR ''>'']"]
    by simp
  moreover have "dsml_attr (?u @ [CHR ''>'']) ''string'' = Some ?b"
    using tag_string [OF full_marker_chars(1), of "arg_key a" ?b "[CHR ''>'']"] assms
    by (simp add: arg_survives_def)
  moreover have "take (length ?u + 1) (?u @ CHR ''>'' # ?rest) = ?u @ [CHR ''>'']"
    "drop (length ?u + 1) (?u @ CHR ''>'' # ?rest) = ?rest" by (rule take_drop_tag)+
  ultimately have "parse_param Syn_full (append_dsml_arg a @ r) args =
      dsml_take_value Syn_full (arg_key a) (Some ?b) ?rest args"
    by (simp only: split parse_param_def Let_def option.case if_False not_True_eq_False option.distinct
        simp_thms)
  also have "\<dots> = Some (NL # r, add_arg args a)"
    using assms take_value_string [of "arg_value a" "arg_key a" "NL # r" args]
      take_value_json [of "arg_value a" "arg_key a" "NL # r" args]
    by (cases "arg_is_string a")
      (simp_all add: arg_survives_def add_arg_def arg_pair_def tool_call_json_args_add_def Let_def)
  finally show ?thesis .
qed

section \<open>One invocation\<close>

lemma skip_marker: "\<not> isspace c \<Longrightarrow> skip_ascii_ws (c # s) = c # s"
  by (simp add: skip_ascii_ws.simps)

lemma skip_NL: "skip_ascii_ws (NL # s) = skip_ascii_ws s"
  by (simp add: skip_ascii_ws.simps NL_def isspace_def byte_def)

lemma skip_start:
  "skip_ascii_ws (param_start Syn_full @ r) = param_start Syn_full @ r"
  "skip_ascii_ws (invoke_start Syn_full @ r) = invoke_start Syn_full @ r"
  "skip_ascii_ws (invoke_end Syn_full @ r) = invoke_end Syn_full @ r"
  "skip_ascii_ws (tool_calls_end Syn_full @ r) = tool_calls_end Syn_full @ r"
  by (simp_all add: param_start_def invoke_start_def invoke_end_def tool_calls_end_def skip_marker
      isspace_def byte_def)

lemma other_start:
  "\<not> starts_with (param_start Syn_full @ r) (invoke_end Syn_full)"
  "\<not> starts_with (invoke_start Syn_full @ r) (tool_calls_end Syn_full)"
  by (simp_all add: param_start_def invoke_start_def invoke_end_def tool_calls_end_def dsml_prefix_def
      DS4_DSML_def fullwidth_bar_def)

lemma append_dsml_arg_start: "\<exists>t. append_dsml_arg a = param_start Syn_full @ t"
  by (simp add: append_dsml_arg_def)

lemma parse_params_args:
  assumes "\<forall>a \<in> set as. arg_survives a"
  shows "parse_params Syn_full (NL # concat (map append_dsml_arg as) @ invoke_end Syn_full @ r) args =
    Some (r, foldl add_arg args as)"
  using assms
proof (induction as arbitrary: args)
  case Nil
  then show ?case by (simp add: parse_params.simps skip_NL skip_start starts_with_self)
next
  case (Cons a as)
  let ?r = "concat (map append_dsml_arg as) @ invoke_end Syn_full @ r"
  obtain t where t: "append_dsml_arg a @ ?r = param_start Syn_full @ t"
    using append_dsml_arg_start [of a] by auto
  have "parse_params Syn_full (NL # append_dsml_arg a @ ?r) args =
      parse_params Syn_full (NL # ?r) (add_arg args a)"
    using parse_param_arg [of a ?r args] Cons.prems other_start(1) [of t]
    by (subst parse_params.simps) (simp add: t skip_NL skip_start)
  with Cons show ?case by simp
qed

text \<open>
  The arguments a call is rendered with: the members of its JSON object, or the whole text under the name
  \<open>arguments\<close> when it is not an object.
\<close>

definition call_args :: "tool_call \<Rightarrow> json_arg list" where
  "call_args tc =
     (case json_args_parse (tc_arguments tc) of
        Some args \<Rightarrow> args
      | None \<Rightarrow> [\<lparr>arg_key = ''arguments'', arg_value = tc_arguments tc, arg_is_string = True, arg_used = False\<rparr>])"

definition reparsed :: "tool_call \<Rightarrow> tool_call" where
  "reparsed tc =
     \<lparr>tc_id = None, tc_name = tc_name tc, tc_arguments = ''{'' @ foldl add_arg [] (call_args tc) @ ''}''\<rparr>"

lemma json_args_loop_unused:
  "json_args_loop s args = Some args' \<Longrightarrow> \<forall>a \<in> set args. \<not> arg_used a \<Longrightarrow>
     \<forall>a \<in> set args'. \<not> arg_used a"
proof (induction s args arbitrary: args' rule: json_args_loop.induct)
  case (2 c s args)
  show ?case
  proof (cases "c = CHR ''}''")
    case False
    from 2(3) False obtain key s1 s2 where key: "json_string (c # s) = Some (key, s1)"
      "json_ws s1 = CHR '':'' # s2"
      by (auto split: option.splits list.splits if_splits)
    show ?thesis
    proof (cases "starts_with (json_ws s2) [CHR 0x22]")
      case True
      with 2(3) False key obtain v s3 where v: "json_string (json_ws s2) = Some (v, s3)"
        by (auto split: option.splits)
      show ?thesis
        by (rule 2(1) [OF False key(1) refl key(2) _ True v refl]) (use 2(3,4) False key True v in auto)
    next
      case not: False
      with 2(3) False key obtain raw s3 where v: "json_raw_value (json_ws s2) = Some (raw, s3)"
        by (auto split: option.splits)
      show ?thesis
        by (rule 2(2) [OF False key(1) refl key(2) _ not v refl]) (use 2(3,4) False key not v in auto)
    qed
  qed (use 2 in auto)
qed simp

lemma render_args:
  "append_dsml_invoke tc =
     invoke_start Syn_full @ '' name='' @ [quot] @ append_dsml_attr_escaped (tc_name tc) @ [quot] @ ''>'' @
     [NL] @ concat (map append_dsml_arg (call_args tc)) @ invoke_end Syn_full @ [NL]"
proof -
  have "filter (\<lambda>a. \<not> arg_used a) args = args" if "json_args_parse (tc_arguments tc) = Some args" for args
    using that json_args_loop_unused [of _ "[]"]
    by (auto simp: json_args_parse_def filter_id_conv split: list.splits if_splits)
  moreover have "append_dsml_attr_escaped ''arguments'' = ''arguments''"
    by (simp add: append_dsml_attr_escaped_def dsml_attr_escape_char_def)
  ultimately show ?thesis
    by (simp add: append_dsml_invoke_def append_dsml_arguments_from_json_def call_args_def append_dsml_arg_def
        split: option.split)
qed

lemma parse_invoke_call:
  assumes "\<forall>a \<in> set (call_args tc). arg_survives a"
  shows "parse_invoke Syn_full (append_dsml_invoke tc @ r) = Some (NL # r, reparsed tc)"
proof -
  let ?u = "invoke_start Syn_full @ '' name='' @ [quot] @ append_dsml_attr_escaped (tc_name tc) @ [quot]"
  let ?rest = "NL # concat (map append_dsml_arg (call_args tc)) @ invoke_end Syn_full @ NL # r"
  have split: "append_dsml_invoke tc @ r = ?u @ CHR ''>'' # ?rest"
    by (simp add: render_args)
  have "CHR ''>'' \<notin> set ?u"
    using attr_escaped_chars [of "tc_name tc"] by (auto simp: full_marker_chars quot_def)
  then have "memchr_pos (?u @ CHR ''>'' # ?rest) (CHR ''>'') = Some (length ?u)" by (rule memchr_append)
  moreover have "starts_with (?u @ CHR ''>'' # ?rest) (invoke_start Syn_full)"
    by (simp only: append_assoc starts_with_self)
  moreover have "dsml_attr (?u @ [CHR ''>'']) ''name'' = Some (tc_name tc)"
    using tag_name [OF full_marker_chars(3), of "tc_name tc" "[CHR ''>'']"] by simp
  moreover have "take (length ?u + 1) (?u @ CHR ''>'' # ?rest) = ?u @ [CHR ''>'']"
    "drop (length ?u + 1) (?u @ CHR ''>'' # ?rest) = ?rest" by (rule take_drop_tag)+
  ultimately have "parse_invoke Syn_full (append_dsml_invoke tc @ r) =
      (case parse_params Syn_full ?rest [] of
         None \<Rightarrow> None
       | Some (r, args) \<Rightarrow>
           Some (r, \<lparr>tc_id = None, tc_name = tc_name tc, tc_arguments = ''{'' @ args @ ''}''\<rparr>))"
    by (simp only: split parse_invoke_def option.case if_False not_True_eq_False)
  then show ?thesis by (simp add: parse_params_args [OF assms] reparsed_def)
qed

section \<open>A block\<close>

lemma parse_invokes_calls:
  assumes "\<forall>tc \<in> set tcs. \<forall>a \<in> set (call_args tc). arg_survives a"
  shows "parse_invokes Syn_full (NL # concat (map append_dsml_invoke tcs) @ tool_calls_end Syn_full @ r) calls =
    Some (r, calls @ map reparsed tcs)"
  using assms
proof (induction tcs arbitrary: calls)
  case Nil
  then show ?case by (simp add: parse_invokes.simps skip_NL skip_start starts_with_self)
next
  case (Cons tc tcs)
  let ?r = "concat (map append_dsml_invoke tcs) @ tool_calls_end Syn_full @ r"
  obtain t where t: "append_dsml_invoke tc @ ?r = invoke_start Syn_full @ t"
    by (auto simp: append_dsml_invoke_def)
  have "parse_invokes Syn_full (NL # append_dsml_invoke tc @ ?r) calls =
      parse_invokes Syn_full (NL # ?r) (calls @ [reparsed tc])"
    using parse_invoke_call [of tc ?r] Cons.prems other_start(2) [of t]
    by (subst parse_invokes.simps) (simp add: t skip_NL skip_start)
  with Cons show ?case by simp
qed

lemma trim_append: "n \<le> length a \<Longrightarrow> trim_tool_separator_ws (a @ b) s n = trim_tool_separator_ws a s n"
proof (induction a s n rule: trim_tool_separator_ws.induct)
  case (1 raw start limit)
  have "(raw @ b) ! (limit - 1) = raw ! (limit - 1)" if "start < limit"
    using that 1(2) by (intro nth_append_left) linarith
  with 1 show ?case
    by (subst (1 2) trim_tool_separator_ws.simps) auto
qed

lemma trim_le: "trim_tool_separator_ws a s n \<le> n"
proof (induction a s n rule: trim_tool_separator_ws.induct)
  case (1 raw start limit)
  then show ?case by (subst trim_tool_separator_ws.simps) (simp, linarith)
qed

lemma split_reasoning_append:
  "n \<le> length a \<Longrightarrow> split_reasoning_content (a @ b) n = split_reasoning_content a n"
  by (simp add: split_reasoning_content_def)

text \<open>The text of a block of calls, and what the parser makes of it after any content.\<close>

lemma parse_rendered_calls:
  assumes "tc_list calls \<noteq> []" and "raw_dsml calls = None"
    and "\<forall>tc \<in> set (tc_list calls). \<forall>a \<in> set (call_args tc). arg_survives a"
    and "\<not> strstr_found content ([NL, NL] @ tool_calls_start Syn_full)"
  shows "parse_generated_message_ex (content @ append_dsml_tool_calls_text calls) False no_tool_calls =
    (case split_reasoning_content content (trim_tool_separator_ws content 0 (length content)) of
       (c, r) \<Rightarrow>
         Some (c, r, \<lparr>tc_list = map reparsed (tc_list calls),
                      raw_dsml = Some (append_dsml_tool_calls_text calls)\<rparr>))"
proof -
  let ?m = "tool_calls_start Syn_full"
  let ?body = "NL # concat (map append_dsml_invoke (tc_list calls)) @ tool_calls_end Syn_full"
  have blk: "append_dsml_tool_calls_text calls = ([NL, NL] @ ?m) @ ?body"
    using assms(1,2) by (simp add: append_dsml_tool_calls_text_def)
  have "strstr_pos (content @ ([NL, NL] @ ?m) @ ?body) ([NL, NL] @ ?m) = Some (length content)"
    using assms(4) occurs_iff_found by (intro strstr_borderless borderless_start) blast
  then have first: "first_found (content @ ([NL, NL] @ ?m) @ ?body) block_starts = Some (length content, Syn_full)"
    by (simp only: block_starts_def first_found.simps option.case)
  have "strstr_pos ([NL, NL] @ ?m @ ?body) ?m = Some (length [NL, NL])"
  proof (rule strstr_borderless [OF borderless_start(2)])
    show "\<not> occurs_at [NL, NL] ?m i" for i
      using occurs_at_length [of "[NL, NL]" ?m i] by (auto simp: tool_calls_start_def)
  qed
  then have inner: "strstr_pos (([NL, NL] @ ?m) @ ?body) ?m = Some 2" by (simp only: append_assoc) simp
  have drops: "drop (length content) (content @ ([NL, NL] @ ?m) @ ?body) = ([NL, NL] @ ?m) @ ?body"
    "drop (length content + 2 + length ?m) (content @ ([NL, NL] @ ?m) @ ?body) = ?body"
    by simp_all
  have parsed: "parse_invokes Syn_full ?body [] = Some ([], map reparsed (tc_list calls))"
    using parse_invokes_calls [OF assms(3), of "[]" "[]"] by simp
  have trim: "trim_tool_separator_ws (content @ ([NL, NL] @ ?m) @ ?body) 0 (length content) =
      trim_tool_separator_ws content 0 (length content)" by (rule trim_append) simp
  have raw: "take (length (content @ ([NL, NL] @ ?m) @ ?body) - length [] - length content)
      (([NL, NL] @ ?m) @ ?body) = ([NL, NL] @ ?m) @ ?body" by simp
  have split: "split_reasoning_content (content @ ([NL, NL] @ ?m) @ ?body)
      (trim_tool_separator_ws content 0 (length content)) =
      split_reasoning_content content (trim_tool_separator_ws content 0 (length content))"
    by (rule split_reasoning_append [OF trim_le])
  show ?thesis
    unfolding parse_generated_message_ex_def blk
    by (simp only: if_False option.case Let_def add_0 drop_0 first drops prod.case inner parsed trim raw split
        no_tool_calls_def tool_calls.select_convs)
qed

end
