(* ===== verification/Tool_Text_Properties.thy ===== *)
theory Tool_Text_Properties
  imports Tool_Text_Lemmas "HOL-Library.Sublist"
begin

text \<open>
  What the text form of tool calls guarantees: rendered calls are parsed back, and with thinking enabled
  nothing before the end of the reasoning is taken for a call.
\<close>

section \<open>Arguments written by the parser\<close>

lemma json_string_escape: "json_string (json_escape s @ r) = Some (c_str s, r)"
  using json_string_loop_escapes [of "c_str s" "CHR 0x22 # r" "[]"]
  by (simp add: json_string_def json_escape_def json_string_loop.simps(2))

lemma foldl_add_arg:
  "args \<noteq> [] \<Longrightarrow> foldl add_arg args as = args @ concat (map (\<lambda>a. '', '' @ arg_pair a) as)"
  by (induction as arbitrary: args) (simp_all add: add_arg_def)

lemma arg_pair_nonempty: "arg_pair a \<noteq> []"
  by (simp add: arg_pair_def)

lemma foldl_add_arg_Cons:
  "foldl add_arg [] (a # as) = arg_pair a @ concat (map (\<lambda>a. '', '' @ arg_pair a) as)"
  by (simp add: add_arg_def arg_pair_nonempty foldl_add_arg)

text \<open>The string members a parse of the arguments can yield: C strings not used yet.\<close>

definition plain_string_arg :: "json_arg \<Rightarrow> bool" where
  "plain_string_arg a \<longleftrightarrow> arg_is_string a \<and> \<not> arg_used a \<and> c_str (arg_key a) = arg_key a \<and>
     c_str (arg_value a) = arg_value a"

lemma json_escape_head: "\<exists>t. json_escape s = CHR 0x22 # t"
  by (simp add: json_escape_def)

lemma quote_not_space: "\<not> isspace (CHR 0x22)" "\<not> isspace (CHR '','')" "\<not> isspace (CHR ''}'')"
    "\<not> isspace (CHR '':'')" "isspace (CHR '' '')"
  by (simp_all add: isspace_def byte_def)

lemma json_args_loop_pair:
  assumes "plain_string_arg a"
  shows "json_args_loop (arg_pair a @ r) args = json_args_loop (skip_comma r) (args @ [a])"
proof -
  obtain t where t: "json_escape (arg_key a) = CHR 0x22 # t" using json_escape_head by blast
  obtain u where u: "json_escape (arg_value a) = CHR 0x22 # u" using json_escape_head by blast
  let ?v = "CHR 0x22 # u @ r"
  have pair: "arg_pair a @ r = CHR 0x22 # t @ '': '' @ ?v"
    using assms by (simp add: arg_pair_def plain_string_arg_def t u)
  have key: "json_string (CHR 0x22 # t @ '': '' @ ?v) = Some (arg_key a, '': '' @ ?v)"
    using json_string_escape [of "arg_key a" "'': '' @ ?v"] assms by (simp add: t plain_string_arg_def)
  have val: "json_string ?v = Some (arg_value a, r)"
    using json_string_escape [of "arg_value a" r] assms by (simp add: u plain_string_arg_def)
  have "json_ws ('' '' @ ?v) = ?v" by (simp add: json_ws_def quote_not_space)
  moreover have "json_ws ('': '' @ ?v) = CHR '':'' # '' '' @ ?v" by (simp add: json_ws_def quote_not_space)
  ultimately have "json_args_loop (arg_pair a @ r) args = json_args_loop (skip_comma r)
      (args @ [\<lparr>arg_key = arg_key a, arg_value = arg_value a, arg_is_string = True, arg_used = False\<rparr>])"
    using key val assms by (simp add: pair plain_string_arg_def)
  moreover have "\<lparr>arg_key = arg_key a, arg_value = arg_value a, arg_is_string = True, arg_used = False\<rparr> = a"
    using assms by (cases a) (simp add: plain_string_arg_def)
  ultimately show ?thesis by simp
qed

lemma skip_comma_pair: "skip_comma ('', '' @ arg_pair a @ r) = arg_pair a @ r"
  using json_escape_head [of "arg_key a"]
  by (auto simp: skip_comma_def json_ws_def quote_not_space arg_pair_def)

lemma args_text_parses:
  assumes "list_all plain_string_arg as"
  shows "json_args_parse (''{'' @ foldl add_arg [] as @ ''}'') = Some as"
proof -
  have loop: "json_args_loop (arg_pair a @ concat (map (\<lambda>a. '', '' @ arg_pair a) bs) @ ''}'') args =
      Some (args @ a # bs)" if "list_all plain_string_arg (a # bs)" for a bs args
    using that
  proof (induction bs arbitrary: a args)
    case Nil
    have "skip_comma ''}'' = ''}''" by (simp add: skip_comma_def json_ws_def quote_not_space)
    with Nil show ?case by (simp add: json_args_loop_pair)
  next
    case (Cons b bs)
    let ?r = "concat (map (\<lambda>a. '', '' @ arg_pair a) bs) @ ''}''"
    have "json_args_loop (arg_pair a @ '', '' @ arg_pair b @ ?r) args =
        json_args_loop (arg_pair b @ ?r) (args @ [a])"
      using Cons.prems by (subst json_args_loop_pair) (simp, simp only: skip_comma_pair)
    with Cons.IH [of b "args @ [a]"] Cons.prems show ?case by simp
  qed
  show ?thesis
  proof (cases as)
    case Nil
    then show ?thesis by (simp add: json_args_parse_def json_ws_def isspace_def byte_def)
  next
    case (Cons a bs)
    obtain t where t: "arg_pair a = CHR 0x22 # t"
      using json_escape_head [of "arg_key a"] by (auto simp: arg_pair_def)
    have "json_args_parse (''{'' @ foldl add_arg [] as @ ''}'') =
        json_args_loop (foldl add_arg [] as @ ''}'') []"
      by (simp only: Cons foldl_add_arg_Cons)
        (simp add: t json_args_parse_def json_ws_def isspace_def byte_def)
    with loop [of a bs "[]"] assms show ?thesis by (simp only: Cons foldl_add_arg_Cons) simp
  qed
qed

lemma c_str_idem [simp]: "c_str (c_str s) = c_str s"
  by (simp add: c_str_def)

lemma json_args_loop_plain:
  "json_args_loop s args = Some args' \<Longrightarrow>
     \<forall>a \<in> set args. arg_is_string a \<longrightarrow> plain_string_arg a \<Longrightarrow>
     \<forall>a \<in> set args'. arg_is_string a \<longrightarrow> plain_string_arg a"
proof (induction s args arbitrary: args' rule: json_args_loop.induct)
  case (2 c s args)
  show ?case
  proof (cases "c = CHR ''}''")
    case False
    from 2(3) False obtain key s1 s2 where key: "json_string (c # s) = Some (key, s1)"
      "json_ws s1 = CHR '':'' # s2"
      by (auto split: option.splits list.splits if_splits)
    show ?thesis
    proof (cases "starts_with (json_ws s2) [CHR 0x22]")
      case True
      with 2(3) False key obtain v s3 where v: "json_string (json_ws s2) = Some (v, s3)"
        by (auto split: option.splits)
      show ?thesis
        by (rule 2(1) [OF False key(1) refl key(2) _ True v refl])
          (use 2(3,4) False key True v in \<open>auto simp: plain_string_arg_def\<close>)
    next
      case not: False
      with 2(3) False key obtain raw s3 where v: "json_raw_value (json_ws s2) = Some (raw, s3)"
        by (auto split: option.splits)
      show ?thesis
        by (rule 2(2) [OF False key(1) refl key(2) _ not v refl]) (use 2(3,4) False key not v in auto)
    qed
  qed (use 2 in auto)
qed simp

lemma parsed_strings_plain:
  assumes "json_args_parse json = Some as" and "list_all arg_is_string as"
  shows "list_all plain_string_arg as"
  using assms json_args_loop_plain [of _ "[]" as]
  by (auto simp: json_args_parse_def list_all_iff split: list.splits if_splits)

text \<open>
  A key that ends in \<open>string=\<close> is why the round trip needs a condition on keys: its closing quote is read as the
  start of the other attribute, so the type of the value is lost.
\<close>

lemma key_misread_as_attribute:
  "dsml_attr (''<parameter name='' @ [quot] @ ''string='' @ [quot] @ '' string='' @ [quot] @ ''false'' @ [quot] @ ''>'')
     ''string'' = Some '' string=''"
  by code_simp

text \<open>
  C26: A message of any content and rendered tool calls is parsed back into the calls: the same names in the same
  order, each argument with its key and value, the text of the block kept for rendering again, and the content
  split as if the block were not there. An argument survives when its key does not end in \<open>string=\<close>, a
  string value contains no ampersand, and any other value is minified and free of the end marker; the content must
  not contain a start marker itself. Arguments that are all strings parse into the same list of members again.
\<close>

theorem tool_calls_round_trip:
  assumes "tc_list calls \<noteq> []" and "raw_dsml calls = None"
    and "\<forall>tc \<in> set (tc_list calls). \<forall>a \<in> set (call_args tc). arg_survives a"
    and "\<not> strstr_found content ([NL, NL] @ tool_calls_start Syn_full)"
  shows "parse_generated_message_ex (content @ append_dsml_tool_calls_text calls) False no_tool_calls =
      (case split_reasoning_content content (trim_tool_separator_ws content 0 (length content)) of
         (c, r) \<Rightarrow>
           Some (c, r, \<lparr>tc_list = map reparsed (tc_list calls),
                        raw_dsml = Some (append_dsml_tool_calls_text calls)\<rparr>)) \<and>
    map tc_name (map reparsed (tc_list calls)) = map tc_name (tc_list calls) \<and>
    (\<forall>tc \<in> set (tc_list calls). \<forall>as. json_args_parse (tc_arguments tc) = Some as \<and> list_all arg_is_string as \<longrightarrow>
       json_args_parse (tc_arguments (reparsed tc)) = Some as)"
proof (intro conjI ballI allI impI)
  show "parse_generated_message_ex (content @ append_dsml_tool_calls_text calls) False no_tool_calls =
      (case split_reasoning_content content (trim_tool_separator_ws content 0 (length content)) of
         (c, r) \<Rightarrow>
           Some (c, r, \<lparr>tc_list = map reparsed (tc_list calls),
                        raw_dsml = Some (append_dsml_tool_calls_text calls)\<rparr>))"
    by (rule parse_rendered_calls [OF assms])
  show "map tc_name (map reparsed (tc_list calls)) = map tc_name (tc_list calls)"
    by (simp add: reparsed_def)
  fix tc :: tool_call and as
  assume "json_args_parse (tc_arguments tc) = Some as \<and> list_all arg_is_string as"
  then show "json_args_parse (tc_arguments (reparsed tc)) = Some as"
    using args_text_parses [of as] parsed_strings_plain [of "tc_arguments tc" as]
    by (simp add: reparsed_def call_args_def)
qed

definition example_calls :: tool_calls where
  "example_calls =
     \<lparr>tc_list = [\<lparr>tc_id = None, tc_name = ''a<b'',
        tc_arguments = ''{'' @ [quot] @ ''p'' @ [quot] @ '':'' @ [quot] @ ''x>y'' @ [quot] @ '', '' @
          [quot] @ ''n'' @ [quot] @ '': true}''\<rparr>], raw_dsml = None\<rparr>"

lemma example_args_survive:
  "list_all (\<lambda>tc. list_all arg_survives (call_args tc)) (tc_list example_calls)"
  by code_simp

lemma example_content: "\<not> strstr_found ''done  '' ([NL, NL] @ tool_calls_start Syn_full)"
  by code_simp

theorem tool_calls_round_trip_witness:
  "parse_generated_message_ex (''done  '' @ append_dsml_tool_calls_text example_calls) False no_tool_calls =
     Some (''done'', None, \<lparr>tc_list = map reparsed (tc_list example_calls),
       raw_dsml = Some (append_dsml_tool_calls_text example_calls)\<rparr>) \<and>
   map (length \<circ> call_args) (tc_list example_calls) = [2]"
proof
  have split: "split_reasoning_content ''done  '' (trim_tool_separator_ws ''done  '' 0 (length ''done  '')) =
      (''done'', None)" by code_simp
  show "parse_generated_message_ex (''done  '' @ append_dsml_tool_calls_text example_calls) False no_tool_calls =
     Some (''done'', None, \<lparr>tc_list = map reparsed (tc_list example_calls),
       raw_dsml = Some (append_dsml_tool_calls_text example_calls)\<rparr>)"
    using tool_calls_round_trip [of example_calls "''done  ''", unfolded split prod.case]
      example_args_survive example_content
    by (simp only: list_all_iff) (simp add: example_calls_def)
  show "map (length \<circ> call_args) (tc_list example_calls) = [2]" by code_simp
qed

section \<open>Calls inside the reasoning\<close>

lemma last_from_Some:
  "needle \<noteq> [] \<Longrightarrow> last_from s needle p best = Some k \<Longrightarrow> p \<le> length s \<Longrightarrow>
     (\<forall>q \<ge> p. occurs_at s needle q \<longrightarrow> q \<le> k) \<and> (best = Some k \<or> p \<le> k \<and> occurs_at s needle k)"
proof (induction s needle p best rule: last_from.induct)
  case (1 s needle p best)
  have at: "occurs_at (drop p s) needle j \<longleftrightarrow> occurs_at s needle (p + j)" for j
    using 1(4) by (rule occurs_at_drop)
  show ?case
  proof (cases "strstr_pos (drop p s) needle")
    case None
    then have "\<not> occurs_at s needle q" if "p \<le> q" for q
      using that at [of "q - p"] by (simp add: strstr_pos_None_iff)
    with 1(2,3) None show ?thesis by (simp add: last_from.simps)
  next
    case (Some j)
    then have j: "occurs_at s needle (p + j)" "\<And>q. p \<le> q \<Longrightarrow> q < p + j \<Longrightarrow> \<not> occurs_at s needle q"
      using at by (auto simp: strstr_pos_Some_iff) (metis le_add_diff_inverse nat_add_left_cancel_less)
    have len: "p + j + 1 \<le> length s" using occurs_at_length [OF j(1)] 1(2) by (cases needle) auto
    have rest: "last_from s needle (p + j + 1) (Some (p + j)) = Some k"
      using 1(2,3) Some by (simp add: last_from.simps [of s needle p])
    have IH: "(\<forall>q \<ge> p + j + 1. occurs_at s needle q \<longrightarrow> q \<le> k) \<and>
        (Some (p + j) = Some k \<or> p + j + 1 \<le> k \<and> occurs_at s needle k)"
      by (rule 1(1) [OF 1(2) Some 1(2) rest len])
    then have k: "p + j \<le> k" "occurs_at s needle k" using j(1) by auto
    have "q \<le> k" if "p \<le> q" "occurs_at s needle q" for q
      using IH j(2) [of q] that k(1) by (cases "q \<le> p + j") (auto simp: not_le)
    with k show ?thesis by auto
  qed
qed

lemma find_last_substr_Some:
  assumes "find_last_substr s needle = Some k"
  shows "occurs_at s needle k \<and> (\<forall>q. occurs_at s needle q \<longrightarrow> q \<le> k)"
proof -
  have "needle \<noteq> []" "last_from s needle 0 None = Some k"
    using assms by (auto simp: find_last_substr_def split: if_splits)
  from last_from_Some [OF this] show ?thesis by simp
qed

lemma last_from_None:
  "needle \<noteq> [] \<Longrightarrow> last_from s needle p best = None \<Longrightarrow> p \<le> length s \<Longrightarrow> p \<le> q \<Longrightarrow> \<not> occurs_at s needle q"
proof (cases "strstr_pos (drop p s) needle")
  case None
  assume "p \<le> length s" "p \<le> q"
  then show "\<not> occurs_at s needle q"
    using None occurs_at_drop [of p s needle "q - p"] by (simp add: strstr_pos_None_iff)
next
  case (Some j)
  assume *: "needle \<noteq> []" "last_from s needle p best = None" "p \<le> length s"
  have "occurs_at s needle (p + j)" using Some *(3) by (simp add: strstr_pos_Some_iff occurs_at_drop)
  then have len: "p + j + 1 \<le> length s" using occurs_at_length [of s needle "p + j"] *(1) by (cases needle) auto
  have "last_from s needle p' (Some b) \<noteq> None" for p' b
  proof (induction s needle p' "Some b" arbitrary: b rule: last_from.induct)
    case (1 s needle p)
    then show ?case by (auto simp: last_from.simps [of s needle p] split: option.splits)
  qed
  from this [of "p + j + 1" "p + j"] show "\<not> occurs_at s needle q"
    using * Some by (simp add: last_from.simps [of s needle p])
qed

lemma find_last_substr_None:
  "find_last_substr s needle = None \<Longrightarrow> needle \<noteq> [] \<Longrightarrow> \<not> occurs_at s needle q"
  using last_from_None [of needle s 0 None q] by (simp add: find_last_substr_def split: if_splits)

text \<open>The cursor of the parser only moves forward.\<close>

lemma suffix_drop_of: "suffix r (drop n p) \<Longrightarrow> suffix r p"
  using suffix_drop suffix_order.trans by blast

lemma skip_ascii_ws_suffix: "suffix (skip_ascii_ws p) p"
  by (simp add: skip_ascii_ws.simps suffix_dropWhile)

lemma dsml_take_value_suffix: "dsml_take_value syn n i v out = Some (r, out') \<Longrightarrow> suffix r v"
  by (auto simp: dsml_take_value_def Let_def suffix_drop split: option.splits)

lemma dsml_parse_leaf_suffix: "dsml_parse_leaf_param_json syn p out = Some (r, out') \<Longrightarrow> suffix r p"
  by (auto simp: dsml_parse_leaf_param_json_def split: if_splits option.splits
      dest!: dsml_take_value_suffix suffix_drop_of)

lemma nested_params_loop_suffix:
  "nested_params_loop syn p members any = Some (q, members', any') \<Longrightarrow> suffix q p"
proof (induction syn p members any rule: nested_params_loop.induct)
  case (1 syn p members any)
  let ?q = "skip_ascii_ws p"
  show ?case
  proof (cases "starts_with ?q (param_start syn)")
    case False
    with 1(2) skip_ascii_ws_suffix [of p] show ?thesis by (simp add: nested_params_loop.simps [of syn p])
  next
    case True
    with 1(2) obtain r out where leaf: "dsml_parse_leaf_param_json syn ?q members = Some (r, out)"
      and rest: "nested_params_loop syn r out True = Some (q, members', any')"
      by (auto simp: nested_params_loop.simps [of syn p] split: option.splits)
    have "suffix q r" using 1(1) [OF refl _ leaf refl rest] True by simp
    also note dsml_parse_leaf_suffix [OF leaf]
    also note skip_ascii_ws_suffix
    finally show ?thesis .
  qed
qed

lemma parse_param_suffix:
  assumes "parse_param syn p args = Some (r, args')"
  shows "suffix r p"
proof -
  obtain k where "suffix r (drop (k + 1) p)"
  proof -
    have nested: "suffix (if b then drop n (skip_ascii_ws q) else skip_ascii_ws q) v"
      if "dsml_parse_nested_params_object syn v = Some (q, x)" for v q x b n
    proof -
      have "suffix q v"
        using that nested_params_loop_suffix
        by (fastforce simp: dsml_parse_nested_params_object_def split: option.splits prod.splits if_splits)
      then have "suffix (skip_ascii_ws q) v" using skip_ascii_ws_suffix suffix_order.trans by blast
      then show ?thesis by (cases b) (auto intro: suffix_order.trans [OF suffix_drop])
    qed
    show ?thesis
      using assms that nested
      by (fastforce simp: parse_param_def Let_def split: if_splits option.splits prod.splits
          dest: dsml_take_value_suffix)
  qed
  then show ?thesis by (rule suffix_drop_of)
qed

lemma parse_params_suffix: "parse_params syn p args = Some (r, args') \<Longrightarrow> suffix r p"
proof (induction syn p args rule: parse_params.induct)
  case (1 syn p args)
  let ?q = "skip_ascii_ws p"
  show ?case
  proof (cases "starts_with ?q (invoke_end syn)")
    case True
    with 1(2) have "suffix r ?q" by (auto simp: parse_params.simps [of syn p] suffix_drop)
    then show ?thesis using skip_ascii_ws_suffix suffix_order.trans by blast
  next
    case False
    with 1(2) obtain x out where param: "parse_param syn ?q args = Some (x, out)"
      and rest: "parse_params syn x out = Some (r, args')"
      by (auto simp: parse_params.simps [of syn p] split: option.splits)
    have "suffix r x" using 1(1) [OF refl False param refl rest] .
    also note parse_param_suffix [OF param]
    also note skip_ascii_ws_suffix
    finally show ?thesis .
  qed
qed

lemma parse_invoke_suffix: "parse_invoke syn p = Some (r, tc) \<Longrightarrow> suffix r p"
  by (auto simp: parse_invoke_def split: if_splits option.splits dest!: parse_params_suffix suffix_drop_of)

text \<open>The calls of a block are those of the invocations that stand in it.\<close>

lemma parse_invokes_located:
  "parse_invokes syn p calls = Some (r, tcs) \<Longrightarrow>
     \<exists>new. tcs = calls @ new \<and> (\<forall>tc \<in> set new. \<exists>q s. suffix q p \<and> parse_invoke syn q = Some (s, tc))"
proof (induction syn p calls rule: parse_invokes.induct)
  case (1 syn p calls)
  let ?q = "skip_ascii_ws p"
  show ?case
  proof (cases "starts_with ?q (tool_calls_end syn)")
    case True
    with 1(2) show ?thesis by (auto simp: parse_invokes.simps [of syn p])
  next
    case False
    with 1(2) obtain x tc where inv: "parse_invoke syn ?q = Some (x, tc)"
      and rest: "parse_invokes syn x (calls @ [tc]) = Some (r, tcs)"
      by (auto simp: parse_invokes.simps [of syn p] split: option.splits)
    from 1(1) [OF refl False inv refl rest] obtain new where new: "tcs = calls @ tc # new"
      "\<forall>tc \<in> set new. \<exists>q s. suffix q x \<and> parse_invoke syn q = Some (s, tc)" by auto
    have "suffix x p" using parse_invoke_suffix [OF inv] skip_ascii_ws_suffix suffix_order.trans by blast
    then have "\<forall>tc \<in> set (tc # new). \<exists>q s. suffix q p \<and> parse_invoke syn q = Some (s, tc)"
      using new(2) inv skip_ascii_ws_suffix suffix_order.trans by (metis set_ConsD)
    with new(1) show ?thesis by blast
  qed
qed

text \<open>Parsing with closed reasoning finds the same calls as parsing only what follows the reasoning.\<close>

lemma parse_behind_reasoning:
  assumes "find_last_substr text ''</think>'' = Some k"
  shows "map_option (snd \<circ> snd) (parse_generated_message_ex text True calls) =
     map_option (snd \<circ> snd) (parse_generated_message_ex (drop (k + 8) text) False calls)"
proof (cases "first_found (drop (k + 8) text) block_starts")
  case None
  then show ?thesis using assms by (simp add: parse_generated_message_ex_def split: prod.splits)
next
  case (Some js)
  obtain j syn where js: "js = (j, syn)" by fastforce
  then show ?thesis
    using assms Some
    by (simp add: parse_generated_message_ex_def Let_def add.commute add.left_commute add.assoc
        split: option.splits prod.splits)
qed

lemma parse_generated_new_calls:
  assumes "parse_generated_message_ex text False calls = Some (c, r, calls')"
  shows "calls' = calls \<or>
    (\<exists>new start n. tc_list calls' = tc_list calls @ new \<and> raw_dsml calls' = Some (take n (drop start text)) \<and>
       (\<forall>tc \<in> set new. \<exists>q s syn. suffix q (drop start text) \<and> parse_invoke syn q = Some (s, tc)))"
proof (cases "first_found text block_starts")
  case None
  then show ?thesis using assms by (simp add: parse_generated_message_ex_def split: prod.splits)
next
  case (Some js)
  obtain j syn where js: "js = (j, syn)" by fastforce
  obtain m x tcs where m: "strstr_pos (drop j text) (tool_calls_start syn) = Some m"
    "parse_invokes syn (drop (j + m + length (tool_calls_start syn)) text) (tc_list calls) = Some (x, tcs)"
    "calls' = \<lparr>tc_list = tcs, raw_dsml = Some (take (length text - length x - j) (drop j text))\<rparr>"
    using assms Some js
    by (auto simp: parse_generated_message_ex_def Let_def split: option.splits prod.splits)
  have "suffix q (drop j text)" if "suffix q (drop (j + m + length (tool_calls_start syn)) text)" for q
    using that suffix_drop_of [of q "m + length (tool_calls_start syn)" "drop j text"]
    by (simp add: add.commute add.left_commute add.assoc)
  with parse_invokes_located [OF m(2)] show ?thesis unfolding m(3) by (intro disjI2) fastforce
qed

text \<open>
  C27: When the reasoning has to be closed before tool calls count, what the parser makes of a text,
  the calls with their names and arguments and the kept text of their block, is what it makes of the
  part behind the last \<open></think>\<close> alone: the reasoning has no influence on the calls that are
  executed. Every added call is that of an invocation which stands behind the last \<open></think>\<close>, and so
  does the block kept for replay. A text without \<open></think>\<close> adds no calls.
\<close>

theorem reasoning_is_not_executed:
  shows "if \<exists>u v. text = u @ ''</think>'' @ v
     then \<exists>u v. text = u @ ''</think>'' @ v \<and> (\<forall>q. occurs_at text ''</think>'' q \<longrightarrow> q \<le> length u) \<and>
       map_option (snd \<circ> snd) (parse_generated_message_ex text True calls) =
         map_option (snd \<circ> snd) (parse_generated_message_ex v False calls) \<and>
       (\<forall>c r calls'. parse_generated_message_ex text True calls = Some (c, r, calls') \<longrightarrow> calls' = calls \<or>
          (\<exists>new start n. tc_list calls' = tc_list calls @ new \<and> raw_dsml calls' = Some (take n (drop start v)) \<and>
             (\<forall>tc \<in> set new. \<exists>q s syn. suffix q (drop start v) \<and> parse_invoke syn q = Some (s, tc))))
     else map_option (snd \<circ> snd) (parse_generated_message_ex text True calls) = Some calls"
proof (cases "find_last_substr text ''</think>''")
  case None
  then have "\<nexists>u v. text = u @ ''</think>'' @ v"
    using find_last_substr_None [of "text" "''</think>''"] by (auto simp: occurs_at_iff)
  moreover have "map_option (snd \<circ> snd) (parse_generated_message_ex text True calls) = Some calls"
    using None by (simp add: parse_generated_message_ex_def split: prod.splits)
  ultimately show ?thesis by simp
next
  case (Some k)
  note last = find_last_substr_Some [OF Some]
  obtain u v where t: "text = u @ ''</think>'' @ v" "length u = k"
    using last by (auto simp: occurs_at_iff)
  then have v: "drop (k + 8) text = v" by simp
  note same = parse_behind_reasoning [OF Some, of calls, unfolded v]
  have new: "calls' = calls \<or>
      (\<exists>new start n. tc_list calls' = tc_list calls @ new \<and> raw_dsml calls' = Some (take n (drop start v)) \<and>
         (\<forall>tc \<in> set new. \<exists>q s syn. suffix q (drop start v) \<and> parse_invoke syn q = Some (s, tc)))"
    if p: "parse_generated_message_ex text True calls = Some (c, r, calls')" for c r calls'
  proof -
    obtain c' r' where "parse_generated_message_ex v False calls = Some (c', r', calls')"
      using same p by (cases "parse_generated_message_ex v False calls") auto
    then show ?thesis by (rule parse_generated_new_calls)
  qed
  have "\<exists>u v. text = u @ ''</think>'' @ v" using t(1) by blast
  then show ?thesis
  proof (simp only: if_True simp_thms)
    show "\<exists>u v. text = u @ ''</think>'' @ v \<and> (\<forall>q. occurs_at text ''</think>'' q \<longrightarrow> q \<le> length u) \<and>
       map_option (snd \<circ> snd) (parse_generated_message_ex text True calls) =
         map_option (snd \<circ> snd) (parse_generated_message_ex v False calls) \<and>
       (\<forall>c r calls'. parse_generated_message_ex text True calls = Some (c, r, calls') \<longrightarrow> calls' = calls \<or>
          (\<exists>new start n. tc_list calls' = tc_list calls @ new \<and> raw_dsml calls' = Some (take n (drop start v)) \<and>
             (\<forall>tc \<in> set new. \<exists>q s syn. suffix q (drop start v) \<and> parse_invoke syn q = Some (s, tc))))"
      using t last same new by blast
  qed
qed

text \<open>A block in the reasoning that asks for \<open>rm\<close>, and one behind it that asks for \<open>ls\<close>.\<close>

definition example_block :: "string \<Rightarrow> string" where
  "example_block name = ''<tool_calls><invoke name='' @ [quot] @ name @ [quot] @ ''></invoke></tool_calls>''"

theorem reasoning_is_not_executed_witness:
  "map_option (map tc_name \<circ> tc_list \<circ> snd \<circ> snd)
     (parse_generated_message_ex (example_block ''rm'' @ ''</think>'' @ example_block ''ls'') True no_tool_calls) =
   Some [''ls'']"
proof -
  let ?t = "example_block ''rm'' @ ''</think>'' @ example_block ''ls''"
  have "find_last_substr ?t ''</think>'' = Some (length (example_block ''rm''))" by code_simp
  note last = find_last_substr_Some [OF this]
  obtain u v where uv: "?t = u @ ''</think>'' @ v" "\<forall>q. occurs_at ?t ''</think>'' q \<longrightarrow> q \<le> length u"
    "map_option (snd \<circ> snd) (parse_generated_message_ex ?t True no_tool_calls) =
       map_option (snd \<circ> snd) (parse_generated_message_ex v False no_tool_calls)"
    using reasoning_is_not_executed [of ?t no_tool_calls] by (auto split: if_splits)
  have "occurs_at ?t ''</think>'' (length u)" using uv(1) unfolding occurs_at_iff by blast
  then have "length u = length (example_block ''rm'')" using uv(2) last by (meson le_antisym)
  then have v: "v = example_block ''ls''" using uv(1) by (simp add: append_eq_append_conv)
  have "map_option (map tc_name \<circ> tc_list) (map_option (snd \<circ> snd)
      (parse_generated_message_ex (example_block ''ls'') False no_tool_calls)) = Some [''ls'']"
    by code_simp
  then show ?thesis unfolding v uv(3) [unfolded v, symmetric] by (simp add: option.map_comp comp_assoc)
qed

end
