(* ===== verification/Lru_List.thy ===== *)
theory Lru_List
  imports Prelude
begin

text \<open>
  The doubly linked list of the server's tool memory (\<open>ds4_server.c\<close>): the pointers to its first and last
  node and, for every node, the links the code keeps in its fields \<open>prev\<close> and \<open>next\<close>. A list segment
  predicate relates the links to the list of the nodes.
\<close>

record lru =
  lru_head :: "nat option"
  lru_tail :: "nat option"
  prev_of :: "nat \<Rightarrow> nat option"
  next_of :: "nat \<Rightarrow> nat option"

definition lru_empty :: lru where
  "lru_empty = \<lparr>lru_head = None, lru_tail = None, prev_of = (\<lambda>_. None), next_of = (\<lambda>_. None)\<rparr>"

definition tool_memory_link_head :: "lru \<Rightarrow> nat \<Rightarrow> lru" where
  "tool_memory_link_head l e =
     (let l1 = l\<lparr>prev_of := (prev_of l)(e := None), next_of := (next_of l)(e := lru_head l)\<rparr>;
          l2 = (case lru_head l1 of
                  Some h \<Rightarrow> l1\<lparr>prev_of := (prev_of l1)(h := Some e)\<rparr>
                | None \<Rightarrow> l1\<lparr>lru_tail := Some e\<rparr>)
      in l2\<lparr>lru_head := Some e\<rparr>)"

definition tool_memory_unlink :: "lru \<Rightarrow> nat \<Rightarrow> lru" where
  "tool_memory_unlink l e =
     (let l1 = (case prev_of l e of
                  Some p \<Rightarrow> l\<lparr>next_of := (next_of l)(p := next_of l e)\<rparr>
                | None \<Rightarrow> l\<lparr>lru_head := next_of l e\<rparr>);
          l2 = (case next_of l1 e of
                  Some n \<Rightarrow> l1\<lparr>prev_of := (prev_of l1)(n := prev_of l1 e)\<rparr>
                | None \<Rightarrow> l1\<lparr>lru_tail := prev_of l1 e\<rparr>)
      in l2\<lparr>prev_of := (prev_of l2)(e := None), next_of := (next_of l2)(e := None)\<rparr>)"

section \<open>List segments\<close>

definition opt_hd :: "nat list \<Rightarrow> nat option \<Rightarrow> nat option" where
  "opt_hd ys q = (case ys of [] \<Rightarrow> q | y # _ \<Rightarrow> Some y)"

definition opt_last :: "nat list \<Rightarrow> nat option \<Rightarrow> nat option" where
  "opt_last xs p = (if xs = [] then p else Some (last xs))"

lemma opt_simps [simp]:
  "opt_hd [] q = q" "opt_hd (y # ys) q = Some y" "opt_last [] p = p" "opt_last (xs @ [x]) p = Some x"
  by (simp_all add: opt_hd_def opt_last_def)

text \<open>The nodes \<open>xs\<close> in order, entered from \<open>p\<close> and left to \<open>q\<close>.\<close>

fun seg ::
  "(nat \<Rightarrow> nat option) \<Rightarrow> (nat \<Rightarrow> nat option) \<Rightarrow> nat option \<Rightarrow> nat list \<Rightarrow> nat option \<Rightarrow> bool" where
  "seg nx pv p [] q = True"
| "seg nx pv p (x # xs) q = (pv x = p \<and> nx x = opt_hd xs q \<and> seg nx pv (Some x) xs q)"

definition lru_rep :: "lru \<Rightarrow> nat list \<Rightarrow> bool" where
  "lru_rep l xs \<longleftrightarrow> distinct xs \<and> lru_head l = opt_hd xs None \<and> lru_tail l = opt_last xs None \<and>
     seg (next_of l) (prev_of l) None xs None"

lemma opt_hd_append: "opt_hd (xs @ ys) q = opt_hd xs (opt_hd ys q)"
  by (cases xs) simp_all

lemma opt_last_Cons: "opt_last (x # xs) p = opt_last xs (Some x)"
  by (simp add: opt_last_def)

lemma seg_append:
  "seg nx pv p (xs @ ys) q \<longleftrightarrow> seg nx pv p xs (opt_hd ys q) \<and> seg nx pv (opt_last xs p) ys q"
  by (induction xs arbitrary: p) (auto simp: opt_hd_append opt_last_Cons)

lemma seg_other [simp]:
  "x \<notin> set xs \<Longrightarrow> seg (nx(x := v)) pv p xs q = seg nx pv p xs q"
  "x \<notin> set xs \<Longrightarrow> seg nx (pv(x := v)) p xs q = seg nx pv p xs q"
  by (induction xs arbitrary: p) auto

lemma seg_relink_last:
  "seg nx pv p (xs @ [x]) q \<Longrightarrow> x \<notin> set xs \<Longrightarrow> seg (nx(x := q')) pv p (xs @ [x]) q'"
  by (simp add: seg_append)

lemma seg_relink_first:
  "seg nx pv p (y # ys) q \<Longrightarrow> y \<notin> set ys \<Longrightarrow> seg nx (pv(y := p')) p' (y # ys) q"
  by simp

lemma lru_rep_empty: "lru_rep lru_empty []"
  by (simp add: lru_rep_def lru_empty_def)

lemma lru_rep_tail: "lru_rep l xs \<Longrightarrow> lru_tail l = opt_last xs None"
  by (simp add: lru_rep_def)

lemma link_head_rep:
  assumes "lru_rep l xs" and "e \<notin> set xs"
  shows "lru_rep (tool_memory_link_head l e) (e # xs)"
proof (cases xs)
  case Nil
  with assms show ?thesis by (simp add: lru_rep_def tool_memory_link_head_def opt_last_def)
next
  case (Cons h ys)
  with assms show ?thesis
    by (auto simp: lru_rep_def tool_memory_link_head_def opt_last_def Let_def)
qed

lemma unlink_rep:
  assumes "lru_rep l (xs @ e # ys)"
  shows "lru_rep (tool_memory_unlink l e) (xs @ ys)"
proof -
  note d = assms [unfolded lru_rep_def seg_append]
  have prev: "prev_of l e = opt_last xs None" and next_e: "next_of l e = opt_hd ys None"
    using d by simp_all
  show ?thesis
  proof (cases xs rule: rev_cases)
    case Nil
    show ?thesis
    proof (cases ys)
      case Nil
      with d prev next_e \<open>xs = []\<close> show ?thesis by (simp add: lru_rep_def tool_memory_unlink_def)
    next
      case (Cons n zs)
      with d prev next_e \<open>xs = []\<close> show ?thesis
        by (auto simp: lru_rep_def tool_memory_unlink_def opt_last_def)
    qed
  next
    case (snoc ws p)
    show ?thesis
    proof (cases ys)
      case Nil
      with d prev next_e snoc show ?thesis
        by (auto simp: lru_rep_def tool_memory_unlink_def seg_append opt_hd_append)
    next
      case (Cons n zs)
      with d prev next_e snoc show ?thesis
        by (auto simp: lru_rep_def tool_memory_unlink_def seg_append opt_hd_append opt_last_def)
    qed
  qed
qed

lemma lru_rep_distinct: "lru_rep l xs \<Longrightarrow> distinct xs"
  by (simp add: lru_rep_def)

lemma lru_rep_head: "lru_rep l xs \<Longrightarrow> lru_head l = opt_hd xs None"
  by (simp add: lru_rep_def)

section \<open>Recency lists\<close>

text \<open>
  What the tool memory needs of a list of nodes: adding at the front, removing anywhere, and the pointers to
  both ends. Moving a node to the front follows.
\<close>

locale recency_list =
  fixes rep :: "'l \<Rightarrow> nat list \<Rightarrow> bool"
    and link :: "'l \<Rightarrow> nat \<Rightarrow> 'l"
    and unlink :: "'l \<Rightarrow> nat \<Rightarrow> 'l"
    and first :: "'l \<Rightarrow> nat option"
  assumes rep_distinct: "rep l xs \<Longrightarrow> distinct xs"
    and rep_first: "rep l xs \<Longrightarrow> first l = opt_hd xs None"
    and rep_link: "rep l xs \<Longrightarrow> e \<notin> set xs \<Longrightarrow> rep (link l e) (e # xs)"
    and rep_unlink: "rep l (xs @ e # ys) \<Longrightarrow> rep (unlink l e) (xs @ ys)"
begin

lemma rep_remove:
  assumes "rep l xs" and "e \<in> set xs"
  shows "rep (unlink l e) (remove1 e xs)"
proof -
  obtain us vs where xs: "xs = us @ e # vs" using assms(2) by (meson split_list)
  then have "remove1 e xs = us @ vs" using rep_distinct [OF assms(1)] by (simp add: remove1_append)
  with rep_unlink [OF assms(1) [unfolded xs]] show ?thesis by simp
qed

lemma rep_move_front:
  assumes "rep l xs" and "e \<in> set xs"
  shows "rep (if first l = Some e then l else link (unlink l e) e) (e # remove1 e xs)"
proof (cases "first l = Some e")
  case True
  then have "e # remove1 e xs = xs" using rep_first [OF assms(1)] by (cases xs) auto
  with assms(1) True show ?thesis by simp
next
  case False
  have "e \<notin> set (remove1 e xs)" using rep_distinct [OF assms(1)] by simp
  with rep_link [OF rep_remove [OF assms]] False show ?thesis by simp
qed

end

interpretation lru: recency_list lru_rep tool_memory_link_head tool_memory_unlink lru_head
  by unfold_locales (rule lru_rep_distinct lru_rep_head link_head_rep unlink_rep; assumption)+

end
