(* ===== verification/Tool_Memory.thy ===== *)
theory Tool_Memory
  imports Lru_List Tool_Text
begin

text \<open>
  The tool memory of the server (\<open>ds4_server.c\<close>): the exact markup sampled for recent tool calls by call id,
  with one copy of each text, a recency list and limits on ids and bytes.

  Entries and blocks live in stores indexed by the addresses \<open>xmalloc\<close> returns, which are fresh ones; freed
  addresses leave the store. The radix trees \<open>by_id\<close> and \<open>by_block\<close> are finite maps. Sizes are natural numbers: they
  count bytes the process holds.
\<close>

datatype tool_memory_source = TOOL_MEMORY_RAM | TOOL_MEMORY_DISK

record tool_memory_block =
  b_dsml :: string
  b_len :: nat
  b_bytes :: nat
  b_refs :: int
  b_seen :: u64
  b_entries :: "nat list"

record tool_memory_entry =
  e_id :: string
  e_block :: nat
  e_bytes :: nat
  e_stamp :: u64
  e_source :: tool_memory_source

record tool_memory =
  by_id :: "string \<Rightarrow> nat option"
  by_block :: "string \<Rightarrow> nat option"
  entry_at :: "nat \<Rightarrow> tool_memory_entry option"
  block_at :: "nat \<Rightarrow> tool_memory_block option"
  recency :: lru
  entries :: int
  max_entries :: int
  bytes :: nat
  max_bytes :: nat
  clock :: u64
  scan_clock :: u64
  fresh_entry :: nat
  fresh_block :: nat

text \<open>The zeroed structure, with the limits the server is configured with.\<close>

definition tool_memory_empty :: "int \<Rightarrow> nat \<Rightarrow> tool_memory" where
  "tool_memory_empty mx mb =
     \<lparr>by_id = (\<lambda>_. None), by_block = (\<lambda>_. None), entry_at = (\<lambda>_. None), block_at = (\<lambda>_. None),
      recency = lru_empty, entries = 0, max_entries = mx, bytes = 0, max_bytes = mb, clock = 0, scan_clock = 0,
      fresh_entry = 0, fresh_block = 0\<rparr>"

definition DS4_TOOL_MEMORY_DEFAULT_MAX_IDS :: int where
  "DS4_TOOL_MEMORY_DEFAULT_MAX_IDS = 100000"

definition DS4_TOOL_MEMORY_MAX_BYTES :: nat where
  "DS4_TOOL_MEMORY_MAX_BYTES = 512 * 1024 * 1024"

definition tool_memory_max_entries :: "tool_memory \<Rightarrow> int" where
  "tool_memory_max_entries m = (if max_entries m > 0 then max_entries m else DS4_TOOL_MEMORY_DEFAULT_MAX_IDS)"

definition tool_memory_max_bytes :: "tool_memory \<Rightarrow> nat" where
  "tool_memory_max_bytes m = (if max_bytes m > 0 then max_bytes m else DS4_TOOL_MEMORY_MAX_BYTES)"

text \<open>The sizes of the two structures on a 64-bit machine.\<close>

definition sizeof_block :: nat where "sizeof_block = 48"

definition sizeof_entry :: nat where "sizeof_entry = 64"

abbreviation entry :: "tool_memory \<Rightarrow> nat \<Rightarrow> tool_memory_entry" where
  "entry m p \<equiv> the (entry_at m p)"

abbreviation block :: "tool_memory \<Rightarrow> nat \<Rightarrow> tool_memory_block" where
  "block m q \<equiv> the (block_at m q)"

definition tool_memory_touch :: "tool_memory \<Rightarrow> nat \<Rightarrow> tool_memory" where
  "tool_memory_touch m p =
     (let c = clock m + 1;
          m1 = m\<lparr>clock := c, entry_at := (entry_at m)(p \<mapsto> (entry m p)\<lparr>e_stamp := c\<rparr>)\<rparr> in
      m1\<lparr>recency := (if lru_head (recency m) = Some p then recency m
                      else tool_memory_link_head (tool_memory_unlink (recency m) p) p)\<rparr>)"

text \<open>The first occurrence of the entry leaves the chain of its block.\<close>

fun tool_block_unlink_entry :: "nat list \<Rightarrow> nat \<Rightarrow> nat list" where
  "tool_block_unlink_entry [] p = []"
| "tool_block_unlink_entry (x # xs) p = (if x = p then xs else x # tool_block_unlink_entry xs p)"

definition tool_memory_find_block_locked :: "tool_memory \<Rightarrow> string \<Rightarrow> nat option" where
  "tool_memory_find_block_locked m dsml = (if dsml = [] then None else by_block m dsml)"

definition tool_memory_get_block_locked :: "tool_memory \<Rightarrow> string \<Rightarrow> tool_memory \<times> nat" where
  "tool_memory_get_block_locked m dsml =
     (case tool_memory_find_block_locked m dsml of
        Some q \<Rightarrow> (m, q)
      | None \<Rightarrow>
          (let q = fresh_block m;
               b = \<lparr>b_dsml = dsml, b_len = length dsml, b_bytes = length dsml + 1 + sizeof_block, b_refs = 0,
                    b_seen = 0, b_entries = []\<rparr> in
           (m\<lparr>by_block := (by_block m)(dsml \<mapsto> q), block_at := (block_at m)(q \<mapsto> b), fresh_block := q + 1,
              bytes := bytes m + b_bytes b\<rparr>, q)))"

definition tool_memory_release_block_locked :: "tool_memory \<Rightarrow> nat \<Rightarrow> tool_memory" where
  "tool_memory_release_block_locked m q =
     (let b = block m q; r = b_refs b - 1 in
      if r > 0 then m\<lparr>block_at := (block_at m)(q \<mapsto> b\<lparr>b_refs := r\<rparr>)\<rparr>
      else m\<lparr>by_block := (by_block m)(b_dsml b := None), block_at := (block_at m)(q := None),
             bytes := (if bytes m \<ge> b_bytes b then bytes m - b_bytes b else 0)\<rparr>)"

definition tool_memory_remove_entry_locked :: "tool_memory \<Rightarrow> nat \<Rightarrow> tool_memory" where
  "tool_memory_remove_entry_locked m p =
     (let e = entry m p; q = e_block e; b = block m q;
          m1 = m\<lparr>by_id := (by_id m)(e_id e := None), recency := tool_memory_unlink (recency m) p,
                 block_at := (block_at m)(q \<mapsto> b\<lparr>b_entries := tool_block_unlink_entry (b_entries b) p\<rparr>),
                 bytes := (if bytes m \<ge> e_bytes e then bytes m - e_bytes e else 0),
                 entries := (if entries m > 0 then entries m - 1 else entries m)\<rparr>;
          m2 = tool_memory_release_block_locked m1 q
      in m2\<lparr>entry_at := (entry_at m2)(p := None)\<rparr>)"

definition over_limit :: "tool_memory \<Rightarrow> bool" where
  "over_limit m \<longleftrightarrow> entries m > tool_memory_max_entries m \<or> bytes m > tool_memory_max_bytes m"

text \<open>The loop removes the last entry while a limit is exceeded; that it ends rests on the list being well formed.\<close>

partial_function (option) tool_memory_prune_locked :: "tool_memory \<Rightarrow> tool_memory option" where
  "tool_memory_prune_locked m =
     (if over_limit m then
        (case lru_tail (recency m) of
           None \<Rightarrow> Some m
         | Some p \<Rightarrow> tool_memory_prune_locked (tool_memory_remove_entry_locked m p))
      else Some m)"

definition tool_memory_find_entry_locked :: "tool_memory \<Rightarrow> string \<Rightarrow> nat option" where
  "tool_memory_find_entry_locked m i = (if i = [] then None else by_id m i)"

text \<open>The part of \<open>tool_memory_put_locked\<close> that adds an entry for an id that has none.\<close>

definition add_entry :: "tool_memory \<Rightarrow> string \<Rightarrow> string \<Rightarrow> tool_memory_source \<Rightarrow> tool_memory" where
  "add_entry m0 i dsml source =
     (case tool_memory_get_block_locked m0 dsml of
        (m, q) \<Rightarrow>
          (let p = fresh_entry m; b = block m q; c = clock m + 1;
               e = \<lparr>e_id = i, e_block = q, e_bytes = length i + 1 + sizeof_entry, e_stamp = c, e_source = source\<rparr>
           in m\<lparr>fresh_entry := p + 1, clock := c, entry_at := (entry_at m)(p \<mapsto> e),
                block_at := (block_at m)(q \<mapsto> b\<lparr>b_entries := p # b_entries b, b_refs := b_refs b + 1\<rparr>),
                by_id := (by_id m)(i \<mapsto> p), recency := tool_memory_link_head (recency m) p,
                entries := entries m + 1, bytes := bytes m + e_bytes e\<rparr>))"

definition tool_memory_put_locked ::
  "tool_memory \<Rightarrow> string \<Rightarrow> string \<Rightarrow> tool_memory_source \<Rightarrow> tool_memory option" where
  "tool_memory_put_locked m i dsml source =
     (if i = [] \<or> dsml = [] then Some m
      else case tool_memory_find_entry_locked m i of
        Some p \<Rightarrow>
          if b_len (block m (e_block (entry m p))) = length dsml \<and> b_dsml (block m (e_block (entry m p))) = dsml then
            (let m1 = (if source = TOOL_MEMORY_RAM
                       then m\<lparr>entry_at := (entry_at m)(p \<mapsto> (entry m p)\<lparr>e_source := TOOL_MEMORY_RAM\<rparr>)\<rparr> else m) in
             tool_memory_prune_locked (tool_memory_touch m1 p))
          else tool_memory_prune_locked (add_entry (tool_memory_remove_entry_locked m p) i dsml source)
      | None \<Rightarrow> tool_memory_prune_locked (add_entry m i dsml source))"

partial_function (option) tool_memory_free :: "tool_memory \<Rightarrow> tool_memory option" where
  "tool_memory_free m =
     (case lru_tail (recency m) of
        None \<Rightarrow> Some (tool_memory_empty 0 0)
      | Some p \<Rightarrow> tool_memory_free (tool_memory_remove_entry_locked m p))"

definition tool_memory_lookup_locked ::
  "tool_memory \<Rightarrow> string \<Rightarrow> tool_memory \<times> (tool_memory_source \<times> nat) option" where
  "tool_memory_lookup_locked m i =
     (case tool_memory_find_entry_locked m i of
        None \<Rightarrow> (m, None)
      | Some p \<Rightarrow> (tool_memory_touch m p, Some (e_source (entry m p), e_block (entry m p))))"

section \<open>Remembering and replaying\<close>

text \<open>A call without an id has the id \<open>NULL\<close>, which the memory treats as an empty one.\<close>

definition id_of :: "tool_call \<Rightarrow> string" where
  "id_of tc = (case tc_id tc of None \<Rightarrow> [] | Some i \<Rightarrow> i)"

fun remember_calls :: "tool_memory \<Rightarrow> tool_call list \<Rightarrow> string \<Rightarrow> tool_memory option" where
  "remember_calls m [] dsml = Some m"
| "remember_calls m (tc # tcs) dsml =
     (case tool_memory_put_locked m (id_of tc) dsml TOOL_MEMORY_RAM of
        None \<Rightarrow> None
      | Some m1 \<Rightarrow> remember_calls m1 tcs dsml)"

definition tool_memory_remember :: "bool \<Rightarrow> tool_memory \<Rightarrow> tool_calls \<Rightarrow> tool_memory option" where
  "tool_memory_remember disabled m calls =
     (case raw_dsml calls of
        None \<Rightarrow> Some m
      | Some dsml \<Rightarrow> if disabled \<or> dsml = [] then Some m else remember_calls m (tc_list calls) dsml)"

definition tool_memory_has_id :: "bool \<Rightarrow> tool_memory \<Rightarrow> string \<Rightarrow> bool" where
  "tool_memory_has_id disabled m i \<longleftrightarrow> \<not> disabled \<and> i \<noteq> [] \<and> tool_memory_find_entry_locked m i \<noteq> None"

definition tool_memory_put_source ::
  "bool \<Rightarrow> tool_memory \<Rightarrow> string \<Rightarrow> string \<Rightarrow> tool_memory_source \<Rightarrow> tool_memory option" where
  "tool_memory_put_source disabled m i dsml source =
     (if disabled \<or> i = [] \<or> dsml = [] then Some m else tool_memory_put_locked m i dsml source)"

record tool_replay_stats =
  mem :: int
  disk :: int
  canonical :: int
  missing_ids :: int

text \<open>What the loop over the calls of one message has found so far.\<close>

record attach_state =
  matched :: "nat option"
  matched_source :: tool_memory_source
  exact :: bool
  missing :: int

definition attach_init :: attach_state where
  "attach_init = \<lparr>matched = None, matched_source = TOOL_MEMORY_DISK, exact = True, missing = 0\<rparr>"

definition attach_call :: "tool_call \<Rightarrow> tool_memory \<times> attach_state \<Rightarrow> tool_memory \<times> attach_state" where
  "attach_call tc ma =
     (case ma of (m, a) \<Rightarrow>
       (case tool_memory_lookup_locked m (id_of tc) of
          (m1, None) \<Rightarrow> (m1, a\<lparr>exact := False, missing := missing a + 1\<rparr>)
        | (m1, Some (source, q)) \<Rightarrow>
            (let a1 = (case matched a of
                         None \<Rightarrow> a\<lparr>matched := Some q, matched_source := source\<rparr>
                       | Some q0 \<Rightarrow> if q0 \<noteq> q then a\<lparr>exact := False\<rparr> else a) in
             (m1, if source = TOOL_MEMORY_RAM then a1\<lparr>matched_source := TOOL_MEMORY_RAM\<rparr> else a1))))"

definition attach_message ::
  "tool_memory \<times> tool_replay_stats \<Rightarrow> tool_calls \<Rightarrow> (tool_memory \<times> tool_replay_stats) \<times> tool_calls" where
  "attach_message ms calls =
     (case ms of (m, stats) \<Rightarrow>
       if tc_list calls = [] \<or> raw_dsml calls \<noteq> None then ((m, stats), calls)
       else (case fold attach_call (tc_list calls) (m, attach_init) of
         (m1, a) \<Rightarrow>
           (case (exact a, matched a) of
              (True, Some q) \<Rightarrow>
                ((m1, if matched_source a = TOOL_MEMORY_RAM then stats\<lparr>mem := mem stats + 1\<rparr>
                      else stats\<lparr>disk := disk stats + 1\<rparr>),
                 calls\<lparr>raw_dsml := Some (b_dsml (block m1 q))\<rparr>)
            | _ \<Rightarrow>
                ((m1, stats\<lparr>canonical := canonical stats + 1, missing_ids := missing_ids stats + missing a\<rparr>),
                 calls))))"

definition count_missing :: "tool_replay_stats \<Rightarrow> tool_calls \<Rightarrow> tool_replay_stats" where
  "count_missing stats calls =
     (if tc_list calls = [] \<or> raw_dsml calls \<noteq> None then stats
      else stats\<lparr>canonical := canonical stats + 1,
                 missing_ids := missing_ids stats + int (length (tc_list calls))\<rparr>)"

text \<open>The calls of the messages, with the memory and the counters after them.\<close>

fun attach_messages ::
  "tool_memory \<times> tool_replay_stats \<Rightarrow> tool_calls list \<Rightarrow> (tool_memory \<times> tool_replay_stats) \<times> tool_calls list" where
  "attach_messages ms [] = (ms, [])"
| "attach_messages ms (c # cs) =
     (case attach_message ms c of
        (ms1, c1) \<Rightarrow> (case attach_messages ms1 cs of (ms2, cs2) \<Rightarrow> (ms2, c1 # cs2)))"

definition tool_memory_attach_to_messages ::
  "bool \<Rightarrow> tool_memory \<Rightarrow> tool_replay_stats \<Rightarrow> tool_calls list \<Rightarrow>
   (tool_memory \<times> tool_replay_stats) \<times> tool_calls list" where
  "tool_memory_attach_to_messages disabled m stats msgs =
     (if disabled then ((m, fold (\<lambda>c st. count_missing st c) msgs stats), msgs)
      else attach_messages (m, stats) msgs)"

end
