(* ===== verification/Tool_Memory_Inv.thy ===== *)
theory Tool_Memory_Inv
  imports Tool_Memory
begin

text \<open>
  The invariant of the tool memory and its preservation: the recency list holds exactly the entries, the maps index
  them by id and their texts once each, a block counts and lists the entries that share it, and the byte and entry
  counters are exact.
\<close>

section \<open>The invariant\<close>

definition entry_ok :: "tool_memory \<Rightarrow> nat \<Rightarrow> tool_memory_entry \<Rightarrow> bool" where
  "entry_ok m p e \<longleftrightarrow> e_id e \<noteq> [] \<and> e_bytes e = length (e_id e) + 1 + sizeof_entry \<and> p < fresh_entry m \<and>
     by_id m (e_id e) = Some p \<and> block_at m (e_block e) \<noteq> None"

definition block_ok :: "tool_memory \<Rightarrow> nat \<Rightarrow> tool_memory_block \<Rightarrow> bool" where
  "block_ok m q b \<longleftrightarrow> b_dsml b \<noteq> [] \<and> b_len b = length (b_dsml b) \<and>
     b_bytes b = length (b_dsml b) + 1 + sizeof_block \<and> q < fresh_block m \<and>
     by_block m (b_dsml b) = Some q \<and> b_refs b = int (length (b_entries b)) \<and> b_entries b \<noteq> [] \<and>
     distinct (b_entries b) \<and>
     (\<forall>p. p \<in> set (b_entries b) \<longleftrightarrow> (\<exists>e. entry_at m p = Some e \<and> e_block e = q))"

definition sum_entries :: "tool_memory \<Rightarrow> nat" where
  "sum_entries m = (\<Sum>p \<in> dom (entry_at m). e_bytes (entry m p))"

definition sum_blocks :: "tool_memory \<Rightarrow> nat" where
  "sum_blocks m = (\<Sum>q \<in> dom (block_at m). b_bytes (block m q))"

definition tm_inv :: "tool_memory \<Rightarrow> nat list \<Rightarrow> bool" where
  "tm_inv m xs \<longleftrightarrow>
     lru_rep (recency m) xs \<and> dom (entry_at m) = set xs \<and> finite (dom (block_at m)) \<and>
     (\<forall>p e. entry_at m p = Some e \<longrightarrow> entry_ok m p e) \<and>
     (\<forall>q b. block_at m q = Some b \<longrightarrow> block_ok m q b) \<and>
     (\<forall>i p. by_id m i = Some p \<longrightarrow> (\<exists>e. entry_at m p = Some e \<and> e_id e = i)) \<and>
     (\<forall>d q. by_block m d = Some q \<longrightarrow> (\<exists>b. block_at m q = Some b \<and> b_dsml b = d)) \<and>
     entries m = int (length xs) \<and> bytes m = sum_entries m + sum_blocks m"

lemma tm_invD:
  assumes "tm_inv m xs"
  shows "lru_rep (recency m) xs" "dom (entry_at m) = set xs" "finite (dom (block_at m))"
    "\<And>p e. entry_at m p = Some e \<Longrightarrow> entry_ok m p e"
    "\<And>q b. block_at m q = Some b \<Longrightarrow> block_ok m q b"
    "\<And>i p. by_id m i = Some p \<Longrightarrow> \<exists>e. entry_at m p = Some e \<and> e_id e = i"
    "\<And>d q. by_block m d = Some q \<Longrightarrow> \<exists>b. block_at m q = Some b \<and> b_dsml b = d"
    "entries m = int (length xs)" "bytes m = sum_entries m + sum_blocks m"
  using assms unfolding tm_inv_def by blast+

lemma tm_invI:
  assumes "lru_rep (recency m) xs" "dom (entry_at m) = set xs" "finite (dom (block_at m))"
    "\<And>p e. entry_at m p = Some e \<Longrightarrow> entry_ok m p e"
    "\<And>q b. block_at m q = Some b \<Longrightarrow> block_ok m q b"
    "\<And>i p. by_id m i = Some p \<Longrightarrow> \<exists>e. entry_at m p = Some e \<and> e_id e = i"
    "\<And>d q. by_block m d = Some q \<Longrightarrow> \<exists>b. block_at m q = Some b \<and> b_dsml b = d"
    "entries m = int (length xs)" "bytes m = sum_entries m + sum_blocks m"
  shows "tm_inv m xs"
  using assms unfolding tm_inv_def by blast

lemma tm_inv_empty: "tm_inv (tool_memory_empty mx mb) []"
  by (simp add: tm_inv_def tool_memory_empty_def lru_rep_empty sum_entries_def sum_blocks_def)

section \<open>Moving to the front\<close>

text \<open>Changing the stamp or the source of an entry, the clock, or the order of the list keeps the invariant.\<close>

lemma update_entry_inv:
  assumes inv: "tm_inv m xs" and e: "entry_at m p = Some e"
    and same: "e_id e' = e_id e" "e_block e' = e_block e" "e_bytes e' = e_bytes e"
  shows "tm_inv (m\<lparr>entry_at := (entry_at m)(p \<mapsto> e')\<rparr>) xs"
proof -
  note d = tm_invD [OF inv]
  let ?m = "m\<lparr>entry_at := (entry_at m)(p \<mapsto> e')\<rparr>"
  show ?thesis
  proof (rule tm_invI)
    show "dom (entry_at ?m) = set xs" using d(2) e by auto
    have "sum_entries ?m = sum_entries m"
      unfolding sum_entries_def using e same by (intro sum.cong) auto
    then show "bytes ?m = sum_entries ?m + sum_blocks ?m" using d(9) by (simp add: sum_blocks_def)
    show "entry_ok ?m p' f" if "entry_at ?m p' = Some f" for p' f
      using that d(4) [of p' f] d(4) [OF e] same by (auto simp: entry_ok_def split: if_splits)
    show "block_ok ?m q b" if "block_at ?m q = Some b" for q b
      using d(5) [of q b] that e same by (auto simp: block_ok_def)
    show "\<exists>e. entry_at ?m p' = Some e \<and> e_id e = i" if "by_id ?m i = Some p'" for i p'
      using d(6) [of i p'] that e same by auto
  qed (use d in simp_all)
qed

lemma reorder_inv:
  assumes "tm_inv m xs" and "lru_rep r ys" and "set ys = set xs" and "length ys = length xs"
  shows "tm_inv (m\<lparr>clock := c, recency := r\<rparr>) ys"
  using assms by (simp add: tm_inv_def entry_ok_def block_ok_def sum_entries_def sum_blocks_def)

lemma length_front: "p \<in> set xs \<Longrightarrow> length (p # remove1 p xs) = length xs"
  by (induction xs) auto

lemma touch_inv:
  assumes inv: "tm_inv m xs" and p: "p \<in> set xs"
  shows "tm_inv (tool_memory_touch m p) (p # remove1 p xs)"
proof -
  note d = tm_invD [OF inv]
  obtain e where e: "entry_at m p = Some e" using p d(2) by blast
  let ?r = "if lru_head (recency m) = Some p then recency m
    else tool_memory_link_head (tool_memory_unlink (recency m) p) p"
  let ?e = "e\<lparr>e_stamp := clock m + 1\<rparr>"
  have "tm_inv (m\<lparr>entry_at := (entry_at m)(p \<mapsto> ?e)\<rparr>) xs"
    by (rule update_entry_inv [OF inv e]) simp_all
  moreover have "lru_rep ?r (p # remove1 p xs)" by (rule lru.rep_move_front [OF d(1) p])
  moreover have "set (p # remove1 p xs) = set xs" using p lru_rep_distinct [OF d(1)] by auto
  moreover note length_front [OF p]
  ultimately have "tm_inv (m\<lparr>entry_at := (entry_at m)(p \<mapsto> ?e)\<rparr>\<lparr>clock := clock m + 1, recency := ?r\<rparr>)
      (p # remove1 p xs)" by (rule reorder_inv)
  moreover have "tool_memory_touch m p =
      m\<lparr>entry_at := (entry_at m)(p \<mapsto> ?e)\<rparr>\<lparr>clock := clock m + 1, recency := ?r\<rparr>"
    using e by (cases m) (simp add: tool_memory_touch_def Let_def)
  ultimately show ?thesis by (simp only:)
qed

section \<open>Removing an entry\<close>

lemma unlink_entry_remove1 [simp]: "tool_block_unlink_entry xs p = remove1 p xs"
  by (induction xs) auto

lemma sum_entries_remove:
  assumes "finite (dom (entry_at m))" and "entry_at m p = Some e" and "entry_at m' = (entry_at m)(p := None)"
  shows "sum_entries m = e_bytes e + sum_entries m'"
proof -
  have "sum_entries m = e_bytes e + (\<Sum>p \<in> dom (entry_at m) - {p}. e_bytes (entry m p))"
    unfolding sum_entries_def using assms(1,2) by (subst sum.remove [of _ p]) auto
  also have "(\<Sum>p \<in> dom (entry_at m) - {p}. e_bytes (entry m p)) = sum_entries m'"
    unfolding sum_entries_def assms(3) by (intro sum.cong) auto
  finally show ?thesis .
qed

lemma sum_blocks_remove:
  assumes "finite (dom (block_at m))" and "block_at m q = Some b" and "block_at m' = (block_at m)(q := None)"
  shows "sum_blocks m = b_bytes b + sum_blocks m'"
proof -
  have "sum_blocks m = b_bytes b + (\<Sum>q \<in> dom (block_at m) - {q}. b_bytes (block m q))"
    unfolding sum_blocks_def using assms(1,2) by (subst sum.remove [of _ q]) auto
  also have "(\<Sum>q \<in> dom (block_at m) - {q}. b_bytes (block m q)) = sum_blocks m'"
    unfolding sum_blocks_def assms(3) by (intro sum.cong) auto
  finally show ?thesis .
qed

lemma sum_blocks_update:
  assumes "block_at m q = Some b" and "block_at m' = (block_at m)(q \<mapsto> b')" and "b_bytes b' = b_bytes b"
  shows "sum_blocks m' = sum_blocks m"
  unfolding sum_blocks_def assms(2) using assms(1,3) by (intro sum.cong) auto

text \<open>The fields after a removal, when the text is shared with other entries and when it is not.\<close>

lemma remove_fields:
  assumes inv: "tm_inv m xs" and e: "entry_at m p = Some e" and b: "block_at m (e_block e) = Some b"
  defines "m' \<equiv> tool_memory_remove_entry_locked m p"
  shows "by_id m' = (by_id m)(e_id e := None)" "recency m' = tool_memory_unlink (recency m) p"
    "entry_at m' = (entry_at m)(p := None)" "entries m' = entries m - 1"
    "fresh_entry m' = fresh_entry m" "fresh_block m' = fresh_block m"
    "max_entries m' = max_entries m" "max_bytes m' = max_bytes m"
    "length (b_entries b) \<noteq> 1 \<Longrightarrow> by_block m' = by_block m \<and>
       block_at m' = (block_at m)(e_block e \<mapsto> b\<lparr>b_entries := remove1 p (b_entries b), b_refs := b_refs b - 1\<rparr>) \<and>
       bytes m' + e_bytes e = bytes m"
    "length (b_entries b) = 1 \<Longrightarrow> by_block m' = (by_block m)(b_dsml b := None) \<and>
       block_at m' = (block_at m)(e_block e := None) \<and> bytes m' + e_bytes e + b_bytes b = bytes m"
proof -
  note d = tm_invD [OF inv]
  have fin: "finite (dom (entry_at m))" using d(2) by simp
  have "p \<in> set xs" using e d(2) by blast
  then have pos: "entries m > 0" using d(8) by (cases xs) auto
  have refs: "b_refs b = int (length (b_entries b))" "b_entries b \<noteq> []"
    using d(5) [OF b] by (auto simp: block_ok_def)
  have sums: "bytes m = e_bytes e + sum_entries (m\<lparr>entry_at := (entry_at m)(p := None)\<rparr>) +
      (b_bytes b + sum_blocks (m\<lparr>block_at := (block_at m)(e_block e := None)\<rparr>))"
    using sum_entries_remove [OF fin e, of "m\<lparr>entry_at := (entry_at m)(p := None)\<rparr>"]
      sum_blocks_remove [OF d(3) b, of "m\<lparr>block_at := (block_at m)(e_block e := None)\<rparr>"] d(9) by simp
  then have ge: "e_bytes e \<le> bytes m" "b_bytes b \<le> bytes m - e_bytes e" by simp_all
  show "by_id m' = (by_id m)(e_id e := None)" "recency m' = tool_memory_unlink (recency m) p"
    "entry_at m' = (entry_at m)(p := None)" "entries m' = entries m - 1"
    "fresh_entry m' = fresh_entry m" "fresh_block m' = fresh_block m"
    "max_entries m' = max_entries m" "max_bytes m' = max_bytes m"
    using pos by (simp_all add: m'_def tool_memory_remove_entry_locked_def tool_memory_release_block_locked_def
        Let_def e)
  show "by_block m' = by_block m \<and>
       block_at m' = (block_at m)(e_block e \<mapsto> b\<lparr>b_entries := remove1 p (b_entries b), b_refs := b_refs b - 1\<rparr>) \<and>
       bytes m' + e_bytes e = bytes m" if "length (b_entries b) \<noteq> 1"
  proof -
    have "b_refs b - 1 > 0" using refs that by (cases "b_entries b") auto
    with ge show ?thesis
      by (simp add: m'_def tool_memory_remove_entry_locked_def tool_memory_release_block_locked_def Let_def e b)
  qed
  show "by_block m' = (by_block m)(b_dsml b := None) \<and>
       block_at m' = (block_at m)(e_block e := None) \<and> bytes m' + e_bytes e + b_bytes b = bytes m"
    if "length (b_entries b) = 1"
    using refs ge that
    by (simp add: m'_def tool_memory_remove_entry_locked_def tool_memory_release_block_locked_def Let_def e b)
qed

lemma remove_inv:
  assumes inv: "tm_inv m xs" and p: "p \<in> set xs"
  shows "tm_inv (tool_memory_remove_entry_locked m p) (remove1 p xs)"
proof -
  note d = tm_invD [OF inv]
  obtain e where e: "entry_at m p = Some e" using p d(2) by blast
  then obtain b where b: "block_at m (e_block e) = Some b" using d(4) [OF e] by (auto simp: entry_ok_def)
  let ?m = "tool_memory_remove_entry_locked m p" and ?q = "e_block e"
  note f = remove_fields [OF inv e b]
  have eok: "entry_ok m p e" by (rule d(4) [OF e])
  have bok: "block_ok m ?q b" by (rule d(5) [OF b])
  have pin: "p \<in> set (b_entries b)" using bok e by (auto simp: block_ok_def)
  have others: "p \<notin> set (b_entries b')" if "block_at m q' = Some b'" "q' \<noteq> ?q" for q' b'
    using d(5) [OF that(1)] that(2) e by (auto simp: block_ok_def)
  show ?thesis
  proof (rule tm_invI)
    show "lru_rep (recency ?m) (remove1 p xs)" using lru.rep_remove [OF d(1) p] by (simp add: f)
    show "dom (entry_at ?m) = set (remove1 p xs)"
      using d(2) lru_rep_distinct [OF d(1)] by (auto simp: f)
    show "finite (dom (block_at ?m))"
      using d(3) f(9,10) by (cases "length (b_entries b) = 1") auto
    show "entries ?m = int (length (remove1 p xs))"
    proof -
      have "0 < length xs" using p by (cases xs) auto
      with d(8) p show ?thesis by (simp only: f length_remove1 if_True of_nat_diff Suc_leI One_nat_def)
    qed
    show "bytes ?m = sum_entries ?m + sum_blocks ?m"
    proof (cases "length (b_entries b) = 1")
      case True
      have "sum_entries m = e_bytes e + sum_entries ?m" "sum_blocks m = b_bytes b + sum_blocks ?m"
        using sum_entries_remove [OF _ e f(3)] sum_blocks_remove [OF d(3) b] f(10) [OF True] d(2) by simp_all
      with f(10) [OF True] d(9) show ?thesis by simp
    next
      case False
      have "sum_entries m = e_bytes e + sum_entries ?m" "sum_blocks ?m = sum_blocks m"
        using sum_entries_remove [OF _ e f(3)] sum_blocks_update [OF b] f(9) [OF False] d(2) by simp_all
      with f(9) [OF False] d(9) show ?thesis by simp
    qed
    show "entry_ok ?m p' e'" if "entry_at ?m p' = Some e'" for p' e'
    proof -
      have pe: "p' \<noteq> p" "entry_at m p' = Some e'" using that by (auto simp: f split: if_splits)
      have ok: "entry_ok m p' e'" by (rule d(4) [OF pe(2)])
      then have "e_id e' \<noteq> e_id e" using eok pe(1) by (auto simp: entry_ok_def)
      moreover have "block_at ?m (e_block e') \<noteq> None"
      proof (cases "length (b_entries b) = 1")
        case True
        then have "b_entries b = [p]" using pin by (cases "b_entries b") auto
        then have "e_block e' \<noteq> ?q" using bok pe by (auto simp: block_ok_def)
        with ok f(10) [OF True] show ?thesis by (simp add: entry_ok_def)
      next
        case False
        with ok f(9) [OF False] show ?thesis by (simp add: entry_ok_def)
      qed
      ultimately show ?thesis using ok by (simp add: entry_ok_def f)
    qed
    show "block_ok ?m q' b'" if "block_at ?m q' = Some b'" for q' b'
    proof (cases "length (b_entries b) = 1")
      case True
      have qb: "q' \<noteq> ?q" "block_at m q' = Some b'" using that f(10) [OF True] by (auto split: if_splits)
      have ok: "block_ok m q' b'" by (rule d(5) [OF qb(2)])
      then have "b_dsml b' \<noteq> b_dsml b" using bok qb(1) by (auto simp: block_ok_def)
      with ok others [OF qb(2,1)] f(10) [OF True] show ?thesis by (auto simp: block_ok_def f)
    next
      case False
      show ?thesis
      proof (cases "q' = ?q")
        case True
        then have "b' = b\<lparr>b_entries := remove1 p (b_entries b), b_refs := b_refs b - 1\<rparr>"
          using that f(9) [OF False] by simp
        moreover have "remove1 p (b_entries b) \<noteq> []"
        proof
          assume "remove1 p (b_entries b) = []"
          then have "length (b_entries b) - 1 = 0" using pin length_remove1 [of p "b_entries b"] by simp
          with False pin show False by (cases "b_entries b") auto
        qed
        moreover have "int (length (remove1 p (b_entries b))) = int (length (b_entries b)) - 1"
          using pin length_pos_if_in_set [OF pin] by (simp only: length_remove1 if_True of_nat_diff Suc_leI One_nat_def)
        ultimately show ?thesis
          using bok True f(9) [OF False] by (auto simp: block_ok_def f)
      next
        case neq: False
        then have "block_at m q' = Some b'" using that f(9) [OF False] by simp
        with d(5) [OF this] others [OF this neq] f(9) [OF False] show ?thesis
          by (auto simp: block_ok_def f)
      qed
    qed
    show "\<exists>e. entry_at ?m p' = Some e \<and> e_id e = i" if "by_id ?m i = Some p'" for i p'
      using that d(6) [of i p'] e by (auto simp: f split: if_splits)
    show "\<exists>b. block_at ?m q' = Some b \<and> b_dsml b = c" if "by_block ?m c = Some q'" for c q'
    proof (cases "length (b_entries b) = 1")
      case True
      with that d(7) [of c q'] b f(10) [OF True] show ?thesis by (auto split: if_splits)
    next
      case False
      with that d(7) [of c q'] b f(9) [OF False] show ?thesis by auto
    qed
  qed
qed

section \<open>Adding an entry\<close>

lemma sum_entries_add:
  assumes "finite (dom (entry_at m))" and "entry_at m p = None" and "entry_at m' = (entry_at m)(p \<mapsto> e)"
  shows "sum_entries m' = e_bytes e + sum_entries m"
proof -
  have "sum_entries m' = e_bytes e + (\<Sum>x \<in> dom (entry_at m). e_bytes (entry m' x))"
    unfolding sum_entries_def assms(3) using assms(1,2) by (simp add: sum.insert domIff)
  also have "(\<Sum>x \<in> dom (entry_at m). e_bytes (entry m' x)) = sum_entries m"
    unfolding sum_entries_def assms(3) using assms(2) by (intro sum.cong) auto
  finally show ?thesis .
qed

lemma sum_blocks_add:
  assumes "finite (dom (block_at m))" and "block_at m q = None" and "block_at m' = (block_at m)(q \<mapsto> b)"
  shows "sum_blocks m' = b_bytes b + sum_blocks m"
proof -
  have "sum_blocks m' = b_bytes b + (\<Sum>x \<in> dom (block_at m). b_bytes (block m' x))"
    unfolding sum_blocks_def assms(3) using assms(1,2) by (simp add: sum.insert domIff)
  also have "(\<Sum>x \<in> dom (block_at m). b_bytes (block m' x)) = sum_blocks m"
    unfolding sum_blocks_def assms(3) using assms(2) by (intro sum.cong) auto
  finally show ?thesis .
qed

text \<open>
  The block of the text: the one the memory has, or a new one. In both cases its entries are those of the memory that
  point to it, and its address belongs to no other text.
\<close>

definition block_for :: "tool_memory \<Rightarrow> string \<Rightarrow> nat \<times> tool_memory_block \<times> nat" where
  "block_for m dsml =
     (case by_block m dsml of
        Some q \<Rightarrow> (q, block m q, 0)
      | None \<Rightarrow> (fresh_block m, \<lparr>b_dsml = dsml, b_len = length dsml, b_bytes = length dsml + 1 + sizeof_block,
                  b_refs = 0, b_seen = 0, b_entries = []\<rparr>, length dsml + 1 + sizeof_block))"

lemma add_fields:
  fixes i :: string and src :: tool_memory_source
  assumes "dsml \<noteq> []" and "block_for m dsml = (q, b, extra)" and "by_block m dsml = Some q \<Longrightarrow> block_at m q = Some b"
  defines "m' \<equiv> add_entry m i dsml src"
  shows "by_id m' = (by_id m)(i \<mapsto> fresh_entry m)" "by_block m' = (by_block m)(dsml \<mapsto> q)"
    "recency m' = tool_memory_link_head (recency m) (fresh_entry m)"
    "entry_at m' = (entry_at m)(fresh_entry m \<mapsto> \<lparr>e_id = i, e_block = q,
       e_bytes = length i + 1 + sizeof_entry, e_stamp = clock m + 1, e_source = src\<rparr>)"
    "block_at m' = (block_at m)(q \<mapsto> b\<lparr>b_entries := fresh_entry m # b_entries b, b_refs := b_refs b + 1\<rparr>)"
    "entries m' = entries m + 1" "bytes m' = bytes m + extra + (length i + 1 + sizeof_entry)"
    "fresh_entry m' = fresh_entry m + 1" "max_entries m' = max_entries m" "max_bytes m' = max_bytes m"
    "fresh_block m \<le> fresh_block m'" "by_block m dsml = None \<Longrightarrow> fresh_block m' = Suc q"
  using assms(1-3)
  by (auto simp: m'_def add_entry_def tool_memory_get_block_locked_def tool_memory_find_block_locked_def
      block_for_def Let_def fun_upd_idem_iff split: option.splits)

lemma add_inv:
  assumes inv: "tm_inv m xs" and i: "i \<noteq> []" "by_id m i = None" and dsml: "dsml \<noteq> []"
  shows "tm_inv (add_entry m i dsml src) (fresh_entry m # xs)"
proof -
  note d = tm_invD [OF inv]
  obtain q b extra where bf: "block_for m dsml = (q, b, extra)" by (cases "block_for m dsml")
  have old: "block_at m q = Some b \<and> b_dsml b = dsml \<and> extra = 0" if "by_block m dsml = Some q'" for q'
    using bf that d(7) [OF that] by (auto simp: block_for_def)
  have fresh_q: "block_at m (fresh_block m) = None"
    using d(5) [of "fresh_block m"] by (cases "block_at m (fresh_block m)") (auto simp: block_ok_def)
  have new: "q = fresh_block m \<and> b_dsml b = dsml \<and> b_refs b = 0 \<and> b_entries b = [] \<and> extra = b_bytes b \<and>
      b_len b = length dsml \<and> b_bytes b = length dsml + 1 + sizeof_block \<and> block_at m q = None"
    if "by_block m dsml = None" using bf that fresh_q by (auto simp: block_for_def)
  note f = add_fields [OF dsml bf, of i src]
  let ?m = "add_entry m i dsml src" and ?p = "fresh_entry m"
  have fresh_p: "entry_at m ?p = None"
    using d(4) [of ?p] by (cases "entry_at m ?p") (auto simp: entry_ok_def)
  have b: "b_dsml b = dsml" "b_len b = length dsml" "b_bytes b = length dsml + 1 + sizeof_block"
    "b_refs b = int (length (b_entries b))" "distinct (b_entries b)" "q < fresh_block ?m"
    and chain: "\<And>p. p \<in> set (b_entries b) \<longleftrightarrow> (\<exists>e. entry_at m p = Some e \<and> e_block e = q)"
  proof -
    have "b_dsml b = dsml \<and> b_len b = length dsml \<and> b_bytes b = length dsml + 1 + sizeof_block \<and>
      b_refs b = int (length (b_entries b)) \<and> distinct (b_entries b) \<and> q < fresh_block ?m \<and>
      (\<forall>p. p \<in> set (b_entries b) \<longleftrightarrow> (\<exists>e. entry_at m p = Some e \<and> e_block e = q))"
    proof (cases "by_block m dsml")
      case None
      have "entry_at m p = Some e \<Longrightarrow> e_block e \<noteq> q" for p e
        using d(4) [of p e] new [OF None] by (auto simp: entry_ok_def)
      with new [OF None] f(12) None show ?thesis by auto
    next
      case (Some q')
      from old [OF Some] have "block_at m q = Some b" "b_dsml b = dsml" by simp_all
      with d(5) [of q b] f(11) old [OF Some] show ?thesis by (auto simp: block_ok_def)
    qed
    then show "b_dsml b = dsml" "b_len b = length dsml" "b_bytes b = length dsml + 1 + sizeof_block"
      "b_refs b = int (length (b_entries b))" "distinct (b_entries b)" "q < fresh_block ?m"
      "\<And>p. p \<in> set (b_entries b) \<longleftrightarrow> (\<exists>e. entry_at m p = Some e \<and> e_block e = q)"
      by blast+
  qed
  have other: "b_dsml b' \<noteq> dsml" if "block_at m q' = Some b'" "q' \<noteq> q" for q' b'
    using d(5) [OF that(1)] that(2) old new bf by (auto simp: block_ok_def block_for_def split: option.splits)
  have f_ok: "by_id ?m = (by_id m)(i \<mapsto> ?p)" "by_block ?m = (by_block m)(dsml \<mapsto> q)"
    "recency ?m = tool_memory_link_head (recency m) ?p"
    "entry_at ?m = (entry_at m)(?p \<mapsto> \<lparr>e_id = i, e_block = q,
       e_bytes = length i + 1 + sizeof_entry, e_stamp = clock m + 1, e_source = src\<rparr>)"
    "block_at ?m = (block_at m)(q \<mapsto> b\<lparr>b_entries := ?p # b_entries b, b_refs := b_refs b + 1\<rparr>)"
    "entries ?m = entries m + 1" "bytes ?m = bytes m + extra + (length i + 1 + sizeof_entry)"
    "fresh_entry ?m = ?p + 1" "fresh_block m \<le> fresh_block ?m"
    using f old by auto
  have pnew: "?p \<notin> set xs" using fresh_p d(2) by blast
  show ?thesis
  proof (rule tm_invI)
    show "lru_rep (recency ?m) (?p # xs)" using lru.rep_link [OF d(1) pnew] by (simp add: f_ok)
    show "dom (entry_at ?m) = set (?p # xs)" using d(2) by (simp add: f_ok)
    show "finite (dom (block_at ?m))" using d(3) by (simp add: f_ok)
    show "entries ?m = int (length (?p # xs))" using d(8) by (simp add: f_ok)
    have "sum_blocks ?m = extra + sum_blocks m"
    proof (cases "by_block m dsml")
      case None
      then have "block_at m q = None" using new by blast
      from sum_blocks_add [OF d(3) this f_ok(5)] have "sum_blocks ?m = b_bytes b + sum_blocks m" by simp
      with new [OF None] show ?thesis by simp
    next
      case (Some q')
      with old [OF Some] show ?thesis using sum_blocks_update [OF _ f_ok(5)] by simp
    qed
    then show "bytes ?m = sum_entries ?m + sum_blocks ?m"
      using sum_entries_add [OF _ fresh_p f_ok(4)] d(2,9) by (simp add: f_ok(7))
    show "entry_ok ?m p' e'" if "entry_at ?m p' = Some e'" for p' e'
    proof (cases "p' = ?p")
      case True
      with that i show ?thesis by (auto simp: entry_ok_def f_ok)
    next
      case False
      with that have "entry_at m p' = Some e'" by (simp add: f_ok)
      from d(4) [OF this] i(2) show ?thesis by (auto simp: entry_ok_def f_ok)
    qed
    show "block_ok ?m q' b'" if "block_at ?m q' = Some b'" for q' b'
    proof (cases "q' = q")
      case True
      with that have "b' = b\<lparr>b_entries := ?p # b_entries b, b_refs := b_refs b + 1\<rparr>" by (simp add: f_ok)
      with True b chain fresh_p dsml show ?thesis by (auto simp: block_ok_def f_ok)
    next
      case False
      with that have q': "block_at m q' = Some b'" by (simp add: f_ok)
      from d(5) [OF q'] other [OF q' False] fresh_p False show ?thesis
        by (auto simp: block_ok_def f_ok(1-8) intro: less_le_trans [OF _ f_ok(9)])
    qed
    show "\<exists>e. entry_at ?m p' = Some e \<and> e_id e = j" if "by_id ?m j = Some p'" for j p'
      using that d(6) [of j p'] fresh_p by (auto simp: f_ok split: if_splits)
    show "\<exists>b. block_at ?m q' = Some b \<and> b_dsml b = c" if "by_block ?m c = Some q'" for c q'
    proof -
      have "b_dsml b' = dsml" if "block_at m q = Some b'" for b'
        using that old new by (cases "by_block m dsml") auto
      then have cq: "c = dsml" if "by_block m c = Some q" using d(7) [OF that] by blast
      show ?thesis
      proof (cases "c = dsml")
        case True
        with that have "q' = q" by (simp add: f_ok)
        with True b(1) show ?thesis by (simp add: f_ok)
      next
        case False
        with that have old_c: "by_block m c = Some q'" by (simp add: f_ok)
        with cq False have "q' \<noteq> q" by blast
        with d(7) [OF old_c] show ?thesis by (simp add: f_ok)
      qed
    qed
  qed
qed

section \<open>The limits\<close>

lemma remove_limits:
  assumes "tm_inv m xs" and "p \<in> set xs"
  shows "max_entries (tool_memory_remove_entry_locked m p) = max_entries m"
    "max_bytes (tool_memory_remove_entry_locked m p) = max_bytes m"
proof -
  obtain e where e: "entry_at m p = Some e" using assms tm_invD(2) by blast
  then obtain b where "block_at m (e_block e) = Some b"
    using tm_invD(4) [OF assms(1) e] by (auto simp: entry_ok_def)
  from remove_fields(7,8) [OF assms(1) e this] show
    "max_entries (tool_memory_remove_entry_locked m p) = max_entries m"
    "max_bytes (tool_memory_remove_entry_locked m p) = max_bytes m" .
qed

lemma not_over_limit_empty: "tm_inv m [] \<Longrightarrow> \<not> over_limit m"
proof -
  assume inv: "tm_inv m []"
  note d = tm_invD [OF inv]
  have "block_at m q = None" for q
  proof (cases "block_at m q")
    case (Some b)
    then have "hd (b_entries b) \<in> set (b_entries b)" using d(5) [OF Some] by (auto simp: block_ok_def)
    then have "\<exists>e. entry_at m (hd (b_entries b)) = Some e" using d(5) [OF Some] unfolding block_ok_def by blast
    with d(2) show ?thesis by auto
  qed simp
  then have "dom (block_at m) = {}" by auto
  with d show ?thesis
    by (simp add: over_limit_def tool_memory_max_entries_def sum_entries_def sum_blocks_def
        DS4_TOOL_MEMORY_DEFAULT_MAX_IDS_def)
qed

end
