(* ===== verification/Tool_Memory_Spec.thy ===== *)
theory Tool_Memory_Spec
  imports Tool_Memory_Inv
begin

text \<open>
  The specification of the tool memory: a list of ids with their texts and sources, the most recently used first,
  bounded in length and in the bytes of its ids and of its distinct texts. The operations on the stores and chains
  refine the operations on this list.
\<close>

type_synonym memo = "string \<times> string \<times> tool_memory_source"

definition memo_size :: "memo list \<Rightarrow> nat" where
  "memo_size l =
     sum_list (map (\<lambda>(i, d, s). length i + 1 + sizeof_entry) l) +
     (\<Sum>d \<in> (\<lambda>(i, d, s). d) ` set l. length d + 1 + sizeof_block)"

definition memo_over :: "int \<Rightarrow> nat \<Rightarrow> memo list \<Rightarrow> bool" where
  "memo_over mx mb l \<longleftrightarrow> int (length l) > mx \<or> memo_size l > mb"

text \<open>The longest beginning of the list that meets the limits.\<close>

function memo_prune :: "int \<Rightarrow> nat \<Rightarrow> memo list \<Rightarrow> memo list" where
  "memo_prune mx mb l = (if l \<noteq> [] \<and> memo_over mx mb l then memo_prune mx mb (butlast l) else l)"
  by pat_completeness auto
termination
  by (relation "measure (\<lambda>(mx, mb, l). length l)") auto

declare memo_prune.simps [simp del]

definition memo_find :: "memo list \<Rightarrow> string \<Rightarrow> memo option" where
  "memo_find l i = find (\<lambda>(j, d, s). j = i) l"

definition memo_front :: "memo \<Rightarrow> memo list \<Rightarrow> memo list" where
  "memo_front x l = x # filter (\<lambda>y. fst y \<noteq> fst x) l"

text \<open>An entry with the same text keeps its source when the new one is the disk.\<close>

definition memo_put ::
  "int \<Rightarrow> nat \<Rightarrow> memo list \<Rightarrow> string \<Rightarrow> string \<Rightarrow> tool_memory_source \<Rightarrow> memo list" where
  "memo_put mx mb l i d src =
     (if i = [] \<or> d = [] then l
      else memo_prune mx mb (memo_front (i, d,
        (case memo_find l i of
           Some (j, d', s) \<Rightarrow> if d' = d \<and> src = TOOL_MEMORY_DISK then s else src
         | None \<Rightarrow> src)) l))"

definition memo_lookup :: "memo list \<Rightarrow> string \<Rightarrow> memo list" where
  "memo_lookup l i = (case memo_find l i of None \<Rightarrow> l | Some x \<Rightarrow> memo_front x l)"

section \<open>The list of a memory\<close>

definition memo_of :: "tool_memory \<Rightarrow> nat \<Rightarrow> memo" where
  "memo_of m p =
     (let e = entry m p in (e_id e, b_dsml (block m (e_block e)), e_source e))"

definition memos :: "tool_memory \<Rightarrow> nat list \<Rightarrow> memo list" where
  "memos m xs = map (memo_of m) xs"

text \<open>The memory implements the list.\<close>

definition implements :: "tool_memory \<Rightarrow> memo list \<Rightarrow> bool" where
  "implements m l \<longleftrightarrow> (\<exists>xs. tm_inv m xs \<and> l = memos m xs)"

lemma ids_distinct:
  assumes "tm_inv m xs"
  shows "distinct (map fst (memos m xs))"
proof -
  note d = tm_invD [OF assms]
  have "inj_on (\<lambda>p. e_id (entry m p)) (set xs)"
  proof (rule inj_onI)
    fix p p' assume "p \<in> set xs" "p' \<in> set xs" and eq: "e_id (entry m p) = e_id (entry m p')"
    then obtain e e' where e: "entry_at m p = Some e" "entry_at m p' = Some e'" using d(2) by blast
    with d(4) [OF e(1)] d(4) [OF e(2)] eq show "p = p'" by (simp add: entry_ok_def)
  qed
  then show ?thesis
    using lru_rep_distinct [OF d(1)]
    by (simp add: memos_def memo_of_def Let_def comp_def distinct_map)
qed

lemma texts_inj:
  assumes "tm_inv m xs"
  shows "inj_on (\<lambda>q. b_dsml (block m q)) (dom (block_at m))"
proof (rule inj_onI)
  note d = tm_invD [OF assms]
  fix q q' assume "q \<in> dom (block_at m)" "q' \<in> dom (block_at m)"
    and eq: "b_dsml (block m q) = b_dsml (block m q')"
  then obtain b b' where b: "block_at m q = Some b" "block_at m q' = Some b'" by blast
  with d(5) [OF b(1)] d(5) [OF b(2)] eq show "q = q'" by (simp add: block_ok_def)
qed

text \<open>The blocks are those of the entries.\<close>

lemma blocks_of_entries:
  assumes "tm_inv m xs"
  shows "dom (block_at m) = (\<lambda>p. e_block (entry m p)) ` set xs"
proof
  note d = tm_invD [OF assms]
  show "dom (block_at m) \<subseteq> (\<lambda>p. e_block (entry m p)) ` set xs"
  proof
    fix q assume "q \<in> dom (block_at m)"
    then obtain b where b: "block_at m q = Some b" by blast
    have "hd (b_entries b) \<in> set (b_entries b)" using d(5) [OF b] by (auto simp: block_ok_def)
    then obtain e where "entry_at m (hd (b_entries b)) = Some e" "e_block e = q"
      using d(5) [OF b] unfolding block_ok_def by blast
    then show "q \<in> (\<lambda>p. e_block (entry m p)) ` set xs" using d(2) by (intro image_eqI [of _ _ "hd (b_entries b)"]) auto
  qed
  show "(\<lambda>p. e_block (entry m p)) ` set xs \<subseteq> dom (block_at m)"
  proof
    fix q assume "q \<in> (\<lambda>p. e_block (entry m p)) ` set xs"
    then obtain p where p: "p \<in> set xs" "q = e_block (entry m p)" by blast
    then obtain e where e: "entry_at m p = Some e" using d(2) by blast
    with d(4) [OF e] p(2) show "q \<in> dom (block_at m)" by (auto simp: entry_ok_def)
  qed
qed

lemma bytes_memo_size:
  assumes "tm_inv m xs"
  shows "bytes m = memo_size (memos m xs)"
proof -
  note d = tm_invD [OF assms]
  have ent: "e_bytes (entry m p) = length (e_id (entry m p)) + 1 + sizeof_entry" if p: "p \<in> set xs" for p
  proof -
    from p d(2) obtain e where "entry_at m p = Some e" by blast
    with d(4) [OF this] show ?thesis by (simp add: entry_ok_def)
  qed
  have blk: "b_bytes (block m q) = length (b_dsml (block m q)) + 1 + sizeof_block" if "q \<in> dom (block_at m)" for q
    using that d(5) by (auto simp: block_ok_def)
  have "sum_entries m = sum_list (map (\<lambda>p. e_bytes (entry m p)) xs)"
    unfolding sum_entries_def d(2) using lru_rep_distinct [OF d(1)] by (simp add: sum.distinct_set_conv_list)
  also have "\<dots> = sum_list (map (\<lambda>(i, d, s). length i + 1 + sizeof_entry) (memos m xs))"
    using ent by (simp add: memos_def memo_of_def Let_def comp_def cong: map_cong)
  finally have "sum_entries m = sum_list (map (\<lambda>(i, d, s). length i + 1 + sizeof_entry) (memos m xs))" .
  moreover have "sum_blocks m =
      (\<Sum>d \<in> (\<lambda>q. b_dsml (block m q)) ` dom (block_at m). length d + 1 + sizeof_block)"
    unfolding sum_blocks_def sum.reindex [OF texts_inj [OF assms]]
    by (intro sum.cong refl) (simp only: blk comp_def)
  moreover have "(\<lambda>q. b_dsml (block m q)) ` dom (block_at m) = (\<lambda>(i, d, s). d) ` set (memos m xs)"
    unfolding blocks_of_entries [OF assms] by (simp add: memos_def memo_of_def Let_def image_image)
  ultimately show ?thesis using d(9) by (simp add: memo_size_def)
qed

lemma over_memo:
  assumes "tm_inv m xs"
  shows "over_limit m \<longleftrightarrow> memo_over (tool_memory_max_entries m) (tool_memory_max_bytes m) (memos m xs)"
  using tm_invD(8) [OF assms] bytes_memo_size [OF assms]
  by (simp add: over_limit_def memo_over_def memos_def)

section \<open>The operations\<close>

lemma memos_cong:
  "(\<And>p. p \<in> set xs \<Longrightarrow> memo_of m' p = memo_of m p) \<Longrightarrow> memos m' xs = memos m xs"
  by (simp add: memos_def)

lemma memo_of_remove:
  assumes inv: "tm_inv m xs" and p: "p \<in> set xs" and p': "p' \<in> set xs" "p' \<noteq> p"
  shows "memo_of (tool_memory_remove_entry_locked m p) p' = memo_of m p'"
proof -
  note d = tm_invD [OF inv]
  obtain e where e: "entry_at m p = Some e" using p d(2) by blast
  then obtain b where b: "block_at m (e_block e) = Some b" using d(4) [OF e] by (auto simp: entry_ok_def)
  obtain e' where e': "entry_at m p' = Some e'" using p' d(2) by blast
  note f = remove_fields [OF inv e b]
  show ?thesis
  proof (cases "length (b_entries b) = 1")
    case True
    have "p \<in> set (b_entries b)" using d(5) [OF b] e by (auto simp: block_ok_def)
    with True have "b_entries b = [p]" by (cases "b_entries b") auto
    then have "e_block e' \<noteq> e_block e" using d(5) [OF b] e' p'(2) by (auto simp: block_ok_def)
    with f(10) [OF True] e' p'(2) show ?thesis by (simp add: memo_of_def f Let_def)
  next
    case False
    with f(9) [OF False] e' b p'(2) show ?thesis by (auto simp: memo_of_def f Let_def)
  qed
qed

lemma memo_of_touch: "entry_at m p = Some e \<Longrightarrow> memo_of (tool_memory_touch m p) p' = memo_of m p'"
  by (simp add: memo_of_def tool_memory_touch_def Let_def)

lemma prune_refines:
  "tm_inv m xs \<Longrightarrow> \<exists>m' ys. tool_memory_prune_locked m = Some m' \<and> tm_inv m' ys \<and>
     memos m' ys = memo_prune (tool_memory_max_entries m) (tool_memory_max_bytes m) (memos m xs) \<and>
     \<not> over_limit m' \<and> max_entries m' = max_entries m \<and> max_bytes m' = max_bytes m"
proof (induction xs arbitrary: m rule: rev_induct)
  case Nil
  then show ?case
    using not_over_limit_empty
    by (intro exI [of _ m] exI [of _ "[]"])
      (simp add: tool_memory_prune_locked.simps memos_def memo_prune.simps)
next
  case (snoc x xs)
  note over = over_memo [OF snoc.prems]
  show ?case
  proof (cases "over_limit m")
    case True
    let ?m = "tool_memory_remove_entry_locked m x"
    have tail: "lru_tail (recency m) = Some x" using tm_invD(1) [OF snoc.prems] by (simp add: lru_rep_def)
    have x: "x \<in> set (xs @ [x])" by simp
    have x': "x \<notin> set xs" using lru_rep_distinct [OF tm_invD(1) [OF snoc.prems]] by simp
    then have inv: "tm_inv ?m xs"
      using remove_inv [OF snoc.prems x] by (simp add: remove1_append)
    have "memos ?m xs = memos m xs"
      by (rule memos_cong) (use memo_of_remove [OF snoc.prems x] x' in auto)
    moreover have "memos m (xs @ [x]) \<noteq> []" "butlast (memos m (xs @ [x])) = memos m xs"
      by (simp_all add: memos_def)
    ultimately have step: "memo_prune (tool_memory_max_entries m) (tool_memory_max_bytes m) (memos m (xs @ [x])) =
        memo_prune (tool_memory_max_entries m) (tool_memory_max_bytes m) (memos ?m xs)"
      using True over by (subst memo_prune.simps) simp
    have "tool_memory_max_entries ?m = tool_memory_max_entries m"
      "tool_memory_max_bytes ?m = tool_memory_max_bytes m"
      using remove_limits [OF snoc.prems x]
      by (simp_all only: tool_memory_max_entries_def tool_memory_max_bytes_def)
    with snoc.IH [OF inv] show ?thesis
      using remove_limits [OF snoc.prems x] True tail
      by (simp add: step tool_memory_prune_locked.simps [of m])
  next
    case False
    then have "memo_prune (tool_memory_max_entries m) (tool_memory_max_bytes m) (memos m (xs @ [x])) =
        memos m (xs @ [x])" using over by (subst memo_prune.simps) simp
    with False snoc.prems show ?thesis
      by (intro exI [of _ m] exI [of _ "xs @ [x]"]) (simp add: tool_memory_prune_locked.simps)
  qed
qed

lemma find_entry_memo:
  assumes "tm_inv m xs"
  shows "memo_find (memos m xs) i = map_option (memo_of m) (by_id m i)"
    and "by_id m i = Some p \<Longrightarrow> p \<in> set xs \<and> fst (memo_of m p) = i \<and> i \<noteq> []"
proof -
  note d = tm_invD [OF assms]
  show some: "by_id m i = Some p \<Longrightarrow> p \<in> set xs \<and> fst (memo_of m p) = i \<and> i \<noteq> []" for p
  proof -
    assume "by_id m i = Some p"
    then obtain e where e: "entry_at m p = Some e" "e_id e = i" using d(6) by blast
    with d(4) [OF e(1)] d(2) show ?thesis by (auto simp: memo_of_def entry_ok_def Let_def)
  qed
  have address: "by_id m (fst (memo_of m p)) = Some p" if "p \<in> set xs" for p
  proof -
    from that d(2) obtain e where "entry_at m p = Some e" by blast
    with d(4) [OF this] show ?thesis by (simp add: memo_of_def entry_ok_def Let_def)
  qed
  show "memo_find (memos m xs) i = map_option (memo_of m) (by_id m i)"
  proof (cases "by_id m i")
    case None
    then have "fst x \<noteq> i" if "x \<in> set (memos m xs)" for x using that address by (auto simp: memos_def)
    then have "find (\<lambda>(j, d, s). j = i) (memos m xs) = None" by (fastforce simp: find_None_iff)
    with None show ?thesis by (simp add: memo_find_def)
  next
    case (Some p)
    from some [OF this] have p: "p \<in> set xs" "fst (memo_of m p) = i" by simp_all
    obtain us vs where xs: "xs = us @ p # vs" using p(1) by (meson split_list)
    have "fst (memo_of m p') \<noteq> i" if "p' \<in> set us" for p'
    proof
      assume "fst (memo_of m p') = i"
      with address [of p'] that Some have "p' = p" by (simp add: xs)
      with that lru_rep_distinct [OF d(1)] show False by (simp add: xs)
    qed
    then have none: "find (\<lambda>(j, d, s). j = i) (map (memo_of m) us) = None"
      by (fastforce simp: find_None_iff)
    have "find (\<lambda>(j, d, s). j = i) (map (memo_of m) us @ memo_of m p # map (memo_of m) vs) = Some (memo_of m p)"
      using none p(2) by (induction us) (auto split: if_splits prod.splits)
    with Some show ?thesis by (simp add: memo_find_def memos_def xs)
  qed
qed

lemma filter_ids:
  assumes inv: "tm_inv m xs"
  shows "p \<in> set xs \<Longrightarrow> filter (\<lambda>y. fst y \<noteq> fst (memo_of m p)) (memos m xs) = memos m (remove1 p xs)"
    and "by_id m i = None \<Longrightarrow> filter (\<lambda>y. fst y \<noteq> i) (memos m xs) = memos m xs"
proof -
  note d = tm_invD [OF inv]
  have address: "by_id m (fst (memo_of m p)) = Some p" if "p \<in> set xs" for p
  proof -
    from that d(2) obtain e where "entry_at m p = Some e" by blast
    with d(4) [OF this] show ?thesis by (simp add: memo_of_def entry_ok_def Let_def)
  qed
  show "filter (\<lambda>y. fst y \<noteq> fst (memo_of m p)) (memos m xs) = memos m (remove1 p xs)" if p: "p \<in> set xs"
  proof -
    have "fst (memo_of m p') = fst (memo_of m p) \<longleftrightarrow> p' = p" if "p' \<in> set xs" for p'
      using address [OF p] address [OF that] by auto
    then have "filter (\<lambda>p'. fst (memo_of m p') \<noteq> fst (memo_of m p)) xs = filter (\<lambda>p'. p' \<noteq> p) xs"
      by (intro filter_cong) auto
    also have "\<dots> = remove1 p xs"
      using lru_rep_distinct [OF d(1)] by (simp add: distinct_remove1_removeAll removeAll_filter_not_eq) metis
    finally show ?thesis by (simp add: memos_def filter_map comp_def)
  qed
  show "filter (\<lambda>y. fst y \<noteq> i) (memos m xs) = memos m xs" if "by_id m i = None"
    using that address by (auto simp: memos_def filter_id_conv)
qed

lemma memo_of_add:
  assumes inv: "tm_inv m xs" and dsml: "dsml \<noteq> []"
  shows "p \<in> set xs \<Longrightarrow> memo_of (add_entry m i dsml src) p = memo_of m p"
    and "memo_of (add_entry m i dsml src) (fresh_entry m) = (i, dsml, src)"
proof -
  note d = tm_invD [OF inv]
  obtain q b extra where bf: "block_for m dsml = (q, b, extra)" by (cases "block_for m dsml")
  have held: "block_at m q = Some b \<and> b_dsml b = dsml" if "by_block m dsml = Some q'" for q'
    using bf that d(7) [OF that] by (auto simp: block_for_def)
  have new: "q = fresh_block m \<and> b_dsml b = dsml" if "by_block m dsml = None"
    using bf that by (auto simp: block_for_def)
  have txt_eq: "b_dsml b = dsml" using held new by (cases "by_block m dsml") auto
  note f = add_fields [OF dsml bf, of i src]
  have held': "by_block m dsml = Some q \<Longrightarrow> block_at m q = Some b" using held by blast
  show "memo_of (add_entry m i dsml src) p = memo_of m p" if p: "p \<in> set xs"
  proof -
    obtain e where e: "entry_at m p = Some e" using p d(2) by blast
    with d(4) [OF e] obtain c where c: "block_at m (e_block e) = Some c" by (auto simp: entry_ok_def)
    have "p \<noteq> fresh_entry m" using d(4) [OF e] by (simp add: entry_ok_def)
    moreover have "b_dsml b = b_dsml c" if "e_block e = q"
      using held new d(5) [OF c] c that by (cases "by_block m dsml") (auto simp: block_ok_def)
    ultimately show ?thesis using e c by (simp add: memo_of_def f(4,5) [OF held'] Let_def)
  qed
  show "memo_of (add_entry m i dsml src) (fresh_entry m) = (i, dsml, src)"
    by (simp add: memo_of_def f(4,5) [OF held'] Let_def txt_eq)
qed

lemma add_refines:
  assumes inv: "tm_inv m xs" and i: "i \<noteq> []" "by_id m i = None" and dsml: "dsml \<noteq> []"
  shows "tm_inv (add_entry m i dsml src) (fresh_entry m # xs)"
    and "memos (add_entry m i dsml src) (fresh_entry m # xs) = memo_front (i, dsml, src) (memos m xs)"
    and "max_entries (add_entry m i dsml src) = max_entries m" "max_bytes (add_entry m i dsml src) = max_bytes m"
proof -
  show "tm_inv (add_entry m i dsml src) (fresh_entry m # xs)" by (rule add_inv [OF inv i dsml])
  show "memos (add_entry m i dsml src) (fresh_entry m # xs) = memo_front (i, dsml, src) (memos m xs)"
    using filter_ids(2) [OF inv i(2)] memo_of_add [OF inv dsml]
    by (simp add: memos_def memo_front_def)
  show "max_entries (add_entry m i dsml src) = max_entries m" "max_bytes (add_entry m i dsml src) = max_bytes m"
    by (simp_all add: add_entry_def tool_memory_get_block_locked_def Let_def split: option.split)
qed

lemma front_refines:
  assumes inv: "tm_inv m xs" and p: "p \<in> set xs"
  shows "memos m (p # remove1 p xs) = memo_front (memo_of m p) (memos m xs)"
  using filter_ids(1) [OF inv p] by (simp add: memo_front_def memos_def)

lemma remove_refines:
  assumes inv: "tm_inv m xs" and p: "p \<in> set xs"
  shows "memos (tool_memory_remove_entry_locked m p) (remove1 p xs) = memos m (remove1 p xs)"
  using lru_rep_distinct [OF tm_invD(1) [OF inv]]
  by (intro memos_cong memo_of_remove [OF inv p]) (auto dest: notin_set_remove1)

lemma touch_fields:
  "max_entries (tool_memory_touch m p) = max_entries m" "max_bytes (tool_memory_touch m p) = max_bytes m"
  "block_at (tool_memory_touch m p) = block_at m" "by_id (tool_memory_touch m p) = by_id m"
  by (simp_all add: tool_memory_touch_def Let_def)

abbreviation limits_kept :: "tool_memory \<Rightarrow> tool_memory \<Rightarrow> bool" where
  "limits_kept m m' \<equiv> max_entries m' = max_entries m \<and> max_bytes m' = max_bytes m"

lemma limits_kept_eq:
  "limits_kept m m' \<Longrightarrow> tool_memory_max_entries m' = tool_memory_max_entries m"
  "limits_kept m m' \<Longrightarrow> tool_memory_max_bytes m' = tool_memory_max_bytes m"
  by (simp_all add: tool_memory_max_entries_def tool_memory_max_bytes_def)

text \<open>Pruning after any step that keeps the limits.\<close>

lemma prune_after:
  assumes "tm_inv m1 ys" and "limits_kept m m1" and "memos m1 ys = l"
  shows "\<exists>m' zs. tool_memory_prune_locked m1 = Some m' \<and> tm_inv m' zs \<and>
     memos m' zs = memo_prune (tool_memory_max_entries m) (tool_memory_max_bytes m) l \<and>
     \<not> over_limit m' \<and> limits_kept m m'"
  using prune_refines [OF assms(1)] limits_kept_eq [OF assms(2)] assms(2,3) by auto

lemma put_refines:
  assumes inv: "tm_inv m xs"
  shows "\<exists>m' zs. tool_memory_put_locked m i d src = Some m' \<and> tm_inv m' zs \<and>
    memos m' zs = memo_put (tool_memory_max_entries m) (tool_memory_max_bytes m) (memos m xs) i d src \<and>
    (i = [] \<or> d = [] \<or> \<not> over_limit m') \<and> limits_kept m m'"
proof (cases "i = [] \<or> d = []")
  case True
  with inv show ?thesis by (auto simp: tool_memory_put_locked_def memo_put_def)
next
  case nonempty: False
  note dd = tm_invD [OF inv]
  show ?thesis
  proof (cases "by_id m i")
    case None
    note a = add_refines [OF inv _ None, of d src]
    have "memo_find (memos m xs) i = None" using find_entry_memo(1) [OF inv, of i] None by simp
    with prune_after [OF a(1) _ a(2)] a(3,4) nonempty None show ?thesis
      by (simp add: tool_memory_put_locked_def tool_memory_find_entry_locked_def memo_put_def)
  next
    case (Some p)
    from find_entry_memo(2) [OF inv Some] have p: "p \<in> set xs" "fst (memo_of m p) = i" by simp_all
    then obtain e where e: "entry_at m p = Some e" using dd(2) by blast
    with dd(4) [OF e] obtain b where b: "block_at m (e_block e) = Some b" by (auto simp: entry_ok_def)
    have len: "b_len b = length (b_dsml b)" using dd(5) [OF b] by (simp add: block_ok_def)
    have elem: "memo_of m p = (i, b_dsml b, e_source e)"
      using p(2) by (simp add: memo_of_def e b Let_def)
    have find_i: "memo_find (memos m xs) i = Some (i, b_dsml b, e_source e)"
      using find_entry_memo(1) [OF inv, of i] Some elem by simp
    show ?thesis
    proof (cases "b_dsml b = d")
      case True
      define m1 where "m1 = (if src = TOOL_MEMORY_RAM
        then m\<lparr>entry_at := (entry_at m)(p \<mapsto> e\<lparr>e_source := TOOL_MEMORY_RAM\<rparr>)\<rparr> else m)"
      let ?s = "if src = TOOL_MEMORY_DISK then e_source e else src"
      have inv1: "tm_inv m1 xs" using inv update_entry_inv [OF inv e] by (simp add: m1_def)
      have blocks: "block_at m1 = block_at m" by (simp add: m1_def)
      obtain e1 where e1: "entry_at m1 p = Some e1" using tm_invD(2) [OF inv1] p(1) by blast
      have elem1: "memo_of m1 p = (i, d, ?s)"
        using elem True e b by (cases src) (simp_all add: m1_def memo_of_def Let_def)
      have same: "filter (\<lambda>y. fst y \<noteq> i) (memos m1 xs) = filter (\<lambda>y. fst y \<noteq> i) (memos m xs)"
      proof -
        have "memos m1 (remove1 p xs) = memos m (remove1 p xs)"
          using lru_rep_distinct [OF dd(1)] by (intro memos_cong) (auto simp: m1_def memo_of_def)
        then show ?thesis
          using filter_ids(1) [OF inv1 p(1)] filter_ids(1) [OF inv p(1)] elem elem1 by simp
      qed
      have "memos (tool_memory_touch m1 p) (p # remove1 p xs) = memo_front (i, d, ?s) (memos m xs)"
      proof -
        have "memos (tool_memory_touch m1 p) (p # remove1 p xs) = memos m1 (p # remove1 p xs)"
          by (rule memos_cong) (rule memo_of_touch [OF e1])
        with front_refines [OF inv1 p(1)] elem1 same show ?thesis by (simp add: memo_front_def)
      qed
      moreover have "limits_kept m (tool_memory_touch m1 p)" by (simp add: touch_fields m1_def)
      moreover note touch_inv [OF inv1 p(1)]
      ultimately obtain m' zs where "tool_memory_prune_locked (tool_memory_touch m1 p) = Some m'"
        "tm_inv m' zs" "\<not> over_limit m'" "limits_kept m m'"
        "memos m' zs = memo_prune (tool_memory_max_entries m) (tool_memory_max_bytes m)
          (memo_front (i, d, ?s) (memos m xs))"
        using prune_after [of "tool_memory_touch m1 p" "p # remove1 p xs" m] by blast
      moreover have "tool_memory_put_locked m i d src = tool_memory_prune_locked (tool_memory_touch m1 p)"
        using nonempty Some True len
        by (simp add: m1_def tool_memory_put_locked_def tool_memory_find_entry_locked_def e b)
      moreover have "memo_put (tool_memory_max_entries m) (tool_memory_max_bytes m) (memos m xs) i d src =
          memo_prune (tool_memory_max_entries m) (tool_memory_max_bytes m) (memo_front (i, d, ?s) (memos m xs))"
        using nonempty find_i True by (simp add: memo_put_def)
      ultimately show ?thesis by (simp only:) blast
    next
      case False
      let ?m1 = "tool_memory_remove_entry_locked m p"
      have inv1: "tm_inv ?m1 (remove1 p xs)" by (rule remove_inv [OF inv p(1)])
      have gone: "by_id ?m1 i = None" using remove_fields(1) [OF inv e b] p(2) elem e
        by (simp add: memo_of_def Let_def)
      note a = add_refines [OF inv1 _ gone, of d src]
      have "memo_front (i, d, src) (memos ?m1 (remove1 p xs)) = memo_front (i, d, src) (memos m xs)"
        using filter_ids(1) [OF inv p(1)] filter_ids(2) [OF inv1 gone] remove_refines [OF inv p(1)] elem
        by (simp add: memo_front_def)
      with a nonempty remove_limits [OF inv p(1)]
      have "\<exists>m' zs. tool_memory_prune_locked (add_entry ?m1 i d src) = Some m' \<and> tm_inv m' zs \<and>
          memos m' zs = memo_prune (tool_memory_max_entries m) (tool_memory_max_bytes m)
            (memo_front (i, d, src) (memos m xs)) \<and> \<not> over_limit m' \<and> limits_kept m m'"
        by (intro prune_after) simp_all
      with nonempty Some False find_i len show ?thesis
        by (simp add: tool_memory_put_locked_def tool_memory_find_entry_locked_def e b memo_put_def)
    qed
  qed
qed

lemma lookup_refines:
  assumes inv: "tm_inv m xs"
  shows "\<exists>zs. tm_inv (fst (tool_memory_lookup_locked m i)) zs \<and>
      memos (fst (tool_memory_lookup_locked m i)) zs = memo_lookup (memos m xs) i \<and>
      limits_kept m (fst (tool_memory_lookup_locked m i)) \<and>
      block_at (fst (tool_memory_lookup_locked m i)) = block_at m \<and>
      by_id (fst (tool_memory_lookup_locked m i)) = by_id m"
    and "snd (tool_memory_lookup_locked m i) = None \<longleftrightarrow> memo_find (memos m xs) i = None"
    and "snd (tool_memory_lookup_locked m i) = Some (s, q) \<Longrightarrow>
      memo_find (memos m xs) i = Some (i, b_dsml (block m q), s) \<and> q \<in> dom (block_at m)"
proof -
  note d = tm_invD [OF inv]
  let ?r = "tool_memory_lookup_locked m i"
  have none: "?r = (m, None)" "memo_find (memos m xs) i = None" if "by_id m i = None"
    using that find_entry_memo(1) [OF inv, of i]
    by (simp_all add: tool_memory_lookup_locked_def tool_memory_find_entry_locked_def)
  have some: "\<exists>e b. entry_at m p = Some e \<and> block_at m (e_block e) = Some b \<and> p \<in> set xs \<and>
      ?r = (tool_memory_touch m p, Some (e_source e, e_block e)) \<and>
      memo_of m p = (i, b_dsml b, e_source e) \<and> memo_find (memos m xs) i = Some (memo_of m p)"
    if p: "by_id m i = Some p" for p
  proof -
    from find_entry_memo(2) [OF inv p] have q: "p \<in> set xs" "fst (memo_of m p) = i" "i \<noteq> []" by simp_all
    then obtain e where e: "entry_at m p = Some e" using d(2) by blast
    with d(4) [OF e] obtain b where b: "block_at m (e_block e) = Some b" by (auto simp: entry_ok_def)
    with e q p find_entry_memo(1) [OF inv, of i] show ?thesis
      by (simp add: tool_memory_lookup_locked_def tool_memory_find_entry_locked_def memo_of_def Let_def)
  qed
  show "\<exists>zs. tm_inv (fst ?r) zs \<and> memos (fst ?r) zs = memo_lookup (memos m xs) i \<and>
      limits_kept m (fst ?r) \<and> block_at (fst ?r) = block_at m \<and> by_id (fst ?r) = by_id m"
  proof (cases "by_id m i")
    case None
    with none inv show ?thesis by (auto simp: memo_lookup_def)
  next
    case (Some p)
    from some [OF this] obtain e b where e: "entry_at m p = Some e" and p: "p \<in> set xs"
      and r: "?r = (tool_memory_touch m p, Some (e_source e, e_block e))"
      and f: "memo_find (memos m xs) i = Some (memo_of m p)" by blast
    have "memos (tool_memory_touch m p) (p # remove1 p xs) = memos m (p # remove1 p xs)"
      by (rule memos_cong) (rule memo_of_touch [OF e])
    with touch_inv [OF inv p] front_refines [OF inv p] show ?thesis
      by (intro exI [of _ "p # remove1 p xs"]) (simp add: r f memo_lookup_def touch_fields)
  qed
  show "snd ?r = None \<longleftrightarrow> memo_find (memos m xs) i = None"
    using none some by (cases "by_id m i") fastforce+
  show "memo_find (memos m xs) i = Some (i, b_dsml (block m q), s) \<and> q \<in> dom (block_at m)"
    if "snd ?r = Some (s, q)"
    using that none some by (cases "by_id m i") fastforce+
qed

end
