(* ===== verification/Tool_Memory_Properties.thy ===== *)
theory Tool_Memory_Properties
  imports Tool_Memory_Spec
begin

text \<open>
  What the tool memory guarantees: every operation returns and keeps it well formed and within its limits, it
  behaves as a bounded list of the most recently used ids, and the markup of sampled calls is replayed
  exactly when a client sends their ids back.
\<close>

section \<open>Lookups while attaching\<close>

abbreviation look :: "tool_memory \<Rightarrow> string \<Rightarrow> (tool_memory_source \<times> nat) option" where
  "look m i \<equiv> snd (tool_memory_lookup_locked m i)"

definition same_view :: "tool_memory \<Rightarrow> tool_memory \<Rightarrow> bool" where
  "same_view m m' \<longleftrightarrow> (\<forall>i. look m' i = look m i) \<and> block_at m' = block_at m \<and>
     (\<exists>xs. tm_inv m xs) \<and> (\<exists>xs. tm_inv m' xs) \<and> limits_kept m m' \<and> entries m' = entries m \<and> bytes m' = bytes m"

lemma lookup_view:
  assumes "tm_inv m xs"
  shows "same_view m (fst (tool_memory_lookup_locked m i))"
proof (cases "tool_memory_find_entry_locked m i")
  case None
  with assms show ?thesis by (auto simp: same_view_def tool_memory_lookup_locked_def)
next
  case (Some p)
  then obtain e where e: "entry_at m p = Some e"
    using tm_invD(6) [OF assms] by (auto simp: tool_memory_find_entry_locked_def split: if_splits)
  have "look (tool_memory_touch m p) j = look m j" for j
    by (auto simp: tool_memory_lookup_locked_def tool_memory_find_entry_locked_def tool_memory_touch_def Let_def e
        split: option.split)
  moreover have "\<exists>ys. tm_inv (fst (tool_memory_lookup_locked m i)) ys" using lookup_refines(1) [OF assms] by blast
  ultimately show ?thesis
    using assms Some by (auto simp: same_view_def tool_memory_lookup_locked_def touch_fields)
      (simp_all add: tool_memory_touch_def Let_def)
qed

lemma same_view_trans: "same_view a b \<Longrightarrow> same_view b c \<Longrightarrow> same_view a c"
  by (simp add: same_view_def)

lemma same_view_refl: "tm_inv m xs \<Longrightarrow> same_view m m"
  by (auto simp: same_view_def)

lemma attach_call_view:
  assumes "tm_inv m xs"
  shows "same_view m (fst (attach_call tc (m, a)))"
  using lookup_view [OF assms, of "id_of tc"]
  by (auto simp: attach_call_def Let_def split: prod.splits option.splits)

lemma attach_fold_view: "same_view m0 m \<Longrightarrow> same_view m0 (fst (fold attach_call tcs (m, a)))"
proof (induction tcs arbitrary: m a)
  case (Cons tc tcs)
  obtain xs where xs: "tm_inv m xs" using Cons.prems by (auto simp: same_view_def)
  obtain m1 a1 where r: "attach_call tc (m, a) = (m1, a1)" by (cases "attach_call tc (m, a)")
  have "same_view m0 m1" using same_view_trans [OF Cons.prems attach_call_view [OF xs, of tc a]] r by simp
  with Cons.IH r show ?case by simp
qed simp

lemma attach_fold_inexact: "\<not> exact a \<Longrightarrow> \<not> exact (snd (fold attach_call tcs (m, a)))"
proof (induction tcs arbitrary: m a)
  case (Cons tc tcs)
  obtain m1 a1 where r: "attach_call tc (m, a) = (m1, a1)" by (cases "attach_call tc (m, a)")
  with Cons.prems have "\<not> exact a1"
    by (auto simp: attach_call_def Let_def split: prod.splits option.splits if_splits)
  with Cons.IH r show ?case by simp
qed simp

text \<open>The loop over the calls of a message finds a block exactly when every call is known with that block.\<close>

lemma attach_fold_iff:
  assumes "same_view m0 m" and "exact a"
  shows "exact (snd (fold attach_call tcs (m, a))) \<and> matched (snd (fold attach_call tcs (m, a))) = Some q \<longleftrightarrow>
    (\<forall>tc \<in> set tcs. \<exists>s. look m0 (id_of tc) = Some (s, q)) \<and>
    (if tcs = [] then matched a = Some q else matched a = None \<or> matched a = Some q)"
  using assms
proof (induction tcs arbitrary: m a)
  case (Cons tc tcs)
  obtain m1 a1 where r: "attach_call tc (m, a) = (m1, a1)" by (cases "attach_call tc (m, a)")
  obtain xs where xs: "tm_inv m xs" using Cons.prems by (auto simp: same_view_def)
  have view: "same_view m0 m1"
    using same_view_trans [OF Cons.prems(1) attach_call_view [OF xs, of tc a]] r by simp
  have lk: "look m (id_of tc) = look m0 (id_of tc)" using Cons.prems by (simp add: same_view_def)
  let ?res = "snd (fold attach_call tcs (m1, a1))"
  show ?case
  proof (cases "look m0 (id_of tc)")
    case None
    with lk r have "\<not> exact a1" by (auto simp: attach_call_def split: prod.splits)
    from attach_fold_inexact [OF this] None r show ?thesis by simp
  next
    case (Some sq)
    obtain s q' where sq: "sq = (s, q')" by (cases sq)
    have a1: "exact a1 \<longleftrightarrow> matched a = None \<or> matched a = Some q'"
      "matched a1 = (case matched a of None \<Rightarrow> Some q' | Some q0 \<Rightarrow> Some q0)"
      using Some lk r Cons.prems(2)
      by (auto simp: attach_call_def Let_def sq split: prod.splits option.splits if_splits)
    show ?thesis
    proof (cases "exact a1")
      case True
      then have m1q: "matched a1 = Some q'" using a1 by auto
      from Cons.IH [OF view True] have "exact ?res \<and> matched ?res = Some q \<longleftrightarrow>
          (\<forall>tc \<in> set tcs. \<exists>s. look m0 (id_of tc) = Some (s, q)) \<and> q' = q"
        using m1q by auto
      with r Some sq a1 True show ?thesis by auto
    next
      case False
      with attach_fold_inexact [OF False] r Some sq a1 show ?thesis by auto
    qed
  qed
qed simp

text \<open>A message gets a text exactly when all of its calls are remembered with that text.\<close>

lemma attach_message_iff:
  assumes inv: "tm_inv m xs" and "tc_list calls \<noteq> []" and "raw_dsml calls = None"
  shows "raw_dsml (snd (attach_message (m, stats) calls)) = Some d \<longleftrightarrow>
    (\<forall>tc \<in> set (tc_list calls). \<exists>s. memo_find (memos m xs) (id_of tc) = Some (id_of tc, d, s))"
proof -
  let ?f = "fold attach_call (tc_list calls) (m, attach_init)"
  have view: "same_view m (fst ?f)" by (rule attach_fold_view [OF same_view_refl [OF inv]])
  have found: "exact (snd ?f) \<and> matched (snd ?f) = Some q \<longleftrightarrow>
      (\<forall>tc \<in> set (tc_list calls). \<exists>s. look m (id_of tc) = Some (s, q))" for q
    using attach_fold_iff [OF same_view_refl [OF inv], of attach_init "tc_list calls" q] assms(2)
    by (simp add: attach_init_def)
  have raw: "raw_dsml (snd (attach_message (m, stats) calls)) = Some d \<longleftrightarrow>
      (\<exists>q. exact (snd ?f) \<and> matched (snd ?f) = Some q \<and> b_dsml (block m q) = d)"
    using assms(2,3) view
    by (auto simp: attach_message_def same_view_def split: prod.splits option.splits bool.splits)
  have known: "(\<exists>s. look m i = Some (s, q)) \<longleftrightarrow>
      (\<exists>s. memo_find (memos m xs) i = Some (i, b_dsml (block m q), s)) \<and> q \<in> dom (block_at m)" for i q
  proof
    assume "\<exists>s. look m i = Some (s, q)"
    then show "(\<exists>s. memo_find (memos m xs) i = Some (i, b_dsml (block m q), s)) \<and> q \<in> dom (block_at m)"
      using lookup_refines(3) [OF inv] by blast
  next
    assume r: "(\<exists>s. memo_find (memos m xs) i = Some (i, b_dsml (block m q), s)) \<and> q \<in> dom (block_at m)"
    then have "look m i \<noteq> None" using lookup_refines(2) [OF inv, of i] by auto
    then obtain s q' where l: "look m i = Some (s, q')" by auto
    from lookup_refines(3) [OF inv l] r have "b_dsml (block m q) = b_dsml (block m q')" "q' \<in> dom (block_at m)"
      by auto
    with r texts_inj [OF inv] have "q = q'" by (auto dest: inj_onD)
    with l show "\<exists>s. look m i = Some (s, q)" by blast
  qed
  obtain tc0 where tc0: "tc0 \<in> set (tc_list calls)" using assms(2) by (cases "tc_list calls") auto
  show ?thesis
  proof
    assume "raw_dsml (snd (attach_message (m, stats) calls)) = Some d"
    then show "\<forall>tc \<in> set (tc_list calls). \<exists>s. memo_find (memos m xs) (id_of tc) = Some (id_of tc, d, s)"
      using raw found known by blast
  next
    assume all: "\<forall>tc \<in> set (tc_list calls). \<exists>s. memo_find (memos m xs) (id_of tc) = Some (id_of tc, d, s)"
    with tc0 have "look m (id_of tc0) \<noteq> None" using lookup_refines(2) [OF inv, of "id_of tc0"] by auto
    then obtain s q where l: "look m (id_of tc0) = Some (s, q)" by auto
    from lookup_refines(3) [OF inv l] all tc0 have q: "b_dsml (block m q) = d" "q \<in> dom (block_at m)" by auto
    have "\<forall>tc \<in> set (tc_list calls). \<exists>s. look m (id_of tc) = Some (s, q)"
      using all q known by blast
    with raw found q show "raw_dsml (snd (attach_message (m, stats) calls)) = Some d" by blast
  qed
qed

section \<open>Remembered calls\<close>

lemma memo_size_rev [simp]: "memo_size (rev l) = memo_size l"
  by (simp add: memo_size_def rev_map [symmetric])

lemma memo_over_rev [simp]: "memo_over mx mb (rev l) = memo_over mx mb l"
  by (simp add: memo_over_def)

lemma memo_size_Cons: "memo_size l \<le> memo_size (x # l)"
proof -
  have "(\<Sum>d \<in> (\<lambda>(i, d, s). d) ` set l. length d + 1 + sizeof_block) \<le>
      (\<Sum>d \<in> (\<lambda>(i, d, s). d) ` set (x # l). length d + 1 + sizeof_block)"
    by (intro sum_mono2 finite_imageI image_mono set_subset_Cons) simp_all
  then show ?thesis by (cases x) (simp add: memo_size_def)
qed

lemma memo_over_Cons: "memo_over mx mb l \<Longrightarrow> memo_over mx mb (x # l)"
  using memo_size_Cons [of l x] by (auto simp: memo_over_def)

text \<open>Pruning keeps every beginning of the list that meets the limits.\<close>

lemma memo_prune_keeps:
  "\<not> memo_over mx mb f \<Longrightarrow> \<exists>rest'. memo_prune mx mb (f @ rest) = f @ rest'"
proof (induction rest rule: rev_induct)
  case Nil
  then show ?case by (simp add: memo_prune.simps)
next
  case (snoc x rest)
  have "memo_prune mx mb (f @ rest @ [x]) =
      (if memo_over mx mb (f @ rest @ [x]) then memo_prune mx mb (f @ rest) else f @ rest @ [x])"
    by (subst memo_prune.simps) (simp add: butlast_append)
  with snoc show ?case by auto
qed

definition ram_memos :: "string \<Rightarrow> tool_call list \<Rightarrow> memo list" where
  "ram_memos d tcs = map (\<lambda>tc. (id_of tc, d, TOOL_MEMORY_RAM)) tcs"

lemma put_ram:
  assumes "i \<noteq> []" and "d \<noteq> []"
  shows "memo_put mx mb l i d TOOL_MEMORY_RAM = memo_prune mx mb (memo_front (i, d, TOOL_MEMORY_RAM) l)"
  using assms by (auto simp: memo_put_def split: option.split)

lemma fold_put_front:
  assumes "d \<noteq> []"
  shows "\<forall>tc \<in> set tcs. id_of tc \<noteq> [] \<Longrightarrow> distinct (map id_of tcs) \<Longrightarrow> \<not> memo_over mx mb (ram_memos d tcs) \<Longrightarrow>
    \<exists>rest. fold (\<lambda>tc l. memo_put mx mb l (id_of tc) d TOOL_MEMORY_RAM) tcs l = rev (ram_memos d tcs) @ rest"
proof (induction tcs rule: rev_induct)
  case (snoc tc tcs)
  let ?x = "(id_of tc, d, TOOL_MEMORY_RAM)" and ?f = "rev (ram_memos d tcs)"
  have rev_eq: "rev (ram_memos d (tcs @ [tc])) = ?x # ?f" by (simp add: ram_memos_def)
  have fits: "\<not> memo_over mx mb (?x # ?f)"
    using snoc.prems(3) memo_over_rev [of mx mb "ram_memos d (tcs @ [tc])"] by (simp only: rev_eq not_False_eq_True)
  then have "\<not> memo_over mx mb (ram_memos d tcs)" using memo_over_Cons memo_over_rev by metis
  with snoc obtain rest where
    f: "fold (\<lambda>tc l. memo_put mx mb l (id_of tc) d TOOL_MEMORY_RAM) tcs l = ?f @ rest" by auto
  have "filter (\<lambda>y. fst y \<noteq> id_of tc) ?f = ?f"
  proof -
    have "id_of tc \<notin> id_of ` set tcs" using snoc.prems(2) by simp
    then have "\<forall>x \<in> set ?f. fst x \<noteq> id_of tc" by (force simp: ram_memos_def)
    then show ?thesis by (simp add: filter_id_conv)
  qed
  then have "memo_put mx mb (?f @ rest) (id_of tc) d TOOL_MEMORY_RAM =
      memo_prune mx mb ((?x # ?f) @ filter (\<lambda>y. fst y \<noteq> id_of tc) rest)"
    using snoc.prems(1) assms by (simp add: put_ram memo_front_def)
  with memo_prune_keeps [OF fits] f show ?case by (simp add: rev_eq)
qed (simp add: ram_memos_def)

lemma remember_refines:
  "tm_inv m xs \<Longrightarrow> \<exists>m' zs. remember_calls m tcs d = Some m' \<and> tm_inv m' zs \<and> limits_kept m m' \<and>
     (over_limit m \<or> \<not> over_limit m') \<and>
     memos m' zs = fold (\<lambda>tc l. memo_put (tool_memory_max_entries m) (tool_memory_max_bytes m) l (id_of tc) d
       TOOL_MEMORY_RAM) tcs (memos m xs)"
proof (induction tcs arbitrary: m xs)
  case (Cons tc tcs)
  from put_refines [OF Cons.prems, of "id_of tc" d TOOL_MEMORY_RAM] obtain m1 ys where
    p: "tool_memory_put_locked m (id_of tc) d TOOL_MEMORY_RAM = Some m1" and inv: "tm_inv m1 ys"
    and l: "memos m1 ys = memo_put (tool_memory_max_entries m) (tool_memory_max_bytes m) (memos m xs)
      (id_of tc) d TOOL_MEMORY_RAM" and k: "limits_kept m m1"
    and ov: "id_of tc = [] \<or> d = [] \<or> \<not> over_limit m1"
    by blast
  have "over_limit m \<or> \<not> over_limit m1" using ov p by (auto simp: tool_memory_put_locked_def)
  with Cons.IH [OF inv] p l k limits_kept_eq [OF k] show ?case by auto
qed auto

lemma find_remembered:
  assumes "distinct (map id_of tcs)" and "tc \<in> set tcs"
  shows "memo_find (rev (ram_memos d tcs) @ rest) (id_of tc) = Some (id_of tc, d, TOOL_MEMORY_RAM)"
proof -
  have "find (\<lambda>(j, e, s). j = i) (rev (ram_memos d tcs)) = Some (i, d, TOOL_MEMORY_RAM)" if "i \<in> id_of ` set tcs" for i
    using that unfolding ram_memos_def by (induction tcs rule: rev_induct) auto
  with assms(2) have f: "find (\<lambda>(j, e, s). j = id_of tc) (rev (ram_memos d tcs)) = Some (id_of tc, d, TOOL_MEMORY_RAM)"
    by simp
  have "find P xs = Some y \<Longrightarrow> find P (xs @ zs) = Some y" for P and xs zs :: "memo list" and y
    by (induction xs) auto
  from this [OF f] show ?thesis by (simp add: memo_find_def)
qed

text \<open>
  C29: The calls the server has just sampled are replayed exactly: remembering them returns, and when a client sends
  an assistant message with the same call ids, the message is given the sampled markup and renders to the same bytes.
  The memory must have room for these calls alone, whatever else it holds.
\<close>

theorem sampled_calls_are_replayed:
  assumes "implements m l" and "raw_dsml sampled = Some d" and "d \<noteq> []" and "tc_list sampled \<noteq> []"
    and "list_all (\<lambda>tc. id_of tc \<noteq> []) (tc_list sampled)" and "distinct (map id_of (tc_list sampled))"
    and "\<not> memo_over (tool_memory_max_entries m) (tool_memory_max_bytes m) (ram_memos d (tc_list sampled))"
    and "map id_of (tc_list replay) = map id_of (tc_list sampled)" and "raw_dsml replay = None"
  shows "\<exists>m' l'. tool_memory_remember False m sampled = Some m' \<and> implements m' l' \<and>
    snd (tool_memory_attach_to_messages False m' stats [replay]) = [replay\<lparr>raw_dsml := Some d\<rparr>] \<and>
    append_dsml_tool_calls_text (replay\<lparr>raw_dsml := Some d\<rparr>) = d"
proof -
  obtain xs where inv: "tm_inv m xs" "l = memos m xs" using assms(1) by (auto simp: implements_def)
  from remember_refines [OF inv(1), of "tc_list sampled" d] obtain m' zs where
    m': "remember_calls m (tc_list sampled) d = Some m'" "tm_inv m' zs"
      "memos m' zs = fold (\<lambda>tc l. memo_put (tool_memory_max_entries m) (tool_memory_max_bytes m) l (id_of tc) d
       TOOL_MEMORY_RAM) (tc_list sampled) (memos m xs)" by blast
  with fold_put_front [OF assms(3) _ assms(6,7), of "memos m xs"] assms(5) obtain rest where
    mem: "memos m' zs = rev (ram_memos d (tc_list sampled)) @ rest" by (auto simp: list_all_iff)
  have nonempty: "tc_list replay \<noteq> []" using assms(4,8) by auto
  have "id_of tc \<in> id_of ` set (tc_list sampled)" if "tc \<in> set (tc_list replay)" for tc
    using that assms(8) by (metis image_eqI list.set_map)
  then have "\<forall>tc \<in> set (tc_list replay). \<exists>s. memo_find (memos m' zs) (id_of tc) = Some (id_of tc, d, s)"
    using find_remembered [OF assms(6)] unfolding mem by fastforce
  then have "raw_dsml (snd (attach_message (m', stats) replay)) = Some d"
    using attach_message_iff [OF m'(2) nonempty assms(9)] by blast
  moreover have "tc_list (snd (attach_message (m', stats) replay)) = tc_list replay"
    by (auto simp: attach_message_def split: prod.split option.split bool.split)
  ultimately have "snd (attach_message (m', stats) replay) = replay\<lparr>raw_dsml := Some d\<rparr>"
    by (cases "snd (attach_message (m', stats) replay)"; cases replay) auto
  then have "snd (tool_memory_attach_to_messages False m' stats [replay]) = [replay\<lparr>raw_dsml := Some d\<rparr>]"
    by (cases "attach_message (m', stats) replay") (simp add: tool_memory_attach_to_messages_def)
  moreover have "tool_memory_remember False m sampled = Some m'"
    using m'(1) assms(2,3) by (simp add: tool_memory_remember_def)
  moreover have "append_dsml_tool_calls_text (replay\<lparr>raw_dsml := Some d\<rparr>) = d"
    using nonempty assms(3) by (simp add: append_dsml_tool_calls_text_def)
  ultimately show ?thesis using m'(2) by (auto simp: implements_def)
qed

definition sampled_example :: tool_calls where
  "sampled_example =
     \<lparr>tc_list = [\<lparr>tc_id = Some ''a1'', tc_name = ''ls'', tc_arguments = ''{}''\<rparr>,
                 \<lparr>tc_id = Some ''a2'', tc_name = ''ps'', tc_arguments = ''{}''\<rparr>],
      raw_dsml = Some ''<tool_calls> x''\<rparr>"

definition replay_example :: tool_calls where
  "replay_example =
     \<lparr>tc_list = [\<lparr>tc_id = Some ''a1'', tc_name = ''ls'', tc_arguments = ''{ }''\<rparr>,
                 \<lparr>tc_id = Some ''a2'', tc_name = ''ps'', tc_arguments = ''{ }''\<rparr>], raw_dsml = None\<rparr>"

definition no_stats :: tool_replay_stats where
  "no_stats = \<lparr>mem = 0, disk = 0, canonical = 0, missing_ids = 0\<rparr>"

lemma empty_implements: "implements (tool_memory_empty mx mb) []"
  using tm_inv_empty by (auto simp: implements_def memos_def)

theorem sampled_calls_are_replayed_witness:
  "\<exists>m' l'. tool_memory_remember False (tool_memory_empty 2 1000) sampled_example = Some m' \<and> implements m' l' \<and>
    snd (tool_memory_attach_to_messages False m' no_stats [replay_example]) =
      [replay_example\<lparr>raw_dsml := Some ''<tool_calls> x''\<rparr>] \<and>
    append_dsml_tool_calls_text (replay_example\<lparr>raw_dsml := Some ''<tool_calls> x''\<rparr>) = ''<tool_calls> x''"
  by (rule sampled_calls_are_replayed [OF empty_implements])
    (simp_all add: sampled_example_def replay_example_def id_of_def memo_over_def memo_size_def ram_memos_def
      tool_memory_max_entries_def tool_memory_max_bytes_def tool_memory_empty_def sizeof_block_def sizeof_entry_def)

section \<open>Sequences of operations\<close>

datatype memory_op =
  Op_put string string tool_memory_source
| Op_remember tool_calls
| Op_lookup string
| Op_attach "tool_calls list"

fun run_op :: "memory_op \<Rightarrow> tool_memory \<Rightarrow> tool_memory option" where
  "run_op (Op_put i d s) m = tool_memory_put_source False m i d s"
| "run_op (Op_remember calls) m = tool_memory_remember False m calls"
| "run_op (Op_lookup i) m = Some (fst (tool_memory_lookup_locked m i))"
| "run_op (Op_attach msgs) m = Some (fst (fst (tool_memory_attach_to_messages False m no_stats msgs)))"

fun run_ops :: "memory_op list \<Rightarrow> tool_memory \<Rightarrow> tool_memory option" where
  "run_ops [] m = Some m"
| "run_ops (x # xs) m = (case run_op x m of None \<Rightarrow> None | Some m1 \<Rightarrow> run_ops xs m1)"

definition well_formed :: "tool_memory \<Rightarrow> bool" where
  "well_formed m \<longleftrightarrow> (\<exists>l. implements m l) \<and> \<not> over_limit m"

lemma over_limit_view: "same_view m m' \<Longrightarrow> over_limit m' = over_limit m"
  by (simp add: same_view_def over_limit_def tool_memory_max_entries_def tool_memory_max_bytes_def)

lemma well_formed_view: "same_view m m' \<Longrightarrow> \<not> over_limit m \<Longrightarrow> well_formed m'"
  using over_limit_view [of m m'] by (auto simp: well_formed_def implements_def same_view_def)

lemma attach_message_view:
  assumes "tm_inv m xs"
  shows "same_view m (fst (fst (attach_message (m, stats) calls)))"
proof -
  obtain m1 a where f: "fold attach_call (tc_list calls) (m, attach_init) = (m1, a)"
    by (cases "fold attach_call (tc_list calls) (m, attach_init)")
  have "same_view m m1"
    using attach_fold_view [OF same_view_refl [OF assms], of "tc_list calls" attach_init] f by simp
  moreover have "fst (fst (attach_message (m, stats) calls)) \<in> {m, m1}"
    using f by (cases "exact a"; cases "matched a") (simp_all add: attach_message_def)
  ultimately show ?thesis using same_view_refl [OF assms] by auto
qed

lemma attach_messages_view: "same_view m0 m \<Longrightarrow> same_view m0 (fst (fst (attach_messages (m, stats) msgs)))"
proof (induction msgs arbitrary: m stats)
  case (Cons c cs)
  obtain xs where xs: "tm_inv m xs" using Cons.prems by (auto simp: same_view_def)
  obtain m1 st c1 where r: "attach_message (m, stats) c = ((m1, st), c1)"
    by (cases "attach_message (m, stats) c") auto
  have "same_view m0 m1" using same_view_trans [OF Cons.prems attach_message_view [OF xs, of stats c]] r by simp
  from Cons.IH [OF this, of st] r show ?case
    by (cases "attach_messages (m1, st) cs") simp
qed simp

lemma run_op_well_formed:
  assumes "well_formed m"
  shows "\<exists>m'. run_op x m = Some m' \<and> well_formed m' \<and> limits_kept m m'"
proof -
  obtain xs where inv: "tm_inv m xs" using assms by (auto simp: well_formed_def implements_def)
  have lim: "\<not> over_limit m" using assms by (simp add: well_formed_def)
  show ?thesis
  proof (cases x)
    case (Op_put i d s)
    show ?thesis
    proof (cases "i = [] \<or> d = []")
      case True
      with Op_put assms show ?thesis by (auto simp: tool_memory_put_source_def)
    next
      case False
      from put_refines [OF inv, of i d s] False obtain m' zs where
        "tool_memory_put_locked m i d s = Some m'" "tm_inv m' zs" "\<not> over_limit m'" "limits_kept m m'" by blast
      with Op_put False show ?thesis
        by (auto simp: tool_memory_put_source_def well_formed_def implements_def)
    qed
  next
    case (Op_remember calls)
    show ?thesis
    proof (cases "raw_dsml calls = None \<or> raw_dsml calls = Some []")
      case True
      with Op_remember assms show ?thesis by (auto simp: tool_memory_remember_def)
    next
      case False
      then obtain d where d: "raw_dsml calls = Some d" "d \<noteq> []" by auto
      from remember_refines [OF inv, of "tc_list calls" d] lim obtain m' zs where
        "remember_calls m (tc_list calls) d = Some m'" "tm_inv m' zs" "\<not> over_limit m'" "limits_kept m m'" by blast
      with Op_remember d show ?thesis
        by (auto simp: tool_memory_remember_def well_formed_def implements_def)
    qed
  next
    case (Op_lookup i)
    with well_formed_view [OF lookup_view [OF inv, of i] lim] lookup_view [OF inv, of i] show ?thesis
      by (simp add: same_view_def)
  next
    case (Op_attach msgs)
    have v: "same_view m (fst (fst (tool_memory_attach_to_messages False m no_stats msgs)))"
      using attach_messages_view [OF same_view_refl [OF inv]] by (simp add: tool_memory_attach_to_messages_def)
    with well_formed_view [OF v lim] Op_attach show ?thesis by (simp add: same_view_def)
  qed
qed

lemma run_ops_well_formed:
  "well_formed m \<Longrightarrow> \<exists>m'. run_ops ops m = Some m' \<and> well_formed m' \<and> limits_kept m m'"
proof (induction ops arbitrary: m)
  case (Cons x ops)
  from run_op_well_formed [OF Cons.prems, of x] obtain m1 where
    "run_op x m = Some m1" "well_formed m1" "limits_kept m m1" by blast
  with Cons.IH [of m1] show ?case by auto
qed simp

text \<open>
  C30: From the empty memory every sequence of its operations returns and leaves a well-formed memory: lists, chains, maps
  and counters describe one set of entries, and neither the number of ids nor the bytes exceed the limits.
\<close>

theorem tool_memory_stays_well_formed:
  "\<exists>m. run_ops ops (tool_memory_empty mx mb) = Some m \<and> (\<exists>xs. tm_inv m xs) \<and>
    entries m \<le> tool_memory_max_entries (tool_memory_empty mx mb) \<and>
    bytes m \<le> tool_memory_max_bytes (tool_memory_empty mx mb)"
proof -
  have "well_formed (tool_memory_empty mx mb)"
    using empty_implements not_over_limit_empty [OF tm_inv_empty] by (auto simp: well_formed_def)
  from run_ops_well_formed [OF this] obtain m where m: "run_ops ops (tool_memory_empty mx mb) = Some m"
    "well_formed m" "limits_kept (tool_memory_empty mx mb) m" by blast
  then have "entries m \<le> tool_memory_max_entries (tool_memory_empty mx mb)"
    "bytes m \<le> tool_memory_max_bytes (tool_memory_empty mx mb)"
    using limits_kept_eq [OF m(3)] by (auto simp: well_formed_def over_limit_def)
  moreover have "\<exists>xs. tm_inv m xs" using m(2) by (auto simp: well_formed_def implements_def)
  ultimately show ?thesis using m(1) by blast
qed

text \<open>
  C28: On a memory that implements a list of remembered calls, storing a call implements storing it in the list (the newest
  first, the text once, the oldest dropped until the limits are met) and looking one up implements finding it in
  the list and moving it to the front.
\<close>

theorem tool_memory_refines_list:
  assumes "implements m l"
  shows "(\<exists>m'. tool_memory_put_locked m i d src = Some m' \<and>
      implements m' (memo_put (tool_memory_max_entries m) (tool_memory_max_bytes m) l i d src)) \<and>
    implements (fst (tool_memory_lookup_locked m i)) (memo_lookup l i) \<and>
    map_option (\<lambda>(s, q). (b_dsml (block m q), s)) (snd (tool_memory_lookup_locked m i)) =
      map_option snd (memo_find l i)"
proof -
  obtain xs where inv: "tm_inv m xs" "l = memos m xs" using assms by (auto simp: implements_def)
  have "map_option (\<lambda>(s, q). (b_dsml (block m q), s)) (look m i) = map_option snd (memo_find l i)"
    using lookup_refines(2) [OF inv(1), of i] lookup_refines(3) [OF inv(1), of i]
    by (cases "look m i") (auto simp: inv(2))
  moreover have "implements (fst (tool_memory_lookup_locked m i)) (memo_lookup l i)"
    using lookup_refines(1) [OF inv(1), of i] by (auto simp: implements_def inv(2))
  moreover have "\<exists>m'. tool_memory_put_locked m i d src = Some m' \<and>
      implements m' (memo_put (tool_memory_max_entries m) (tool_memory_max_bytes m) l i d src)"
    unfolding inv(2) implements_def using put_refines [OF inv(1), of i d src] by metis
  ultimately show ?thesis by blast
qed

theorem tool_memory_refines_list_witness:
  "(\<exists>m'. tool_memory_put_locked (tool_memory_empty 2 1000) ''a'' ''t'' TOOL_MEMORY_DISK = Some m' \<and>
      implements m' [(''a'', ''t'', TOOL_MEMORY_DISK)])"
proof -
  have "memo_put 2 1000 [] ''a'' ''t'' TOOL_MEMORY_DISK = [(''a'', ''t'', TOOL_MEMORY_DISK)]"
    by (simp add: memo_put_def memo_find_def memo_front_def memo_prune.simps memo_over_def memo_size_def
        sizeof_block_def sizeof_entry_def)
  with tool_memory_refines_list [OF empty_implements, of 2 1000 "''a''" "''t''" TOOL_MEMORY_DISK]
  show ?thesis by (auto simp: tool_memory_max_entries_def tool_memory_max_bytes_def tool_memory_empty_def)
qed

end
