(* ===== verification/Buffers.thy ===== *)
theory Buffers
  imports Prelude
begin

text \<open>
  The growing byte buffer of the server and its thinking state (\<open>ds4_server.c\<close>). The bytes of a buffer
  are those before its terminating NUL; its capacity grows by doubling a 64-bit number, which wraps. Whether
  \<open>realloc\<close> succeeds is a parameter.
\<close>

section \<open>Buffers\<close>

record buf =
  contents :: string
  buf_len :: u64
  buf_cap :: u64

datatype buf_error = Buffer_overflow | Out_of_memory

definition buf_empty :: buf where
  "buf_empty = \<lparr>contents = [], buf_len = 0, buf_cap = 0\<rparr>"

text \<open>The loop that doubles the capacity; it never returns when the product wraps to zero.\<close>

partial_function (option) grow_cap :: "u64 \<Rightarrow> u64 \<Rightarrow> u64 option" where
  "grow_cap cap need = (if cap < need then grow_cap (cap * 2) need else Some cap)"

text \<open>The outer option is the loop, the sum the two calls of \<open>die\<close>.\<close>

definition buf_reserve :: "(u64 \<Rightarrow> bool) \<Rightarrow> buf \<Rightarrow> u64 \<Rightarrow> (buf_error + buf) option" where
  "buf_reserve alloc b add =
     (if add > UINT64_MAX - buf_len b - 1 then Some (Inl Buffer_overflow)
      else (let need = buf_len b + add + 1 in
        if need \<le> buf_cap b then Some (Inr b)
        else (case grow_cap (if buf_cap b \<noteq> 0 then buf_cap b * 2 else 256) need of
                None \<Rightarrow> None
              | Some cap \<Rightarrow> Some (if alloc cap then Inr (b\<lparr>buf_cap := cap\<rparr>) else Inl Out_of_memory))))"

definition buf_append :: "(u64 \<Rightarrow> bool) \<Rightarrow> buf \<Rightarrow> string \<Rightarrow> (buf_error + buf) option" where
  "buf_append alloc b s =
     (case buf_reserve alloc b (of_nat (length s)) of
        None \<Rightarrow> None
      | Some (Inl e) \<Rightarrow> Some (Inl e)
      | Some (Inr b1) \<Rightarrow>
          Some (Inr (b1\<lparr>contents := contents b1 @ s, buf_len := buf_len b1 + of_nat (length s)\<rparr>)))"

definition buf_putc :: "(u64 \<Rightarrow> bool) \<Rightarrow> buf \<Rightarrow> char \<Rightarrow> (buf_error + buf) option" where
  "buf_putc alloc b c = buf_append alloc b [c]"

definition buf_puts :: "(u64 \<Rightarrow> bool) \<Rightarrow> buf \<Rightarrow> string \<Rightarrow> (buf_error + buf) option" where
  "buf_puts alloc b s = buf_append alloc b (c_str s)"

definition buf_take :: "buf \<Rightarrow> string \<times> buf" where
  "buf_take b = (contents b, buf_empty)"

text \<open>What holds of every buffer: its capacity is zero or a doubling of 256, and its text and the NUL fit.\<close>

definition buf_ok :: "buf \<Rightarrow> bool" where
  "buf_ok b \<longleftrightarrow> unat (buf_len b) = length (contents b) \<and>
     (if buf_cap b = 0 then contents b = []
      else length (contents b) < unat (buf_cap b) \<and> (\<exists>k. 8 \<le> k \<and> k \<le> 63 \<and> unat (buf_cap b) = 2 ^ k))"

lemma buf_ok_empty: "buf_ok buf_empty"
  by (simp add: buf_ok_def buf_empty_def)

lemma unat_double: "unat (c :: u64) = 2 ^ k \<Longrightarrow> k < 63 \<Longrightarrow> unat (c * 2) = 2 ^ Suc k"
proof -
  assume c: "unat c = 2 ^ k" and k: "k < 63"
  have "(2::nat) ^ Suc k \<le> 2 ^ 63" using k by (intro power_increasing) simp_all
  then have "unat c * unat (2::u64) < 2 ^ 64" using c by simp
  then show ?thesis using c by (subst unat_times_no_overflow) simp_all
qed

lemma double_wraps: "unat (c :: u64) = 2 ^ 63 \<Longrightarrow> c * 2 = 0"
proof -
  assume "unat c = 2 ^ 63"
  moreover have "c = word_of_nat (unat c)" by simp
  ultimately have "c = word_of_nat (2 ^ 63)" by simp
  then show ?thesis by simp
qed

text \<open>From zero the loop stays at zero and never returns.\<close>

lemma grow_zero:
  assumes "grow_cap c need = Some r" and "c = 0"
  shows "need = 0"
proof -
  have "c = 0 \<longrightarrow> need = 0"
    by (rule grow_cap.raw_induct [OF _ assms(1)])
      (auto simp: word_less_nat_alt unat_eq_0 split: if_splits)
  with assms(2) show ?thesis by simp
qed

lemma grow_cap_returns:
  "unat c = 2 ^ k \<Longrightarrow> k \<le> 63 \<Longrightarrow> unat need \<le> 2 ^ 63 \<Longrightarrow>
     \<exists>j r. k \<le> j \<and> j \<le> 63 \<and> grow_cap c need = Some r \<and> unat r = 2 ^ j \<and> unat need \<le> 2 ^ j \<and>
       (j = k \<or> 2 ^ (j - 1) < unat need)"
proof (induction "63 - k" arbitrary: c k)
  case 0
  then have "k = 63" by simp
  with 0 have "\<not> c < need" by (simp add: word_less_nat_alt)
  with 0 \<open>k = 63\<close> show ?case by (intro exI [of _ k] exI [of _ c]) (simp add: grow_cap.simps)
next
  case (Suc n)
  show ?case
  proof (cases "c < need")
    case True
    have k: "k < 63" using Suc.hyps(2) by simp
    have d: "unat (c * 2) = 2 ^ Suc k" by (rule unat_double [OF Suc.prems(1) k])
    have n: "n = 63 - Suc k" "Suc k \<le> 63" using Suc.hyps(2) k by simp_all
    from Suc.hyps(1) [OF n(1) d n(2) Suc.prems(3)] obtain j r where
      j: "Suc k \<le> j" "j \<le> 63" "grow_cap (c * 2) need = Some r" "unat r = 2 ^ j" "unat need \<le> 2 ^ j"
        "j = Suc k \<or> 2 ^ (j - 1) < unat need" by blast
    have "2 ^ k < unat need" using True Suc.prems(1) by (simp add: word_less_nat_alt)
    with j True show ?thesis
      by (intro exI [of _ j] exI [of _ r]) (auto simp: grow_cap.simps [of c])
  next
    case False
    with Suc.prems show ?thesis
      by (intro exI [of _ k] exI [of _ c]) (simp add: grow_cap.simps word_less_nat_alt)
  qed
qed

lemma grow_cap_stuck:
  "unat c = 2 ^ k \<Longrightarrow> k \<le> 63 \<Longrightarrow> 2 ^ 63 < unat need \<Longrightarrow> grow_cap c need = None"
proof (induction "63 - k" arbitrary: c k)
  case 0
  then have k: "unat c = 2 ^ 63" by simp
  then have "grow_cap c need = grow_cap 0 need"
    using 0 by (simp add: grow_cap.simps [of c] double_wraps word_less_nat_alt)
  moreover have "need \<noteq> 0" using 0 by auto
  ultimately show ?case using grow_zero by (cases "grow_cap 0 need") auto
next
  case (Suc n)
  have k: "k < 63" using Suc.hyps(2) by simp
  have "(2::nat) ^ k \<le> 2 ^ 63" using k by (intro power_increasing) simp_all
  then have "c < need" using Suc.prems by (simp add: word_less_nat_alt)
  moreover have "grow_cap (c * 2) need = None"
    using Suc.hyps(2) k by (intro Suc.hyps(1) [OF _ unat_double [OF Suc.prems(1) k] _ Suc.prems(3)]) simp_all
  ultimately show ?case by (simp add: grow_cap.simps [of c])
qed

section \<open>Growth\<close>

lemma buf_len_less: "buf_ok b \<Longrightarrow> unat (buf_len b) < 2 ^ 63"
proof (cases "buf_cap b = 0")
  case False
  assume ok: "buf_ok b"
  with False obtain k where k: "unat (buf_len b) < 2 ^ k" "k \<le> 63" by (auto simp: buf_ok_def)
  then have "(2::nat) ^ k \<le> 2 ^ 63" by (intro power_increasing) simp_all
  with k show ?thesis by linarith
qed (simp add: buf_ok_def)

text \<open>The overflow check is exact, and behind it the new size does not wrap.\<close>

lemma overflow_check:
  assumes "buf_ok b"
  shows "add > UINT64_MAX - buf_len b - 1 \<longleftrightarrow> 2 ^ 64 \<le> unat (buf_len b) + unat add + 1"
proof -
  have "unat (UINT64_MAX - buf_len b - 1) = 18446744073709551614 - unat (buf_len b)"
    using buf_len_less [OF assms] unat_max_minus [of "buf_len b"] by (simp add: unat_sub_if')
  then show ?thesis using buf_len_less [OF assms] by (simp add: word_less_nat_alt) linarith
qed

lemma need_unat:
  assumes "unat (buf_len b) + unat add + 1 < 2 ^ 64"
  shows "unat (buf_len b + add + 1) = unat (buf_len b) + unat add + 1"
proof -
  have "unat (buf_len b + add) = unat (buf_len b) + unat add"
    using assms by (intro unat_plus_no_overflow) simp
  moreover from this have "unat (buf_len b + add + 1) = unat (buf_len b + add) + unat (1::u64)"
    using assms by (intro unat_plus_no_overflow) simp
  ultimately show ?thesis by simp
qed

text \<open>The capacity the loop starts from is a power of two, or zero when the last doubling wraps.\<close>

lemma start_cap:
  assumes "buf_ok b"
  shows "(\<exists>k. 8 \<le> k \<and> k \<le> 63 \<and> unat (if buf_cap b \<noteq> 0 then buf_cap b * 2 else 256) = 2 ^ k \<and>
      (buf_cap b = 0 \<and> k = 8 \<or> 2 ^ (k - 1) = unat (buf_cap b))) \<or> unat (buf_cap b) = 2 ^ 63"
proof (cases "buf_cap b = 0")
  case False
  with assms obtain k where k: "8 \<le> k" "k \<le> 63" "unat (buf_cap b) = 2 ^ k" by (auto simp: buf_ok_def)
  show ?thesis
  proof (cases "k = 63")
    case False
    with k have "unat (buf_cap b * 2) = 2 ^ Suc k" by (intro unat_double) simp_all
    with k False \<open>buf_cap b \<noteq> 0\<close> show ?thesis by (intro disjI1 exI [of _ "Suc k"]) simp
  qed (use k in simp)
qed (auto intro!: exI [of _ 8])

lemma reserve_grow:
  assumes ok: "buf_ok b" and fits: "unat (buf_len b) + unat add + 1 \<le> 2 ^ 63"
  shows "\<exists>cap. buf_reserve alloc b add =
      Some (if cap = buf_cap b \<or> alloc cap then Inr (b\<lparr>buf_cap := cap\<rparr>) else Inl Out_of_memory) \<and>
    unat (buf_len b) + unat add + 1 \<le> unat cap \<and> (\<exists>k. 8 \<le> k \<and> k \<le> 63 \<and> unat cap = 2 ^ k) \<and>
    (unat cap \<le> 256 \<or> unat cap \<le> 2 * unat (buf_cap b) \<or> unat cap < 2 * (unat (buf_len b) + unat add + 1))"
proof -
  let ?need = "buf_len b + add + 1" and ?n = "unat (buf_len b) + unat add + 1"
  let ?c = "if buf_cap b \<noteq> 0 then buf_cap b * 2 else 256"
  have need: "unat ?need = ?n" using fits by (intro need_unat) simp
  have no: "\<not> add > UINT64_MAX - buf_len b - 1" using overflow_check [OF ok] fits by simp
  show ?thesis
  proof (cases "?need \<le> buf_cap b")
    case True
    then have le: "?n \<le> unat (buf_cap b)" using need by (simp add: word_le_nat_alt)
    then have "buf_cap b \<noteq> 0" by auto
    with ok obtain k where k: "8 \<le> k" "k \<le> 63" "unat (buf_cap b) = 2 ^ k" by (auto simp: buf_ok_def)
    have "buf_reserve alloc b add = Some (Inr b)" using no True by (simp add: buf_reserve_def Let_def)
    with le k show ?thesis by (intro exI [of _ "buf_cap b"]) auto
  next
    case False
    then have gt: "unat (buf_cap b) < ?n" using need by (simp add: word_le_nat_alt)
    with fits have "unat (buf_cap b) \<noteq> 2 ^ 63" by simp
    with start_cap [OF ok] obtain k where k: "8 \<le> k" "k \<le> 63" "unat ?c = 2 ^ k"
      "buf_cap b = 0 \<and> k = 8 \<or> 2 ^ (k - 1) = unat (buf_cap b)" by blast
    have "unat ?need \<le> 2 ^ 63" using need fits by simp
    from grow_cap_returns [OF k(3,2) this] obtain j r where
      j: "k \<le> j" "j \<le> 63" "grow_cap ?c ?need = Some r" "unat r = 2 ^ j" "?n \<le> 2 ^ j"
        "j = k \<or> 2 ^ (j - 1) < ?n" unfolding need by blast
    have "r \<noteq> buf_cap b" using gt j(4,5) by auto
    moreover have "buf_reserve alloc b add =
        Some (if alloc r then Inr (b\<lparr>buf_cap := r\<rparr>) else Inl Out_of_memory)"
      using no False j(3) by (simp add: buf_reserve_def Let_def split: if_splits)
    moreover have "8 \<le> j" using k(1) j(1) by simp
    moreover have "(2::nat) ^ j = 2 * 2 ^ (j - 1)" "(2::nat) ^ k = 2 * 2 ^ (k - 1)"
      using j(1) k(1) by (simp_all flip: power_Suc)
    then have "unat r \<le> 256 \<or> unat r \<le> 2 * unat (buf_cap b) \<or> unat r < 2 * ?n"
      using j(4,6) k(4) by auto
    ultimately show ?thesis using j by (intro exI [of _ r]) auto
  qed
qed

lemma reserve_stuck:
  assumes ok: "buf_ok b" and stuck: "2 ^ 63 < unat (buf_len b) + unat add + 1" "unat (buf_len b) + unat add + 1 < 2 ^ 64"
  shows "buf_reserve alloc b add = None"
proof -
  have no: "\<not> add > UINT64_MAX - buf_len b - 1" using overflow_check [OF ok] stuck by simp
  have need: "unat (buf_len b + add + 1) = (unat (buf_len b) + unat add + 1)" using stuck by (intro need_unat)
  then have n63: "2 ^ 63 < unat (buf_len b + add + 1)" using stuck by simp
  have "unat (buf_cap b) \<le> 2 ^ 63"
  proof (cases "buf_cap b = 0")
    case False
    with ok obtain k where "k \<le> 63" "unat (buf_cap b) = 2 ^ k" by (auto simp: buf_ok_def)
    then show ?thesis using power_increasing [of k 63 "2::nat"] by simp
  qed simp
  then have big: "\<not> buf_len b + add + 1 \<le> buf_cap b" using n63 by (simp add: word_le_nat_alt)
  have "grow_cap (if buf_cap b \<noteq> 0 then buf_cap b * 2 else 256) (buf_len b + add + 1) = None"
  proof (cases "unat (buf_cap b) = 2 ^ 63")
    case True
    then have "buf_cap b * 2 = 0" "buf_cap b \<noteq> 0" by (auto intro: double_wraps)
    moreover have "buf_len b + add + 1 \<noteq> 0" using n63 by auto
    ultimately show ?thesis
      using grow_zero [of 0 "buf_len b + add + 1"] by (cases "grow_cap 0 (buf_len b + add + 1)") auto
  next
    case False
    with start_cap [OF ok] obtain k where "k \<le> 63"
      "unat (if buf_cap b \<noteq> 0 then buf_cap b * 2 else 256) = 2 ^ k" by blast
    then show ?thesis using grow_cap_stuck n63 by blast
  qed
  then show ?thesis using no big by (simp add: buf_reserve_def Let_def)
qed

lemma reserve_dies:
  assumes "buf_ok b" and "2 ^ 64 \<le> unat (buf_len b) + unat add + 1"
  shows "buf_reserve alloc b add = Some (Inl Buffer_overflow)"
  using overflow_check [OF assms(1)] assms(2) by (simp add: buf_reserve_def)

lemma reserve_buffer:
  assumes ok: "buf_ok b" and r: "buf_reserve alloc b add = Some (Inr b')"
  shows "contents b' = contents b \<and> buf_len b' = buf_len b \<and> buf_ok b' \<and>
      unat (buf_len b) + unat add < unat (buf_cap b') \<and>
      (unat (buf_cap b') \<le> 256 \<or> unat (buf_cap b') \<le> 2 * unat (buf_cap b) \<or>
       unat (buf_cap b') < 2 * (unat (buf_len b) + unat add + 1))"
proof -
  have fits: "unat (buf_len b) + unat add + 1 \<le> 2 ^ 63"
  proof (rule ccontr)
    assume no: "\<not> ?thesis"
    show False
    proof (cases "2 ^ 64 \<le> unat (buf_len b) + unat add + 1")
      case True
      from reserve_dies [OF ok True, of alloc] r show False by simp
    next
      case False
      with no have "buf_reserve alloc b add = None" by (intro reserve_stuck [OF ok]) simp_all
      with r show False by simp
    qed
  qed
  from reserve_grow [OF ok this] obtain cap where cap: "buf_reserve alloc b add =
      Some (if cap = buf_cap b \<or> alloc cap then Inr (b\<lparr>buf_cap := cap\<rparr>) else Inl Out_of_memory)"
    "unat (buf_len b) + unat add + 1 \<le> unat cap" "\<exists>k. 8 \<le> k \<and> k \<le> 63 \<and> unat cap = 2 ^ k"
    "unat cap \<le> 256 \<or> unat cap \<le> 2 * unat (buf_cap b) \<or>
      unat cap < 2 * (unat (buf_len b) + unat add + 1)" by blast
  have "buf_ok (b\<lparr>buf_cap := cap\<rparr>)"
    using ok cap(2,3) by (auto simp: buf_ok_def split: if_splits)
  with cap r show ?thesis by (auto split: if_splits)
qed

lemma buf_append_ok:
  assumes ok: "buf_ok b" and len: "length s < 2 ^ 64" and r: "buf_append alloc b s = Some (Inr b')"
  shows "buf_ok b' \<and> contents b' = contents b @ s"
proof -
  obtain b1 where b1: "buf_reserve alloc b (of_nat (length s)) = Some (Inr b1)"
    and b': "b' = b1\<lparr>contents := contents b1 @ s, buf_len := buf_len b1 + of_nat (length s)\<rparr>"
    using r by (auto simp: buf_append_def split: option.splits sum.splits)
  have n: "unat (of_nat (length s) :: u64) = length s" using len by (intro unat_of_nat_u64) simp
  note spec = reserve_buffer [OF ok b1, unfolded n]
  have "unat (buf_len b) + length s < 2 ^ 64" using spec unat_u64_less [of "buf_cap b1"] by simp
  then have "unat (buf_len b1 + of_nat (length s)) = unat (buf_len b) + length s"
    using spec n by (subst unat_plus_no_overflow) simp_all
  moreover have "buf_cap b1 \<noteq> 0" using spec by auto
  ultimately show ?thesis using spec ok by (auto simp: buf_ok_def b')
qed

text \<open>
  C31: Reserving room in a well-formed buffer returns exactly when the new size overflows \<open>size_t\<close>, in which case the
  server dies, or is at most 2^63; for sizes in between the doubled capacity wraps to zero and the loop never ends.
  A buffer it returns keeps its text, has room for the new bytes and the NUL, and has grown to at most twice what it
  had or needs.
\<close>

theorem buf_reserve_returns_iff:
  assumes "buf_ok b"
  shows "(buf_reserve alloc b add \<noteq> None \<longleftrightarrow>
      unat (buf_len b) + unat add + 1 \<le> 2 ^ 63 \<or> 2 ^ 64 \<le> unat (buf_len b) + unat add + 1) \<and>
    (\<forall>b'. buf_reserve alloc b add = Some (Inr b') \<longrightarrow>
      contents b' = contents b \<and> buf_len b' = buf_len b \<and> buf_ok b' \<and>
      unat (buf_len b) + unat add < unat (buf_cap b') \<and>
      (unat (buf_cap b') \<le> 256 \<or> unat (buf_cap b') \<le> 2 * unat (buf_cap b) \<or>
       unat (buf_cap b') < 2 * (unat (buf_len b) + unat add + 1)))"
proof (intro conjI allI impI)
  show "buf_reserve alloc b add \<noteq> None \<longleftrightarrow>
      unat (buf_len b) + unat add + 1 \<le> 2 ^ 63 \<or> 2 ^ 64 \<le> unat (buf_len b) + unat add + 1"
  proof (cases "2 ^ 63 < unat (buf_len b) + unat add + 1 \<and> unat (buf_len b) + unat add + 1 < 2 ^ 64")
    case True
    then have "buf_reserve alloc b add = None" by (intro reserve_stuck [OF assms]) simp_all
    with True show ?thesis by simp
  next
    case False
    then have c: "unat (buf_len b) + unat add + 1 \<le> 2 ^ 63 \<or> 2 ^ 64 \<le> unat (buf_len b) + unat add + 1"
      by linarith
    then have "buf_reserve alloc b add \<noteq> None"
      using reserve_grow [OF assms, of add alloc] reserve_dies [OF assms, of add alloc] by auto
    with c show ?thesis by simp
  qed
qed (use reserve_buffer [OF assms] in blast)+

theorem buf_reserve_returns_iff_witness:
  "buf_reserve (\<lambda>_. True) buf_empty (2 ^ 63) = None \<and> buf_reserve (\<lambda>_. True) buf_empty 300 \<noteq> None"
  using buf_reserve_returns_iff [OF buf_ok_empty, of "\<lambda>_. True" "2 ^ 63"]
    buf_reserve_returns_iff [OF buf_ok_empty, of "\<lambda>_. True" 300]
  by (simp add: buf_empty_def)

end
