(* ===== verification/Sha1.thy ===== *)
theory Sha1
  imports Prelude "HOL-Library.Word"
begin

unbundle bit_operations_syntax

text \<open>
  The SHA-1 of the server (\<open>sha1_ctx\<close> and its functions, \<open>ds4_server.c\<close>), which names the checkpoints of the disk
  cache, and the hash of FIPS 180-4 as its reference.

  The two loops of \<open>sha1_update\<close> and \<open>sha1_final\<close> end because the buffer is never full between calls, so they are
  partial functions whose value \<open>None\<close> stands for not returning.
\<close>

section \<open>The code\<close>

record sha1_ctx =
  sha_h :: "u32 list"
  sha_bytes :: u64
  sha_block :: "u8 list"
  sha_used :: nat

definition rol32 :: "u32 \<Rightarrow> nat \<Rightarrow> u32" where
  "rol32 v n = push_bit n v OR drop_bit (32 - n) v"

text \<open>The words of a block, and the message schedule \<open>w\<close> of \<open>sha1_transform\<close>.\<close>

definition block_word :: "u8 list \<Rightarrow> nat \<Rightarrow> u32" where
  "block_word blk i =
     push_bit 24 (ucast (blk ! (i * 4))) OR push_bit 16 (ucast (blk ! (i * 4 + 1)))
     OR push_bit 8 (ucast (blk ! (i * 4 + 2))) OR ucast (blk ! (i * 4 + 3))"

definition schedule_step :: "nat \<Rightarrow> u32 list \<Rightarrow> u32 list" where
  "schedule_step i w = w @ [rol32 (w ! (i - 3) XOR w ! (i - 8) XOR w ! (i - 14) XOR w ! (i - 16)) 1]"

definition sha1_schedule :: "u8 list \<Rightarrow> u32 list" where
  "sha1_schedule blk = fold schedule_step [16..<80] (map (block_word blk) [0..<16])"

text \<open>The working variables \<open>a\<close>, \<open>b\<close>, \<open>cc\<close>, \<open>d\<close>, \<open>e\<close>.\<close>

type_synonym sha1_vars = "u32 \<times> u32 \<times> u32 \<times> u32 \<times> u32"

fun round_f_k :: "nat \<Rightarrow> sha1_vars \<Rightarrow> u32 \<times> u32" where
  "round_f_k i (a, b, cc, d, e) =
     (if i < 20 then ((b AND cc) OR (NOT b AND d), 0x5a827999)
      else if i < 40 then (b XOR cc XOR d, 0x6ed9eba1)
      else if i < 60 then ((b AND cc) OR (b AND d) OR (cc AND d), 0x8f1bbcdc)
      else (b XOR cc XOR d, 0xca62c1d6))"

fun sha1_round :: "u32 list \<Rightarrow> nat \<Rightarrow> sha1_vars \<Rightarrow> sha1_vars" where
  "sha1_round w i (a, b, cc, d, e) =
     (case round_f_k i (a, b, cc, d, e) of
        (f, k) \<Rightarrow> (rol32 a 5 + f + e + k + w ! i, a, rol32 b 30, cc, d))"

definition sha1_transform :: "sha1_ctx \<Rightarrow> u8 list \<Rightarrow> sha1_ctx" where
  "sha1_transform c blk =
     (let w = sha1_schedule blk; h = sha_h c in
      case fold (sha1_round w) [0..<80] (h ! 0, h ! 1, h ! 2, h ! 3, h ! 4) of
        (a, b, cc, d, e) \<Rightarrow> c\<lparr>sha_h := [h ! 0 + a, h ! 1 + b, h ! 2 + cc, h ! 3 + d, h ! 4 + e]\<rparr>)"

definition sha1_init :: sha1_ctx where
  "sha1_init =
     \<lparr>sha_h = [0x67452301, 0xefcdab89, 0x98badcfe, 0x10325476, 0xc3d2e1f0], sha_bytes = 0,
      sha_block = replicate 64 0, sha_used = 0\<rparr>"

text \<open>One turn of the loop of \<open>sha1_update\<close>: \<open>n\<close> bytes are copied behind the used part of the block.\<close>

definition update_step :: "sha1_ctx \<Rightarrow> u8 list \<Rightarrow> nat \<Rightarrow> sha1_ctx" where
  "update_step c p n =
     (let c1 = c\<lparr>sha_block := take (sha_used c) (sha_block c) @ take n p @ drop (sha_used c + n) (sha_block c),
                 sha_used := sha_used c + n\<rparr> in
      if sha_used c1 = 64 then (sha1_transform c1 (sha_block c1))\<lparr>sha_used := 0\<rparr> else c1)"

partial_function (option) update_loop :: "sha1_ctx \<Rightarrow> u8 list \<Rightarrow> sha1_ctx option" where
  "update_loop c p =
     (if p = [] then Some c
      else let n = min (64 - sha_used c) (length p) in update_loop (update_step c p n) (drop n p))"

definition sha1_update :: "sha1_ctx \<Rightarrow> u8 list \<Rightarrow> sha1_ctx option" where
  "sha1_update c p = update_loop (c\<lparr>sha_bytes := sha_bytes c + of_nat (length p)\<rparr>) p"

partial_function (option) pad_loop :: "sha1_ctx \<Rightarrow> sha1_ctx option" where
  "pad_loop c =
     (if sha_used c = 56 then Some c
      else case sha1_update c [0] of None \<Rightarrow> None | Some c1 \<Rightarrow> pad_loop c1)"

declare update_loop.simps [code] pad_loop.simps [code]

text \<open>\<open>len[7 - i]\<close> is byte \<open>i\<close> of the bit count.\<close>

definition length_bytes :: "u64 \<Rightarrow> u8 list" where
  "length_bytes bits = map (\<lambda>j. ucast (drop_bit (8 * (7 - j)) bits)) [0..<8]"

definition word_bytes :: "u32 \<Rightarrow> u8 list" where
  "word_bytes v = [ucast (drop_bit 24 v), ucast (drop_bit 16 v), ucast (drop_bit 8 v), ucast v]"

definition sha1_final :: "sha1_ctx \<Rightarrow> u8 list option" where
  "sha1_final c =
     (let bits = sha_bytes c * 8 in
      case sha1_update c [0x80] of None \<Rightarrow> None
      | Some c1 \<Rightarrow> (case pad_loop c1 of None \<Rightarrow> None
        | Some c2 \<Rightarrow> (case sha1_update c2 (length_bytes bits) of None \<Rightarrow> None
          | Some c3 \<Rightarrow> Some (concat (map (\<lambda>i. word_bytes (sha_h c3 ! i)) [0..<5])))))"

definition hex_digit :: "u8 \<Rightarrow> char" where
  "hex_digit d = ''0123456789abcdef'' ! unat d"

definition hex20 :: "u8 list \<Rightarrow> string" where
  "hex20 d = concat (map (\<lambda>i. [hex_digit (drop_bit 4 (d ! i)), hex_digit (d ! i AND 15)]) [0..<20])"

definition sha1_bytes_hex :: "u8 list \<Rightarrow> string option" where
  "sha1_bytes_hex p =
     (case sha1_update sha1_init p of None \<Rightarrow> None
      | Some c \<Rightarrow> (case sha1_final c of None \<Rightarrow> None | Some digest \<Rightarrow> Some (hex20 digest)))"

section \<open>The standard\<close>

text \<open>Section 4.1.1 and 4.2.1: functions and constants.\<close>

definition fips_f :: "nat \<Rightarrow> u32 \<Rightarrow> u32 \<Rightarrow> u32 \<Rightarrow> u32" where
  "fips_f t x y z =
     (if t \<le> 19 then (x AND y) XOR (NOT x AND z)
      else if 40 \<le> t \<and> t \<le> 59 then (x AND y) XOR (x AND z) XOR (y AND z)
      else x XOR y XOR z)"

definition fips_K :: "nat \<Rightarrow> u32" where
  "fips_K t = [0x5a827999, 0x6ed9eba1, 0x8f1bbcdc, 0xca62c1d6] ! (t div 20)"

text \<open>Section 5.1.1: a one bit, the fewest zero bits that complete a block, and the bit count.\<close>

definition fips_zeros :: "nat \<Rightarrow> nat" where
  "fips_zeros l = (LEAST k. (l + 1 + k) mod 64 = 56)"

definition be_bytes :: "nat \<Rightarrow> nat \<Rightarrow> u8 list" where
  "be_bytes n v = map (\<lambda>i. of_nat (v div 256 ^ (n - 1 - i) mod 256)) [0..<n]"

definition fips_pad :: "u8 list \<Rightarrow> u8 list" where
  "fips_pad m = m @ [0x80] @ replicate (fips_zeros (length m)) 0 @ be_bytes 8 (8 * length m)"

text \<open>Section 6.1.2: the schedule by recursion, eighty rounds, and the sum into the hash value.\<close>

function fips_W :: "u8 list \<Rightarrow> nat \<Rightarrow> u32" where
  "fips_W M t =
     (if t < 16 then word_rcat (take 4 (drop (4 * t) M))
      else word_rotl 1 (fips_W M (t - 3) XOR fips_W M (t - 8) XOR fips_W M (t - 14) XOR fips_W M (t - 16)))"
  by pat_completeness auto
termination by (relation "measure snd") auto

declare fips_W.simps [simp del]

fun fips_rounds :: "u8 list \<Rightarrow> nat \<Rightarrow> sha1_vars \<Rightarrow> sha1_vars" where
  "fips_rounds M 0 v = v"
| "fips_rounds M (Suc t) v =
     (case fips_rounds M t v of (a, b, c, d, e) \<Rightarrow>
        (word_rotl 5 a + fips_f t b c d + e + fips_K t + fips_W M t, a, word_rotl 30 b, c, d))"

fun fips_block :: "u8 list \<Rightarrow> sha1_vars \<Rightarrow> sha1_vars" where
  "fips_block M (h0, h1, h2, h3, h4) =
     (case fips_rounds M 80 (h0, h1, h2, h3, h4) of
        (a, b, c, d, e) \<Rightarrow> (a + h0, b + h1, c + h2, d + h3, e + h4))"

function fips_blocks :: "u8 list \<Rightarrow> sha1_vars \<Rightarrow> sha1_vars" where
  "fips_blocks m v = (if length m < 64 then v else fips_blocks (drop 64 m) (fips_block (take 64 m) v))"
  by pat_completeness auto
termination by (relation "measure (length \<circ> fst)") auto

declare fips_blocks.simps [simp del]

definition fips_sha1 :: "u8 list \<Rightarrow> u8 list" where
  "fips_sha1 m =
     (case fips_blocks (fips_pad m) (0x67452301, 0xefcdab89, 0x98badcfe, 0x10325476, 0xc3d2e1f0) of
        (a, b, c, d, e) \<Rightarrow> concat (map (be_bytes 4 \<circ> unat) [a, b, c, d, e]))"

section \<open>Agreement\<close>

lemma rol32_is_rotl:
  assumes "0 < n" "n < 32"
  shows "rol32 v n = word_rotl n v"
proof (rule bit_word_eqI)
  fix j assume "j < LENGTH(32)"
  then have j: "j < 32" by simp
  have m: "(j + (32 - n)) mod 32 = (if n \<le> j then j - n else j + (32 - n))"
    using assms j by (auto simp: mod_if)
  have n: "n mod 32 = n"
    using assms by simp
  have l: "bit v k \<Longrightarrow> k < 32" for k
    using bit_imp_le_length [of v k] by simp
  have len: "LENGTH(32) = (32 :: nat)"
    by simp
  have "bit (word_rotl n v) j \<longleftrightarrow> (if n \<le> j then bit v (j - n) else bit v (j + (32 - n)))"
    unfolding bit_word_rotl_iff len n m using j by (simp only: split: if_split) blast
  moreover have "bit (rol32 v n) j \<longleftrightarrow> (if n \<le> j then bit v (j - n) else bit v (j + (32 - n)))"
    unfolding rol32_def bit_or_iff bit_push_bit_iff bit_drop_bit_eq o_def possible_bit_word len
    using j assms l [of "j + (32 - n)"] by (cases "n \<le> j") (simp_all only: add.commute, auto)
  ultimately show "bit (rol32 v n) j = bit (word_rotl n v) j"
    by simp
qed

lemma ch_forms: "(x AND y) OR (NOT x AND z) = (x AND y) XOR (NOT x AND z)" for x :: u32
  by (intro bit_word_eqI) (auto simp: bit_simps)

lemma maj_forms: "(x AND y) OR (x AND z) OR (y AND z) = (x AND y) XOR (x AND z) XOR (y AND z)" for x :: u32
  by (intro bit_word_eqI) (auto simp: bit_simps)

lemma f_k_agree:
  assumes "t < 80"
  shows "round_f_k t (a, b, c, d, e) = (fips_f t b c d, fips_K t)"
proof -
  have "t div 20 = (if t < 20 then 0 else if t < 40 then 1 else if t < 60 then 2 else 3)"
    using assms by auto
  then show ?thesis
    using assms by (auto simp: fips_f_def fips_K_def ch_forms maj_forms)
qed

lemma take4: "i * 4 + 3 < length m \<Longrightarrow> take 4 (drop (4 * i) m) = [m ! (i * 4), m ! (i * 4 + 1), m ! (i * 4 + 2), m ! (i * 4 + 3)]"
  by (rule nth_equalityI) (auto simp: less_Suc_eq numeral_eq_Suc algebra_simps nth_Cons')

lemma rcat4:
  "(word_rcat [a, b, c, d] :: u32) =
   push_bit 24 (ucast (a :: u8)) OR push_bit 16 (ucast (b :: u8)) OR push_bit 8 (ucast (c :: u8)) OR ucast (d :: u8)"
proof -
  have or: "x OR y = x + y" if "x AND y = 0" for x y :: u32
    using that by (simp add: disjunctive_add_eq_or)
  have "push_bit 24 (ucast a) OR push_bit 16 (ucast b) OR push_bit 8 (ucast c) OR ucast d
        = push_bit 24 (ucast a) + (push_bit 16 (ucast b) + (push_bit 8 (ucast c) + (ucast d :: u32)))"
    by (subst or, rule bit_word_eqI, simp add: bit_simps, fastforce dest: bit_imp_le_length)+ simp
  then show ?thesis
    by (simp add: word_rcat_def push_bit_eq_mult algebra_simps)
qed

lemma block_word_rcat:
  assumes "i < 16" "length m = 64"
  shows "block_word m i = word_rcat (take 4 (drop (4 * i) m))"
proof -
  have "i * 4 + 3 < length m"
    using assms by simp
  then show ?thesis
    by (simp add: take4 block_word_def rcat4)
qed


section \<open>The rounds\<close>

lemma schedule_fold:
  assumes "length M = 64" "n \<le> 64"
  shows "fold schedule_step [16..<16 + n] (map (block_word M) [0..<16]) = map (fips_W M) [0..<16 + n]"
  using assms(2)
proof (induction n)
  case 0
  show ?case
    using assms(1) by (auto simp: fips_W.simps [of M] block_word_rcat)
next
  case (Suc n)
  have "fips_W M (16 + n) = word_rotl 1 (fips_W M (16 + n - 3) XOR fips_W M (16 + n - 8) XOR fips_W M (16 + n - 14) XOR fips_W M (16 + n - 16))"
    by (subst fips_W.simps) simp
  moreover have "schedule_step (16 + n) (map (fips_W M) [0..<16 + n]) = map (fips_W M) [0..<16 + n] @
      [word_rotl 1 (fips_W M (16 + n - 3) XOR fips_W M (16 + n - 8) XOR fips_W M (16 + n - 14) XOR fips_W M (16 + n - 16))]"
    by (simp add: schedule_step_def rol32_is_rotl del: One_nat_def)
  moreover have "[16..<16 + Suc n] = [16..<16 + n] @ [16 + n]" "[0..<16 + Suc n] = [0..<16 + n] @ [16 + n]"
    by (simp_all only: add_Suc_right upt_Suc le_add1 le0 if_True)
  ultimately show ?case
    using Suc by (simp del: upt_Suc)
qed

lemma sha1_schedule_fips: "length M = 64 \<Longrightarrow> sha1_schedule M = map (fips_W M) [0..<80]"
  using schedule_fold [of M 64] by (simp add: sha1_schedule_def)

lemma rounds_agree:
  assumes "length M = 64" "n \<le> 80"
  shows "fold (sha1_round (map (fips_W M) [0..<80])) [0..<n] v = fips_rounds M n v"
  using assms(2)
proof (induction n)
  case (Suc n)
  obtain a b c d e where v: "fips_rounds M n v = (a, b, c, d, e)"
    by (metis prod_cases5)
  show ?case
    using Suc f_k_agree [of n a b c d e] by (simp add: v rol32_is_rotl del: round_f_k.simps)
qed simp

definition hash_vars :: "sha1_ctx \<Rightarrow> sha1_vars" where
  "hash_vars c = (sha_h c ! 0, sha_h c ! 1, sha_h c ! 2, sha_h c ! 3, sha_h c ! 4)"

lemma transform_is_block:
  assumes "length M = 64"
  shows "hash_vars (sha1_transform c M) = fips_block M (hash_vars c)" "length (sha_h (sha1_transform c M)) = 5"
  using rounds_agree [OF assms, of 80 "hash_vars c"]
  by (auto simp: sha1_transform_def Let_def sha1_schedule_fips [OF assms] hash_vars_def add.commute split: prod.splits)

lemma transform_fields [simp]:
  "sha_bytes (sha1_transform c M) = sha_bytes c" "sha_block (sha1_transform c M) = sha_block c"
  "sha_used (sha1_transform c M) = sha_used c"
  by (auto simp: sha1_transform_def Let_def split: prod.splits)

section \<open>The buffer\<close>

text \<open>A context stands for the bytes it has been given: whole blocks are in the hash value, the rest in the buffer.\<close>

definition ctx_ok :: "sha1_ctx \<Rightarrow> bool" where
  "ctx_ok c \<longleftrightarrow> sha_used c < 64 \<and> length (sha_block c) = 64 \<and> length (sha_h c) = 5"

definition pending :: "sha1_ctx \<Rightarrow> u8 list" where
  "pending c = take (sha_used c) (sha_block c)"

text \<open>What a context hashes when the bytes \<open>m\<close> still come.\<close>

definition value_with :: "sha1_ctx \<Rightarrow> u8 list \<Rightarrow> sha1_vars" where
  "value_with c m = fips_blocks (pending c @ m) (hash_vars c)"

lemma update_step_ok:
  assumes "ctx_ok c" "n = min (64 - sha_used c) (length p)"
  shows "ctx_ok (update_step c p n)" "value_with (update_step c p n) (drop n p @ m) = value_with c (p @ m)"
    "sha_bytes (update_step c p n) = sha_bytes c"
    "sha_used (update_step c p n) = (sha_used c + n) mod 64"
proof -
  let ?b = "take (sha_used c) (sha_block c) @ take n p @ drop (sha_used c + n) (sha_block c)"
  have u: "sha_used c < 64" "length (sha_block c) = 64" "length (sha_h c) = 5"
    using assms(1) by (auto simp: ctx_ok_def)
  have n: "n \<le> length p" "sha_used c + n \<le> 64"
    using assms(2) u by auto
  have b: "length ?b = 64"
    using u n by simp
  show "ctx_ok (update_step c p n)"
    using u n b transform_is_block(2) [OF b] by (auto simp: update_step_def ctx_ok_def Let_def)
  show "sha_bytes (update_step c p n) = sha_bytes c"
    by (simp add: update_step_def Let_def)
  show "sha_used (update_step c p n) = (sha_used c + n) mod 64"
    using n by (auto simp: update_step_def Let_def)
  show "value_with (update_step c p n) (drop n p @ m) = value_with c (p @ m)"
  proof (cases "sha_used c + n = 64")
    case True
    have full: "?b = take (sha_used c) (sha_block c) @ take n p"
      using u True by simp
    have d: "64 - sha_used c = n"
      using True by simp
    have "take 64 (pending c @ p @ m) = ?b" "drop 64 (pending c @ p @ m) = drop n p @ m" "64 \<le> length (pending c @ p @ m)"
      using u n True by (auto simp: pending_def full d)
    then show ?thesis
      using True transform_is_block(1) [OF b]
      by (simp add: value_with_def update_step_def Let_def pending_def hash_vars_def fips_blocks.simps [of "_ @ p @ m"])
  next
    case False
    have "take (sha_used c + n) ?b = pending c @ take n p"
      using u n by (simp add: pending_def)
    then have "pending (update_step c p n) = pending c @ take n p" "hash_vars (update_step c p n) = hash_vars c"
      using False by (simp_all add: update_step_def Let_def pending_def [of "_\<lparr>sha_used := _\<rparr>"] hash_vars_def)
    then show ?thesis
      using append_take_drop_id [of n p] by (metis append_assoc value_with_def)
  qed
qed

lemma update_loop_ok:
  assumes "ctx_ok c"
  shows "\<exists>c1. update_loop c p = Some c1 \<and> ctx_ok c1 \<and> (\<forall>m. value_with c1 m = value_with c (p @ m)) \<and>
           sha_bytes c1 = sha_bytes c \<and> sha_used c1 = (sha_used c + length p) mod 64"
  using assms
proof (induction "length p" arbitrary: c p rule: less_induct)
  case less
  show ?case
  proof (cases "p = []")
    case True
    then show ?thesis
      using less.prems by (auto simp: update_loop.simps [of c] ctx_ok_def)
  next
    case False
    define n where "n = min (64 - sha_used c) (length p)"
    have pos: "length (drop n p) < length p"
      using False less.prems by (auto simp: n_def ctx_ok_def)
    note st = update_step_ok [OF less.prems n_def]
    from less.hyps [OF pos st(1)] obtain c1 where
      c1: "update_loop (update_step c p n) (drop n p) = Some c1" "ctx_ok c1"
        "\<And>m. value_with c1 m = value_with (update_step c p n) (drop n p @ m)"
        "sha_bytes c1 = sha_bytes (update_step c p n)"
        "sha_used c1 = (sha_used (update_step c p n) + length (drop n p)) mod 64"
      by blast
    have le: "n \<le> length p"
      by (simp add: n_def)
    have "update_loop c p = Some c1"
      using False c1(1) by (subst update_loop.simps) (simp add: n_def)
    moreover have "sha_used c1 = (sha_used c + length p) mod 64"
      unfolding c1(5) st(4) mod_add_left_eq using le by simp
    ultimately show ?thesis
      using c1 st by (intro exI [of _ c1]) auto
  qed
qed

lemma sha1_update_ok:
  assumes "ctx_ok c"
  shows "\<exists>c1. sha1_update c p = Some c1 \<and> ctx_ok c1 \<and> (\<forall>m. value_with c1 m = value_with c (p @ m)) \<and>
           sha_bytes c1 = sha_bytes c + of_nat (length p) \<and> sha_used c1 = (sha_used c + length p) mod 64"
  using update_loop_ok [of "c\<lparr>sha_bytes := sha_bytes c + of_nat (length p)\<rparr>" p] assms
  by (simp add: sha1_update_def ctx_ok_def value_with_def pending_def hash_vars_def)


section \<open>The padding\<close>

lemma pad_loop_ok:
  assumes "ctx_ok c" "(sha_used c + k) mod 64 = 56" "\<And>j. j < k \<Longrightarrow> (sha_used c + j) mod 64 \<noteq> 56"
  shows "\<exists>c1. pad_loop c = Some c1 \<and> ctx_ok c1 \<and> (\<forall>m. value_with c1 m = value_with c (replicate k 0 @ m)) \<and>
           sha_used c1 = 56"
  using assms
proof (induction k arbitrary: c)
  case 0
  then show ?case
    by (auto simp: pad_loop.simps [of c] ctx_ok_def)
next
  case (Suc k)
  from sha1_update_ok [OF Suc.prems(1), of "[0]"] obtain c1 where
    c1: "sha1_update c [0] = Some c1" "ctx_ok c1" "\<And>m. value_with c1 m = value_with c ([0] @ m)"
      "sha_used c1 = (sha_used c + 1) mod 64"
    by auto
  have ne: "sha_used c \<noteq> 56"
    using Suc.prems(3) [of 0] by auto
  have s: "(sha_used c1 + j) mod 64 = (sha_used c + Suc j) mod 64" for j
    unfolding c1(4) mod_add_left_eq by simp
  have "\<exists>c2. pad_loop c1 = Some c2 \<and> ctx_ok c2 \<and> (\<forall>m. value_with c2 m = value_with c1 (replicate k 0 @ m)) \<and>
      sha_used c2 = 56"
    using Suc.prems(2,3) by (intro Suc.IH c1(2)) (simp_all only: s Suc_less_eq not_False_eq_True)
  then show ?case
    using c1 ne by (auto simp: pad_loop.simps [of c])
qed

lemma ucast_drop_bit_bytes:
  "ucast (drop_bit k (v :: 'a :: len word)) = (of_nat (unat v div 2 ^ k mod 256) :: u8)"
  unfolding word_unat_eq_iff unsigned_ucast_eq unat_drop_bit_eq unat_of_nat
  by (simp add: drop_bit_eq_div take_bit_eq_mod)

lemma word_bytes_be: "word_bytes v = be_bytes 4 (unat v)"
proof -
  have "ucast v = (of_nat (unat v mod 256) :: u8)"
    using ucast_drop_bit_bytes [of 0 v] by simp
  moreover have "[0..<4] = [0, 1, 2, 3]"
    by (simp add: upt_rec)
  ultimately show ?thesis
    unfolding word_bytes_def be_bytes_def ucast_drop_bit_bytes by simp
qed

lemma low_bytes_of_mod: "m + 8 \<le> 64 \<Longrightarrow> (a mod 2 ^ 64) div 2 ^ m mod 2 ^ 8 = a div 2 ^ m mod (2 :: nat) ^ 8"
  unfolding take_bit_eq_mod [symmetric] drop_bit_eq_div [symmetric]
  by (rule bit_eqI) (auto simp: bit_take_bit_iff bit_drop_bit_eq)

lemma length_bytes_be: "length_bytes (of_nat (8 * n)) = be_bytes 8 (8 * n)"
  unfolding length_bytes_def be_bytes_def ucast_drop_bit_bytes
proof (rule map_cong [OF refl])
  fix j :: nat assume "j \<in> set [0..<8]"
  then have "(8 * n mod 2 ^ 64) div 2 ^ (8 * (7 - j)) mod 2 ^ 8 = 8 * n div 2 ^ (8 * (7 - j)) mod 2 ^ 8"
    by (intro low_bytes_of_mod) auto
  moreover have "unat (of_nat (8 * n) :: u64) = 8 * n mod 2 ^ 64"
    by (simp only: unat_of_nat) simp
  moreover have "(256 :: nat) ^ (8 - 1 - j) = 2 ^ (8 * (7 - j))" "(256 :: nat) = 2 ^ 8"
    by (simp_all add: power_mult)
  ultimately show "(of_nat (unat (of_nat (8 * n) :: u64) div 2 ^ (8 * (7 - j)) mod 256) :: u8)
      = of_nat (8 * n div 256 ^ (8 - 1 - j) mod 256)"
    by metis
qed

section \<open>The hash is the hash of the standard\<close>

lemma fips_zeros_props:
  "(l + 1 + fips_zeros l) mod 64 = 56" "j < fips_zeros l \<Longrightarrow> (l + 1 + j) mod 64 \<noteq> 56"
proof -
  have "(l + 1 + (119 - l mod 64)) mod 64 = 56"
  proof -
    have "l + 1 + (119 - l mod 64) = 64 * (l div 64) + 120"
      using div_mult_mod_eq [of l 64] mod_less_divisor [of 64 l] by linarith
    then show ?thesis by simp
  qed
  then show "(l + 1 + fips_zeros l) mod 64 = 56"
    unfolding fips_zeros_def by (rule LeastI)
  show "j < fips_zeros l \<Longrightarrow> (l + 1 + j) mod 64 \<noteq> 56"
    unfolding fips_zeros_def by (rule not_less_Least)
qed

lemma sha1_init_ok: "ctx_ok sha1_init" "value_with sha1_init m = fips_blocks m (hash_vars sha1_init)"
  "sha_bytes sha1_init = 0" "sha_used sha1_init = 0"
  by (simp_all add: sha1_init_def ctx_ok_def value_with_def pending_def)

lemma sha1_final_ok:
  assumes "ctx_ok c" "sha_used c = n mod 64" "sha_bytes c = of_nat n"
  shows "\<exists>c3. sha1_final c = Some (concat (map (\<lambda>i. word_bytes (sha_h c3 ! i)) [0..<5])) \<and>
           hash_vars c3 = value_with c ([0x80] @ replicate (fips_zeros n) 0 @ be_bytes 8 (8 * n))"
proof -
  obtain c1 where c1: "sha1_update c [0x80] = Some c1" "ctx_ok c1" "\<And>m. value_with c1 m = value_with c ([0x80] @ m)"
    "sha_used c1 = (n + 1) mod 64"
    using sha1_update_ok [OF assms(1), of "[0x80]"] assms(2) by (auto simp: mod_simps)
  have z: "(sha_used c1 + j) mod 64 = (n + 1 + j) mod 64" for j
    unfolding c1(4) mod_add_left_eq ..
  obtain c2 where c2: "pad_loop c1 = Some c2" "ctx_ok c2"
    "\<And>m. value_with c2 m = value_with c1 (replicate (fips_zeros n) 0 @ m)" "sha_used c2 = 56"
    using pad_loop_ok [OF c1(2), of "fips_zeros n", unfolded z] fips_zeros_props by blast
  obtain c3 where c3: "sha1_update c2 (be_bytes 8 (8 * n)) = Some c3" "ctx_ok c3"
    "\<And>m. value_with c3 m = value_with c2 (be_bytes 8 (8 * n) @ m)" "sha_used c3 = 0"
    using sha1_update_ok [OF c2(2), of "be_bytes 8 (8 * n)"] c2(4) by (auto simp: be_bytes_def)
  have "hash_vars c3 = value_with c3 []"
    using c3(4) by (simp add: value_with_def pending_def fips_blocks.simps)
  then have "hash_vars c3 = value_with c ([0x80] @ replicate (fips_zeros n) 0 @ be_bytes 8 (8 * n))"
    using c1(3) c2(3) c3(3) [of "[]"] by simp
  moreover have "sha_bytes c * 8 = of_nat (8 * n)"
    by (simp add: assms(3) mult.commute)
  ultimately show ?thesis
    using c1(1) c2(1) c3(1) length_bytes_be [of n] by (auto simp: sha1_final_def)
qed

text \<open>
  C32: hashing returns for every message, and its result is the digest of FIPS 180-4 in lower case hex: the buffering, the
  padding loop, the in-place rounds and the byte order of the length all agree with the standard's definition.
\<close>

theorem sha1_meets_standard: "sha1_bytes_hex m = Some (hex20 (fips_sha1 m))"
proof -
  obtain c where c: "sha1_update sha1_init m = Some c" "ctx_ok c" "\<And>p. value_with c p = value_with sha1_init (m @ p)"
    "sha_bytes c = of_nat (length m)" "sha_used c = length m mod 64"
    using sha1_update_ok [OF sha1_init_ok(1), of m] by (auto simp: sha1_init_ok)
  obtain c3 where c3: "sha1_final c = Some (concat (map (\<lambda>i. word_bytes (sha_h c3 ! i)) [0..<5]))"
    "hash_vars c3 = value_with c ([0x80] @ replicate (fips_zeros (length m)) 0 @ be_bytes 8 (8 * length m))"
    using sha1_final_ok [OF c(2,5,4)] by blast
  have "hash_vars c3 = fips_blocks (fips_pad m) (hash_vars sha1_init)"
    by (simp add: c3(2) c(3) sha1_init_ok(2) fips_pad_def)
  then have "fips_blocks (fips_pad m) (0x67452301, 0xefcdab89, 0x98badcfe, 0x10325476, 0xc3d2e1f0) =
      (sha_h c3 ! 0, sha_h c3 ! 1, sha_h c3 ! 2, sha_h c3 ! 3, sha_h c3 ! 4)"
    by (simp add: hash_vars_def sha1_init_def)
  then have "fips_sha1 m = concat (map (be_bytes 4 \<circ> unat) [sha_h c3 ! 0, sha_h c3 ! 1, sha_h c3 ! 2, sha_h c3 ! 3, sha_h c3 ! 4])"
    by (simp add: fips_sha1_def)
  moreover have "[0..<5] = [0, 1, 2, 3, 4]"
    by (simp add: upt_rec)
  ultimately show ?thesis
    using c(1) c3(1) by (simp add: sha1_bytes_hex_def word_bytes_be)
qed

end
