(* ===== verification/Kv_File.thy ===== *)
theory Kv_File
  imports Tool_Memory Sha1
begin

text \<open>
  The checkpoint files of the server's disk cache (\<open>ds4_server.c\<close>): the fixed header, the text that names the
  file, and the tool map behind the payload of the engine.

  A file is the list of its bytes; a file opened for reading is the part of it that is still to be read. A file that is
  being written has a number of bytes the device still takes, so that a write can come short.
\<close>

unbundle bit_operations_syntax

section \<open>Bytes\<close>

definition to_bytes :: "string \<Rightarrow> u8 list" where
  "to_bytes s = map (\<lambda>c. of_nat (of_char c)) s"

definition to_text :: "u8 list \<Rightarrow> string" where
  "to_text bs = map (\<lambda>b. char_of (unat b)) bs"

definition le_put32 :: "u32 \<Rightarrow> u8 list" where
  "le_put32 v = [ucast v, ucast (drop_bit 8 v), ucast (drop_bit 16 v), ucast (drop_bit 24 v)]"

definition le_put64 :: "u64 \<Rightarrow> u8 list" where
  "le_put64 v = map (\<lambda>i. ucast (drop_bit (8 * i) v)) [0..<8]"

definition le_get32 :: "u8 list \<Rightarrow> u32" where
  "le_get32 p =
     ucast (p ! 0) OR push_bit 8 (ucast (p ! 1)) OR push_bit 16 (ucast (p ! 2)) OR push_bit 24 (ucast (p ! 3))"

definition le_get64 :: "u8 list \<Rightarrow> u64" where
  "le_get64 p = fold (\<lambda>i v. push_bit 8 v OR ucast (p ! i)) (rev [0..<8]) 0"

definition fread :: "nat \<Rightarrow> u8 list \<Rightarrow> (u8 list \<times> u8 list) option" where
  "fread n f = (if n \<le> length f then Some (take n f, drop n f) else None)"

record out_file =
  written :: "u8 list"
  room :: nat

definition fwrite :: "u8 list \<Rightarrow> out_file \<Rightarrow> out_file \<times> bool" where
  "fwrite bs f =
     (let n = min (length bs) (room f) in
      (f\<lparr>written := written f @ take n bs, room := room f - n\<rparr>, n = length bs))"

text \<open>A chain of writes joined by \<open>&&\<close> ends at the first one that comes short.\<close>

definition then_write :: "out_file \<times> bool \<Rightarrow> u8 list \<Rightarrow> out_file \<times> bool" where
  "then_write fo bs = (case fo of (f, ok) \<Rightarrow> if ok then fwrite bs f else (f, False))"

section \<open>The header\<close>

definition KV_CACHE_FIXED_HEADER :: nat where "KV_CACHE_FIXED_HEADER = 48"

definition KV_EXT_TOOL_MAP :: u8 where "KV_EXT_TOOL_MAP = 1"
definition KV_EXT_RESPONSES_VISIBLE :: u8 where "KV_EXT_RESPONSES_VISIBLE = 2"
definition KV_EXT_THINKING_VISIBLE :: u8 where "KV_EXT_THINKING_VISIBLE = 4"

definition KV_REASON_SHUTDOWN :: u8 where "KV_REASON_SHUTDOWN = 4"

definition kv_reason_code :: "string \<Rightarrow> u8" where
  "kv_reason_code reason =
     (if reason = ''cold'' then 1 else if reason = ''continued'' then 2
      else if reason = ''evict'' then 3 else if reason = ''shutdown'' then KV_REASON_SHUTDOWN else 0)"

record kv_entry =
  ke_sha :: string
  ke_path :: string
  quant_bits :: u8
  reason :: u8
  tokens :: u32
  hits :: u32
  ctx_size :: u32
  ext_flags :: u8
  created_at :: u64
  last_used :: u64
  payload_bytes :: u64
  text_bytes :: u64
  file_size :: u64

definition kv_entry_zero :: kv_entry where
  "kv_entry_zero =
     \<lparr>ke_sha = [], ke_path = [], quant_bits = 0, reason = 0, tokens = 0, hits = 0, ctx_size = 0, ext_flags = 0,
      created_at = 0, last_used = 0, payload_bytes = 0, text_bytes = 0, file_size = 0\<rparr>"

definition put_at :: "nat \<Rightarrow> u8 list \<Rightarrow> u8 list \<Rightarrow> u8 list" where
  "put_at off bs h = take off h @ bs @ drop (off + length bs) h"

text \<open>The fields of the header are the fields of an entry.\<close>

definition kv_fill_header :: "kv_entry \<Rightarrow> u8 list" where
  "kv_fill_header e =
     (let h = replicate KV_CACHE_FIXED_HEADER 0;
          h = put_at 0 [0x4b, 0x56, 0x43, 1, quant_bits e, reason e, ext_flags e] h;
          h = put_at 8 (le_put32 (tokens e)) h;
          h = put_at 12 (le_put32 (hits e)) h;
          h = put_at 16 (le_put32 (ctx_size e)) h;
          h = put_at 24 (le_put64 (created_at e)) h;
          h = put_at 32 (le_put64 (last_used e)) h
      in put_at 40 (le_put64 (payload_bytes e)) h)"

text \<open>The entry of a header, with the number of text bytes behind it and the rest of the file.\<close>

definition kv_read_header :: "u8 list \<Rightarrow> (kv_entry \<times> u32 \<times> u8 list) option" where
  "kv_read_header fp =
     (case fread KV_CACHE_FIXED_HEADER fp of None \<Rightarrow> None
      | Some (h, fp1) \<Rightarrow>
          if h ! 0 \<noteq> 0x4b \<or> h ! 1 \<noteq> 0x56 \<or> h ! 2 \<noteq> 0x43 \<or> h ! 3 \<noteq> 1 then None
          else (case fread 4 fp1 of None \<Rightarrow> None
            | Some (tb, fp2) \<Rightarrow>
                (let e = kv_entry_zero\<lparr>quant_bits := h ! 4,
                       reason := (if h ! 5 \<le> KV_REASON_SHUTDOWN then h ! 5 else 0), ext_flags := h ! 6,
                       tokens := le_get32 (drop 8 h), hits := le_get32 (drop 12 h), ctx_size := le_get32 (drop 16 h),
                       created_at := le_get64 (drop 24 h), last_used := le_get64 (drop 32 h),
                       payload_bytes := le_get64 (drop 40 h), text_bytes := ucast (le_get32 tb)\<rparr> in
                 if tokens e \<noteq> 0 \<and> (quant_bits e = 2 \<or> quant_bits e = 4) then Some (e, le_get32 tb, fp2)
                 else None)))"

section \<open>Tool calls in a text\<close>

definition block_forms :: "(string \<times> string) list" where
  "block_forms =
     concat (map (\<lambda>syn. [([CHR 0x0A, CHR 0x0A] @ tool_calls_start syn, tool_calls_end syn), (tool_calls_start syn, tool_calls_end syn)])
       dsml_syntaxes)"

definition block_form_step :: "string \<Rightarrow> string \<times> string \<Rightarrow> (nat \<times> nat) option \<Rightarrow> (nat \<times> nat) option" where
  "block_form_step p form best =
     (case strstr_pos p (fst form) of None \<Rightarrow> best
      | Some s \<Rightarrow>
          if (case best of None \<Rightarrow> False | Some (b, _) \<Rightarrow> s \<ge> b) then best
          else (case strstr_pos (drop s p) (snd form) of None \<Rightarrow> best
            | Some e \<Rightarrow> Some (s, s + e + length (snd form))))"

text \<open>The offsets of the first block and of its end.\<close>

definition find_next_dsml_tool_block :: "string \<Rightarrow> (nat \<times> nat) option" where
  "find_next_dsml_tool_block p = fold (block_form_step p) block_forms None"

lemma block_form_step_end:
  assumes "\<And>s e. best = Some (s, e) \<Longrightarrow> s < e \<and> e \<le> length p" "0 < length (snd form)"
    and "block_form_step p form best = Some (s, e)"
  shows "s < e \<and> e \<le> length p"
  using assms
  by (auto simp: block_form_step_def strstr_pos_Some_iff split: option.splits if_splits
      dest!: occurs_at_length)

lemma find_block_end:
  assumes "find_next_dsml_tool_block p = Some (s, e)"
  shows "s < e \<and> e \<le> length p"
proof -
  have "s < e \<and> e \<le> length p"
    if "fold (block_form_step p) fs best = Some (s, e)" "\<And>s e. best = Some (s, e) \<Longrightarrow> s < e \<and> e \<le> length p"
      "\<And>f. f \<in> set fs \<Longrightarrow> 0 < length (snd f)" for fs best
    using that
  proof (induction fs arbitrary: best)
    case (Cons f fs)
    show ?case
    proof (rule Cons.IH)
      show "fold (block_form_step p) fs (block_form_step p f best) = Some (s, e)"
        using Cons.prems(1) by simp
      show "\<And>s e. block_form_step p f best = Some (s, e) \<Longrightarrow> s < e \<and> e \<le> length p"
        by (rule block_form_step_end [OF Cons.prems(2) Cons.prems(3)]) simp_all
      show "\<And>g. g \<in> set fs \<Longrightarrow> 0 < length (snd g)"
        using Cons.prems(3) by simp
    qed
  qed simp
  moreover have "f \<in> set block_forms \<Longrightarrow> 0 < length (snd f)" for f
    by (auto simp: block_forms_def tool_calls_end_def)
  ultimately show ?thesis
    using assms unfolding find_next_dsml_tool_block_def by blast
qed

text \<open>The blocks the scanning loops visit.\<close>

function dsml_blocks :: "string \<Rightarrow> string list" where
  "dsml_blocks p =
     (case find_next_dsml_tool_block p of None \<Rightarrow> []
      | Some (s, e) \<Rightarrow> take (e - s) (drop s p) # dsml_blocks (drop e p))"
  by pat_completeness auto
termination
  by (relation "measure length") (auto dest: find_block_end)

declare dsml_blocks.simps [simp del]

definition tool_memory_count_dsml_in_text :: "bool \<Rightarrow> tool_memory \<Rightarrow> string \<Rightarrow> int" where
  "tool_memory_count_dsml_in_text disabled m text =
     (if disabled \<or> text = [] then 0
      else fold (\<lambda>b count. case tool_memory_find_block_locked m b of
          None \<Rightarrow> count | Some q \<Rightarrow> count + b_refs (block m q)) (dsml_blocks (c_str text)) 0)"

section \<open>The tool map\<close>

definition KV_TOOL_MAP_HEADER :: u64 where "KV_TOOL_MAP_HEADER = 8"

definition too_long :: "nat \<Rightarrow> bool" where
  "too_long n \<longleftrightarrow> n > 0xffffffff"

definition mark_seen :: "tool_memory \<Rightarrow> nat \<Rightarrow> u64 \<Rightarrow> tool_memory" where
  "mark_seen m q scan = m\<lparr>block_at := (block_at m)(q \<mapsto> (block m q)\<lparr>b_seen := scan\<rparr>)\<rparr>"

fun measure_entries :: "tool_memory \<Rightarrow> nat \<Rightarrow> nat list \<Rightarrow> u32 \<times> u64 \<Rightarrow> (u32 \<times> u64) option" where
  "measure_entries m q [] cb = Some cb"
| "measure_entries m q (p # ps) (count, n) =
     (let id_len = length (e_id (entry m p)); dsml_len = b_len (block m q) in
      if too_long id_len \<or> too_long dsml_len then measure_entries m q ps (count, n)
      else if count = 0xffffffff then None
      else if UINT64_MAX - n < 8 \<or> UINT64_MAX - n - 8 < of_nat id_len \<or> UINT64_MAX - n - 8 - of_nat id_len < of_nat dsml_len
      then None
      else measure_entries m q ps (count + 1, n + (8 + of_nat id_len + of_nat dsml_len)))"

fun measure_blocks ::
  "u64 \<Rightarrow> tool_memory \<Rightarrow> string list \<Rightarrow> u32 \<times> u64 \<Rightarrow> tool_memory \<times> (u32 \<times> u64) option" where
  "measure_blocks scan m [] cb = (m, Some cb)"
| "measure_blocks scan m (d # ds) cb =
     (case tool_memory_find_block_locked m d of None \<Rightarrow> measure_blocks scan m ds cb
      | Some q \<Rightarrow>
          if b_seen (block m q) = scan then measure_blocks scan m ds cb
          else (case measure_entries m q (b_entries (block m q)) cb of
              None \<Rightarrow> (mark_seen m q scan, None)
            | Some cb1 \<Rightarrow> measure_blocks scan (mark_seen m q scan) ds cb1))"

definition kv_tool_map_measure_locked :: "tool_memory \<Rightarrow> string \<Rightarrow> tool_memory \<times> (u32 \<times> u64) option" where
  "kv_tool_map_measure_locked m text =
     (let scan = scan_clock m + 1 in
      case measure_blocks scan (m\<lparr>scan_clock := scan\<rparr>) (dsml_blocks (c_str text)) (0, KV_TOOL_MAP_HEADER) of
        (m1, None) \<Rightarrow> (m1, None)
      | (m1, Some (count, n)) \<Rightarrow> (m1, Some (count, if count = 0 then 0 else n)))"

definition kv_tool_map_serialized_size :: "bool \<Rightarrow> tool_memory \<Rightarrow> string \<Rightarrow> tool_memory \<times> u64 option" where
  "kv_tool_map_serialized_size disabled m text =
     (if disabled \<or> text = [] then (m, Some 0)
      else (case kv_tool_map_measure_locked m text of (m1, r) \<Rightarrow> (m1, map_option snd r)))"

fun write_entries :: "tool_memory \<Rightarrow> nat \<Rightarrow> nat list \<Rightarrow> out_file \<times> bool \<Rightarrow> out_file \<times> bool" where
  "write_entries m q [] fo = fo"
| "write_entries m q (p # ps) (f, ok) =
     (if \<not> ok then (f, ok)
      else let id = e_id (entry m p); b = block m q in
        if too_long (length id) \<or> too_long (b_len b) then write_entries m q ps (f, ok)
        else write_entries m q ps
          (then_write (then_write (fwrite (le_put32 (of_nat (length id)) @ le_put32 (of_nat (b_len b))) f)
             (to_bytes id)) (to_bytes (b_dsml b))))"

fun write_blocks :: "u64 \<Rightarrow> tool_memory \<Rightarrow> string list \<Rightarrow> out_file \<times> bool \<Rightarrow> tool_memory \<times> out_file \<times> bool" where
  "write_blocks scan m [] fo = (m, fo)"
| "write_blocks scan m (d # ds) fo =
     (if \<not> snd fo then (m, fo)
      else case tool_memory_find_block_locked m d of None \<Rightarrow> write_blocks scan m ds fo
      | Some q \<Rightarrow>
          if b_seen (block m q) = scan then write_blocks scan m ds fo
          else write_blocks scan (mark_seen m q scan) ds (write_entries m q (b_entries (block m q)) fo))"

text \<open>The memory, the file, whether all was written, and the number of bytes written when it was.\<close>

definition kv_tool_map_write ::
  "bool \<Rightarrow> tool_memory \<Rightarrow> string \<Rightarrow> out_file \<Rightarrow> tool_memory \<times> out_file \<times> bool \<times> u64" where
  "kv_tool_map_write disabled m text f =
     (if disabled \<or> text = [] then (m, f, True, 0)
      else case kv_tool_map_measure_locked m text of
        (m1, None) \<Rightarrow> (m1, f, False, 0)
      | (m1, Some (count, n)) \<Rightarrow>
          if count = 0 then (m1, f, True, 0)
          else (let scan = scan_clock m1 + 1 in
            case write_blocks scan (m1\<lparr>scan_clock := scan\<rparr>) (dsml_blocks (c_str text))
                (fwrite ([0x4b, 0x54, 0x4d, 1] @ le_put32 count) f) of
              (m2, f1, ok) \<Rightarrow> (m2, f1, ok, if ok then n else 0)))"

section \<open>Reading the tool map\<close>

definition id_list_contains :: "string list \<Rightarrow> string \<Rightarrow> bool" where
  "id_list_contains ids i \<longleftrightarrow> i \<noteq> [] \<and> i \<in> set ids"

definition id_list_push_unique :: "string list \<Rightarrow> string \<Rightarrow> string list" where
  "id_list_push_unique ids i = (if i = [] \<or> id_list_contains ids i then ids else ids @ [i])"

text \<open>One record of the map: the id and the text, and the rest of the file; \<open>None\<close> where loading stops.\<close>

definition read_record :: "u8 list \<Rightarrow> (string \<times> string \<times> u8 list) option" where
  "read_record fp =
     (case fread 8 fp of None \<Rightarrow> None
      | Some (lens, fp1) \<Rightarrow>
          (let id_len = unat (le_get32 lens); dsml_len = unat (le_get32 (drop 4 lens)) in
           if id_len = 0 \<or> id_len > 256 \<or> dsml_len = 0 \<or> dsml_len > DS4_TOOL_MEMORY_MAX_BYTES then None
           else (case fread id_len fp1 of None \<Rightarrow> None
             | Some (i, fp2) \<Rightarrow> (case fread dsml_len fp2 of None \<Rightarrow> None
               | Some (d, fp3) \<Rightarrow> Some (c_str (to_text i), c_str (to_text d), fp3)))))"

fun load_records ::
  "bool \<Rightarrow> nat \<Rightarrow> tool_memory \<Rightarrow> u8 list \<Rightarrow> string list option \<Rightarrow> int \<Rightarrow> (tool_memory \<times> int) option" where
  "load_records disabled 0 m fp wanted loaded = Some (m, loaded)"
| "load_records disabled (Suc n) m fp wanted loaded =
     (case read_record fp of None \<Rightarrow> Some (m, loaded)
      | Some (i, d, fp1) \<Rightarrow>
          if wanted = None \<or> id_list_contains (the wanted) i then
            (case tool_memory_put_source disabled m i d TOOL_MEMORY_DISK of None \<Rightarrow> None
             | Some m1 \<Rightarrow> load_records disabled n m1 fp1 wanted (loaded + 1))
          else load_records disabled n m fp1 wanted loaded)"

text \<open>\<open>None\<close> is the loop of the memory that would not end.\<close>

definition kv_tool_map_load_from_pos ::
  "bool \<Rightarrow> tool_memory \<Rightarrow> u8 list \<Rightarrow> string list option \<Rightarrow> (tool_memory \<times> int) option" where
  "kv_tool_map_load_from_pos disabled m fp wanted =
     (if disabled then Some (m, 0)
      else case fread 8 fp of None \<Rightarrow> Some (m, 0)
      | Some (h, fp1) \<Rightarrow>
          if h ! 0 \<noteq> 0x4b \<or> h ! 1 \<noteq> 0x54 \<or> h ! 2 \<noteq> 0x4d \<or> h ! 3 \<noteq> 1 then Some (m, 0)
          else (let count = le_get32 (drop 4 h) in
            if (ucast count :: u64) > of_int (tool_memory_max_entries m) * 4 then Some (m, 0)
            else load_records disabled (unat count) m fp1 wanted 0))"

end
