(* ===== verification/Kv_File_Lemmas.thy ===== *)
theory Kv_File_Lemmas
  imports Kv_File Tool_Memory_Spec
begin

text \<open>
  Facts on checkpoint files: the byte order codecs, the header, and what the scans of the tool map write and load.
\<close>

unbundle bit_operations_syntax

section \<open>Codecs\<close>

lemma length_le_put [simp]: "length (le_put32 v) = 4" "length (le_put64 w) = 8"
  by (simp_all add: le_put32_def le_put64_def)

lemma le_get32_put32 [simp]: "le_get32 (le_put32 v @ r) = v"
proof (rule bit_word_eqI)
  fix n assume "n < LENGTH(32)"
  then have n: "n < 32" by simp
  consider "n < 8" | "8 \<le> n" "n < 16" | "16 \<le> n" "n < 24" | "24 \<le> n"
    by linarith
  then show "bit (le_get32 (le_put32 v @ r)) n = bit v n"
    by cases (use n in \<open>auto simp: le_get32_def le_put32_def bit_simps\<close>)
qed

lemma le_get32_put32_all [simp]: "le_get32 (le_put32 v) = v"
  using le_get32_put32 [of v "[]"] by simp

lemma le_put64_list:
  "le_put64 v = [ucast v, ucast (drop_bit 8 v), ucast (drop_bit 16 v), ucast (drop_bit 24 v), ucast (drop_bit 32 v),
     ucast (drop_bit 40 v), ucast (drop_bit 48 v), ucast (drop_bit 56 v)]"
proof -
  have "[0..<8] = [0, 1, 2, 3, 4, 5, 6, 7 :: nat]"
    by (simp add: upt_rec)
  then show ?thesis
    by (simp add: le_put64_def)
qed

lemma le_get64_or:
  "le_get64 p = push_bit 8 (push_bit 8 (push_bit 8 (push_bit 8 (push_bit 8 (push_bit 8 (push_bit 8
     (push_bit 8 0 OR ucast (p ! 7)) OR ucast (p ! 6)) OR ucast (p ! 5)) OR ucast (p ! 4)) OR ucast (p ! 3))
     OR ucast (p ! 2)) OR ucast (p ! 1)) OR ucast (p ! 0)"
proof -
  have "rev [0..<8] = [7, 6, 5, 4, 3, 2, 1, 0 :: nat]"
    by (simp add: upt_rec)
  then show ?thesis
    by (simp add: le_get64_def)
qed

lemma join_byte: "push_bit 8 (drop_bit (k + 8) v) OR ucast (ucast (drop_bit k v) :: u8) = drop_bit k (v :: u64)"
proof (rule bit_word_eqI)
  fix n assume "n < LENGTH(64)"
  then have "n < 64" by simp
  then show "bit (push_bit 8 (drop_bit (k + 8) v) OR ucast (ucast (drop_bit k v) :: u8)) n = bit (drop_bit k v) n"
    by (cases "n < 8") (auto simp: bit_simps add.commute)
qed

lemma le_get64_put64 [simp]: "le_get64 (le_put64 v @ r) = v"
proof -
  have "drop_bit 64 v = 0"
    by (rule bit_word_eqI) (auto simp: bit_simps dest: bit_imp_le_length)
  then show ?thesis
    using join_byte [of 56 v] join_byte [of 48 v] join_byte [of 40 v] join_byte [of 32 v] join_byte [of 24 v]
      join_byte [of 16 v] join_byte [of 8 v] join_byte [of 0 v]
    by (simp add: le_get64_or le_put64_list)
qed

lemma fread_append [simp]: "n = length xs \<Longrightarrow> fread n (xs @ r) = Some (xs, r)"
  by (simp add: fread_def)

lemma byte_char [simp]: "char_of (unat (of_nat (of_char c) :: u8)) = c"
proof -
  have "of_char c < (256 :: nat)"
    by (rule nat_of_char_less_256)
  then show ?thesis
    by (simp add: unat_of_nat)
qed

lemma to_text_to_bytes [simp]: "to_text (to_bytes s) = s"
  by (simp add: to_text_def to_bytes_def comp_def)

lemma length_to_bytes [simp]: "length (to_bytes s) = length s"
  by (simp add: to_bytes_def)

section \<open>The header\<close>

lemma put_at_append: "off = length xs \<Longrightarrow> length old = length bs \<Longrightarrow> put_at off bs (xs @ old @ r) = xs @ bs @ r"
  by (simp add: put_at_def)

lemma kv_fill_header_layout:
  "kv_fill_header e =
     [0x4b, 0x56, 0x43, 1, quant_bits e, reason e, ext_flags e, 0] @ le_put32 (tokens e) @ le_put32 (hits e) @
     le_put32 (ctx_size e) @ [0, 0, 0, 0] @ le_put64 (created_at e) @ le_put64 (last_used e) @
     le_put64 (payload_bytes e)"
proof -
  let ?p = "[0x4b, 0x56, 0x43, 1, quant_bits e, reason e, ext_flags e]"
  let ?m = "?p @ [0]" and ?t = "le_put32 (tokens e)" and ?h = "le_put32 (hits e)" and ?x = "le_put32 (ctx_size e)"
    and ?c = "le_put64 (created_at e)" and ?l = "le_put64 (last_used e)" and ?b = "le_put64 (payload_bytes e)"
  define z4 z8 where z: "z4 = replicate 4 (0 :: u8)" "z8 = replicate 8 (0 :: u8)"
  have len: "length z4 = 4" "length z8 = 8"
    by (simp_all add: z)
  have z0: "replicate KV_CACHE_FIXED_HEADER 0 = [] @ replicate 7 0 @ [0] @ z4 @ z4 @ z4 @ z4 @ z8 @ z8 @ z8"
    by (rule replicate_eqI [symmetric]) (auto simp: KV_CACHE_FIXED_HEADER_def z)
  have s0: "put_at 0 ?p (replicate KV_CACHE_FIXED_HEADER 0) = ?m @ z4 @ (z4 @ z4 @ z4 @ z8 @ z8 @ z8)"
    unfolding z0 by (subst put_at_append) simp_all
  have s1: "put_at 8 ?t (?m @ z4 @ (z4 @ z4 @ z4 @ z8 @ z8 @ z8)) = (?m @ ?t) @ z4 @ (z4 @ z4 @ z8 @ z8 @ z8)"
    by (subst put_at_append) (simp_all add: len)
  have s2: "put_at 12 ?h ((?m @ ?t) @ z4 @ (z4 @ z4 @ z8 @ z8 @ z8)) = (?m @ ?t @ ?h) @ z4 @ (z4 @ z8 @ z8 @ z8)"
    by (subst put_at_append) (simp_all add: len)
  have s3: "put_at 16 ?x ((?m @ ?t @ ?h) @ z4 @ (z4 @ z8 @ z8 @ z8)) = (?m @ ?t @ ?h @ ?x @ z4) @ z8 @ (z8 @ z8)"
    by (subst put_at_append) (simp_all add: len)
  have s4: "put_at 24 ?c ((?m @ ?t @ ?h @ ?x @ z4) @ z8 @ (z8 @ z8)) = (?m @ ?t @ ?h @ ?x @ z4 @ ?c) @ z8 @ z8"
    by (subst put_at_append) (simp_all add: len)
  have s5: "put_at 32 ?l ((?m @ ?t @ ?h @ ?x @ z4 @ ?c) @ z8 @ z8) = (?m @ ?t @ ?h @ ?x @ z4 @ ?c @ ?l) @ z8 @ []"
    by (subst put_at_append) (simp_all add: len)
  have s6: "put_at 40 ?b ((?m @ ?t @ ?h @ ?x @ z4 @ ?c @ ?l) @ z8 @ []) = ?m @ ?t @ ?h @ ?x @ z4 @ ?c @ ?l @ ?b"
    by (subst put_at_append) (simp_all add: len)
  have "z4 = [0, 0, 0, 0]"
    by (simp add: z numeral_eq_Suc)
  then show ?thesis
    unfolding kv_fill_header_def Let_def s0 s1 s2 s3 s4 s5 s6 by simp
qed

lemma length_kv_fill_header [simp]: "length (kv_fill_header e) = 48"
  by (simp add: kv_fill_header_layout)

definition header_ok :: "kv_entry \<Rightarrow> bool" where
  "header_ok e \<longleftrightarrow> tokens e \<noteq> 0 \<and> (quant_bits e = 2 \<or> quant_bits e = 4) \<and> reason e \<le> KV_REASON_SHUTDOWN"

definition stored_fields :: "kv_entry \<Rightarrow> u32 \<Rightarrow> kv_entry" where
  "stored_fields e n = e\<lparr>ke_sha := [], ke_path := [], text_bytes := ucast n, file_size := 0\<rparr>"

lemma kv_read_fill_header:
  assumes "header_ok e"
  shows "kv_read_header (kv_fill_header e @ le_put32 n @ r) = Some (stored_fields e n, n, r)"
proof -
  let ?h = "kv_fill_header e"
  have r: "fread KV_CACHE_FIXED_HEADER (?h @ le_put32 n @ r) = Some (?h, le_put32 n @ r)"
    by (simp add: KV_CACHE_FIXED_HEADER_def)
  have h: "?h ! 0 = 0x4b" "?h ! 1 = 0x56" "?h ! 2 = 0x43" "?h ! 3 = 1" "?h ! 4 = quant_bits e" "?h ! 5 = reason e"
    "?h ! 6 = ext_flags e"
    by (simp_all add: kv_fill_header_layout del: One_nat_def)
  have d: "drop 8 ?h = le_put32 (tokens e) @ drop 12 ?h" "drop 12 ?h = le_put32 (hits e) @ drop 16 ?h"
    "drop 16 ?h = le_put32 (ctx_size e) @ drop 20 ?h" "drop 24 ?h = le_put64 (created_at e) @ drop 32 ?h"
    "drop 32 ?h = le_put64 (last_used e) @ drop 40 ?h" "drop 40 ?h = le_put64 (payload_bytes e) @ []"
    by (simp_all add: kv_fill_header_layout)
  have g: "le_get32 (drop 8 ?h) = tokens e" "le_get32 (drop 12 ?h) = hits e" "le_get32 (drop 16 ?h) = ctx_size e"
    "le_get64 (drop 24 ?h) = created_at e" "le_get64 (drop 32 ?h) = last_used e"
    "le_get64 (drop 40 ?h) = payload_bytes e"
    by (subst d, rule le_get32_put32 le_get64_put64)+
  have t: "le_get32 (le_put32 n) = n"
    using le_get32_put32 [of n "[]"] by simp
  show ?thesis
    using assms unfolding kv_read_header_def r
    by (auto simp: h h(2) [simplified] g t Let_def header_ok_def stored_fields_def kv_entry_zero_def)
qed

section \<open>Writing\<close>

text \<open>A series of writes appends its bytes when they fit, and reports when they do not.\<close>

definition wrote :: "out_file \<times> bool \<Rightarrow> u8 list \<Rightarrow> out_file \<times> bool \<Rightarrow> bool" where
  "wrote fo bs fo' \<longleftrightarrow>
     (snd fo' \<longleftrightarrow> snd fo \<and> length bs \<le> room (fst fo)) \<and>
     (snd fo' \<longrightarrow> written (fst fo') = written (fst fo) @ bs \<and> room (fst fo') = room (fst fo) - length bs)"

lemma wrote_refl: "wrote fo [] fo"
  by (simp add: wrote_def)

lemma wrote_trans: "wrote fo a fo1 \<Longrightarrow> wrote fo1 b fo2 \<Longrightarrow> wrote fo (a @ b) fo2"
  unfolding wrote_def by auto

lemma wrote_then: "wrote fo bs (then_write fo bs)"
  by (auto simp: wrote_def then_write_def fwrite_def Let_def split: prod.splits)

lemma wrote_fwrite: "wrote (f, True) bs (fwrite bs f)"
  using wrote_then [of "(f, True)" bs] by (simp add: then_write_def)

lemma wrote_stop: "\<not> snd fo \<Longrightarrow> wrote fo bs fo"
  by (simp add: wrote_def)

section \<open>Scanning\<close>

text \<open>Marking a block as seen changes nothing else.\<close>

definition same_but_seen :: "tool_memory \<Rightarrow> tool_memory \<Rightarrow> bool" where
  "same_but_seen m m' \<longleftrightarrow>
     (\<exists>c f. m' = m\<lparr>scan_clock := c, block_at := f\<rparr> \<and>
       (\<forall>q. map_option (\<lambda>b. b\<lparr>b_seen := 0\<rparr>) (f q) = map_option (\<lambda>b. b\<lparr>b_seen := 0\<rparr>) (block_at m q)))"

lemma same_but_seen_refl: "same_but_seen m m"
  unfolding same_but_seen_def by (rule exI [of _ "scan_clock m"], rule exI [of _ "block_at m"]) simp

lemma same_but_seen_trans: "same_but_seen a b \<Longrightarrow> same_but_seen b c \<Longrightarrow> same_but_seen a c"
  unfolding same_but_seen_def by force

lemma same_but_seen_clock: "same_but_seen m (m\<lparr>scan_clock := c\<rparr>)"
  unfolding same_but_seen_def by (rule exI [of _ c], rule exI [of _ "block_at m"]) simp

lemma same_but_seen_mark:
  assumes "block_at m q = Some b"
  shows "same_but_seen m (mark_seen m q scan)"
  unfolding same_but_seen_def
  by (rule exI [of _ "scan_clock m"], rule exI [of _ "(block_at m)(q \<mapsto> b\<lparr>b_seen := scan\<rparr>)"])
    (simp add: mark_seen_def assms)

lemma same_but_seen_block:
  assumes "same_but_seen m m'"
  shows "(case block_at m' q of None \<Rightarrow> block_at m q = None
    | Some b' \<Rightarrow> \<exists>b. block_at m q = Some b \<and> b' = b\<lparr>b_seen := b_seen b'\<rparr>)"
proof -
  obtain f where f: "block_at m' = f"
    "map_option (\<lambda>b. b\<lparr>b_seen := 0\<rparr>) (f q) = map_option (\<lambda>b. b\<lparr>b_seen := 0\<rparr>) (block_at m q)"
    using assms by (auto simp: same_but_seen_def)
  show ?thesis
  proof (cases "block_at m q")
    case (Some b)
    with f obtain b' where b': "block_at m' q = Some b'" "b'\<lparr>b_seen := 0\<rparr> = b\<lparr>b_seen := 0\<rparr>"
      by (cases "block_at m' q") auto
    have "b' = (b'\<lparr>b_seen := 0\<rparr>)\<lparr>b_seen := b_seen b'\<rparr>"
      by simp
    also have "\<dots> = b\<lparr>b_seen := b_seen b'\<rparr>"
      unfolding b'(2) by simp
    finally show ?thesis
      using Some b'(1) by simp
  qed (use f in auto)
qed

lemma same_but_seen_fields:
  assumes "same_but_seen m m'"
  shows "by_id m' = by_id m" "by_block m' = by_block m" "entry_at m' = entry_at m" "recency m' = recency m"
    "entries m' = entries m" "max_entries m' = max_entries m" "bytes m' = bytes m" "max_bytes m' = max_bytes m"
    "clock m' = clock m" "fresh_entry m' = fresh_entry m" "fresh_block m' = fresh_block m"
    "dom (block_at m') = dom (block_at m)"
    "block_at m q = Some b \<Longrightarrow> \<exists>b'. block_at m' q = Some b' \<and> b_dsml b' = b_dsml b \<and> b_len b' = b_len b \<and>
       b_bytes b' = b_bytes b \<and> b_refs b' = b_refs b \<and> b_entries b' = b_entries b"
proof -
  show "by_id m' = by_id m" "by_block m' = by_block m" "entry_at m' = entry_at m" "recency m' = recency m"
    "entries m' = entries m" "max_entries m' = max_entries m" "bytes m' = bytes m" "max_bytes m' = max_bytes m"
    "clock m' = clock m" "fresh_entry m' = fresh_entry m" "fresh_block m' = fresh_block m"
    using assms by (auto simp: same_but_seen_def)
  show "dom (block_at m') = dom (block_at m)"
  proof -
    have "block_at m' q = None \<longleftrightarrow> block_at m q = None" for q
      using same_but_seen_block [OF assms, of q] by (auto split: option.splits)
    then show ?thesis by (auto simp: set_eq_iff domIff simp del: not_None_eq)
  qed
  show "block_at m q = Some b \<Longrightarrow> \<exists>b'. block_at m' q = Some b' \<and> b_dsml b' = b_dsml b \<and> b_len b' = b_len b \<and>
       b_bytes b' = b_bytes b \<and> b_refs b' = b_refs b \<and> b_entries b' = b_entries b"
  proof -
    assume b: "block_at m q = Some b"
    with same_but_seen_block [OF assms, of q] obtain b' where b': "block_at m' q = Some b'" "b' = b\<lparr>b_seen := b_seen b'\<rparr>"
      by (auto split: option.splits)
    from arg_cong [OF b'(2), of b_dsml] arg_cong [OF b'(2), of b_len] arg_cong [OF b'(2), of b_bytes]
      arg_cong [OF b'(2), of b_refs] arg_cong [OF b'(2), of b_entries] b'(1)
    show ?thesis by auto
  qed
qed

lemma same_but_seen_inv:
  assumes "tm_inv m xs" "same_but_seen m m'"
  shows "tm_inv m' xs" "memos m' xs = memos m xs"
proof -
  note d = tm_invD [OF assms(1)] and f = same_but_seen_fields [OF assms(2)]
  note b = same_but_seen_block [OF assms(2)]
  show "memos m' xs = memos m xs"
    unfolding memos_def
  proof (rule map_cong [OF refl])
    fix p assume "p \<in> set xs"
    then obtain e where e: "entry_at m p = Some e"
      using d(2) by auto
    then obtain q where q: "block_at m (e_block e) = Some q"
      using d(4) [OF e] by (auto simp: entry_ok_def)
    then show "memo_of m' p = memo_of m p"
      using f(13) [OF q] e by (auto simp: memo_of_def f(3))
  qed
  show "tm_inv m' xs"
  proof (rule tm_invI)
    show "bytes m' = sum_entries m' + sum_blocks m'"
    proof -
      have "sum_blocks m' = sum_blocks m"
        unfolding sum_blocks_def f(12)
      proof (rule sum.cong [OF refl])
        fix q assume "q \<in> dom (block_at m)"
        then obtain b where "block_at m q = Some b" by blast
        with f(13) [OF this] show "b_bytes (block m' q) = b_bytes (block m q)" by auto
      qed
      then show ?thesis
        by (simp add: f d(9) sum_entries_def)
    qed
    show "block_ok m' q c" if "block_at m' q = Some c" for q c
    proof -
      from b [of q] that obtain c0 where c0: "block_at m q = Some c0"
        by auto
      with f(13) [OF c0] that d(5) [OF c0] show ?thesis
        by (auto simp: block_ok_def f)
    qed
    show "entry_ok m' p e" if "entry_at m' p = Some e" for p e
    proof -
      have "entry_ok m p e"
        using that d(4) by (simp add: f)
      moreover have "block_at m' q \<noteq> None \<longleftrightarrow> block_at m q \<noteq> None" for q
        using f(12) by (metis domIff)
      ultimately show ?thesis
        by (simp add: entry_ok_def f(1,11,10))
    qed
    show "\<exists>e. entry_at m' p = Some e \<and> e_id e = i" if "by_id m' i = Some p" for i p
      using that d(6) by (simp add: f(1,3))
    show "\<exists>b. block_at m' q = Some b \<and> b_dsml b = dd" if "by_block m' dd = Some q" for dd q
    proof -
      have "by_block m dd = Some q"
        using that by (simp add: f(2))
      then obtain b where "block_at m q = Some b" "b_dsml b = dd"
        using d(7) by blast
      with f(13) [OF this(1)] show ?thesis by auto
    qed
    show "lru_rep (recency m') xs" "dom (entry_at m') = set xs" "finite (dom (block_at m'))" "entries m' = int (length xs)"
      using d(1,2,3,8) by (simp_all only: f)
  qed
qed

section \<open>What is written\<close>

text \<open>The ids and texts the map of a list of blocks holds, each text once, in the order of the scan.\<close>

fun scan_items :: "tool_memory \<Rightarrow> string list \<Rightarrow> string set \<Rightarrow> (string \<times> string) list" where
  "scan_items m [] D = []"
| "scan_items m (d # ds) D =
     (case tool_memory_find_block_locked m d of None \<Rightarrow> scan_items m ds D
      | Some q \<Rightarrow>
          if d \<in> D then scan_items m ds D
          else map (\<lambda>p. (e_id (entry m p), b_dsml (block m q))) (b_entries (block m q)) @ scan_items m ds (insert d D))"

definition map_items :: "tool_memory \<Rightarrow> string \<Rightarrow> (string \<times> string) list" where
  "map_items m text = scan_items m (dsml_blocks (c_str text)) {}"

definition record_bytes :: "string \<times> string \<Rightarrow> u8 list" where
  "record_bytes x =
     (le_put32 (of_nat (length (fst x))) @ le_put32 (of_nat (length (snd x)))) @ to_bytes (fst x) @ to_bytes (snd x)"

definition records_bytes :: "(string \<times> string) list \<Rightarrow> u8 list" where
  "records_bytes xs = concat (map record_bytes xs)"

definition short_item :: "string \<times> string \<Rightarrow> bool" where
  "short_item x \<longleftrightarrow> \<not> too_long (length (fst x)) \<and> \<not> too_long (length (snd x))"

lemma records_bytes_simps [simp]:
  "records_bytes [] = []" "records_bytes (x # xs) = record_bytes x @ records_bytes xs"
  "records_bytes (xs @ ys) = records_bytes xs @ records_bytes ys"
  by (simp_all add: records_bytes_def)

lemma length_record_bytes: "length (record_bytes x) = 8 + length (fst x) + length (snd x)"
  by (simp add: record_bytes_def)

text \<open>The marks of a scan: the block of a visited text, and no other, has been seen.\<close>

definition marks :: "tool_memory \<Rightarrow> u64 \<Rightarrow> string set \<Rightarrow> bool" where
  "marks m scan D \<longleftrightarrow> (\<forall>q b. block_at m q = Some b \<longrightarrow> (b_seen b = scan \<longleftrightarrow> b_dsml b \<in> D))"

lemma found_block:
  assumes "tm_inv m xs" "tool_memory_find_block_locked m d = Some q"
  shows "\<exists>b. block_at m q = Some b \<and> b_dsml b = d \<and> b_len b = length d"
proof -
  note dd = tm_invD [OF assms(1)]
  from assms(2) have "by_block m d = Some q"
    by (auto simp: tool_memory_find_block_locked_def split: if_splits)
  then obtain b where "block_at m q = Some b" "b_dsml b = d"
    using dd(7) by blast
  then show ?thesis
    using dd(5) by (auto simp: block_ok_def)
qed

lemma marks_mark:
  assumes "tm_inv m xs" "marks m scan D" "block_at m q = Some b"
  shows "marks (mark_seen m q scan) scan (insert (b_dsml b) D)"
  unfolding marks_def
proof (intro allI impI)
  fix q' b' assume b': "block_at (mark_seen m q scan) q' = Some b'"
  show "b_seen b' = scan \<longleftrightarrow> b_dsml b' \<in> insert (b_dsml b) D"
  proof (cases "q' = q")
    case True
    with b' assms(3) show ?thesis by (auto simp: mark_seen_def)
  next
    case False
    then have "block_at m q' = Some b'"
      using b' by (simp add: mark_seen_def)
    moreover have "b_dsml b' \<noteq> b_dsml b"
      using inj_onD [OF texts_inj [OF assms(1)], of q' q] False calculation assms(3) by auto
    ultimately show ?thesis
      using assms(2) by (auto simp: marks_def)
  qed
qed

lemma scan_items_same:
  assumes "tm_inv m xs" "same_but_seen m m'"
  shows "scan_items m' ds D = scan_items m ds D"
proof -
  note f = same_but_seen_fields [OF assms(2)]
  have fb: "tool_memory_find_block_locked m' d = tool_memory_find_block_locked m d" for d
    by (simp add: tool_memory_find_block_locked_def f)
  have "b_dsml (block m' q) = b_dsml (block m q) \<and> b_entries (block m' q) = b_entries (block m q)"
    if "tool_memory_find_block_locked m d = Some q" for d q
    using found_block [OF assms(1) that] f(13) by fastforce
  then show ?thesis
    by (induction ds arbitrary: D) (auto simp: fb f(3) split: option.splits)
qed

lemma write_entries_wrote:
  assumes "\<And>p. p \<in> set ps \<Longrightarrow> short_item (e_id (entry m p), b_dsml (block m q))" "b_len (block m q) = length (b_dsml (block m q))"
  shows "wrote fo (records_bytes (map (\<lambda>p. (e_id (entry m p), b_dsml (block m q))) ps)) (write_entries m q ps fo)"
  using assms(1)
proof (induction ps arbitrary: fo)
  case (Cons p ps)
  obtain f ok where fo: "fo = (f, ok)" by (cases fo)
  show ?case
  proof (cases ok)
    case True
    let ?l = "le_put32 (of_nat (length (e_id (entry m p)))) @ le_put32 (of_nat (b_len (block m q)))"
    have "wrote (f, True) ((?l @ to_bytes (e_id (entry m p))) @ to_bytes (b_dsml (block m q)))
        (then_write (then_write (fwrite ?l f) (to_bytes (e_id (entry m p)))) (to_bytes (b_dsml (block m q))))"
      by (rule wrote_trans [OF wrote_trans [OF wrote_fwrite wrote_then] wrote_then])
    then have "wrote (f, True) (record_bytes (e_id (entry m p), b_dsml (block m q)) @
          records_bytes (map (\<lambda>p. (e_id (entry m p), b_dsml (block m q))) ps))
        (write_entries m q ps (then_write (then_write (fwrite ?l f) (to_bytes (e_id (entry m p)))) (to_bytes (b_dsml (block m q)))))"
      using Cons.prems by (intro wrote_trans [OF _ Cons.IH]) (simp_all add: record_bytes_def assms(2))
    then show ?thesis
      using True Cons.prems [of p] by (simp add: fo Let_def short_item_def assms(2))
  qed (simp add: fo wrote_stop)
qed (simp add: wrote_refl)

lemma write_blocks_wrote:
  assumes "tm_inv m xs" "marks m scan D" "\<And>x. x \<in> set (scan_items m ds D) \<Longrightarrow> short_item x"
    "write_blocks scan m ds fo = (m', fo')"
  shows "same_but_seen m m' \<and> wrote fo (records_bytes (scan_items m ds D)) fo'"
  using assms
proof (induction ds arbitrary: m D fo)
  case Nil
  then show ?case by (auto simp: same_but_seen_refl wrote_refl)
next
  case (Cons d ds)
  show ?case
  proof (cases "snd fo")
    case False
    with Cons.prems(4) show ?thesis by (auto simp: same_but_seen_refl wrote_stop)
  next
    case ok: True
    show ?thesis
    proof (cases "tool_memory_find_block_locked m d")
      case None
      then show ?thesis
        using Cons.IH [OF Cons.prems(1,2), of fo] Cons.prems(3,4) ok by simp
    next
      case (Some q)
      obtain b where b: "block_at m q = Some b" "b_dsml b = d" "b_len b = length d"
        using found_block [OF Cons.prems(1) Some] by blast
      show ?thesis
      proof (cases "d \<in> D")
        case True
        then have "b_seen b = scan"
          using Cons.prems(2) b by (simp add: marks_def)
        then show ?thesis
          using Cons.IH [OF Cons.prems(1,2), of fo] Cons.prems(3,4) ok Some b True by simp
      next
        case False
        then have ns: "b_seen b \<noteq> scan"
          using Cons.prems(2) b by (auto simp: marks_def)
        let ?m = "mark_seen m q scan" and ?fo = "write_entries m q (b_entries b) fo"
        note same = same_but_seen_mark [OF b(1), of scan]
        have items: "scan_items m (d # ds) D = map (\<lambda>p. (e_id (entry m p), d)) (b_entries b) @ scan_items ?m ds (insert d D)"
          using Some False b scan_items_same [OF Cons.prems(1) same] by simp
        have w1: "wrote fo (records_bytes (map (\<lambda>p. (e_id (entry m p), d)) (b_entries b))) ?fo"
          using write_entries_wrote [of "b_entries b" m q fo] Cons.prems(3) b unfolding items by auto
        have "write_blocks scan ?m ds ?fo = (m', fo')"
          using Cons.prems(4) ok Some b ns by simp
        then have "same_but_seen ?m m' \<and> wrote ?fo (records_bytes (scan_items ?m ds (insert d D))) fo'"
          using marks_mark [OF Cons.prems(1,2) b(1)] Cons.prems(3) b(2) unfolding items
          by (intro Cons.IH same_but_seen_inv(1) [OF Cons.prems(1) same]) auto
        then show ?thesis
          using w1 same unfolding items records_bytes_simps by (blast intro: wrote_trans same_but_seen_trans)
      qed
    qed
  qed
qed

section \<open>What is measured\<close>

lemma u64_record_room:
  fixes n :: u64
  assumes "unat n + (8 + i + d) < 18446744073709551616"
  shows "\<not> UINT64_MAX - n < 8" "\<not> UINT64_MAX - n - 8 < of_nat i" "\<not> UINT64_MAX - n - 8 - of_nat i < of_nat d"
    "unat (n + (8 + of_nat i + of_nat d)) = unat n + (8 + i + d)"
proof -
  have u: "unat (of_nat i :: u64) = i" "unat (of_nat d :: u64) = d" "unat (8 :: u64) = 8"
    using assms by (simp_all add: unat_of_nat)
  note s1 = unat_max_minus [of n]
  have s2: "unat (UINT64_MAX - n - 8) = 18446744073709551615 - unat n - 8"
    using assms by (subst unat_sub) (simp_all only: word_le_nat_alt u s1)
  have s3: "unat (UINT64_MAX - n - 8 - of_nat i) = 18446744073709551615 - unat n - 8 - i"
    using assms by (subst unat_sub) (simp_all only: word_le_nat_alt u s2)
  show "\<not> UINT64_MAX - n < 8" "\<not> UINT64_MAX - n - 8 < of_nat i" "\<not> UINT64_MAX - n - 8 - of_nat i < of_nat d"
    using assms by (simp_all only: word_less_nat_alt s1 s2 s3 u not_less)
  have "8 + of_nat i + of_nat d = (of_nat (8 + i + d) :: u64)"
    by simp
  moreover have "unat (of_nat (8 + i + d) :: u64) = 8 + i + d"
    using assms by (simp only: unat_of_nat) simp
  ultimately show "unat (n + (8 + of_nat i + of_nat d)) = unat n + (8 + i + d)"
    using assms by (simp only: unat_word_ariths) simp
qed

lemma measure_entries_exact:
  assumes "\<And>p. p \<in> set ps \<Longrightarrow> short_item (e_id (entry m p), b_dsml (block m q))"
    "b_len (block m q) = length (b_dsml (block m q))"
    "unat c + length ps < 4294967296"
    "unat n + length (records_bytes (map (\<lambda>p. (e_id (entry m p), b_dsml (block m q))) ps)) < 18446744073709551616"
  shows "measure_entries m q ps (c, n) =
    Some (c + of_nat (length ps),
      n + of_nat (length (records_bytes (map (\<lambda>p. (e_id (entry m p), b_dsml (block m q))) ps))))"
  using assms(1,3,4)
proof (induction ps arbitrary: c n)
  case (Cons p ps)
  let ?i = "length (e_id (entry m p))" and ?d = "length (b_dsml (block m q))"
  let ?r = "length (records_bytes (map (\<lambda>p. (e_id (entry m p), b_dsml (block m q))) ps))"
  have sz: "unat n + (8 + ?i + ?d) + ?r < 18446744073709551616" "unat c + Suc (length ps) < 4294967296"
    using Cons.prems(2,3) by (simp_all add: length_record_bytes)
  have short: "\<not> too_long ?i" "\<not> too_long ?d"
    using Cons.prems(1) [of p] by (simp_all add: short_item_def)
  have c: "c \<noteq> 0xffffffff" "unat (c + 1) = unat c + 1"
    using sz(2) by (auto simp: unat_word_ariths)
  have fits: "unat n + (8 + ?i + ?d) < 18446744073709551616"
    using sz(1) by simp
  note room = u64_record_room [OF fits]
  have "measure_entries m q (p # ps) (c, n) = measure_entries m q ps (c + 1, n + (8 + of_nat ?i + of_nat ?d))"
    using short c(1) room by (simp add: Let_def assms(2))
  also have "\<dots> = Some (c + 1 + of_nat (length ps), n + (8 + of_nat ?i + of_nat ?d) + of_nat ?r)"
    using Cons.prems(1) sz c(2) room(4) by (intro Cons.IH) auto
  finally show ?case
    by (simp add: length_record_bytes algebra_simps)
qed simp

definition seen_le :: "tool_memory \<Rightarrow> u64 \<Rightarrow> bool" where
  "seen_le m k \<longleftrightarrow> (\<forall>q b. block_at m q = Some b \<longrightarrow> b_seen b \<le> k)"

lemma seen_le_marks: "seen_le m k \<Longrightarrow> k < k + 1 \<Longrightarrow> marks (m\<lparr>scan_clock := c\<rparr>) (k + 1) {}"
  by (force simp: marks_def seen_le_def)

lemma seen_le_mono: "seen_le m j \<Longrightarrow> j \<le> k \<Longrightarrow> seen_le m k"
  unfolding seen_le_def by (meson order_trans)

lemma measure_blocks_exact:
  assumes "tm_inv m xs" "marks m scan D" "seen_le m scan" "\<And>x. x \<in> set (scan_items m ds D) \<Longrightarrow> short_item x"
    "unat c + length (scan_items m ds D) < 4294967296"
    "unat n + length (records_bytes (scan_items m ds D)) < 18446744073709551616"
  shows "\<exists>m'. measure_blocks scan m ds (c, n) =
      (m', Some (c + of_nat (length (scan_items m ds D)), n + of_nat (length (records_bytes (scan_items m ds D))))) \<and>
    same_but_seen m m' \<and> seen_le m' scan \<and> scan_clock m' = scan_clock m"
  using assms
proof (induction ds arbitrary: m D c n)
  case Nil
  then show ?case by (auto simp: same_but_seen_refl)
next
  case (Cons d ds)
  show ?case
  proof (cases "tool_memory_find_block_locked m d")
    case None
    then show ?thesis
      using Cons.IH [OF Cons.prems(1,2,3)] Cons.prems(4,5,6) by simp
  next
    case (Some q)
    obtain b where b: "block_at m q = Some b" "b_dsml b = d" "b_len b = length d"
      using found_block [OF Cons.prems(1) Some] by blast
    show ?thesis
    proof (cases "d \<in> D")
      case True
      then have "b_seen b = scan"
        using Cons.prems(2) b by (simp add: marks_def)
      then show ?thesis
        using Cons.IH [OF Cons.prems(1,2,3)] Cons.prems(4,5,6) Some b True by simp
    next
      case False
      then have ns: "b_seen b \<noteq> scan"
        using Cons.prems(2) b by (auto simp: marks_def)
      let ?m = "mark_seen m q scan" and ?xs0 = "map (\<lambda>p. (e_id (entry m p), d)) (b_entries b)"
      let ?rest = "scan_items ?m ds (insert d D)"
      note same = same_but_seen_mark [OF b(1), of scan]
      have items: "scan_items m (d # ds) D = ?xs0 @ ?rest"
        using Some False b scan_items_same [OF Cons.prems(1) same] by simp
      have le: "unat c + length ?xs0 + length ?rest < 4294967296"
        "unat n + length (records_bytes ?xs0) + length (records_bytes ?rest) < 18446744073709551616"
        using Cons.prems(5,6) unfolding items by simp_all
      have me: "measure_entries m q (b_entries b) (c, n) = Some (c + of_nat (length ?xs0), n + of_nat (length (records_bytes ?xs0)))"
        using measure_entries_exact [of "b_entries b" m q c n] Cons.prems(4) le b unfolding items by auto
      have u: "unat (c + of_nat (length ?xs0)) = unat c + length ?xs0"
        "unat (n + of_nat (length (records_bytes ?xs0))) = unat n + length (records_bytes ?xs0)"
        using le by (simp_all add: unat_word_ariths unat_of_nat)
      have sl: "seen_le ?m scan"
        using Cons.prems(3) by (auto simp: seen_le_def mark_seen_def)
      obtain m' where m': "measure_blocks scan ?m ds (c + of_nat (length ?xs0), n + of_nat (length (records_bytes ?xs0))) =
          (m', Some (c + of_nat (length ?xs0) + of_nat (length ?rest),
             n + of_nat (length (records_bytes ?xs0)) + of_nat (length (records_bytes ?rest))))"
        "same_but_seen ?m m'" "seen_le m' scan" "scan_clock m' = scan_clock ?m"
        using Cons.IH [OF same_but_seen_inv(1) [OF Cons.prems(1) same] marks_mark [OF Cons.prems(1,2) b(1), unfolded b(2)] sl,
            of "c + of_nat (length ?xs0)" "n + of_nat (length (records_bytes ?xs0))"] Cons.prems(4) le
        unfolding items u by auto
      have "measure_blocks scan m (d # ds) (c, n) =
          (m', Some (c + of_nat (length (?xs0 @ ?rest)), n + of_nat (length (records_bytes (?xs0 @ ?rest)))))"
        using Some b ns me m'(1) by (simp add: algebra_simps)
      then show ?thesis
        using m'(2,3,4) same_but_seen_trans [OF same m'(2)] unfolding items by (auto simp: mark_seen_def)
    qed
  qed
qed

section \<open>The map as a whole\<close>

definition map_bytes :: "(string \<times> string) list \<Rightarrow> u8 list" where
  "map_bytes xs =
     (if xs = [] then [] else ([0x4b, 0x54, 0x4d, 1] @ le_put32 (of_nat (length xs))) @ records_bytes xs)"

text \<open>No block carries a mark of a scan to come.\<close>

definition scans_left :: "tool_memory \<Rightarrow> bool" where
  "scans_left m \<longleftrightarrow> seen_le m (scan_clock m) \<and> scan_clock m < UINT64_MAX - 1"

definition writable :: "(string \<times> string) list \<Rightarrow> bool" where
  "writable xs \<longleftrightarrow> (\<forall>x \<in> set xs. short_item x) \<and> length xs < 4294967296 \<and>
     length (records_bytes xs) + 8 < 18446744073709551616"

lemma map_items_Nil [simp]: "map_items m [] = []"
proof -
  have "strstr_pos [] (tool_calls_start syn) = None" "strstr_pos [] (x # tool_calls_start syn) = None" for syn x
    by (simp_all add: tool_calls_start_def)
  then have "find_next_dsml_tool_block [] = None"
    by (simp add: find_next_dsml_tool_block_def block_forms_def dsml_syntaxes_def block_form_step_def)
  then show ?thesis
    by (simp add: map_items_def dsml_blocks.simps c_str_def)
qed

lemma kv_tool_map_measure_exact:
  assumes "tm_inv m xs" "scans_left m" "writable (map_items m text)"
  shows "\<exists>m'. kv_tool_map_measure_locked m text =
      (m', Some (of_nat (length (map_items m text)), of_nat (length (map_bytes (map_items m text))))) \<and>
    same_but_seen m m' \<and> seen_le m' (scan_clock m + 1) \<and> scan_clock m' = scan_clock m + 1"
proof -
  let ?s = "scan_clock m + 1" and ?m = "m\<lparr>scan_clock := scan_clock m + 1\<rparr>" and ?xs0 = "map_items m text"
  have clock: "scan_clock m < ?s" "scan_clock m \<le> ?s"
    using assms(2) by (auto simp: scans_left_def word_less_nat_alt word_le_nat_alt unat_word_ariths)
  note same = same_but_seen_clock [of m ?s]
  have sc: "scan_items ?m (dsml_blocks (c_str text)) {} = ?xs0"
    using scan_items_same [OF assms(1) same] by (simp add: map_items_def)
  have mk: "marks ?m ?s {}"
    using assms(2) clock by (intro seen_le_marks) (simp_all add: scans_left_def)
  have sl: "seen_le ?m ?s"
    using assms(2) clock(2) by (auto simp: scans_left_def seen_le_def intro: order_trans)
  obtain m' where m': "measure_blocks ?s ?m (dsml_blocks (c_str text)) (0, 8) =
      (m', Some (0 + of_nat (length ?xs0), 8 + of_nat (length (records_bytes ?xs0))))"
    "same_but_seen ?m m'" "seen_le m' ?s" "scan_clock m' = ?s"
    using measure_blocks_exact [OF same_but_seen_inv(1) [OF assms(1) same] mk sl, of "dsml_blocks (c_str text)" 0 8]
      assms(3) unfolding sc writable_def by auto
  have "(of_nat (length ?xs0) :: u32) = 0 \<longleftrightarrow> ?xs0 = []"
    using assms(3) by (auto simp: writable_def unat_eq_0 [symmetric] unat_of_nat)
  then show ?thesis
    using m' same_but_seen_trans [OF same m'(2)]
    by (auto simp: kv_tool_map_measure_locked_def KV_TOOL_MAP_HEADER_def map_bytes_def Let_def)
qed

lemma kv_tool_map_write_exact:
  assumes "tm_inv m xs" "scans_left m" "writable (map_items m text)"
    "kv_tool_map_write False m text f = (m', f', ok, n)"
  shows "same_but_seen m m' \<and> wrote (f, True) (map_bytes (map_items m text)) (f', ok) \<and>
    n = (if ok then of_nat (length (map_bytes (map_items m text))) else 0)"
proof (cases "text = []")
  case True
  then show ?thesis
    using assms(4) by (auto simp: kv_tool_map_write_def same_but_seen_refl map_bytes_def wrote_refl)
next
  case nonempty: False
  let ?xs0 = "map_items m text"
  obtain m1 where m1: "kv_tool_map_measure_locked m text =
      (m1, Some (of_nat (length ?xs0), of_nat (length (map_bytes ?xs0))))" "same_but_seen m m1"
    "seen_le m1 (scan_clock m + 1)" "scan_clock m1 = scan_clock m + 1"
    using kv_tool_map_measure_exact [OF assms(1,2,3)] by blast
  have count: "(of_nat (length ?xs0) :: u32) = 0 \<longleftrightarrow> ?xs0 = []"
    using assms(3) by (auto simp: writable_def unat_eq_0 [symmetric] unat_of_nat)
  show ?thesis
  proof (cases "?xs0 = []")
    case True
    then show ?thesis
      using assms(4) nonempty m1 by (auto simp: kv_tool_map_write_def map_bytes_def wrote_refl)
  next
    case False
    let ?s = "scan_clock m1 + 1" and ?m = "m1\<lparr>scan_clock := scan_clock m1 + 1\<rparr>"
    let ?h = "[0x4b, 0x54, 0x4d, 1] @ le_put32 (of_nat (length ?xs0))"
    note same = same_but_seen_trans [OF m1(2) same_but_seen_clock [of m1 ?s]]
    have "scan_clock m + 1 < scan_clock m + 1 + 1"
      using assms(2) by (auto simp: scans_left_def word_less_nat_alt unat_word_ariths)
    then have mk: "marks ?m ?s {}"
      using m1(3,4) by (intro seen_le_marks) simp_all
    have sc: "scan_items ?m (dsml_blocks (c_str text)) {} = ?xs0"
      using scan_items_same [OF assms(1) same] by (simp add: map_items_def)
    obtain m2 f2 ok2 where w: "write_blocks ?s ?m (dsml_blocks (c_str text)) (fwrite ?h f) = (m2, f2, ok2)"
      by (metis prod_cases3)
    have "same_but_seen ?m m2 \<and> wrote (fwrite ?h f) (records_bytes ?xs0) (f2, ok2)"
      using write_blocks_wrote [OF same_but_seen_inv(1) [OF assms(1) same] mk _ w] assms(3)
      unfolding sc writable_def by blast
    moreover have "m' = m2" "f' = f2" "ok = ok2" "n = (if ok2 then of_nat (length (map_bytes ?xs0)) else 0)"
      using assms(4) nonempty m1(1) count False w by (auto simp: kv_tool_map_write_def Let_def split: if_splits)
    moreover have "wrote (f, True) (map_bytes ?xs0) (f2, ok2)"
      using wrote_trans [OF wrote_fwrite [of f ?h], of "records_bytes ?xs0"] calculation(1) False
      by (simp add: map_bytes_def)
    ultimately show ?thesis
      using same_but_seen_trans [OF same] by blast
  qed
qed

section \<open>What is loaded\<close>

definition loadable :: "string \<times> string \<Rightarrow> bool" where
  "loadable x \<longleftrightarrow> fst x \<noteq> [] \<and> length (fst x) \<le> 256 \<and> NUL \<notin> set (fst x) \<and>
     snd x \<noteq> [] \<and> length (snd x) \<le> DS4_TOOL_MEMORY_MAX_BYTES \<and> NUL \<notin> set (snd x)"

lemma loadable_short: "loadable x \<Longrightarrow> short_item x"
  by (auto simp: loadable_def short_item_def too_long_def DS4_TOOL_MEMORY_MAX_BYTES_def)

lemma read_record_bytes:
  assumes "loadable (i, d)"
  shows "read_record (record_bytes (i, d) @ r) = Some (i, d, r)"
proof -
  let ?l = "le_put32 (of_nat (length i)) @ le_put32 (of_nat (length d))"
  have f: "fread 8 (record_bytes (i, d) @ r) = Some (?l, to_bytes i @ to_bytes d @ r)"
    by (simp add: record_bytes_def fread_def)
  have "drop 4 ?l = le_put32 (of_nat (length d)) @ []"
    by simp
  then have g: "le_get32 ?l = of_nat (length i)" "le_get32 (drop 4 ?l) = of_nat (length d)"
    by (simp_all only: le_get32_put32)
  have u: "unat (of_nat (length i) :: u32) = length i" "unat (of_nat (length d) :: u32) = length d"
    using assms by (simp_all add: loadable_def unat_of_nat DS4_TOOL_MEMORY_MAX_BYTES_def)
  show ?thesis
    using assms unfolding read_record_def f
    by (simp add: g u Let_def loadable_def c_str_no_nul)
qed

definition load_memos :: "int \<Rightarrow> nat \<Rightarrow> (string \<times> string) list \<Rightarrow> memo list \<Rightarrow> memo list" where
  "load_memos mx mb xs l = fold (\<lambda>(i, d) l. memo_put mx mb l i d TOOL_MEMORY_DISK) xs l"

lemma load_records_all:
  assumes "tm_inv m ys" "\<forall>x \<in> set xs. loadable x"
  shows "\<exists>m' zs. load_records False (length xs) m (records_bytes xs @ r) None n = Some (m', n + int (length xs)) \<and>
    tm_inv m' zs \<and> memos m' zs = load_memos (tool_memory_max_entries m) (tool_memory_max_bytes m) xs (memos m ys) \<and>
    limits_kept m m'"
  using assms
proof (induction xs arbitrary: m ys n)
  case (Cons x xs)
  obtain i d where x: "x = (i, d)" by (cases x)
  obtain m1 zs where m1: "tool_memory_put_locked m i d TOOL_MEMORY_DISK = Some m1" "tm_inv m1 zs"
    "memos m1 zs = memo_put (tool_memory_max_entries m) (tool_memory_max_bytes m) (memos m ys) i d TOOL_MEMORY_DISK"
    "limits_kept m m1"
    using put_refines [OF Cons.prems(1), of i d TOOL_MEMORY_DISK] by blast
  obtain m' zs' where "load_records False (length xs) m1 (records_bytes xs @ r) None (n + 1) = Some (m', n + 1 + int (length xs))"
    "tm_inv m' zs'" "memos m' zs' = load_memos (tool_memory_max_entries m1) (tool_memory_max_bytes m1) xs (memos m1 zs)"
    "limits_kept m1 m'"
    using Cons.IH [OF m1(2), of "n + 1"] Cons.prems(2) by auto
  moreover have "load_records False (length (x # xs)) m (records_bytes (x # xs) @ r) None n =
      load_records False (length xs) m1 (records_bytes xs @ r) None (n + 1)"
    using read_record_bytes [of i d] Cons.prems(2) m1(1) by (simp add: x tool_memory_put_source_def loadable_def)
  ultimately show ?case
    using m1(3,4) limits_kept_eq [OF m1(4)]
    by (intro exI [of _ m'] exI [of _ zs']) (simp add: load_memos_def x)
qed (auto simp: load_memos_def)

lemma kv_tool_map_load_all:
  assumes "tm_inv m ys" "\<forall>x \<in> set xs. loadable x" "int (length xs) \<le> tool_memory_max_entries m * 4"
    "tool_memory_max_entries m < 2147483648" "length xs < 4294967296"
  shows "\<exists>m' zs. kv_tool_map_load_from_pos False m (map_bytes xs) None = Some (m', int (length xs)) \<and>
    tm_inv m' zs \<and> memos m' zs = load_memos (tool_memory_max_entries m) (tool_memory_max_bytes m) xs (memos m ys) \<and>
    limits_kept m m'"
proof (cases "xs = []")
  case True
  then show ?thesis
    using assms(1) by (auto simp: kv_tool_map_load_from_pos_def map_bytes_def fread_def load_memos_def)
next
  case False
  let ?h = "[0x4b, 0x54, 0x4d, 1] @ le_put32 (of_nat (length xs))"
  have h: "fread 8 (map_bytes xs) = Some (?h, records_bytes xs)"
    using False by (simp add: map_bytes_def fread_def)
  have "drop 4 ?h = le_put32 (of_nat (length xs)) @ []"
    by simp
  then have c: "le_get32 (drop 4 ?h) = of_nat (length xs)"
    by (simp only: le_get32_put32)
  have mx: "0 < tool_memory_max_entries m"
    by (simp add: tool_memory_max_entries_def DS4_TOOL_MEMORY_DEFAULT_MAX_IDS_def)
  have n: "unat (of_nat (length xs) :: u32) = length xs"
    using assms(5) by (simp only: unat_of_nat) simp
  have "unat (of_int (tool_memory_max_entries m) * 4 :: u64) = nat (tool_memory_max_entries m * 4)"
  proof -
    have "of_int (tool_memory_max_entries m) * 4 = (of_nat (nat (tool_memory_max_entries m * 4)) :: u64)"
      using mx by (simp add: of_nat_nat)
    then show ?thesis
      using mx assms(4) by (simp only: unat_of_nat) simp
  qed
  moreover have "unat (ucast (of_nat (length xs) :: u32) :: u64) = length xs"
    using assms(5) n by (simp add: unsigned_ucast_eq take_bit_nat_eq_self)
  ultimately have le: "\<not> (ucast (of_nat (length xs) :: u32) :: u64) > of_int (tool_memory_max_entries m) * 4"
    using assms(3) mx by (simp add: word_less_nat_alt le_nat_iff)
  have "kv_tool_map_load_from_pos False m (map_bytes xs) None =
      load_records False (length xs) m (records_bytes xs @ []) None 0"
    using le unfolding kv_tool_map_load_from_pos_def h by (simp add: c n Let_def)
  then show ?thesis
    using load_records_all [OF assms(1,2), of "[]" 0] by simp
qed

section \<open>The items are the remembered calls of the text\<close>

lemma find_block_iff:
  assumes "tm_inv m xs"
  shows "tool_memory_find_block_locked m d = Some q \<longleftrightarrow> (\<exists>b. block_at m q = Some b \<and> b_dsml b = d)"
proof
  note dd = tm_invD [OF assms]
  assume "\<exists>b. block_at m q = Some b \<and> b_dsml b = d"
  then obtain b where "block_at m q = Some b" "b_dsml b = d" by blast
  with dd(5) show "tool_memory_find_block_locked m d = Some q"
    by (auto simp: block_ok_def tool_memory_find_block_locked_def)
qed (use found_block [OF assms] in blast)

lemma set_scan_items:
  assumes "tm_inv m xs"
  shows "set (scan_items m ds D) = {(i, d). d \<in> set ds - D \<and> (\<exists>s. (i, d, s) \<in> set (memos m xs))}"
proof -
  note dd = tm_invD [OF assms]
  have items: "set (map (\<lambda>p. (e_id (entry m p), d)) (b_entries b)) = {(i, d'). d' = d \<and> (\<exists>s. (i, d, s) \<in> set (memos m xs))}"
    if b: "block_at m q = Some b" "b_dsml b = d" for q b d
  proof -
    have bo: "block_ok m q b"
      using dd(5) b(1) by blast
    have mem: "p \<in> set (b_entries b) \<longleftrightarrow> p \<in> set xs \<and> b_dsml (block m (e_block (entry m p))) = d" for p
    proof
      assume "p \<in> set (b_entries b)"
      then obtain e where "entry_at m p = Some e" "e_block e = q"
        using bo by (auto simp: block_ok_def)
      then show "p \<in> set xs \<and> b_dsml (block m (e_block (entry m p))) = d"
        using dd(2) b by auto
    next
      assume p: "p \<in> set xs \<and> b_dsml (block m (e_block (entry m p))) = d"
      then obtain e where e: "entry_at m p = Some e"
        using dd(2) by auto
      then obtain b' where b': "block_at m (e_block e) = Some b'"
        using dd(4) [OF e] by (auto simp: entry_ok_def)
      then have "e_block e = q"
        using inj_onD [OF texts_inj [OF assms], of "e_block e" q] p e b by auto
      then show "p \<in> set (b_entries b)"
        using bo e by (auto simp: block_ok_def)
    qed
    have "(i, d, s) \<in> set (memos m xs) \<longleftrightarrow> (\<exists>p \<in> set (b_entries b). i = e_id (entry m p) \<and> s = e_source (entry m p))" for i s
      using mem by (auto simp: memos_def memo_of_def Let_def)
    then show ?thesis
      by auto
  qed
  have none: "(i, d, s) \<notin> set (memos m xs)" if "tool_memory_find_block_locked m d = None" for i d s
  proof
    assume "(i, d, s) \<in> set (memos m xs)"
    then obtain p where p: "p \<in> set xs" "b_dsml (block m (e_block (entry m p))) = d"
      by (auto simp: memos_def memo_of_def Let_def)
    then obtain e b where "entry_at m p = Some e" "block_at m (e_block e) = Some b"
      using dd(2,4) by (force simp: entry_ok_def)
    then have "tool_memory_find_block_locked m d = Some (e_block e)"
      using p(2) by (simp add: find_block_iff [OF assms])
    with that show False by simp
  qed
  show ?thesis
  proof (induction ds arbitrary: D)
    case (Cons d ds)
    show ?case
    proof (cases "tool_memory_find_block_locked m d")
      case None
      then show ?thesis
        using none [OF None] by (auto simp: Cons.IH)
    next
      case (Some q)
      obtain b where b: "block_at m q = Some b" "b_dsml b = d"
        using found_block [OF assms Some] by blast
      show ?thesis
      proof (cases "d \<in> D")
        case True
        with Some show ?thesis by (auto simp: Cons.IH)
      next
        case False
        with Some items [OF b] b show ?thesis by (auto simp: Cons.IH)
      qed
    qed
  qed simp
qed

end
