(* ===== verification/Kv_File_Properties.thy ===== *)
theory Kv_File_Properties
  imports Kv_File_Lemmas Tool_Memory_Properties
begin

text \<open>The round trip of the tool map of a checkpoint file.\<close>

lemma distinct_scan_items:
  assumes "tm_inv m xs"
  shows "distinct (scan_items m ds D)"
proof (induction ds arbitrary: D)
  case (Cons d ds)
  note dd = tm_invD [OF assms]
  show ?case
  proof (cases "tool_memory_find_block_locked m d")
    case (Some q)
    obtain b where b: "block_at m q = Some b" "b_dsml b = d"
      using found_block [OF assms Some] by blast
    have bo: "block_ok m q b"
      using dd(5) b(1) by blast
    have "inj_on (\<lambda>p. e_id (entry m p)) (set (b_entries b))"
    proof (rule inj_onI)
      fix p p' assume "p \<in> set (b_entries b)" "p' \<in> set (b_entries b)" and eq: "e_id (entry m p) = e_id (entry m p')"
      then obtain e e' where e: "entry_at m p = Some e" "entry_at m p' = Some e'"
        using bo unfolding block_ok_def by blast
      with dd(4) [OF e(1)] dd(4) [OF e(2)] eq show "p = p'"
        by (simp add: entry_ok_def)
    qed
    then have "distinct (map (\<lambda>p. (e_id (entry m p), d)) (b_entries b))"
      using bo by (auto simp: distinct_map block_ok_def inj_on_def)
    moreover have "(i, d) \<notin> set (scan_items m ds (insert d D))" for i
      unfolding set_scan_items [OF assms] by simp
    ultimately show ?thesis
      using Some b Cons.IH [of D] Cons.IH [of "insert d D"] by (auto simp: disjoint_iff)
  qed (use Cons.IH in simp)
qed simp

section \<open>The tool blocks of a text\<close>

text \<open>
  The markers of a block, in three spellings and with or without a blank line before; where the block of
  one spelling begins and ends; and the blocks of a text, each the first that begins behind the one before.
\<close>

definition block_markers :: "(string \<times> string) set" where
  "block_markers =
     (\<Union>syn. {([CHR 0x0A, CHR 0x0A] @ tool_calls_start syn, tool_calls_end syn), (tool_calls_start syn, tool_calls_end syn)})"

definition marked_block :: "string \<Rightarrow> string \<times> string \<Rightarrow> nat \<Rightarrow> nat \<Rightarrow> bool" where
  "marked_block p f s e \<longleftrightarrow>
     occurs_at p (fst f) s \<and> (\<forall>q < s. \<not> occurs_at p (fst f) q) \<and>
     (\<exists>k. s \<le> k \<and> occurs_at p (snd f) k \<and> (\<forall>q. s \<le> q \<and> q < k \<longrightarrow> \<not> occurs_at p (snd f) q) \<and>
        e = k + length (snd f))"

definition first_block :: "string \<Rightarrow> nat \<Rightarrow> nat \<Rightarrow> bool" where
  "first_block p s e \<longleftrightarrow>
     (\<exists>f \<in> block_markers. marked_block p f s e) \<and>
     (\<forall>f \<in> block_markers. \<forall>s' e'. marked_block p f s' e' \<longrightarrow> s \<le> s')"

inductive tool_blocks :: "string \<Rightarrow> string list \<Rightarrow> bool" where
  no_block: "\<nexists>s e. first_block p s e \<Longrightarrow> tool_blocks p []"
| next_block: "first_block p s e \<Longrightarrow> tool_blocks (drop e p) bs \<Longrightarrow>
    tool_blocks p (take (e - s) (drop s p) # bs)"

inductive_cases tool_blocksE: "tool_blocks p bs"

lemma marked_block_iff:
  "marked_block p f s e \<longleftrightarrow> (\<exists>k. strstr_pos p (fst f) = Some s \<and>
     strstr_pos (drop s p) (snd f) = Some k \<and> e = s + k + length (snd f))"
proof (cases "s \<le> length p")
  case True
  have "(\<exists>k. s \<le> k \<and> occurs_at p (snd f) k \<and> (\<forall>q. s \<le> q \<and> q < k \<longrightarrow> \<not> occurs_at p (snd f) q) \<and>
        e = k + length (snd f)) \<longleftrightarrow>
      (\<exists>j. occurs_at p (snd f) (s + j) \<and> (\<forall>i < j. \<not> occurs_at p (snd f) (s + i)) \<and> e = s + j + length (snd f))"
    (is "?A \<longleftrightarrow> ?B")
  proof
    assume ?A
    then obtain k where k: "s \<le> k" "occurs_at p (snd f) k" "\<And>q. s \<le> q \<Longrightarrow> q < k \<Longrightarrow> \<not> occurs_at p (snd f) q"
      "e = k + length (snd f)" by blast
    then show ?B by (intro exI [of _ "k - s"]) auto
  next
    assume ?B
    then obtain j where j: "occurs_at p (snd f) (s + j)" "\<And>i. i < j \<Longrightarrow> \<not> occurs_at p (snd f) (s + i)"
      "e = s + j + length (snd f)" by blast
    have "\<not> occurs_at p (snd f) q" if "s \<le> q" "q < s + j" for q
      using j(2) [of "q - s"] that by simp
    then show ?A using j by (intro exI [of _ "s + j"]) auto
  qed
  then show ?thesis
    by (auto simp: marked_block_def strstr_pos_Some_iff occurs_at_drop [OF True])
next
  case False
  then show ?thesis
    by (auto simp: marked_block_def strstr_pos_Some_iff dest!: occurs_at_length)
qed

lemma marked_block_unique: "marked_block p f s e \<Longrightarrow> marked_block p f s' e' \<Longrightarrow> s = s' \<and> e = e'"
  by (auto simp: marked_block_iff)

lemma set_block_forms: "set block_forms = block_markers"
proof -
  have "UNIV = {Syn_full, Syn_short, Syn_plain}" using dsml_syntax.exhaust by blast
  then have "block_markers = (\<Union>syn \<in> set dsml_syntaxes.
      {([CHR 0x0A, CHR 0x0A] @ tool_calls_start syn, tool_calls_end syn), (tool_calls_start syn, tool_calls_end syn)})"
    by (simp add: block_markers_def dsml_syntaxes_def)
  also have "\<dots> = set block_forms" by (simp add: block_forms_def)
  finally show ?thesis ..
qed

lemma block_markerE:
  assumes "f \<in> block_markers"
  obtains lead syn where "f = (lead @ tool_calls_start syn, tool_calls_end syn)" "lead \<in> {[], [CHR 0x0A, CHR 0x0A]}"
  using assms unfolding block_markers_def by (auto, (metis append_Nil append_Cons insert_iff)+)

lemma block_form_step_cases:
  "block_form_step p f best = best \<and> (\<forall>s e. marked_block p f s e \<longrightarrow> (\<exists>b x. best = Some (b, x) \<and> b \<le> s)) \<or>
   (\<exists>s e. block_form_step p f best = Some (s, e) \<and> marked_block p f s e \<and>
      (\<forall>b x. best = Some (b, x) \<longrightarrow> s < b))"
proof (cases "strstr_pos p (fst f)")
  case None
  then show ?thesis by (simp add: block_form_step_def marked_block_iff)
next
  case (Some s)
  have here: "s' = s" if "marked_block p f s' e" for s' e using that Some by (simp add: marked_block_iff)
  show ?thesis
  proof (cases "\<exists>b x. best = Some (b, x) \<and> b \<le> s")
    case True
    then show ?thesis using Some here by (intro disjI1) (auto simp: block_form_step_def)
  next
    case False
    then have first: "\<forall>b x. best = Some (b, x) \<longrightarrow> s < b" by (auto simp: not_le)
    then have keep: "\<not> (case best of None \<Rightarrow> False | Some (b, _) \<Rightarrow> s \<ge> b)" by (auto split: option.splits)
    show ?thesis
    proof (cases "strstr_pos (drop s p) (snd f)")
      case None
      then show ?thesis using Some keep by (simp add: block_form_step_def marked_block_iff)
    next
      case e: (Some k)
      then show ?thesis using Some keep first
        by (intro disjI2 exI [of _ s] exI [of _ "s + k + length (snd f)"])
          (simp add: block_form_step_def marked_block_iff)
    qed
  qed
qed

lemma fold_block_forms:
  "case fold (block_form_step p) fs best of
     None \<Rightarrow> best = None \<and> (\<forall>f \<in> set fs. \<forall>s e. \<not> marked_block p f s e)
   | Some (s, e) \<Rightarrow> (best = Some (s, e) \<or> (\<exists>f \<in> set fs. marked_block p f s e)) \<and>
       (\<forall>f \<in> set fs. \<forall>s' e'. marked_block p f s' e' \<longrightarrow> s \<le> s') \<and> (\<forall>b x. best = Some (b, x) \<longrightarrow> s \<le> b)"
proof (induction fs arbitrary: best)
  case Nil
  then show ?case by (auto split: option.splits)
next
  case (Cons f fs)
  let ?best = "block_form_step p f best"
  show ?case
  proof (cases "fold (block_form_step p) fs ?best")
    case None
    with Cons.IH [of ?best] block_form_step_cases [of p f best] show ?thesis by auto
  next
    case (Some r)
    obtain s e where r: "r = (s, e)" by fastforce
    from Cons.IH [of ?best] have IH: "?best = Some (s, e) \<or> (\<exists>f \<in> set fs. marked_block p f s e)"
      "\<forall>f \<in> set fs. \<forall>s' e'. marked_block p f s' e' \<longrightarrow> s \<le> s'" "\<forall>b x. ?best = Some (b, x) \<longrightarrow> s \<le> b"
      by (simp_all add: Some r)
    have "s \<le> s'" if "marked_block p f s' e'" for s' e'
      using block_form_step_cases [of p f best] IH(3) that marked_block_unique [OF that]
      by (metis le_trans)
    moreover have "\<forall>b x. best = Some (b, x) \<longrightarrow> s \<le> b"
      using block_form_step_cases [of p f best] IH(3) by (metis le_trans less_imp_le)
    moreover have "best = Some (s, e) \<or> (\<exists>g \<in> set (f # fs). marked_block p g s e)"
      using block_form_step_cases [of p f best] IH(1) by auto
    ultimately show ?thesis using IH(2) by (auto simp: Some r)
  qed
qed

lemma block_markers_differ:
  assumes "f \<in> block_markers" "f' \<in> block_markers" "occurs_at p (fst f) s" "occurs_at p (fst f') s"
  shows "f = f'"
proof -
  obtain lead syn lead' syn' where f: "f = (lead @ tool_calls_start syn, tool_calls_end syn)"
      "f' = (lead' @ tool_calls_start syn', tool_calls_end syn')"
    and l: "lead \<in> {[], [CHR 0x0A, CHR 0x0A]}" "lead' \<in> {[], [CHR 0x0A, CHR 0x0A]}"
    using assms(1,2) by (elim block_markerE) blast
  obtain v v' where "lead @ tool_calls_start syn @ v = lead' @ tool_calls_start syn' @ v'"
    using assms(3,4) by (auto simp: f occurs_at_def starts_with_iff)
  then have "lead = lead' \<and> syn = syn'"
    using l by (cases syn; cases syn') (auto simp: tool_calls_start_def dsml_prefix_def DS4_DSML_def DS4_DSML_SHORT_def
        fullwidth_bar_def)
  then show ?thesis by (simp add: f)
qed

lemma first_block_iff: "first_block p s e \<longleftrightarrow> find_next_dsml_tool_block p = Some (s, e)"
proof
  assume "find_next_dsml_tool_block p = Some (s, e)"
  then show "first_block p s e"
    using fold_block_forms [where p = p and fs = block_forms and best = None]
    by (auto simp: find_next_dsml_tool_block_def first_block_def set_block_forms)
next
  assume fb: "first_block p s e"
  then obtain f where f: "f \<in> block_markers" "marked_block p f s e" by (auto simp: first_block_def)
  obtain s' e' where r: "find_next_dsml_tool_block p = Some (s', e')"
    using fold_block_forms [where p = p and fs = block_forms and best = None] f
    by (cases "find_next_dsml_tool_block p") (auto simp: find_next_dsml_tool_block_def set_block_forms)
  then have "(\<exists>f' \<in> block_markers. marked_block p f' s' e') \<and>
      (\<forall>g \<in> block_markers. \<forall>s'' e''. marked_block p g s'' e'' \<longrightarrow> s' \<le> s'')"
    using fold_block_forms [where p = p and fs = block_forms and best = None]
    by (simp add: find_next_dsml_tool_block_def set_block_forms)
  then obtain f' where f': "f' \<in> block_markers" "marked_block p f' s' e'" "s' \<le> s"
    using f by blast
  then have "s' = s" using fb by (auto simp: first_block_def intro: antisym)
  then have "f' = f" using f f' by (intro block_markers_differ) (auto simp: marked_block_def)
  then show "find_next_dsml_tool_block p = Some (s, e)"
    using marked_block_unique f f' r by blast
qed

lemma tool_blocks_iff: "tool_blocks p bs \<longleftrightarrow> bs = dsml_blocks p"
proof
  show "tool_blocks p bs \<Longrightarrow> bs = dsml_blocks p"
  proof (induction rule: tool_blocks.induct)
    case (no_block p)
    then have "find_next_dsml_tool_block p = None"
      by (cases "find_next_dsml_tool_block p") (auto simp: first_block_iff)
    then show ?case by (simp add: dsml_blocks.simps [of p])
  next
    case (next_block p s e bs)
    then show ?case by (simp add: dsml_blocks.simps [of p] first_block_iff)
  qed
  have "tool_blocks p (dsml_blocks p)"
  proof (induction p rule: dsml_blocks.induct)
    case (1 p)
    show ?case
    proof (cases "find_next_dsml_tool_block p")
      case None
      then show ?thesis by (simp add: dsml_blocks.simps [of p] no_block first_block_iff)
    next
      case (Some r)
      then obtain s e where r: "find_next_dsml_tool_block p = Some (s, e)" by (cases r) auto
      with 1 show ?thesis by (simp add: dsml_blocks.simps [of p] next_block first_block_iff)
    qed
  qed
  then show "bs = dsml_blocks p \<Longrightarrow> tool_blocks p bs" by simp
qed

definition remembered_in :: "memo list \<Rightarrow> string \<Rightarrow> (string \<times> string) set" where
  "remembered_in l text =
     {(i, d). (\<exists>s. (i, d, s) \<in> set l) \<and> (\<exists>bs. tool_blocks (c_str text) bs \<and> d \<in> set bs)}"

lemma remembered_in_blocks:
  "remembered_in l text = {(i, d). (\<exists>s. (i, d, s) \<in> set l) \<and> d \<in> set (dsml_blocks (c_str text))}"
  by (simp add: remembered_in_def tool_blocks_iff)

definition all_loadable :: "memo list \<Rightarrow> bool" where
  "all_loadable l \<longleftrightarrow> length l < 4294967296 \<and> (\<forall>(i, d, s) \<in> set l. loadable (i, d))"

lemma map_items_props:
  assumes "tm_inv m xs" "all_loadable (memos m xs)"
  shows "set (map_items m text) = remembered_in (memos m xs) text" "distinct (map_items m text)"
    "\<forall>x \<in> set (map_items m text). loadable x" "length (map_items m text) \<le> length (memos m xs)"
    "writable (map_items m text)"
proof -
  let ?xs = "map_items m text"
  show set: "set ?xs = remembered_in (memos m xs) text"
    unfolding map_items_def set_scan_items [OF assms(1)] remembered_in_blocks by auto
  show d: "distinct ?xs"
    unfolding map_items_def by (rule distinct_scan_items [OF assms(1)])
  show load: "\<forall>x \<in> set ?xs. loadable x"
    using assms(2) unfolding set by (auto simp: remembered_in_blocks all_loadable_def)
  have "set ?xs \<subseteq> (\<lambda>(i, d, s). (i, d)) ` set (memos m xs)"
    unfolding set remembered_in_blocks by force
  then have "card (set ?xs) \<le> card (set (memos m xs))"
    by (meson List.finite_set card_image_le card_mono finite_imageI order_trans)
  then show le: "length ?xs \<le> length (memos m xs)"
    using distinct_card [OF d] card_length [of "memos m xs"] by linarith
  have "length (records_bytes ys) \<le> 1073741824 * length ys" if "\<forall>x \<in> set ys. loadable x" for ys
    using that by (induction ys) (auto simp: length_record_bytes loadable_def DS4_TOOL_MEMORY_MAX_BYTES_def)
  from this [OF load] show "writable ?xs"
    using load loadable_short le assms(2) by (auto simp: writable_def all_loadable_def)
qed

text \<open>
  C33: The tool map of a checkpoint is read back as it was written. Let the remembered calls be such as a file can hold (an
  id of 1 to 256 bytes, a text not empty and within the size limit of a memory, no NUL in either), and let the memory have
  scans left on its 64-bit clock. Then a write that succeeds holds every remembered call whose markup occurs as a block of
  the text, and no other; the bytes appended to the file are counted exactly; and writing leaves the memory as it was.
  Loading these bytes into a memory of fewer than \<open>2 ^ 31\<close> entries, whose fourfold capacity is not below the number of
  remembered calls, returns their number and stores them one after the other as entries that come from the disk; a memory
  whose limits they exceed forgets the least recently used ones, as \<open>memo_put\<close> says.
\<close>

theorem tool_map_round_trip:
  assumes "implements m l" "scans_left m" "all_loadable l"
    and "implements m2 l2" "int (length l) \<le> tool_memory_max_entries m2 * 4" "tool_memory_max_entries m2 < 2147483648"
    and "kv_tool_map_write False m t f = (m', f', True, n)"
  shows "\<exists>bs xs m3. written f' = written f @ bs \<and> n = of_nat (length bs) \<and> implements m' l \<and>
    distinct xs \<and> set xs = remembered_in l t \<and>
    kv_tool_map_load_from_pos False m2 bs None = Some (m3, int (length xs)) \<and>
    implements m3 (fold (\<lambda>(i, d) k. memo_put (tool_memory_max_entries m2) (tool_memory_max_bytes m2) k i d
      TOOL_MEMORY_DISK) xs l2)"
proof -
  obtain xs ys where m: "tm_inv m xs" "l = memos m xs" and m2: "tm_inv m2 ys" "l2 = memos m2 ys"
    using assms(1,4) by (auto simp: implements_def)
  let ?xs = "map_items m t"
  note p = map_items_props [OF m(1) assms(3) [unfolded m(2)], of t]
  from kv_tool_map_write_exact [OF m(1) assms(2) p(5) assms(7)]
  have w: "same_but_seen m m'" "written f' = written f @ map_bytes ?xs" "n = of_nat (length (map_bytes ?xs))"
    by (auto simp: wrote_def)
  have len: "int (length ?xs) \<le> tool_memory_max_entries m2 * 4" "length ?xs < 4294967296"
    using p(4) assms(3,5) by (auto simp: m(2) all_loadable_def)
  obtain m3 zs where m3: "kv_tool_map_load_from_pos False m2 (map_bytes ?xs) None = Some (m3, int (length ?xs))"
    "tm_inv m3 zs" "memos m3 zs = load_memos (tool_memory_max_entries m2) (tool_memory_max_bytes m2) ?xs l2"
    using kv_tool_map_load_all [OF m2(1) p(3) len(1) assms(6) len(2)] m2(2) by blast
  have "implements m' l"
    using same_but_seen_inv [OF m(1) w(1)] by (auto simp: implements_def m(2))
  then show ?thesis
    using w(2,3) p(1,2) m3 unfolding m(2) implements_def load_memos_def by metis
qed

definition map_example :: string where
  "map_example = ''<tool_calls></tool_calls>''"

definition map_memory :: tool_memory where
  "map_memory = add_entry (tool_memory_empty 8 5000) ''call_1'' map_example TOOL_MEMORY_RAM"

lemma map_example_blocks: "dsml_blocks (c_str map_example) = [map_example]"
  by code_simp

lemma map_memory_put:
  "tool_memory_put_locked (tool_memory_empty 8 5000) ''call_1'' map_example TOOL_MEMORY_RAM = Some map_memory"
proof -
  have "\<not> over_limit map_memory"
    by (simp add: map_memory_def over_limit_def add_entry_def tool_memory_get_block_locked_def Let_def map_example_def
        tool_memory_find_block_locked_def tool_memory_empty_def tool_memory_max_entries_def tool_memory_max_bytes_def
        sizeof_entry_def sizeof_block_def)
  then show ?thesis
    by (simp add: tool_memory_put_locked_def map_example_def tool_memory_find_entry_locked_def tool_memory_empty_def
        tool_memory_prune_locked.simps map_memory_def)
qed

lemma map_memory_scans: "scans_left map_memory"
  by (auto simp: map_memory_def scans_left_def seen_le_def add_entry_def tool_memory_get_block_locked_def Let_def map_example_def
      tool_memory_find_block_locked_def tool_memory_empty_def)

lemma map_memory_implements: "implements map_memory [(''call_1'', map_example, TOOL_MEMORY_RAM)]"
proof -
  obtain zs where "tm_inv map_memory zs"
    "memos map_memory zs = memo_put 8 5000 (memos (tool_memory_empty 8 5000) []) ''call_1'' map_example TOOL_MEMORY_RAM"
    using put_refines [OF tm_inv_empty, of 8 5000 "''call_1''" map_example TOOL_MEMORY_RAM] map_memory_put
    by (auto simp: tool_memory_max_entries_def tool_memory_max_bytes_def tool_memory_empty_def)
  moreover have "memo_put 8 5000 (memos (tool_memory_empty 8 5000) []) ''call_1'' map_example TOOL_MEMORY_RAM =
      [(''call_1'', map_example, TOOL_MEMORY_RAM)]"
    by (simp add: memo_put_def memo_find_def memo_front_def memo_prune.simps memo_over_def memo_size_def memos_def
        sizeof_block_def sizeof_entry_def map_example_def)
  ultimately show ?thesis
    by (auto simp: implements_def)
qed

lemma distinct_one: "distinct ys \<Longrightarrow> set ys = {x} \<Longrightarrow> ys = [x]"
  by (cases ys; cases "tl ys") auto

theorem tool_map_round_trip_witness:
  "\<exists>m' f' n bs m3.
     kv_tool_map_write False map_memory map_example \<lparr>written = [7], room = 100\<rparr> = (m', f', True, n) \<and>
     written f' = 7 # bs \<and> n = of_nat (length bs) \<and>
     kv_tool_map_load_from_pos False (tool_memory_empty 8 5000) bs None = Some (m3, 1) \<and>
     implements m3 [(''call_1'', map_example, TOOL_MEMORY_DISK)]"
proof -
  let ?l = "[(''call_1'', map_example, TOOL_MEMORY_RAM)]" and ?f = "\<lparr>written = [7 :: u8], room = 100\<rparr>"
  have rem: "remembered_in ?l map_example = {(''call_1'', map_example)}"
    by (auto simp: remembered_in_blocks map_example_blocks)
  have load: "all_loadable ?l"
    by (simp add: all_loadable_def loadable_def map_example_def DS4_TOOL_MEMORY_MAX_BYTES_def)
  obtain ys where inv: "tm_inv map_memory ys" "memos map_memory ys = ?l"
    using map_memory_implements by (auto simp: implements_def)
  obtain m' f' ok n where w: "kv_tool_map_write False map_memory map_example ?f = (m', f', ok, n)"
    by (metis prod_cases4)
  have "map_items map_memory map_example = [(''call_1'', map_example)]"
    using map_items_props(1,2) [OF inv(1), of map_example] load inv(2) rem
    by (intro distinct_one) simp_all
  then have ok
    using kv_tool_map_write_exact [OF inv(1) map_memory_scans _ w] map_items_props(5) [OF inv(1), of map_example] load inv(2)
    by (simp add: wrote_def map_bytes_def length_record_bytes map_example_def)
  note t = tool_map_round_trip [OF map_memory_implements map_memory_scans load empty_implements, of 8 5000 map_example ?f m' f' n]
  obtain bs xs m3 where r: "written f' = [7] @ bs" "n = of_nat (length bs)" "distinct xs" "set xs = {(''call_1'', map_example)}"
    "kv_tool_map_load_from_pos False (tool_memory_empty 8 5000) bs None = Some (m3, int (length xs))"
    "implements m3 (fold (\<lambda>(i, d) k. memo_put 8 5000 k i d TOOL_MEMORY_DISK) xs [])"
    using t w \<open>ok\<close> rem by (auto simp: tool_memory_max_entries_def tool_memory_max_bytes_def tool_memory_empty_def)
  have xs: "xs = [(''call_1'', map_example)]"
    using r(3,4) by (rule distinct_one)
  have "memo_put 8 5000 [] ''call_1'' map_example TOOL_MEMORY_DISK = [(''call_1'', map_example, TOOL_MEMORY_DISK)]"
    by (simp add: memo_put_def memo_find_def memo_front_def memo_prune.simps memo_over_def memo_size_def
        sizeof_block_def sizeof_entry_def map_example_def)
  then show ?thesis
    using w \<open>ok\<close> r by (auto simp: xs)
qed

end
