(* ===== verification/Session_Payload.thy ===== *)
theory Session_Payload
  imports Kv_File_Lemmas
begin

text \<open>
  Sessions of the CPU backend and their snapshot payloads (\<open>ds4.c\<close>): the KV caches of the layers, the size of a
  payload, saving and loading.

  A buffer of floats is the list of its bytes, with the length the code allocates; a NULL buffer is empty. Saving gives
  \<open>None\<close> where the code would read behind a buffer. Loading gives \<open>Overrun\<close> where it would write behind one.
\<close>

unbundle bit_operations_syntax

section \<open>The layout of the model\<close>

definition DS4_N_LAYER :: nat where "DS4_N_LAYER = 43"
definition DS4_N_VOCAB :: nat where "DS4_N_VOCAB = 129280"
definition DS4_N_HEAD_DIM :: nat where "DS4_N_HEAD_DIM = 512"
definition DS4_N_INDEXER_HEAD_DIM :: nat where "DS4_N_INDEXER_HEAD_DIM = 128"
definition DS4_N_SWA :: u32 where "DS4_N_SWA = 128"
definition sizeof_float :: nat where "sizeof_float = 4"

definition ds4_layer_compress_ratio :: "nat \<Rightarrow> u32" where
  "ds4_layer_compress_ratio il = (if il < 2 then 0 else if even il then 4 else 128)"

definition ds4_default_raw_cap :: "u32 \<Rightarrow> u32" where
  "ds4_default_raw_cap ctx =
     (let raw_cap = DS4_N_SWA;
          raw_cap = (if raw_cap > ctx then ctx else raw_cap)
      in if raw_cap = 0 then 1 else raw_cap)"

section \<open>Sessions\<close>

record ds4_layer_cache =
  raw_kv :: "u8 list"
  n_raw :: u32
  cap_raw :: u32
  compress_ratio :: u32
  comp_cap :: u32
  n_comp :: u32
  attn_comp_kv :: "u8 list"
  attn_state_kv :: "u8 list"
  attn_state_score :: "u8 list"
  n_index_comp :: u32
  index_comp_kv :: "u8 list"
  index_state_kv :: "u8 list"
  index_state_score :: "u8 list"

record ds4_session =
  cpu_cache :: "ds4_layer_cache list"
  checkpoint :: "u32 list"
  logits :: "u8 list"
  prefill_cap :: u32
  s_ctx_size :: u32
  checkpoint_valid :: bool
  mtp_draft_valid :: bool

text \<open>The float \<open>-1.0e30f\<close>, the score of an empty row.\<close>

definition DS4_NEG_INF :: "u8 list" where
  "DS4_NEG_INF = [0xca, 0xf2, 0x49, 0xf1]"

definition float_zeros :: "nat \<Rightarrow> u8 list" where
  "float_zeros n = replicate (n * sizeof_float) 0"

definition float_neg_infs :: "nat \<Rightarrow> u8 list" where
  "float_neg_infs n = concat (replicate n DS4_NEG_INF)"

definition coff :: "u32 \<Rightarrow> nat" where
  "coff ratio = (if ratio = 4 then 2 else 1)"

definition init_layer :: "u32 \<Rightarrow> u32 \<Rightarrow> nat \<Rightarrow> ds4_layer_cache" where
  "init_layer ctx raw_cap il =
     (let ratio = ds4_layer_compress_ratio il;
          cap = (if ratio \<noteq> 0 then ctx div ratio + 2 else 0);
          attn = coff ratio * DS4_N_HEAD_DIM * (coff ratio * unat ratio);
          index = coff ratio * DS4_N_INDEXER_HEAD_DIM * (coff ratio * unat ratio) in
      \<lparr>raw_kv = float_zeros (unat raw_cap * DS4_N_HEAD_DIM), n_raw = 0, cap_raw = raw_cap, compress_ratio = ratio,
       comp_cap = cap, n_comp = 0,
       attn_comp_kv = (if ratio \<noteq> 0 then float_zeros (unat cap * DS4_N_HEAD_DIM) else []),
       attn_state_kv = (if ratio \<noteq> 0 then float_zeros attn else []),
       attn_state_score = (if ratio \<noteq> 0 then float_neg_infs attn else []),
       n_index_comp = 0,
       index_comp_kv = (if ratio = 4 then float_zeros (unat cap * DS4_N_INDEXER_HEAD_DIM) else []),
       index_state_kv = (if ratio = 4 then float_zeros index else []),
       index_state_score = (if ratio = 4 then float_neg_infs index else [])\<rparr>)"

definition kv_cache_init :: "u32 \<Rightarrow> u32 \<Rightarrow> ds4_layer_cache list" where
  "kv_cache_init ctx raw_cap =
     (let raw_cap = (if raw_cap = 0 then ds4_default_raw_cap ctx else raw_cap);
          raw_cap = (if raw_cap > ctx then ctx else raw_cap);
          raw_cap = (if raw_cap = 0 then 1 else raw_cap)
      in map (init_layer ctx raw_cap) [0..<DS4_N_LAYER])"

text \<open>The CPU branch of \<open>ds4_session_create\<close>: logits are allocated but not set, so their bytes are given.\<close>

definition ds4_session_create :: "u8 list \<Rightarrow> u32 \<Rightarrow> u32 \<Rightarrow> ds4_session" where
  "ds4_session_create logits0 prefill ctx =
     \<lparr>cpu_cache = kv_cache_init ctx 0, checkpoint = [], logits = logits0, prefill_cap = prefill, s_ctx_size = ctx,
      checkpoint_valid = False, mtp_draft_valid = False\<rparr>"

definition ds4_session_invalidate :: "ds4_session \<Rightarrow> ds4_session" where
  "ds4_session_invalidate s = s\<lparr>checkpoint_valid := False, checkpoint := [], mtp_draft_valid := False\<rparr>"

definition ds4_session_rewind :: "ds4_session \<Rightarrow> int \<Rightarrow> ds4_session" where
  "ds4_session_rewind s pos =
     (let pos = (if pos < 0 then 0 else pos);
          pos = (if pos > int (length (checkpoint s)) then int (length (checkpoint s)) else pos)
      in s\<lparr>checkpoint := take (nat pos) (checkpoint s), mtp_draft_valid := False\<rparr>)"

definition ds4_tokens_starts_with :: "u32 list \<Rightarrow> u32 list \<Rightarrow> bool" where
  "ds4_tokens_starts_with toks pre \<longleftrightarrow> length pre \<le> length toks \<and> (\<forall>i < length pre. toks ! i = pre ! i)"

definition session_cpu_reset_cache :: "ds4_session \<Rightarrow> ds4_session" where
  "session_cpu_reset_cache s = s\<lparr>cpu_cache := kv_cache_init (s_ctx_size s) 0\<rparr>"

section \<open>Sizes\<close>

definition layer_attn_state_bytes :: "u32 \<Rightarrow> u64" where
  "layer_attn_state_bytes ratio = of_nat (coff ratio) * of_nat DS4_N_HEAD_DIM * of_nat (coff ratio) * ucast ratio * 4"

definition layer_index_state_bytes :: "u32 \<Rightarrow> u64" where
  "layer_index_state_bytes ratio =
     of_nat (coff ratio) * of_nat DS4_N_INDEXER_HEAD_DIM * of_nat (coff ratio) * ucast ratio * 4"

text \<open>\<open>rows * dim * sizeof(float)\<close> in 64 bits.\<close>

definition row_bytes :: "u32 \<Rightarrow> nat \<Rightarrow> u64" where
  "row_bytes rows d = ucast rows * of_nat d * 4"

definition session_cpu_raw_live_rows :: "ds4_session \<Rightarrow> u32" where
  "session_cpu_raw_live_rows s =
     (if \<not> checkpoint_valid s then 0
      else let rows = ds4_default_raw_cap (s_ctx_size s) in
        if rows > of_nat (length (checkpoint s)) then of_nat (length (checkpoint s)) else rows)"

definition session_cpu_comp_cap :: "ds4_session \<Rightarrow> u32" where
  "session_cpu_comp_cap s =
     (case find (\<lambda>l. compress_ratio l = 4) (cpu_cache s) of Some l \<Rightarrow> comp_cap l
      | None \<Rightarrow> (case find (\<lambda>l. compress_ratio l \<noteq> 0) (cpu_cache s) of Some l \<Rightarrow> comp_cap l
        | None \<Rightarrow> s_ctx_size s))"

definition layer_live_bytes :: "u32 \<Rightarrow> ds4_layer_cache \<Rightarrow> u64" where
  "layer_live_bytes raw_live l =
     row_bytes raw_live DS4_N_HEAD_DIM +
     (if compress_ratio l = 0 then 0
      else row_bytes (n_comp l) DS4_N_HEAD_DIM + layer_attn_state_bytes (compress_ratio l) +
        layer_attn_state_bytes (compress_ratio l) +
        (if compress_ratio l = 4 then
           row_bytes (n_index_comp l) DS4_N_INDEXER_HEAD_DIM + layer_index_state_bytes (compress_ratio l) +
           layer_index_state_bytes (compress_ratio l)
         else 0))"

definition session_cpu_payload_live_tensor_bytes :: "ds4_session \<Rightarrow> u64" where
  "session_cpu_payload_live_tensor_bytes s =
     fold (\<lambda>l n. n + layer_live_bytes (session_cpu_raw_live_rows s) l) (cpu_cache s) 0"

definition DS4_SESSION_PAYLOAD_U32_FIELDS :: nat where "DS4_SESSION_PAYLOAD_U32_FIELDS = 13"
definition DS4_SESSION_PAYLOAD_MAGIC :: u32 where "DS4_SESSION_PAYLOAD_MAGIC = 0x34565344"
definition DS4_SESSION_PAYLOAD_VERSION :: u32 where "DS4_SESSION_PAYLOAD_VERSION = 1"

definition ds4_session_payload_bytes :: "ds4_session \<Rightarrow> u64" where
  "ds4_session_payload_bytes s =
     (if \<not> checkpoint_valid s then 0
      else of_nat DS4_SESSION_PAYLOAD_U32_FIELDS * 4 + of_nat (length (checkpoint s)) * 4 + of_nat DS4_N_VOCAB * 4 +
        of_nat DS4_N_LAYER * 4 + of_nat DS4_N_LAYER * 4 + session_cpu_payload_live_tensor_bytes s)"

section \<open>Saving\<close>

definition payload_put_u32 :: "u32 \<Rightarrow> u8 list" where
  "payload_put_u32 v = [ucast v, ucast (drop_bit 8 v), ucast (drop_bit 16 v), ucast (drop_bit 24 v)]"

definition payload_get_u32 :: "u8 list \<Rightarrow> u32" where
  "payload_get_u32 p =
     ucast (p ! 0) OR push_bit 8 (ucast (p ! 1)) OR push_bit 16 (ucast (p ! 2)) OR push_bit 24 (ucast (p ! 3))"

text \<open>The bytes of a part of a buffer; \<open>None\<close> when the buffer ends before it.\<close>

definition span :: "u8 list \<Rightarrow> nat \<Rightarrow> nat \<Rightarrow> u8 list option" where
  "span buf off n = (if off + n \<le> length buf then Some (take n (drop off buf)) else None)"

fun write_spans :: "u8 list option list \<Rightarrow> out_file \<times> bool \<Rightarrow> (out_file \<times> bool) option" where
  "write_spans [] fo = Some fo"
| "write_spans (b # bs) (f, ok) =
     (if \<not> ok then Some (f, ok) else case b of None \<Rightarrow> None | Some x \<Rightarrow> write_spans bs (fwrite x f))"

definition payload_header :: "ds4_session \<Rightarrow> u32 list" where
  "payload_header s =
     (let raw_cap = ds4_default_raw_cap (s_ctx_size s) in
      [DS4_SESSION_PAYLOAD_MAGIC, DS4_SESSION_PAYLOAD_VERSION, s_ctx_size s, prefill_cap s, raw_cap, raw_cap,
       session_cpu_comp_cap s, of_nat (length (checkpoint s)), of_nat DS4_N_LAYER, of_nat DS4_N_HEAD_DIM,
       of_nat DS4_N_INDEXER_HEAD_DIM, of_nat DS4_N_VOCAB, session_cpu_raw_live_rows s])"

text \<open>What is written of a layer, in this order.\<close>

definition layer_spans :: "u32 \<Rightarrow> ds4_layer_cache \<Rightarrow> u8 list option list" where
  "layer_spans raw_live l =
     [span (raw_kv l) (unat (n_raw l - raw_live) * DS4_N_HEAD_DIM * sizeof_float)
        (unat (row_bytes raw_live DS4_N_HEAD_DIM))] @
     (if compress_ratio l = 0 then []
      else [span (attn_comp_kv l) 0 (unat (row_bytes (n_comp l) DS4_N_HEAD_DIM)),
            span (attn_state_kv l) 0 (unat (layer_attn_state_bytes (compress_ratio l))),
            span (attn_state_score l) 0 (unat (layer_attn_state_bytes (compress_ratio l)))] @
        (if compress_ratio l = 4 then
           [span (index_comp_kv l) 0 (unat (row_bytes (n_index_comp l) DS4_N_INDEXER_HEAD_DIM)),
            span (index_state_kv l) 0 (unat (layer_index_state_bytes (compress_ratio l))),
            span (index_state_score l) 0 (unat (layer_index_state_bytes (compress_ratio l)))]
         else []))"

fun write_layers :: "u32 \<Rightarrow> ds4_layer_cache list \<Rightarrow> out_file \<times> bool \<Rightarrow> (out_file \<times> bool) option" where
  "write_layers raw_live [] fo = Some fo"
| "write_layers raw_live (l # ls) (f, ok) =
     (if \<not> ok then Some (f, ok)
      else if raw_live > n_raw l then Some (f, False)
      else case write_spans (layer_spans raw_live l) (f, True) of None \<Rightarrow> None
        | Some fo \<Rightarrow> write_layers raw_live ls fo)"

text \<open>The file after saving, and whether the session was saved.\<close>

definition ds4_session_save_payload :: "ds4_session \<Rightarrow> out_file \<Rightarrow> (out_file \<times> bool) option" where
  "ds4_session_save_payload s f =
     (if \<not> checkpoint_valid s then Some (f, False)
      else case write_spans
          (map (Some \<circ> payload_put_u32) (payload_header s) @ map (Some \<circ> payload_put_u32) (checkpoint s) @
           [span (logits s) 0 (DS4_N_VOCAB * sizeof_float)] @
           map (Some \<circ> payload_put_u32 \<circ> n_comp) (cpu_cache s) @
           map (Some \<circ> payload_put_u32 \<circ> n_index_comp) (cpu_cache s)) (f, True) of
        None \<Rightarrow> None
      | Some fo \<Rightarrow> write_layers (session_cpu_raw_live_rows s) (cpu_cache s) fo)"

section \<open>Loading\<close>

text \<open>The file and the payload bytes that are left.\<close>

type_synonym reader = "u8 list \<times> u64"

datatype progress = Go reader | Stop | Overrun

text \<open>\<open>payload_read_bytes\<close> into a buffer: a short read fills what there is.\<close>

definition payload_read_bytes :: "u64 \<Rightarrow> u8 list \<times> progress \<Rightarrow> u8 list \<times> progress" where
  "payload_read_bytes n bp =
     (case bp of (buf, Go (fp, remaining)) \<Rightarrow>
        if remaining < n then (buf, Stop)
        else (let got = take (unat n) fp in
          if length got > length buf then (buf, Overrun)
          else (got @ drop (length got) buf,
                if length got = unat n then Go (drop (unat n) fp, remaining - n) else Stop))
      | _ \<Rightarrow> bp)"

definition payload_read_u32 :: "reader \<Rightarrow> (u32 \<times> reader) option" where
  "payload_read_u32 r =
     (case r of (fp, remaining) \<Rightarrow>
        if remaining < 4 then None
        else (case fread 4 fp of None \<Rightarrow> None | Some (b, fp1) \<Rightarrow> Some (payload_get_u32 b, (fp1, remaining - 4))))"

fun read_u32s :: "nat \<Rightarrow> reader \<Rightarrow> (u32 list \<times> reader) option" where
  "read_u32s 0 r = Some ([], r)"
| "read_u32s (Suc n) r =
     (case payload_read_u32 r of None \<Rightarrow> None
      | Some (v, r1) \<Rightarrow> (case read_u32s n r1 of None \<Rightarrow> None | Some (vs, r2) \<Rightarrow> Some (v # vs, r2)))"

text \<open>Row counts are tested one by one.\<close>

fun read_counts :: "u32 \<Rightarrow> u32 \<Rightarrow> nat \<Rightarrow> reader \<Rightarrow> (u32 list \<times> reader) option" where
  "read_counts saved_cap cap 0 r = Some ([], r)"
| "read_counts saved_cap cap (Suc n) r =
     (case payload_read_u32 r of None \<Rightarrow> None
      | Some (v, r1) \<Rightarrow>
          if v > saved_cap \<or> v > cap then None
          else (case read_counts saved_cap cap n r1 of None \<Rightarrow> None | Some (vs, r2) \<Rightarrow> Some (v # vs, r2)))"

definition read_layer :: "u32 \<Rightarrow> u32 \<Rightarrow> u32 \<Rightarrow> ds4_layer_cache \<Rightarrow> progress \<Rightarrow> ds4_layer_cache \<times> progress" where
  "read_layer raw_live nc ni l p =
     (case payload_read_bytes (row_bytes raw_live DS4_N_HEAD_DIM) (raw_kv l, p) of
        (raw, Go r) \<Rightarrow>
          (let l = l\<lparr>raw_kv := raw, n_raw := raw_live\<rparr>; ratio = compress_ratio l in
           if ratio = 0 then (l, Go r)
           else let l = l\<lparr>n_comp := nc, n_index_comp := ni\<rparr>;
               (b1, p1) = payload_read_bytes (row_bytes nc DS4_N_HEAD_DIM) (attn_comp_kv l, Go r);
               (b2, p2) = payload_read_bytes (layer_attn_state_bytes ratio) (attn_state_kv l, p1);
               (b3, p3) = payload_read_bytes (layer_attn_state_bytes ratio) (attn_state_score l, p2);
               l = l\<lparr>attn_comp_kv := b1, attn_state_kv := b2, attn_state_score := b3\<rparr> in
             if ratio \<noteq> 4 then (l, p3)
             else let
               (b4, p4) = payload_read_bytes (row_bytes ni DS4_N_INDEXER_HEAD_DIM) (index_comp_kv l, p3);
               (b5, p5) = payload_read_bytes (layer_index_state_bytes ratio) (index_state_kv l, p4);
               (b6, p6) = payload_read_bytes (layer_index_state_bytes ratio) (index_state_score l, p5) in
             (l\<lparr>index_comp_kv := b4, index_state_kv := b5, index_state_score := b6\<rparr>, p6))
      | (raw, p1) \<Rightarrow> (l\<lparr>raw_kv := raw\<rparr>, p1))"

fun read_layers ::
  "u32 \<Rightarrow> (u32 \<times> u32) list \<Rightarrow> ds4_layer_cache list \<Rightarrow> progress \<Rightarrow> ds4_layer_cache list \<times> progress" where
  "read_layers raw_live ((nc, ni) # ns) (l # ls) (Go r) =
     (case read_layer raw_live nc ni l (Go r) of
        (l1, p) \<Rightarrow> (case read_layers raw_live ns ls p of (ls1, p1) \<Rightarrow> (l1 # ls1, p1)))"
| "read_layers raw_live ns ls p = (ls, p)"

datatype load_result = Loaded ds4_session "u8 list" | Load_failed ds4_session | Load_overrun

definition header_fits :: "ds4_session \<Rightarrow> u32 list \<Rightarrow> bool" where
  "header_fits s h \<longleftrightarrow>
     (let cpu_raw_cap = ds4_default_raw_cap (s_ctx_size s); cpu_comp_cap = session_cpu_comp_cap s;
          saved_tokens = h ! 7; saved_raw_window = h ! 5; saved_raw_live = h ! 12 in
      \<not> (h ! 2 > s_ctx_size s \<or> saved_tokens \<ge> s_ctx_size s) \<and>
      \<not> (h ! 8 \<noteq> of_nat DS4_N_LAYER \<or> h ! 9 \<noteq> of_nat DS4_N_HEAD_DIM \<or> h ! 10 \<noteq> of_nat DS4_N_INDEXER_HEAD_DIM \<or>
         h ! 11 \<noteq> of_nat DS4_N_VOCAB) \<and>
      \<not> (h ! 3 \<noteq> prefill_cap s \<or> saved_raw_window \<noteq> cpu_raw_cap) \<and>
      (let expected_raw_live = (if saved_tokens < saved_raw_window then saved_tokens else saved_raw_window) in
       \<not> (h ! 4 = 0 \<or> saved_raw_live \<noteq> expected_raw_live \<or> saved_raw_live > h ! 4 \<or> saved_raw_live > cpu_raw_cap)) \<and>
      \<not> h ! 6 > cpu_comp_cap)"

text \<open>Everything behind the logits, with the session whose logits have been replaced.\<close>

definition load_rows :: "ds4_session \<Rightarrow> u32 list \<Rightarrow> u32 list \<Rightarrow> reader \<Rightarrow> load_result" where
  "load_rows s h toks r =
     (case read_counts (h ! 6) (session_cpu_comp_cap s) DS4_N_LAYER r of None \<Rightarrow> Load_failed s
      | Some (ncs, r1) \<Rightarrow> (case read_counts (h ! 6) (session_cpu_comp_cap s) DS4_N_LAYER r1 of None \<Rightarrow> Load_failed s
        | Some (nis, r2) \<Rightarrow>
            (let s = session_cpu_reset_cache (s\<lparr>checkpoint_valid := False, mtp_draft_valid := False\<rparr>) in
             case read_layers (h ! 12) (zip ncs nis) (cpu_cache s) (Go r2) of
               (ls, Overrun) \<Rightarrow> Load_overrun
             | (ls, Stop) \<Rightarrow> Load_failed (s\<lparr>cpu_cache := ls\<rparr>)
             | (ls, Go (fp, remaining)) \<Rightarrow>
                 if remaining \<noteq> 0 then Load_failed (s\<lparr>cpu_cache := ls\<rparr>)
                 else Loaded (s\<lparr>cpu_cache := ls, checkpoint := toks, checkpoint_valid := True,
                               mtp_draft_valid := False\<rparr>) fp)))"

definition ds4_session_load_payload :: "ds4_session \<Rightarrow> u8 list \<Rightarrow> u64 \<Rightarrow> load_result" where
  "ds4_session_load_payload s fp n =
     (case read_u32s DS4_SESSION_PAYLOAD_U32_FIELDS (fp, n) of None \<Rightarrow> Load_failed s
      | Some (h, r) \<Rightarrow>
          if h ! 0 \<noteq> DS4_SESSION_PAYLOAD_MAGIC \<or> h ! 1 \<noteq> DS4_SESSION_PAYLOAD_VERSION then Load_failed s
          else if \<not> header_fits s h then Load_failed s
          else (case read_u32s (unat (h ! 7)) r of None \<Rightarrow> Load_failed s
            | Some (toks, r1) \<Rightarrow>
                (case payload_read_bytes (of_nat DS4_N_VOCAB * 4) (logits s, Go r1) of
                   (buf, Overrun) \<Rightarrow> Load_overrun
                 | (buf, Stop) \<Rightarrow> Load_failed (s\<lparr>logits := buf\<rparr>)
                 | (buf, Go r2) \<Rightarrow> load_rows (s\<lparr>logits := buf\<rparr>) h toks r2)))"

section \<open>Snapshots in memory\<close>

text \<open>\<open>fmemopen\<close> gives a file that takes exactly the bytes of the buffer.\<close>

definition ds4_session_save_snapshot :: "ds4_session \<Rightarrow> u8 list option" where
  "ds4_session_save_snapshot s =
     (if ds4_session_payload_bytes s = 0 then None
      else case ds4_session_save_payload s \<lparr>written = [], room = unat (ds4_session_payload_bytes s)\<rparr> of
        Some (f, True) \<Rightarrow> Some (written f)
      | _ \<Rightarrow> None)"

definition ds4_session_load_snapshot :: "ds4_session \<Rightarrow> u8 list \<Rightarrow> load_result" where
  "ds4_session_load_snapshot s snap =
     (if snap = [] then Load_failed s else ds4_session_load_payload s snap (of_nat (length snap)))"

end
