(* ===== verification/Session_Lemmas.thy ===== *)
theory Session_Lemmas
  imports Session_Payload
begin

text \<open>Sizes of sessions, the bytes of a payload, and what reading them back gives.\<close>

section \<open>Shape of a session\<close>

definition layer_shape :: "u32 \<Rightarrow> nat \<Rightarrow> ds4_layer_cache \<Rightarrow> bool" where
  "layer_shape ctx il l \<longleftrightarrow>
     (let i = init_layer ctx (ds4_default_raw_cap ctx) il in
      cap_raw l = cap_raw i \<and> compress_ratio l = compress_ratio i \<and> comp_cap l = comp_cap i \<and>
      length (raw_kv l) = length (raw_kv i) \<and> length (attn_comp_kv l) = length (attn_comp_kv i) \<and>
      length (attn_state_kv l) = length (attn_state_kv i) \<and> length (attn_state_score l) = length (attn_state_score i) \<and>
      length (index_comp_kv l) = length (index_comp_kv i) \<and> length (index_state_kv l) = length (index_state_kv i) \<and>
      length (index_state_score l) = length (index_state_score i))"

definition session_shape :: "ds4_session \<Rightarrow> bool" where
  "session_shape s \<longleftrightarrow>
     length (cpu_cache s) = DS4_N_LAYER \<and> (\<forall>il < DS4_N_LAYER. layer_shape (s_ctx_size s) il (cpu_cache s ! il)) \<and>
     length (logits s) = DS4_N_VOCAB * sizeof_float \<and> 0 < s_ctx_size s \<and> s_ctx_size s < 0x80000000"

lemma raw_cap_props:
  assumes "0 < ctx"
  shows "0 < ds4_default_raw_cap ctx" "ds4_default_raw_cap ctx \<le> ctx" "ds4_default_raw_cap ctx \<le> 128"
proof -
  have "ds4_default_raw_cap ctx = (if 128 > ctx then ctx else 128)"
    using assms by (auto simp: ds4_default_raw_cap_def DS4_N_SWA_def Let_def)
  then show "0 < ds4_default_raw_cap ctx" "ds4_default_raw_cap ctx \<le> ctx" "ds4_default_raw_cap ctx \<le> 128"
    using assms by (auto simp: not_less)
qed

lemma kv_cache_init_layers:
  assumes "0 < ctx"
  shows "kv_cache_init ctx 0 = map (init_layer ctx (ds4_default_raw_cap ctx)) [0..<DS4_N_LAYER]"
proof -
  have "\<not> ds4_default_raw_cap ctx > ctx" "ds4_default_raw_cap ctx \<noteq> 0"
    using raw_cap_props [OF assms] by (auto simp: not_less)
  then show ?thesis
    by (simp add: kv_cache_init_def Let_def)
qed

lemma layer_shape_init: "layer_shape ctx il (init_layer ctx (ds4_default_raw_cap ctx) il)"
  by (simp add: layer_shape_def Let_def)

lemma init_shape:
  assumes "0 < ctx"
  shows "length (kv_cache_init ctx 0) = DS4_N_LAYER"
    "il < DS4_N_LAYER \<Longrightarrow> layer_shape ctx il (kv_cache_init ctx 0 ! il)"
  by (simp_all add: kv_cache_init_layers [OF assms] layer_shape_init)

lemma session_create_shape:
  assumes "0 < ctx" "ctx < 0x80000000" "length ls = DS4_N_VOCAB * sizeof_float"
  shows "session_shape (ds4_session_create ls pre ctx)"
  using assms init_shape [OF assms(1)] by (simp add: session_shape_def ds4_session_create_def)

text \<open>The lengths of the buffers of a layer.\<close>

lemma length_neg_infs [simp]: "length (float_neg_infs n) = n * 4"
  by (induction n) (simp_all add: float_neg_infs_def DS4_NEG_INF_def)

lemma length_zeros [simp]: "length (float_zeros n) = n * 4"
  by (simp add: float_zeros_def sizeof_float_def)

lemma unat_row_bytes:
  assumes "d \<le> 512"
  shows "unat (row_bytes rows d) = unat rows * d * 4"
proof -
  have "unat rows < 4294967296"
    using unsigned_less [of rows] by simp
  then have "unat rows * d \<le> 4294967295 * 512"
    using assms by (intro mult_le_mono) auto
  then have "unat rows * d * 4 < 2 ^ LENGTH(64)"
    by (simp add: mult.commute)
  moreover have "row_bytes rows d = of_nat (unat rows * d * 4)"
    by (simp add: row_bytes_def)
  ultimately show ?thesis
    by (simp only: unat_of_nat mod_less)
qed

lemma ratio_cases:
  "ds4_layer_compress_ratio il = 0 \<and> il < 2 \<or> ds4_layer_compress_ratio il = 4 \<and> 2 \<le> il \<and> even il \<or>
   ds4_layer_compress_ratio il = 128 \<and> 2 \<le> il \<and> odd il"
  by (auto simp: ds4_layer_compress_ratio_def)

lemma state_bytes:
  "unat (layer_attn_state_bytes 4) = 32768" "unat (layer_attn_state_bytes 128) = 262144"
  "unat (layer_index_state_bytes 4) = 8192"
  by (simp_all add: layer_attn_state_bytes_def layer_index_state_bytes_def coff_def DS4_N_HEAD_DIM_def
      DS4_N_INDEXER_HEAD_DIM_def)

lemma comp_cap_unat:
  assumes "ctx < 0x80000000" "ratio = 4 \<or> ratio = 128"
  shows "unat (ctx div ratio + 2 :: u32) = unat ctx div unat ratio + 2"
proof -
  have "unat ctx < 2147483648"
    using assms(1) by (simp add: word_less_nat_alt)
  moreover have "unat ctx div unat ratio \<le> unat ctx div 4"
    using assms(2) by (auto intro: div_le_mono2)
  ultimately have "unat (ctx div ratio) + unat (2 :: u32) < 2 ^ LENGTH(32)"
    by (simp add: unat_div)
  then show ?thesis
    by (subst unat_add_lem [THEN iffD1]) (simp_all add: unat_div)
qed

lemma layer_shapeD:
  assumes "layer_shape ctx il l" "ctx < 0x80000000" "0 < ctx"
  shows "compress_ratio l = ds4_layer_compress_ratio il" "cap_raw l = ds4_default_raw_cap ctx"
    "length (raw_kv l) = unat (ds4_default_raw_cap ctx) * 2048"
    "compress_ratio l \<noteq> 0 \<Longrightarrow> unat (comp_cap l) = unat ctx div unat (compress_ratio l) + 2"
    "compress_ratio l \<noteq> 0 \<Longrightarrow> length (attn_comp_kv l) = unat (comp_cap l) * 2048"
    "compress_ratio l \<noteq> 0 \<Longrightarrow> length (attn_state_kv l) = unat (layer_attn_state_bytes (compress_ratio l))"
    "compress_ratio l \<noteq> 0 \<Longrightarrow> length (attn_state_score l) = unat (layer_attn_state_bytes (compress_ratio l))"
    "compress_ratio l = 4 \<Longrightarrow> length (index_comp_kv l) = unat (comp_cap l) * 512"
    "compress_ratio l = 4 \<Longrightarrow> length (index_state_kv l) = unat (layer_index_state_bytes (compress_ratio l))"
    "compress_ratio l = 4 \<Longrightarrow> length (index_state_score l) = unat (layer_index_state_bytes (compress_ratio l))"
  using assms(1) ratio_cases [of il] comp_cap_unat [OF assms(2)]
  by (auto simp: layer_shape_def init_layer_def Let_def coff_def DS4_N_HEAD_DIM_def DS4_N_INDEXER_HEAD_DIM_def state_bytes)

section \<open>Reading back\<close>

definition reader_at :: "u8 list \<Rightarrow> u8 list \<Rightarrow> reader" where
  "reader_at bs tl0 = (bs @ tl0, of_nat (length bs))"

definition u32_bytes :: "u32 list \<Rightarrow> u8 list" where
  "u32_bytes vs = concat (map payload_put_u32 vs)"

lemma u32_bytes_simps [simp]:
  "u32_bytes [] = []" "u32_bytes (v # vs) = payload_put_u32 v @ u32_bytes vs"
  "u32_bytes (xs @ ys) = u32_bytes xs @ u32_bytes ys"
  by (simp_all add: u32_bytes_def)

lemma length_put_u32 [simp]: "length (payload_put_u32 v) = 4"
  by (simp add: payload_put_u32_def)

lemma length_u32_bytes [simp]: "length (u32_bytes vs) = 4 * length vs"
  by (induction vs) simp_all

lemma payload_u32_codec [simp]: "payload_get_u32 (payload_put_u32 v) = v"
  using le_get32_put32_all [of v]
  by (simp add: payload_get_u32_def payload_put_u32_def le_get32_def le_put32_def)

abbreviation "fits_u64 n \<equiv> n < (18446744073709551616 :: nat)"

lemma unat_of_nat_fits: "fits_u64 n \<Longrightarrow> unat (of_nat n :: u64) = n"
  by (simp only: unat_of_nat) simp

lemma read_u32_at:
  assumes "fits_u64 (4 + length bs)"
  shows "payload_read_u32 (reader_at (payload_put_u32 v @ bs) tl0) = Some (v, reader_at bs tl0)"
proof -
  have "\<not> of_nat (4 + length bs) < (4 :: u64)"
    using unat_of_nat_fits [OF assms] by (simp add: word_less_nat_alt)
  then show ?thesis
    by (simp add: payload_read_u32_def reader_at_def)
qed

lemma read_u32s_at:
  assumes "fits_u64 (4 * length vs + length bs)"
  shows "read_u32s (length vs) (reader_at (u32_bytes vs @ bs) tl0) = Some (vs, reader_at bs tl0)"
  using assms by (induction vs) (simp_all add: read_u32_at)

lemma read_counts_at:
  assumes "fits_u64 (4 * length vs + length bs)" "\<forall>v \<in> set vs. v \<le> saved_cap \<and> v \<le> cap"
  shows "read_counts saved_cap cap (length vs) (reader_at (u32_bytes vs @ bs) tl0) = Some (vs, reader_at bs tl0)"
  using assms by (induction vs) (simp_all add: read_u32_at not_less)

lemma read_bytes_at:
  assumes "fits_u64 (length xs + length bs)" "length xs = unat n" "length xs \<le> length buf"
  shows "payload_read_bytes n (buf, Go (reader_at (xs @ bs) tl0)) =
    (xs @ drop (length xs) buf, Go (reader_at bs tl0))"
proof -
  have n: "n = of_nat (length xs)"
    using assms(2) by simp
  have "\<not> of_nat (length xs + length bs) < n"
    using unat_of_nat_fits [OF assms(1)] assms(2) by (simp add: word_less_nat_alt)
  moreover have "of_nat (length xs + length bs) - n = of_nat (length bs)"
    by (simp add: n)
  moreover have "take (unat n) (xs @ bs @ tl0) = xs" "drop (unat n) (xs @ bs @ tl0) = bs @ tl0"
    by (simp_all flip: assms(2))
  ultimately show ?thesis
    using assms(2,3) by (simp add: payload_read_bytes_def reader_at_def Let_def)
qed

lemma read_bytes_overrun:
  assumes "fits_u64 (length xs + length bs)" "length xs = unat n" "length buf < length xs"
  shows "payload_read_bytes n (buf, Go (reader_at (xs @ bs) tl0)) = (buf, Overrun)"
proof -
  have "\<not> of_nat (length xs + length bs) < n"
    using unat_of_nat_fits [OF assms(1)] assms(2) by (simp add: word_less_nat_alt)
  moreover have "take (unat n) (xs @ bs @ tl0) = xs"
    by (simp flip: assms(2))
  ultimately show ?thesis
    using assms(2,3) by (simp add: payload_read_bytes_def reader_at_def Let_def)
qed

lemma read_bytes_passes [simp]:
  "payload_read_bytes n (buf, Stop) = (buf, Stop)" "payload_read_bytes n (buf, Overrun) = (buf, Overrun)"
  by (simp_all add: payload_read_bytes_def)

section \<open>Saved layers\<close>

text \<open>What a payload holds of a layer.\<close>

record layer_snap =
  ls_raw :: "u8 list"
  ls_nc :: u32
  ls_ni :: u32
  ls_comp :: "u8 list"
  ls_kv :: "u8 list"
  ls_score :: "u8 list"
  ls_icomp :: "u8 list"
  ls_ikv :: "u8 list"
  ls_iscore :: "u8 list"

definition layer_bytes :: "u32 \<Rightarrow> layer_snap \<Rightarrow> u8 list" where
  "layer_bytes ratio x =
     ls_raw x @ (if ratio = 0 then []
       else ls_comp x @ ls_kv x @ ls_score x @
         (if ratio = 4 then ls_icomp x @ ls_ikv x @ ls_iscore x else []))"

definition layer_parts :: "u32 \<Rightarrow> layer_snap \<Rightarrow> u8 list list" where
  "layer_parts ratio x =
     [ls_raw x] @ (if ratio = 0 then []
       else [ls_comp x, ls_kv x, ls_score x] @ (if ratio = 4 then [ls_icomp x, ls_ikv x, ls_iscore x] else []))"

lemma concat_layer_parts: "concat (layer_parts ratio x) = layer_bytes ratio x"
  by (simp add: layer_parts_def layer_bytes_def)

definition snap_sizes :: "u32 \<Rightarrow> u32 \<Rightarrow> layer_snap \<Rightarrow> bool" where
  "snap_sizes raw_live ratio x \<longleftrightarrow>
     length (ls_raw x) = unat raw_live * 2048 \<and>
     (ratio \<noteq> 0 \<longrightarrow> length (ls_comp x) = unat (ls_nc x) * 2048 \<and>
        length (ls_kv x) = unat (layer_attn_state_bytes ratio) \<and>
        length (ls_score x) = unat (layer_attn_state_bytes ratio)) \<and>
     (ratio = 4 \<longrightarrow> length (ls_icomp x) = unat (ls_ni x) * 512 \<and>
        length (ls_ikv x) = unat (layer_index_state_bytes ratio) \<and>
        length (ls_iscore x) = unat (layer_index_state_bytes ratio))"

lemma row_bytes_dims [simp]:
  "unat (row_bytes rows DS4_N_HEAD_DIM) = unat rows * 2048" "unat (row_bytes rows DS4_N_INDEXER_HEAD_DIM) = unat rows * 512"
  by (simp_all add: unat_row_bytes DS4_N_HEAD_DIM_def DS4_N_INDEXER_HEAD_DIM_def)

text \<open>A layer after its part of the payload has been read into it.\<close>

definition filled :: "u32 \<Rightarrow> layer_snap \<Rightarrow> ds4_layer_cache \<Rightarrow> ds4_layer_cache" where
  "filled raw_live x l =
     (let over = (\<lambda>xs buf. xs @ drop (length xs) buf);
          l = l\<lparr>raw_kv := over (ls_raw x) (raw_kv l), n_raw := raw_live\<rparr> in
      if compress_ratio l = 0 then l
      else let l = l\<lparr>n_comp := ls_nc x, n_index_comp := ls_ni x, attn_comp_kv := over (ls_comp x) (attn_comp_kv l),
             attn_state_kv := over (ls_kv x) (attn_state_kv l), attn_state_score := over (ls_score x) (attn_state_score l)\<rparr> in
        if compress_ratio l \<noteq> 4 then l
        else l\<lparr>index_comp_kv := over (ls_icomp x) (index_comp_kv l), index_state_kv := over (ls_ikv x) (index_state_kv l),
               index_state_score := over (ls_iscore x) (index_state_score l)\<rparr>)"

lemma read_layer_at:
  assumes sh: "layer_shape ctx il l" "ctx < 0x80000000" "0 < ctx"
    and sz: "snap_sizes raw_live (compress_ratio l) x" and fit: "fits_u64 (length (layer_bytes (compress_ratio l) x) + length bs)"
    and live: "raw_live \<le> ds4_default_raw_cap ctx"
    and caps: "compress_ratio l \<noteq> 0 \<Longrightarrow> ls_nc x \<le> comp_cap l" "compress_ratio l = 4 \<Longrightarrow> ls_ni x \<le> comp_cap l"
  shows "read_layer raw_live (ls_nc x) (ls_ni x) l (Go (reader_at (layer_bytes (compress_ratio l) x @ bs) tl0)) =
    (filled raw_live x l, Go (reader_at bs tl0))"
proof -
  note d = layer_shapeD [OF sh]
  have raw: "length (ls_raw x) = unat raw_live * 2048" "unat raw_live * 2048 \<le> length (raw_kv l)"
    using sz live by (simp_all add: snap_sizes_def d(3) word_le_nat_alt)
  consider "compress_ratio l = 0" | "compress_ratio l = 4" | "compress_ratio l = 128"
    using ratio_cases [of il] d(1) by auto
  then show ?thesis
  proof cases
    case 1
    then show ?thesis
      using raw fit by (simp add: read_layer_def layer_bytes_def read_bytes_at filled_def Let_def)
  next
    case 2
    have "unat (ls_nc x) * 2048 \<le> length (attn_comp_kv l)" "unat (ls_ni x) * 512 \<le> length (index_comp_kv l)"
      using 2 caps d(5,8) by (simp_all add: word_le_nat_alt)
    then show ?thesis
      using 2 raw fit sz d(6,7,9,10)
      by (simp add: read_layer_def layer_bytes_def read_bytes_at filled_def Let_def snap_sizes_def)
  next
    case 3
    have "unat (ls_nc x) * 2048 \<le> length (attn_comp_kv l)"
      using 3 caps d(5) by (simp add: word_le_nat_alt)
    then show ?thesis
      using 3 raw fit sz d(6,7)
      by (simp add: read_layer_def layer_bytes_def read_bytes_at filled_def Let_def snap_sizes_def)
  qed
qed

text \<open>A saved layer that fits a layer of a session with the context \<open>ctx\<close>.\<close>

definition snap_fits :: "u32 \<Rightarrow> u32 \<Rightarrow> ds4_layer_cache \<Rightarrow> layer_snap \<Rightarrow> bool" where
  "snap_fits ctx raw_live l x \<longleftrightarrow>
     (\<exists>il. layer_shape ctx il l) \<and> snap_sizes raw_live (compress_ratio l) x \<and>
     (compress_ratio l \<noteq> 0 \<longrightarrow> ls_nc x \<le> comp_cap l) \<and> (compress_ratio l = 4 \<longrightarrow> ls_ni x \<le> comp_cap l)"

definition layers_bytes :: "ds4_layer_cache list \<Rightarrow> layer_snap list \<Rightarrow> u8 list" where
  "layers_bytes ls xs = concat (map2 (\<lambda>l x. layer_bytes (compress_ratio l) x) ls xs)"

lemma layers_bytes_simps [simp]:
  "layers_bytes [] xs = []" "layers_bytes (l # ls) (x # xs) = layer_bytes (compress_ratio l) x @ layers_bytes ls xs"
  by (simp_all add: layers_bytes_def)

definition counts :: "layer_snap list \<Rightarrow> (u32 \<times> u32) list" where
  "counts xs = map (\<lambda>x. (ls_nc x, ls_ni x)) xs"

lemma read_layers_at:
  assumes "ctx < 0x80000000" "0 < ctx" "raw_live \<le> ds4_default_raw_cap ctx"
    "list_all2 (snap_fits ctx raw_live) ls xs" "fits_u64 (length (layers_bytes ls xs) + length bs)"
  shows "read_layers raw_live (counts xs) ls (Go (reader_at (layers_bytes ls xs @ bs) tl0)) =
    (map2 (\<lambda>l x. filled raw_live x l) ls xs, Go (reader_at bs tl0))"
  using assms(4,5)
proof (induction rule: list_all2_induct)
  case (Cons l ls x xs)
  obtain il where sh: "layer_shape ctx il l"
    using Cons.hyps(1) by (auto simp: snap_fits_def)
  have "read_layer raw_live (ls_nc x) (ls_ni x) l
      (Go (reader_at (layer_bytes (compress_ratio l) x @ (layers_bytes ls xs @ bs)) tl0)) =
      (filled raw_live x l, Go (reader_at (layers_bytes ls xs @ bs) tl0))"
    using Cons.hyps(1) Cons.prems by (intro read_layer_at [OF sh assms(1,2) _ _ assms(3)]) (simp_all add: snap_fits_def)
  then show ?case
    using Cons.IH Cons.prems by (simp add: counts_def)
qed (simp add: counts_def)

section \<open>Loading a payload\<close>

definition payload_of :: "u32 list \<Rightarrow> u32 list \<Rightarrow> u8 list \<Rightarrow> ds4_layer_cache list \<Rightarrow> layer_snap list \<Rightarrow> u8 list" where
  "payload_of h toks lg ls xs =
     u32_bytes h @ u32_bytes toks @ lg @ u32_bytes (map ls_nc xs) @ u32_bytes (map ls_ni xs) @ layers_bytes ls xs"

abbreviation fresh_layers :: "ds4_session \<Rightarrow> ds4_layer_cache list" where
  "fresh_layers t \<equiv> kv_cache_init (s_ctx_size t) 0"

definition header_good :: "ds4_session \<Rightarrow> u32 list \<Rightarrow> bool" where
  "header_good t h \<longleftrightarrow> length h = DS4_SESSION_PAYLOAD_U32_FIELDS \<and> h ! 0 = DS4_SESSION_PAYLOAD_MAGIC \<and>
     h ! 1 = DS4_SESSION_PAYLOAD_VERSION \<and> header_fits t h"

definition counts_pass :: "u32 list \<Rightarrow> ds4_session \<Rightarrow> layer_snap list \<Rightarrow> bool" where
  "counts_pass h t xs \<longleftrightarrow> length xs = DS4_N_LAYER \<and>
     (\<forall>x \<in> set xs. ls_nc x \<le> h ! 6 \<and> ls_nc x \<le> session_cpu_comp_cap t \<and>
       ls_ni x \<le> h ! 6 \<and> ls_ni x \<le> session_cpu_comp_cap t)"

text \<open>Up to the layers loading a payload with a good header always goes the same way.\<close>

lemma load_payload_to_layers:
  assumes "session_shape t" "header_good t h" "length toks = unat (h ! 7)" "length lg = DS4_N_VOCAB * sizeof_float"
    "counts_pass h t xs" "fits_u64 (length (payload_of h toks lg ls xs))"
  shows "ds4_session_load_payload t (payload_of h toks lg ls xs @ tl0) (of_nat (length (payload_of h toks lg ls xs))) =
    (case read_layers (h ! 12) (counts xs) (fresh_layers t) (Go (reader_at (layers_bytes ls xs) tl0)) of
       (ks, Overrun) \<Rightarrow> Load_overrun
     | (ks, Stop) \<Rightarrow> Load_failed (t\<lparr>logits := lg, checkpoint_valid := False, mtp_draft_valid := False, cpu_cache := ks\<rparr>)
     | (ks, Go (fp, remaining)) \<Rightarrow>
         if remaining \<noteq> 0
         then Load_failed (t\<lparr>logits := lg, checkpoint_valid := False, mtp_draft_valid := False, cpu_cache := ks\<rparr>)
         else Loaded (t\<lparr>logits := lg, cpu_cache := ks, checkpoint := toks, checkpoint_valid := True,
                        mtp_draft_valid := False\<rparr>) fp)"
proof -
  let ?p4 = "layers_bytes ls xs"
  let ?p3 = "u32_bytes (map ls_ni xs) @ ?p4"
  let ?p2 = "u32_bytes (map ls_nc xs) @ ?p3"
  let ?p1 = "lg @ ?p2"
  have len: "length lg = 517120" "length h = 13" "length xs = 43" "length (logits t) = 517120"
    using assms(1,2,4,5) by (simp_all add: DS4_N_VOCAB_def sizeof_float_def header_good_def counts_pass_def
        DS4_SESSION_PAYLOAD_U32_FIELDS_def DS4_N_LAYER_def session_shape_def)
  have fit: "fits_u64 (4 * 13 + length (u32_bytes toks @ ?p1))"
    using assms(6) len(2) by (simp add: payload_of_def)
  have r0: "read_u32s 13 (reader_at (u32_bytes h @ (u32_bytes toks @ ?p1)) tl0) = Some (h, reader_at (u32_bytes toks @ ?p1) tl0)"
    using read_u32s_at [of h "u32_bytes toks @ ?p1" tl0] fit len(2) by simp
  have r1: "read_u32s (unat (h ! 7)) (reader_at (u32_bytes toks @ ?p1) tl0) = Some (toks, reader_at ?p1 tl0)"
    using read_u32s_at [of toks ?p1 tl0] fit assms(3) by simp
  have r2: "payload_read_bytes (of_nat DS4_N_VOCAB * 4) (logits t, Go (reader_at ?p1 tl0)) = (lg, Go (reader_at ?p2 tl0))"
    using read_bytes_at [of lg ?p2 "of_nat DS4_N_VOCAB * 4" "logits t" tl0] fit len by (simp add: DS4_N_VOCAB_def)
  have r3: "read_counts (h ! 6) (session_cpu_comp_cap t) 43 (reader_at ?p2 tl0) = Some (map ls_nc xs, reader_at ?p3 tl0)"
    using read_counts_at [of "map ls_nc xs" ?p3 "h ! 6" "session_cpu_comp_cap t" tl0] fit len assms(5)
    by (simp add: counts_pass_def)
  have r4: "read_counts (h ! 6) (session_cpu_comp_cap t) 43 (reader_at ?p3 tl0) = Some (map ls_ni xs, reader_at ?p4 tl0)"
    using read_counts_at [of "map ls_ni xs" ?p4 "h ! 6" "session_cpu_comp_cap t" tl0] fit len assms(5)
    by (simp add: counts_pass_def)
  have zip: "zip (map ls_nc xs) (map ls_ni xs) = counts xs"
    by (simp add: counts_def zip_map_map map_zip_map2 zip_same_conv_map)
  have start: "(payload_of h toks lg ls xs @ tl0, of_nat (length (payload_of h toks lg ls xs))) =
      reader_at (u32_bytes h @ (u32_bytes toks @ ?p1)) tl0"
    by (simp add: payload_of_def reader_at_def)
  have caps: "session_cpu_comp_cap (t\<lparr>logits := lg\<rparr>) = session_cpu_comp_cap t"
    by (simp add: session_cpu_comp_cap_def split: option.split)
  have good: "h ! 0 = DS4_SESSION_PAYLOAD_MAGIC" "h ! 1 = DS4_SESSION_PAYLOAD_VERSION" "header_fits t h"
    using assms(2) by (simp_all add: header_good_def)
  show ?thesis
    unfolding ds4_session_load_payload_def start DS4_SESSION_PAYLOAD_U32_FIELDS_def r0
    by (simp add: good del: One_nat_def)
      (simp add: r1 r2 r3 r4 load_rows_def DS4_N_LAYER_def caps zip session_cpu_reset_cache_def Let_def
        split: prod.split progress.split)
qed

section \<open>Saving a payload\<close>

definition snap_of :: "u32 \<Rightarrow> ds4_layer_cache \<Rightarrow> layer_snap" where
  "snap_of raw_live l =
     \<lparr>ls_raw = take (unat raw_live * 2048) (drop (unat (n_raw l - raw_live) * 2048) (raw_kv l)),
      ls_nc = n_comp l, ls_ni = n_index_comp l, ls_comp = take (unat (n_comp l) * 2048) (attn_comp_kv l),
      ls_kv = attn_state_kv l, ls_score = attn_state_score l,
      ls_icomp = take (unat (n_index_comp l) * 512) (index_comp_kv l), ls_ikv = index_state_kv l,
      ls_iscore = index_state_score l\<rparr>"

text \<open>A session whose row counts are those of a cache in use, with a valid checkpoint.\<close>

definition layer_in_use :: "u32 \<Rightarrow> ds4_layer_cache \<Rightarrow> bool" where
  "layer_in_use raw_live l \<longleftrightarrow>
     raw_live \<le> n_raw l \<and> n_raw l \<le> cap_raw l \<and>
     (if compress_ratio l = 0 then n_comp l = 0 else n_comp l \<le> comp_cap l) \<and>
     (if compress_ratio l = 4 then n_index_comp l \<le> comp_cap l else n_index_comp l = 0)"

definition session_in_use :: "ds4_session \<Rightarrow> bool" where
  "session_in_use s \<longleftrightarrow> session_shape s \<and> checkpoint_valid s \<and> length (checkpoint s) < unat (s_ctx_size s) \<and>
     (\<forall>l \<in> set (cpu_cache s). layer_in_use (session_cpu_raw_live_rows s) l)"

lemma session_layers:
  assumes "session_shape s" "l \<in> set (cpu_cache s)"
  shows "\<exists>il < DS4_N_LAYER. layer_shape (s_ctx_size s) il l"
  using assms by (auto simp: session_shape_def in_set_conv_nth)

lemma write_spans_wrote:
  assumes "list_all2 (\<lambda>b x. b = Some x) bs xs"
  shows "\<exists>fo'. write_spans bs fo = Some fo' \<and> wrote fo (concat xs) fo'"
  using assms
proof (induction arbitrary: fo rule: list_all2_induct)
  case (Cons b bs x xs)
  obtain f ok where fo: "fo = (f, ok)" by (cases fo)
  show ?case
  proof (cases ok)
    case True
    obtain fo' where "write_spans bs (fwrite x f) = Some fo'" "wrote (fwrite x f) (concat xs) fo'"
      using Cons.IH by blast
    then show ?thesis
      using True Cons.hyps(1) wrote_trans [OF wrote_fwrite] by (auto simp: fo)
  qed (simp add: fo wrote_stop)
qed (simp add: wrote_refl)

lemma layer_spans_snap:
  assumes "layer_shape ctx il l" "ctx < 0x80000000" "0 < ctx" "layer_in_use raw_live l"
  shows "list_all2 (\<lambda>b x. b = Some x) (layer_spans raw_live l)
      (layer_parts (compress_ratio l) (snap_of raw_live l))"
    "snap_sizes raw_live (compress_ratio l) (snap_of raw_live l)"
proof -
  note d = layer_shapeD [OF assms(1,2,3)]
  have live: "unat (n_raw l - raw_live) * 2048 + unat raw_live * 2048 \<le> length (raw_kv l)"
  proof -
    have "unat (n_raw l - raw_live) + unat raw_live = unat (n_raw l)"
      using assms(4) by (subst unat_sub) (auto simp: layer_in_use_def word_le_nat_alt)
    moreover have "unat (n_raw l) \<le> unat (ds4_default_raw_cap ctx)"
      using assms(4) d(2) by (simp add: layer_in_use_def word_le_nat_alt)
    ultimately show ?thesis
      unfolding d(3) by (simp flip: add_mult_distrib)
  qed
  have nc: "compress_ratio l \<noteq> 0 \<Longrightarrow> unat (n_comp l) * 2048 \<le> length (attn_comp_kv l)"
    "compress_ratio l = 4 \<Longrightarrow> unat (n_index_comp l) * 512 \<le> length (index_comp_kv l)"
    using assms(4) d(5,8) by (simp_all add: layer_in_use_def word_le_nat_alt)
  have start: "unat (n_raw l - raw_live) * DS4_N_HEAD_DIM * sizeof_float = unat (n_raw l - raw_live) * 2048"
    by (simp add: DS4_N_HEAD_DIM_def sizeof_float_def)
  show "list_all2 (\<lambda>b x. b = Some x) (layer_spans raw_live l)
      (layer_parts (compress_ratio l) (snap_of raw_live l))"
    using live nc d(6,7,9,10)
    unfolding layer_spans_def start by (simp add: span_def snap_of_def layer_parts_def)
  show "snap_sizes raw_live (compress_ratio l) (snap_of raw_live l)"
    using live nc d(6,7,9,10) by (simp add: snap_sizes_def snap_of_def)
qed

definition session_snaps :: "ds4_session \<Rightarrow> layer_snap list" where
  "session_snaps s = map (snap_of (session_cpu_raw_live_rows s)) (cpu_cache s)"

definition session_payload :: "ds4_session \<Rightarrow> u8 list" where
  "session_payload s = payload_of (payload_header s) (checkpoint s) (logits s) (cpu_cache s) (session_snaps s)"

lemma write_layers_wrote:
  assumes "ctx < 0x80000000" "0 < ctx" "\<forall>l \<in> set ls. (\<exists>il. layer_shape ctx il l) \<and> layer_in_use raw_live l"
  shows "\<exists>fo'. write_layers raw_live ls fo = Some fo' \<and>
    wrote fo (layers_bytes ls (map (snap_of raw_live) ls)) fo'"
  using assms(3)
proof (induction ls arbitrary: fo)
  case (Cons l ls)
  obtain f ok where fo: "fo = (f, ok)" by (cases fo)
  show ?case
  proof (cases ok)
    case True
    obtain il where sh: "layer_shape ctx il l" and use: "layer_in_use raw_live l"
      using Cons.prems by auto
    obtain fo1 where fo1: "write_spans (layer_spans raw_live l) (f, True) = Some fo1"
      "wrote (f, True) (layer_bytes (compress_ratio l) (snap_of raw_live l)) fo1"
      using write_spans_wrote [OF layer_spans_snap(1) [OF sh assms(1,2) use], of "(f, True)"]
      by (auto simp: concat_layer_parts)
    moreover have "\<forall>l \<in> set ls. (\<exists>il. layer_shape ctx il l) \<and> layer_in_use raw_live l"
      using Cons.prems by simp
    from Cons.IH [OF this, of fo1] obtain fo' where "write_layers raw_live ls fo1 = Some fo'"
      "wrote fo1 (layers_bytes ls (map (snap_of raw_live) ls)) fo'"
      by blast
    moreover have "\<not> raw_live > n_raw l"
      using use by (simp add: layer_in_use_def not_less)
    ultimately show ?thesis
      using True by (auto simp: fo intro: wrote_trans)
  qed (simp add: fo wrote_stop)
qed (simp add: wrote_refl)

lemma raw_live_props:
  assumes "0 < s_ctx_size s"
  shows "session_cpu_raw_live_rows s \<le> ds4_default_raw_cap (s_ctx_size s)"
  using assms by (auto simp: session_cpu_raw_live_rows_def Let_def not_less)

lemma save_payload_exact:
  assumes "session_in_use s"
  shows "\<exists>f' ok. ds4_session_save_payload s f = Some (f', ok) \<and> wrote (f, True) (session_payload s) (f', ok)"
proof -
  have s: "session_shape s" "checkpoint_valid s" "\<forall>l \<in> set (cpu_cache s). layer_in_use (session_cpu_raw_live_rows s) l"
    using assms by (auto simp: session_in_use_def)
  have ctx: "s_ctx_size s < 0x80000000" "0 < s_ctx_size s"
    using s(1) by (simp_all add: session_shape_def)
  let ?b = "map (Some \<circ> payload_put_u32) (payload_header s) @ map (Some \<circ> payload_put_u32) (checkpoint s) @
    [span (logits s) 0 (DS4_N_VOCAB * sizeof_float)] @ map (Some \<circ> payload_put_u32 \<circ> n_comp) (cpu_cache s) @
    map (Some \<circ> payload_put_u32 \<circ> n_index_comp) (cpu_cache s)"
  let ?x = "map payload_put_u32 (payload_header s) @ map payload_put_u32 (checkpoint s) @ [logits s] @
    map (payload_put_u32 \<circ> n_comp) (cpu_cache s) @ map (payload_put_u32 \<circ> n_index_comp) (cpu_cache s)"
  have "list_all2 (\<lambda>b x. b = Some x) ?b ?x"
    using s(1) by (auto simp: span_def session_shape_def list_all2_map1 list_all2_map2 list.rel_refl intro!: list_all2_appendI)
  from write_spans_wrote [OF this, of "(f, True)"] obtain fo1 where
    fo1: "write_spans ?b (f, True) = Some fo1" "wrote (f, True) (concat ?x) fo1" by blast
  have "\<forall>l \<in> set (cpu_cache s). (\<exists>il. layer_shape (s_ctx_size s) il l) \<and> layer_in_use (session_cpu_raw_live_rows s) l"
    using s(3) session_layers [OF s(1)] by blast
  from write_layers_wrote [OF ctx this, of fo1] obtain fo' where
    fo': "write_layers (session_cpu_raw_live_rows s) (cpu_cache s) fo1 = Some fo'"
      "wrote fo1 (layers_bytes (cpu_cache s) (session_snaps s)) fo'"
    by (auto simp: session_snaps_def)
  have "map ls_nc (session_snaps s) = map n_comp (cpu_cache s)" "map ls_ni (session_snaps s) = map n_index_comp (cpu_cache s)"
    by (simp_all add: session_snaps_def snap_of_def)
  then have "session_payload s = concat ?x @ layers_bytes (cpu_cache s) (session_snaps s)"
    by (simp add: session_payload_def payload_of_def u32_bytes_def)
  then show ?thesis
    using s(2) fo1 fo' wrote_trans [OF fo1(2) fo'(2)] by (cases fo') (simp add: ds4_session_save_payload_def)
qed

section \<open>The size of a payload\<close>

lemma length_layer_bytes:
  assumes "snap_sizes raw_live (compress_ratio l) (snap_of raw_live l)"
  shows "of_nat (length (layer_bytes (compress_ratio l) (snap_of raw_live l))) = layer_live_bytes raw_live l"
proof -
  have "of_nat (unat raw_live * 2048) = row_bytes raw_live DS4_N_HEAD_DIM"
    "of_nat (unat (n_comp l) * 2048) = row_bytes (n_comp l) DS4_N_HEAD_DIM"
    "of_nat (unat (n_index_comp l) * 512) = row_bytes (n_index_comp l) DS4_N_INDEXER_HEAD_DIM"
    by (simp_all add: row_bytes_def DS4_N_HEAD_DIM_def DS4_N_INDEXER_HEAD_DIM_def)
  then show ?thesis
    using assms by (auto simp: layer_bytes_def layer_live_bytes_def snap_sizes_def) (simp_all add: snap_of_def)
qed

lemma layers_bytes_ratios:
  assumes "map compress_ratio ls = map compress_ratio ls'"
  shows "layers_bytes ls xs = layers_bytes ls' xs"
  using assms
proof (induction ls arbitrary: ls' xs)
  case (Cons l ls)
  then obtain l' ks where "ls' = l' # ks" "compress_ratio l' = compress_ratio l" "map compress_ratio ls = map compress_ratio ks"
    by (cases ls') auto
  then show ?case
    using Cons.IH by (cases xs) (auto simp: layers_bytes_def)
qed simp

lemma session_cpu_comp_cap_shape:
  assumes "session_shape s"
  shows "session_cpu_comp_cap s = s_ctx_size s div 4 + 2"
proof -
  have len: "length (cpu_cache s) = 43"
    using assms by (simp add: session_shape_def DS4_N_LAYER_def)
  have sh: "layer_shape (s_ctx_size s) il (cpu_cache s ! il)" if "il < 43" for il
    using assms that by (simp add: session_shape_def DS4_N_LAYER_def)
  obtain c0 c1 c2 cs where c: "cpu_cache s = c0 # c1 # c2 # cs"
    using len by (auto simp: numeral_eq_Suc length_Suc_conv)
  have "compress_ratio c0 = 0" "compress_ratio c1 = 0" "compress_ratio c2 = 4" "comp_cap c2 = s_ctx_size s div 4 + 2"
    using sh [of 0] sh [of 1] sh [of 2] unfolding c
    by (simp_all add: layer_shape_def init_layer_def ds4_layer_compress_ratio_def Let_def)
  then show ?thesis
    by (simp add: session_cpu_comp_cap_def c)
qed

lemma snap_of_sizes:
  assumes "session_in_use s" "l \<in> set (cpu_cache s)"
  shows "snap_sizes (session_cpu_raw_live_rows s) (compress_ratio l) (snap_of (session_cpu_raw_live_rows s) l)"
proof -
  have s: "session_shape s" "layer_in_use (session_cpu_raw_live_rows s) l"
    using assms by (auto simp: session_in_use_def)
  obtain il where sh: "layer_shape (s_ctx_size s) il l"
    using session_layers [OF s(1) assms(2)] by blast
  show ?thesis
    using s by (intro layer_spans_snap(2) [OF sh _ _ s(2)]) (simp_all add: session_shape_def)
qed

lemma layers_size:
  assumes "\<And>l. l \<in> set ls \<Longrightarrow> snap_sizes raw_live (compress_ratio l) (snap_of raw_live l)"
  shows "fold (\<lambda>l n. n + layer_live_bytes raw_live l) ls k =
    k + of_nat (length (layers_bytes ls (map (snap_of raw_live) ls)))"
  using assms
proof (induction ls arbitrary: k)
  case (Cons l ls)
  then show ?case
    by (simp add: length_layer_bytes [symmetric] add.assoc)
qed simp

lemma payload_bytes_exact:
  assumes "session_in_use s"
  shows "ds4_session_payload_bytes s = of_nat (length (session_payload s))"
proof -
  have s: "checkpoint_valid s" "length (logits s) = DS4_N_VOCAB * sizeof_float" "length (cpu_cache s) = DS4_N_LAYER"
    using assms by (auto simp: session_in_use_def session_shape_def)
  have "session_cpu_payload_live_tensor_bytes s = of_nat (length (layers_bytes (cpu_cache s) (session_snaps s)))"
    unfolding session_cpu_payload_live_tensor_bytes_def session_snaps_def
    using layers_size [of "cpu_cache s" "session_cpu_raw_live_rows s" 0] snap_of_sizes [OF assms] by simp
  moreover have "length (payload_header s) = 13"
    by (simp add: payload_header_def Let_def)
  ultimately show ?thesis
    using s by (simp add: ds4_session_payload_bytes_def session_payload_def payload_of_def session_snaps_def
        DS4_SESSION_PAYLOAD_U32_FIELDS_def sizeof_float_def)
qed

lemma layer_bytes_bound:
  assumes "snap_fits ctx raw_live l x" "ctx < 0x80000000" "0 < ctx" "raw_live \<le> ds4_default_raw_cap ctx"
  shows "length (layer_bytes (compress_ratio l) x) \<le> 2199023255552"
proof -
  obtain il where sh: "layer_shape ctx il l"
    using assms(1) by (auto simp: snap_fits_def)
  note d = layer_shapeD [OF sh assms(2,3)]
  have live: "unat raw_live \<le> 128"
    using assms(4) raw_cap_props(3) [OF assms(3)] by (simp add: word_le_nat_alt)
  have ctx: "unat ctx < 2147483648"
    using assms(2) by (simp add: word_less_nat_alt)
  consider "compress_ratio l = 0" | "compress_ratio l = 4" | "compress_ratio l = 128"
    using ratio_cases [of il] d(1) by auto
  then show ?thesis
  proof cases
    case 2
    have "unat (ls_nc x) \<le> unat ctx div 4 + 2" "unat (ls_ni x) \<le> unat ctx div 4 + 2"
      using assms(1) 2 d(4) by (auto simp: snap_fits_def word_le_nat_alt)
    then show ?thesis
      using 2 assms(1) live ctx by (simp add: snap_fits_def snap_sizes_def layer_bytes_def state_bytes)
  next
    case 3
    have "unat (ls_nc x) \<le> unat ctx div 128 + 2"
      using assms(1) 3 d(4) by (auto simp: snap_fits_def word_le_nat_alt)
    then show ?thesis
      using 3 assms(1) live ctx by (simp add: snap_fits_def snap_sizes_def layer_bytes_def state_bytes)
  qed (use assms(1) live in \<open>simp add: snap_fits_def snap_sizes_def layer_bytes_def\<close>)
qed

lemma layers_bytes_bound:
  assumes "list_all2 (snap_fits ctx raw_live) ls xs" "ctx < 0x80000000" "0 < ctx" "raw_live \<le> ds4_default_raw_cap ctx"
  shows "length (layers_bytes ls xs) \<le> 2199023255552 * length ls"
  using assms(1)
proof (induction rule: list_all2_induct)
  case (Cons l ls x xs)
  then show ?case
    using layer_bytes_bound [OF Cons.hyps(1) assms(2-4)] by simp
qed simp

end
