(* ===== verification/Session_Properties.thy ===== *)
theory Session_Properties
  imports Session_Lemmas
begin

text \<open>Snapshots of CPU sessions: the round trip, the size, and where loading writes behind a buffer.\<close>

text \<open>A session that takes the payloads of another one.\<close>

definition accepts :: "ds4_session \<Rightarrow> ds4_session \<Rightarrow> bool" where
  "accepts t s \<longleftrightarrow> session_shape t \<and> s_ctx_size s \<le> s_ctx_size t \<and> prefill_cap s = prefill_cap t \<and>
     ds4_default_raw_cap (s_ctx_size s) = ds4_default_raw_cap (s_ctx_size t)"

lemma checkpoint_small:
  assumes "session_in_use s"
  shows "length (checkpoint s) < 2147483648"
proof -
  have "unat (s_ctx_size s) < 2147483648"
    using assms by (simp add: session_in_use_def session_shape_def word_less_nat_alt)
  then show ?thesis
    using assms by (simp add: session_in_use_def)
qed

lemma unat_checkpoint:
  assumes "session_in_use s"
  shows "unat (of_nat (length (checkpoint s)) :: u32) = length (checkpoint s)"
    "session_cpu_raw_live_rows s =
      (if of_nat (length (checkpoint s)) < ds4_default_raw_cap (s_ctx_size s)
       then of_nat (length (checkpoint s)) else ds4_default_raw_cap (s_ctx_size s))"
proof -
  have "length (checkpoint s) < 4294967296"
    using checkpoint_small [OF assms] by simp
  then show "unat (of_nat (length (checkpoint s)) :: u32) = length (checkpoint s)"
    by (simp only: unat_of_nat) simp
  show "session_cpu_raw_live_rows s =
      (if of_nat (length (checkpoint s)) < ds4_default_raw_cap (s_ctx_size s)
       then of_nat (length (checkpoint s)) else ds4_default_raw_cap (s_ctx_size s))"
    using assms by (simp add: session_cpu_raw_live_rows_def session_in_use_def Let_def)
qed

lemma payload_header_good:
  assumes "session_in_use s" "accepts t s"
  shows "header_good t (payload_header s)"
proof -
  have s: "session_shape s" "length (checkpoint s) < unat (s_ctx_size s)" and t: "session_shape t"
    using assms by (auto simp: session_in_use_def accepts_def)
  have ctx: "0 < s_ctx_size s" "s_ctx_size s \<le> s_ctx_size t"
    using s(1) assms(2) by (auto simp: session_shape_def accepts_def)
  have toks: "of_nat (length (checkpoint s)) < s_ctx_size t"
    using s(2) ctx(2) unat_checkpoint(1) [OF assms(1)] by (simp add: word_less_nat_alt word_le_nat_alt)
  have cap: "s_ctx_size s div 4 + 2 \<le> s_ctx_size t div 4 + 2"
  proof -
    have "unat (s_ctx_size s) div 4 \<le> unat (s_ctx_size t) div 4"
      using ctx(2) by (simp add: word_le_nat_alt div_le_mono)
    then show ?thesis
      using s(1) t comp_cap_unat [of "s_ctx_size s" 4] comp_cap_unat [of "s_ctx_size t" 4]
      by (simp add: word_le_nat_alt session_shape_def)
  qed
  note raw = raw_cap_props [OF ctx(1)]
  have live: "session_cpu_raw_live_rows s \<le> ds4_default_raw_cap (s_ctx_size s)"
    using raw_live_props [OF ctx(1)] .
  have e: "ds4_default_raw_cap (s_ctx_size s) = ds4_default_raw_cap (s_ctx_size t)" "prefill_cap s = prefill_cap t"
    using assms(2) by (simp_all add: accepts_def)
  show ?thesis
    using toks ctx(2) cap live raw(1)
    by (auto simp: header_good_def header_fits_def payload_header_def Let_def DS4_SESSION_PAYLOAD_U32_FIELDS_def
        session_cpu_comp_cap_shape [OF s(1)] session_cpu_comp_cap_shape [OF t] e unat_checkpoint(2) [OF assms(1)]
        not_less not_le)
qed

lemma snaps_fit:
  assumes "session_in_use s" "accepts t s"
  shows "list_all2 (snap_fits (s_ctx_size t) (session_cpu_raw_live_rows s)) (fresh_layers t) (session_snaps s)"
    "map compress_ratio (fresh_layers t) = map compress_ratio (cpu_cache s)"
proof -
  let ?r = "session_cpu_raw_live_rows s"
  have s: "session_shape s" "\<forall>l \<in> set (cpu_cache s). layer_in_use ?r l" and t: "session_shape t"
    using assms by (auto simp: session_in_use_def accepts_def)
  have len: "length (cpu_cache s) = DS4_N_LAYER" "length (fresh_layers t) = DS4_N_LAYER"
    using s(1) t init_shape(1) by (simp_all add: session_shape_def)
  have ctx: "0 < s_ctx_size s" "s_ctx_size s < 0x80000000" "0 < s_ctx_size t" "s_ctx_size t < 0x80000000"
    using s(1) t by (simp_all add: session_shape_def)
  have sh: "layer_shape (s_ctx_size s) il (cpu_cache s ! il)" "layer_shape (s_ctx_size t) il (fresh_layers t ! il)"
    if "il < DS4_N_LAYER" for il
    using that s(1) init_shape(2) [OF ctx(3)] by (simp_all add: session_shape_def)
  have r: "compress_ratio (fresh_layers t ! il) = compress_ratio (cpu_cache s ! il)" if "il < DS4_N_LAYER" for il
    using layer_shapeD(1) [OF sh(1) [OF that] ctx(2,1)] layer_shapeD(1) [OF sh(2) [OF that] ctx(4,3)] by simp
  then show "map compress_ratio (fresh_layers t) = map compress_ratio (cpu_cache s)"
    using len by (intro nth_equalityI) simp_all
  show "list_all2 (snap_fits (s_ctx_size t) ?r) (fresh_layers t) (session_snaps s)"
    unfolding list_all2_conv_all_nth
  proof (intro conjI allI impI)
    show "length (fresh_layers t) = length (session_snaps s)"
      by (simp add: len session_snaps_def)
    fix il assume "il < length (fresh_layers t)"
    then have il: "il < DS4_N_LAYER"
      by (simp add: len)
    let ?l = "cpu_cache s ! il" and ?k = "fresh_layers t ! il"
    have l: "?l \<in> set (cpu_cache s)" "session_snaps s ! il = snap_of ?r ?l"
      using il len by (simp_all add: session_snaps_def)
    have cap: "comp_cap ?l \<le> comp_cap ?k" if "compress_ratio ?l \<noteq> 0"
    proof -
      have "unat (s_ctx_size s) div n \<le> unat (s_ctx_size t) div n" for n
        using assms(2) by (simp add: accepts_def word_le_nat_alt div_le_mono)
      then show ?thesis
        using layer_shapeD(4) [OF sh(1) [OF il] ctx(2,1)] layer_shapeD(4) [OF sh(2) [OF il] ctx(4,3)] that r [OF il]
        by (simp add: word_le_nat_alt)
    qed
    show "snap_fits (s_ctx_size t) ?r ?k (session_snaps s ! il)"
      using sh(2) [OF il] snap_of_sizes [OF assms(1) l(1)] s(2) l cap r [OF il]
      by (auto simp: snap_fits_def layer_in_use_def snap_of_def split: if_splits intro: order_trans)
  qed
qed

lemma snaps_counts_pass:
  assumes "session_in_use s" "accepts t s"
  shows "counts_pass (payload_header s) t (session_snaps s)"
proof -
  let ?r = "session_cpu_raw_live_rows s"
  have s: "session_shape s" "\<forall>l \<in> set (cpu_cache s). layer_in_use ?r l" and t: "session_shape t"
    using assms by (auto simp: session_in_use_def accepts_def)
  have ctx: "0 < s_ctx_size s" "s_ctx_size s < 0x80000000" "s_ctx_size t < 0x80000000"
    using s(1) t by (simp_all add: session_shape_def)
  have le: "comp_cap l \<le> s_ctx_size s div 4 + 2" if l: "l \<in> set (cpu_cache s)" "compress_ratio l \<noteq> 0" for l
  proof -
    obtain il where sh: "layer_shape (s_ctx_size s) il l"
      using session_layers [OF s(1) l(1)] by blast
    have "unat (compress_ratio l) = 4 \<or> unat (compress_ratio l) = 128"
      using ratio_cases [of il] layer_shapeD(1) [OF sh ctx(2,1)] l(2) by auto
    then have "unat (s_ctx_size s) div unat (compress_ratio l) \<le> unat (s_ctx_size s) div 4"
      by (auto intro: div_le_mono2)
    then show ?thesis
      using layer_shapeD(4) [OF sh ctx(2,1) l(2)] comp_cap_unat [OF ctx(2), of 4] by (simp add: word_le_nat_alt)
  qed
  have "s_ctx_size s div 4 + 2 \<le> s_ctx_size t div 4 + 2"
    using assms(2) ctx comp_cap_unat [of "s_ctx_size s" 4] comp_cap_unat [of "s_ctx_size t" 4]
    by (simp add: word_le_nat_alt accepts_def div_le_mono)
  moreover have "n_comp l \<le> s_ctx_size s div 4 + 2 \<and> n_index_comp l \<le> s_ctx_size s div 4 + 2" if "l \<in> set (cpu_cache s)" for l
    using s(2) that le [OF that] by (auto simp: layer_in_use_def split: if_splits intro: order_trans)
  moreover have "payload_header s ! 6 = s_ctx_size s div 4 + 2"
    by (simp add: payload_header_def Let_def session_cpu_comp_cap_shape [OF s(1)])
  ultimately show ?thesis
    using s(1) by (auto simp: counts_pass_def session_snaps_def snap_of_def session_shape_def
        session_cpu_comp_cap_shape [OF t] intro: order_trans)
qed

lemma session_payload_bound:
  assumes "session_in_use s" "accepts t s"
  shows "length (session_payload s) \<le> 281474976710656"
proof -
  have s: "session_shape s" and t: "session_shape t"
    using assms by (auto simp: session_in_use_def accepts_def)
  have ctx: "0 < s_ctx_size t" "s_ctx_size t < 0x80000000" "0 < s_ctx_size s" "s_ctx_size s < 0x80000000"
    using s t by (simp_all add: session_shape_def)
  have "session_cpu_raw_live_rows s \<le> ds4_default_raw_cap (s_ctx_size t)"
    using raw_live_props [OF ctx(3)] assms(2) by (simp add: accepts_def)
  from layers_bytes_bound [OF snaps_fit(1) [OF assms] ctx(2,1) this]
  have "length (layers_bytes (cpu_cache s) (session_snaps s)) \<le> 2199023255552 * 43"
    using init_shape(1) [OF ctx(1)] layers_bytes_ratios [OF snaps_fit(2) [OF assms], of "session_snaps s"]
    by (simp add: DS4_N_LAYER_def)
  moreover have "length (checkpoint s) < 4294967296"
    using checkpoint_small [OF assms(1)] by simp
  moreover have "length (payload_header s) = 13" "length (logits s) = 517120" "length (session_snaps s) = 43"
    using s by (simp_all add: payload_header_def Let_def session_shape_def DS4_N_VOCAB_def sizeof_float_def
        session_snaps_def DS4_N_LAYER_def)
  ultimately show ?thesis
    by (simp add: session_payload_def payload_of_def)
qed

lemma session_payload_fits:
  assumes "session_in_use s" "accepts t s"
  shows "fits_u64 (length (session_payload s))"
  using session_payload_bound [OF assms] by simp

section \<open>The round trip\<close>

lemma snap_of_filled:
  assumes "layer_shape ctx il l" "ctx < 0x80000000" "0 < ctx" "layer_in_use raw_live l"
    and k: "k = init_layer ctx' (ds4_default_raw_cap ctx') il"
  shows "snap_of raw_live (filled raw_live (snap_of raw_live l) k) = snap_of raw_live l"
    "n_raw (filled raw_live (snap_of raw_live l) k) = raw_live"
proof -
  note d = layer_shapeD [OF assms(1-3)]
  have sz: "snap_sizes raw_live (compress_ratio l) (snap_of raw_live l)"
    by (rule layer_spans_snap(2) [OF assms(1-4)])
  have k0: "compress_ratio k = compress_ratio l" "n_comp k = 0" "n_index_comp k = 0"
    "compress_ratio k = 0 \<Longrightarrow> attn_comp_kv k = [] \<and> attn_state_kv k = [] \<and> attn_state_score k = []"
    "compress_ratio k \<noteq> 4 \<Longrightarrow> index_comp_kv k = [] \<and> index_state_kv k = [] \<and> index_state_score k = []"
    using d(1) by (simp_all add: k init_layer_def Let_def)
  have l0: "compress_ratio l = 0 \<Longrightarrow> attn_comp_kv l = [] \<and> attn_state_kv l = [] \<and> attn_state_score l = [] \<and> n_comp l = 0"
    "compress_ratio l \<noteq> 4 \<Longrightarrow> index_comp_kv l = [] \<and> index_state_kv l = [] \<and> index_state_score l = [] \<and> n_index_comp l = 0"
    using assms(1,4) by (auto simp: layer_shape_def init_layer_def Let_def layer_in_use_def split: if_splits)
  have b: "compress_ratio l \<noteq> 0 \<Longrightarrow> length (attn_state_kv k) = length (attn_state_kv l) \<and> length (attn_state_score k) = length (attn_state_score l)"
    "compress_ratio l = 4 \<Longrightarrow> length (index_state_kv k) = length (index_state_kv l) \<and> length (index_state_score k) = length (index_state_score l)"
    using assms(1) by (simp_all add: k layer_shape_def init_layer_def Let_def split: if_splits)
  show "n_raw (filled raw_live (snap_of raw_live l) k) = raw_live"
    by (simp add: filled_def Let_def)
  have raw: "length (ls_raw (snap_of raw_live l)) = unat raw_live * 2048"
    using sz by (simp add: snap_sizes_def)
  let ?x = "snap_of raw_live l" and ?f = "filled raw_live (snap_of raw_live l) k"
  have x: "ls_nc ?x = n_comp l" "ls_ni ?x = n_index_comp l" "ls_kv ?x = attn_state_kv l" "ls_score ?x = attn_state_score l"
    "ls_ikv ?x = index_state_kv l" "ls_iscore ?x = index_state_score l"
    by (simp_all add: snap_of_def)
  have xc: "compress_ratio l \<noteq> 0 \<Longrightarrow> length (ls_comp ?x) = unat (n_comp l) * 2048"
    "compress_ratio l = 4 \<Longrightarrow> length (ls_icomp ?x) = unat (n_index_comp l) * 512"
    using sz x by (simp_all add: snap_sizes_def)
  have x0: "compress_ratio l = 0 \<Longrightarrow> ls_comp ?x = []" "compress_ratio l \<noteq> 4 \<Longrightarrow> ls_icomp ?x = []"
    using l0 by (simp_all add: snap_of_def)
  have f: "n_raw ?f = raw_live" "raw_kv ?f = ls_raw ?x @ drop (unat raw_live * 2048) (raw_kv k)"
    by (simp_all add: filled_def Let_def raw)
  consider "compress_ratio l = 0" | "compress_ratio l = 4" | "compress_ratio l \<noteq> 0" "compress_ratio l \<noteq> 4"
    by blast
  then show "snap_of raw_live ?f = ?x"
  proof cases
    case 1
    then have "n_comp ?f = 0" "n_index_comp ?f = 0" "attn_comp_kv ?f = []" "attn_state_kv ?f = []" "attn_state_score ?f = []"
      "index_comp_kv ?f = []" "index_state_kv ?f = []" "index_state_score ?f = []"
      using k0 by (simp_all add: filled_def Let_def)
    then show ?thesis
      unfolding snap_of_def [of raw_live ?f] f using 1 l0 x x0
      by (intro layer_snap.equality) (simp_all add: raw)
  next
    case 2
    then have "n_comp ?f = n_comp l" "n_index_comp ?f = n_index_comp l" "attn_comp_kv ?f = ls_comp ?x @ drop (length (ls_comp ?x)) (attn_comp_kv k)"
      "attn_state_kv ?f = attn_state_kv l" "attn_state_score ?f = attn_state_score l"
      "index_comp_kv ?f = ls_icomp ?x @ drop (length (ls_icomp ?x)) (index_comp_kv k)"
      "index_state_kv ?f = index_state_kv l" "index_state_score ?f = index_state_score l"
      using k0(1) b x by (simp_all add: filled_def Let_def)
    then show ?thesis
      unfolding snap_of_def [of raw_live ?f] f using 2 x xc
      by (intro layer_snap.equality) (simp_all add: raw)
  next
    case 3
    then have "n_comp ?f = n_comp l" "n_index_comp ?f = n_index_comp l" "attn_comp_kv ?f = ls_comp ?x @ drop (length (ls_comp ?x)) (attn_comp_kv k)"
      "attn_state_kv ?f = attn_state_kv l" "attn_state_score ?f = attn_state_score l"
      "index_comp_kv ?f = []" "index_state_kv ?f = []" "index_state_score ?f = []"
      using k0(1,5) b x by (simp_all add: filled_def Let_def)
    then show ?thesis
      unfolding snap_of_def [of raw_live ?f] f using 3 x xc x0 l0
      by (intro layer_snap.equality) (simp_all add: raw)
  qed
qed

lemma filled_shape:
  assumes "layer_shape ctx il k" "ctx < 0x80000000" "0 < ctx" "snap_sizes raw_live (compress_ratio k) x"
    "raw_live \<le> ds4_default_raw_cap ctx" "compress_ratio k \<noteq> 0 \<Longrightarrow> ls_nc x \<le> comp_cap k"
    "compress_ratio k = 4 \<Longrightarrow> ls_ni x \<le> comp_cap k"
  shows "layer_shape ctx il (filled raw_live x k)"
proof -
  note d = layer_shapeD [OF assms(1-3)]
  have "unat raw_live * 2048 \<le> length (raw_kv k)"
    using assms(5) d(3) by (simp add: word_le_nat_alt)
  moreover have "compress_ratio k \<noteq> 0 \<Longrightarrow> unat (ls_nc x) * 2048 \<le> length (attn_comp_kv k)"
    "compress_ratio k = 4 \<Longrightarrow> unat (ls_ni x) * 512 \<le> length (index_comp_kv k)"
    using assms(6,7) d(5,8) by (simp_all add: word_le_nat_alt)
  ultimately have "cap_raw (filled raw_live x k) = cap_raw k \<and> compress_ratio (filled raw_live x k) = compress_ratio k \<and>
      comp_cap (filled raw_live x k) = comp_cap k \<and> length (raw_kv (filled raw_live x k)) = length (raw_kv k) \<and>
      length (attn_comp_kv (filled raw_live x k)) = length (attn_comp_kv k) \<and>
      length (attn_state_kv (filled raw_live x k)) = length (attn_state_kv k) \<and>
      length (attn_state_score (filled raw_live x k)) = length (attn_state_score k) \<and>
      length (index_comp_kv (filled raw_live x k)) = length (index_comp_kv k) \<and>
      length (index_state_kv (filled raw_live x k)) = length (index_state_kv k) \<and>
      length (index_state_score (filled raw_live x k)) = length (index_state_score k)"
    using assms(4) d(6,7,9,10) by (simp add: filled_def Let_def snap_sizes_def)
  then show ?thesis
    using assms(1) by (simp add: layer_shape_def Let_def)
qed

lemma loaded_layers:
  assumes "session_in_use s" "accepts t s"
  defines "ks \<equiv> map2 (\<lambda>k x. filled (session_cpu_raw_live_rows s) x k) (fresh_layers t) (session_snaps s)"
  shows "length ks = DS4_N_LAYER"
    "il < DS4_N_LAYER \<Longrightarrow> layer_shape (s_ctx_size t) il (ks ! il) \<and>
       snap_of (session_cpu_raw_live_rows s) (ks ! il) = session_snaps s ! il \<and>
       n_raw (ks ! il) = session_cpu_raw_live_rows s \<and> layer_in_use (session_cpu_raw_live_rows s) (ks ! il)"
proof -
  let ?r = "session_cpu_raw_live_rows s"
  have s: "session_shape s" "\<forall>l \<in> set (cpu_cache s). layer_in_use ?r l" and t: "session_shape t"
    using assms(1,2) by (auto simp: session_in_use_def accepts_def)
  have ctx: "0 < s_ctx_size s" "s_ctx_size s < 0x80000000" "0 < s_ctx_size t" "s_ctx_size t < 0x80000000"
    using s(1) t by (simp_all add: session_shape_def)
  have len: "length (cpu_cache s) = DS4_N_LAYER" "length (fresh_layers t) = DS4_N_LAYER"
    using s(1) init_shape(1) [OF ctx(3)] by (simp_all add: session_shape_def)
  show "length ks = DS4_N_LAYER"
    by (simp add: ks_def len session_snaps_def)
  assume il: "il < DS4_N_LAYER"
  let ?l = "cpu_cache s ! il" and ?k = "fresh_layers t ! il"
  have k: "?k = init_layer (s_ctx_size t) (ds4_default_raw_cap (s_ctx_size t)) il"
    using il by (simp add: kv_cache_init_layers [OF ctx(3)])
  have sh: "layer_shape (s_ctx_size s) il ?l" "layer_shape (s_ctx_size t) il ?k" "layer_in_use ?r ?l"
    using s il len init_shape(2) [OF ctx(3) il] by (simp_all add: session_shape_def)
  have ks: "ks ! il = filled ?r (snap_of ?r ?l) ?k"
    using il len by (simp add: ks_def session_snaps_def)
  have live: "?r \<le> ds4_default_raw_cap (s_ctx_size t)"
    using raw_live_props [OF ctx(1)] assms(2) by (simp add: accepts_def)
  have fits: "snap_fits (s_ctx_size t) ?r ?k (snap_of ?r ?l)"
    using list_all2_nthD [OF snaps_fit(1) [OF assms(1,2)], of il] il len by (simp add: session_snaps_def)
  note f = snap_of_filled [OF sh(1) ctx(2,1) sh(3) k]
  have shape: "layer_shape (s_ctx_size t) il (ks ! il)"
    using fits unfolding ks snap_fits_def by (intro filled_shape [OF sh(2) ctx(4,3) _ live]) auto
  have ratio: "compress_ratio (ks ! il) = compress_ratio ?l" "comp_cap (ks ! il) = comp_cap ?k"
    "compress_ratio ?k = compress_ratio ?l"
    using layer_shapeD(1) [OF shape ctx(4,3)] layer_shapeD(1) [OF sh(1) ctx(2,1)] shape sh(2) layer_shapeD(1) [OF sh(2) ctx(4,3)]
    by (simp_all add: layer_shape_def Let_def)
  have nc: "n_comp (ks ! il) = n_comp ?l" "n_index_comp (ks ! il) = n_index_comp ?l"
    using arg_cong [OF f(1), of ls_nc] arg_cong [OF f(1), of ls_ni] by (simp_all add: ks snap_of_def)
  have "layer_in_use ?r (ks ! il)"
    using sh(3) fits f(2) live layer_shapeD(2) [OF shape ctx(4,3)]
    by (simp add: layer_in_use_def nc ratio snap_fits_def ks [symmetric]) (simp add: snap_of_def)
  then show "layer_shape (s_ctx_size t) il (ks ! il) \<and> snap_of ?r (ks ! il) = session_snaps s ! il \<and>
      n_raw (ks ! il) = ?r \<and> layer_in_use ?r (ks ! il)"
    using shape f il len by (simp add: ks session_snaps_def)
qed

lemma session_load_saved:
  assumes "session_in_use s" "accepts t s"
  shows "\<exists>t'. ds4_session_load_payload t (session_payload s @ tail) (ds4_session_payload_bytes s) = Loaded t' tail \<and>
    checkpoint t' = checkpoint s \<and> logits t' = logits s \<and> session_snaps t' = session_snaps s \<and>
    s_ctx_size t' = s_ctx_size t \<and> session_in_use t'"
proof -
  let ?r = "session_cpu_raw_live_rows s" and ?h = "payload_header s"
  have s: "session_shape s" and t: "session_shape t"
    using assms by (auto simp: session_in_use_def accepts_def)
  have ctx: "0 < s_ctx_size t" "s_ctx_size t < 0x80000000" "0 < s_ctx_size s"
    using s t by (simp_all add: session_shape_def)
  note fits = session_payload_fits [OF assms]
  have live: "?r \<le> ds4_default_raw_cap (s_ctx_size t)"
    using raw_live_props [OF ctx(3)] assms(2) by (simp add: accepts_def)
  define ks where "ks = map2 (\<lambda>k x. filled ?r x k) (fresh_layers t) (session_snaps s)"
  note lk = loaded_layers [OF assms, folded ks_def]
  have lb: "layers_bytes (cpu_cache s) (session_snaps s) = layers_bytes (fresh_layers t) (session_snaps s)"
    using layers_bytes_ratios [OF snaps_fit(2) [OF assms]] by simp
  have "fits_u64 (length (layers_bytes (fresh_layers t) (session_snaps s)) + length ([] :: u8 list))"
    using fits lb by (simp add: session_payload_def payload_of_def)
  from read_layers_at [OF ctx(2,1) live snaps_fit(1) [OF assms] this, of tail]
  have rl: "read_layers ?r (counts (session_snaps s)) (fresh_layers t)
      (Go (reader_at (layers_bytes (cpu_cache s) (session_snaps s)) tail)) = (ks, Go (tail, 0))"
    by (simp add: lb ks_def) (simp add: reader_at_def)
  let ?t = "t\<lparr>logits := logits s, cpu_cache := ks, checkpoint := checkpoint s, checkpoint_valid := True, mtp_draft_valid := False\<rparr>"
  have h: "?h ! 12 = ?r" "?h ! 7 = of_nat (length (checkpoint s))"
    by (simp_all add: payload_header_def Let_def)
  have load: "ds4_session_load_payload t (session_payload s @ tail) (ds4_session_payload_bytes s) = Loaded ?t tail"
    using load_payload_to_layers [OF t payload_header_good [OF assms] _ _ snaps_counts_pass [OF assms], of "checkpoint s" "logits s"
        "cpu_cache s" tail] s fits unat_checkpoint(1) [OF assms(1)]
    by (simp add: session_payload_def [symmetric] h rl payload_bytes_exact [OF assms(1)] session_shape_def)
  have r: "session_cpu_raw_live_rows ?t = ?r"
    using assms by (simp add: session_cpu_raw_live_rows_def session_in_use_def accepts_def Let_def)
  have "length (checkpoint s) < unat (s_ctx_size t)"
    using assms by (auto simp: session_in_use_def accepts_def word_le_nat_alt)
  then have "session_in_use ?t"
    using lk s t by (auto simp: session_in_use_def r session_shape_def in_set_conv_nth)
  moreover have "session_snaps ?t = session_snaps s"
    unfolding session_snaps_def [of ?t] r
    using lk s by (intro nth_equalityI) (simp_all add: session_snaps_def session_shape_def)
  ultimately show ?thesis
    using load by (intro exI [of _ ?t]) simp
qed

lemma session_payload_size:
  assumes "session_in_use s" "accepts t s"
  shows "unat (ds4_session_payload_bytes s) = length (session_payload s)"
  using payload_bytes_exact [OF assms(1)] unat_of_nat_fits [OF session_payload_fits [OF assms]] by simp

text \<open>
  C38: The snapshot of a CPU session is exact. Saving a session in use reads no byte behind its buffers; it succeeds exactly
  when the device takes the payload, whose size is the one \<open>ds4_session_payload_bytes\<close> announced. Loading these bytes
  into a session with at least the same context and the same windows consumes exactly them and restores the tokens, the
  logits, and for every layer the live rows, the row counts and the compressor states; the result is a session in use again.
\<close>

theorem session_payload_round_trip:
  assumes "session_in_use s" "accepts t s"
  shows "\<exists>f' bs t'. ds4_session_save_payload s f = Some (f', length bs \<le> room f) \<and>
    (length bs \<le> room f \<longrightarrow> written f' = written f @ bs) \<and> unat (ds4_session_payload_bytes s) = length bs \<and>
    ds4_session_load_payload t (bs @ tail) (ds4_session_payload_bytes s) = Loaded t' tail \<and>
    checkpoint t' = checkpoint s \<and> logits t' = logits s \<and> session_snaps t' = session_snaps s \<and>
    s_ctx_size t' = s_ctx_size t \<and> session_in_use t'"
proof -
  obtain f' where f': "ds4_session_save_payload s f = Some (f', length (session_payload s) \<le> room f)"
    "length (session_payload s) \<le> room f \<Longrightarrow> written f' = written f @ session_payload s"
    using save_payload_exact [OF assms(1), of f] by (auto simp: wrote_def)
  obtain t' where "ds4_session_load_payload t (session_payload s @ tail) (ds4_session_payload_bytes s) = Loaded t' tail"
    "checkpoint t' = checkpoint s" "logits t' = logits s" "session_snaps t' = session_snaps s" "s_ctx_size t' = s_ctx_size t"
    "session_in_use t'"
    using session_load_saved [OF assms, of tail] by blast
  then show ?thesis
    using f' session_payload_size [OF assms] by (intro exI [of _ f'] exI [of _ "session_payload s"] exI [of _ t']) simp
qed

definition saved_example :: ds4_session where
  "saved_example = (ds4_session_create (float_zeros DS4_N_VOCAB) 64 256)
     \<lparr>checkpoint := [5], checkpoint_valid := True, cpu_cache := map (\<lambda>l. l\<lparr>n_raw := 1\<rparr>) (kv_cache_init 256 0)\<rparr>"

lemma default_raw_caps: "ds4_default_raw_cap 256 = 128" "ds4_default_raw_cap 512 = 128"
  by (simp_all add: ds4_default_raw_cap_def DS4_N_SWA_def)

lemma saved_example_shape: "session_shape saved_example"
proof -
  have "layer_shape 256 il ((init_layer 256 128 il)\<lparr>n_raw := 1\<rparr>)" for il
    using layer_shape_init [of 256 il] by (simp add: layer_shape_def Let_def default_raw_caps)
  then show ?thesis
    using init_shape(1) [of 256]
    by (simp add: saved_example_def session_shape_def ds4_session_create_def kv_cache_init_layers default_raw_caps
        sizeof_float_def)
qed

abbreviation larger_session :: ds4_session where
  "larger_session \<equiv> ds4_session_create (float_zeros DS4_N_VOCAB) 64 512"

lemma saved_example_in_use: "session_in_use saved_example"
proof -
  note saved_example_shape
  moreover have "layer_in_use 1 ((init_layer 256 128 il)\<lparr>n_raw := 1\<rparr>)" for il
    by (simp add: layer_in_use_def init_layer_def Let_def)
  moreover have "session_cpu_raw_live_rows saved_example = 1"
    by (simp add: session_cpu_raw_live_rows_def saved_example_def ds4_session_create_def default_raw_caps Let_def)
  ultimately show ?thesis
    by (auto simp: session_in_use_def saved_example_def ds4_session_create_def kv_cache_init_layers default_raw_caps)
qed

lemma larger_accepts: "accepts larger_session saved_example"
proof -
  have "session_shape larger_session"
    by (rule session_create_shape) (simp_all add: sizeof_float_def)
  then show ?thesis
    by (simp add: accepts_def saved_example_def ds4_session_create_def default_raw_caps)
qed

theorem session_payload_round_trip_witness:
  "\<exists>f' bs t'. ds4_session_save_payload saved_example \<lparr>written = [], room = 10 ^ 9\<rparr> = Some (f', length bs \<le> 10 ^ 9) \<and>
    ds4_session_load_payload larger_session (bs @ [1]) (ds4_session_payload_bytes saved_example) = Loaded t' [1] \<and>
    checkpoint t' = [5] \<and> session_in_use t'"
proof -
  have "checkpoint saved_example = [5]"
    by (simp add: saved_example_def)
  then show ?thesis
    using session_payload_round_trip [OF saved_example_in_use larger_accepts, of "\<lparr>written = [], room = 10 ^ 9\<rparr>" "[1]"]
    by auto
qed

end
