(* ===== verification/Session_Overrun.thy ===== *)
theory Session_Overrun
  imports Session_Properties
begin

text \<open>Where loading a session payload writes behind a buffer of the CPU caches.\<close>

lemma read_bytes_overrunD:
  assumes "payload_read_bytes n (buf, p) = (buf', Overrun)"
  shows "p = Overrun \<or> length buf < unat n"
  using assms by (auto simp: payload_read_bytes_def Let_def split: progress.splits if_splits)

lemma read_bytes_length:
  assumes "payload_read_bytes n (buf, p) = (buf', p')"
  shows "length buf' = length buf"
  using assms by (auto simp: payload_read_bytes_def Let_def split: progress.splits if_splits)

lemma read_layer_overrunD:
  assumes sh: "layer_shape ctx il l" "ctx < 0x80000000" "0 < ctx" and live: "raw_live \<le> ds4_default_raw_cap ctx"
    and over: "read_layer raw_live nc ni l (Go r) = (l', Overrun)"
    and caps: "nc \<le> ctx div 4 + 2" "ni \<le> ctx div 4 + 2"
  shows "ds4_layer_compress_ratio il = 128 \<and> comp_cap l < nc"
proof -
  note d = layer_shapeD [OF sh]
  have raw: "unat raw_live * 2048 \<le> length (raw_kv l)"
    using live d(3) by (simp add: word_le_nat_alt)
  obtain b p where r0: "payload_read_bytes (row_bytes raw_live DS4_N_HEAD_DIM) (raw_kv l, Go r) = (b, p)"
    by (cases "payload_read_bytes (row_bytes raw_live DS4_N_HEAD_DIM) (raw_kv l, Go r)")
  have "p \<noteq> Overrun"
    using read_bytes_overrunD [of _ _ "Go r"] r0 raw by fastforce
  then obtain r' where p: "p = Go r'" and nz: "compress_ratio l \<noteq> 0"
    using over by (cases p) (auto simp: read_layer_def r0 Let_def split: if_splits)
  have "length (attn_comp_kv l) < unat nc * 2048"
  proof (rule ccontr)
    assume "\<not> length (attn_comp_kv l) < unat nc * 2048"
    then show False
      using over nz d(6,7,8,9,10) caps(2) comp_cap_unat [of ctx 4] sh(2) d(4)
      by (auto simp: read_layer_def r0 p Let_def word_le_nat_alt split: prod.splits if_splits
          dest!: read_bytes_overrunD)
  qed
  then have lt: "comp_cap l < nc"
    using d(5) [OF nz] by (simp add: word_less_nat_alt)
  have "compress_ratio l \<noteq> 4"
  proof
    assume r: "compress_ratio l = 4"
    have "comp_cap l = ctx div 4 + 2"
      using sh(1) r d(1) by (auto simp: layer_shape_def init_layer_def Let_def)
    then show False
      using lt caps(1) by simp
  qed
  then show ?thesis
    using lt nz d(1) ratio_cases [of il] by auto
qed

lemma read_layers_overrunD:
  assumes "read_layers raw_live ns ls (Go r) = (ls', Overrun)" "length ns = length ls"
  shows "\<exists>i < length ls. \<exists>r' l'. read_layer raw_live (fst (ns ! i)) (snd (ns ! i)) (ls ! i) (Go r') = (l', Overrun)"
  using assms
proof (induction ls arbitrary: ns r ls')
  case (Cons l ls)
  then obtain nc ni ms where ns: "ns = (nc, ni) # ms"
    by (cases ns) auto
  obtain l1 p where l1: "read_layer raw_live nc ni l (Go r) = (l1, p)"
    by (cases "read_layer raw_live nc ni l (Go r)")
  show ?case
  proof (cases p)
    case (Go r')
    then obtain ks where "read_layers raw_live ms ls (Go r') = (ks, Overrun)"
      using Cons.prems(1) l1 by (auto simp: ns split: prod.splits)
    from Cons.IH [OF this] obtain i r'' l'' where i: "i < length ls"
      "read_layer raw_live (fst (ms ! i)) (snd (ms ! i)) (ls ! i) (Go r'') = (l'', Overrun)"
      using Cons.prems(2) by (auto simp: ns)
    then show ?thesis
      by (intro exI [of _ "Suc i"]) (cases r'', auto simp: ns)
  next
    case Stop
    have "read_layers raw_live ms ls Stop = (ls, Stop)"
      by (cases ms; cases ls) auto
    then show ?thesis
      using Cons.prems(1) l1 Stop by (simp add: ns)
  next
    case Overrun
    then show ?thesis
      using l1 by (intro exI [of _ 0]) (cases r, auto simp: ns)
  qed
qed auto

lemma read_counts_u32s:
  "read_counts saved_cap cap n r = Some (vs, r') \<Longrightarrow>
    read_u32s n r = Some (vs, r') \<and> length vs = n \<and> (\<forall>v \<in> set vs. v \<le> saved_cap \<and> v \<le> cap)"
  by (induction n arbitrary: r vs r') (auto split: option.splits if_splits prod.splits)

text \<open>The row counts of compressed rows a payload holds, one for each layer.\<close>

definition saved_row_counts :: "u8 list \<Rightarrow> u64 \<Rightarrow> u32 list option" where
  "saved_row_counts fp n =
     (case read_u32s DS4_SESSION_PAYLOAD_U32_FIELDS (fp, n) of None \<Rightarrow> None
      | Some (h, r) \<Rightarrow> (case read_u32s (unat (h ! 7)) r of None \<Rightarrow> None
        | Some (toks, fp1, n1) \<Rightarrow>
            map_option fst (read_u32s DS4_N_LAYER (drop (DS4_N_VOCAB * 4) fp1, n1 - of_nat (DS4_N_VOCAB * 4)))))"

lemma read_bytes_go:
  assumes "payload_read_bytes n (buf, Go (fp, k)) = (buf', Go r)"
  shows "r = (drop (unat n) fp, k - n)"
  using assms by (auto simp: payload_read_bytes_def Let_def split: if_splits)

lemma load_rows_overrunD:
  assumes "load_rows s h toks r = Load_overrun" "session_shape s" "header_fits s h"
  shows "\<exists>ncs il. map_option fst (read_u32s DS4_N_LAYER r) = Some ncs \<and> il < DS4_N_LAYER \<and>
    ds4_layer_compress_ratio il = 128 \<and> comp_cap (cpu_cache s ! il) < ncs ! il"
proof -
  let ?cap = "session_cpu_comp_cap s"
  obtain ncs r1 where ncs: "read_counts (h ! 6) ?cap DS4_N_LAYER r = Some (ncs, r1)"
    using assms(1) by (auto simp: load_rows_def split: option.splits)
  obtain nis r2 where nis: "read_counts (h ! 6) ?cap DS4_N_LAYER r1 = Some (nis, r2)"
    using assms(1) by (auto simp: load_rows_def ncs split: option.splits)
  let ?ls = "kv_cache_init (s_ctx_size s) 0"
  have ctx: "s_ctx_size s < 0x80000000" "0 < s_ctx_size s"
    using assms(2) by (auto simp: session_shape_def)
  have lens: "length ?ls = DS4_N_LAYER" "length ncs = DS4_N_LAYER" "length nis = DS4_N_LAYER"
    using init_shape(1) [OF ctx(2)] read_counts_u32s [OF ncs] read_counts_u32s [OF nis] by auto
  obtain ls' where "read_layers (h ! 12) (zip ncs nis) ?ls (Go r2) = (ls', Overrun)"
    using assms(1) by (auto simp: load_rows_def ncs nis session_cpu_reset_cache_def Let_def
        split: prod.splits progress.splits if_splits)
  from read_layers_overrunD [OF this] obtain il r' l' where il: "il < DS4_N_LAYER"
    "read_layer (h ! 12) (ncs ! il) (nis ! il) (?ls ! il) (Go r') = (l', Overrun)"
    using lens by auto
  have "h ! 12 \<le> ds4_default_raw_cap (s_ctx_size s)"
    using assms(3) by (auto simp: header_fits_def Let_def not_less)
  moreover have "ncs ! il \<le> s_ctx_size s div 4 + 2" "nis ! il \<le> s_ctx_size s div 4 + 2"
    using read_counts_u32s [OF ncs] read_counts_u32s [OF nis] il(1) lens session_cpu_comp_cap_shape [OF assms(2)] by auto
  ultimately have "ds4_layer_compress_ratio il = 128 \<and> comp_cap (?ls ! il) < ncs ! il"
    using read_layer_overrunD [OF init_shape(2) [OF ctx(2) il(1)] ctx _ il(2)] by simp
  moreover have "comp_cap (cpu_cache s ! il) = comp_cap (?ls ! il)"
    using assms(2) init_shape(2) [OF ctx(2) il(1)] il(1) by (simp add: session_shape_def layer_shape_def Let_def)
  moreover have "map_option fst (read_u32s DS4_N_LAYER r) = Some ncs"
    using read_counts_u32s [OF ncs] by simp
  ultimately show ?thesis
    using il(1) by (intro exI [of _ ncs] exI [of _ il]) simp
qed

lemma header_fits_logits [simp]: "header_fits (t\<lparr>logits := b\<rparr>) h = header_fits t h"
proof -
  have "session_cpu_comp_cap (t\<lparr>logits := b\<rparr>) = session_cpu_comp_cap t"
    by (simp add: session_cpu_comp_cap_def split: option.split)
  then show ?thesis
    by (cases t) (simp add: header_fits_def)
qed

text \<open>
  C39: loading a payload into a CPU session writes behind a buffer only when the payload counts, for a layer compressed
  128 to 1, more rows than this layer has room for. Every other malformed payload is refused, or fails without writing
  outside the caches.
\<close>

theorem load_overrun_needs_count:
  assumes "session_shape t" "ds4_session_load_payload t fp n = Load_overrun"
  shows "\<exists>ncs il. saved_row_counts fp n = Some ncs \<and> il < DS4_N_LAYER \<and> ds4_layer_compress_ratio il = 128 \<and>
    comp_cap (cpu_cache t ! il) < ncs ! il"
proof -
  obtain h r where h: "read_u32s DS4_SESSION_PAYLOAD_U32_FIELDS (fp, n) = Some (h, r)"
    using assms(2) by (auto simp: ds4_session_load_payload_def split: option.splits)
  have fits: "header_fits t h"
    using assms(2) by (auto simp: ds4_session_load_payload_def h split: if_splits)
  obtain toks fp1 n1 where toks: "read_u32s (unat (h ! 7)) r = Some (toks, fp1, n1)"
    using assms(2) by (auto simp: ds4_session_load_payload_def h split: option.splits if_splits)
  obtain buf p where p: "payload_read_bytes (of_nat DS4_N_VOCAB * 4) (logits t, Go (fp1, n1)) = (buf, p)"
    by (cases "payload_read_bytes (of_nat DS4_N_VOCAB * 4) (logits t, Go (fp1, n1))")
  have "p \<noteq> Overrun"
    using read_bytes_overrunD [of _ _ "Go (fp1, n1)"] p assms(1)
    by (fastforce simp: session_shape_def DS4_N_VOCAB_def sizeof_float_def)
  then obtain r2 where r2: "p = Go r2" "load_rows (t\<lparr>logits := buf\<rparr>) h toks r2 = Load_overrun"
    using assms(2) by (cases p) (auto simp: ds4_session_load_payload_def h toks p split: if_splits)
  have len: "length buf = length (logits t)"
    using read_bytes_length [OF p] .
  have r2': "r2 = (drop (DS4_N_VOCAB * 4) fp1, n1 - of_nat (DS4_N_VOCAB * 4))"
    using read_bytes_go p r2(1) by (fastforce simp: DS4_N_VOCAB_def)
  have "header_fits (t\<lparr>logits := buf\<rparr>) h" "session_shape (t\<lparr>logits := buf\<rparr>)"
    using fits assms(1) len by (simp_all add: session_shape_def)
  then show ?thesis
    using load_rows_overrunD [OF r2(2)] by (simp add: saved_row_counts_def h toks r2')
qed

text \<open>Such payloads exist for every context of four tokens or more.\<close>

lemma read_layers_stuck [simp]:
  "read_layers raw_live ns ls Stop = (ls, Stop)" "read_layers raw_live ns ls Overrun = (ls, Overrun)"
  by (cases ns; cases ls; auto)+

lemma read_layers_append:
  "read_layers raw_live ns ls (Go r) = (ks, Go r') \<Longrightarrow> length ns = length ls \<Longrightarrow>
    read_layers raw_live (ns @ ns') (ls @ ls') (Go r) =
      (case read_layers raw_live ns' ls' (Go r') of (ks', p) \<Rightarrow> (ks @ ks', p))"
proof (induction ls arbitrary: ns r ks)
  case (Cons l ls)
  then obtain nc ni ms where ns: "ns = (nc, ni) # ms"
    by (cases ns) auto
  obtain l1 p where l1: "read_layer raw_live nc ni l (Go r) = (l1, p)"
    by (cases "read_layer raw_live nc ni l (Go r)")
  then obtain r1 ks1 where "p = Go r1" "read_layers raw_live ms ls (Go r1) = (ks1, Go r')" "ks = l1 # ks1"
    using Cons.prems(1) l1 by (cases p) (auto simp: ns split: prod.splits)
  then show ?case
    using Cons.IH [of ms r1 ks1] Cons.prems(2) l1 by (auto simp: ns split: prod.splits)
qed simp

definition zero_snap :: "u32 \<Rightarrow> u32 \<Rightarrow> layer_snap" where
  "zero_snap nc ratio =
     \<lparr>ls_raw = [], ls_nc = nc, ls_ni = 0, ls_comp = replicate (unat nc * 2048) 0,
      ls_kv = replicate (unat (layer_attn_state_bytes ratio)) 0,
      ls_score = replicate (unat (layer_attn_state_bytes ratio)) 0, ls_icomp = [],
      ls_ikv = replicate (unat (layer_index_state_bytes ratio)) 0,
      ls_iscore = replicate (unat (layer_index_state_bytes ratio)) 0\<rparr>"

lemma zero_snap_simps [simp]:
  "ls_nc (zero_snap nc ratio) = nc" "ls_ni (zero_snap nc ratio) = 0" "snap_sizes 0 ratio (zero_snap nc ratio)"
  "compress_ratio (init_layer ctx cap il) = ds4_layer_compress_ratio il"
  by (simp_all add: snap_sizes_def zero_snap_def init_layer_def Let_def)

definition bad_count :: "u32 \<Rightarrow> nat \<Rightarrow> u32" where
  "bad_count ctx il = (if il = 3 then ctx div 128 + 3 else 0)"

definition bad_snaps :: "u32 \<Rightarrow> layer_snap list" where
  "bad_snaps ctx = map (\<lambda>il. zero_snap (bad_count ctx il) (ds4_layer_compress_ratio il)) [0..<DS4_N_LAYER]"

definition bad_header :: "ds4_session \<Rightarrow> u32 list" where
  "bad_header t =
     [DS4_SESSION_PAYLOAD_MAGIC, DS4_SESSION_PAYLOAD_VERSION, s_ctx_size t, prefill_cap t, ds4_default_raw_cap (s_ctx_size t),
      ds4_default_raw_cap (s_ctx_size t), s_ctx_size t div 4 + 2, 0, of_nat DS4_N_LAYER, of_nat DS4_N_HEAD_DIM,
      of_nat DS4_N_INDEXER_HEAD_DIM, of_nat DS4_N_VOCAB, 0]"

definition bad_payload :: "ds4_session \<Rightarrow> u8 list" where
  "bad_payload t = payload_of (bad_header t) [] (float_zeros DS4_N_VOCAB) (fresh_layers t) (bad_snaps (s_ctx_size t))"

lemma read_layer_overruns:
  assumes "layer_shape ctx il l" "ctx < 0x80000000" "0 < ctx" "compress_ratio l \<noteq> 0" "comp_cap l < nc"
    "fits_u64 (length (layer_bytes (compress_ratio l) (zero_snap nc (compress_ratio l))) + length bs)"
  shows "\<exists>l'. read_layer 0 nc ni l (Go (reader_at (layer_bytes (compress_ratio l) (zero_snap nc (compress_ratio l)) @ bs) tl0)) =
    (l', Overrun)"
proof -
  let ?x = "zero_snap nc (compress_ratio l)"
  have 1: "payload_read_bytes (row_bytes 0 DS4_N_HEAD_DIM) (b, Go r) = (b, Go r)" for b and r :: reader
    by (cases r) (simp add: payload_read_bytes_def row_bytes_def)
  obtain more where more: "layer_bytes (compress_ratio l) ?x = ls_comp ?x @ more"
    using assms(4) by (simp add: layer_bytes_def zero_snap_def)
  have len: "length (ls_comp ?x) = unat nc * 2048" "length (attn_comp_kv l) = unat (comp_cap l) * 2048"
    using layer_shapeD(5) [OF assms(1,2,3,4)] by (simp_all add: zero_snap_def)
  have "payload_read_bytes (row_bytes nc DS4_N_HEAD_DIM) (attn_comp_kv l, Go (reader_at (ls_comp ?x @ more @ bs) tl0)) =
      (attn_comp_kv l, Overrun)"
    using read_bytes_overrun [of "ls_comp ?x" "more @ bs" "row_bytes nc DS4_N_HEAD_DIM" "attn_comp_kv l" tl0] assms(5,6) len
    by (simp add: more word_less_nat_alt)
  then show ?thesis
    using assms(4) by (simp add: read_layer_def 1 more Let_def split: prod.split)
qed

lemma layers_bytes_append:
  "length ls = length xs \<Longrightarrow> layers_bytes (ls @ ls') (xs @ xs') = layers_bytes ls xs @ layers_bytes ls' xs'"
  by (simp add: layers_bytes_def)

lemma layer_parts_at_three: "[0..<DS4_N_LAYER] = [0..<3] @ 3 # [4..<DS4_N_LAYER]"
  by (simp add: DS4_N_LAYER_def upt_conv_Cons)

lemma zero_snap_length:
  "ratio = 0 \<or> ratio = 4 \<or> ratio = 128 \<Longrightarrow> length (layer_bytes ratio (zero_snap nc ratio)) \<le> unat nc * 2048 + 600000"
  by (auto simp: layer_bytes_def zero_snap_def state_bytes)

lemma unat_bad_count: "ctx < 0x80000000 \<Longrightarrow> unat (bad_count ctx il) = (if il = 3 then unat ctx div 128 + 3 else 0)"
proof -
  assume "ctx < 0x80000000"
  then have "unat (ctx div 128) \<le> 16777216"
    by (simp add: unat_div word_less_nat_alt)
  then have "unat (ctx div 128 + 3) = unat (ctx div 128) + 3"
    by (subst unat_add_lem [THEN iffD1]) simp_all
  then show "unat (bad_count ctx il) = (if il = 3 then unat ctx div 128 + 3 else 0)"
    by (simp add: bad_count_def unat_div)
qed

lemma bad_layers_length:
  assumes "ctx < 0x80000000" "0 < ctx"
  shows "length (layers_bytes (map (init_layer ctx (ds4_default_raw_cap ctx)) ns)
      (map (\<lambda>il. zero_snap (bad_count ctx il) (ds4_layer_compress_ratio il)) ns)) \<le> length ns * 4400000000000"
proof (induction ns)
  case (Cons n ns)
  have "unat ctx < 2147483648"
    using assms(1) by (simp add: word_less_nat_alt)
  then have "unat (bad_count ctx n) * 2048 + 600000 \<le> 4400000000000"
    using unat_bad_count [OF assms(1), of n] div_le_dividend [of "unat ctx" 128] by (simp del: div_le_dividend)
  then have "length (layer_bytes (ds4_layer_compress_ratio n) (zero_snap (bad_count ctx n) (ds4_layer_compress_ratio n))) \<le>
      4400000000000"
    using zero_snap_length [of "ds4_layer_compress_ratio n" "bad_count ctx n"] ratio_cases [of n] by auto
  moreover have "compress_ratio (init_layer ctx (ds4_default_raw_cap ctx) n) = ds4_layer_compress_ratio n"
    by (simp add: init_layer_def Let_def)
  ultimately show ?case
    using Cons.IH by simp
qed (simp add: layers_bytes_def)

lemma bad_payload_layers:
  assumes "ctx < 0x80000000" "0 < ctx"
  defines "ls \<equiv> map (init_layer ctx (ds4_default_raw_cap ctx)) [0..<DS4_N_LAYER]"
  shows "\<exists>ks. read_layers 0 (counts (bad_snaps ctx)) ls (Go (reader_at (layers_bytes ls (bad_snaps ctx)) tl0)) = (ks, Overrun)"
proof -
  let ?f = "init_layer ctx (ds4_default_raw_cap ctx)"
  let ?x = "\<lambda>il. zero_snap (bad_count ctx il) (ds4_layer_compress_ratio il)"
  let ?A = "map ?f [0..<3]" and ?XA = "map ?x [0..<3]" and ?B = "map ?f [4..<DS4_N_LAYER]" and ?XB = "map ?x [4..<DS4_N_LAYER]"
  have ls: "ls = ?A @ ?f 3 # ?B" and xs: "bad_snaps ctx = ?XA @ ?x 3 # ?XB"
    by (simp_all only: ls_def bad_snaps_def layer_parts_at_three map_append list.map)
  have r3: "ds4_layer_compress_ratio 3 = 128"
    by (simp add: ds4_layer_compress_ratio_def)
  define b3 rest ba where bdef: "b3 = layer_bytes 128 (?x 3)" "rest = layers_bytes ?B ?XB" "ba = layers_bytes ?A ?XA"
  have bs: "layers_bytes ls (bad_snaps ctx) = ba @ (b3 @ rest)"
    unfolding ls xs by (subst layers_bytes_append) (simp_all add: r3 bdef del: upt_conv_Cons)
  have fit: "fits_u64 (length (ba @ (b3 @ rest)))"
    using bad_layers_length [OF assms(1,2), of "[0..<DS4_N_LAYER]"]
    unfolding bs [symmetric] by (simp add: ls_def bad_snaps_def DS4_N_LAYER_def)
  have "list_all2 (snap_fits ctx 0) ?A ?XA"
    by (auto simp: list_all2_conv_all_nth snap_fits_def bad_count_def intro!: exI layer_shape_init)
  then obtain ks where ks: "read_layers 0 (counts ?XA) ?A (Go (reader_at (ba @ (b3 @ rest)) tl0)) =
      (ks, Go (reader_at (b3 @ rest) tl0))"
    using read_layers_at [OF assms(1,2), of 0 ?A ?XA "b3 @ rest" tl0] fit by (auto simp: bdef(3))
  have over: "comp_cap (?f 3) < bad_count ctx 3"
    using layer_shapeD(4) [OF layer_shape_init [of ctx 3] assms(1,2)] unat_bad_count [OF assms(1), of 3] r3
    by (simp add: word_less_nat_alt)
  have "fits_u64 (length (b3 @ rest))"
    using fit by simp
  then obtain l' where l': "read_layer 0 (bad_count ctx 3) 0 (?f 3) (Go (reader_at (b3 @ rest) tl0)) = (l', Overrun)"
    using read_layer_overruns [OF layer_shape_init [of ctx 3] assms(1,2) _ over, of rest 0 tl0]
    by (auto simp: r3 bdef(1))
  have cs: "counts (bad_snaps ctx) = counts ?XA @ (bad_count ctx 3, 0) # counts ?XB"
    by (simp add: xs counts_def)
  have "length (counts ?XA) = length ?A"
    by (simp add: counts_def)
  from read_layers_append [OF ks this, of "(bad_count ctx 3, 0) # counts ?XB" "?f 3 # ?B"] l'
  show ?thesis
    unfolding bs cs unfolding ls by simp
qed

lemma bad_payload_overruns:
  assumes "session_shape t" "4 \<le> s_ctx_size t"
  shows "ds4_session_load_payload t (bad_payload t @ tl0) (of_nat (length (bad_payload t))) = Load_overrun"
proof -
  let ?ctx = "s_ctx_size t"
  have ctx: "?ctx < 0x80000000" "0 < ?ctx"
    using assms(1) by (auto simp: session_shape_def)
  note raw = raw_cap_props [OF ctx(2)]
  have "header_fits t (bad_header t)"
    using ctx raw session_cpu_comp_cap_shape [OF assms(1)]
    by (simp add: header_fits_def bad_header_def Let_def not_less not_le)
  then have h: "header_good t (bad_header t)"
    by (simp add: header_good_def bad_header_def DS4_SESSION_PAYLOAD_U32_FIELDS_def)
  have h0: "bad_header t ! 7 = 0" "bad_header t ! 6 = ?ctx div 4 + 2" "bad_header t ! 12 = 0"
    by (simp_all add: bad_header_def)
  have "4 \<le> unat ?ctx"
    using assms(2) by (simp add: word_le_nat_alt)
  then have "unat ?ctx div 4 div 32 < unat ?ctx div 4"
    by (intro div_less_dividend) (simp_all add: div_greater_zero_iff)
  then have "unat ?ctx div 128 + 1 \<le> unat ?ctx div 4"
    by (simp add: div_mult2_eq [symmetric])
  then have "bad_count ?ctx il \<le> ?ctx div 4 + 2" for il
    using unat_bad_count [OF ctx(1), of il] comp_cap_unat [OF ctx(1), of 4] by (simp add: word_le_nat_alt)
  then have cs: "counts_pass (bad_header t) t (bad_snaps ?ctx)"
    using session_cpu_comp_cap_shape [OF assms(1)] by (auto simp: counts_pass_def bad_snaps_def h0)
  have fresh: "fresh_layers t = map (init_layer ?ctx (ds4_default_raw_cap ?ctx)) [0..<DS4_N_LAYER]"
    by (rule kv_cache_init_layers [OF ctx(2)])
  obtain ks where ks: "read_layers 0 (counts (bad_snaps ?ctx)) (fresh_layers t)
      (Go (reader_at (layers_bytes (fresh_layers t) (bad_snaps ?ctx)) tl0)) = (ks, Overrun)"
    using bad_payload_layers [OF ctx, of tl0] by (auto simp: fresh)
  have "fits_u64 (length (bad_payload t))"
    using bad_layers_length [OF ctx, of "[0..<DS4_N_LAYER]"]
    by (simp add: bad_payload_def payload_of_def fresh bad_snaps_def bad_header_def DS4_N_LAYER_def DS4_N_VOCAB_def)
  then show ?thesis
    using load_payload_to_layers [OF assms(1) h, of "[]" "float_zeros DS4_N_VOCAB" "bad_snaps ?ctx" "fresh_layers t" tl0] cs
    by (simp add: h0 ks bad_payload_def [symmetric] sizeof_float_def)
qed

theorem load_overrun_needs_count_witness:
  "\<exists>fp n ncs il. ds4_session_load_payload (ds4_session_create (float_zeros DS4_N_VOCAB) 64 256) fp n = Load_overrun \<and>
    saved_row_counts fp n = Some ncs \<and> ds4_layer_compress_ratio il = 128 \<and>
    comp_cap (cpu_cache (ds4_session_create (float_zeros DS4_N_VOCAB) 64 256) ! il) < ncs ! il"
proof -
  let ?t = "ds4_session_create (float_zeros DS4_N_VOCAB) 64 256"
  have sh: "session_shape ?t"
    by (rule session_create_shape) (simp_all add: sizeof_float_def)
  have "ds4_session_load_payload ?t (bad_payload ?t @ []) (of_nat (length (bad_payload ?t))) = Load_overrun"
    by (rule bad_payload_overruns [OF sh]) (simp add: ds4_session_create_def)
  with load_overrun_needs_count [OF sh this] show ?thesis
    by blast
qed

section \<open>Failed loads\<close>

lemma read_layer_shape:
  assumes "layer_shape ctx il l" "read_layer raw_live nc ni l p = (l', p')"
  shows "layer_shape ctx il l'"
  using assms by (auto simp: read_layer_def layer_shape_def Let_def split: prod.splits progress.splits if_splits
      dest!: read_bytes_length)

lemma read_layers_shape:
  assumes "\<forall>i < length ls. layer_shape ctx (k + i) (ls ! i)" "read_layers raw_live ns ls p = (ls', p')"
  shows "length ls' = length ls \<and> (\<forall>i < length ls. layer_shape ctx (k + i) (ls' ! i))"
  using assms
proof (induction raw_live ns ls p arbitrary: k ls' p' rule: read_layers.induct)
  case (1 raw_live nc ni ns l ls r)
  obtain l1 q where l1: "read_layer raw_live nc ni l (Go r) = (l1, q)"
    by (cases "read_layer raw_live nc ni l (Go r)")
  obtain ks q' where ks: "read_layers raw_live ns ls q = (ks, q')"
    by (cases "read_layers raw_live ns ls q")
  have "\<forall>i < length ls. layer_shape ctx (Suc k + i) (ls ! i)"
    using 1(2) by (metis (no_types, lifting) Suc_less_eq add_Suc add_Suc_right length_Cons nth_Cons_Suc)
  from 1(1) [OF l1 [symmetric] this ks] have "length ks = length ls" "\<forall>i < length ls. layer_shape ctx (Suc k + i) (ks ! i)"
    by auto
  moreover have "layer_shape ctx k l1"
    using read_layer_shape [OF _ l1] 1(2) by fastforce
  ultimately show ?case
    using 1(3) l1 ks by (auto simp: nth_Cons split: nat.splits)
qed auto

text \<open>
  C40: a failed load leaves the checkpoint's tokens and the sizes of every buffer as they were; and a session still marked
  valid after it has its old caches. (Its logits may be the ones of the file that was refused.)
\<close>

theorem load_failed_keeps_checkpoint:
  assumes "session_shape t" "ds4_session_load_payload t fp n = Load_failed t'"
  shows "checkpoint t' = checkpoint t \<and> session_shape t' \<and> (checkpoint_valid t' \<longrightarrow> cpu_cache t' = cpu_cache t)"
proof -
  have rows: "checkpoint t' = checkpoint s \<and> session_shape t' \<and> (checkpoint_valid t' \<longrightarrow> cpu_cache t' = cpu_cache s)"
    if "load_rows s h toks r = Load_failed t'" "session_shape s" for s h toks r
  proof -
    have "\<forall>i < length (fresh_layers s). layer_shape (s_ctx_size s) (0 + i) (fresh_layers s ! i)"
      using init_shape that(2) by (simp add: session_shape_def)
    from read_layers_shape [OF this] show ?thesis
      using that init_shape(1) [of "s_ctx_size s"]
      by (auto simp: load_rows_def session_cpu_reset_cache_def session_shape_def Let_def
          split: option.splits prod.splits progress.splits if_splits)
  qed
  have len: "length buf = length (logits t)"
    if "payload_read_bytes (of_nat DS4_N_VOCAB * 4) (logits t, Go r) = (buf, p)" for r buf p
    using read_bytes_length [OF that] .
  show ?thesis
    using assms rows len unfolding ds4_session_load_payload_def
    by (fastforce simp: session_shape_def split: option.splits prod.splits progress.splits if_splits)
qed

definition refused_payload :: "u8 list" where
  "refused_payload = u32_bytes (bad_header saved_example) @ float_neg_infs DS4_N_VOCAB @ u32_bytes [0xffffffff]"

theorem load_failed_keeps_checkpoint_witness:
  "\<exists>t'. ds4_session_load_payload saved_example refused_payload (of_nat (length refused_payload)) = Load_failed t' \<and>
    checkpoint_valid t' \<and> logits t' = float_neg_infs DS4_N_VOCAB \<and> checkpoint t' = [5] \<and> session_shape t'"
proof -
  let ?h = "bad_header saved_example" and ?lg = "float_neg_infs DS4_N_VOCAB" and ?c = "u32_bytes [0xffffffff]"
  have e: "s_ctx_size saved_example = 256" "checkpoint_valid saved_example" "checkpoint saved_example = [5]"
    by (simp_all add: saved_example_def ds4_session_create_def)
  have h: "length ?h = 13" "?h ! 0 = DS4_SESSION_PAYLOAD_MAGIC" "?h ! 1 = DS4_SESSION_PAYLOAD_VERSION" "?h ! 7 = 0" "?h ! 6 = 66"
    by (simp_all add: bad_header_def e)
  have fits: "header_fits saved_example ?h"
    using session_cpu_comp_cap_shape [OF saved_example_shape]
    by (simp add: header_fits_def bad_header_def e default_raw_caps)
  have lens: "length ?lg = 517120" "length (logits saved_example) = 517120"
    using saved_example_shape by (simp_all add: session_shape_def sizeof_float_def DS4_N_VOCAB_def)
  have start: "(refused_payload, of_nat (length refused_payload)) = reader_at (u32_bytes ?h @ (?lg @ ?c)) []"
    by (simp add: refused_payload_def reader_at_def)
  have r0: "read_u32s 13 (reader_at (u32_bytes ?h @ (?lg @ ?c)) []) = Some (?h, reader_at (?lg @ ?c) [])"
    using read_u32s_at [of ?h "?lg @ ?c" "[]"] h(1) lens by simp
  have r1: "payload_read_bytes (of_nat DS4_N_VOCAB * 4) (logits saved_example, Go (reader_at (?lg @ ?c) [])) =
      (?lg, Go (reader_at ?c []))"
    using read_bytes_at [of ?lg ?c "of_nat DS4_N_VOCAB * 4" "logits saved_example" "[]"] lens by (simp add: DS4_N_VOCAB_def)
  have "payload_read_u32 (reader_at ?c []) = Some (0xffffffff, reader_at [] [])"
    using read_u32_at [of "[]" "0xffffffff" "[]"] by simp
  then have r2: "read_counts 66 cap DS4_N_LAYER (reader_at ?c []) = None" for cap
    using read_counts.simps(2) [of 66 cap 42 "reader_at ?c []"] by (simp add: DS4_N_LAYER_def)
  have "ds4_session_load_payload saved_example refused_payload (of_nat (length refused_payload)) =
      Load_failed (saved_example\<lparr>logits := ?lg\<rparr>)"
    unfolding ds4_session_load_payload_def start DS4_SESSION_PAYLOAD_U32_FIELDS_def r0
    by (simp add: h h(3) [simplified] fits r1 load_rows_def r2 del: u32_bytes_simps)
  with load_failed_keeps_checkpoint [OF saved_example_shape this] show ?thesis
    using e by auto
qed

end
