(* ===== verification/Kv_Disk.thy ===== *)
theory Kv_Disk
  imports Kv_File_Lemmas Json "HOL-Library.AList" "HOL-Library.Signed_Division"
begin

text \<open>
  The directory of the server's disk cache (\<open>ds4_server.c\<close>): reading it, choosing what to delete, and the rules for
  when a checkpoint is stored.

  The directory is the list of its files in the order \<open>readdir\<close> gives them; a path is a name in it. What the operating
  system contributes to one call is a record: the clock, the room on the device, which calls fail, and \<open>exp2\<close> of the
  mathematics library. A call reads the clock once.
\<close>

type_synonym files = "(string \<times> u8 list) list"

datatype io_call = Io_mkdir | Io_opendir | Io_open string | Io_create | Io_unlink string | Io_flush | Io_close
  | Io_rename | Io_truncate

record env =
  env_now :: u64
  env_room :: nat
  env_fails :: "io_call \<Rightarrow> bool"
  env_pid :: string
  env_exp2 :: "rat \<Rightarrow> rat"

section \<open>The cache\<close>

record kv_cache_options =
  min_tokens :: int
  cold_max_tokens :: int
  continued_interval_tokens :: int
  boundary_trim_tokens :: int
  boundary_align_tokens :: int

record kv_disk_cache =
  enabled :: bool
  budget_bytes :: u64
  reject_different_quant :: bool
  opt :: kv_cache_options
  continued_last_store_tokens :: int
  kv_entries :: "kv_entry list"

definition kv_cache_default_options :: kv_cache_options where
  "kv_cache_default_options =
     \<lparr>min_tokens = 512, cold_max_tokens = 30000, continued_interval_tokens = 10000, boundary_trim_tokens = 32,
      boundary_align_tokens = 2048\<rparr>"

definition KV_CACHE_DEFAULT_MB :: u64 where "KV_CACHE_DEFAULT_MB = 4096"

definition kv_disk_cache_zero :: kv_disk_cache where
  "kv_disk_cache_zero =
     \<lparr>enabled = False, budget_bytes = 0, reject_different_quant = False,
      opt = \<lparr>min_tokens = 0, cold_max_tokens = 0, continued_interval_tokens = 0, boundary_trim_tokens = 0,
             boundary_align_tokens = 0\<rparr>,
      continued_last_store_tokens = 0, kv_entries = []\<rparr>"

section \<open>Reading the directory\<close>

definition sha_hex_name :: "string \<Rightarrow> string option" where
  "sha_hex_name name =
     (if length name \<noteq> 43 \<or> drop 40 name \<noteq> ''.kv'' then None
      else if \<not> list_all isxdigit (take 40 name) then None
      else Some (map (\<lambda>c. char_of (tolower c)) (take 40 name)))"

definition kv_path_for_sha :: "string \<Rightarrow> string" where
  "kv_path_for_sha sha = sha @ ''.kv''"

definition kv_read_entry_file :: "env \<Rightarrow> files \<Rightarrow> string \<Rightarrow> string \<Rightarrow> kv_entry option" where
  "kv_read_entry_file env fs path sha =
     (case map_of fs path of None \<Rightarrow> None
      | Some bs \<Rightarrow>
          if length bs < KV_CACHE_FIXED_HEADER + 4 \<or> env_fails env (Io_open path) then None
          else (case kv_read_header bs of None \<Rightarrow> None
            | Some (e, tbn, rest) \<Rightarrow>
                (let fixed = of_nat KV_CACHE_FIXED_HEADER + 4 :: u64; tb = ucast tbn :: u64 in
                 if UINT64_MAX - fixed < tb \<or> UINT64_MAX - fixed - tb < payload_bytes e then None
                 else if of_nat (length bs) < fixed + tb + payload_bytes e then None
                 else Some (e\<lparr>ke_sha := sha, ke_path := path, file_size := of_nat (length bs)\<rparr>))))"

definition kv_cache_refresh :: "env \<Rightarrow> files \<Rightarrow> kv_disk_cache \<Rightarrow> kv_disk_cache" where
  "kv_cache_refresh env fs kc =
     (if \<not> enabled kc then kc
      else if env_fails env Io_opendir then kc\<lparr>kv_entries := []\<rparr>
      else kc\<lparr>kv_entries := List.map_filter (\<lambda>(name, _).
             case sha_hex_name name of None \<Rightarrow> None | Some sha \<Rightarrow> kv_read_entry_file env fs name sha) fs\<rparr>)"

definition kv_cache_touch_file :: "env \<Rightarrow> files \<Rightarrow> string \<Rightarrow> u32 \<Rightarrow> files" where
  "kv_cache_touch_file env fs path h =
     (case map_of fs path of None \<Rightarrow> fs
      | Some bs \<Rightarrow>
          if env_fails env (Io_open path) then fs
          else (case kv_read_header bs of None \<Rightarrow> fs
            | Some (e, _, _) \<Rightarrow>
                AList.update path
                  (kv_fill_header (e\<lparr>hits := h, last_used := env_now env\<rparr>) @ drop KV_CACHE_FIXED_HEADER bs) fs))"

section \<open>Eviction\<close>

text \<open>
  Magnitudes of doubles. No operation below reaches the range of infinities; an overflow would count as \<open>2 ^ 1024\<close>.
\<close>

definition dbl :: "rat \<Rightarrow> rat" where
  "dbl p = (case f64_round False p of F64 _ v \<Rightarrow> v | _ \<Rightarrow> 2 ^ 1024)"

definition DBL_MAX :: rat where
  "DBL_MAX = (2 ^ 53 - 1) * 2 ^ 971"

definition KV_CACHE_HIT_HALF_LIFE_SECONDS :: nat where
  "KV_CACHE_HIT_HALF_LIFE_SECONDS = 6 * 60 * 60"

definition KV_CACHE_MIN_EFFECTIVE_HITS :: rat where
  "KV_CACHE_MIN_EFFECTIVE_HITS = dbl (1 / 100)"

definition effective_hits :: "env \<Rightarrow> kv_entry \<Rightarrow> rat" where
  "effective_hits env e =
     (let h = of_nat (unat (hits e)); now = env_now env;
          used_at = (if last_used e \<noteq> 0 then last_used e else created_at e) in
      if used_at = 0 then 0
      else if now > used_at then
        (let elapsed = dbl (of_nat (unat (now - used_at)));
             x = dbl (h * env_exp2 env (- dbl (elapsed / of_nat KV_CACHE_HIT_HALF_LIFE_SECONDS)))
         in if x < KV_CACHE_MIN_EFFECTIVE_HITS then 0 else x)
      else h)"

definition kv_entry_eviction_score :: "env \<Rightarrow> string option \<Rightarrow> kv_entry \<Rightarrow> rat" where
  "kv_entry_eviction_score env protected_sha e =
     (if file_size e = 0 then 0
      else if protected_sha = Some (ke_sha e) then DBL_MAX
      else dbl (dbl (dbl (effective_hits env e + 1) * of_nat (unat (tokens e))) / dbl (of_nat (unat (file_size e)))))"

definition victim_step :: "(kv_entry \<Rightarrow> rat) \<Rightarrow> kv_entry list \<Rightarrow> nat \<Rightarrow> nat \<times> rat \<Rightarrow> nat \<times> rat" where
  "victim_step score es i v =
     (if score (es ! i) < snd v \<or> score (es ! i) = snd v \<and> last_used (es ! i) < last_used (es ! fst v)
      then (i, score (es ! i)) else v)"

definition victim :: "(kv_entry \<Rightarrow> rat) \<Rightarrow> kv_entry list \<Rightarrow> nat" where
  "victim score es = fst (fold (victim_step score es) [1..<length es] (0, score (es ! 0)))"

lemma victim_less:
  assumes "es \<noteq> []"
  shows "victim score es < length es"
proof -
  have "fst (fold (victim_step score es) is v) < length es" if "fst v < length es" "set is \<subseteq> {..<length es}" for "is" v
    using that by (induction "is" arbitrary: v) (simp_all add: victim_step_def)
  then show ?thesis
    using assms unfolding victim_def by (simp add: subset_eq)
qed

lemma without_victim_shorter:
  assumes "es \<noteq> []"
  shows "length (take (victim score es) es @ drop (Suc (victim score es)) es) < length es"
  using victim_less [OF assms, of score] by simp

function evict_loop ::
  "env \<Rightarrow> (kv_entry \<Rightarrow> rat) \<Rightarrow> u64 \<Rightarrow> u64 \<Rightarrow> kv_entry list \<Rightarrow> files \<Rightarrow> kv_entry list \<times> files" where
  "evict_loop env score budget tot es fs =
     (if \<not> (tot > budget \<and> es \<noteq> []) then (es, fs)
      else let v = victim score es; e = es ! v; es1 = take v es @ drop (Suc v) es in
        if env_fails env (Io_unlink (ke_path e)) then evict_loop env score budget 0 es1 fs
        else evict_loop env score budget (if tot \<ge> file_size e then tot - file_size e else 0) es1
          (AList.delete (ke_path e) fs))"
  by pat_completeness auto
termination
  by (relation "measure (\<lambda>(_, _, _, _, es, _). length es)") (simp_all add: without_victim_shorter del: length_append)

declare evict_loop.simps [simp del]

definition evict_protected :: "u64 \<Rightarrow> kv_entry list \<Rightarrow> string option \<Rightarrow> string option" where
  "evict_protected budget es protected_sha =
     (case protected_sha of None \<Rightarrow> None
      | Some p \<Rightarrow>
          (let size = (case find (\<lambda>e. ke_sha e = p) es of None \<Rightarrow> 0 | Some e \<Rightarrow> file_size e)
           in if size > budget then None else Some p))"

definition kv_cache_evict :: "env \<Rightarrow> string option \<Rightarrow> kv_disk_cache \<Rightarrow> files \<Rightarrow> kv_disk_cache \<times> files" where
  "kv_cache_evict env protected_sha kc fs =
     (if \<not> enabled kc \<or> budget_bytes kc = 0 then (kc, fs)
      else let kc = kv_cache_refresh env fs kc; es = kv_entries kc;
          tot = fold (\<lambda>e n. n + file_size e) es 0;
          p = evict_protected (budget_bytes kc) es protected_sha in
        case evict_loop env (kv_entry_eviction_score env p) (budget_bytes kc) tot es fs of
          (es1, fs1) \<Rightarrow> (kc\<lparr>kv_entries := es1\<rparr>, fs1))"

definition kv_cache_open ::
  "env \<Rightarrow> files \<Rightarrow> u64 \<Rightarrow> bool \<Rightarrow> kv_cache_options \<Rightarrow> kv_disk_cache \<times> files \<times> bool" where
  "kv_cache_open env fs budget_mb reject options =
     (if env_fails env Io_mkdir then (kv_disk_cache_zero, fs, False)
      else let budget_mb = (if budget_mb = 0 then KV_CACHE_DEFAULT_MB else budget_mb);
          kc = kv_disk_cache_zero\<lparr>enabled := True, budget_bytes := budget_mb * 1024 * 1024,
                 reject_different_quant := reject, opt := options\<rparr> in
        case kv_cache_evict env None kc fs of (kc1, fs1) \<Rightarrow> (kc1, fs1, True))"

section \<open>When to store\<close>

definition kv_cache_store_len :: "kv_disk_cache \<Rightarrow> int \<Rightarrow> int" where
  "kv_cache_store_len kc toks =
     (let trim = boundary_trim_tokens (opt kc); align = boundary_align_tokens (opt kc);
          stable = toks - trim; stable = (if align > 0 then stable - stable smod align else stable) in
      if toks > min_tokens (opt kc) + trim \<and> stable \<ge> min_tokens (opt kc) then stable else toks)"

fun anchor_scan :: "int \<Rightarrow> int \<Rightarrow> int \<Rightarrow> u32 list \<Rightarrow> int \<Rightarrow> int" where
  "anchor_scan user assistant i [] last_user = last_user"
| "anchor_scan user assistant i (t # ts) last_user =
     (if sint t = assistant then last_user
      else anchor_scan user assistant (i + 1) ts (if sint t = user then i else last_user))"

definition kv_cache_chat_anchor_pos :: "kv_disk_cache \<Rightarrow> u32 list \<Rightarrow> int \<Rightarrow> int \<Rightarrow> int" where
  "kv_cache_chat_anchor_pos kc prompt user assistant =
     (if user < 0 \<or> assistant < 0 then -1
      else let last_user = anchor_scan user assistant 0 prompt (-1) in
        if last_user \<ge> min_tokens (opt kc) then last_user else -1)"

definition kv_cache_continued_step :: "kv_disk_cache \<Rightarrow> int" where
  "kv_cache_continued_step kc =
     (if \<not> enabled kc \<or> continued_interval_tokens (opt kc) \<le> 0 then 0
      else let step = continued_interval_tokens (opt kc); align = boundary_align_tokens (opt kc) in
        if align > 0 then
          (let step = ((step + align - 1) sdiv align) * align in if step \<le> 0 then align else step)
        else step)"

definition kv_cache_continued_store_target :: "kv_disk_cache \<Rightarrow> int \<Rightarrow> int" where
  "kv_cache_continued_store_target kc live_tokens =
     (let step = kv_cache_continued_step kc in
      if step \<le> 0 then 0
      else if live_tokens < min_tokens (opt kc) then 0
      else if live_tokens smod step \<noteq> 0 then 0
      else if live_tokens \<le> continued_last_store_tokens kc then 0
      else live_tokens)"

definition kv_cache_note_store :: "kv_disk_cache \<Rightarrow> int \<Rightarrow> kv_disk_cache" where
  "kv_cache_note_store kc toks =
     (if toks > continued_last_store_tokens kc then kc\<lparr>continued_last_store_tokens := toks\<rparr> else kc)"

definition kv_cache_suppress_continued_store :: "kv_disk_cache \<Rightarrow> int \<Rightarrow> kv_disk_cache \<times> int" where
  "kv_cache_suppress_continued_store kc toks =
     (if kv_cache_continued_store_target kc toks \<noteq> toks then (kc, -1)
      else (kv_cache_note_store kc toks, continued_last_store_tokens kc))"

definition kv_cache_restore_suppressed_continued :: "kv_disk_cache \<Rightarrow> int \<Rightarrow> int \<Rightarrow> kv_disk_cache" where
  "kv_cache_restore_suppressed_continued kc old_tokens suppressed_tokens =
     (if old_tokens \<ge> 0 \<and> continued_last_store_tokens kc = suppressed_tokens
      then kc\<lparr>continued_last_store_tokens := old_tokens\<rparr> else kc)"

section \<open>Sizes\<close>

definition kv_cache_file_size_bytes :: "u64 \<Rightarrow> u64 \<Rightarrow> u64 \<Rightarrow> u64 option" where
  "kv_cache_file_size_bytes text_n payload_n map_n =
     (let fixed = of_nat KV_CACHE_FIXED_HEADER + 4 in
      if UINT64_MAX - fixed < text_n \<or> UINT64_MAX - fixed - text_n < payload_n \<or>
         UINT64_MAX - fixed - text_n - payload_n < map_n
      then None else Some (fixed + text_n + payload_n + map_n))"

definition kv_cache_budget_required :: "u64 \<Rightarrow> u64 option" where
  "kv_cache_budget_required file_bytes =
     (let slack = file_bytes div 100; slack = (if file_bytes mod 100 \<noteq> 0 then slack + 1 else slack) in
      if UINT64_MAX - file_bytes < slack then None else Some (file_bytes + slack))"

definition kv_cache_file_size_fits :: "kv_disk_cache \<Rightarrow> u64 \<Rightarrow> u64 \<Rightarrow> u64 \<Rightarrow> bool" where
  "kv_cache_file_size_fits kc text_n payload_n map_n =
     (case kv_cache_file_size_bytes text_n payload_n map_n of None \<Rightarrow> False
      | Some file_bytes \<Rightarrow>
          if budget_bytes kc = 0 then True
          else (case kv_cache_budget_required file_bytes of None \<Rightarrow> False
            | Some required \<Rightarrow> required \<le> budget_bytes kc))"

end
