(* ===== verification/Kv_Evict.thy ===== *)
theory Kv_Evict
  imports Kv_Disk
begin

text \<open>What eviction leaves in the directory.\<close>

section \<open>Doubles\<close>

lemma round_half_even_near: "\<bar>of_int (round_half_even x) - x\<bar> \<le> 1 / 2"
proof -
  have "of_int \<lfloor>x\<rfloor> \<le> x" "x < of_int \<lfloor>x\<rfloor> + 1"
    by linarith+
  then show ?thesis
    by (auto simp: round_half_even_def Let_def abs_le_iff)
qed

lemma find_upto:
  assumes "List.find P [a..b] = Some k"
  shows "a \<le> k \<and> (k = a \<or> \<not> P (k - 1))"
proof -
  obtain i where i: "i < length [a..b]" "k = [a..b] ! i" "\<forall>j < i. \<not> P ([a..b] ! j)"
    using assms unfolding find_Some_iff by blast
  have kv: "k = a + int i"
    using i(1,2) by (simp add: nth_upto)
  have "[a..b] ! (i - 1) = k - 1" if "i \<noteq> 0"
    using i(1) that kv by (simp add: nth_upto)
  then show ?thesis
    using i(3) [rule_format, of "i - 1"] kv by (cases "i = 0") auto
qed

lemma find_upto_exists: "a \<le> k \<Longrightarrow> k \<le> b \<Longrightarrow> P k \<Longrightarrow> \<exists>j. List.find P [a..b] = Some j"
  using find_None_iff [of P "[a..b]"] by (cases "List.find P [a..b]") auto

lemma f64_ulp_exp_first:
  assumes "p < 2 ^ 1000"
  shows "\<exists>k. f64_ulp_exp p = Some k \<and> - 1074 \<le> k \<and> (k = - 1074 \<or> 2 powi (k + 52) \<le> p)"
proof -
  have "p < 2 powi (971 + 53)"
    using assms by (rule less_trans) (simp add: power_int_def)
  then have "\<exists>k. List.find (\<lambda>k. p < 2 powi (k + 53)) [- 1074..971] = Some k"
    by (intro find_upto_exists [where k = 971]) simp_all
  then obtain k where k: "List.find (\<lambda>k. p < 2 powi (k + 53)) [- 1074..971] = Some k"
    by blast
  have "k - 1 + 53 = k + 52"
    by simp
  then show ?thesis
    using find_upto [OF k] k unfolding f64_ulp_exp_def by (intro exI [of _ k]) (simp only: not_less simp_thms)
qed

lemma dbl_bounds:
  assumes "0 \<le> p" "p < 2 ^ 1000"
  shows "0 \<le> dbl p" "dbl p \<le> 2 * p + 1" "1 \<le> p \<Longrightarrow> p / 2 \<le> dbl p"
proof -
  obtain k where k: "f64_ulp_exp p = Some k" "k = - 1074 \<or> 2 powi (k + 52) \<le> p"
    using f64_ulp_exp_first [OF assms(2)] by blast
  define u :: rat where "u = 2 powi k"
  have u0: "0 < u" by (simp add: u_def)
  let ?r = "of_int (round_half_even (p / u)) :: rat"
  have near: "\<bar>?r * u - p\<bar> \<le> u / 2"
  proof -
    have "?r * u - p = (?r - p / u) * u"
      using u0 by (simp add: field_simps)
    then show ?thesis
      using round_half_even_near [of "p / u"] u0 by (simp add: abs_mult)
  qed
  have "u \<le> 1 \<or> u \<le> p"
    using k(2)
  proof
    assume "k = - 1074"
    then have "u = (1 / 2) ^ 1074"
      by (simp add: u_def power_int_def)
    moreover have "(1 / 2 :: rat) ^ 1074 \<le> 1"
      by (rule power_le_one) simp_all
    ultimately show ?thesis
      by simp
  next
    assume "2 powi (k + 52) \<le> p"
    moreover have "(2 :: rat) powi (k + 52) = u * 2 ^ 52"
      by (simp add: u_def power_int_add)
    ultimately show ?thesis
      using u0 by auto
  qed
  then have up: "?r * u \<le> 2 * p + 1" and low: "1 \<le> p \<Longrightarrow> p / 2 \<le> ?r * u"
    using near assms(1) by linarith+
  have "0 \<le> p / u"
    using assms(1) u0 by simp
  then have pos: "0 \<le> ?r"
    by (auto simp: round_half_even_def Let_def)
  have "?r * u < 2 ^ 1024"
  proof -
    have "2 * p + 1 < 2 * 2 ^ 1000 + 1"
      using assms(2) by simp
    also have "\<dots> < (2 ^ 1024 :: rat)"
      by simp
    finally show ?thesis
      using up by simp
  qed
  then have v: "dbl p = ?r * u"
    using k(1) by (simp add: dbl_def f64_round_def u_def [symmetric])
  show "0 \<le> dbl p" "dbl p \<le> 2 * p + 1" "1 \<le> p \<Longrightarrow> p / 2 \<le> dbl p"
    unfolding v using pos u0 up low by simp_all
qed

text \<open>\<open>exp2\<close> of a number that is not positive lies between 0 and 1.\<close>

definition exp2_ok :: "env \<Rightarrow> bool" where
  "exp2_ok env \<longleftrightarrow> (\<forall>x \<le> 0. 0 \<le> env_exp2 env x \<and> env_exp2 env x \<le> 1)"

lemma dbl_le:
  assumes "0 \<le> p" "p \<le> b" "b \<le> 2 ^ 900"
  shows "0 \<le> dbl p" "dbl p \<le> 2 * b + 1"
proof -
  have "p < 2 ^ 1000"
    using assms(2,3) by (rule order_trans [THEN le_less_trans]) simp
  then show "0 \<le> dbl p" "dbl p \<le> 2 * b + 1"
    using dbl_bounds(1,2) [OF assms(1)] assms(2) by auto
qed

lemma rat_of_nat_le: "n \<le> numeral k \<Longrightarrow> (of_nat n :: rat) \<le> numeral k"
  by (metis of_nat_le_iff of_nat_numeral)

lemma effective_hits_bound:
  assumes "exp2_ok env"
  shows "0 \<le> effective_hits env e \<and> effective_hits env e \<le> 8589934593"
proof -
  let ?h = "of_nat (unat (hits e)) :: rat"
  have "unat (hits e) < 2 ^ LENGTH(32)"
    by (rule unsigned_less)
  then have "unat (hits e) \<le> 4294967295"
    by simp
  then have h: "0 \<le> ?h" "?h \<le> 4294967295"
    by - (rule of_nat_0_le_iff, rule rat_of_nat_le)
  have faded: "0 \<le> dbl (?h * env_exp2 env (- dbl (dbl (of_nat n) / of_nat KV_CACHE_HIT_HALF_LIFE_SECONDS))) \<and>
      dbl (?h * env_exp2 env (- dbl (dbl (of_nat n) / of_nat KV_CACHE_HIT_HALF_LIFE_SECONDS))) \<le> 8589934593"
    if "n \<le> 18446744073709551615" for n
  proof -
    have "(of_nat n :: rat) \<le> 18446744073709551615"
      using that by (rule rat_of_nat_le)
    then have "0 \<le> dbl (of_nat n)" "dbl (of_nat n) \<le> 2 * 18446744073709551615 + 1"
      using dbl_le [of "of_nat n" 18446744073709551615] by simp_all
    then have "0 \<le> dbl (of_nat n) / 21600" "dbl (of_nat n) / 21600 \<le> 40000000000000000000"
      by simp_all
    then have "0 \<le> dbl (dbl (of_nat n) / 21600)"
      by (rule dbl_le(1)) simp
    then have x: "0 \<le> env_exp2 env (- dbl (dbl (of_nat n) / 21600))" "env_exp2 env (- dbl (dbl (of_nat n) / 21600)) \<le> 1"
      using assms by (simp_all add: exp2_ok_def)
    then have "?h * env_exp2 env (- dbl (dbl (of_nat n) / 21600)) \<le> 4294967295"
      using h by (metis mult_left_le order_trans)
    then show ?thesis
      using dbl_le [of "?h * env_exp2 env (- dbl (dbl (of_nat n) / 21600))" 4294967295] h(1) x(1)
      by (simp add: KV_CACHE_HIT_HALF_LIFE_SECONDS_def)
  qed
  have "unat (env_now env - u) < 2 ^ LENGTH(64)" for u
    by (rule unsigned_less)
  then have "unat (env_now env - u) \<le> 18446744073709551615" for u
    by (simp add: less_Suc_eq_le [symmetric])
  from faded [OF this] show ?thesis
    using h by (auto simp: effective_hits_def Let_def)
qed

lemma score_bound:
  assumes "exp2_ok env" "protected_sha \<noteq> Some (ke_sha e)"
  shows "kv_entry_eviction_score env protected_sha e < DBL_MAX"
proof (cases "file_size e = 0")
  case False
  let ?a = "dbl (effective_hits env e + 1)" and ?t = "of_nat (unat (tokens e)) :: rat" and ?f = "of_nat (unat (file_size e)) :: rat"
  have a: "0 \<le> ?a" "?a \<le> 2 * 8589934594 + 1"
    using dbl_le [of "effective_hits env e + 1" 8589934594] effective_hits_bound [OF assms(1), of e] by simp_all
  have "unat (tokens e) < 2 ^ LENGTH(32)"
    by (rule unsigned_less)
  then have "unat (tokens e) \<le> 4294967295"
    by simp
  then have t: "0 \<le> ?t" "?t \<le> 4294967295"
    by - (rule of_nat_0_le_iff, rule rat_of_nat_le)
  have "?a * ?t \<le> (2 * 8589934594 + 1) * 4294967295"
    using a t by (intro mult_mono) simp_all
  then have b: "0 \<le> dbl (?a * ?t)" "dbl (?a * ?t) \<le> 2 * ((2 * 8589934594 + 1) * 4294967295) + 1"
    using dbl_le [of "?a * ?t" "(2 * 8589934594 + 1) * 4294967295"] a t by simp_all
  have "unat (file_size e) < 2 ^ LENGTH(64)"
    by (rule unsigned_less)
  then have "1 \<le> unat (file_size e)" "unat (file_size e) \<le> 18446744073709551615"
    using False by (simp_all add: unat_gt_0 Suc_le_eq)
  then have "1 \<le> ?f" "?f \<le> 18446744073709551615"
    by (simp_all only: of_nat_le_iff rat_of_nat_le one_of_nat_le_iff)
  then have f: "1 / 2 \<le> dbl ?f"
    using dbl_bounds(3) [of ?f] by simp
  have "dbl (?a * ?t) / dbl ?f \<le> (2 * ((2 * 8589934594 + 1) * 4294967295) + 1) / (1 / 2)"
    using b f by (intro frac_le) simp_all
  then have "dbl (dbl (?a * ?t) / dbl ?f) \<le> 2 * ((2 * ((2 * 8589934594 + 1) * 4294967295) + 1) / (1 / 2)) + 1"
    using b f by (intro dbl_le(2)) simp_all
  also have "\<dots> < DBL_MAX"
    by (simp add: DBL_MAX_def)
  finally show ?thesis
    using False assms(2) by (simp add: kv_entry_eviction_score_def)
qed (simp add: kv_entry_eviction_score_def DBL_MAX_def)

section \<open>The loop\<close>

lemma victim_min:
  assumes "i < length es"
  shows "score (es ! victim score es) \<le> score (es ! i)"
proof -
  have inv: "snd (fold (victim_step score es) ns v) = score (es ! fst (fold (victim_step score es) ns v)) \<and>
      snd (fold (victim_step score es) ns v) \<le> snd v \<and>
      (\<forall>n \<in> set ns. snd (fold (victim_step score es) ns v) \<le> score (es ! n))"
    if "snd v = score (es ! fst v)" for ns v
    using that
  proof (induction ns arbitrary: v)
    case (Cons n ns)
    have "snd (victim_step score es n v) = score (es ! fst (victim_step score es n v))" "snd (victim_step score es n v) \<le> snd v"
      "snd (victim_step score es n v) \<le> score (es ! n)"
      using Cons.prems by (auto simp: victim_step_def)
    with Cons.IH [of "victim_step score es n v"] show ?case
      by auto
  qed simp
  from inv [of "(0, score (es ! 0))" "[1..<length es]"] show ?thesis
    using assms unfolding victim_def by (cases "i = 0") auto
qed

definition sizes :: "kv_entry list \<Rightarrow> nat" where
  "sizes es = sum_list (map (unat \<circ> file_size) es)"

lemma take_drop_filter:
  assumes "i < length es" "distinct (map ke_path es)"
  shows "take i es @ drop (Suc i) es = filter (\<lambda>e. ke_path e \<noteq> ke_path (es ! i)) es"
proof -
  have es: "es = take i es @ es ! i # drop (Suc i) es"
    using assms(1) by (rule id_take_nth_drop)
  from assms(2) have "distinct (map ke_path (take i es @ es ! i # drop (Suc i) es))"
    by (subst (asm) es)
  then have "ke_path (es ! i) \<notin> ke_path ` set (take i es)" "ke_path (es ! i) \<notin> ke_path ` set (drop (Suc i) es)"
    by simp_all
  then have "filter (\<lambda>e. ke_path e \<noteq> ke_path (es ! i)) (take i es) = take i es"
    "filter (\<lambda>e. ke_path e \<noteq> ke_path (es ! i)) (drop (Suc i) es) = drop (Suc i) es"
    unfolding filter_id_conv by (metis imageI)+
  then show ?thesis
    by (subst (3) es) simp
qed

lemma sizes_without:
  assumes "i < length es"
  shows "sizes (take i es @ drop (Suc i) es) + unat (file_size (es ! i)) = sizes es"
proof -
  have "sizes es = sizes (take i es @ es ! i # drop (Suc i) es)"
    using id_take_nth_drop [OF assms] by simp
  then show ?thesis
    by (simp add: sizes_def)
qed

lemma delete_filter: "AList.delete k fs = filter (\<lambda>f. fst f \<noteq> k) fs"
  by (induction fs) auto

lemma evict_loop_props:
  assumes "\<And>p. \<not> env_fails env (Io_unlink p)" "distinct (map ke_path es)" "unat tot = sizes es"
    "evict_loop env score budget tot es fs = (es', fs')"
  shows "\<exists>D. D \<subseteq> ke_path ` set es \<and> es' = filter (\<lambda>e. ke_path e \<notin> D) es \<and> fs' = filter (\<lambda>f. fst f \<notin> D) fs \<and>
    sizes es' \<le> unat budget \<and> (sizes es \<le> unat budget \<longrightarrow> D = {}) \<and>
    (\<forall>q \<in> set es. (\<forall>e \<in> set es. e \<noteq> q \<longrightarrow> score e < score q) \<longrightarrow> file_size q \<le> budget \<longrightarrow> ke_path q \<notin> D)"
  using assms(2,3,4)
proof (induction "length es" arbitrary: es tot fs rule: less_induct)
  case less
  show ?case
  proof (cases "tot > budget \<and> es \<noteq> []")
    case False
    then have "es' = es" "fs' = fs"
      using less(4) by (auto simp: evict_loop.simps [of env score budget tot es fs])
    moreover have "sizes es \<le> unat budget"
      using False less(3) by (auto simp: sizes_def not_less word_le_nat_alt)
    ultimately show ?thesis
      by (intro exI [of _ "{}"]) simp
  next
    case True
    define v where "v = victim score es"
    define e where "e = es ! v"
    define es1 where "es1 = take v es @ drop (Suc v) es"
    have v: "v < length es"
      using True by (simp add: victim_less v_def)
    have es1: "es1 = filter (\<lambda>x. ke_path x \<noteq> ke_path e) es"
      unfolding es1_def e_def by (rule take_drop_filter [OF v less(2)])
    have e: "e \<in> set es"
      using v by (simp add: e_def)
    have le: "file_size e \<le> tot" and tot: "unat (tot - file_size e) = sizes es1"
      using sizes_without [OF v] less(3) by (simp_all add: word_le_nat_alt unat_sub e_def es1_def)
    have run: "evict_loop env score budget (tot - file_size e) es1 (AList.delete (ke_path e) fs) = (es', fs')"
      using less(4) True assms(1) le
      by (simp add: evict_loop.simps [of env score budget tot es fs] Let_def v_def [symmetric] e_def [symmetric] es1_def [symmetric])
    have "length es1 < length es" "distinct (map ke_path es1)"
      using v less(2) by (simp add: es1_def) (simp add: es1 distinct_map_filter less(2))
    from less(1) [OF this tot run] obtain D where D: "D \<subseteq> ke_path ` set es1"
      "es' = filter (\<lambda>e. ke_path e \<notin> D) es1" "fs' = filter (\<lambda>f. fst f \<notin> D) (AList.delete (ke_path e) fs)"
      "sizes es' \<le> unat budget"
      "\<And>q. q \<in> set es1 \<Longrightarrow> (\<forall>e \<in> set es1. e \<noteq> q \<longrightarrow> score e < score q) \<Longrightarrow> file_size q \<le> budget \<Longrightarrow> ke_path q \<notin> D"
      by blast
    have keep: "ke_path q \<notin> insert (ke_path e) D"
      if q: "q \<in> set es" "\<forall>e \<in> set es. e \<noteq> q \<longrightarrow> score e < score q" "file_size q \<le> budget" for q
    proof -
      have "e \<noteq> q"
      proof
        assume eq: "e = q"
        have "x = q" if "x \<in> set es" for x
        proof (rule ccontr)
          assume "x \<noteq> q"
          then have "score x < score q"
            using q(2) that by blast
          moreover have "\<exists>i < length es. x = es ! i"
            using that by (auto simp: in_set_conv_nth)
          then have "score q \<le> score x"
            using victim_min [of _ es score] eq by (auto simp: v_def e_def)
          ultimately show False by simp
        qed
        then have "set es \<subseteq> {q}" by blast
        then have "es = [q]"
          using less(2) q(1) by (cases es; cases "tl es") (auto simp: distinct_map)
        then have "sizes es = unat (file_size q)"
          by (simp add: sizes_def)
        then show False
          using True less(3) q(3) by (simp add: word_less_nat_alt word_le_nat_alt)
      qed
      then have "ke_path q \<noteq> ke_path e"
        using less(2) q(1) e by (auto simp: distinct_map dest: inj_onD)
      then show ?thesis
        using D(5) [of q] q by (simp add: es1)
    qed
    have "sizes es > unat budget"
      using True less(3) by (simp add: word_less_nat_alt)
    then show ?thesis
      using D(1,2,3,4) e keep
      by (intro exI [of _ "insert (ke_path e) D"]) (auto simp: es1 delete_filter intro!: filter_cong)
  qed
qed

section \<open>The directory as entries\<close>

definition entry_of :: "env \<Rightarrow> files \<Rightarrow> string \<Rightarrow> kv_entry option" where
  "entry_of env fs name = (case sha_hex_name name of None \<Rightarrow> None | Some sha \<Rightarrow> kv_read_entry_file env fs name sha)"

definition dir_entries :: "env \<Rightarrow> files \<Rightarrow> kv_entry list" where
  "dir_entries env fs = List.map_filter (entry_of env fs) (map fst fs)"

lemma refresh_entries:
  assumes "enabled kc" "\<not> env_fails env Io_opendir"
  shows "kv_cache_refresh env fs kc = kc\<lparr>kv_entries := dir_entries env fs\<rparr>"
proof -
  have eq: "(\<lambda>(name, _). case sha_hex_name name of None \<Rightarrow> None | Some sha \<Rightarrow> kv_read_entry_file env fs name sha) =
      entry_of env fs \<circ> fst"
    by (auto simp: entry_of_def fun_eq_iff split: option.split)
  have "List.map_filter (entry_of env fs \<circ> fst) gs = List.map_filter (entry_of env fs) (map fst gs)" for gs
    by (induction gs) (simp_all add: map_filter_def)
  from this [of fs] show ?thesis
    unfolding kv_cache_refresh_def dir_entries_def eq using assms by (simp only: if_False not_True_eq_False not_False_eq_True if_True)
qed

lemma entry_of_facts:
  assumes "entry_of env fs name = Some e"
  shows "ke_path e = name" "\<exists>bs. map_of fs name = Some bs \<and> file_size e = of_nat (length bs)"
    "sha_hex_name name = Some (ke_sha e)"
  using assms by (auto simp: entry_of_def kv_read_entry_file_def Let_def split: option.splits if_splits prod.splits)

lemma entry_of_cong: "map_of fs name = map_of fs' name \<Longrightarrow> entry_of env fs name = entry_of env fs' name"
  by (simp add: entry_of_def kv_read_entry_file_def split: option.split)

lemma paths_dir_entries: "map ke_path (dir_entries env fs) = filter (\<lambda>n. entry_of env fs n \<noteq> None) (map fst fs)"
proof -
  have "map ke_path (List.map_filter (entry_of env fs) ns) = filter (\<lambda>n. entry_of env fs n \<noteq> None) ns" for ns
    by (induction ns) (auto simp: map_filter_def entry_of_facts(1))
  then show ?thesis
    by (simp add: dir_entries_def)
qed

lemma set_dir_entries: "e \<in> set (dir_entries env fs) \<longleftrightarrow> entry_of env fs (ke_path e) = Some e \<and> ke_path e \<in> fst ` set fs"
  unfolding dir_entries_def map_filter_def by (force simp: entry_of_facts(1))

text \<open>The bytes of all checkpoints the server sees.\<close>

definition cache_bytes :: "env \<Rightarrow> files \<Rightarrow> nat" where
  "cache_bytes env fs = sum_list (map (length \<circ> snd) (filter (\<lambda>f. entry_of env fs (fst f) \<noteq> None) fs))"

lemma map_of_filter_names: "map_of (filter (\<lambda>f. fst f \<notin> D) fs) n = (if n \<in> D then None else map_of fs n)"
  by (induction fs) auto

lemma dir_entries_filter:
  "dir_entries env (filter (\<lambda>f. fst f \<notin> D) fs) = filter (\<lambda>e. ke_path e \<notin> D) (dir_entries env fs)"
proof -
  let ?fs = "filter (\<lambda>f. fst f \<notin> D) fs"
  have eq: "entry_of env ?fs n = entry_of env fs n" if "n \<notin> D" for n
    by (rule entry_of_cong) (simp add: map_of_filter_names that)
  have "List.map_filter (entry_of env ?fs) (filter (\<lambda>n. n \<notin> D) ns) =
      filter (\<lambda>e. ke_path e \<notin> D) (List.map_filter (entry_of env fs) ns)" for ns
    by (induction ns) (auto simp: map_filter_def eq entry_of_facts(1))
  from this [of "map fst fs"] show ?thesis
    by (simp add: dir_entries_def filter_map comp_def)
qed

lemma cache_bytes_filter: "cache_bytes env (filter (\<lambda>f. fst f \<notin> D) fs) \<le> cache_bytes env fs"
proof -
  let ?fs = "filter (\<lambda>f. fst f \<notin> D) fs"
  have eq: "entry_of env ?fs n = entry_of env fs n" if "n \<notin> D" for n
    by (rule entry_of_cong) (simp add: map_of_filter_names that)
  have "sum_list (map (length \<circ> snd) (filter (\<lambda>f. entry_of env ?fs (fst f) \<noteq> None) (filter (\<lambda>f. fst f \<notin> D) gs))) \<le>
      sum_list (map (length \<circ> snd) (filter (\<lambda>f. entry_of env fs (fst f) \<noteq> None) gs))" for gs
    by (induction gs) (auto simp: eq)
  then show ?thesis
    by (simp add: cache_bytes_def)
qed

lemma entry_size:
  assumes "e \<in> set (dir_entries env fs)" "cache_bytes env fs < 18446744073709551616"
  shows "file_size e \<noteq> 0"
proof -
  have e: "entry_of env fs (ke_path e) = Some e"
    using assms(1) by (simp add: set_dir_entries)
  then obtain bs where bs: "map_of fs (ke_path e) = Some bs" "file_size e = of_nat (length bs)"
    using entry_of_facts(2) [OF e] by auto
  then have "52 \<le> length bs"
    using e by (auto simp: entry_of_def kv_read_entry_file_def KV_CACHE_FIXED_HEADER_def split: option.splits if_splits)
  have "(ke_path e, bs) \<in> set (filter (\<lambda>f. entry_of env fs (fst f) \<noteq> None) fs)"
    using bs(1) e by (simp add: map_of_SomeD)
  then have "length bs \<le> cache_bytes env fs"
    unfolding cache_bytes_def by (intro member_le_sum_list) (force | simp)+
  then have "unat (file_size e) = length bs"
    using assms(2) bs(2) by (simp add: unat_of_nat)
  then show ?thesis
    using \<open>52 \<le> length bs\<close> by auto
qed

lemma sizes_dir_entries:
  assumes "distinct (map fst fs)" "cache_bytes env fs < 18446744073709551616"
  shows "sizes (dir_entries env fs) = cache_bytes env fs"
proof -
  have "sum_list (map (unat \<circ> file_size) (List.map_filter (entry_of env fs) (map fst gs))) =
      sum_list (map (length \<circ> snd) (filter (\<lambda>f. entry_of env fs (fst f) \<noteq> None) gs))"
    if "set gs \<subseteq> set fs" "sum_list (map (length \<circ> snd) (filter (\<lambda>f. entry_of env fs (fst f) \<noteq> None) gs)) < 18446744073709551616"
    for gs
    using that
  proof (induction gs)
    case (Cons g gs)
    obtain n bs where g: "g = (n, bs)" by (cases g)
    have bs: "map_of fs n = Some bs"
      using Cons.prems(1) assms(1) g by (simp add: map_of_eq_Some_iff)
    show ?case
    proof (cases "entry_of env fs n")
      case (Some e)
      then have "file_size e = of_nat (length bs)"
        using entry_of_facts(2) [OF Some] bs by simp
      then have "unat (file_size e) = length bs"
        using Cons.prems(2) Some g by (simp add: unat_of_nat)
      then show ?thesis
        using Cons g Some by (simp add: map_filter_def)
    qed (use Cons g in \<open>simp add: map_filter_def\<close>)
  qed (simp add: map_filter_def)
  from this [of fs] assms(2) show ?thesis
    by (simp add: sizes_def dir_entries_def cache_bytes_def)
qed

lemma find_unique:
  assumes "x \<in> set xs" "P x" "\<And>y. y \<in> set xs \<Longrightarrow> P y \<Longrightarrow> y = x"
  shows "find P xs = Some x"
proof (cases "find P xs")
  case None
  then show ?thesis
    using assms(1,2) by (simp add: find_None_iff)
next
  case (Some y)
  then have "y \<in> set xs" "P y"
    by (auto simp: find_Some_iff)
  then show ?thesis
    using Some assms(3) by simp
qed

lemma total_sizes: "unat (fold (\<lambda>e n. n + file_size e) es 0) = sizes es mod 18446744073709551616"
proof -
  have "fold (\<lambda>e n. n + file_size e) es k = k + of_nat (sizes es)" for k
    by (induction es arbitrary: k) (simp_all add: sizes_def ac_simps)
  then show ?thesis
    by (simp add: unat_of_nat)
qed

lemma evict_facts:
  assumes "enabled kc" "budget_bytes kc \<noteq> 0" "distinct (map fst fs)" "cache_bytes env fs < 18446744073709551616"
    and "\<not> env_fails env Io_opendir" "\<And>p. \<not> env_fails env (Io_unlink p)" "exp2_ok env"
    and "kv_cache_evict env protected_sha kc fs = (kc', fs')"
  shows "\<exists>D. fs' = filter (\<lambda>f. fst f \<notin> D) fs \<and> D \<subseteq> ke_path ` set (dir_entries env fs) \<and>
    kv_entries kc' = dir_entries env fs' \<and> cache_bytes env fs' \<le> unat (budget_bytes kc) \<and>
    (cache_bytes env fs \<le> unat (budget_bytes kc) \<longrightarrow> fs' = fs) \<and>
    (\<forall>e \<in> set (dir_entries env fs). protected_sha = Some (ke_sha e) \<longrightarrow>
      (\<forall>x \<in> set (dir_entries env fs). ke_sha x = ke_sha e \<longrightarrow> x = e) \<longrightarrow> file_size e \<le> budget_bytes kc \<longrightarrow> ke_path e \<notin> D)"
proof -
  let ?es = "dir_entries env fs" and ?b = "budget_bytes kc"
  define p where "p = evict_protected ?b ?es protected_sha"
  define tot where "tot = fold (\<lambda>e n. n + file_size e) ?es 0"
  define sc where "sc = kv_entry_eviction_score env p"
  obtain es1 fs1 where run: "evict_loop env sc ?b tot ?es fs = (es1, fs1)"
    by (cases "evict_loop env sc ?b tot ?es fs")
  then have k: "kc' = kc\<lparr>kv_entries := es1\<rparr>" "fs' = fs1"
    using assms(1,2,5,8) by (simp_all add: kv_cache_evict_def refresh_entries Let_def p_def [symmetric] tot_def [symmetric] sc_def [symmetric])
  have paths: "distinct (map ke_path ?es)"
    using assms(3) by (simp add: paths_dir_entries)
  note sz = sizes_dir_entries [OF assms(3,4)]
  have tot: "unat tot = sizes ?es"
    using total_sizes [of ?es] sz assms(4) by (simp add: tot_def)
  from evict_loop_props [OF assms(6) paths tot run] obtain D where D: "D \<subseteq> ke_path ` set ?es"
    "es1 = filter (\<lambda>e. ke_path e \<notin> D) ?es" "fs1 = filter (\<lambda>f. fst f \<notin> D) fs" "sizes es1 \<le> unat ?b"
    "sizes ?es \<le> unat ?b \<longrightarrow> D = {}"
    "\<And>q. q \<in> set ?es \<Longrightarrow> (\<forall>e \<in> set ?es. e \<noteq> q \<longrightarrow> sc e < sc q) \<Longrightarrow> file_size q \<le> ?b \<Longrightarrow> ke_path q \<notin> D"
    by blast
  have es1: "es1 = dir_entries env fs1"
    by (simp add: D(2,3) dir_entries_filter)
  have "distinct (map fst fs1)" "cache_bytes env fs1 < 18446744073709551616"
    using assms(3,4) cache_bytes_filter [of env D fs] by (simp_all add: D(3) distinct_map_filter)
  then have within: "cache_bytes env fs' \<le> unat ?b"
    unfolding k(2) using sizes_dir_entries [of fs1 env] D(4) es1 by simp
  have keep: "ke_path e \<notin> D" if e: "e \<in> set ?es" "protected_sha = Some (ke_sha e)"
      "\<forall>x \<in> set ?es. ke_sha x = ke_sha e \<longrightarrow> x = e" "file_size e \<le> ?b" for e
  proof -
    have "find (\<lambda>x. ke_sha x = ke_sha e) ?es = Some e"
      using e(1,3) by (intro find_unique) auto
    then have p: "p = Some (ke_sha e)"
      using e(2,4) by (simp add: p_def evict_protected_def)
    show ?thesis
    proof (rule D(6) [OF e(1) _ e(4)], intro ballI impI)
      fix x assume x: "x \<in> set ?es" "x \<noteq> e"
      then have "p \<noteq> Some (ke_sha x)"
        using e(3) p by auto
      from score_bound [OF assms(7) this] show "sc x < sc e"
        using entry_size [OF e(1) assms(4)] p by (simp add: sc_def kv_entry_eviction_score_def [of env "Some (ke_sha e)" e])
    qed
  qed
  have same: "fs' = fs" if "cache_bytes env fs \<le> unat ?b"
    using D(3,5) that sz k(2) by simp
  have "kv_entries kc' = dir_entries env fs'" "fs' = filter (\<lambda>f. fst f \<notin> D) fs"
    using es1 D(3) k by simp_all
  then show ?thesis
    using D(1) within same keep by (intro exI [of _ D] conjI ballI impI; blast)
qed

text \<open>
  C35: eviction meets the budget and keeps what it protects. When the directory can be read and files can be removed, it
  deletes only checkpoints the server sees; what is left of them is within the budget; nothing is deleted when they
  already were; and the checkpoint just written stays when it alone fits into the budget.
\<close>

theorem eviction_meets_budget:
  assumes "enabled kc" "budget_bytes kc \<noteq> 0" "distinct (map fst fs)" "cache_bytes env fs < 18446744073709551616"
    and "\<not> env_fails env Io_opendir" "\<And>p. \<not> env_fails env (Io_unlink p)" "exp2_ok env"
    and "kv_cache_evict env protected_sha kc fs = (kc', fs')"
  shows "\<exists>D. fs' = filter (\<lambda>f. fst f \<notin> D) fs \<and> D \<subseteq> ke_path ` set (dir_entries env fs) \<and>
    kv_entries kc' = dir_entries env fs' \<and> cache_bytes env fs' \<le> unat (budget_bytes kc) \<and>
    (cache_bytes env fs \<le> unat (budget_bytes kc) \<longrightarrow> fs' = fs) \<and>
    (\<forall>e \<in> set (dir_entries env fs). protected_sha = Some (ke_sha e) \<longrightarrow>
      (\<forall>x \<in> set (dir_entries env fs). ke_sha x = ke_sha e \<longrightarrow> x = e) \<longrightarrow> file_size e \<le> budget_bytes kc \<longrightarrow> ke_path e \<notin> D)"
  using evict_facts [OF assms(1-4,5) assms(6) assms(7,8)] .

end
