(* ===== verification/Kv_Store.thy ===== *)
theory Kv_Store
  imports Kv_Disk Session_Payload
begin

text \<open>
  Storing and loading checkpoints (\<open>ds4_server.c\<close>): the file of a live session, finding the longest stored text a
  prompt begins with, and restoring the session and the tool calls from it.

  The part of the server these functions use is a record. What belongs to the engine and its model, the number of bits
  of the routed experts, the text of a token and the tokenizer, is a parameter. \<open>None\<close> is an access outside a buffer or
  a loop that would not end, as in the components that are called.
\<close>

record ds4_engine =
  routed_quant_bits :: int
  token_text :: "u32 \<Rightarrow> string"
  tokenize_rendered_chat :: "string \<Rightarrow> u32 list"

record kv_server =
  sv_kv :: kv_disk_cache
  sv_files :: files
  sv_session :: ds4_session
  sv_tools :: tool_memory
  sv_replay_off :: bool

definition render_tokens_text :: "ds4_engine \<Rightarrow> u32 list \<Rightarrow> string" where
  "render_tokens_text engine toks = concat (map (token_text engine) toks)"

definition byte_prefix_match :: "string \<Rightarrow> string \<Rightarrow> bool" where
  "byte_prefix_match text0 pre \<longleftrightarrow> length pre \<le> length text0 \<and> take (length pre) text0 = pre"

definition build_prompt_from_exact_prefix_and_text_suffix :: "ds4_engine \<Rightarrow> u32 list \<Rightarrow> string \<Rightarrow> u32 list" where
  "build_prompt_from_exact_prefix_and_text_suffix engine exact_prefix suffix_text =
     exact_prefix @ tokenize_rendered_chat engine suffix_text"

section \<open>Storing\<close>

definition kv_cache_file_text_matches :: "env \<Rightarrow> files \<Rightarrow> string \<Rightarrow> string \<Rightarrow> string \<Rightarrow> bool" where
  "kv_cache_file_text_matches env fs path sha text0 =
     (if too_long (length text0) then False
      else case map_of fs path of None \<Rightarrow> False
      | Some bs \<Rightarrow>
          if env_fails env (Io_open path) then False
          else (case kv_read_header bs of None \<Rightarrow> False
            | Some (_, tbn, fp) \<Rightarrow>
                tbn = of_nat (length text0) \<and>
                (case fread (unat tbn) fp of None \<Rightarrow> False
                 | Some (stored, _) \<Rightarrow> sha1_bytes_hex stored = Some sha \<and> stored = to_bytes text0)))"

definition kv_cache_existing_compatible ::
  "env \<Rightarrow> kv_disk_cache \<Rightarrow> files \<Rightarrow> string \<Rightarrow> string \<Rightarrow> string \<Rightarrow> int \<Rightarrow> u32 \<Rightarrow> files \<times> bool" where
  "kv_cache_existing_compatible env kc fs path sha text0 quant ctx =
     (if map_of fs path = None then (fs, False)
      else case kv_read_entry_file env fs path sha of None \<Rightarrow> (fs, False)
      | Some e \<Rightarrow>
          if (\<not> reject_different_quant kc \<or> quant_bits e = of_int quant) \<and> ctx_size e \<le> ctx \<and>
             kv_cache_file_text_matches env fs path sha text0
          then (fs, True)
          else (if env_fails env (Io_unlink path) then fs else AList.delete path fs, False))"

text \<open>The map behind the payload is cut off and written again; then the header gets its flag.\<close>

definition kv_cache_rewrite_tool_map :: "env \<Rightarrow> kv_server \<Rightarrow> string \<Rightarrow> string \<Rightarrow> kv_server" where
  "kv_cache_rewrite_tool_map env s path text0 =
     (if tool_memory_count_dsml_in_text (sv_replay_off s) (sv_tools s) text0 = 0 then s
      else case map_of (sv_files s) path of None \<Rightarrow> s
      | Some bs \<Rightarrow>
          if env_fails env (Io_open path) then s
          else (case kv_read_header bs of None \<Rightarrow> s
            | Some (e, tbn, _) \<Rightarrow>
                (let fin = of_nat KV_CACHE_FIXED_HEADER + 4 + ucast tbn + payload_bytes e :: u64 in
                 if fin > 0x7fffffffffffffff \<or> env_fails env Io_truncate then s
                 else let cut = take (unat fin) bs @ replicate (unat fin - length bs) 0 in
                   case kv_tool_map_write (sv_replay_off s) (sv_tools s) text0
                       \<lparr>written = cut, room = env_room env\<rparr> of
                     (m, f, ok, ignored) \<Rightarrow>
                       let ok = (ok \<and> \<not> env_fails env Io_flush);
                           bs1 = (if ok \<and> ignored > 0
                             then kv_fill_header (e\<lparr>ext_flags := ext_flags e OR KV_EXT_TOOL_MAP,
                                    last_used := env_now env\<rparr>) @ drop KV_CACHE_FIXED_HEADER (written f)
                             else written f)
                       in s\<lparr>sv_tools := m, sv_files := AList.update path bs1 (sv_files s)\<rparr>)))"

text \<open>What is written to the new file, whether all of it was, and the size of the tool map.\<close>

definition write_checkpoint ::
  "env \<Rightarrow> kv_server \<Rightarrow> kv_entry \<Rightarrow> string \<Rightarrow> (tool_memory \<times> u8 list \<times> bool \<times> u64) option" where
  "write_checkpoint env s e text0 =
     (case then_write (then_write (fwrite (kv_fill_header e) \<lparr>written = [], room = env_room env\<rparr>)
         (le_put32 (of_nat (length text0)))) (to_bytes text0) of
        (f, ok) \<Rightarrow>
          if \<not> ok then Some (sv_tools s, written f, False, 0)
          else (case ds4_session_save_payload (sv_session s) f of None \<Rightarrow> None
            | Some (f1, ok1) \<Rightarrow>
                if \<not> ok1 then Some (sv_tools s, written f1, False, 0)
                else (case kv_tool_map_write (sv_replay_off s) (sv_tools s) text0 f1 of
                    (m, f2, ok2, n) \<Rightarrow> Some (m, written f2, ok2 \<and> \<not> env_fails env Io_flush, n))))"

definition store_entry :: "env \<Rightarrow> kv_server \<Rightarrow> int \<Rightarrow> u32 list \<Rightarrow> string \<Rightarrow> u8 \<Rightarrow> kv_entry" where
  "store_entry env s quant toks why flags =
     kv_entry_zero\<lparr>quant_bits := of_int quant, reason := kv_reason_code why, ext_flags := flags,
       tokens := of_nat (length toks), hits := 0, ctx_size := s_ctx_size (sv_session s), created_at := env_now env,
       last_used := env_now env, payload_bytes := ds4_session_payload_bytes (sv_session s)\<rparr>"

text \<open>From the estimate of the size on; the text is the key of the file.\<close>

definition store_text ::
  "env \<Rightarrow> ds4_engine \<Rightarrow> kv_server \<Rightarrow> u32 list \<Rightarrow> string \<Rightarrow> string \<Rightarrow> u8 \<Rightarrow> (kv_server \<times> bool) option" where
  "store_text env engine s toks why text0 text_ext =
     (let kc = sv_kv s; quant = routed_quant_bits engine; pay = ds4_session_payload_bytes (sv_session s) in
      case kv_tool_map_serialized_size (sv_replay_off s) (sv_tools s) text0 of
        (m, None) \<Rightarrow> Some (s\<lparr>sv_tools := m\<rparr>, False)
      | (m, Some map_est) \<Rightarrow>
          (let s = s\<lparr>sv_tools := m\<rparr> in
           if \<not> kv_cache_file_size_fits kc (of_nat (length text0)) pay map_est then Some (s, False)
           else case sha1_bytes_hex (to_bytes text0) of None \<Rightarrow> None
           | Some sha \<Rightarrow>
               (let path = kv_path_for_sha sha; tmp = path @ ''.tmp.'' @ env_pid env in
                case kv_cache_existing_compatible env kc (sv_files s) path sha text0 quant (s_ctx_size (sv_session s)) of
                  (fs, True) \<Rightarrow> Some (kv_cache_rewrite_tool_map env (s\<lparr>sv_files := fs\<rparr>) path text0, True)
                | (fs, False) \<Rightarrow>
                    if env_fails env Io_create then Some (s\<lparr>sv_files := fs\<rparr>, False)
                    else (case write_checkpoint env s
                        (store_entry env s quant toks why ((if map_est > 0 then KV_EXT_TOOL_MAP else 0) OR text_ext)) text0 of
                        None \<Rightarrow> None
                      | Some (m1, bs, ok, map_n) \<Rightarrow>
                          (let s = s\<lparr>sv_tools := m1\<rparr>;
                               ok = (ok \<and> \<not> env_fails env Io_close \<and>
                                 kv_cache_file_size_fits kc (of_nat (length text0)) pay map_n \<and>
                                 \<not> env_fails env Io_rename) in
                           if \<not> ok then
                             Some (s\<lparr>sv_files := (if env_fails env (Io_unlink tmp) then AList.update tmp bs fs
                               else AList.delete tmp fs)\<rparr>, False)
                           else (case kv_cache_evict env (Some sha) kc (AList.update path bs (AList.delete tmp fs)) of
                               (kc1, fs1) \<Rightarrow> Some (s\<lparr>sv_kv := kc1, sv_files := fs1\<rparr>, True)))))))"

definition kv_cache_store_live_prefix_text ::
  "env \<Rightarrow> ds4_engine \<Rightarrow> kv_server \<Rightarrow> u32 list \<Rightarrow> int \<Rightarrow> string \<Rightarrow> string \<Rightarrow> u8 \<Rightarrow> (kv_server \<times> bool) option" where
  "kv_cache_store_live_prefix_text env engine s toks store_len why text_override text_ext =
     (let kc = sv_kv s; store_tokens = take (nat store_len) toks; quant = routed_quant_bits engine;
          live = checkpoint (sv_session s) in
      if \<not> enabled kc then Some (s, False)
      else if store_len < min_tokens (opt kc) then Some (s, False)
      else if quant \<noteq> 2 \<and> quant \<noteq> 4 then Some (s, False)
      else if length live \<noteq> length store_tokens \<or> \<not> ds4_tokens_starts_with live store_tokens then Some (s, False)
      else if ds4_session_payload_bytes (sv_session s) = 0 then Some (s, False)
      else let overridden = text_override \<noteq> [];
          text0 = (if overridden then text_override else render_tokens_text engine store_tokens) in
        if too_long (length text0) then Some (s, False)
        else store_text env engine s store_tokens why text0 (if overridden then text_ext else 0))"

definition kv_cache_store_live_prefix ::
  "env \<Rightarrow> ds4_engine \<Rightarrow> kv_server \<Rightarrow> u32 list \<Rightarrow> int \<Rightarrow> string \<Rightarrow> (kv_server \<times> bool) option" where
  "kv_cache_store_live_prefix env engine s toks store_len why =
     kv_cache_store_live_prefix_text env engine s toks store_len why [] 0"

text \<open>The part of the live states of the protocols that decides which text names the checkpoint.\<close>

record visible_live =
  vl_valid :: bool
  vl_tokens :: int
  vl_text :: string

definition visible_for :: "visible_live \<Rightarrow> u32 list \<Rightarrow> bool" where
  "visible_for v toks \<longleftrightarrow> vl_valid v \<and> vl_tokens v = int (length toks) \<and> vl_text v \<noteq> []"

definition kv_cache_store_current ::
  "env \<Rightarrow> ds4_engine \<Rightarrow> kv_server \<Rightarrow> visible_live \<Rightarrow> visible_live \<Rightarrow> string \<Rightarrow> kv_server option" where
  "kv_cache_store_current env engine s responses_live thinking_live why =
     (let toks = checkpoint (sv_session s); n = int (length toks) in
      map_option fst
        (if visible_for responses_live toks then
           kv_cache_store_live_prefix_text env engine s toks n why (vl_text responses_live) KV_EXT_RESPONSES_VISIBLE
         else if visible_for thinking_live toks then
           kv_cache_store_live_prefix_text env engine s toks n why (vl_text thinking_live) KV_EXT_THINKING_VISIBLE
         else kv_cache_store_live_prefix env engine s toks n why))"

definition kv_cache_maybe_store_continued :: "env \<Rightarrow> ds4_engine \<Rightarrow> kv_server \<Rightarrow> kv_server option" where
  "kv_cache_maybe_store_continued env engine s =
     (let toks = checkpoint (sv_session s);
          target = kv_cache_continued_store_target (sv_kv s) (int (length toks)) in
      if target = 0 then Some s
      else case kv_cache_store_live_prefix env engine s toks target ''continued'' of
        None \<Rightarrow> None
      | Some (s1, stored) \<Rightarrow> Some (if stored then s1\<lparr>sv_kv := kv_cache_note_store (sv_kv s1) target\<rparr> else s1))"

section \<open>Loading\<close>

definition entry_usable :: "kv_disk_cache \<Rightarrow> string \<Rightarrow> int \<Rightarrow> u32 \<Rightarrow> kv_entry \<Rightarrow> bool" where
  "entry_usable kc prompt quant ctx e \<longleftrightarrow>
     \<not> unat (text_bytes e) > length prompt \<and> \<not> sint (tokens e) < min_tokens (opt kc) \<and> \<not> ctx < ctx_size e \<and>
     \<not> (reject_different_quant kc \<and> quant_bits e \<noteq> of_int quant)"

definition entry_beats :: "kv_entry \<Rightarrow> kv_entry \<Rightarrow> bool" where
  "entry_beats e b \<longleftrightarrow> \<not> text_bytes e < text_bytes b \<and> \<not> (text_bytes e = text_bytes b \<and> tokens e \<le> tokens b)"

definition find_step ::
  "kv_disk_cache \<Rightarrow> string \<Rightarrow> int \<Rightarrow> u32 \<Rightarrow> kv_entry list \<Rightarrow> nat \<Rightarrow> nat option \<Rightarrow> nat option" where
  "find_step kc prompt quant ctx es i best =
     (let e = es ! i in
      if \<not> entry_usable kc prompt quant ctx e then best
      else if (case best of None \<Rightarrow> False | Some b \<Rightarrow> \<not> entry_beats e (es ! b)) then best
      else if sha1_bytes_hex (to_bytes (take (unat (text_bytes e)) prompt)) = Some (ke_sha e) then Some i else best)"

definition kv_cache_find_text_prefix ::
  "env \<Rightarrow> files \<Rightarrow> kv_disk_cache \<Rightarrow> string \<Rightarrow> int \<Rightarrow> u32 \<Rightarrow> kv_disk_cache \<times> nat option" where
  "kv_cache_find_text_prefix env fs kc prompt quant ctx =
     (let kc = kv_cache_refresh env fs kc; es = kv_entries kc in
      (kc, fold (find_step kc prompt quant ctx es) [0..<length es] None))"

text \<open>The text behind the header, when it is the beginning of the prompt and belongs to the name of the file.\<close>

definition cached_text_ok :: "string \<Rightarrow> string \<Rightarrow> u32 \<Rightarrow> u8 list \<Rightarrow> u8 list option" where
  "cached_text_ok prompt sha tbn fp =
     (if unat tbn > length prompt then None
      else case fread (unat tbn) fp of None \<Rightarrow> None
      | Some (cached, rest) \<Rightarrow>
          if sha1_bytes_hex cached \<noteq> Some sha then None
          else if \<not> byte_prefix_match prompt (to_text cached) then None
          else Some rest)"

text \<open>The server, the number of tokens loaded, the prompt to go on with, and the path and flags of the file.\<close>

type_synonym load_text_result = "kv_server \<times> int \<times> u32 list \<times> (string \<times> u8) option"

definition after_load :: "env \<Rightarrow> kv_server \<Rightarrow> string \<Rightarrow> kv_entry \<Rightarrow> int \<Rightarrow> u32 list \<Rightarrow> load_text_result" where
  "after_load env s path hdr loaded effective =
     (if loaded > 0 then
        (let kc = (sv_kv s)\<lparr>continued_last_store_tokens := loaded\<rparr>; cold = cold_max_tokens (opt kc);
             fs = (if cold > 0 \<and> loaded > cold
                   then (if env_fails env (Io_unlink path) then sv_files s else AList.delete path (sv_files s))
                   else kv_cache_touch_file env (sv_files s) path (hits hdr + 1))
         in (s\<lparr>sv_kv := kc, sv_files := fs\<rparr>, loaded, effective, Some (path, ext_flags hdr)))
      else (s, loaded, effective, None))"

definition kv_cache_try_load_text :: "env \<Rightarrow> ds4_engine \<Rightarrow> kv_server \<Rightarrow> string \<Rightarrow> load_text_result option" where
  "kv_cache_try_load_text env engine s prompt =
     (let quant = routed_quant_bits engine in
      if \<not> enabled (sv_kv s) then Some (s, 0, [], None)
      else if quant \<noteq> 2 \<and> quant \<noteq> 4 then Some (s, 0, [], None)
      else case kv_cache_find_text_prefix env (sv_files s) (sv_kv s) prompt quant (s_ctx_size (sv_session s)) of
        (kc, None) \<Rightarrow> Some (s\<lparr>sv_kv := kc\<rparr>, 0, [], None)
      | (kc, Some idx) \<Rightarrow>
          (let s = s\<lparr>sv_kv := kc\<rparr>; e = kv_entries kc ! idx; path = ke_path e in
           case map_of (sv_files s) path of None \<Rightarrow> Some (s, 0, [], None)
           | Some bs \<Rightarrow>
               if env_fails env (Io_open path) then Some (s, 0, [], None)
               else (case kv_read_header bs of None \<Rightarrow> Some (s, 0, [], None)
                 | Some (hdr, tbn, fp) \<Rightarrow>
                     (case cached_text_ok prompt (ke_sha e) tbn fp of None \<Rightarrow> Some (s, 0, [], None)
                      | Some fp1 \<Rightarrow>
                          (case ds4_session_load_payload (sv_session s) fp1 (payload_bytes hdr) of
                             Load_overrun \<Rightarrow> None
                           | Load_failed t \<Rightarrow> Some (s\<lparr>sv_session := ds4_session_invalidate t\<rparr>, 0, [], None)
                           | Loaded t fp2 \<Rightarrow>
                               if int (length (checkpoint t)) \<noteq> sint (tokens hdr) then
                                 Some (s\<lparr>sv_session := ds4_session_invalidate t,
                                   sv_files := (if env_fails env (Io_unlink path) then sv_files s
                                     else AList.delete path (sv_files s))\<rparr>, 0, [], None)
                               else (case (if ext_flags hdr AND KV_EXT_TOOL_MAP \<noteq> 0
                                     then kv_tool_map_load_from_pos (sv_replay_off s) (sv_tools s) fp2 None
                                     else Some (sv_tools s, 0)) of None \<Rightarrow> None
                                 | Some (m, _) \<Rightarrow>
                                     Some (after_load env (s\<lparr>sv_session := t, sv_tools := m\<rparr>) path hdr (sint (tokens hdr))
                                       (build_prompt_from_exact_prefix_and_text_suffix engine (checkpoint t)
                                         (drop (unat tbn) prompt)))))))))"

section \<open>Tool calls of other checkpoints\<close>

record call_ids =
  tool_call_id :: string
  tool_call_ids :: "string list"
  calls :: tool_calls

definition collect_tool_call_ids :: "call_ids list \<Rightarrow> string list \<Rightarrow> string list" where
  "collect_tool_call_ids msgs ids =
     fold (\<lambda>c ids. fold (\<lambda>i ids. id_list_push_unique ids i)
       (tool_call_id c # tool_call_ids c @ map id_of (tc_list (calls c))) ids) msgs ids"

definition restore_from_file :: "env \<Rightarrow> string list \<Rightarrow> string \<times> u8 list \<Rightarrow> bool \<times> tool_memory \<Rightarrow> tool_memory option" where
  "restore_from_file env wanted file dm =
     (case (file, dm) of ((name, bs), (disabled, m)) \<Rightarrow>
        if sha_hex_name name = None \<or> env_fails env (Io_open name) then Some m
        else case kv_read_header bs of None \<Rightarrow> Some m
        | Some (hdr, tbn, fp) \<Rightarrow>
            (let skip = ucast tbn + payload_bytes hdr in
             if ext_flags hdr AND KV_EXT_TOOL_MAP \<noteq> 0 \<and> skip \<le> 0x7fffffffffffffff
             then map_option fst (kv_tool_map_load_from_pos disabled m (drop (unat skip) fp) (Some wanted))
             else Some m))"

fun restore_from_files :: "env \<Rightarrow> string list \<Rightarrow> bool \<Rightarrow> files \<Rightarrow> tool_memory \<Rightarrow> tool_memory option" where
  "restore_from_files env wanted disabled [] m = Some m"
| "restore_from_files env wanted disabled (f # fs) m =
     (case restore_from_file env wanted f (disabled, m) of None \<Rightarrow> None
      | Some m1 \<Rightarrow> restore_from_files env wanted disabled fs m1)"

definition kv_cache_restore_tool_memory_for_messages :: "env \<Rightarrow> kv_server \<Rightarrow> call_ids list \<Rightarrow> kv_server option" where
  "kv_cache_restore_tool_memory_for_messages env s msgs =
     (if sv_replay_off s \<or> \<not> enabled (sv_kv s) then Some s
      else let wanted = collect_tool_call_ids msgs [] in
        if wanted = [] \<or> env_fails env Io_opendir then Some s
        else map_option (\<lambda>m. s\<lparr>sv_tools := m\<rparr>) (restore_from_files env wanted (sv_replay_off s) (sv_files s) (sv_tools s)))"

end
