(* ===== verification/Kv_Find.thy ===== *)
theory Kv_Find
  imports Kv_Store Kv_Evict Session_Properties Kv_File_Properties
begin

text \<open>Finding, storing and loading checkpoints.\<close>

section \<open>The longest stored prefix\<close>

definition prefix_entry :: "kv_disk_cache \<Rightarrow> string \<Rightarrow> int \<Rightarrow> u32 \<Rightarrow> kv_entry \<Rightarrow> bool" where
  "prefix_entry kc prompt quant ctx e \<longleftrightarrow>
     entry_usable kc prompt quant ctx e \<and> sha1_bytes_hex (to_bytes (take (unat (text_bytes e)) prompt)) = Some (ke_sha e)"

lemma find_step_spec:
  assumes "P = prefix_entry kc prompt quant ctx"
  shows "find_step kc prompt quant ctx es i best =
    (if P (es ! i) \<and> (case best of None \<Rightarrow> True | Some b \<Rightarrow> entry_beats (es ! i) (es ! b)) then Some i else best)"
  by (auto simp: find_step_def Let_def assms prefix_entry_def split: option.split)

lemma entry_beats_trans: "entry_beats a b \<Longrightarrow> \<not> entry_beats c b \<Longrightarrow> \<not> entry_beats c a"
  by (auto simp: entry_beats_def not_less not_le)

lemma entry_beats_irrefl: "\<not> entry_beats a a"
  by (simp add: entry_beats_def)

lemma find_fold:
  assumes "P = prefix_entry kc prompt quant ctx"
  shows "(case fold (find_step kc prompt quant ctx es) [0..<n] None of
      None \<Rightarrow> \<forall>j < n. \<not> P (es ! j)
    | Some i \<Rightarrow> i < n \<and> P (es ! i) \<and> (\<forall>j < n. P (es ! j) \<longrightarrow> \<not> entry_beats (es ! j) (es ! i)))"
proof (induction n)
  case (Suc n)
  define r where "r = fold (find_step kc prompt quant ctx es) [0..<n] None"
  have step: "fold (find_step kc prompt quant ctx es) [0..<Suc n] None = find_step kc prompt quant ctx es n r"
    by (simp add: r_def)
  show ?case
    using Suc [folded r_def] unfolding step
    by (cases r) (auto simp: find_step_spec [OF assms] less_Suc_eq entry_beats_irrefl dest: entry_beats_trans)
qed simp

text \<open>What the two conditions of the search mean.\<close>

lemma prefix_entry_iff:
  "prefix_entry kc prompt quant ctx e \<longleftrightarrow>
     unat (text_bytes e) \<le> length prompt \<and>
     sha1_bytes_hex (to_bytes (take (unat (text_bytes e)) prompt)) = Some (ke_sha e) \<and>
     min_tokens (opt kc) \<le> sint (tokens e) \<and> ctx_size e \<le> ctx \<and>
     (reject_different_quant kc \<longrightarrow> quant_bits e = of_int quant)"
  by (auto simp: prefix_entry_def entry_usable_def not_less)

lemma not_beats_iff:
  "\<not> entry_beats e b \<longleftrightarrow>
     unat (text_bytes e) < unat (text_bytes b) \<or>
     unat (text_bytes e) = unat (text_bytes b) \<and> unat (tokens e) \<le> unat (tokens b)"
  by (auto simp: entry_beats_def word_less_nat_alt word_le_nat_alt word_unat_eq_iff)

text \<open>
  C36: lookup finds the longest stored prefix. A checkpoint of the directory can serve a prompt when the hash in its name is
  that of the beginning of the prompt of its text's length, it has at least the configured number of tokens, it needs no larger
  context than the session's and, where the quantisation matters, it has the session's. The result is such a checkpoint; every
  other one has a shorter text, or a text of the same length and no more tokens; and there is no result only when no
  checkpoint of the directory can serve the prompt.
\<close>

theorem find_longest_prefix:
  assumes "enabled kc" "\<not> env_fails env Io_opendir"
    and "kv_cache_find_text_prefix env fs kc prompt quant ctx = (kc', r)"
  shows "kv_entries kc' = dir_entries env fs \<and>
    (let es = dir_entries env fs;
         serves = (\<lambda>e. unat (text_bytes e) \<le> length prompt \<and>
           sha1_bytes_hex (to_bytes (take (unat (text_bytes e)) prompt)) = Some (ke_sha e) \<and>
           min_tokens (opt kc) \<le> sint (tokens e) \<and> ctx_size e \<le> ctx \<and>
           (reject_different_quant kc \<longrightarrow> quant_bits e = of_int quant))
     in case r of
          None \<Rightarrow> \<forall>e \<in> set es. \<not> serves e
        | Some i \<Rightarrow> i < length es \<and> serves (es ! i) \<and>
            (\<forall>e \<in> set es. serves e \<longrightarrow>
               unat (text_bytes e) < unat (text_bytes (es ! i)) \<or>
               unat (text_bytes e) = unat (text_bytes (es ! i)) \<and> unat (tokens e) \<le> unat (tokens (es ! i))))"
proof -
  let ?es = "dir_entries env fs"
  have eq: "prefix_entry (kc\<lparr>kv_entries := ?es\<rparr>) = prefix_entry kc"
    by (simp add: fun_eq_iff prefix_entry_def entry_usable_def)
  have k: "kc' = kc\<lparr>kv_entries := ?es\<rparr>" "r = fold (find_step kc' prompt quant ctx ?es) [0..<length ?es] None"
    using assms(3) by (auto simp: kv_cache_find_text_prefix_def refresh_entries [OF assms(1,2)] Let_def)
  have "case r of None \<Rightarrow> \<forall>e \<in> set ?es. \<not> prefix_entry kc prompt quant ctx e
    | Some i \<Rightarrow> i < length ?es \<and> prefix_entry kc prompt quant ctx (?es ! i) \<and>
        (\<forall>e \<in> set ?es. prefix_entry kc prompt quant ctx e \<longrightarrow> \<not> entry_beats e (?es ! i))"
    using find_fold [OF refl, where kc = kc' and prompt = prompt and quant = quant and ctx = ctx and es = ?es and n = "length ?es"]
    unfolding k(2) [symmetric] by (auto simp: k(1) eq all_set_conv_all_nth split: option.splits)
  then show ?thesis
    unfolding prefix_entry_iff not_beats_iff Let_def by (simp add: k(1))
qed

lemma find_unique_best:
  assumes "enabled kc" "\<not> env_fails env Io_opendir" "e \<in> set (dir_entries env fs)" "prefix_entry kc prompt quant ctx e"
    and "\<And>x. x \<in> set (dir_entries env fs) \<Longrightarrow> prefix_entry kc prompt quant ctx x \<Longrightarrow> x \<noteq> e \<Longrightarrow> entry_beats e x"
  shows "\<exists>i. kv_cache_find_text_prefix env fs kc prompt quant ctx = (kc\<lparr>kv_entries := dir_entries env fs\<rparr>, Some i) \<and>
    dir_entries env fs ! i = e"
proof -
  let ?es = "dir_entries env fs"
  let ?kc = "kc\<lparr>kv_entries := ?es\<rparr>"
  have eq: "prefix_entry ?kc = prefix_entry kc"
    by (simp add: fun_eq_iff prefix_entry_def entry_usable_def)
  obtain j where j: "j < length ?es" "?es ! j = e"
    using assms(3) by (auto simp: in_set_conv_nth)
  define r where "r = fold (find_step ?kc prompt quant ctx ?es) [0..<length ?es] None"
  have spec: "case r of None \<Rightarrow> \<forall>j < length ?es. \<not> prefix_entry kc prompt quant ctx (?es ! j)
    | Some i \<Rightarrow> i < length ?es \<and> prefix_entry kc prompt quant ctx (?es ! i) \<and>
        (\<forall>j < length ?es. prefix_entry kc prompt quant ctx (?es ! j) \<longrightarrow> \<not> entry_beats (?es ! j) (?es ! i))"
    unfolding r_def eq [symmetric] by (rule find_fold [OF refl])
  then obtain i where i: "r = Some i" "i < length ?es" "prefix_entry kc prompt quant ctx (?es ! i)"
    "\<not> entry_beats e (?es ! i)"
    using j assms(4) by (cases r) auto
  then have "?es ! i = e"
    using assms(5) [of "?es ! i"] by auto
  then show ?thesis
    using i(1) by (auto simp: kv_cache_find_text_prefix_def refresh_entries [OF assms(1,2)] Let_def r_def)
qed

end
