(* ===== verification/Kv_Checkpoint.thy ===== *)
theory Kv_Checkpoint
  imports Kv_Find
begin

text \<open>A stored checkpoint is found and loaded.\<close>

section \<open>Names\<close>

lemma hex_digit_props:
  assumes "unat d < 16"
  shows "isxdigit (hex_digit d) \<and> char_of (tolower (hex_digit d)) = hex_digit d"
proof -
  have "\<forall>n \<in> set [0..<16]. isxdigit (''0123456789abcdef'' ! n) \<and> char_of (tolower (''0123456789abcdef'' ! n)) = ''0123456789abcdef'' ! n"
    by code_simp
  then show ?thesis
    using assms by (auto simp: hex_digit_def)
qed

lemma nibble_bounds: "unat (drop_bit 4 (b :: u8)) < 16" "unat (b AND 15 :: u8) < 16"
proof -
  have "unat b < 2 ^ LENGTH(8)"
    by (rule unsigned_less)
  then show "unat (drop_bit 4 b) < 16"
    by (simp add: drop_bit_eq_div unat_div)
  have "b AND 15 \<le> 15"
    by (rule word_and_le1)
  then show "unat (b AND 15) < 16"
    by (simp add: word_le_nat_alt)
qed

lemma sha1_name:
  assumes "sha1_bytes_hex m = Some s"
  shows "sha_hex_name (kv_path_for_sha s) = Some s" "length s = 40"
proof -
  obtain d where s: "s = hex20 d"
    using assms by (auto simp: sha1_bytes_hex_def split: option.splits)
  have len: "length (hex20 d) = 40"
    by (simp add: hex20_def length_concat comp_def sum_list_triv)
  have "isxdigit c \<and> char_of (tolower c) = c" if "c \<in> set (hex20 d)" for c
    using that hex_digit_props nibble_bounds by (auto simp: hex20_def)
  then have "list_all isxdigit (hex20 d)" "map (\<lambda>c. char_of (tolower c)) (hex20 d) = hex20 d"
    by (auto simp: list_all_iff intro: map_idI)
  then show "sha_hex_name (kv_path_for_sha s) = Some s" "length s = 40"
    using len by (simp_all add: sha_hex_name_def kv_path_for_sha_def s)
qed

section \<open>Writing\<close>

definition checkpoint_bytes :: "kv_server \<Rightarrow> kv_entry \<Rightarrow> string \<Rightarrow> u8 list" where
  "checkpoint_bytes s e tx =
     kv_fill_header e @ le_put32 (of_nat (length tx)) @ to_bytes tx @ session_payload (sv_session s) @
     map_bytes (map_items (sv_tools s) tx)"

lemma write_checkpoint_exact:
  assumes "session_in_use (sv_session s)" "tm_inv (sv_tools s) xs" "scans_left (sv_tools s)"
    "writable (map_items (sv_tools s) tx)" "\<not> sv_replay_off s" "write_checkpoint env s e tx = Some (m, bs, True, n)"
  shows "same_but_seen (sv_tools s) m" "bs = checkpoint_bytes s e tx"
    "n = of_nat (length (map_bytes (map_items (sv_tools s) tx)))" "length bs \<le> env_room env"
proof -
  let ?f0 = "\<lparr>written = [], room = env_room env\<rparr>"
  let ?h = "kv_fill_header e @ le_put32 (of_nat (length tx)) @ to_bytes tx"
  obtain f ok where f: "then_write (then_write (fwrite (kv_fill_header e) ?f0) (le_put32 (of_nat (length tx)))) (to_bytes tx) = (f, ok)"
    by (metis prod.exhaust)
  have w1: "wrote (?f0, True) ?h (f, ok)"
    using wrote_trans [OF wrote_trans [OF wrote_fwrite wrote_then] wrote_then, of ?f0 "kv_fill_header e"
        "le_put32 (of_nat (length tx))" "to_bytes tx"] by (simp add: f)
  obtain f1 ok1 where f1: "ds4_session_save_payload (sv_session s) f = Some (f1, ok1)"
    "wrote (f, True) (session_payload (sv_session s)) (f1, ok1)"
    using save_payload_exact [OF assms(1)] by blast
  obtain m2 f2 ok2 n2 where f2: "kv_tool_map_write False (sv_tools s) tx f1 = (m2, f2, ok2, n2)"
    by (metis prod_cases4)
  from assms(6) f f1(1) f2 assms(5) have ok: "ok" "ok1" "ok2" "m = m2" "bs = written f2" "n = n2"
    by (auto simp: write_checkpoint_def split: if_splits)
  note w3 = kv_tool_map_write_exact [OF assms(2,3,4) f2]
  have w: "wrote (?f0, True) (?h @ session_payload (sv_session s) @ map_bytes (map_items (sv_tools s) tx)) (f2, True)"
    using wrote_trans [OF w1 wrote_trans [of "(f, ok)"]] f1(2) w3 ok by simp
  show "same_but_seen (sv_tools s) m" "bs = checkpoint_bytes s e tx"
    "n = of_nat (length (map_bytes (map_items (sv_tools s) tx)))" "length bs \<le> env_room env"
    using w w3 ok by (simp_all add: wrote_def checkpoint_bytes_def)
qed

section \<open>The directory after storing\<close>

lemma in_dir_entries: "e \<in> set (dir_entries env fs) \<longleftrightarrow> entry_of env fs (ke_path e) = Some e"
  using entry_of_facts(2) [of env fs "ke_path e" e] by (force simp: set_dir_entries dest: map_of_SomeD)

definition dir_bytes :: "files \<Rightarrow> nat" where
  "dir_bytes fs = sum_list (map (length \<circ> snd) fs)"

lemma cache_bytes_le: "cache_bytes env fs \<le> dir_bytes fs"
proof -
  have "sum_list (map (length \<circ> snd) (filter P fs)) \<le> dir_bytes fs" for P
    by (induction fs) (auto simp: dir_bytes_def)
  then show ?thesis
    by (simp add: cache_bytes_def)
qed

lemma dir_bytes_update: "dir_bytes (AList.update k bs fs) \<le> dir_bytes fs + length bs"
  by (induction fs) (auto simp: dir_bytes_def)

lemma dir_bytes_delete: "dir_bytes (AList.delete k fs) \<le> dir_bytes fs"
  by (induction fs) (auto simp: dir_bytes_def)

definition written_entry :: "string \<Rightarrow> string \<Rightarrow> u8 list \<Rightarrow> kv_entry \<Rightarrow> kv_entry" where
  "written_entry sha tx bs e =
     (stored_fields e (of_nat (length tx)))\<lparr>ke_sha := sha, ke_path := kv_path_for_sha sha, file_size := of_nat (length bs)\<rparr>"

lemma read_written_entry:
  assumes "header_ok e" "bs = checkpoint_bytes s e tx" "unat (payload_bytes e) = length (session_payload (sv_session s))"
    "\<not> too_long (length tx)" "length bs < 18446744073709551616" "map_of fs (kv_path_for_sha sha) = Some bs"
    "\<not> env_fails env (Io_open (kv_path_for_sha sha))"
  shows "kv_read_entry_file env fs (kv_path_for_sha sha) sha = Some (written_entry sha tx bs e)"
proof -
  let ?n = "of_nat (length tx) :: u32"
  have n: "unat ?n = length tx"
    using assms(4) by (simp add: too_long_def unat_of_nat)
  then have n64: "unat (ucast ?n :: u64) = length tx"
    using assms(4) by (simp only: unsigned_ucast_eq) (simp add: take_bit_eq_mod too_long_def)
  have len: "52 + length tx + length (session_payload (sv_session s)) \<le> length bs"
    by (simp add: assms(2) checkpoint_bytes_def)
  have hdr: "kv_read_header bs = Some (stored_fields e ?n, ?n, to_bytes tx @ session_payload (sv_session s) @
      map_bytes (map_items (sv_tools s) tx))"
    using kv_read_fill_header [OF assms(1)] by (simp add: assms(2) checkpoint_bytes_def)
  have pb: "payload_bytes (stored_fields e ?n) = payload_bytes e"
    by (simp add: stored_fields_def)
  have sum: "unat (52 + ucast ?n :: u64) = 52 + length tx" "unat (52 + ucast ?n + payload_bytes e) = 52 + length tx + length (session_payload (sv_session s))"
    using len assms(3,5) n64 by (simp_all add: unat_word_ariths)
  have "\<not> UINT64_MAX - 52 < ucast ?n" "\<not> UINT64_MAX - 52 - ucast ?n < payload_bytes e"
    using len assms(3,5) n64 sum(1) unfolding diff_diff_eq u64_add_overflow_iff by simp_all
  moreover have "\<not> of_nat (length bs) < 52 + ucast ?n + payload_bytes e"
    using sum(2) len assms(5) by (simp add: word_less_nat_alt unat_of_nat)
  ultimately show ?thesis
    using assms(6,7) len
    by (simp add: kv_read_entry_file_def hdr pb Let_def KV_CACHE_FIXED_HEADER_def written_entry_def)
qed

lemma budget_required_le:
  assumes "kv_cache_budget_required f = Some r"
  shows "f \<le> r"
proof -
  define k where "k = (if f mod 100 \<noteq> 0 then f div 100 + 1 else f div 100)"
  have "(if UINT64_MAX - f < k then None else Some (f + k)) = Some r"
    using assms by (simp only: kv_cache_budget_required_def Let_def k_def)
  then have "r = f + k" "\<not> UINT64_MAX - f < k"
    by (auto split: if_splits)
  then show ?thesis
    unfolding u64_add_overflow_iff by (simp add: word_le_nat_alt unat_word_ariths)
qed

lemma file_size_fits_budget:
  assumes "kv_cache_file_size_fits kc a b c" "budget_bytes kc \<noteq> 0"
  shows "52 + a + b + c \<le> budget_bytes kc"
proof -
  obtain r where "kv_cache_budget_required (52 + a + b + c) = Some r" "r \<le> budget_bytes kc"
    using assms by (auto simp: kv_cache_file_size_fits_def kv_cache_file_size_bytes_def KV_CACHE_FIXED_HEADER_def Let_def
        split: option.splits if_splits)
  then show ?thesis
    using budget_required_le order_trans by blast
qed

lemma map_of_store:
  "path \<noteq> tmp \<Longrightarrow> map_of (AList.update path bs (AList.delete tmp fs)) = (map_of fs)(tmp := None, path \<mapsto> bs)"
  by (simp add: update_conv' delete_conv' fun_upd_twist)

lemma entries_after_write:
  assumes "sha_hex_name tmp = None" "path = kv_path_for_sha sha" "sha_hex_name path = Some sha"
    "\<And>e. e \<in> set (dir_entries env fs) \<Longrightarrow> ke_sha e \<noteq> sha"
    "kv_read_entry_file env (AList.update path bs (AList.delete tmp fs)) path sha = Some w"
  shows "set (dir_entries env (AList.update path bs (AList.delete tmp fs))) = insert w (set (dir_entries env fs))"
proof -
  let ?fs = "AList.update path bs (AList.delete tmp fs)"
  have ne: "path \<noteq> tmp"
    using assms(1,3) by auto
  have w: "entry_of env ?fs path = Some w"
    using assms(3,5) by (simp add: entry_of_def)
  have none: "entry_of env fs path = None"
  proof (cases "entry_of env fs path")
    case (Some e)
    then have "ke_path e = path" "ke_sha e = sha"
      using entry_of_facts(1,3) [OF Some] assms(3) by auto
    then show ?thesis
      using assms(4) [of e] Some by (simp add: in_dir_entries)
  qed simp
  have eq: "entry_of env ?fs n = entry_of env fs n" if "n \<noteq> path" for n
  proof (cases "n = tmp")
    case True
    then show ?thesis using assms(1) by (simp add: entry_of_def)
  next
    case False
    then show ?thesis
      using that by (intro entry_of_cong) (simp add: map_of_store [OF ne])
  qed
  show ?thesis
  proof (intro set_eqI iffI)
    fix x assume "x \<in> set (dir_entries env ?fs)"
    then show "x \<in> insert w (set (dir_entries env fs))"
      using w eq by (cases "ke_path x = path") (auto simp: in_dir_entries)
  next
    fix x assume "x \<in> insert w (set (dir_entries env fs))"
    then show "x \<in> set (dir_entries env ?fs)"
      using w eq none entry_of_facts(1) [OF w] by (cases "ke_path x = path") (auto simp: in_dir_entries)
  qed
qed

text \<open>The device, the directory and the calls that are needed for a store.\<close>

definition disk_works :: "env \<Rightarrow> files \<Rightarrow> bool" where
  "disk_works env fs \<longleftrightarrow> distinct (map fst fs) \<and> dir_bytes fs + env_room env < 18446744073709551616 \<and>
     \<not> env_fails env Io_opendir \<and> (\<forall>p. \<not> env_fails env (Io_unlink p)) \<and> (\<forall>p. \<not> env_fails env (Io_open p)) \<and> exp2_ok env"

definition scans_for_store :: "tool_memory \<Rightarrow> bool" where
  "scans_for_store m \<longleftrightarrow> seen_le m (scan_clock m) \<and> scan_clock m < UINT64_MAX - 2"

lemma measured:
  assumes "tm_inv m xs" "scans_for_store m" "writable (map_items m tx)"
  shows "\<exists>m0. kv_tool_map_serialized_size False m tx = (m0, Some (of_nat (length (map_bytes (map_items m tx))))) \<and>
    same_but_seen m m0 \<and> scans_left m0"
proof (cases "tx = []")
  case True
  then show ?thesis
    using assms(2) by (auto simp: kv_tool_map_serialized_size_def map_bytes_def same_but_seen_refl scans_for_store_def scans_left_def
        intro: less_trans)
next
  case False
  have sl: "scans_left m"
    using assms(2) by (auto simp: scans_for_store_def scans_left_def intro: less_trans)
  have "scan_clock m + 1 < UINT64_MAX - 1"
    using assms(2) by (auto simp: scans_for_store_def word_less_nat_alt unat_word_ariths)
  then show ?thesis
    using kv_tool_map_measure_exact [OF assms(1) sl assms(3)] False
    by (auto simp: kv_tool_map_serialized_size_def scans_left_def)
qed

lemma map_items_same:
  assumes "tm_inv m xs" "same_but_seen m m0"
  shows "map_items m0 tx = map_items m tx"
  using scan_items_same [OF assms] by (simp add: map_items_def)

text \<open>What storing under a new name leaves in the directory.\<close>

lemma store_text_new:
  assumes store: "store_text env engine s toks why tx ext = Some (s1, True)"
    and sess: "session_in_use (sv_session s)" "toks = checkpoint (sv_session s)" "toks \<noteq> []"
    and pay: "unat (ds4_session_payload_bytes (sv_session s)) = length (session_payload (sv_session s))"
    and quant: "routed_quant_bits engine = 2 \<or> routed_quant_bits engine = 4" and fit: "\<not> too_long (length tx)"
    and tools: "tm_inv (sv_tools s) xs" "scans_for_store (sv_tools s)" "writable (map_items (sv_tools s) tx)" "\<not> sv_replay_off s"
    and disk: "disk_works env (sv_files s)" "enabled (sv_kv s)"
    and new: "\<And>e. e \<in> set (dir_entries env (sv_files s)) \<Longrightarrow> sha1_bytes_hex (to_bytes tx) \<noteq> Some (ke_sha e)"
  shows "\<exists>sha e. sha1_bytes_hex (to_bytes tx) = Some sha \<and> header_ok e \<and> tokens e = of_nat (length toks) \<and>
    quant_bits e = of_int (routed_quant_bits engine) \<and> ctx_size e = s_ctx_size (sv_session s) \<and>
    payload_bytes e = ds4_session_payload_bytes (sv_session s) \<and>
    (ext_flags e AND KV_EXT_TOOL_MAP \<noteq> 0 \<or> map_items (sv_tools s) tx = []) \<and>
    map_of (sv_files s1) (kv_path_for_sha sha) = Some (checkpoint_bytes s e tx) \<and>
    length (checkpoint_bytes s e tx) < 18446744073709551616 \<and>
    set (dir_entries env (sv_files s1)) \<subseteq>
      insert (written_entry sha tx (checkpoint_bytes s e tx) e) (set (dir_entries env (sv_files s)))"
proof -
  let ?items = "map_items (sv_tools s) tx" and ?kc = "sv_kv s" and ?fs = "sv_files s"
  obtain m0 where m0: "kv_tool_map_serialized_size False (sv_tools s) tx = (m0, Some (of_nat (length (map_bytes ?items))))"
    "same_but_seen (sv_tools s) m0" "scans_left m0"
    using measured [OF tools(1,2,3)] by blast
  let ?s = "s\<lparr>sv_tools := m0\<rparr>"
  note inv0 = same_but_seen_inv [OF tools(1) m0(2)] and items0 = map_items_same [OF tools(1) m0(2), of tx]
  obtain sha where sha: "sha1_bytes_hex (to_bytes tx) = Some sha"
    using store tools(4) m0(1) by (auto simp: store_text_def Let_def split: option.splits if_splits)
  let ?path = "kv_path_for_sha sha"
  let ?tmp = "?path @ ''.tmp.'' @ env_pid env"
  note name = sha1_name [OF sha]
  have tmp: "sha_hex_name ?tmp = None"
    using name(2) by (simp add: sha_hex_name_def kv_path_for_sha_def)
  have new': "ke_sha e \<noteq> sha" if "e \<in> set (dir_entries env ?fs)" for e
    using new [OF that] sha by simp
  have "kv_read_entry_file env ?fs ?path sha = None"
  proof (rule ccontr)
    assume "kv_read_entry_file env ?fs ?path sha \<noteq> None"
    then obtain e where e: "entry_of env ?fs ?path = Some e"
      using name(1) by (auto simp: entry_of_def)
    then show False
      using new' [of e] entry_of_facts(1,3) [OF e] name(1) by (simp add: in_dir_entries)
  qed
  then have ex: "kv_cache_existing_compatible env ?kc ?fs ?path sha tx (routed_quant_bits engine) (s_ctx_size (sv_session s)) = (?fs, False)"
    by (simp add: kv_cache_existing_compatible_def)
  define e where "e = store_entry env ?s (routed_quant_bits engine) toks why
      ((if (of_nat (length (map_bytes ?items)) :: u64) > 0 then KV_EXT_TOOL_MAP else 0) OR ext)"
  obtain m1 bs n kc1 where w: "write_checkpoint env ?s e tx = Some (m1, bs, True, n)"
    and fits: "kv_cache_file_size_fits ?kc (of_nat (length tx)) (ds4_session_payload_bytes (sv_session s)) n"
    and evict: "kv_cache_evict env (Some sha) ?kc (AList.update ?path bs (AList.delete ?tmp ?fs)) = (kc1, sv_files s1)"
    using store tools(4) m0(1) sha ex
    by (auto simp: store_text_def Let_def e_def split: option.splits if_splits prod.splits)
  have s0: "session_in_use (sv_session ?s)" "tm_inv (sv_tools ?s) xs" "scans_left (sv_tools ?s)"
    "writable (map_items (sv_tools ?s) tx)" "\<not> sv_replay_off ?s"
    using sess(1) inv0(1) m0(3) tools(3,4) items0 by simp_all
  have wr: "bs = checkpoint_bytes s e tx" "n = of_nat (length (map_bytes ?items))" "length bs \<le> env_room env"
    using write_checkpoint_exact(2,3,4) [OF s0 w] items0 by (simp_all add: checkpoint_bytes_def)
  have small: "length bs < 18446744073709551616" "dir_bytes ?fs + length bs < 18446744073709551616"
    using wr(3) disk(1) by (simp_all add: disk_works_def)
  have "length toks < 2147483648"
    using checkpoint_small [OF sess(1)] sess(2) by simp
  then have "(of_nat (length toks) :: u32) \<noteq> 0"
    using sess(3) by (simp add: unat_eq_0 [symmetric] unat_of_nat)
  then have ok: "header_ok e"
    using quant by (auto simp: header_ok_def e_def store_entry_def kv_reason_code_def KV_REASON_SHUTDOWN_def)
  have e: "tokens e = of_nat (length toks)" "quant_bits e = of_int (routed_quant_bits engine)" "ctx_size e = s_ctx_size (sv_session s)"
    "payload_bytes e = ds4_session_payload_bytes (sv_session s)"
    by (simp_all add: e_def store_entry_def)
  have "ext_flags e AND KV_EXT_TOOL_MAP = KV_EXT_TOOL_MAP" if "?items \<noteq> []"
  proof -
    have "0 < length (map_bytes ?items)"
      using that by (simp add: map_bytes_def)
    moreover have "length (map_bytes ?items) \<le> length bs"
      by (simp add: wr(1) checkpoint_bytes_def)
    ultimately have "(of_nat (length (map_bytes ?items)) :: u64) > 0"
      using small(1) by (simp add: word_less_nat_alt unat_of_nat)
    then show ?thesis
      by (simp add: e_def store_entry_def word_ao_absorbs)
  qed
  then have flags: "ext_flags e AND KV_EXT_TOOL_MAP \<noteq> 0 \<or> ?items = []"
    by (cases "?items = []") (simp_all add: KV_EXT_TOOL_MAP_def)
  define fs0 where "fs0 = AList.update ?path bs (AList.delete ?tmp ?fs)"
  define we where "we = written_entry sha tx bs e"
  have at: "map_of fs0 ?path = Some bs"
    by (simp add: fs0_def map_of_store)
  have re: "kv_read_entry_file env fs0 ?path sha = Some we"
    using read_written_entry [OF ok wr(1) _ fit small(1) at] pay disk(1) e(4) by (simp add: we_def disk_works_def)
  have entries: "set (dir_entries env fs0) = insert we (set (dir_entries env ?fs))"
    unfolding fs0_def using entries_after_write [OF tmp refl name(1) new' re [unfolded fs0_def]] .
  have "\<exists>D. sv_files s1 = filter (\<lambda>f. fst f \<notin> D) fs0 \<and> ?path \<notin> D"
  proof (cases "budget_bytes ?kc = 0")
    case True
    then show ?thesis
      using evict by (intro exI [of _ "{}"]) (simp add: kv_cache_evict_def fs0_def)
  next
    case False
    have d: "distinct (map fst fs0)" "cache_bytes env fs0 < 18446744073709551616"
      using disk(1) small(2) cache_bytes_le [of env fs0] dir_bytes_update [of ?path bs "AList.delete ?tmp ?fs"]
        dir_bytes_delete [of ?tmp ?fs]
      by (simp_all add: fs0_def disk_works_def distinct_update distinct_delete)
    have size: "file_size we \<le> budget_bytes ?kc"
    proof -
      have "file_size we = 52 + of_nat (length tx) + ds4_session_payload_bytes (sv_session s) + n"
        by (simp add: we_def written_entry_def wr(1,2) checkpoint_bytes_def flip: pay)
      then show ?thesis
        using file_size_fits_budget [OF fits False] by simp
    qed
    obtain D where D: "sv_files s1 = filter (\<lambda>f. fst f \<notin> D) fs0"
      "\<forall>e \<in> set (dir_entries env fs0). Some sha = Some (ke_sha e) \<longrightarrow>
        (\<forall>x \<in> set (dir_entries env fs0). ke_sha x = ke_sha e \<longrightarrow> x = e) \<longrightarrow> file_size e \<le> budget_bytes ?kc \<longrightarrow> ke_path e \<notin> D"
      using evict_facts [OF disk(2) False d _ _ _ evict [folded fs0_def]] disk(1) by (auto simp: disk_works_def)
    have "ke_sha we = sha" "ke_path we = ?path"
      by (simp_all add: we_def written_entry_def)
    then show ?thesis
      using D size new' entries by (intro exI [of _ D]) auto
  qed
  then obtain D where D: "sv_files s1 = filter (\<lambda>f. fst f \<notin> D) fs0" "?path \<notin> D" by blast
  have "map_of (sv_files s1) ?path = Some bs" "set (dir_entries env (sv_files s1)) \<subseteq> set (dir_entries env fs0)"
    using D at by (simp_all add: map_of_filter_names dir_entries_filter)
  then show ?thesis
    using sha ok e flags small(1) entries unfolding wr(1) we_def by blast
qed

section \<open>Loading\<close>

lemma cached_text_matches:
  assumes "sha1_bytes_hex (to_bytes tx) = Some sha" "unat n = length tx"
  shows "cached_text_ok (tx @ suffix) sha n (to_bytes tx @ rest) = Some rest"
  using assms by (simp add: cached_text_ok_def byte_prefix_match_def)

lemma load_written:
  assumes e: "header_ok e" "tokens e = of_nat (length (checkpoint (sv_session s)))"
      "payload_bytes e = ds4_session_payload_bytes (sv_session s)"
      "ext_flags e AND KV_EXT_TOOL_MAP \<noteq> 0 \<or> map_items (sv_tools s) tx = []"
    and sha: "sha1_bytes_hex (to_bytes tx) = Some sha" "\<not> too_long (length tx)"
    and sess: "session_in_use (sv_session s)" "accepts (sv_session s2) (sv_session s)" "checkpoint (sv_session s) \<noteq> []"
    and at: "map_of (sv_files s2) (kv_path_for_sha sha) = Some (checkpoint_bytes s e tx)"
    and tools: "tm_inv (sv_tools s2) ys" "\<forall>x \<in> set (map_items (sv_tools s) tx). loadable x"
      "int (length (map_items (sv_tools s) tx)) \<le> tool_memory_max_entries (sv_tools s2) * 4"
      "tool_memory_max_entries (sv_tools s2) < 2147483648" "length (map_items (sv_tools s) tx) < 4294967296" "\<not> sv_replay_off s2"
    and on: "enabled (sv_kv s2)" "routed_quant_bits engine = 2 \<or> routed_quant_bits engine = 4"
      "\<not> env_fails env (Io_open (kv_path_for_sha sha))"
    and found: "kv_cache_find_text_prefix env (sv_files s2) (sv_kv s2) (tx @ suffix) (routed_quant_bits engine)
        (s_ctx_size (sv_session s2)) = (kc, Some i)" "kv_entries kc ! i = written_entry sha tx (checkpoint_bytes s e tx) e"
  shows "\<exists>s3 zs. kv_cache_try_load_text env engine s2 (tx @ suffix) =
      Some (s3, int (length (checkpoint (sv_session s))), checkpoint (sv_session s) @ tokenize_rendered_chat engine suffix,
        Some (kv_path_for_sha sha, ext_flags e)) \<and>
    checkpoint (sv_session s3) = checkpoint (sv_session s) \<and> logits (sv_session s3) = logits (sv_session s) \<and>
    session_snaps (sv_session s3) = session_snaps (sv_session s) \<and> session_in_use (sv_session s3) \<and>
    tm_inv (sv_tools s3) zs \<and>
    memos (sv_tools s3) zs = load_memos (tool_memory_max_entries (sv_tools s2)) (tool_memory_max_bytes (sv_tools s2))
      (map_items (sv_tools s) tx) (memos (sv_tools s2) ys)"
proof -
  let ?items = "map_items (sv_tools s) tx" and ?n = "of_nat (length tx) :: u32" and ?path = "kv_path_for_sha sha"
  let ?hdr = "stored_fields e ?n"
  have n: "unat ?n = length tx"
    using sha(2) by (simp add: too_long_def unat_of_nat)
  have hdr: "kv_read_header (checkpoint_bytes s e tx) =
      Some (?hdr, ?n, to_bytes tx @ session_payload (sv_session s) @ map_bytes ?items)"
    using kv_read_fill_header [OF e(1)] by (simp add: checkpoint_bytes_def)
  have h: "payload_bytes ?hdr = ds4_session_payload_bytes (sv_session s)" "tokens ?hdr = tokens e" "ext_flags ?hdr = ext_flags e"
    by (simp_all add: stored_fields_def e(3))
  obtain t where t: "ds4_session_load_payload (sv_session s2) (session_payload (sv_session s) @ map_bytes ?items)
      (ds4_session_payload_bytes (sv_session s)) = Loaded t (map_bytes ?items)"
    "checkpoint t = checkpoint (sv_session s)" "logits t = logits (sv_session s)" "session_snaps t = session_snaps (sv_session s)"
    "session_in_use t"
    using session_load_saved [OF sess(1,2), of "map_bytes ?items"] by blast
  have len: "length (checkpoint (sv_session s)) < 2147483648"
    by (rule checkpoint_small [OF sess(1)])
  then have toks: "sint (tokens e) = int (length (checkpoint (sv_session s)))"
    unfolding e(2) by (simp add: signed_of_nat signed_take_bit_int_eq_self)
  have "\<exists>m3 k zs. (if ext_flags e AND KV_EXT_TOOL_MAP \<noteq> 0 then kv_tool_map_load_from_pos False (sv_tools s2) (map_bytes ?items) None
      else Some (sv_tools s2, 0)) = Some (m3, k) \<and> tm_inv m3 zs \<and>
    memos m3 zs = load_memos (tool_memory_max_entries (sv_tools s2)) (tool_memory_max_bytes (sv_tools s2)) ?items (memos (sv_tools s2) ys)"
  proof (cases "ext_flags e AND KV_EXT_TOOL_MAP \<noteq> 0")
    case True
    then show ?thesis
      using kv_tool_map_load_all [OF tools(1,2,3,4,5)] by auto
  next
    case False
    then show ?thesis
      using e(4) tools(1) by (auto simp: load_memos_def)
  qed
  then obtain m3 k zs where m3: "(if ext_flags e AND KV_EXT_TOOL_MAP \<noteq> 0
      then kv_tool_map_load_from_pos False (sv_tools s2) (map_bytes ?items) None else Some (sv_tools s2, 0)) = Some (m3, k)"
    "tm_inv m3 zs" "memos m3 zs = load_memos (tool_memory_max_entries (sv_tools s2)) (tool_memory_max_bytes (sv_tools s2)) ?items
      (memos (sv_tools s2) ys)"
    by blast
  let ?s = "s2\<lparr>sv_kv := kc, sv_session := t, sv_tools := m3\<rparr>"
  have w: "ke_path (kv_entries kc ! i) = ?path" "ke_sha (kv_entries kc ! i) = sha"
    by (simp_all add: found(2) written_entry_def)
  have pos: "0 < int (length (checkpoint (sv_session s)))"
    using sess(3) by simp
  have "kv_cache_try_load_text env engine s2 (tx @ suffix) =
      Some (after_load env ?s ?path ?hdr (int (length (checkpoint (sv_session s))))
        (checkpoint (sv_session s) @ tokenize_rendered_chat engine suffix))"
    using on tools(6) at m3(1) found(1)
    by (elim disjE; cases "ext_flags e AND KV_EXT_TOOL_MAP \<noteq> 0")
      (simp_all add: kv_cache_try_load_text_def w hdr cached_text_matches [OF sha(1) n] h t toks n Let_def
        build_prompt_from_exact_prefix_and_text_suffix_def)
  then show ?thesis
    using t m3 pos by (auto simp: after_load_def Let_def h)
qed

end
