(* ===== verification/Kv_Store_Properties.thy ===== *)
theory Kv_Store_Properties
  imports Kv_Checkpoint
begin

text \<open>Storing and loading checkpoints: the round trip, failed stores, and a checkpoint that can be neither used nor replaced.\<close>

lemma dir_entries_env: "env_fails env2 = env_fails env \<Longrightarrow> dir_entries env2 fs = dir_entries env fs"
proof -
  assume "env_fails env2 = env_fails env"
  then have "entry_of env2 fs = entry_of env fs"
    by (simp add: fun_eq_iff entry_of_def kv_read_entry_file_def split: option.split)
  then show ?thesis
    by (simp add: dir_entries_def)
qed

lemma starts_with_same_length: "length xs = length ys \<Longrightarrow> ds4_tokens_starts_with xs ys \<longleftrightarrow> xs = ys"
  by (auto simp: ds4_tokens_starts_with_def intro: nth_equalityI)

lemma store_live_prefixD:
  assumes "kv_cache_store_live_prefix_text env engine s toks n why ov ext = Some (s1, True)"
    "tx = (if ov \<noteq> [] then ov else render_tokens_text engine (take (nat n) toks))"
  shows "\<exists>f. store_text env engine s (checkpoint (sv_session s)) why tx f = Some (s1, True)" "enabled (sv_kv s)"
    "routed_quant_bits engine = 2 \<or> routed_quant_bits engine = 4" "\<not> too_long (length tx)"
  using assms by (auto simp: kv_cache_store_live_prefix_text_def Let_def starts_with_same_length split: if_splits)

text \<open>The tokens of a written entry, and that it stands for the beginning of the prompt.\<close>

lemma written_entry_usable:
  assumes "sha1_bytes_hex (to_bytes tx) = Some sha" "\<not> too_long (length tx)" "tokens e = of_nat k" "k < 2147483648"
    "min_tokens (opt kc) \<le> int k" "ctx_size e \<le> ctx" "quant_bits e = of_int quant"
  shows "prefix_entry kc (tx @ suffix) quant ctx (written_entry sha tx bs e)"
    "unat (text_bytes (written_entry sha tx bs e)) = length tx"
proof -
  have "unat (of_nat (length tx) :: u32) = length tx"
    using assms(2) by (simp add: too_long_def unat_of_nat)
  then have "unat (ucast (of_nat (length tx) :: u32) :: u64) = length tx"
    using assms(2) by (simp only: unsigned_ucast_eq) (simp add: take_bit_eq_mod too_long_def)
  then show "unat (text_bytes (written_entry sha tx bs e)) = length tx"
    by (simp add: written_entry_def stored_fields_def)
  moreover have "sint (of_nat k :: u32) = int k"
    using assms(4) by (simp add: signed_of_nat signed_take_bit_int_eq_self)
  ultimately show "prefix_entry kc (tx @ suffix) quant ctx (written_entry sha tx bs e)"
    using assms by (simp add: prefix_entry_def entry_usable_def) (simp add: written_entry_def stored_fields_def)
qed

text \<open>
  C34: a stored checkpoint is found and restores the session. When a store reports success and no older checkpoint has the
  same name, then a server that can hold the session, and sees in the directory no longer text its prompt begins with,
  loads for every prompt that continues the stored text exactly this session: tokens, logits and live rows. It goes on
  with the stored tokens followed by the tokens of the rest of the prompt alone, and its tool memory has learned every
  call of the stored text.
\<close>

theorem stored_checkpoint_loads:
  assumes "kv_cache_store_live_prefix_text env engine s toks n why ov ext = Some (s1, True)"
    "tx = (if ov \<noteq> [] then ov else render_tokens_text engine (take (nat n) toks))"
    and "session_in_use (sv_session s)" "checkpoint (sv_session s) \<noteq> []" "implements (sv_tools s) l" "all_loadable l"
      "scans_for_store (sv_tools s)" "\<not> sv_replay_off s" "disk_works env (sv_files s)"
    and "\<And>e. e \<in> set (dir_entries env (sv_files s)) \<Longrightarrow> sha1_bytes_hex (to_bytes tx) \<noteq> Some (ke_sha e)"
    and "sv_files s2 = sv_files s1" "accepts (sv_session s2) (sv_session s)" "enabled (sv_kv s2)"
      "min_tokens (opt (sv_kv s2)) \<le> int (length (checkpoint (sv_session s)))" "env_fails env2 = env_fails env"
      "routed_quant_bits engine2 = routed_quant_bits engine"
    and "implements (sv_tools s2) l2" "int (length l) \<le> tool_memory_max_entries (sv_tools s2) * 4"
      "tool_memory_max_entries (sv_tools s2) < 2147483648" "\<not> sv_replay_off s2"
    and "\<And>e. e \<in> set (dir_entries env (sv_files s)) \<Longrightarrow>
      prefix_entry (sv_kv s2) (tx @ suffix) (routed_quant_bits engine) (s_ctx_size (sv_session s2)) e \<Longrightarrow>
      unat (text_bytes e) < length tx"
  shows "\<exists>s3 file xs. kv_cache_try_load_text env2 engine2 s2 (tx @ suffix) =
      Some (s3, int (length (checkpoint (sv_session s))),
        checkpoint (sv_session s) @ tokenize_rendered_chat engine2 suffix, Some file) \<and>
    checkpoint (sv_session s3) = checkpoint (sv_session s) \<and> logits (sv_session s3) = logits (sv_session s) \<and>
    session_snaps (sv_session s3) = session_snaps (sv_session s) \<and> session_in_use (sv_session s3) \<and>
    set xs = remembered_in l tx \<and> implements (sv_tools s3) (fold (\<lambda>(i, d) k.
      memo_put (tool_memory_max_entries (sv_tools s2)) (tool_memory_max_bytes (sv_tools s2)) k i d TOOL_MEMORY_DISK) xs l2)"
proof -
  obtain f where store: "store_text env engine s (checkpoint (sv_session s)) why tx f = Some (s1, True)"
    and kv: "enabled (sv_kv s)" and quant: "routed_quant_bits engine = 2 \<or> routed_quant_bits engine = 4"
    and short: "\<not> too_long (length tx)"
    using store_live_prefixD [OF assms(1,2)] by blast
  obtain zs ys where m: "tm_inv (sv_tools s) zs" "l = memos (sv_tools s) zs" and m2: "tm_inv (sv_tools s2) ys" "l2 = memos (sv_tools s2) ys"
    using assms(5,17) by (auto simp: implements_def)
  note items = map_items_props [OF m(1) assms(6) [unfolded m(2)], of tx]
  note pay = session_payload_size [OF assms(3,12)]
  obtain sha e where e: "sha1_bytes_hex (to_bytes tx) = Some sha" "header_ok e"
      "tokens e = of_nat (length (checkpoint (sv_session s)))" "quant_bits e = of_int (routed_quant_bits engine)"
      "ctx_size e = s_ctx_size (sv_session s)" "payload_bytes e = ds4_session_payload_bytes (sv_session s)"
      "ext_flags e AND KV_EXT_TOOL_MAP \<noteq> 0 \<or> map_items (sv_tools s) tx = []"
    and at: "map_of (sv_files s1) (kv_path_for_sha sha) = Some (checkpoint_bytes s e tx)"
      "length (checkpoint_bytes s e tx) < 18446744073709551616"
    and dir: "set (dir_entries env (sv_files s1)) \<subseteq>
      insert (written_entry sha tx (checkpoint_bytes s e tx) e) (set (dir_entries env (sv_files s)))"
    using store_text_new [OF store assms(3) refl assms(4) pay quant short m(1) assms(7) items(5) assms(8,9) kv assms(10)] by blast
  let ?w = "written_entry sha tx (checkpoint_bytes s e tx) e"
  have w_in: "?w \<in> set (dir_entries env2 (sv_files s2))"
  proof -
    have "\<not> env_fails env (Io_open (kv_path_for_sha sha))"
      using assms(9) by (simp add: disk_works_def)
    then have "kv_read_entry_file env (sv_files s1) (kv_path_for_sha sha) sha = Some ?w"
      using read_written_entry [OF e(2) refl _ short at(2,1)] pay by (simp add: e(6))
    then show ?thesis
      using sha1_name(1) [OF e(1)] dir_entries_env [OF assms(15)] assms(11)
      by (simp add: in_dir_entries entry_of_def) (simp add: written_entry_def)
  qed
  have "ctx_size e \<le> s_ctx_size (sv_session s2)"
    using assms(12) e(5) by (simp add: accepts_def)
  note w = written_entry_usable [OF e(1) short e(3) checkpoint_small [OF assms(3)] assms(14) this e(4)]
  have beats: "entry_beats ?w x"
    if "x \<in> set (dir_entries env2 (sv_files s2))" "prefix_entry (sv_kv s2) (tx @ suffix) (routed_quant_bits engine)
      (s_ctx_size (sv_session s2)) x" "x \<noteq> ?w" for x
  proof -
    have "x \<in> set (dir_entries env (sv_files s))"
      using that(1,3) dir dir_entries_env [OF assms(15)] assms(11) by auto
    from assms(21) [OF this that(2)] have "text_bytes x < text_bytes ?w"
      by (simp add: word_less_nat_alt w(2))
    then show ?thesis
      by (auto simp: entry_beats_def)
  qed
  have "\<not> env_fails env2 Io_opendir"
    using assms(9,15) by (simp add: disk_works_def)
  moreover have "prefix_entry (sv_kv s2) (tx @ suffix) (routed_quant_bits engine) (s_ctx_size (sv_session s2)) ?w"
    by (rule w(1))
  ultimately have "\<exists>i. kv_cache_find_text_prefix env2 (sv_files s2) (sv_kv s2) (tx @ suffix) (routed_quant_bits engine)
      (s_ctx_size (sv_session s2)) = ((sv_kv s2)\<lparr>kv_entries := dir_entries env2 (sv_files s2)\<rparr>, Some i) \<and>
    dir_entries env2 (sv_files s2) ! i = ?w"
    using find_unique_best [OF assms(13) _ w_in _ beats] by blast
  then obtain kc i where found:
    "kv_cache_find_text_prefix env2 (sv_files s2) (sv_kv s2) (tx @ suffix) (routed_quant_bits engine2) (s_ctx_size (sv_session s2)) =
      (kc, Some i)" "kv_entries kc ! i = ?w"
    using assms(16) by auto
  have len: "int (length (map_items (sv_tools s) tx)) \<le> tool_memory_max_entries (sv_tools s2) * 4"
    "length (map_items (sv_tools s) tx) < 4294967296"
    using items(4) assms(6,18) m(2) by (auto simp: all_loadable_def)
  have open2: "\<not> env_fails env2 (Io_open (kv_path_for_sha sha))" "map_of (sv_files s2) (kv_path_for_sha sha) = Some (checkpoint_bytes s e tx)"
    using assms(9,11,15) at(1) by (simp_all add: disk_works_def)
  obtain s3 us where s3: "kv_cache_try_load_text env2 engine2 s2 (tx @ suffix) =
      Some (s3, int (length (checkpoint (sv_session s))), checkpoint (sv_session s) @ tokenize_rendered_chat engine2 suffix,
        Some (kv_path_for_sha sha, ext_flags e))"
    "checkpoint (sv_session s3) = checkpoint (sv_session s)" "logits (sv_session s3) = logits (sv_session s)"
    "session_snaps (sv_session s3) = session_snaps (sv_session s)" "session_in_use (sv_session s3)" "tm_inv (sv_tools s3) us"
    "memos (sv_tools s3) us = load_memos (tool_memory_max_entries (sv_tools s2)) (tool_memory_max_bytes (sv_tools s2))
      (map_items (sv_tools s) tx) (memos (sv_tools s2) ys)"
    using load_written [OF e(2,3,6,7) e(1) short assms(3,12,4) open2(2) m2(1) items(3) len(1) assms(19) len(2) assms(20) assms(13)
        _ open2(1) found] quant assms(16) by auto
  then show ?thesis
    using items(1) m(2) m2(2) unfolding implements_def load_memos_def by metis
qed

section \<open>Failed stores\<close>

lemma measure_blocks_same:
  assumes "tm_inv m xs"
  shows "same_but_seen m (fst (measure_blocks scan m ds cb))"
  using assms
proof (induction ds arbitrary: m cb)
  case (Cons d ds)
  show ?case
  proof (cases "tool_memory_find_block_locked m d")
    case (Some q)
    obtain b where b: "block_at m q = Some b"
      using found_block [OF Cons.prems Some] by blast
    note mark = same_but_seen_mark [OF b, of scan]
    have "same_but_seen m (fst (measure_blocks scan (mark_seen m q scan) ds cb'))" for cb'
      using Cons.IH [OF same_but_seen_inv(1) [OF Cons.prems mark]] same_but_seen_trans [OF mark] by blast
    then show ?thesis
      using Cons.IH [OF Cons.prems] Some mark by (auto split: option.split)
  qed (use Cons in simp)
qed (simp add: same_but_seen_refl)

lemma write_blocks_same:
  assumes "tm_inv m xs"
  shows "same_but_seen m (fst (write_blocks scan m ds fo))"
  using assms
proof (induction ds arbitrary: m fo)
  case (Cons d ds)
  show ?case
  proof (cases "tool_memory_find_block_locked m d")
    case (Some q)
    obtain b where b: "block_at m q = Some b"
      using found_block [OF Cons.prems Some] by blast
    note mark = same_but_seen_mark [OF b, of scan]
    have "same_but_seen m (fst (write_blocks scan (mark_seen m q scan) ds fo'))" for fo'
      using Cons.IH [OF same_but_seen_inv(1) [OF Cons.prems mark]] same_but_seen_trans [OF mark] by blast
    then show ?thesis
      using Cons.IH [OF Cons.prems] Some by (auto simp: same_but_seen_refl)
  qed (use Cons in \<open>simp add: same_but_seen_refl\<close>)
qed (simp add: same_but_seen_refl)

lemma measure_same:
  assumes "tm_inv m xs"
  shows "same_but_seen m (fst (kv_tool_map_measure_locked m tx))"
proof -
  let ?m = "m\<lparr>scan_clock := scan_clock m + 1\<rparr>"
  note clock = same_but_seen_clock [of m "scan_clock m + 1"]
  have "same_but_seen m (fst (measure_blocks scan ?m ds cb))" for scan ds cb
    using measure_blocks_same [OF same_but_seen_inv(1) [OF assms clock]] same_but_seen_trans [OF clock] by blast
  then show ?thesis
    by (simp add: kv_tool_map_measure_locked_def Let_def split: prod.split option.split) (metis fst_conv)
qed

lemma size_same:
  assumes "tm_inv m xs" "kv_tool_map_serialized_size off m tx = (m0, r)"
  shows "same_but_seen m m0"
  using assms(2) measure_same [OF assms(1), of tx]
  by (auto simp: kv_tool_map_serialized_size_def same_but_seen_refl split: if_splits prod.splits)

lemma map_write_same:
  assumes "tm_inv m xs" "kv_tool_map_write off m tx f = (m0, r)"
  shows "same_but_seen m m0"
proof -
  obtain m1 c where m1: "kv_tool_map_measure_locked m tx = (m1, c)"
    by (metis prod.exhaust)
  have s1: "same_but_seen m m1"
    using measure_same [OF assms(1), of tx] m1 by simp
  note clock = same_but_seen_trans [OF s1 same_but_seen_clock [of m1 "scan_clock m1 + 1"]]
  have "same_but_seen m (fst (write_blocks scan (m1\<lparr>scan_clock := scan_clock m1 + 1\<rparr>) ds fo))" for scan ds fo
    using write_blocks_same [OF same_but_seen_inv(1) [OF assms(1) clock]] same_but_seen_trans [OF clock] by blast
  then have "same_but_seen m m2"
    if "write_blocks scan (m1\<lparr>scan_clock := scan_clock m1 + 1\<rparr>) ds fo = (m2, p)" for scan ds fo m2 p
    using that by (metis fst_conv)
  then show ?thesis
    using assms(2) s1 m1
    by (auto simp: kv_tool_map_write_def same_but_seen_refl Let_def split: if_splits prod.splits option.splits)
qed

lemma write_checkpoint_same:
  assumes "tm_inv (sv_tools s) xs" "write_checkpoint env s e tx = Some (m, r)"
  shows "same_but_seen (sv_tools s) m"
  using assms(2) map_write_same [OF assms(1)]
  by (auto simp: write_checkpoint_def same_but_seen_refl split: if_splits prod.splits option.splits)

lemma dir_entries_delete: "dir_entries env (AList.delete n fs) = filter (\<lambda>x. ke_path x \<noteq> n) (dir_entries env fs)"
  using dir_entries_filter [of env "{n}" fs] by (simp add: delete_filter)

lemma dir_entries_delete_other:
  assumes "sha_hex_name n = None"
  shows "dir_entries env (AList.delete n fs) = dir_entries env fs"
proof -
  have "ke_path x \<noteq> n" if "x \<in> set (dir_entries env fs)" for x
    using that assms by (auto simp: in_dir_entries entry_of_def)
  then show ?thesis
    by (simp add: dir_entries_delete filter_id_conv)
qed

lemma dir_entries_update_other:
  assumes "sha_hex_name n = None"
  shows "dir_entries env (AList.update n bs fs) = dir_entries env fs"
proof -
  have "entry_of env (AList.update n bs fs) k = entry_of env fs k" for k
  proof (cases "k = n")
    case True
    then show ?thesis using assms by (simp add: entry_of_def)
  next
    case False
    then show ?thesis by (intro entry_of_cong) (simp add: update_conv')
  qed
  then have "entry_of env (AList.update n bs fs) = entry_of env fs"
    by (simp add: fun_eq_iff)
  moreover have "entry_of env fs n = None"
    using assms by (simp add: entry_of_def)
  ultimately show ?thesis
    by (simp add: dir_entries_def update_keys map_filter_def)
qed

text \<open>A checkpoint this server would not use in place of a new one.\<close>

definition replaceable :: "env \<Rightarrow> kv_disk_cache \<Rightarrow> files \<Rightarrow> string \<Rightarrow> int \<Rightarrow> u32 \<Rightarrow> kv_entry \<Rightarrow> bool" where
  "replaceable env kc fs tx quant ctx e \<longleftrightarrow>
     reject_different_quant kc \<and> quant_bits e \<noteq> of_int quant \<or> ctx < ctx_size e \<or>
     \<not> kv_cache_file_text_matches env fs (ke_path e) (ke_sha e) tx"

lemma existing_replaced:
  assumes "kv_cache_existing_compatible env kc fs path sha tx quant ctx = (fs', b)" "sha_hex_name path = Some sha"
  shows "fs' = fs \<or> (\<exists>e \<in> set (dir_entries env fs). ke_sha e = sha \<and> replaceable env kc fs tx quant ctx e \<and>
    dir_entries env fs' = filter (\<lambda>x. ke_path x \<noteq> ke_path e) (dir_entries env fs))"
proof -
  have "entry_of env fs path = Some e \<and> ke_path e = path \<and> ke_sha e = sha"
    if "kv_read_entry_file env fs path sha = Some e" for e
    using that assms(2) entry_of_facts(1,3) [of env fs path e] by (simp add: entry_of_def)
  then show ?thesis
    using assms(1)
    by (auto simp: kv_cache_existing_compatible_def in_dir_entries replaceable_def not_le dir_entries_delete
        split: if_splits option.splits)
qed

lemma failed_store_text:
  assumes "store_text env engine s toks why tx f = Some (s1, False)" "tm_inv (sv_tools s) xs"
  shows "sv_session s1 = sv_session s \<and> sv_kv s1 = sv_kv s \<and> same_but_seen (sv_tools s) (sv_tools s1) \<and>
    (dir_entries env (sv_files s1) = dir_entries env (sv_files s) \<or>
     (\<exists>e \<in> set (dir_entries env (sv_files s)). sha1_bytes_hex (to_bytes tx) = Some (ke_sha e) \<and>
       replaceable env (sv_kv s) (sv_files s) tx (routed_quant_bits engine) (s_ctx_size (sv_session s)) e \<and>
       dir_entries env (sv_files s1) = filter (\<lambda>x. ke_path x \<noteq> ke_path e) (dir_entries env (sv_files s))))"
proof -
  obtain m0 r where m0: "kv_tool_map_serialized_size (sv_replay_off s) (sv_tools s) tx = (m0, r)"
    by (metis prod.exhaust)
  have same0: "same_but_seen (sv_tools s) m0"
    by (rule size_same [OF assms(2) m0])
  have inv0: "tm_inv (sv_tools (s\<lparr>sv_tools := m0\<rparr>)) xs"
    using same_but_seen_inv(1) [OF assms(2) same0] by simp
  have same1: "same_but_seen (sv_tools s) m1" if "write_checkpoint env (s\<lparr>sv_tools := m0\<rparr>) e tx = Some (m1, q)" for e m1 q
    using same_but_seen_trans [OF same0] write_checkpoint_same [OF inv0 that] by simp
  show ?thesis
  proof (cases "sv_files s1 = sv_files s")
    case True
    then show ?thesis
      using assms(1) m0 same0 same1
      by (auto simp: store_text_def Let_def split: option.splits if_splits prod.splits bool.splits)
  next
    case False
    then obtain sha where sha: "sha1_bytes_hex (to_bytes tx) = Some sha"
      using assms(1) m0 by (auto simp: store_text_def Let_def split: option.splits if_splits)
    let ?path = "kv_path_for_sha sha"
    let ?tmp = "?path @ ''.tmp.'' @ env_pid env"
    have tmp: "sha_hex_name ?tmp = None"
      using sha1_name(2) [OF sha] by (simp add: sha_hex_name_def kv_path_for_sha_def)
    obtain fs b where ex: "kv_cache_existing_compatible env (sv_kv s) (sv_files s) ?path sha tx (routed_quant_bits engine)
        (s_ctx_size (sv_session s)) = (fs, b)"
      by (metis prod.exhaust)
    have "sv_session s1 = sv_session s \<and> sv_kv s1 = sv_kv s \<and> same_but_seen (sv_tools s) (sv_tools s1) \<and>
        (sv_files s1 = fs \<or> (\<exists>bs. sv_files s1 = AList.update ?tmp bs fs) \<or> sv_files s1 = AList.delete ?tmp fs)"
      using assms(1) m0 same0 same1 sha ex False
      by (auto simp: store_text_def Let_def split: option.splits if_splits prod.splits bool.splits)
    moreover from this have "dir_entries env (sv_files s1) = dir_entries env fs"
      using dir_entries_update_other [OF tmp] dir_entries_delete_other [OF tmp] by auto
    moreover note existing_replaced [OF ex sha1_name(1) [OF sha]]
    ultimately show ?thesis
      using sha by metis
  qed
qed

text \<open>
  C37: a failed store loses nothing that was of use. Whatever call fails and whenever the device is full, the session and the
  bookkeeping are as before, the tool memory holds the same calls, and the directory shows the same checkpoints, except
  that one with the name of the new text may be gone when this server could not have used it for this text.
\<close>

theorem failed_store_keeps_checkpoints:
  assumes "kv_cache_store_live_prefix_text env engine s toks n why ov ext = Some (s1, False)"
    and "tx = (if ov \<noteq> [] then ov else render_tokens_text engine (take (nat n) toks))" "implements (sv_tools s) l"
  shows "sv_session s1 = sv_session s \<and> sv_kv s1 = sv_kv s \<and> implements (sv_tools s1) l \<and>
    (dir_entries env (sv_files s1) = dir_entries env (sv_files s) \<or>
     (\<exists>e \<in> set (dir_entries env (sv_files s)). sha1_bytes_hex (to_bytes tx) = Some (ke_sha e) \<and>
       replaceable env (sv_kv s) (sv_files s) tx (routed_quant_bits engine) (s_ctx_size (sv_session s)) e \<and>
       dir_entries env (sv_files s1) = filter (\<lambda>x. ke_path x \<noteq> ke_path e) (dir_entries env (sv_files s))))"
proof -
  obtain xs where xs: "tm_inv (sv_tools s) xs" "l = memos (sv_tools s) xs"
    using assms(3) by (auto simp: implements_def)
  have "s1 = s \<or> (\<exists>f. store_text env engine s (take (nat n) toks) why tx f = Some (s1, False))"
    using assms(1) unfolding kv_cache_store_live_prefix_text_def Let_def assms(2) [symmetric]
    by (simp split: if_split_asm) blast+
  then consider "s1 = s" | f where "store_text env engine s (take (nat n) toks) why tx f = Some (s1, False)"
    by blast
  then show ?thesis
  proof cases
    case 1
    then show ?thesis using assms(3) by simp
  next
    case 2
    note f = failed_store_text [OF 2 xs(1)]
    then have "implements (sv_tools s1) l"
      using same_but_seen_inv [OF xs(1), of "sv_tools s1"] xs(2) unfolding implements_def by metis
    with f show ?thesis
      by blast
  qed
qed

text \<open>
  A checkpoint of a server with another prefill chunk counts as compatible, so storing the same text again leaves it in
  place; loading it is always refused.
\<close>

lemma other_prefill_cap_never_loads:
  assumes "fits_u64 (length (session_payload s))" "prefill_cap t \<noteq> prefill_cap s"
  shows "ds4_session_load_payload t (session_payload s @ tail) (of_nat (length (session_payload s))) = Load_failed t"
proof -
  let ?h = "payload_header s"
  obtain rest where rest: "session_payload s = u32_bytes ?h @ rest"
    by (simp add: session_payload_def payload_of_def)
  have h: "length ?h = DS4_SESSION_PAYLOAD_U32_FIELDS" "?h ! 3 = prefill_cap s"
    by (simp_all add: payload_header_def Let_def DS4_SESSION_PAYLOAD_U32_FIELDS_def)
  have "fits_u64 (4 * length ?h + length rest)"
    using assms(1) by (simp add: rest)
  from read_u32s_at [OF this, of tail]
  have "read_u32s DS4_SESSION_PAYLOAD_U32_FIELDS (session_payload s @ tail, of_nat (length (session_payload s))) =
      Some (?h, reader_at rest tail)"
    by (simp add: h(1) rest reader_at_def)
  moreover have "\<not> header_fits t ?h"
    using assms(2) by (simp add: header_fits_def Let_def h(2))
  ultimately show ?thesis
    by (simp add: ds4_session_load_payload_def)
qed

lemma other_prefill_cap_stays:
  assumes "kv_read_entry_file env fs path sha = Some e" "quant_bits e = of_int quant" "ctx_size e \<le> ctx"
    "kv_cache_file_text_matches env fs path sha tx"
  shows "kv_cache_existing_compatible env kc fs path sha tx quant ctx = (fs, True)"
  using assms by (auto simp: kv_cache_existing_compatible_def kv_read_entry_file_def split: option.splits)

end
