(* ===== verification/Kv_Store_Witness.thy ===== *)
theory Kv_Store_Witness
  imports Kv_Store_Properties
begin

section \<open>A store that succeeds\<close>

lemma sha1_total: "\<exists>h. sha1_bytes_hex m = Some h"
proof -
  obtain c where c: "sha1_update sha1_init m = Some c" "ctx_ok c" "sha_bytes c = of_nat (length m)" "sha_used c = length m mod 64"
    using sha1_update_ok [OF sha1_init_ok(1), of m] by (auto simp: sha1_init_ok)
  then obtain d where "sha1_final c = Some d"
    using sha1_final_ok [OF c(2,4,3)] by blast
  then show ?thesis
    by (simp add: sha1_bytes_hex_def c(1))
qed

lemma length_checkpoint_bytes:
  "length (checkpoint_bytes s e tx) =
    52 + length tx + length (session_payload (sv_session s)) + length (map_bytes (map_items (sv_tools s) tx))"
  by (simp add: checkpoint_bytes_def)

lemma write_checkpoint_succeeds:
  assumes "session_in_use (sv_session s)" "tm_inv (sv_tools s) xs" "scans_left (sv_tools s)"
    "writable (map_items (sv_tools s) tx)" "\<not> sv_replay_off s" "\<not> env_fails env Io_flush"
    "length (checkpoint_bytes s e tx) \<le> env_room env"
  shows "\<exists>m. write_checkpoint env s e tx =
    Some (m, checkpoint_bytes s e tx, True, of_nat (length (map_bytes (map_items (sv_tools s) tx))))"
proof -
  let ?f0 = "\<lparr>written = [], room = env_room env\<rparr>"
  let ?h = "kv_fill_header e @ le_put32 (of_nat (length tx)) @ to_bytes tx"
  obtain f ok where f: "then_write (then_write (fwrite (kv_fill_header e) ?f0) (le_put32 (of_nat (length tx)))) (to_bytes tx) = (f, ok)"
    by (metis prod.exhaust)
  have w1: "wrote (?f0, True) ?h (f, ok)"
    using wrote_trans [OF wrote_trans [OF wrote_fwrite wrote_then] wrote_then, of ?f0 "kv_fill_header e"
        "le_put32 (of_nat (length tx))" "to_bytes tx"] by (simp add: f)
  then have 1: "ok" "written f = ?h" "room f = env_room env - length ?h"
    using assms(7) by (simp_all add: wrote_def length_checkpoint_bytes)
  obtain f1 ok1 where f1: "ds4_session_save_payload (sv_session s) f = Some (f1, ok1)"
    "wrote (f, True) (session_payload (sv_session s)) (f1, ok1)"
    using save_payload_exact [OF assms(1)] by blast
  then have 2: "ok1" "written f1 = ?h @ session_payload (sv_session s)"
    "room f1 = env_room env - length ?h - length (session_payload (sv_session s))"
    using assms(7) 1 by (simp_all add: wrote_def length_checkpoint_bytes)
  obtain m2 f2 ok2 n2 where f2: "kv_tool_map_write False (sv_tools s) tx f1 = (m2, f2, ok2, n2)"
    by (metis prod_cases4)
  note w2 = kv_tool_map_write_exact [OF assms(2,3,4) f2]
  have "length (map_bytes (map_items (sv_tools s) tx)) \<le> room f1"
    using assms(7) unfolding 2(3) by (simp add: length_checkpoint_bytes)
  then have 3: "ok2" "n2 = of_nat (length (map_bytes (map_items (sv_tools s) tx)))"
    "written f2 = checkpoint_bytes s e tx"
    using w2 2(1,2) by (simp_all add: wrote_def checkpoint_bytes_def)
  show ?thesis
    using assms(5,6) 1(1) 2(1) 3 by (simp add: write_checkpoint_def f f1(1) f2)
qed

lemma store_text_succeeds:
  assumes "session_in_use (sv_session s)" "unat (ds4_session_payload_bytes (sv_session s)) = length (session_payload (sv_session s))"
    "tm_inv (sv_tools s) xs" "scans_for_store (sv_tools s)" "writable (map_items (sv_tools s) tx)" "\<not> sv_replay_off s"
    "\<And>c. \<not> env_fails env c" "budget_bytes (sv_kv s) = 0" "sv_files s = []"
    "52 + length tx + length (session_payload (sv_session s)) + length (map_bytes (map_items (sv_tools s) tx)) \<le> env_room env"
    "env_room env < 18446744073709551616"
  shows "\<exists>s1. store_text env engine s toks why tx f = Some (s1, True)"
proof -
  let ?items = "map_items (sv_tools s) tx"
  obtain m0 where m0: "kv_tool_map_serialized_size False (sv_tools s) tx = (m0, Some (of_nat (length (map_bytes ?items))))"
    "same_but_seen (sv_tools s) m0" "scans_left m0"
    using measured [OF assms(3,4,5)] by blast
  let ?s = "s\<lparr>sv_tools := m0\<rparr>"
  note items0 = map_items_same [OF assms(3) m0(2), of tx]
  have s0: "session_in_use (sv_session ?s)" "tm_inv (sv_tools ?s) xs" "scans_left (sv_tools ?s)"
    "writable (map_items (sv_tools ?s) tx)" "\<not> sv_replay_off ?s"
    using assms(1,5,6) same_but_seen_inv(1) [OF assms(3) m0(2)] m0(3) items0 by simp_all
  have w: "\<exists>m. write_checkpoint env ?s e tx = Some (m, checkpoint_bytes ?s e tx, True, of_nat (length (map_bytes ?items)))" for e
    using write_checkpoint_succeeds [OF s0 assms(7), of e] assms(10) items0 by (simp add: length_checkpoint_bytes)
  obtain h where h: "sha1_bytes_hex (to_bytes tx) = Some h"
    using sha1_total by blast
  have u: "unat (of_nat (length tx) :: u64) = length tx" "unat (of_nat (length (map_bytes ?items)) :: u64) = length (map_bytes ?items)"
    using assms(10,11) by (simp_all add: unat_of_nat)
  have v: "unat (52 + of_nat (length tx) :: u64) = 52 + length tx"
    "unat (52 + of_nat (length tx) + ds4_session_payload_bytes (sv_session s)) = 52 + length tx + length (session_payload (sv_session s))"
    using assms(2,10,11) u(1) by (simp_all add: unat_word_ariths)
  have "\<not> UINT64_MAX - 52 < of_nat (length tx)"
    "\<not> UINT64_MAX - 52 - of_nat (length tx) < ds4_session_payload_bytes (sv_session s)"
    "\<not> UINT64_MAX - 52 - of_nat (length tx) - ds4_session_payload_bytes (sv_session s) < of_nat (length (map_bytes ?items))"
    using assms(2,10,11) u v unfolding diff_diff_eq u64_add_overflow_iff by simp_all
  then have fits: "kv_cache_file_size_fits (sv_kv s) (of_nat (length tx)) (ds4_session_payload_bytes (sv_session s))
      (of_nat (length (map_bytes ?items)))"
    using assms(8) by (simp add: kv_cache_file_size_fits_def kv_cache_file_size_bytes_def KV_CACHE_FIXED_HEADER_def Let_def)
  obtain m1 where m1: "write_checkpoint env ?s (store_entry env ?s (routed_quant_bits engine) toks why
      ((if (of_nat (length (map_bytes ?items)) :: u64) > 0 then KV_EXT_TOOL_MAP else 0) OR f)) tx =
      Some (m1, checkpoint_bytes ?s (store_entry env ?s (routed_quant_bits engine) toks why
      ((if (of_nat (length (map_bytes ?items)) :: u64) > 0 then KV_EXT_TOOL_MAP else 0) OR f)) tx, True, of_nat (length (map_bytes ?items)))"
    using w by blast
  show ?thesis
    unfolding store_text_def Let_def
    using assms(6,7,8,9) fits m1
    by (simp add: m0(1) h kv_cache_existing_compatible_def kv_cache_evict_def)
qed

definition disk_example :: env where
  "disk_example = \<lparr>env_now = 1, env_room = 1125899906842624, env_fails = (\<lambda>_. False), env_pid = ''1'', env_exp2 = (\<lambda>_. 1 / 2)\<rparr>"

definition engine_example :: ds4_engine where
  "engine_example = \<lparr>routed_quant_bits = 2, token_text = (\<lambda>_. ''a''), tokenize_rendered_chat = map (\<lambda>c. of_nat (of_char c))\<rparr>"

definition store_example :: kv_server where
  "store_example =
     \<lparr>sv_kv = kv_disk_cache_zero\<lparr>enabled := True\<rparr>, sv_files = [], sv_session = saved_example,
      sv_tools = tool_memory_empty 8 5000, sv_replay_off = False\<rparr>"

lemma example_implements: "implements (sv_tools store_example) []"
  using tm_inv_empty by (auto simp: implements_def memos_def store_example_def)

lemma example_items: "map_items (sv_tools store_example) tx = []"
  using map_items_props(4) [OF tm_inv_empty, of 8 5000 tx]
  by (simp add: memos_def store_example_def all_loadable_def)

lemma example_scans: "scans_for_store (sv_tools store_example)"
  by (simp add: scans_for_store_def seen_le_def store_example_def tool_memory_empty_def)

lemma example_disk: "disk_works disk_example []"
  by (simp add: disk_works_def disk_example_def dir_bytes_def exp2_ok_def)

lemma disk_example_opens: "\<not> env_fails disk_example c" "enabled (kv_disk_cache_zero\<lparr>enabled := True\<rparr>)"
  by (simp_all add: disk_example_def)

lemma example_payload_bytes: "ds4_session_payload_bytes saved_example \<noteq> 0"
proof -
  have "0 < length (session_payload saved_example)"
    by (simp add: session_payload_def payload_of_def payload_header_def Let_def)
  then show ?thesis
    using session_payload_size [OF saved_example_in_use larger_accepts] by auto
qed

lemma example_stores:
  "\<exists>s1. kv_cache_store_live_prefix_text disk_example engine_example store_example [5] 1 ''cold'' [] 0 = Some (s1, True)"
proof -
  have "52 + length ''a'' + length (session_payload saved_example) + length (map_bytes []) \<le> env_room disk_example"
    using session_payload_bound [OF saved_example_in_use larger_accepts] by (simp add: disk_example_def map_bytes_def)
  then obtain s1 where "store_text disk_example engine_example store_example [5] ''cold'' ''a'' 0 = Some (s1, True)"
    using store_text_succeeds [of store_example _ "''a''" disk_example engine_example "[5]" "''cold''" 0]
      saved_example_in_use session_payload_size [OF saved_example_in_use larger_accepts] tm_inv_empty example_items example_scans
    by (simp add: store_example_def writable_def records_bytes_def disk_example_def kv_disk_cache_zero_def) blast
  moreover have "checkpoint saved_example = [5]"
    by (simp add: saved_example_def)
  ultimately show ?thesis
    using example_payload_bytes
    by (simp add: kv_cache_store_live_prefix_text_def Let_def store_example_def kv_disk_cache_zero_def engine_example_def
        ds4_tokens_starts_with_def render_tokens_text_def too_long_def)
qed

theorem stored_checkpoint_loads_witness:
  "\<exists>s1 s3 file. kv_cache_store_live_prefix_text disk_example engine_example store_example [5] 1 ''cold'' [] 0 = Some (s1, True) \<and>
    kv_cache_try_load_text disk_example engine_example (store_example\<lparr>sv_files := sv_files s1, sv_session := larger_session\<rparr>) ''ab'' =
      Some (s3, 1, [5, 98], Some file) \<and> checkpoint (sv_session s3) = [5] \<and> session_in_use (sv_session s3)"
proof -
  obtain s1 where s1: "kv_cache_store_live_prefix_text disk_example engine_example store_example [5] 1 ''cold'' [] 0 = Some (s1, True)"
    using example_stores by blast
  have c: "checkpoint (sv_session store_example) = [5]"
    by (simp add: store_example_def saved_example_def)
  note load = stored_checkpoint_loads [OF s1 refl _ _ example_implements _ example_scans, of
      "store_example\<lparr>sv_files := sv_files s1, sv_session := larger_session\<rparr>" disk_example engine_example "[]" "''b''"]
  show ?thesis
    using load s1 c saved_example_in_use larger_accepts example_implements example_disk
    by (simp add: store_example_def all_loadable_def dir_entries_def tool_memory_empty_def tool_memory_max_entries_def
        kv_disk_cache_zero_def engine_example_def render_tokens_text_def) blast
qed

section \<open>A device that is full\<close>

theorem failed_store_keeps_checkpoints_witness:
  "\<exists>s1. kv_cache_store_live_prefix_text (disk_example\<lparr>env_room := 0\<rparr>) engine_example store_example [5] 1 ''cold'' [] 0 =
      Some (s1, False) \<and> dir_entries (disk_example\<lparr>env_room := 0\<rparr>) (sv_files s1) = [] \<and> sv_session s1 = saved_example \<and>
    implements (sv_tools s1) []"
proof -
  let ?env = "disk_example\<lparr>env_room := 0\<rparr>"
  obtain m0 where m0: "kv_tool_map_serialized_size False (sv_tools store_example) ''a'' = (m0, Some 0)"
    using measured [of "tool_memory_empty 8 5000" "[]" "''a''"] tm_inv_empty example_items [of "''a''"] example_scans
    by (auto simp: store_example_def writable_def records_bytes_def map_bytes_def)
  obtain h where h: "sha1_bytes_hex (to_bytes ''a'') = Some h"
    using sha1_total by blast
  have size: "unat (ds4_session_payload_bytes saved_example) \<le> 281474976710656"
    using session_payload_bound [OF saved_example_in_use larger_accepts] session_payload_size [OF saved_example_in_use larger_accepts]
    by simp
  have "\<not> UINT64_MAX - 52 < 1" "\<not> UINT64_MAX - 52 - 1 < ds4_session_payload_bytes saved_example"
    using size by (simp_all add: word_less_nat_alt)
  then have fits: "kv_cache_file_size_fits (kv_disk_cache_zero\<lparr>enabled := True\<rparr>) 1 (ds4_session_payload_bytes saved_example) 0"
    by (simp add: kv_cache_file_size_fits_def kv_cache_file_size_bytes_def KV_CACHE_FIXED_HEADER_def Let_def kv_disk_cache_zero_def)
  have full: "write_checkpoint ?env s e tx = Some (sv_tools s, [], False, 0)" for s e tx
    by (simp add: write_checkpoint_def then_write_def fwrite_def disk_example_def)
  have "checkpoint saved_example = [5]"
    by (simp add: saved_example_def)
  then obtain s1 where s1: "kv_cache_store_live_prefix_text ?env engine_example store_example [5] 1 ''cold'' [] 0 = Some (s1, False)"
    using example_payload_bytes m0 h fits full
    by (simp add: kv_cache_store_live_prefix_text_def store_text_def Let_def store_example_def kv_disk_cache_zero_def
        engine_example_def ds4_tokens_starts_with_def render_tokens_text_def too_long_def kv_cache_existing_compatible_def
        disk_example_opens(1))
  from failed_store_keeps_checkpoints [OF s1 refl example_implements] s1 show ?thesis
    by (simp add: store_example_def dir_entries_def map_filter_def)
qed

section \<open>A directory with two files\<close>

definition entry_example :: kv_entry where
  "entry_example = kv_entry_zero\<lparr>quant_bits := 2, tokens := 1\<rparr>"

definition file_example :: "u8 list" where
  "file_example = kv_fill_header entry_example @ le_put32 0"

lemma length_file_example: "length file_example = 52"
  by (simp add: file_example_def)

lemma read_file_example:
  assumes "map_of fs n = Some file_example" "\<not> env_fails env (Io_open n)"
  shows "kv_read_entry_file env fs n sha = Some (entry_example\<lparr>ke_sha := sha, ke_path := n, text_bytes := 0, file_size := 52\<rparr>)"
proof -
  have "kv_read_header file_example = Some (stored_fields entry_example 0, 0, [])"
    using kv_read_fill_header [of entry_example 0 "[]"]
    by (simp add: file_example_def header_ok_def entry_example_def kv_entry_zero_def KV_REASON_SHUTDOWN_def)
  then show ?thesis
    using assms by (simp add: kv_read_entry_file_def KV_CACHE_FIXED_HEADER_def Let_def length_file_example)
      (simp add: stored_fields_def entry_example_def kv_entry_zero_def)
qed

abbreviation name_of :: "char \<Rightarrow> string" where
  "name_of c \<equiv> replicate 40 c @ ''.kv''"

definition files_example :: files where
  "files_example = [(name_of CHR ''a'', file_example), (name_of CHR ''b'', file_example)]"

lemma names_example: "sha_hex_name (name_of CHR ''a'') = Some (replicate 40 CHR ''a'')"
  "sha_hex_name (name_of CHR ''b'') = Some (replicate 40 CHR ''b'')" "name_of CHR ''a'' \<noteq> name_of CHR ''b''"
  by code_simp+

lemma files_at: "map_of files_example (name_of CHR ''a'') = Some file_example" "map_of files_example (name_of CHR ''b'') = Some file_example"
  using names_example(3) by (simp_all only: files_example_def map_of.simps fst_conv snd_conv fun_upd_apply if_cancel if_True if_False refl)

theorem eviction_meets_budget_witness:
  "\<exists>kc' fs'. kv_cache_evict disk_example (Some (replicate 40 CHR ''b''))
      (kv_disk_cache_zero\<lparr>enabled := True, budget_bytes := 60\<rparr>) files_example = (kc', fs') \<and>
    cache_bytes disk_example files_example = 104 \<and> cache_bytes disk_example fs' \<le> 60 \<and>
    (name_of CHR ''b'', file_example) \<in> set fs'"
proof -
  let ?e = "\<lambda>c. entry_example\<lparr>ke_sha := replicate 40 c, ke_path := name_of c, text_bytes := 0, file_size := 52\<rparr>"
  let ?kc = "kv_disk_cache_zero\<lparr>enabled := True, budget_bytes := 60\<rparr>"
  have e: "entry_of disk_example files_example (name_of CHR ''a'') = Some (?e CHR ''a'')"
    "entry_of disk_example files_example (name_of CHR ''b'') = Some (?e CHR ''b'')"
    using read_file_example [OF files_at(1) disk_example_opens(1)] read_file_example [OF files_at(2) disk_example_opens(1)]
      names_example(1,2) by (simp_all only: entry_of_def option.case)
  have d: "dir_entries disk_example files_example = [?e CHR ''a'', ?e CHR ''b'']"
    unfolding dir_entries_def by (simp only: files_example_def list.map fst_conv map_filter_simps e [unfolded files_example_def] option.case)
  have size: "cache_bytes disk_example files_example = 104"
    unfolding cache_bytes_def by (simp only: files_example_def filter.simps fst_conv e [unfolded files_example_def]) (simp add: length_file_example)
  obtain kc' fs' where run: "kv_cache_evict disk_example (Some (replicate 40 CHR ''b'')) ?kc files_example = (kc', fs')"
    by (metis prod.exhaust)
  have "distinct (map fst files_example)"
    using names_example(3) by (simp only: files_example_def list.map fst_conv) simp
  note result = eviction_meets_budget [OF _ _ this _ _ _ _ run]
  have ok: "exp2_ok disk_example"
    by (simp add: exp2_ok_def disk_example_def)
  obtain D where D: "fs' = filter (\<lambda>f. fst f \<notin> D) files_example" "cache_bytes disk_example fs' \<le> 60"
    "\<forall>e \<in> set [?e CHR ''a'', ?e CHR ''b'']. Some (replicate 40 CHR ''b'') = Some (ke_sha e) \<longrightarrow>
      (\<forall>x \<in> set [?e CHR ''a'', ?e CHR ''b'']. ke_sha x = ke_sha e \<longrightarrow> x = e) \<longrightarrow> file_size e \<le> budget_bytes ?kc \<longrightarrow> ke_path e \<notin> D"
    using result [unfolded d size] ok by (auto simp: disk_example_def)
  have "name_of CHR ''b'' \<notin> D"
    using D(3) by simp
  then show ?thesis
    using run size D(1,2) by (intro exI [of _ kc'] exI [of _ fs']) (simp add: files_example_def)
qed

theorem find_longest_prefix_witness:
  "\<exists>h kc'. kv_cache_find_text_prefix disk_example [(kv_path_for_sha h, file_example)] (kv_disk_cache_zero\<lparr>enabled := True\<rparr>)
      ''hi'' 2 256 = (kc', Some 0)"
proof -
  obtain h where h: "sha1_bytes_hex (to_bytes []) = Some h"
    using sha1_total by blast
  let ?fs = "[(kv_path_for_sha h, file_example)]" and ?kc = "kv_disk_cache_zero\<lparr>enabled := True\<rparr>"
  obtain kc' r where run: "kv_cache_find_text_prefix disk_example ?fs ?kc ''hi'' 2 256 = (kc', r)"
    by (metis prod.exhaust)
  have "entry_of disk_example ?fs (kv_path_for_sha h) =
      Some (entry_example\<lparr>ke_sha := h, ke_path := kv_path_for_sha h, text_bytes := 0, file_size := 52\<rparr>)"
    using read_file_example [of ?fs "kv_path_for_sha h" disk_example h] sha1_name(1) [OF h]
    by (simp add: entry_of_def disk_example_def)
  then have d: "dir_entries disk_example ?fs = [entry_example\<lparr>ke_sha := h, ke_path := kv_path_for_sha h, text_bytes := 0, file_size := 52\<rparr>]"
    by (simp add: dir_entries_def map_filter_def)
  have "prefix_entry ?kc ''hi'' 2 256 (entry_example\<lparr>ke_sha := h, ke_path := kv_path_for_sha h, text_bytes := 0, file_size := 52\<rparr>)"
    using h by (simp add: prefix_entry_def entry_usable_def entry_example_def kv_entry_zero_def kv_disk_cache_zero_def)
  note serves = this [unfolded prefix_entry_iff]
  then have "r = Some 0"
    using find_longest_prefix [OF disk_example_opens(2,1) run] by (cases r) (auto simp: d Let_def)
  then show ?thesis
    using run by blast
qed

end
