(* ===== verification/Spec2Isabelle.thy ===== *)
theory Spec2Isabelle
  imports Pack_Properties Context_Properties Layer_Properties Json_Properties
    Job_Properties Stream_Properties Dsml_Properties Tool_Text_Properties
    Tool_Memory_Properties Buffers Kv_File_Properties Session_Properties
    Session_Overrun Kv_Evict Kv_Find Kv_Store_Witness
begin

text \<open>
  Verification development of the DS4 appliance, an inference server for one language model in C and CUDA.

  \<^bold>\<open>The program.\<close> A model file is cut into shards, one per GPU, by \<open>tools/pack.c\<close>, which also writes a text index
  with one row per tensor. At start \<open>engine/context.c\<close> reads this index with \<open>ds4_pack.c\<close> (and a second one,
  for experts repacked for TurboMind kernels, with \<open>ds4_turbomind_pack.c\<close>), plans the KV caches, checks topology and
  memory, and binds every row to the stage of the pipeline that owns it. For each layer \<open>engine/layer_state.c\<close> turns
  the bound rows into matrices with checked dimensions, owners and arena spans; the kernels read them through these
  views in the formats of \<open>ds4_source_formats.c\<close>. \<open>ds4_server.c\<close> serves the model: client threads read a request
  as JSON, put it in a queue and wait; one worker thread takes the jobs in order, samples tokens, streams text up to
  the first stop sequence, follows the tool call markup while it is generated, parses it into calls, and remembers
  the exact text it sampled, so that a client that sends a call back gets the same bytes into the next prompt. It keeps
  checkpoints of sessions in files named by the SHA-1 of the text they stand for: a header, the text, the state of the
  session as \<open>ds4.c\<close> writes it, and the remembered calls that occur in the text.

  \<^bold>\<open>Parts and theories.\<close>
  \<^item> \<open>Prelude\<close>: word types, results (\<open>res_bind\<close>, \<open>check\<close>, \<open>fold_res\<close>), C strings, \<open>strtoull\<close>, decimal printing, and the
    lemmas on them; the collections of rules the components use.
  \<^item> \<open>Pack\<close>, \<open>Packer\<close>, \<open>Tm_Pack\<close> (\<open>ds4_pack.c\<close>, \<open>tools/pack.c\<close>, \<open>ds4_turbomind_pack.c\<close>): rows, readers, queries,
    reconciliation, the packer's layout and emission. \<open>Pack_Properties\<close>: what is written opens again and names the source
    bytes of its tensor, tensors of a GPU do not overlap, an opened index is well formed, sizes are exact.
  \<^item> \<open>Policy\<close>, \<open>Kv_Plan\<close>, \<open>Context\<close> (\<open>engine/context.c\<close>): options and policy, the derived KV plan with saturating
    arithmetic, opening and binding. \<open>Context_Properties\<close>, \<open>Context_Success\<close>: KV buffers are disjoint and inside their
    arena, budgets are exact, bound tensors are sound, counters are those of the descriptors, and when opening succeeds.
  \<^item> \<open>Source_Formats\<close> (\<open>ds4_source_formats.c\<close>): sizes and decoders of the number formats as exact rationals, infinities and NaN.
  \<^item> \<open>Layer_State\<close>, \<open>Layer_Bounds\<close> (\<open>engine/layer_state.c\<close>): binding of one layer, expert slices, arena spans.
    \<open>Layer_Properties\<close>: spans are the exact ends of their matrices, slices of experts are disjoint, rows decode exactly.
  \<^item> \<open>Json\<close> (\<open>ds4_server.c\<close>): reader, skipper, minifier and writers. \<open>Json_Grammar\<close> states the grammar as an inductive
    definition; \<open>Json_Properties\<close>: the skipper accepts exactly this grammar, written strings are read back.
  \<^item> \<open>Job_Queue\<close> (\<open>ds4_server.c\<close>): the linked queue and the threads as a step relation whose steps are the critical
    sections. \<open>Job_Properties\<close>: refinement of a FIFO buffer, safe shutdown, every waiting job is served.
  \<^item> \<open>Search\<close>, \<open>Stream_Text\<close>: substring search, stop sequences and what may be sent. \<open>Stream_Properties\<close>: the client gets
    exactly the text before the first stop sequence that a token completes, whatever the cuts when none contains
    another; chunks end between characters.
  \<^item> \<open>Dsml\<close>, \<open>Dsml_Tracker\<close>, \<open>Dsml_Reference\<close>: markup, escaping and the tracker that decides how the next token is
    sampled, with the recognizer of the tests as a second definition. \<open>Dsml_Properties\<close>: attribute round trip, and
    the tracker's state does not depend on how the text is cut.
  \<^item> \<open>Tool_Text\<close>, \<open>Tool_Text_Lemmas\<close>: rendering calls as markup and parsing generated messages.
    \<open>Tool_Text_Properties\<close>: rendered calls parse back, and the calls are those of the text
    behind the reasoning alone.
  \<^item> \<open>Lru_List\<close>, \<open>Tool_Memory\<close>: the doubly linked recency list and the memory of sampled calls with shared texts and
    reference counts. \<open>Tool_Memory_Inv\<close>, \<open>Tool_Memory_Spec\<close>, \<open>Tool_Memory_Properties\<close>: well-formedness under every
    operation, refinement of a bounded list of the most recently used ids, exact replay.
  \<^item> \<open>Buffers\<close>: the growing text buffer and when reserving returns.
  \<^item> \<open>Sha1\<close> (\<open>ds4_server.c\<close>): the buffered digest that names checkpoint files, with the definition of FIPS 180-4 beside it
    and the proof that they agree on every message.
  \<^item> \<open>Kv_File\<close>, \<open>Kv_File_Lemmas\<close> (\<open>ds4_server.c\<close>): files as byte lists, the header and the tool map of a checkpoint.
    \<open>Kv_File_Properties\<close>: the map has the announced size and is read back into the memory.
  \<^item> \<open>Session_Payload\<close>, \<open>Session_Lemmas\<close> (\<open>ds4.c\<close>): sessions of the CPU backend, saving and loading them.
    \<open>Session_Properties\<close>: a saved session loads into every session that can hold it. \<open>Session_Overrun\<close>: the one kind
    of payload for which loading writes behind a buffer, and what a failed load leaves.
  \<^item> \<open>Kv_Disk\<close>, \<open>Kv_Store\<close> (\<open>ds4_server.c\<close>): the directory of checkpoints as a list of files, the scores of eviction in
    double arithmetic, the rules for when to store; storing, replacing, lookup and loading. \<open>Kv_Evict\<close>: eviction ends
    within the budget and keeps the new checkpoint. \<open>Kv_Find\<close>: lookup finds the longest stored prefix of a prompt.
    \<open>Kv_Checkpoint\<close>, \<open>Kv_Store_Properties\<close>: what is stored is found and loaded again, with session and tool calls, and
    a failed store loses nothing of use. \<open>Kv_Store_Witness\<close>: stores and directories the theorems apply to.
  \<^bold>\<open>Correspondence.\<close> Definitions carry the names of the functions they model; a suffix names a part of one, a loop body or
  a loop (\<open>attach_call\<close>, \<open>update_loop\<close>). Structs are records, enums datatypes, \<open>uint32_t\<close> and \<open>uint64_t\<close> are \<open>u32\<close> and
  \<open>u64\<close> with their wrap-around, \<open>size_t\<close> is \<open>u64\<close> where a sum can wrap and a natural number where it counts bytes the
  process holds. What the operating system does in a call of the disk cache, which calls fail, the room on the device and
  the clock, is a parameter (\<open>env\<close>), as are the engine's tokenizer and the texts of its tokens (\<open>ds4_engine\<close>). Errors are values of a sum or an option, in the order the code tests them. A text is the list of its
  bytes; a C string ends at the first NUL (\<open>c_str\<close>). A cursor into a text is the rest of the text.

  \<^bold>\<open>Interfaces.\<close> Locales state what a client of a component relies on, and each is interpreted on the model's own
  definitions in the theory of the provider: \<open>keyed_table\<close> by the lookups of the two pack indexes, \<open>saturating\<close> by the
  64-bit sums of the KV plan, \<open>recency_list\<close> by the linked list of \<open>Lru_List\<close>.

  \<^bold>\<open>Loops.\<close> Recursion is structural or has a measure wherever the code's loop ends on its own. Where it ends only because
  of an invariant the loop is a partial function whose value \<open>None\<close> means that it does not return, and a theorem shows
  when it returns: the growth loop of \<open>buf_reserve\<close> (for every size up to \<open>2 ^ 63\<close>), the pruning loop of the tool
  memory (for every well-formed memory), the loops of SHA-1 (always). No fuel is used.

  \<^bold>\<open>Not modelled.\<close> The kernels and device code (\<open>*.cu\<close>, \<open>ds4_metal.m\<close>, \<open>kernels/\<close>) are concurrent floating-point code of
  devices. Of \<open>ds4.c\<close> the inference itself is floating-point tensor code; the
  reader of model files, the tokenizer and the GPU branch of the session functions are left out as well.
  The layer execution, scheduler and replay of \<open>engine/\<close> are sequences of device calls on the spans modelled here. Of
  the server, request parsing beyond its JSON, prompt rendering, the structured streams of the three protocols, HTTP and
  logging are formatted input and output around the parts that are modelled. The command line tools print plans and
  measurements. \<open>rax.c\<close> and \<open>linenoise.c\<close> are third-party libraries; the tree is taken as a finite map. Allocation is
  taken to succeed, since the program exits when it fails.
\<close>

end
